(* ===== verification/Prelude.thy ===== *)
theory Prelude
  imports Main "HOL-Library.Sublist"
begin

section \<open>Prelude: results, lists and maps shared by the components\<close>

text \<open>
  The Go code returns \<open>(value, error)\<close> pairs; the model returns \<open>'e + 'a\<close>, where
  \<open>Inl e\<close> is a non-nil error and \<open>Inr v\<close> a value with a nil error. The errors
  of a component are a datatype of that component, one constructor per return statement
  that builds an error, so that no branch of the source is lost; the rendered message text
  is left out where nothing reads it.

  The collections: \<open>go_strings\<close> holds the facts on Go's string library, \<open>wf_intros\<close>
  the preservation facts of the components' invariants.
\<close>

named_theorems go_strings
named_theorems wf_intros

subsection \<open>Results\<close>

type_synonym ('e, 'a) result = "'e + 'a"

definition and_then :: "('e, 'a) result \<Rightarrow> ('a \<Rightarrow> ('e, 'b) result) \<Rightarrow> ('e, 'b) result" where
  "and_then r f = (case r of Inl e \<Rightarrow> Inl e | Inr x \<Rightarrow> f x)"

definition check :: "bool \<Rightarrow> 'e \<Rightarrow> ('e, unit) result" where
  "check b e = (if b then Inr () else Inl e)"

definition is_ok :: "('e, 'a) result \<Rightarrow> bool" where
  "is_ok r = (case r of Inl _ \<Rightarrow> False | Inr _ \<Rightarrow> True)"

lemma and_then_simps [simp]:
  "and_then (Inl e) f = Inl e"
  "and_then (Inr x) f = f x"
  by (simp_all add: and_then_def)

lemma is_ok_simps [simp]: "is_ok (Inl e) = False" "is_ok (Inr x) = True"
  by (simp_all add: is_ok_def)

lemma and_then_Inr_iff: "and_then r f = Inr y \<longleftrightarrow> (\<exists>x. r = Inr x \<and> f x = Inr y)"
  by (cases r) auto

lemma and_then_Inl_iff:
  "and_then r f = Inl e \<longleftrightarrow> r = Inl e \<or> (\<exists>x. r = Inr x \<and> f x = Inl e)"
  by (cases r) auto

lemma check_Inr_iff [simp]: "check b e = Inr u \<longleftrightarrow> b"
  by (auto simp: check_def)

lemma check_Inl_iff [simp]: "check b e = Inl e' \<longleftrightarrow> \<not> b \<and> e' = e"
  by (auto simp: check_def)

lemma is_ok_iff: "is_ok r \<longleftrightarrow> (\<exists>x. r = Inr x)"
  by (cases r) auto

text \<open>A loop whose body may return an error stops at the first one.\<close>

fun each_ok :: "('a \<Rightarrow> ('e, unit) result) \<Rightarrow> 'a list \<Rightarrow> ('e, unit) result" where
  "each_ok f [] = Inr ()"
| "each_ok f (x # xs) = and_then (f x) (\<lambda>_. each_ok f xs)"

lemma each_ok_Inr_iff: "each_ok f xs = Inr u \<longleftrightarrow> (\<forall>x \<in> set xs. is_ok (f x))"
  by (induction xs) (auto simp: and_then_Inr_iff is_ok_iff)

lemma each_ok_Inl_iff:
  "each_ok f xs = Inl e \<longleftrightarrow>
     (\<exists>ys x zs. xs = ys @ x # zs \<and> (\<forall>y \<in> set ys. is_ok (f y)) \<and> f x = Inl e)"
proof (induction xs)
  case Nil
  show ?case by simp
next
  case (Cons a xs)
  show ?case
  proof (cases "f a")
    case (Inl e')
    then have "ys = []" if "a # xs = ys @ x # zs" "\<forall>y \<in> set ys. is_ok (f y)" for ys x zs
      using that by (cases ys) auto
    with Inl show ?thesis by fastforce
  next
    case (Inr u)
    have "(\<exists>ys x zs. a # xs = ys @ x # zs \<and> (\<forall>y \<in> set ys. is_ok (f y)) \<and> f x = Inl e) \<longleftrightarrow>
      (\<exists>ys x zs. xs = ys @ x # zs \<and> (\<forall>y \<in> set ys. is_ok (f y)) \<and> f x = Inl e)"
      (is "?L \<longleftrightarrow> ?R")
    proof
      assume ?L
      then obtain ys x zs where *: "a # xs = ys @ x # zs" "\<forall>y \<in> set ys. is_ok (f y)" "f x = Inl e"
        by blast
      with Inr obtain ys' where "ys = a # ys'" by (cases ys) auto
      with * show ?R by auto
    next
      assume ?R
      then obtain ys x zs where "xs = ys @ x # zs" "\<forall>y \<in> set ys. is_ok (f y)" "f x = Inl e"
        by blast
      with Inr show ?L by (intro exI [of _ "a # ys"]) auto
    qed
    with Inr Cons.IH show ?thesis by simp
  qed
qed

subsection \<open>Association lists as Go maps built by a loop\<close>

text \<open>The first entry under a key is the one a lookup returns.\<close>

lemma map_of_append_None [simp]: "map_of xs k = None \<Longrightarrow> map_of (xs @ ys) k = map_of ys k"
  by (simp add: map_add_def)

lemma map_of_append_Some [simp]: "map_of ys k = None \<Longrightarrow> map_of (xs @ ys) k = map_of xs k"
  by (simp add: map_add_def split: option.splits)

end
