(* ===== verification/GoStrings.thy ===== *)
theory GoStrings
  imports Prelude "HOL-Library.Char_ord"
begin

section \<open>Go strings: byte strings, UTF-8 and the functions of package strings\<close>

text \<open>
  A Go \<open>string\<close> is a sequence of bytes; Isabelle's \<open>char\<close> is a byte, so \<open>string\<close> is the
  same type. This theory models the part of Go's standard library the components use:
  \<open>unicode/utf8\<close> (decoding with one replacement rune per invalid byte, encoding, rune
  counts), and the functions of \<open>strings\<close>. It maps to no file of the repository.

  White space and control characters are the complete Unicode sets, recognised by their
  encodings: no encoding of such a character can occur inside the encoding of another
  rune or span an invalid byte, so scanning for the encodings byte by byte finds exactly
  the runes Go's rune loop finds.

  Case mapping of non-ASCII runes is Unicode data: it is the parameter \<open>ulow\<close> of the
  definitions that call \<open>ToLower\<close> (\<open>ufold\<close> for \<open>EqualFold\<close>); ASCII is mapped as Go maps it.
\<close>

subsection \<open>Named bytes\<close>

abbreviation NUL :: char where "NUL \<equiv> CHR 0x00"
abbreviation TAB :: char where "TAB \<equiv> CHR 0x09"
abbreviation NL :: char where "NL \<equiv> CHR 0x0A"
abbreviation CR :: char where "CR \<equiv> CHR 0x0D"
abbreviation QUOTE :: char where "QUOTE \<equiv> CHR 0x22"
abbreviation BACKSLASH :: char where "BACKSLASH \<equiv> CHR 0x5C"

definition byte :: "char \<Rightarrow> nat" where
  "byte c = of_char c"

lemma byte_less [simp]: "byte c < 256"
  by (simp add: byte_def)

lemma char_of_byte [simp]: "char_of (byte c) = c"
  by (simp add: byte_def)

lemma byte_char_of [simp]: "n < 256 \<Longrightarrow> byte (char_of n) = n"
  by (simp add: byte_def)

lemma byte_inject: "byte a = byte b \<longleftrightarrow> a = b"
  by (simp add: byte_def)

subsection \<open>Prefixes, suffixes, substrings\<close>

definition HasPrefix :: "string \<Rightarrow> string \<Rightarrow> bool" where
  "HasPrefix s p \<longleftrightarrow> take (length p) s = p"

definition HasSuffix :: "string \<Rightarrow> string \<Rightarrow> bool" where
  "HasSuffix s p \<longleftrightarrow> length p \<le> length s \<and> drop (length s - length p) s = p"

definition TrimPrefix :: "string \<Rightarrow> string \<Rightarrow> string" where
  "TrimPrefix s p = (if HasPrefix s p then drop (length p) s else s)"

definition TrimSuffix :: "string \<Rightarrow> string \<Rightarrow> string" where
  "TrimSuffix s p = (if HasSuffix s p then take (length s - length p) s else s)"

definition CutPrefix :: "string \<Rightarrow> string \<Rightarrow> string option" where
  "CutPrefix s p = (if HasPrefix s p then Some (drop (length p) s) else None)"

fun Index :: "string \<Rightarrow> string \<Rightarrow> nat option" where
  "Index [] t = (if t = [] then Some 0 else None)"
| "Index (c # cs) t = (if HasPrefix (c # cs) t then Some 0 else map_option Suc (Index cs t))"

definition Contains :: "string \<Rightarrow> string \<Rightarrow> bool" where
  "Contains s t \<longleftrightarrow> Index s t \<noteq> None"

definition ContainsAny :: "string \<Rightarrow> string \<Rightarrow> bool" where
  "ContainsAny s cs \<longleftrightarrow> list_ex (\<lambda>c. c \<in> set cs) s"

fun IndexByte :: "string \<Rightarrow> char \<Rightarrow> nat option" where
  "IndexByte [] d = None"
| "IndexByte (c # cs) d = (if c = d then Some 0 else map_option Suc (IndexByte cs d))"

fun LastIndexByte :: "string \<Rightarrow> char \<Rightarrow> nat option" where
  "LastIndexByte [] d = None"
| "LastIndexByte (c # cs) d =
     (case LastIndexByte cs d of Some i \<Rightarrow> Some (Suc i)
      | None \<Rightarrow> if c = d then Some 0 else None)"

definition Cut :: "string \<Rightarrow> char \<Rightarrow> (string \<times> string) option" where
  "Cut s d = (case IndexByte s d of None \<Rightarrow> None | Some i \<Rightarrow> Some (take i s, drop (Suc i) s))"

lemma HasPrefix_iff [go_strings]: "HasPrefix s p \<longleftrightarrow> (\<exists>r. s = p @ r)"
proof
  assume "HasPrefix s p"
  then have "s = p @ drop (length p) s"
    using append_take_drop_id [of "length p" s] by (simp add: HasPrefix_def)
  then show "\<exists>r. s = p @ r" ..
qed (auto simp: HasPrefix_def)

lemma HasSuffix_iff [go_strings]: "HasSuffix s p \<longleftrightarrow> (\<exists>r. s = r @ p)"
proof
  assume a: "HasSuffix s p"
  then have "s = take (length s - length p) s @ p"
    using append_take_drop_id [of "length s - length p" s] by (simp add: HasSuffix_def)
  then show "\<exists>r. s = r @ p" ..
qed (auto simp: HasSuffix_def)

lemma HasPrefix_append [simp]: "HasPrefix (p @ r) p"
  by (simp add: HasPrefix_def)

lemma HasPrefix_Nil [simp]: "HasPrefix s [] = True"
  by (simp add: HasPrefix_def)

lemma HasSuffix_append [simp]: "HasSuffix (r @ p) p"
  by (simp add: HasSuffix_def)

lemma HasSuffix_Nil [simp]: "HasSuffix s [] = True"
  by (simp add: HasSuffix_def)

lemma HasPrefix_Cons [simp]: "HasPrefix (c # cs) (d # ds) \<longleftrightarrow> c = d \<and> HasPrefix cs ds"
  by (auto simp: HasPrefix_def)

lemma HasPrefix_Nil2 [simp]: "HasPrefix [] p \<longleftrightarrow> p = []"
  by (auto simp: HasPrefix_def)

lemma TrimPrefix_append [simp]: "TrimPrefix (p @ r) p = r"
  by (simp add: TrimPrefix_def)

lemma CutPrefix_Some_iff [go_strings]: "CutPrefix s p = Some r \<longleftrightarrow> s = p @ r"
  by (auto simp: CutPrefix_def HasPrefix_iff)

lemma Contains_Nil [simp]: "Contains [] t \<longleftrightarrow> t = []"
  by (simp add: Contains_def)

lemma Contains_Cons: "Contains (c # cs) t \<longleftrightarrow> HasPrefix (c # cs) t \<or> Contains cs t"
  by (auto simp: Contains_def)

lemma Contains_iff_infix [go_strings]: "Contains s t \<longleftrightarrow> (\<exists>a b. s = a @ t @ b)"
proof (induction s)
  case Nil
  show ?case by auto
next
  case (Cons c cs)
  have "(\<exists>a b. c # cs = a @ t @ b) \<longleftrightarrow> (\<exists>b. c # cs = t @ b) \<or> (\<exists>a b. cs = a @ t @ b)"
    (is "?L \<longleftrightarrow> ?R")
  proof
    assume ?L
    then obtain a b where "c # cs = a @ t @ b" by blast
    then show ?R by (cases a) auto
  next
    assume ?R
    then show ?L
    proof
      assume "\<exists>b. c # cs = t @ b"
      then show ?L by (metis append_Nil)
    next
      assume "\<exists>a b. cs = a @ t @ b"
      then show ?L by (metis append_Cons)
    qed
  qed
  with Cons show ?case by (simp add: Contains_Cons HasPrefix_iff)
qed

lemma Contains_append: "Contains s t \<Longrightarrow> Contains (a @ s @ b) t"
  unfolding Contains_iff_infix by (metis append.assoc)

lemma Contains_self [simp]: "Contains s s"
  unfolding Contains_iff_infix by (metis append_Nil append_Nil2)

lemma ContainsAny_iff [go_strings]: "ContainsAny s cs \<longleftrightarrow> set s \<inter> set cs \<noteq> {}"
  by (auto simp: ContainsAny_def list_ex_iff)

lemma IndexByte_None [go_strings]: "IndexByte s d = None \<longleftrightarrow> d \<notin> set s"
  by (induction s) auto

lemma IndexByte_append [simp]: "d \<notin> set s \<Longrightarrow> IndexByte (s @ d # r) d = Some (length s)"
  by (induction s) auto

lemma IndexByte_Some:
  "IndexByte s d = Some i \<Longrightarrow> i < length s \<and> s ! i = d \<and> d \<notin> set (take i s)"
  by (induction s arbitrary: i) (auto split: if_splits)

lemma Cut_Some_iff [go_strings]: "Cut s d = Some (a, b) \<longleftrightarrow> s = a @ d # b \<and> d \<notin> set a"
proof
  assume "Cut s d = Some (a, b)"
  then obtain i where i: "IndexByte s d = Some i" and ab: "a = take i s" "b = drop (Suc i) s"
    by (auto simp: Cut_def split: option.splits)
  from IndexByte_Some [OF i] ab show "s = a @ d # b \<and> d \<notin> set a"
    using id_take_nth_drop by metis
next
  assume "s = a @ d # b \<and> d \<notin> set a"
  then show "Cut s d = Some (a, b)" by (simp add: Cut_def)
qed

lemma Cut_None_iff [go_strings]: "Cut s d = None \<longleftrightarrow> d \<notin> set s"
  by (cases "IndexByte s d") (auto simp: Cut_def IndexByte_None [symmetric])

subsection \<open>Split, Join, ReplaceAll\<close>

fun Split :: "string \<Rightarrow> char \<Rightarrow> string list" where
  "Split [] d = [[]]"
| "Split (c # cs) d =
     (if c = d then [] # Split cs d
      else (case Split cs d of [] \<Rightarrow> [[c]] | x # xs \<Rightarrow> (c # x) # xs))"

fun Join :: "string list \<Rightarrow> string \<Rightarrow> string" where
  "Join [] sep = []"
| "Join [x] sep = x"
| "Join (x # y # zs) sep = x @ sep @ Join (y # zs) sep"

lemma Split_nonempty [simp]: "Split s d \<noteq> []"
  by (induction s) (auto split: list.splits)

lemma Split_no_sep [go_strings]: "l \<in> set (Split s d) \<Longrightarrow> d \<notin> set l"
proof (induction s arbitrary: l)
  case (Cons c cs)
  obtain x xs where x: "Split cs d = x # xs" by (cases "Split cs d") auto
  with Cons show ?case by (auto split: if_splits)
qed simp

lemma Join_Cons: "xs \<noteq> [] \<Longrightarrow> Join (x # xs) sep = x @ sep @ Join xs sep"
  by (cases xs) auto

lemma Join_Split [simp]: "Join (Split s d) [d] = s"
proof (induction s)
  case (Cons c cs)
  obtain x xs where x: "Split cs d = x # xs" by (cases "Split cs d") auto
  with Cons show ?case by (cases xs) auto
qed simp

lemma Split_append_sep: "d \<notin> set l \<Longrightarrow> Split (l @ d # r) d = l # Split r d"
  by (induction l) auto

lemma Split_single: "d \<notin> set l \<Longrightarrow> Split l d = [l]"
  by (induction l) auto

lemma Split_Join:
  assumes "ls \<noteq> []" "\<forall>l \<in> set ls. d \<notin> set l"
  shows "Split (Join ls [d]) d = ls"
  using assms
proof (induction ls)
  case (Cons l ls)
  then show ?case
    by (cases "ls = []") (auto simp: Join_Cons Split_append_sep Split_single)
qed simp

lemma Split_append: "Split (a @ b) d = butlast (Split a d) @ (last (Split a d) @ hd (Split b d)) # tl (Split b d)"
proof (induction a)
  case Nil
  show ?case by simp
next
  case (Cons c cs)
  obtain x xs where x: "Split cs d = x # xs" by (cases "Split cs d") auto
  then show ?case using Cons
    by (cases xs) auto
qed

definition replace_char :: "char \<Rightarrow> string \<Rightarrow> string \<Rightarrow> string" where
  "replace_char c r s = concat (map (\<lambda>x. if x = c then r else [x]) s)"

lemma replace_char_simps [simp]:
  "replace_char c r [] = []"
  "replace_char c r (x # xs) = (if x = c then r else [x]) @ replace_char c r xs"
  "replace_char c r (xs @ ys) = replace_char c r xs @ replace_char c r ys"
  by (simp_all add: replace_char_def)

text \<open>\<open>ReplaceAll(s, "\r\n", "\n")\<close> and the canonicalisation of line ends to CRLF.\<close>

fun crlf_to_lf :: "string \<Rightarrow> string" where
  "crlf_to_lf [] = []"
| "crlf_to_lf [c] = [c]"
| "crlf_to_lf (c # d # cs) =
     (if c = CR \<and> d = NL then NL # crlf_to_lf cs else c # crlf_to_lf (d # cs))"

definition lf_to_crlf :: "string \<Rightarrow> string" where
  "lf_to_crlf s = replace_char NL [CR, NL] s"

subsection \<open>UTF-8\<close>

definition cont :: "nat \<Rightarrow> nat \<Rightarrow> nat \<Rightarrow> bool" where
  "cont lo hi b \<longleftrightarrow> lo \<le> b \<and> b \<le> hi"

definition RuneError :: nat where
  "RuneError = 0xFFFD"

text \<open>
  \<open>decode_rune\<close> is \<open>utf8.DecodeRune\<close>: the first rune and its width, and \<open>RuneError\<close>
  with width 1 for a byte that starts no valid encoding.
\<close>

fun decode2 :: "nat \<Rightarrow> nat list \<Rightarrow> nat \<times> nat" where
  "decode2 a (b # _) =
     (if cont 0x80 0xBF b then ((a - 0xC0) * 64 + (b - 0x80), 2) else (RuneError, 1))"
| "decode2 a _ = (RuneError, 1)"

fun decode3 :: "nat \<Rightarrow> nat list \<Rightarrow> nat \<times> nat" where
  "decode3 a (b # c # _) =
     (if cont (if a = 0xE0 then 0xA0 else 0x80) (if a = 0xED then 0x9F else 0xBF) b
         \<and> cont 0x80 0xBF c
      then ((a - 0xE0) * 4096 + (b - 0x80) * 64 + (c - 0x80), 3) else (RuneError, 1))"
| "decode3 a _ = (RuneError, 1)"

fun decode4 :: "nat \<Rightarrow> nat list \<Rightarrow> nat \<times> nat" where
  "decode4 a (b # c # d # _) =
     (if cont (if a = 0xF0 then 0x90 else 0x80) (if a = 0xF4 then 0x8F else 0xBF) b
         \<and> cont 0x80 0xBF c \<and> cont 0x80 0xBF d
      then ((a - 0xF0) * 262144 + (b - 0x80) * 4096 + (c - 0x80) * 64 + (d - 0x80), 4)
      else (RuneError, 1))"
| "decode4 a _ = (RuneError, 1)"

fun decode_rune :: "nat list \<Rightarrow> nat \<times> nat" where
  "decode_rune [] = (RuneError, 0)"
| "decode_rune (a # bs) =
     (if a < 0x80 then (a, 1)
      else if cont 0xC2 0xDF a then decode2 a bs
      else if cont 0xE0 0xEF a then decode3 a bs
      else if cont 0xF0 0xF4 a then decode4 a bs
      else (RuneError, 1))"

definition bytes :: "string \<Rightarrow> nat list" where
  "bytes s = map byte s"

definition of_bytes :: "nat list \<Rightarrow> string" where
  "of_bytes bs = map char_of bs"

lemma of_bytes_bytes [simp]: "of_bytes (bytes s) = s"
  by (simp add: of_bytes_def bytes_def map_idI)

text \<open>\<open>rune_chunks\<close> cuts a string into the byte groups of its runes, each with its rune and
  whether it is a valid encoding.\<close>

definition rune_width :: "string \<Rightarrow> nat" where
  "rune_width s = max 1 (snd (decode_rune (bytes s)))"

lemma rune_width_pos [simp]: "0 < rune_width s" "rune_width s \<noteq> 0"
  by (simp_all add: rune_width_def)

function rune_chunks :: "string \<Rightarrow> (string \<times> nat \<times> bool) list" where
  "rune_chunks [] = []"
| "rune_chunks (c # cs) =
     (let w = rune_width (c # cs)
      in (take w (c # cs), fst (decode_rune (bytes (c # cs))), w \<noteq> 1 \<or> byte c < 0x80)
           # rune_chunks (drop w (c # cs)))"
  by pat_completeness auto
termination
  by (relation "measure length") (simp_all del: decode_rune.simps)

definition runes :: "string \<Rightarrow> nat list" where
  "runes s = map (\<lambda>(_, r, _). r) (rune_chunks s)"

definition RuneCount :: "string \<Rightarrow> nat" where
  "RuneCount s = length (rune_chunks s)"

definition valid_utf8 :: "string \<Rightarrow> bool" where
  "valid_utf8 s \<longleftrightarrow> list_all (\<lambda>(_, _, ok). ok) (rune_chunks s)"

text \<open>\<open>utf8.AppendRune\<close>: surrogates and values above the last code point become
  \<open>RuneError\<close>.\<close>

definition encode_rune :: "nat \<Rightarrow> string" where
  "encode_rune r =
     (if r < 0x80 then of_bytes [r]
      else if r < 0x800 then of_bytes [0xC0 + r div 64, 0x80 + r mod 64]
      else if cont 0xD800 0xDFFF r \<or> 0x10FFFF < r then of_bytes [0xEF, 0xBF, 0xBD]
      else if r < 0x10000 then of_bytes [0xE0 + r div 4096, 0x80 + r div 64 mod 64, 0x80 + r mod 64]
      else of_bytes [0xF0 + r div 262144, 0x80 + r div 4096 mod 64, 0x80 + r div 64 mod 64, 0x80 + r mod 64])"

definition of_runes :: "nat list \<Rightarrow> string" where
  "of_runes rs = concat (map encode_rune rs)"


definition scalar :: "nat \<Rightarrow> bool" where
  "scalar r \<longleftrightarrow> r \<le> 0x10FFFF \<and> \<not> cont 0xD800 0xDFFF r"

lemma bytes_of_bytes: "\<forall>b \<in> set bs. b < 256 \<Longrightarrow> bytes (of_bytes bs) = bs"
  by (induction bs) (auto simp: bytes_def of_bytes_def)

lemma bytes_append [simp]: "bytes (a @ b) = bytes a @ bytes b"
  by (simp add: bytes_def)

lemma length_bytes [simp]: "length (bytes s) = length s"
  by (simp add: bytes_def)

lemma length_of_bytes [simp]: "length (of_bytes bs) = length bs"
  by (simp add: of_bytes_def)

lemma digit64: "c \<le> 0x3F \<Longrightarrow> (x * 64 + c) div 64 = x" "c \<le> 0x3F \<Longrightarrow> (x * 64 + c) mod 64 = (c :: nat)"
  by simp_all

lemma decode2_encode:
  assumes "cont 0xC2 0xDF a" "decode2 a bs = (r, w)" "w \<noteq> 1"
  shows "w = 2 \<and> scalar r \<and> bytes (encode_rune r) = take 2 (a # bs)"
proof -
  obtain b cs where bs: "bs = b # cs" "cont 0x80 0xBF b"
    and r: "r = (a - 0xC0) * 64 + (b - 0x80)" and w: "w = 2"
    using assms by (cases "(a, bs)" rule: decode2.cases) (auto split: if_splits)
  from assms(1) obtain a' where a: "a = a' + 0xC0" "2 \<le> a'" "a' \<le> 0x1F"
    by (auto simp: cont_def intro: that [of "a - 0xC0"])
  from bs obtain b' where b: "b = b' + 0x80" "b' \<le> 0x3F"
    by (auto simp: cont_def intro: that [of "b - 0x80"])
  have rr: "r = a' * 64 + b'" using r a b by simp
  have "r div 64 = a'" "r mod 64 = b'" using rr b by simp_all
  moreover have "\<not> r < 0x80" "r < 0x800" using rr a b by simp_all
  ultimately show ?thesis using a b bs w
    by (simp add: encode_rune_def bytes_of_bytes scalar_def cont_def)
qed

lemma decode3_encode:
  assumes "cont 0xE0 0xEF a" "decode3 a bs = (r, w)" "w \<noteq> 1"
  shows "w = 3 \<and> scalar r \<and> bytes (encode_rune r) = take 3 (a # bs)"
proof -
  obtain b c cs where bs: "bs = b # c # cs"
    "cont (if a = 0xE0 then 0xA0 else 0x80) (if a = 0xED then 0x9F else 0xBF) b" "cont 0x80 0xBF c"
    and r: "r = (a - 0xE0) * 4096 + (b - 0x80) * 64 + (c - 0x80)" and w: "w = 3"
    using assms by (cases "(a, bs)" rule: decode3.cases) (auto split: if_splits)
  from assms(1) obtain a' where a: "a = a' + 0xE0" "a' \<le> 0xF"
    by (auto simp: cont_def intro: that [of "a - 0xE0"])
  from bs obtain b' where b: "b = b' + 0x80" "b' \<le> 0x3F"
    by (auto simp: cont_def split: if_splits intro: that [of "b - 0x80"])
  from bs obtain c' where c: "c = c' + 0x80" "c' \<le> 0x3F"
    by (auto simp: cont_def intro: that [of "c - 0x80"])
  have rr: "r = (a' * 64 + b') * 64 + c'" using r a b c by simp
  have d1: "r div 64 = a' * 64 + b'" "r mod 64 = c'" unfolding rr by (rule digit64, rule c(2))+
  then have d2: "r div 64 mod 64 = b'" using b by simp
  have "r div 4096 = (r div 64) div 64" by (simp add: div_mult2_eq [symmetric])
  then have d3: "r div 4096 = a'" using d1 b by simp
  have lo: "\<not> r < 0x800" using rr bs a b by (auto simp: cont_def split: if_splits)
  have sur: "\<not> cont 0xD800 0xDFFF r" using rr bs a b c by (auto simp: cont_def split: if_splits)
  have hi: "r < 0x10000" using rr a b c by simp
  show ?thesis using d1 d2 d3 lo sur hi a b c bs w
    by (simp add: encode_rune_def bytes_of_bytes scalar_def)
qed

lemma decode4_encode:
  assumes "cont 0xF0 0xF4 a" "decode4 a bs = (r, w)" "w \<noteq> 1"
  shows "w = 4 \<and> scalar r \<and> bytes (encode_rune r) = take 4 (a # bs)"
proof -
  obtain b c d cs where bs: "bs = b # c # d # cs"
    "cont (if a = 0xF0 then 0x90 else 0x80) (if a = 0xF4 then 0x8F else 0xBF) b"
    "cont 0x80 0xBF c" "cont 0x80 0xBF d"
    and r: "r = (a - 0xF0) * 262144 + (b - 0x80) * 4096 + (c - 0x80) * 64 + (d - 0x80)" and w: "w = 4"
    using assms by (cases "(a, bs)" rule: decode4.cases) (auto split: if_splits)
  from assms(1) obtain a' where a: "a = a' + 0xF0" "a' \<le> 4"
    by (auto simp: cont_def intro: that [of "a - 0xF0"])
  from bs obtain b' where b: "b = b' + 0x80" "b' \<le> 0x3F"
    by (auto simp: cont_def split: if_splits intro: that [of "b - 0x80"])
  from bs obtain c' where c: "c = c' + 0x80" "c' \<le> 0x3F"
    by (auto simp: cont_def intro: that [of "c - 0x80"])
  from bs obtain d' where d: "d = d' + 0x80" "d' \<le> 0x3F"
    by (auto simp: cont_def intro: that [of "d - 0x80"])
  have rr: "r = ((a' * 64 + b') * 64 + c') * 64 + d'" using r a b c d by simp
  have e1: "r div 64 = (a' * 64 + b') * 64 + c'" "r mod 64 = d'" unfolding rr by (rule digit64, rule d(2))+
  have q1: "r div 4096 = (r div 64) div 64" by (simp add: div_mult2_eq [symmetric])
  have e2: "r div 4096 = a' * 64 + b'" "r div 64 mod 64 = c'"
    unfolding q1 e1 by (rule digit64, rule c(2))+
  have q2: "r div 262144 = (r div 4096) div 64" by (simp add: div_mult2_eq [symmetric])
  have e3: "r div 262144 = a'" "r div 4096 mod 64 = b'"
    unfolding q2 e2 by (rule digit64, rule b(2))+
  have lo: "\<not> r < 0x10000" using rr bs a b by (auto simp: cont_def split: if_splits)
  have hi: "\<not> 0x10FFFF < r" using rr bs a b c d by (auto simp: cont_def split: if_splits)
  have "\<not> r < 0x80" "\<not> r < 0x800" "\<not> cont 0xD800 0xDFFF r" using lo by (simp_all add: cont_def)
  with e1 e2 e3 lo hi a b c d bs w show ?thesis
    by (simp add: encode_rune_def bytes_of_bytes scalar_def)
qed

lemma decode_rune_encode:
  assumes "decode_rune (a # bs) = (r, w)" "w \<noteq> 1 \<or> a < 0x80"
  shows "1 \<le> w \<and> scalar r \<and> bytes (encode_rune r) = take w (a # bs)"
proof -
  consider "a < 0x80" | "\<not> a < 0x80" "cont 0xC2 0xDF a"
    | "\<not> a < 0x80" "\<not> cont 0xC2 0xDF a" "cont 0xE0 0xEF a"
    | "\<not> a < 0x80" "\<not> cont 0xC2 0xDF a" "\<not> cont 0xE0 0xEF a" "cont 0xF0 0xF4 a"
    using assms by (auto split: if_splits)
  then show ?thesis
  proof cases
    case 1
    with assms show ?thesis by (auto simp: encode_rune_def bytes_of_bytes scalar_def cont_def)
  next
    case 2
    with assms decode2_encode [of a bs r w] show ?thesis by auto
  next
    case 3
    with assms decode3_encode [of a bs r w] show ?thesis by auto
  next
    case 4
    with assms decode4_encode [of a bs r w] show ?thesis by auto
  qed
qed

text \<open>Decoding what was encoded: every scalar value is read back, whatever follows it.\<close>

lemma decode_encode_rune:
  assumes "scalar r"
  shows "decode_rune (bytes (encode_rune r) @ bs) = (r, length (encode_rune r))"
proof -
  consider "r < 0x80" | "\<not> r < 0x80" "r < 0x800" | "\<not> r < 0x800" "r < 0x10000" | "\<not> r < 0x10000"
    by linarith
  then show ?thesis
  proof cases
    case 1
    then show ?thesis by (simp add: encode_rune_def bytes_of_bytes)
  next
    case 2
    have "r = r div 64 * 64 + r mod 64" by simp
    moreover have "2 \<le> r div 64" "r div 64 \<le> 0x1F" using 2 by auto
    moreover have "r mod 64 \<le> 0x3F" by (simp add: less_Suc_eq_le [symmetric])
    ultimately show ?thesis using 2 by (simp add: encode_rune_def bytes_of_bytes cont_def)
  next
    case 3
    define a b c where abc: "a = r div 4096" "b = r div 64 mod 64" "c = r mod 64"
    have q: "r div 4096 = (r div 64) div 64" by (simp add: div_mult2_eq [symmetric])
    have rr: "r = (a * 64 + b) * 64 + c"
      unfolding abc q by (metis div_mult_mod_eq)
    have le: "b \<le> 0x3F" "c \<le> 0x3F" "a \<le> 0xF" using 3 by (auto simp: abc less_Suc_eq_le [symmetric])
    have "encode_rune r = of_bytes [0xE0 + a, 0x80 + b, 0x80 + c]"
      using 3 assms by (simp add: encode_rune_def scalar_def abc)
    moreover have "a = 0 \<Longrightarrow> 0x20 \<le> b" using 3 rr le by auto
    moreover have "a = 0xD \<Longrightarrow> b \<le> 0x1F" using assms rr le by (auto simp: scalar_def cont_def)
    ultimately show ?thesis using le rr by (auto simp: bytes_of_bytes cont_def)
  next
    case 4
    define a b c d where abcd: "a = r div 262144" "b = r div 4096 mod 64" "c = r div 64 mod 64" "d = r mod 64"
    have q: "r div 4096 = (r div 64) div 64" "r div 262144 = (r div 4096) div 64"
      by (simp_all add: div_mult2_eq [symmetric])
    have rr: "r = ((a * 64 + b) * 64 + c) * 64 + d"
      unfolding abcd q by (metis div_mult_mod_eq)
    have "r \<le> 0x10FFFF" using assms by (simp add: scalar_def)
    then have le: "b \<le> 0x3F" "c \<le> 0x3F" "d \<le> 0x3F" "a \<le> 4"
      by (auto simp: abcd less_Suc_eq_le [symmetric])
    have "encode_rune r = of_bytes [0xF0 + a, 0x80 + b, 0x80 + c, 0x80 + d]"
      using 4 \<open>r \<le> 0x10FFFF\<close> by (simp add: encode_rune_def cont_def abcd)
    moreover have "a = 0 \<Longrightarrow> 0x10 \<le> b" using 4 rr le by auto
    moreover have "a = 4 \<Longrightarrow> b \<le> 0xF" using \<open>r \<le> 0x10FFFF\<close> rr le by auto
    ultimately show ?thesis using le rr by (auto simp: bytes_of_bytes cont_def)
  qed
qed

lemma bytes_inject: "bytes a = bytes b \<Longrightarrow> a = b"
  by (metis of_bytes_bytes)

lemma encode_rune_nonempty [simp]: "encode_rune r \<noteq> []" "0 < length (encode_rune r)"
  by (simp_all add: encode_rune_def of_bytes_def)

declare decode_rune.simps [simp del]
declare rune_chunks.simps(2) [simp del]

lemma rune_chunks_Cons:
  assumes "s \<noteq> []"
  shows "rune_chunks s = (take (rune_width s) s, fst (decode_rune (bytes s)),
     rune_width s \<noteq> 1 \<or> byte (hd s) < 0x80) # rune_chunks (drop (rune_width s) s)"
  using assms by (cases s) (simp_all add: rune_chunks.simps(2) Let_def)

lemma rune_induct [case_names Nil Cons]:
  assumes "P []" and "\<And>s. s \<noteq> [] \<Longrightarrow> P (drop (rune_width s) s) \<Longrightarrow> P s"
  shows "P s"
proof (induction s rule: length_induct)
  case (1 s)
  show ?case
  proof (cases "s = []")
    case False
    then have "length (drop (rune_width s) s) < length s" by simp
    with 1 assms(2) False show ?thesis by blast
  qed (simp add: assms(1))
qed

lemma concat_rune_chunks: "concat (map fst (rune_chunks s)) = s"
  by (induction s rule: rune_induct) (simp_all add: rune_chunks_Cons)

lemma rune_chunk_valid:
  "(p, r, ok) \<in> set (rune_chunks s) \<Longrightarrow> ok \<Longrightarrow> p = encode_rune r \<and> scalar r"
proof (induction s rule: rune_induct)
  case (Cons s)
  show ?case
  proof (cases "(p, r, ok) \<in> set (rune_chunks (drop (rune_width s) s))")
    case False
    obtain c cs where s: "s = c # cs" using Cons.hyps by (cases s) auto
    obtain w where d: "decode_rune (bytes s) = (r, w)"
      using False Cons by (cases "decode_rune (bytes s)") (auto simp: rune_chunks_Cons)
    from False Cons.hyps Cons.prems
    have p: "p = take (rune_width s) s" and ok: "rune_width s \<noteq> 1 \<or> byte c < 0x80"
      by (auto simp: rune_chunks_Cons s)
    have "w \<noteq> 1 \<or> byte c < 0x80" using ok d by (auto simp: rune_width_def)
    with d have *: "1 \<le> w \<and> scalar r \<and> bytes (encode_rune r) = take w (bytes s)"
      using decode_rune_encode [of "byte c" "bytes cs" r w] by (simp add: s bytes_def)
    then have "rune_width s = w" using d by (simp add: rune_width_def)
    with * p have "bytes (encode_rune r) = bytes p" by (simp add: bytes_def take_map)
    from bytes_inject [OF this] * show ?thesis by simp
  qed (use Cons in simp)
qed simp

lemma rune_chunks_encode:
  assumes "scalar r"
  shows "rune_chunks (encode_rune r @ s) = (encode_rune r, r, True) # rune_chunks s"
proof -
  let ?s = "encode_rune r @ s"
  have d: "decode_rune (bytes ?s) = (r, length (encode_rune r))"
    by (simp add: decode_encode_rune [OF assms])
  have w: "rune_width ?s = length (encode_rune r)"
    using d by (simp add: rune_width_def max_def Suc_le_eq)
  have "length (encode_rune r) \<noteq> 1 \<or> byte (hd ?s) < 0x80"
    by (auto simp: encode_rune_def of_bytes_def byte_def split: if_splits)
  with w d show ?thesis by (simp add: rune_chunks_Cons)
qed

lemma rune_chunks_of_runes:
  "list_all scalar rs \<Longrightarrow> rune_chunks (of_runes rs) = map (\<lambda>r. (encode_rune r, r, True)) rs"
  by (induction rs) (simp_all add: of_runes_def rune_chunks_encode)

lemma runes_of_runes: "list_all scalar rs \<Longrightarrow> runes (of_runes rs) = rs"
  by (simp add: runes_def rune_chunks_of_runes comp_def)

lemma valid_utf8_of_runes: "list_all scalar rs \<Longrightarrow> valid_utf8 (of_runes rs)"
  by (simp add: valid_utf8_def rune_chunks_of_runes list_all_iff)

lemma RuneCount_runes: "RuneCount s = length (runes s)"
  by (simp add: RuneCount_def runes_def)

lemma valid_utf8_runes:
  assumes "valid_utf8 s"
  shows "list_all scalar (runes s)" "of_runes (runes s) = s"
proof -
  have *: "p = encode_rune r \<and> scalar r" if "(p, r, ok) \<in> set (rune_chunks s)" for p r ok
    using assms that rune_chunk_valid [OF that] by (auto simp: valid_utf8_def list_all_iff)
  then show "list_all scalar (runes s)" by (force simp: runes_def list_all_iff)
  have "map (encode_rune \<circ> (\<lambda>(_, r, _). r)) (rune_chunks s) = map fst (rune_chunks s)"
    using * by (force intro!: map_cong)
  moreover have "of_runes (runes s) = concat (map (encode_rune \<circ> (\<lambda>(_, r, _). r)) (rune_chunks s))"
    by (simp add: of_runes_def runes_def)
  ultimately show "of_runes (runes s) = s"
    by (simp only: concat_rune_chunks)
qed

lemma rune_chunks_ascii:
  "byte c < 0x80 \<Longrightarrow> rune_chunks (c # cs) = ([c], byte c, True) # rune_chunks cs"
  by (simp add: rune_chunks_Cons rune_width_def bytes_def decode_rune.simps)

lemma decode_take:
  "decode2 a (take 3 bs) = decode2 a bs"
  "decode3 a (take 3 bs) = decode3 a bs"
  "decode4 a (take 3 bs) = decode4 a bs"
proof -
  show "decode2 a (take 3 bs) = decode2 a bs" by (cases "(a, bs)" rule: decode2.cases) simp_all
  show "decode3 a (take 3 bs) = decode3 a bs" by (cases "(a, bs)" rule: decode3.cases) simp_all
  show "decode4 a (take 3 bs) = decode4 a bs" by (cases "(a, bs)" rule: decode4.cases) simp_all
qed

lemma rune_chunks_code [code]:
  "rune_chunks [] = []"
  "rune_chunks (c # cs) =
     (if byte c < 0x80 then ([c], byte c, True) # rune_chunks cs
      else (let w = rune_width (c # take 3 cs)
            in (take w (c # cs), fst (decode_rune (bytes (c # take 3 cs))), w \<noteq> 1)
                 # rune_chunks (drop w (c # cs))))"
proof -
  have "decode_rune (bytes (c # take 3 cs)) = decode_rune (bytes (c # cs))"
    by (simp add: bytes_def decode_rune.simps take_map [symmetric] decode_take)
  then show "rune_chunks (c # cs) =
     (if byte c < 0x80 then ([c], byte c, True) # rune_chunks cs
      else (let w = rune_width (c # take 3 cs)
            in (take w (c # cs), fst (decode_rune (bytes (c # take 3 cs))), w \<noteq> 1)
                 # rune_chunks (drop w (c # cs))))"
    by (cases "byte c < 0x80")
      (simp add: rune_chunks_ascii, simp add: rune_chunks_Cons rune_width_def Let_def)
qed simp

subsection \<open>White space, control characters\<close>

definition space_runes :: "nat list" where
  "space_runes = [0x09, 0x0A, 0x0B, 0x0C, 0x0D, 0x20, 0x85, 0xA0, 0x1680, 0x2000, 0x2001, 0x2002,
     0x2003, 0x2004, 0x2005, 0x2006, 0x2007, 0x2008, 0x2009, 0x200A, 0x2028, 0x2029, 0x202F,
     0x205F, 0x3000]"

definition space_encodings :: "string list" where
  "space_encodings = map encode_rune space_runes"

text \<open>The same encodings as bytes, for evaluation.\<close>

lemma space_encodings_code [code]:
  "space_encodings = [[CHR 0x09], [CHR 0x0A], [CHR 0x0B], [CHR 0x0C], [CHR 0x0D], [CHR 0x20], [CHR 0xC2, CHR
     0x85], [CHR 0xC2, CHR 0xA0], [CHR 0xE1, CHR 0x9A, CHR 0x80], [CHR 0xE2, CHR 0x80, CHR
     0x80], [CHR 0xE2, CHR 0x80, CHR 0x81], [CHR 0xE2, CHR 0x80, CHR 0x82], [CHR 0xE2, CHR
     0x80, CHR 0x83], [CHR 0xE2, CHR 0x80, CHR 0x84], [CHR 0xE2, CHR 0x80, CHR 0x85], [CHR
     0xE2, CHR 0x80, CHR 0x86], [CHR 0xE2, CHR 0x80, CHR 0x87], [CHR 0xE2, CHR 0x80, CHR 0x88],
     [CHR 0xE2, CHR 0x80, CHR 0x89], [CHR 0xE2, CHR 0x80, CHR 0x8A], [CHR 0xE2, CHR 0x80, CHR
     0xA8], [CHR 0xE2, CHR 0x80, CHR 0xA9], [CHR 0xE2, CHR 0x80, CHR 0xAF], [CHR 0xE2, CHR
     0x81, CHR 0x9F], [CHR 0xE3, CHR 0x80, CHR 0x80]]"
  by (simp add: space_encodings_def space_runes_def encode_rune_def of_bytes_def cont_def
      char_of_def bit_Suc_0_iff)

text \<open>The width of the white-space rune a string starts (ends) with, 0 for none.\<close>

definition space_len :: "string \<Rightarrow> nat" where
  "space_len s = (case find (HasPrefix s) space_encodings of None \<Rightarrow> 0 | Some e \<Rightarrow> length e)"

definition space_len_end :: "string \<Rightarrow> nat" where
  "space_len_end s = (case find (HasSuffix s) space_encodings of None \<Rightarrow> 0 | Some e \<Rightarrow> length e)"

lemma space_len_le: "space_len s \<le> length s"
  by (auto simp: space_len_def find_Some_iff HasPrefix_iff split: option.splits)

lemma space_len_end_le: "space_len_end s \<le> length s"
  by (auto simp: space_len_end_def find_Some_iff HasSuffix_iff split: option.splits)

function TrimLeftSpace :: "string \<Rightarrow> string" where
  "TrimLeftSpace s = (if space_len s = 0 then s else TrimLeftSpace (drop (space_len s) s))"
  by pat_completeness auto
termination
proof (relation "measure length")
  show "(drop (space_len s) s, s) \<in> measure length" if "space_len s \<noteq> 0" for s
    using that space_len_le [of s] by simp
qed simp

function TrimRightSpace :: "string \<Rightarrow> string" where
  "TrimRightSpace s =
     (if space_len_end s = 0 then s else TrimRightSpace (take (length s - space_len_end s) s))"
  by pat_completeness auto
termination
proof (relation "measure length")
  show "(take (length s - space_len_end s) s, s) \<in> measure length" if "space_len_end s \<noteq> 0" for s
    using that space_len_end_le [of s] by simp
qed simp

declare TrimLeftSpace.simps [simp del] TrimRightSpace.simps [simp del]

definition TrimSpace :: "string \<Rightarrow> string" where
  "TrimSpace s = TrimRightSpace (TrimLeftSpace s)"

function fields_from :: "string \<Rightarrow> string \<Rightarrow> string list" where
  "fields_from [] cur = (if cur = [] then [] else [cur])"
| "fields_from (c # cs) cur =
     (let n = space_len (c # cs)
      in if n = 0 then fields_from cs (cur @ [c])
         else (if cur = [] then [] else [cur]) @ fields_from (drop (n - 1) cs) [])"
  by pat_completeness auto
termination
  by (relation "measure (length \<circ> fst)") auto

definition Fields :: "string \<Rightarrow> string list" where
  "Fields s = fields_from s []"

definition control_at :: "string \<Rightarrow> bool" where
  "control_at s =
     (case s of [] \<Rightarrow> False
      | c # cs \<Rightarrow> byte c < 0x20 \<or> byte c = 0x7F
         \<or> (byte c = 0xC2 \<and> cs \<noteq> [] \<and> cont 0x80 0x9F (byte (hd cs))))"

definition has_control :: "string \<Rightarrow> bool" where
  "has_control s \<longleftrightarrow> list_ex control_at (suffixes s)"

definition has_space :: "string \<Rightarrow> bool" where
  "has_space s \<longleftrightarrow> list_ex (\<lambda>t. space_len t \<noteq> 0) (suffixes s)"

subsection \<open>Case mapping\<close>

definition lower_rune :: "(nat \<Rightarrow> nat) \<Rightarrow> nat \<Rightarrow> nat" where
  "lower_rune ulow r =
     (if 65 \<le> r \<and> r \<le> 90 then r + 32 else if r < 128 \<or> r = RuneError then r else ulow r)"

definition ToLower :: "(nat \<Rightarrow> nat) \<Rightarrow> string \<Rightarrow> string" where
  "ToLower ulow s = of_runes (map (lower_rune ulow) (runes s))"

definition EqualFold :: "(nat \<Rightarrow> nat) \<Rightarrow> string \<Rightarrow> string \<Rightarrow> bool" where
  "EqualFold ufold a b \<longleftrightarrow>
     map (lower_rune ufold) (runes a) = map (lower_rune ufold) (runes b)"

lemma EqualFold_refl [simp]: "EqualFold f a a"
  by (simp add: EqualFold_def)

lemma EqualFold_sym: "EqualFold f a b \<Longrightarrow> EqualFold f b a"
  by (simp add: EqualFold_def)

lemma EqualFold_trans: "EqualFold f a b \<Longrightarrow> EqualFold f b c \<Longrightarrow> EqualFold f a c"
  by (simp add: EqualFold_def)

subsection \<open>ToValidUTF8\<close>

fun valid_from :: "(string \<times> nat \<times> bool) list \<Rightarrow> bool \<Rightarrow> string" where
  "valid_from [] bad = []"
| "valid_from ((p, r, ok) # cs) bad =
     (if ok then p @ valid_from cs False
      else (if bad then [] else encode_rune RuneError) @ valid_from cs True)"

definition ToValidUTF8 :: "string \<Rightarrow> string" where
  "ToValidUTF8 s = valid_from (rune_chunks s) False"

lemma scalar_RuneError [simp]: "scalar RuneError"
  by (simp add: scalar_def RuneError_def cont_def)

lemma valid_from_runes:
  assumes "\<And>p r ok. (p, r, ok) \<in> set cs \<Longrightarrow> ok \<Longrightarrow> p = encode_rune r \<and> scalar r"
  shows "\<exists>rs. list_all scalar rs \<and> valid_from cs bad = of_runes rs \<and>
    set rs \<subseteq> insert RuneError {r. \<exists>p. (p, r, True) \<in> set cs}"
  using assms
proof (induction cs bad rule: valid_from.induct)
  case (1 bad)
  show ?case by (intro exI [of _ "[]"]) (simp add: of_runes_def)
next
  case (2 p r ok cs bad)
  show ?case
  proof (cases ok)
    case True
    with 2 obtain rs where "list_all scalar rs" "valid_from cs False = of_runes rs"
      "set rs \<subseteq> insert RuneError {r. \<exists>p. (p, r, True) \<in> set cs}" by fastforce
    moreover have "p = encode_rune r \<and> scalar r" using "2.prems" [of p r ok] True by simp
    ultimately show ?thesis using True
      by (intro exI [of _ "r # rs"]) (auto simp: of_runes_def)
  next
    case False
    with 2 obtain rs where "list_all scalar rs" "valid_from cs True = of_runes rs"
      "set rs \<subseteq> insert RuneError {r. \<exists>p. (p, r, True) \<in> set cs}" by fastforce
    with False show ?thesis
      by (intro exI [of _ "(if bad then [] else [RuneError]) @ rs"]) (auto simp: of_runes_def)
  qed
qed

lemma ToValidUTF8_runes:
  "\<exists>rs. list_all scalar rs \<and> ToValidUTF8 s = of_runes rs \<and>
    set rs \<subseteq> insert RuneError {r. \<exists>p. (p, r, True) \<in> set (rune_chunks s)}"
  unfolding ToValidUTF8_def by (rule valid_from_runes) (rule rune_chunk_valid)

lemma ToValidUTF8_valid [go_strings]: "valid_utf8 (ToValidUTF8 s)"
  using ToValidUTF8_runes [of s] valid_utf8_of_runes by auto

lemma valid_from_id: "\<forall>(p, r, ok) \<in> set cs. ok \<Longrightarrow> valid_from cs bad = concat (map fst cs)"
  by (induction cs bad rule: valid_from.induct) auto

lemma ToValidUTF8_id [go_strings]: "valid_utf8 s \<Longrightarrow> ToValidUTF8 s = s"
  by (simp add: ToValidUTF8_def valid_utf8_def list_all_iff valid_from_id concat_rune_chunks)

subsection \<open>strconv\<close>

definition is_digit :: "char \<Rightarrow> bool" where
  "is_digit c \<longleftrightarrow> 48 \<le> byte c \<and> byte c \<le> 57"

definition digits_value :: "string \<Rightarrow> int" where
  "digits_value s = foldl (\<lambda>n c. n * 10 + (int (byte c) - 48)) 0 s"

definition ParseDigits :: "string \<Rightarrow> int option" where
  "ParseDigits s = (if s \<noteq> [] \<and> list_all is_digit s then Some (digits_value s) else None)"

text \<open>\<open>strconv.ParseInt(s, 10, 64)\<close> and \<open>strconv.ParseUint(s, 10, 32)\<close>.\<close>

definition ParseInt64 :: "string \<Rightarrow> int option" where
  "ParseInt64 s =
     (let neg = HasPrefix s ''-'';
          ds = (if HasPrefix s ''-'' \<or> HasPrefix s ''+'' then tl s else s)
      in case ParseDigits ds of
           None \<Rightarrow> None
         | Some n \<Rightarrow> let v = (if neg then - n else n)
                    in if - (2 ^ 63) \<le> v \<and> v < 2 ^ 63 then Some v else None)"

definition ParseUint32 :: "string \<Rightarrow> int option" where
  "ParseUint32 s =
     (case ParseDigits s of None \<Rightarrow> None | Some n \<Rightarrow> if n < 2 ^ 32 then Some n else None)"

text \<open>Decimal rendering (\<open>%d\<close>).\<close>

fun Itoa_nat :: "nat \<Rightarrow> string" where
  "Itoa_nat n = (if n < 10 then [char_of (48 + n)] else Itoa_nat (n div 10) @ [char_of (48 + n mod 10)])"

declare Itoa_nat.simps [simp del]

definition Itoa :: "int \<Rightarrow> string" where
  "Itoa i = (if i < 0 then CHR ''-'' # Itoa_nat (nat (- i)) else Itoa_nat (nat i))"

lemma char_of_digit: "(k :: nat) < 10 \<Longrightarrow> is_digit (char_of (48 + k))"
  by (simp add: is_digit_def)

lemma Itoa_nat_digits: "list_all is_digit (Itoa_nat n)"
proof (induction n rule: Itoa_nat.induct)
  case (1 n)
  then show ?case by (subst Itoa_nat.simps) (simp add: char_of_digit)
qed

lemma Itoa_nat_nonempty [simp]: "Itoa_nat n \<noteq> []"
  by (subst Itoa_nat.simps) simp

lemma digits_value_append: "digits_value (s @ [c]) = digits_value s * 10 + (int (byte c) - 48)"
  by (simp add: digits_value_def)

lemma digits_value_Itoa: "digits_value (Itoa_nat n) = int n"
proof (induction n rule: Itoa_nat.induct)
  case (1 n)
  show ?case
  proof (cases "n < 10")
    case True
    then show ?thesis by (subst Itoa_nat.simps) (simp add: digits_value_def)
  next
    case False
    then have "digits_value (Itoa_nat n) = int (n div 10) * 10 + int (n mod 10)"
      using 1 by (subst Itoa_nat.simps) (simp add: digits_value_append)
    then show ?thesis by (metis div_mult_mod_eq of_nat_add of_nat_mult of_nat_numeral)
  qed
qed

lemma ParseDigits_Itoa: "ParseDigits (Itoa_nat n) = Some (int n)"
  by (simp add: ParseDigits_def Itoa_nat_digits digits_value_Itoa)

lemma not_digit_notin: "\<not> is_digit c \<Longrightarrow> c \<notin> set (Itoa_nat n)"
  using Itoa_nat_digits [of n] by (auto simp: list_all_iff)

lemma NL_notin_Itoa [simp]: "NL \<notin> set (Itoa_nat n)" "NL \<notin> set (Itoa i)"
  by (simp_all add: not_digit_notin is_digit_def byte_def Itoa_def)

lemma Split_append_sep2: "Split (a @ d # b) d = Split a d @ Split b d"
proof (induction a)
  case (Cons c cs)
  obtain x xs where "Split cs d = x # xs" by (cases "Split cs d") auto
  with Cons show ?case by auto
qed simp

lemma Split_Join_lines:
  "ps \<noteq> [] \<Longrightarrow> Split (Join ps [d]) d = concat (map (\<lambda>p. Split p d) ps)"
proof (induction ps)
  case (Cons p ps)
  then show ?case by (cases "ps = []") (simp_all add: Join_Cons Split_append_sep2)
qed simp

text \<open>The encoding of a rune above ASCII has no ASCII byte.\<close>

lemma mod64_128: "(n :: nat) mod 64 < 128"
  by (rule less_trans [OF mod_less_divisor]) simp_all

lemma encode_rune_bytes_high:
  assumes "\<not> r < 0x80" "c \<in> set (encode_rune r)"
  shows "0x80 \<le> byte c"
proof (cases "scalar r")
  case False
  then have "encode_rune r = of_bytes [0xEF, 0xBF, 0xBD]"
    using assms(1) by (auto simp: encode_rune_def scalar_def cont_def)
  with assms(2) show ?thesis by (auto simp: of_bytes_def byte_def)
next
  case True
  have s: "r \<le> 0x10FFFF" "\<not> cont 0xD800 0xDFFF r" using True by (auto simp: scalar_def)
  have d: "r div 4096 < 0x110" "r div 262144 < 5" using s by (simp_all add: less_mult_imp_div_less)
  consider "r < 0x800" | "\<not> r < 0x800" "r < 0x10000" | "\<not> r < 0x10000" by linarith
  then show ?thesis
  proof cases
    case 1
    then have "r div 64 < 32" by (simp add: less_mult_imp_div_less)
    with 1 assms show ?thesis by (auto simp: encode_rune_def of_bytes_def mod64_128)
  next
    case 2
    then have "r div 4096 < 16" by (simp add: less_mult_imp_div_less)
    with 2 assms s show ?thesis by (auto simp: encode_rune_def of_bytes_def mod64_128)
  next
    case 3
    with d assms s show ?thesis by (auto simp: encode_rune_def of_bytes_def mod64_128)
  qed
qed

end
