(* ===== verification/GoPath.thy ===== *)
theory GoPath
  imports GoStrings
begin

section \<open>Slash-separated paths (Go's path/filepath on Unix)\<close>

text \<open>
  \<open>Clean\<close>, \<open>Join\<close>, \<open>Dir\<close>, \<open>Base\<close> and \<open>IsAbs\<close> of \<open>path/filepath\<close>, over the components between the
  slashes. The facts the components use: joining a directory and a plain name stays directly in
  that directory, and cleaning twice changes nothing. It maps to no file of the repository.
\<close>

abbreviation SLASH :: char where "SLASH \<equiv> CHR 0x2F"
abbreviation dot :: string where "dot \<equiv> ''.''"
abbreviation dotdot :: string where "dotdot \<equiv> ''..''"

fun clean_comps :: "bool \<Rightarrow> string list \<Rightarrow> string list \<Rightarrow> string list" where
  "clean_comps rooted st [] = rev st"
| "clean_comps rooted st (c # cs) =
     (if c = [] \<or> c = dot then clean_comps rooted st cs
      else if c = dotdot then
        (case st of
           [] \<Rightarrow> clean_comps rooted (if rooted then [] else [c]) cs
         | t # ts \<Rightarrow> if t = dotdot then clean_comps rooted (c # st) cs else clean_comps rooted ts cs)
      else clean_comps rooted (c # st) cs)"

definition IsAbs :: "string \<Rightarrow> bool" where
  "IsAbs p \<longleftrightarrow> HasPrefix p [SLASH]"

definition path_comps :: "string \<Rightarrow> string list" where
  "path_comps p = clean_comps (IsAbs p) [] (Split p SLASH)"

definition render_path :: "bool \<Rightarrow> string list \<Rightarrow> string" where
  "render_path rooted cs =
     (if rooted then SLASH # Join cs [SLASH] else if cs = [] then dot else Join cs [SLASH])"

definition Clean :: "string \<Rightarrow> string" where
  "Clean p = (if p = [] then dot else render_path (IsAbs p) (path_comps p))"

definition JoinPath :: "string list \<Rightarrow> string" where
  "JoinPath es = (let r = dropWhile (\<lambda>e. e = []) es in if r = [] then [] else Clean (Join r [SLASH]))"

definition Dir :: "string \<Rightarrow> string" where
  "Dir p = Clean (case LastIndexByte p SLASH of None \<Rightarrow> [] | Some i \<Rightarrow> take (Suc i) p)"

definition Base :: "string \<Rightarrow> string" where
  "Base p =
     (if p = [] then dot
      else let q = rev (dropWhile (\<lambda>c. c = SLASH) (rev p));
               r = (case LastIndexByte q SLASH of None \<Rightarrow> q | Some i \<Rightarrow> drop (Suc i) q)
           in if r = [] then [SLASH] else r)"

text \<open>A component that names an entry of its directory.\<close>

definition plain_name :: "string \<Rightarrow> bool" where
  "plain_name n \<longleftrightarrow> n \<noteq> [] \<and> n \<noteq> dot \<and> n \<noteq> dotdot \<and> SLASH \<notin> set n"

definition clean_stack :: "bool \<Rightarrow> string list \<Rightarrow> bool" where
  "clean_stack rooted st \<longleftrightarrow>
     (\<exists>ns k. st = ns @ replicate k dotdot \<and> (\<forall>n \<in> set ns. plain_name n) \<and> (rooted \<longrightarrow> k = 0))"

lemma clean_stack_Nil [simp]: "clean_stack rooted []"
  by (simp add: clean_stack_def)

lemma clean_stack_plain: "clean_stack rooted st \<Longrightarrow> plain_name n \<Longrightarrow> clean_stack rooted (n # st)"
proof -
  assume "clean_stack rooted st" and n: "plain_name n"
  then obtain ns k where "st = ns @ replicate k dotdot" "\<forall>n \<in> set ns. plain_name n" "rooted \<longrightarrow> k = 0"
    unfolding clean_stack_def by blast
  with n show ?thesis unfolding clean_stack_def by (intro exI [of _ "n # ns"]) auto
qed

lemma clean_stack_pop: "clean_stack rooted (t # ts) \<Longrightarrow> t \<noteq> dotdot \<Longrightarrow> clean_stack rooted ts"
proof -
  assume "clean_stack rooted (t # ts)" and t: "t \<noteq> dotdot"
  then obtain ns k where k: "t # ts = ns @ replicate k dotdot" "\<forall>n \<in> set ns. plain_name n" "rooted \<longrightarrow> k = 0"
    unfolding clean_stack_def by blast
  with t obtain ns' where "ns = t # ns'" by (cases ns; cases k) auto
  with k show ?thesis unfolding clean_stack_def by auto
qed

lemma clean_stack_dotdot: "clean_stack rooted (dotdot # ts) \<Longrightarrow> clean_stack rooted (dotdot # dotdot # ts)"
proof -
  assume "clean_stack rooted (dotdot # ts)"
  then obtain ns k where k: "dotdot # ts = ns @ replicate k dotdot" "\<forall>n \<in> set ns. plain_name n" "rooted \<longrightarrow> k = 0"
    unfolding clean_stack_def by blast
  then have "ns = []" by (cases ns) (auto simp: plain_name_def)
  with k have "dotdot # dotdot # ts = [] @ replicate (Suc k) dotdot" "\<not> rooted" by (cases k; simp)+
  then show ?thesis unfolding clean_stack_def by (metis empty_iff list.set(1))
qed

lemma clean_stack_one: "\<not> rooted \<Longrightarrow> clean_stack rooted [dotdot]"
  unfolding clean_stack_def by (rule exI [of _ "[]"], rule exI [of _ "Suc 0"]) simp

lemma clean_comps_stack:
  assumes "clean_stack rooted st" "\<forall>c \<in> set cs. SLASH \<notin> set c"
  shows "clean_stack rooted (rev (clean_comps rooted st cs))"
  using assms
proof (induction rooted st cs rule: clean_comps.induct)
  case (1 rooted st)
  then show ?case by simp
next
  case (2 rooted st c cs)
  consider "c = [] \<or> c = dot" | "c = dotdot" | "plain_name c"
    using "2.prems"(2) by (auto simp: plain_name_def)
  then show ?case
  proof cases
    case 1
    with 2 show ?thesis by simp
  next
    case dd: 2
    show ?thesis
    proof (cases st)
      case Nil
      have "clean_stack rooted (if rooted then [] else [c])"
        using dd by (simp add: clean_stack_one)
      with 2 dd Nil show ?thesis by (cases rooted) simp_all
    next
      case (Cons t ts)
      with 2 dd show ?thesis
        by (cases "t = dotdot") (auto dest: clean_stack_dotdot clean_stack_pop)
    qed
  next
    case 3
    then have "clean_stack rooted (c # st)" "c \<noteq> []" "c \<noteq> dot" "c \<noteq> dotdot"
      using "2.prems"(1) clean_stack_plain by (auto simp: plain_name_def)
    with 2 show ?thesis by simp
  qed
qed

lemma path_comps_stack: "clean_stack (IsAbs p) (rev (path_comps p))"
  unfolding path_comps_def
  by (rule clean_comps_stack) (auto dest: Split_no_sep)

lemma clean_comps_append: "clean_comps r st (xs @ ys) = clean_comps r (rev (clean_comps r st xs)) ys"
  by (induction r st xs rule: clean_comps.induct) (auto split: list.splits)

lemma clean_comps_plains:
  "\<forall>n \<in> set ns. plain_name n \<Longrightarrow> clean_comps r st ns = rev st @ ns"
  by (induction ns arbitrary: st) (auto simp: plain_name_def)

lemma clean_comps_dotdots: "clean_comps False (replicate j dotdot) (replicate k dotdot) = replicate (j + k) dotdot"
proof (induction k arbitrary: j)
  case 0
  show ?case by (simp add: rev_replicate)
next
  case (Suc k)
  then show ?case using Suc.IH [of "Suc j"] by (cases j) simp_all
qed

lemma clean_comps_id:
  assumes "clean_stack r (rev cs)"
  shows "clean_comps r [] cs = cs"
proof -
  obtain ns k where k: "rev cs = ns @ replicate k dotdot" "\<forall>n \<in> set ns. plain_name n" "r \<longrightarrow> k = 0"
    using assms unfolding clean_stack_def by blast
  from k(1) have "rev (rev cs) = rev (ns @ replicate k dotdot)" by simp
  then have cs: "cs = replicate k dotdot @ rev ns" by (simp only: rev_rev_ident rev_append rev_replicate)
  have "clean_comps r [] (replicate k dotdot) = replicate k dotdot"
    using k(3) clean_comps_dotdots [of 0 k] by (cases r) auto
  with cs k(2) show ?thesis by (simp add: clean_comps_append clean_comps_plains)
qed

lemma comps_no_slash: "clean_stack r (rev cs) \<Longrightarrow> c \<in> set cs \<Longrightarrow> SLASH \<notin> set c \<and> c \<noteq> []"
proof -
  assume "clean_stack r (rev cs)" and c: "c \<in> set cs"
  then obtain ns k where k: "rev cs = ns @ replicate k dotdot" "\<forall>n \<in> set ns. plain_name n"
    unfolding clean_stack_def by blast
  have "set (rev cs) \<subseteq> insert dotdot (set ns)" unfolding k(1) by (simp add: set_replicate_conv_if subset_insertI)
  with c have "c = dotdot \<or> c \<in> set ns" by auto
  then show ?thesis
  proof
    assume "c = dotdot"
    then show ?thesis by simp
  next
    assume "c \<in> set ns"
    with k(2) have "plain_name c" by blast
    then show ?thesis by (simp add: plain_name_def)
  qed
qed

lemma IsAbs_render [simp]:
  assumes "clean_stack r (rev cs)"
  shows "IsAbs (render_path r cs) \<longleftrightarrow> r"
proof (cases cs)
  case Nil
  then show ?thesis by (simp add: IsAbs_def render_path_def)
next
  case (Cons c cs')
  with comps_no_slash [OF assms] have c: "SLASH \<notin> set c" "c \<noteq> []" by auto
  then obtain x y where "c = x # y" "x \<noteq> SLASH" by (cases c) auto
  with Cons show ?thesis by (cases cs') (auto simp: IsAbs_def render_path_def)
qed

lemma render_nonempty:
  assumes "clean_stack r (rev cs)"
  shows "render_path r cs \<noteq> []"
proof (cases cs)
  case Nil
  then show ?thesis by (simp add: render_path_def)
next
  case (Cons c cs')
  with comps_no_slash [OF assms] have "c \<noteq> []" by auto
  with Cons show ?thesis by (cases cs') (simp_all add: render_path_def)
qed

lemma Split_render:
  assumes "clean_stack r (rev cs)" "cs \<noteq> []"
  shows "Split (render_path r cs) SLASH = (if r then [[]] else []) @ cs"
proof -
  have "Split (Join cs [SLASH]) SLASH = cs"
    using assms by (intro Split_Join) (auto dest: comps_no_slash)
  with assms(2) show ?thesis by (simp add: render_path_def)
qed

lemma path_comps_render:
  assumes "clean_stack r (rev cs)"
  shows "path_comps (render_path r cs) = cs"
proof (cases "cs = []")
  case True
  then show ?thesis by (cases r) (simp_all add: path_comps_def render_path_def IsAbs_def)
next
  case False
  then show ?thesis
    using assms clean_comps_id [OF assms] by (cases r) (simp_all add: path_comps_def Split_render)
qed

lemma Clean_render: "clean_stack r (rev cs) \<Longrightarrow> Clean (render_path r cs) = render_path r cs"
  using render_nonempty [of r cs] by (simp add: Clean_def path_comps_render)

lemma Clean_idem: "Clean (Clean p) = Clean p"
proof (cases "p = []")
  case True
  then show ?thesis using Clean_render [of False "[]"] by (simp add: Clean_def render_path_def)
next
  case False
  then show ?thesis using Clean_render [OF path_comps_stack, of p] by (simp add: Clean_def)
qed

text \<open>Joining a directory and a plain name.\<close>

lemma path_comps_append:
  assumes "plain_name n" "d \<noteq> []"
  shows "path_comps (d @ SLASH # n) = path_comps d @ [n]"
    "IsAbs (d @ SLASH # n) = IsAbs d"
proof -
  have "Split (d @ SLASH # n) SLASH = Split d SLASH @ [n]"
    using assms(1) by (simp add: Split_append_sep2 Split_single plain_name_def)
  moreover show "IsAbs (d @ SLASH # n) = IsAbs d"
    using assms(2) by (cases d) (simp_all add: IsAbs_def)
  ultimately show "path_comps (d @ SLASH # n) = path_comps d @ [n]"
    using assms(1) by (simp add: path_comps_def clean_comps_append plain_name_def)
qed

lemma JoinPath_plain:
  assumes "plain_name n" "d \<noteq> []"
  shows "JoinPath [d, n] = render_path (IsAbs d) (path_comps d @ [n])"
  using assms path_comps_append [OF assms] by (simp add: JoinPath_def Clean_def)

lemma LastIndexByte_append: "x \<notin> set b \<Longrightarrow> LastIndexByte (a @ x # b) x = Some (length a)"
proof (induction a)
  case Nil
  have "LastIndexByte b x = None" if "x \<notin> set b" for b using that by (induction b) auto
  with Nil show ?case by simp
qed simp

lemma LastIndexByte_None: "x \<notin> set b \<Longrightarrow> LastIndexByte b x = None"
  by (induction b) auto

lemma Join_snoc: "xs \<noteq> [] \<Longrightarrow> Join (xs @ [y]) sep = Join xs sep @ sep @ y"
proof (induction xs)
  case (Cons x xs)
  then show ?case by (cases "xs = []") (simp_all add: Join_Cons)
qed simp

lemma Clean_trailing:
  assumes "clean_stack r (rev cs)" "cs \<noteq> []"
  shows "Clean (render_path r cs @ [SLASH]) = render_path r cs"
proof -
  have ne: "render_path r cs \<noteq> []" by (rule render_nonempty [OF assms(1)])
  have "Split (render_path r cs @ [SLASH]) SLASH = Split (render_path r cs) SLASH @ [[]]"
    by (simp add: Split_append_sep2)
  moreover have a: "IsAbs (render_path r cs @ [SLASH]) = r"
    using IsAbs_render [OF assms(1)] ne by (cases "render_path r cs") (simp_all add: IsAbs_def)
  ultimately have "path_comps (render_path r cs @ [SLASH]) = cs"
    using path_comps_render [OF assms(1)] IsAbs_render [OF assms(1)]
    by (simp add: path_comps_def clean_comps_append)
  with a show ?thesis by (simp add: Clean_def)
qed

lemma Dir_JoinPath:
  assumes "plain_name n" "d \<noteq> []"
  shows "Dir (JoinPath [d, n]) = Clean d"
proof -
  have st: "clean_stack (IsAbs d) (rev (path_comps d))" by (rule path_comps_stack)
  have n: "SLASH \<notin> set n" using assms(1) by (simp add: plain_name_def)
  show ?thesis
  proof (cases "path_comps d = []")
    case True
    then show ?thesis
      using n assms(2) LastIndexByte_append [OF n, of "[]"]
      by (cases "IsAbs d")
        (simp_all add: JoinPath_plain [OF assms] render_path_def Dir_def LastIndexByte_None Clean_def,
         simp add: IsAbs_def path_comps_def render_path_def)
  next
    case False
    let ?p = "render_path (IsAbs d) (path_comps d)"
    have "JoinPath [d, n] = ?p @ SLASH # n"
      using False by (simp add: JoinPath_plain [OF assms] render_path_def Join_snoc)
    then have "Dir (JoinPath [d, n]) = Clean (?p @ [SLASH])"
      by (simp add: Dir_def LastIndexByte_append n)
    with Clean_trailing [OF st False] assms(2) show ?thesis by (simp add: Clean_def)
  qed
qed

lemma JoinPath_inject:
  assumes "plain_name n" "plain_name m" "d \<noteq> []" "JoinPath [d, n] = JoinPath [d, m]"
  shows "n = m"
proof -
  have "clean_stack (IsAbs d) (rev (path_comps d @ [k]))" if "plain_name k" for k
    using clean_stack_plain [OF path_comps_stack that] by simp
  then have "path_comps (JoinPath [d, k]) = path_comps d @ [k]" if "plain_name k" for k
    using that by (simp add: JoinPath_plain [OF that assms(3)] path_comps_render)
  with assms show ?thesis by (metis append1_eq_conv)
qed

end
