(* ===== verification/PathMatch.thy ===== *)
theory PathMatch
  imports GoPath
begin

section \<open>Glob matching (Go's path.Match)\<close>

text \<open>
  \<open>path.Match\<close> as the standard library runs it: the pattern is cut into a star flag and a chunk, a
  chunk is matched against a prefix of the name, and a star retries the chunk after every skipped
  byte that is not a slash. \<open>Inl ()\<close> is \<open>ErrBadPattern\<close>. It maps to no file of the repository.
\<close>

definition STAR :: char where "STAR = CHR ''*''"

definition getEsc :: "string \<Rightarrow> (unit, nat \<times> string) result" where
  "getEsc chunk =
     (if chunk = [] \<or> hd chunk = CHR ''-'' \<or> hd chunk = CHR '']'' then Inl ()
      else let chunk1 = (if hd chunk = BACKSLASH then tl chunk else chunk) in
        if chunk1 = [] then Inl ()
        else let (r, n) = decode_rune (bytes chunk1); rest = drop n chunk1 in
          if (r = RuneError \<and> n = 1) \<or> rest = [] then Inl () else Inr (r, rest))"

lemma getEsc_length: "getEsc chunk = Inr (r, rest) \<Longrightarrow> length rest < length chunk \<and> rest \<noteq> []"
proof -
  assume a: "getEsc chunk = Inr (r, rest)"
  define c where "c = (if hd chunk = BACKSLASH then tl chunk else chunk)"
  from a have c: "c \<noteq> []" "chunk \<noteq> []" "rest = drop (snd (decode_rune (bytes c))) c" "rest \<noteq> []"
    by (auto simp: getEsc_def c_def Let_def split: if_splits prod.splits)
  have "snd (decode_rune (bytes c)) \<noteq> 0"
  proof -
    obtain x xs where x: "c = x # xs" using c(1) by (cases c) auto
    have "snd (decode2 a bs) \<noteq> 0" for a bs by (induction a bs rule: decode2.induct) simp_all
    moreover have "snd (decode3 a bs) \<noteq> 0" for a bs by (induction a bs rule: decode3.induct) simp_all
    moreover have "snd (decode4 a bs) \<noteq> 0" for a bs by (induction a bs rule: decode4.induct) simp_all
    ultimately show ?thesis by (simp add: x bytes_def decode_rune.simps)
  qed
  then have "length rest < length c" using c(1,3) by simp
  moreover have "length c \<le> length chunk" by (simp add: c_def)
  ultimately show ?thesis using c(4) by simp
qed

function class_loop :: "string \<Rightarrow> nat \<Rightarrow> bool \<Rightarrow> nat \<Rightarrow> (unit, bool \<times> string) result" where
  "class_loop chunk r m k =
     (if chunk \<noteq> [] \<and> hd chunk = CHR '']'' \<and> k > 0 then Inr (m, tl chunk)
      else (case getEsc chunk of
        Inl e \<Rightarrow> Inl e
      | Inr (lo, c1) \<Rightarrow>
          if hd c1 = CHR ''-'' then
            (case getEsc (tl c1) of
               Inl e \<Rightarrow> Inl e
             | Inr (hi, c2) \<Rightarrow> class_loop c2 r (m \<or> (lo \<le> r \<and> r \<le> hi)) (Suc k))
          else class_loop c1 r (m \<or> r = lo) (Suc k)))"
  by pat_completeness auto
termination
  by (relation "measure (\<lambda>(c, _, _, _). length c)") (auto dest!: getEsc_length)

declare class_loop.simps [simp del]

lemma class_loop_length: "class_loop chunk r m k = Inr (m', rest) \<Longrightarrow> length rest < length chunk"
proof (induction chunk r m k rule: class_loop.induct)
  case (1 chunk r m k)
  show ?case
  proof (cases "chunk \<noteq> [] \<and> hd chunk = CHR '']'' \<and> k > 0")
    case True
    with "1.prems" show ?thesis by (subst (asm) class_loop.simps) auto
  next
    case False
    note run = "1.prems" [unfolded class_loop.simps [of chunk] if_not_P [OF False]]
    from run obtain lo c1 where e: "getEsc chunk = Inr (lo, c1)" by (auto split: sum.splits)
    note l = getEsc_length [OF e]
    show ?thesis
    proof (cases "hd c1 = CHR ''-''")
      case True
      with run e obtain hi c2 where e2: "getEsc (tl c1) = Inr (hi, c2)"
        "class_loop c2 r (m \<or> (lo \<le> r \<and> r \<le> hi)) (Suc k) = Inr (m', rest)"
        by (auto split: sum.splits)
      from "1.IH"(1) [OF False e refl True e2(1) refl e2(2)] getEsc_length [OF e2(1)] l show ?thesis by auto
    next
      case False2: False
      with run e have "class_loop c1 r (m \<or> r = lo) (Suc k) = Inr (m', rest)" by simp
      from "1.IH"(2) [OF False e refl False2 this] l show ?thesis by simp
    qed
  qed
qed

text \<open>The name while it matches; \<open>None\<close> once the chunk has failed.\<close>

definition nonempty_name :: "string option \<Rightarrow> string option" where
  "nonempty_name so = (case so of Some (x # xs) \<Rightarrow> so | _ \<Rightarrow> None)"

definition match_byte :: "char \<Rightarrow> string option \<Rightarrow> string option" where
  "match_byte c so = (case so of Some (x # xs) \<Rightarrow> if x = c then Some xs else None | _ \<Rightarrow> None)"

definition take_rune :: "string option \<Rightarrow> nat \<times> string option" where
  "take_rune so = (case so of None \<Rightarrow> (0, None)
     | Some s \<Rightarrow> let (r, n) = decode_rune (bytes s) in (r, Some (drop n s)))"

function match_chunk :: "string \<Rightarrow> string option \<Rightarrow> (unit, string option) result" where
  "match_chunk [] so = Inr so"
| "match_chunk (c # cs) so =
     (if c = CHR ''['' then
        (case class_loop (if cs \<noteq> [] \<and> hd cs = CHR ''^'' then tl cs else cs)
                (fst (take_rune (nonempty_name so))) False 0 of
           Inl e \<Rightarrow> Inl e
         | Inr (m, rest) \<Rightarrow>
             match_chunk rest
               (if m = (cs \<noteq> [] \<and> hd cs = CHR ''^'') then None else snd (take_rune (nonempty_name so))))
      else if c = CHR ''?'' then
        match_chunk cs (case nonempty_name so of None \<Rightarrow> None
          | Some s \<Rightarrow> if hd s = SLASH then None else snd (take_rune (nonempty_name so)))
      else if c = BACKSLASH then
        (case cs of [] \<Rightarrow> Inl () | d # ds \<Rightarrow> match_chunk ds (match_byte d so))
      else match_chunk cs (match_byte c so))"
  by pat_completeness auto
termination
proof (relation "measure (length \<circ> fst)")
  fix c cs and so :: "string option" and y m rest
  assume "class_loop (if cs \<noteq> [] \<and> hd cs = CHR ''^'' then tl cs else cs)
      (fst (take_rune (nonempty_name so))) False 0 = Inr y" "(m, rest) = y"
  then have "length rest < length (if cs \<noteq> [] \<and> hd cs = CHR ''^'' then tl cs else cs)"
    using class_loop_length by metis
  then have "length rest < Suc (length cs)" by (auto split: if_splits)
  then show "((rest, if m = (cs \<noteq> [] \<and> hd cs = CHR ''^'') then None
      else snd (take_rune (nonempty_name so))), c # cs, so) \<in> measure (length \<circ> fst)" by simp
qed auto

text \<open>\<open>scanChunk\<close>: the leading stars, the chunk up to the next star outside a class, the rest.\<close>

fun scan_to_star :: "string \<Rightarrow> bool \<Rightarrow> nat" where
  "scan_to_star [] inr = 0"
| "scan_to_star [c] inr = (if c = STAR \<and> \<not> inr then 0 else 1)"
| "scan_to_star (c # d # cs) inr =
     (if c = BACKSLASH then 2 + scan_to_star cs inr
      else if c = CHR ''['' then 1 + scan_to_star (d # cs) True
      else if c = CHR '']'' then 1 + scan_to_star (d # cs) False
      else if c = STAR \<and> \<not> inr then 0
      else 1 + scan_to_star (d # cs) inr)"

definition scanChunk :: "string \<Rightarrow> bool \<times> string \<times> string" where
  "scanChunk p =
     (let q = dropWhile (\<lambda>c. c = STAR) p; i = scan_to_star q False
      in (q \<noteq> p, take i q, drop i q))"

lemma scanChunk_length: "p \<noteq> [] \<Longrightarrow> length (snd (snd (scanChunk p))) < length p"
proof -
  assume p: "p \<noteq> []"
  let ?q = "dropWhile (\<lambda>c. c = STAR) p"
  show ?thesis
  proof (cases "?q = p")
    case True
    obtain c cs where c0: "p = c # cs" using p by (cases p) auto
    with True have c: "p = c # cs" "c \<noteq> STAR"
      using length_dropWhile_le [of "\<lambda>c. c = STAR" cs] by (auto split: if_splits)
    then have "scan_to_star p False \<noteq> 0" by (cases cs) (auto simp: STAR_def)
    with True p show ?thesis by (simp add: scanChunk_def Let_def)
  next
    case False
    then have "length ?q < length p"
      by (metis length_dropWhile_le le_neq_implies_less dropWhile_eq_drop drop_eq_Nil append_take_drop_id
          length_append add_eq_self_zero takeWhile_dropWhile_id self_append_conv2 length_0_conv add.commute)
    then show ?thesis by (simp add: scanChunk_def Let_def)
  qed
qed

fun skip_bytes :: "string \<Rightarrow> bool \<Rightarrow> string \<Rightarrow> (unit, string option) result" where
  "skip_bytes chunk final [] = Inr None"
| "skip_bytes chunk final (c # cs) =
     (if c = SLASH then Inr None
      else (case match_chunk chunk (Some cs) of
        Inl e \<Rightarrow> Inl e
      | Inr (Some t) \<Rightarrow> if final \<and> t \<noteq> [] then skip_bytes chunk final cs else Inr (Some t)
      | Inr None \<Rightarrow> skip_bytes chunk final cs))"

function check_rest :: "string \<Rightarrow> (unit, bool) result" where
  "check_rest p =
     (if p = [] then Inr False
      else (case match_chunk (fst (snd (scanChunk p))) (Some []) of
        Inl e \<Rightarrow> Inl e
      | Inr _ \<Rightarrow> check_rest (snd (snd (scanChunk p)))))"
  by pat_completeness auto
termination
  by (relation "measure length") (use scanChunk_length in auto)

declare check_rest.simps [simp del]

abbreviation star_of :: "string \<Rightarrow> bool" where "star_of p \<equiv> fst (scanChunk p)"
abbreviation chunk_of :: "string \<Rightarrow> string" where "chunk_of p \<equiv> fst (snd (scanChunk p))"
abbreviation rest_of :: "string \<Rightarrow> string" where "rest_of p \<equiv> snd (snd (scanChunk p))"

function path_Match :: "string \<Rightarrow> string \<Rightarrow> (unit, bool) result" where
  "path_Match p name =
     (if p = [] then Inr (name = [])
      else if star_of p \<and> chunk_of p = [] then Inr (SLASH \<notin> set name)
      else (case match_chunk (chunk_of p) (Some name) of
        Inl e \<Rightarrow> Inl e
      | Inr so \<Rightarrow>
          if so = Some [] \<or> (so \<noteq> None \<and> rest_of p \<noteq> []) then path_Match (rest_of p) (the so)
          else if star_of p then
            (case skip_bytes (chunk_of p) (rest_of p = []) name of
               Inl e \<Rightarrow> Inl e
             | Inr None \<Rightarrow> check_rest (rest_of p)
             | Inr (Some t) \<Rightarrow> path_Match (rest_of p) t)
          else check_rest (rest_of p)))"
  by pat_completeness auto
termination
  by (relation "measure (length \<circ> fst)") (use scanChunk_length in auto)

declare path_Match.simps [simp del]

lemma path_Match_samples:
  "path_Match ''*@example.com'' ''alice@example.com'' = Inr True"
  "path_Match ''*@example.com'' ''alice@other.com'' = Inr False"
  "path_Match ''*a*b'' ''xxayyb'' = Inr True"
  by code_simp+

end
