(* ===== verification/Command.thy ===== *)
theory Command
  imports GoStrings
begin

section \<open>Command recipes: the schema and its validators (internal/daemon/command.go)\<close>

text \<open>
  The data model of a command file (\<open>CommandArg\<close>, \<open>Step\<close>, \<open>Command\<close>), \<open>ValidateCommand\<close> with
  the defaults it writes, and \<open>ValidateArgs\<close>, with one error constructor per \<open>return\<close>. A nil
  slice and an empty one are the same empty list: the code nowhere tells them apart, except
  for \<open>MCPServers\<close>, which is an option. \<open>time.ParseDuration\<close> is the parameter \<open>dur\<close>: the
  nanoseconds of a duration string, or \<open>None\<close> for an error.

  The properties: validation accepts exactly the declarative well-formedness predicate and
  returns the command with its defaults (so validating twice changes nothing), and argument
  validation accepts exactly the argument maps that satisfy the declared schema.
\<close>

subsection \<open>Data\<close>

record CommandArg =
  ca_Name :: string
  ca_Type :: string
  ca_Values :: "string list"
  ca_MaxLength :: int
  ca_Required :: bool
  ca_Default :: string
  ca_Position :: int

record Step =
  st_Binary :: string
  st_FixedArgs :: "string list"
  st_Stdin :: string

text \<open>
  \<open>output_schema\<close> is an \<open>any\<close>: absent, a string, a JSON object (kept as its text) or a value of
  another type (kept as the type's name).
\<close>

datatype output_schema = SchemaNil | SchemaString string | SchemaMap string | SchemaOther string

record Command =
  cmd_Name :: string
  cmd_Description :: string
  cmd_Signature :: string
  cmd_Runner :: string
  cmd_Mode :: string
  cmd_Args :: "CommandArg list"
  cmd_OutputSchema :: output_schema
  cmd_Binary :: string
  cmd_FixedArgs :: "string list"
  cmd_Steps :: "Step list"
  cmd_WriteSet :: "string list"
  cmd_Rounds :: int
  cmd_ReflectionAfterEach :: bool
  cmd_Timeout :: string
  cmd_Prompt :: string
  cmd_Tools :: "string list"
  cmd_MCPServers :: "string list option"
  cmd_EnvVars :: "string list"

text \<open>
  A call argument is an \<open>any\<close>: the dynamic types the code switches on, and any other value.
  \<open>VFloat64\<close> and \<open>VOther\<close> carry the text \<open>fmt.Sprint\<close> prints for the value.
\<close>

datatype any = VString string | VInt int | VInt64 int | VFloat64 string | VBool bool | VOther string

type_synonym args = "(string \<times> any) list"

subsection \<open>The allowlists\<close>

definition arg_name_char :: "char \<Rightarrow> bool" where
  "arg_name_char c \<longleftrightarrow>
     (let b = byte c in (65 \<le> b \<and> b \<le> 90) \<or> (97 \<le> b \<and> b \<le> 122) \<or> (48 \<le> b \<and> b \<le> 57)
        \<or> c = CHR ''_'' \<or> c = CHR ''.'' \<or> c = CHR ''-'')"

definition validArgName :: "string \<Rightarrow> bool" where
  "validArgName s \<longleftrightarrow> s \<noteq> [] \<and> list_all arg_name_char s"

definition validArgTypes :: "string list" where
  "validArgTypes = [''string'', ''enum'', ''int'', ''bool'']"

definition validToolNames :: "string list" where
  "validToolNames = [''Bash'', ''Read'', ''Edit'', ''Write'', ''Glob'', ''Grep'', ''Agent'', ''Task'',
     ''WebFetch'', ''WebSearch'', ''NotebookEdit'', ''TodoWrite'', ''BashOutput'', ''KillShell'',
     ''ExitPlanMode'']"

subsection \<open>ValidateCommand\<close>

datatype validate_error =
    MissingName
  | InvalidRunner string
  | InvalidMode string
  | ClaudeNeedsPrompt
  | ClaudeNeedsRounds
  | ClaudeHasBinary
  | ClaudeHasSteps
  | ClaudeHasFixedArgs
  | CliNeedsBinaryOrSteps
  | CliBinaryAndSteps
  | CliHasTools
  | UnrecognizedTool string
  | MissingOutputSchema
  | OutputSchemaString string
  | OutputSchemaType string
  | InvalidTimeout string
  | ArgMissingName nat
  | ArgBadName string
  | ArgBadType string string
  | ArgEnumNoValues string
  | ArgDuplicatePosition string int string
  | StepMissingBinary nat
  | StepFirstStdin string
  | StepLaterStdin nat string

definition default_runner_mode :: "Command \<Rightarrow> Command" where
  "default_runner_mode cmd =
     cmd\<lparr>cmd_Runner := (if cmd_Runner cmd = [] then ''claude'' else cmd_Runner cmd),
         cmd_Mode := (if cmd_Mode cmd = [] then ''process'' else cmd_Mode cmd)\<rparr>"

definition validate_runner :: "Command \<Rightarrow> (validate_error, unit) result" where
  "validate_runner cmd =
     (if cmd_Runner cmd = ''claude'' then
        (if cmd_Prompt cmd = [] then Inl ClaudeNeedsPrompt
         else if cmd_Rounds cmd \<le> 0 then Inl ClaudeNeedsRounds
         else if cmd_Binary cmd \<noteq> [] then Inl ClaudeHasBinary
         else if cmd_Steps cmd \<noteq> [] then Inl ClaudeHasSteps
         else if cmd_FixedArgs cmd \<noteq> [] then Inl ClaudeHasFixedArgs
         else Inr ())
      else if cmd_Runner cmd = ''cli'' then
        (if cmd_Binary cmd = [] \<and> cmd_Steps cmd = [] then Inl CliNeedsBinaryOrSteps
         else if cmd_Binary cmd \<noteq> [] \<and> cmd_Steps cmd \<noteq> [] then Inl CliBinaryAndSteps
         else if cmd_Tools cmd \<noteq> [] then Inl CliHasTools
         else Inr ())
      else Inr ())"

definition validate_schema :: "output_schema \<Rightarrow> (validate_error, unit) result" where
  "validate_schema s =
     (case s of
        SchemaNil \<Rightarrow> Inl MissingOutputSchema
      | SchemaString v \<Rightarrow> if v \<noteq> ''text'' then Inl (OutputSchemaString v) else Inr ()
      | SchemaMap _ \<Rightarrow> Inr ()
      | SchemaOther t \<Rightarrow> Inl (OutputSchemaType t))"

text \<open>The loop over the arguments, with its index and the \<open>seenPos\<close> map.\<close>

fun validate_args_loop :: "nat \<Rightarrow> (int \<rightharpoonup> string) \<Rightarrow> CommandArg list \<Rightarrow> (validate_error, unit) result" where
  "validate_args_loop i seen [] = Inr ()"
| "validate_args_loop i seen (a # as) =
     (if ca_Name a = [] then Inl (ArgMissingName i)
      else if \<not> validArgName (ca_Name a) then Inl (ArgBadName (ca_Name a))
      else if ca_Type a \<notin> set validArgTypes then Inl (ArgBadType (ca_Name a) (ca_Type a))
      else if ca_Type a = ''enum'' \<and> ca_Values a = [] then Inl (ArgEnumNoValues (ca_Name a))
      else if ca_Position a > 0 then
        (case seen (ca_Position a) of
           Some other \<Rightarrow> Inl (ArgDuplicatePosition (ca_Name a) (ca_Position a) other)
         | None \<Rightarrow> validate_args_loop (Suc i) (seen(ca_Position a \<mapsto> ca_Name a)) as)
      else validate_args_loop (Suc i) seen as)"

fun validate_steps_loop :: "nat \<Rightarrow> Step list \<Rightarrow> (validate_error, unit) result" where
  "validate_steps_loop i [] = Inr ()"
| "validate_steps_loop i (s # ss) =
     (if st_Binary s = [] then Inl (StepMissingBinary i)
      else if i = 0 \<and> st_Stdin s \<noteq> ''pipe'' then Inl (StepFirstStdin (st_Stdin s))
      else if i > 0 \<and> st_Stdin s \<noteq> ''stdout'' then Inl (StepLaterStdin i (st_Stdin s))
      else validate_steps_loop (Suc i) ss)"

definition ValidateCommand ::
    "(string \<Rightarrow> int option) \<Rightarrow> Command \<Rightarrow> (validate_error, Command) result" where
  "ValidateCommand dur cmd0 =
     (if cmd_Name cmd0 = [] then Inl MissingName
      else let cmd = default_runner_mode cmd0 in
        and_then (check (cmd_Runner cmd = ''claude'' \<or> cmd_Runner cmd = ''cli'')
                    (InvalidRunner (cmd_Runner cmd))) (\<lambda>_.
        and_then (check (cmd_Mode cmd = ''process'' \<or> cmd_Mode cmd = ''passthrough'')
                    (InvalidMode (cmd_Mode cmd))) (\<lambda>_.
        and_then (validate_runner cmd) (\<lambda>_.
        and_then (each_ok (\<lambda>t. check (t \<in> set validToolNames) (UnrecognizedTool t))
                    (cmd_Tools cmd)) (\<lambda>_.
        and_then (validate_schema (cmd_OutputSchema cmd)) (\<lambda>_.
        and_then (check (cmd_Timeout cmd \<noteq> [] \<longrightarrow> dur (cmd_Timeout cmd) \<noteq> None)
                    (InvalidTimeout (cmd_Timeout cmd))) (\<lambda>_.
        and_then (validate_args_loop 0 Map.empty (cmd_Args cmd)) (\<lambda>_.
        and_then (validate_steps_loop 0 (cmd_Steps cmd)) (\<lambda>_. Inr cmd)))))))))"

subsection \<open>ValidateArgs\<close>

datatype args_error =
    UnknownArg string
  | MissingRequired string
  | ArgNotString string
  | ArgTooLong string nat int
  | ArgNotInt string
  | ArgNotBool string
  | ArgNotEnumString string
  | ArgNotInEnum string string

definition check_arg :: "CommandArg \<Rightarrow> any \<Rightarrow> (args_error, unit) result" where
  "check_arg a v =
     (if ca_Type a = ''string'' then
        (case v of
           VString s \<Rightarrow>
             if ca_MaxLength a > 0 \<and> int (length s) > ca_MaxLength a
             then Inl (ArgTooLong (ca_Name a) (length s) (ca_MaxLength a)) else Inr ()
         | _ \<Rightarrow> Inl (ArgNotString (ca_Name a)))
      else if ca_Type a = ''int'' then
        (case v of VInt _ \<Rightarrow> Inr () | VInt64 _ \<Rightarrow> Inr () | VFloat64 _ \<Rightarrow> Inr ()
         | _ \<Rightarrow> Inl (ArgNotInt (ca_Name a)))
      else if ca_Type a = ''bool'' then
        (case v of VBool _ \<Rightarrow> Inr () | _ \<Rightarrow> Inl (ArgNotBool (ca_Name a)))
      else if ca_Type a = ''enum'' then
        (case v of
           VString s \<Rightarrow>
             if s \<in> set (ca_Values a) then Inr () else Inl (ArgNotInEnum (ca_Name a) s)
         | _ \<Rightarrow> Inl (ArgNotEnumString (ca_Name a)))
      else Inr ())"

text \<open>The argument map is an association list; its order stands for Go's iteration order.\<close>

definition ValidateArgs :: "Command \<Rightarrow> args \<Rightarrow> (args_error, unit) result" where
  "ValidateArgs cmd as =
     and_then (each_ok (\<lambda>(n, _). check (n \<in> ca_Name ` set (cmd_Args cmd)) (UnknownArg n)) as) (\<lambda>_.
       each_ok (\<lambda>a. case map_of as (ca_Name a) of
                   None \<Rightarrow> check (\<not> ca_Required a) (MissingRequired (ca_Name a))
                 | Some v \<Rightarrow> check_arg a v) (cmd_Args cmd))"

subsection \<open>What the validators promise\<close>

definition arg_ok :: "CommandArg \<Rightarrow> bool" where
  "arg_ok a \<longleftrightarrow> validArgName (ca_Name a) \<and> ca_Type a \<in> set validArgTypes
     \<and> (ca_Type a = ''enum'' \<longrightarrow> ca_Values a \<noteq> [])"

definition steps_ok :: "Step list \<Rightarrow> bool" where
  "steps_ok ss \<longleftrightarrow> (\<forall>s \<in> set ss. st_Binary s \<noteq> [])
     \<and> (ss \<noteq> [] \<longrightarrow> st_Stdin (hd ss) = ''pipe'') \<and> (\<forall>s \<in> set (tl ss). st_Stdin s = ''stdout'')"

definition runner_ok :: "Command \<Rightarrow> bool" where
  "runner_ok cmd \<longleftrightarrow>
     (cmd_Runner cmd = ''claude'' \<and> cmd_Prompt cmd \<noteq> [] \<and> cmd_Rounds cmd > 0
        \<and> cmd_Binary cmd = [] \<and> cmd_Steps cmd = [] \<and> cmd_FixedArgs cmd = [])
   \<or> (cmd_Runner cmd = ''cli'' \<and> (cmd_Binary cmd \<noteq> []) = (cmd_Steps cmd = [])
        \<and> cmd_Tools cmd = [])"

definition schema_ok :: "output_schema \<Rightarrow> bool" where
  "schema_ok s \<longleftrightarrow> s = SchemaString ''text'' \<or> (\<exists>j. s = SchemaMap j)"

text \<open>The positions in use: the positive ones must be distinct.\<close>

definition positions :: "CommandArg list \<Rightarrow> int list" where
  "positions as = filter (\<lambda>p. p > 0) (map ca_Position as)"

definition command_ok :: "(string \<Rightarrow> int option) \<Rightarrow> Command \<Rightarrow> bool" where
  "command_ok dur cmd \<longleftrightarrow>
     cmd_Name cmd \<noteq> [] \<and> runner_ok cmd
     \<and> (cmd_Mode cmd = ''process'' \<or> cmd_Mode cmd = ''passthrough'')
     \<and> set (cmd_Tools cmd) \<subseteq> set validToolNames
     \<and> schema_ok (cmd_OutputSchema cmd)
     \<and> (cmd_Timeout cmd \<noteq> [] \<longrightarrow> dur (cmd_Timeout cmd) \<noteq> None)
     \<and> (\<forall>a \<in> set (cmd_Args cmd). arg_ok a) \<and> distinct (positions (cmd_Args cmd))
     \<and> steps_ok (cmd_Steps cmd)"

lemma validate_runner_ok:
  "cmd_Runner cmd = ''claude'' \<or> cmd_Runner cmd = ''cli'' \<Longrightarrow>
     validate_runner cmd = Inr () \<longleftrightarrow> runner_ok cmd"
  by (auto simp: validate_runner_def runner_ok_def)

lemma validate_schema_ok: "validate_schema s = Inr () \<longleftrightarrow> schema_ok s"
  by (auto simp: validate_schema_def schema_ok_def split: output_schema.splits)

lemma validArgName_nonempty: "validArgName n \<Longrightarrow> n \<noteq> []"
  by (simp add: validArgName_def)

lemma validate_args_loop_step:
  "validate_args_loop i seen (a # as) = Inr () \<longleftrightarrow>
     arg_ok a \<and> (ca_Position a > 0 \<longrightarrow> seen (ca_Position a) = None)
     \<and> validate_args_loop (Suc i)
         (if ca_Position a > 0 then seen(ca_Position a \<mapsto> ca_Name a) else seen) as = Inr ()"
proof (cases "arg_ok a")
  case True
  then have "ca_Name a \<noteq> []" by (simp add: arg_ok_def validArgName_nonempty)
  with True show ?thesis
    by (cases "seen (ca_Position a)") (auto simp: arg_ok_def)
next
  case False
  then show ?thesis by (simp add: arg_ok_def)
qed

declare validate_args_loop.simps(2) [simp del]

lemma positions_Cons:
  "positions (a # as) = (if ca_Position a > 0 then [ca_Position a] else []) @ positions as"
  by (simp add: positions_def)

lemma validate_args_loop_ok:
  "validate_args_loop i seen as = Inr () \<longleftrightarrow>
     (\<forall>a \<in> set as. arg_ok a) \<and> distinct (positions as) \<and> set (positions as) \<inter> dom seen = {}"
proof (induction as arbitrary: i seen)
  case Nil
  show ?case by (simp add: positions_def)
next
  case (Cons a as)
  show ?case
  proof (cases "ca_Position a > 0")
    case True
    then show ?thesis
      by (auto simp: validate_args_loop_step Cons.IH positions_Cons dom_def)
  next
    case False
    then show ?thesis
      by (simp add: validate_args_loop_step Cons.IH positions_Cons)
  qed
qed

lemma validate_steps_loop_later:
  "i > 0 \<Longrightarrow> validate_steps_loop i ss = Inr () \<longleftrightarrow>
     (\<forall>s \<in> set ss. st_Binary s \<noteq> [] \<and> st_Stdin s = ''stdout'')"
  by (induction i ss rule: validate_steps_loop.induct) auto

lemma validate_steps_loop_ok: "validate_steps_loop 0 ss = Inr () \<longleftrightarrow> steps_ok ss"
  by (cases ss) (auto simp: validate_steps_loop_later steps_ok_def)

lemmas validator_specs =
  validate_schema_ok validate_args_loop_ok validate_steps_loop_ok each_ok_Inr_iff

lemma default_runner_mode_simps [simp]:
  "cmd_Name (default_runner_mode c) = cmd_Name c"
  "cmd_Runner (default_runner_mode c) = (if cmd_Runner c = [] then ''claude'' else cmd_Runner c)"
  "cmd_Mode (default_runner_mode c) = (if cmd_Mode c = [] then ''process'' else cmd_Mode c)"
  "cmd_Signature (default_runner_mode c) = cmd_Signature c"
  by (simp_all add: default_runner_mode_def)

lemma default_runner_mode_id:
  "cmd_Runner c \<noteq> [] \<Longrightarrow> cmd_Mode c \<noteq> [] \<Longrightarrow> default_runner_mode c = c"
  by (simp add: default_runner_mode_def)

lemma runner_ok_runner: "runner_ok cmd \<Longrightarrow> cmd_Runner cmd = ''claude'' \<or> cmd_Runner cmd = ''cli''"
  by (auto simp: runner_ok_def)

lemma validate_command_ok_iff:
  "ValidateCommand dur cmd = Inr cmd' \<longleftrightarrow>
     cmd' = default_runner_mode cmd \<and> command_ok dur cmd'"
proof -
  let ?d = "default_runner_mode cmd"
  have n: "cmd_Name ?d = cmd_Name cmd" by simp
  have "ValidateCommand dur cmd = Inr cmd' \<longleftrightarrow> cmd' = ?d \<and> cmd_Name ?d \<noteq> []
     \<and> (cmd_Runner ?d = ''claude'' \<or> cmd_Runner ?d = ''cli'')
     \<and> (cmd_Mode ?d = ''process'' \<or> cmd_Mode ?d = ''passthrough'')
     \<and> validate_runner ?d = Inr () \<and> set (cmd_Tools ?d) \<subseteq> set validToolNames
     \<and> schema_ok (cmd_OutputSchema ?d)
     \<and> (cmd_Timeout ?d \<noteq> [] \<longrightarrow> dur (cmd_Timeout ?d) \<noteq> None)
     \<and> ((\<forall>a \<in> set (cmd_Args ?d). arg_ok a) \<and> distinct (positions (cmd_Args ?d)))
     \<and> steps_ok (cmd_Steps ?d)"
    unfolding ValidateCommand_def Let_def n
    by (auto simp: and_then_Inr_iff validator_specs is_ok_iff
        simp del: default_runner_mode_simps)
  also have "\<dots> \<longleftrightarrow> cmd' = ?d \<and> command_ok dur ?d"
    unfolding command_ok_def using validate_runner_ok [of ?d] runner_ok_runner [of ?d] by blast
  finally show ?thesis by (simp cong: conj_cong)
qed

text \<open>
  \<open>ValidateCommand\<close> accepts a command exactly when the command with its defaults
  (runner claude, mode process) satisfies the declarative schema: a known runner with the
  fields that runner needs and none it must not have, a known mode, only real tool names, a
  text or object output schema, a parseable timeout, arguments with allowlisted names, known
  types and distinct positive positions, and a step chain fed by the pipe and then by stdout.
  The accepted value is the defaulted command.
\<close>

theorem ValidateCommand_accepts_iff:
  "ValidateCommand dur cmd = Inr cmd' \<longleftrightarrow>
     cmd' = default_runner_mode cmd \<and> command_ok dur cmd'"
  by (rule validate_command_ok_iff)

text \<open>
  Validation is idempotent: a command it returned validates again, to itself. So a file
  validated when signed validates identically when loaded.
\<close>

theorem ValidateCommand_idempotent:
  assumes "ValidateCommand dur cmd = Inr cmd'"
  shows "ValidateCommand dur cmd' = Inr cmd'"
proof -
  from assms have d: "cmd' = default_runner_mode cmd" and ok: "command_ok dur cmd'"
    unfolding validate_command_ok_iff by blast+
  from ok have "cmd_Runner cmd' \<noteq> []" "cmd_Mode cmd' \<noteq> []"
    by (auto simp: command_ok_def runner_ok_def)
  with ok show ?thesis by (simp add: validate_command_ok_iff default_runner_mode_id)
qed

definition sample_command :: Command where
  "sample_command =
     \<lparr>cmd_Name = ''lookup'', cmd_Description = [], cmd_Signature = [], cmd_Runner = [],
      cmd_Mode = [],
      cmd_Args = [\<lparr>ca_Name = ''to'', ca_Type = ''string'', ca_Values = [], ca_MaxLength = 9,
                   ca_Required = True, ca_Default = [], ca_Position = 1\<rparr>],
      cmd_OutputSchema = SchemaString ''text'', cmd_Binary = [], cmd_FixedArgs = [],
      cmd_Steps = [], cmd_WriteSet = [], cmd_Rounds = 2, cmd_ReflectionAfterEach = False,
      cmd_Timeout = [], cmd_Prompt = ''look it up'', cmd_Tools = [''Read''],
      cmd_MCPServers = None, cmd_EnvVars = []\<rparr>"

lemma sample_command_validates:
  "ValidateCommand (\<lambda>_. None) sample_command = Inr (default_runner_mode sample_command)"
  by code_simp

theorem ValidateCommand_idempotent_witness:
  "ValidateCommand (\<lambda>_. None) (default_runner_mode sample_command)
     = Inr (default_runner_mode sample_command)"
  by (rule ValidateCommand_idempotent [OF sample_command_validates])

definition arg_value_ok :: "CommandArg \<Rightarrow> any \<Rightarrow> bool" where
  "arg_value_ok a v \<longleftrightarrow>
     (ca_Type a = ''string'' \<longrightarrow>
        (\<exists>s. v = VString s \<and> (ca_MaxLength a > 0 \<longrightarrow> int (length s) \<le> ca_MaxLength a)))
   \<and> (ca_Type a = ''int'' \<longrightarrow> (\<exists>i. v = VInt i \<or> v = VInt64 i) \<or> (\<exists>t. v = VFloat64 t))
   \<and> (ca_Type a = ''bool'' \<longrightarrow> (\<exists>b. v = VBool b))
   \<and> (ca_Type a = ''enum'' \<longrightarrow> (\<exists>s \<in> set (ca_Values a). v = VString s))"

lemma check_arg_ok: "check_arg a v = Inr () \<longleftrightarrow> arg_value_ok a v"
  by (cases v) (auto simp: check_arg_def arg_value_ok_def)

text \<open>
  \<open>ValidateArgs\<close> accepts an argument map exactly when every key is declared, every required
  argument is present, and every declared argument that is present has a value of its declared
  type within its bounds (length in bytes, membership in the enum).
\<close>

theorem ValidateArgs_accepts_iff:
  "ValidateArgs cmd as = Inr () \<longleftrightarrow>
     fst ` set as \<subseteq> ca_Name ` set (cmd_Args cmd)
   \<and> (\<forall>a \<in> set (cmd_Args cmd).
        (ca_Required a \<longrightarrow> map_of as (ca_Name a) \<noteq> None)
      \<and> (\<forall>v. map_of as (ca_Name a) = Some v \<longrightarrow> arg_value_ok a v))"
proof -
  have "is_ok (case map_of as (ca_Name a) of None \<Rightarrow> check (\<not> ca_Required a) (MissingRequired (ca_Name a))
      | Some v \<Rightarrow> check_arg a v) \<longleftrightarrow> (ca_Required a \<longrightarrow> map_of as (ca_Name a) \<noteq> None)
      \<and> (\<forall>v. map_of as (ca_Name a) = Some v \<longrightarrow> arg_value_ok a v)" for a
    by (cases "map_of as (ca_Name a)") (auto simp: is_ok_iff check_arg_ok)
  then show ?thesis
    by (auto simp: ValidateArgs_def and_then_Inr_iff each_ok_Inr_iff is_ok_iff split_beta)
qed

lemma sample_args_accepted: "ValidateArgs sample_command [(''to'', VString ''a@b'')] = Inr ()"
  by code_simp

theorem ValidateArgs_accepts_iff_witness: "arg_value_ok (hd (cmd_Args sample_command)) (VString ''a@b'')"
proof -
  have "hd (cmd_Args sample_command) \<in> set (cmd_Args sample_command)"
    "map_of [(''to'', VString ''a@b'')] (ca_Name (hd (cmd_Args sample_command))) = Some (VString ''a@b'')"
    by (simp_all add: sample_command_def)
  then show ?thesis
    using ValidateArgs_accepts_iff [of sample_command "[(''to'', VString ''a@b'')]"] sample_args_accepted by blast
qed

end
