(* ===== verification/KeyExpiry.thy ===== *)
theory KeyExpiry
  imports GoStrings
begin

section \<open>The key-expiry gate (internal/pgp/expiry.go)\<close>

text \<open>
  \<open>CheckKeyExpiry\<close> runs \<open>gpg --list-keys --with-colons\<close> and reads the records of its output.
  The subprocess is outside the repository: its outcome and its output are arguments. The
  property: the parser accepts an output exactly when it holds one public key with an unexpired
  expiry, no signing subkey lacks an expiry, and, if there are signing subkeys, one is current.
\<close>

subsection \<open>Subprocess outcomes\<close>

text \<open>
  The error of \<open>exec.Cmd.Run\<close>: nil and \<open>*exec.ExitError\<close> are a process that ran; any other
  error is one that did not.
\<close>

datatype exec_outcome = Exited bool | NotRun string

definition RanToCompletion :: "exec_outcome \<Rightarrow> bool" where
  "RanToCompletion r = (case r of Exited _ \<Rightarrow> True | NotRun _ \<Rightarrow> False)"

subsection \<open>The parser\<close>

datatype expired_error = Unparseable string | Expired int

datatype expiry_error =
    PubNoExpiry
  | PubBadExpiry expired_error
  | SubNoExpiry
  | KeyNotFound
  | KeyAmbiguous nat
  | NoValidSubkey

definition checkNotExpired :: "string \<Rightarrow> int \<Rightarrow> (expired_error, unit) result" where
  "checkNotExpired f now =
     (case ParseInt64 f of
        None \<Rightarrow> Inl (Unparseable f)
      | Some e \<Rightarrow> if e \<le> now then Inl (Expired e) else Inr ())"

definition no_expiry :: "string \<Rightarrow> bool" where
  "no_expiry f \<longleftrightarrow> f = [] \<or> f = ''0''"

fun colon_loop ::
    "int \<Rightarrow> nat \<Rightarrow> bool \<Rightarrow> bool \<Rightarrow> string list \<Rightarrow> (expiry_error, nat \<times> bool \<times> bool) result" where
  "colon_loop now pubCount saw have_valid [] = Inr (pubCount, saw, have_valid)"
| "colon_loop now pubCount saw have_valid (line # ls) =
     (let fields = Split line (CHR '':'') in
      if hd fields = ''pub'' then
        (if length fields < 7 then colon_loop now pubCount saw have_valid ls
         else if no_expiry (fields ! 6) then Inl PubNoExpiry
         else case checkNotExpired (fields ! 6) now of
                Inl e \<Rightarrow> Inl (PubBadExpiry e)
              | Inr _ \<Rightarrow> colon_loop now (pubCount + 1) saw have_valid ls)
      else if hd fields = ''sub'' then
        (if length fields < 12 \<or> \<not> Contains (fields ! 11) ''s''
         then colon_loop now pubCount saw have_valid ls
         else if no_expiry (fields ! 6) then Inl SubNoExpiry
         else colon_loop now pubCount True
                (have_valid \<or> is_ok (checkNotExpired (fields ! 6) now)) ls)
      else colon_loop now pubCount saw have_valid ls)"

definition parseColonExpiry :: "string \<Rightarrow> int \<Rightarrow> (expiry_error, unit) result" where
  "parseColonExpiry out now =
     (case colon_loop now 0 False False (Split out NL) of
        Inl e \<Rightarrow> Inl e
      | Inr (pubCount, saw, have_valid) \<Rightarrow>
          if pubCount = 0 then Inl KeyNotFound
          else if pubCount > 1 then Inl (KeyAmbiguous pubCount)
          else if saw \<and> \<not> have_valid then Inl NoValidSubkey
          else Inr ())"

datatype check_error = ExpiryNotRun string | KeyExpiryFinding expiry_error

definition CheckKeyExpiry :: "exec_outcome \<Rightarrow> string \<Rightarrow> int \<Rightarrow> (check_error, unit) result" where
  "CheckKeyExpiry outcome out now =
     (case outcome of
        NotRun e \<Rightarrow> Inl (ExpiryNotRun e)
      | Exited _ \<Rightarrow> (case parseColonExpiry out now of
                       Inl e \<Rightarrow> Inl (KeyExpiryFinding e) | Inr _ \<Rightarrow> Inr ()))"

subsection \<open>What a usable key is\<close>

definition records :: "string \<Rightarrow> string list list" where
  "records out = map (\<lambda>l. Split l (CHR '':'')) (Split out NL)"

definition pub_record :: "string list \<Rightarrow> bool" where
  "pub_record f \<longleftrightarrow> hd f = ''pub'' \<and> 7 \<le> length f"

definition signing_sub_record :: "string list \<Rightarrow> bool" where
  "signing_sub_record f \<longleftrightarrow> hd f = ''sub'' \<and> 12 \<le> length f \<and> Contains (f ! 11) ''s''"

definition current :: "int \<Rightarrow> string \<Rightarrow> bool" where
  "current now f \<longleftrightarrow> (\<exists>e. ParseInt64 f = Some e \<and> now < e)"

definition key_usable :: "string list list \<Rightarrow> int \<Rightarrow> bool" where
  "key_usable rs now \<longleftrightarrow>
     (\<exists>p. filter pub_record rs = [p] \<and> \<not> no_expiry (p ! 6) \<and> current now (p ! 6))
   \<and> (\<forall>s \<in> set (filter signing_sub_record rs). \<not> no_expiry (s ! 6))
   \<and> (filter signing_sub_record rs \<noteq> [] \<longrightarrow>
        (\<exists>s \<in> set (filter signing_sub_record rs). current now (s ! 6)))"

lemma checkNotExpired_ok: "checkNotExpired f now = Inr u \<longleftrightarrow> current now f"
  by (auto simp: checkNotExpired_def current_def split: option.splits)

lemma is_ok_checkNotExpired: "is_ok (checkNotExpired f now) \<longleftrightarrow> current now f"
  by (auto simp: is_ok_iff checkNotExpired_ok)

text \<open>One line of the loop, as its effect on the three counters.\<close>

lemma colon_loop_step:
  "colon_loop now n saw hv (line # ls) = Inr r \<longleftrightarrow>
     (let f = Split line (CHR '':'') in
        (pub_record f \<longrightarrow> \<not> no_expiry (f ! 6) \<and> current now (f ! 6))
      \<and> (signing_sub_record f \<longrightarrow> \<not> no_expiry (f ! 6))
      \<and> colon_loop now (if pub_record f then n + 1 else n) (saw \<or> signing_sub_record f)
           (hv \<or> signing_sub_record f \<and> current now (f ! 6)) ls = Inr r)"
proof -
  let ?f = "Split line (CHR '':'')"
  consider "hd ?f = ''pub''" | "hd ?f = ''sub''" | "hd ?f \<noteq> ''pub''" "hd ?f \<noteq> ''sub''" by blast
  then show ?thesis
  proof cases
    case 1
    then have "\<not> signing_sub_record ?f" by (simp add: signing_sub_record_def)
    with 1 checkNotExpired_ok [of "?f ! 6" now "()"] show ?thesis
      by (cases "checkNotExpired (?f ! 6) now") (auto simp: Let_def pub_record_def)
  next
    case 2
    then have "\<not> pub_record ?f" by (simp add: pub_record_def)
    with 2 show ?thesis
      by (auto simp: Let_def signing_sub_record_def is_ok_checkNotExpired)
  next
    case 3
    then show ?thesis by (simp add: Let_def pub_record_def signing_sub_record_def)
  qed
qed

declare colon_loop.simps(2) [simp del]

lemma colon_loop_spec:
  "colon_loop now n saw hv ls = Inr (n', saw', hv') \<longleftrightarrow>
     (let rs = map (\<lambda>l. Split l (CHR '':'')) ls;
          pubs = filter pub_record rs; subs = filter signing_sub_record rs in
        (\<forall>p \<in> set pubs. \<not> no_expiry (p ! 6) \<and> current now (p ! 6))
      \<and> (\<forall>s \<in> set subs. \<not> no_expiry (s ! 6))
      \<and> n' = n + length pubs \<and> saw' = (saw \<or> subs \<noteq> [])
      \<and> hv' = (hv \<or> (\<exists>s \<in> set subs. current now (s ! 6))))"
proof (induction ls arbitrary: n saw hv)
  case Nil
  show ?case by auto
next
  case (Cons line ls)
  show ?case unfolding colon_loop_step Let_def Cons.IH by auto
qed

lemma one_such_iff: "(\<forall>x \<in> set xs. P x) \<and> length xs = 1 \<longleftrightarrow> (\<exists>x. xs = [x] \<and> P x)"
  by (cases xs) auto

lemma ex_counters:
  "(\<exists>n saw hv. (A \<and> B \<and> n = N \<and> saw = S \<and> hv = H) \<and> n = (1 :: nat) \<and> (saw \<longrightarrow> hv)) \<longleftrightarrow>
     (A \<and> N = 1) \<and> B \<and> (S \<longrightarrow> H)"
  by auto

lemma parseColonExpiry_iff:
  "parseColonExpiry out now = Inr () \<longleftrightarrow> key_usable (records out) now"
proof -
  let ?rs = "records out"
  let ?pubs = "filter pub_record ?rs" and ?subs = "filter signing_sub_record ?rs"
  have loop: "colon_loop now 0 False False (Split out NL) = Inr (n, saw, hv) \<longleftrightarrow>
      (\<forall>p \<in> set ?pubs. \<not> no_expiry (p ! 6) \<and> current now (p ! 6))
    \<and> (\<forall>s \<in> set ?subs. \<not> no_expiry (s ! 6)) \<and> n = length ?pubs \<and> saw = (?subs \<noteq> [])
    \<and> hv = (\<exists>s \<in> set ?subs. current now (s ! 6))" for n saw hv
    unfolding colon_loop_spec Let_def records_def by auto
  have "parseColonExpiry out now = Inr () \<longleftrightarrow>
      (\<exists>n saw hv. colon_loop now 0 False False (Split out NL) = Inr (n, saw, hv)
        \<and> n = 1 \<and> (saw \<longrightarrow> hv))"
    by (auto simp: parseColonExpiry_def split: sum.splits)
  also have "\<dots> \<longleftrightarrow>
      ((\<forall>p \<in> set ?pubs. \<not> no_expiry (p ! 6) \<and> current now (p ! 6)) \<and> length ?pubs = 1)
    \<and> (\<forall>s \<in> set ?subs. \<not> no_expiry (s ! 6))
    \<and> (?subs \<noteq> [] \<longrightarrow> (\<exists>s \<in> set ?subs. current now (s ! 6)))"
    unfolding loop by (rule ex_counters)
  also have "\<dots> \<longleftrightarrow> key_usable ?rs now"
    unfolding key_usable_def one_such_iff by (rule refl)
  finally show ?thesis .
qed

text \<open>
  The expiry parser accepts gpg's colon output exactly when it names one public key whose
  expiry is set, readable and later than now, no signing-capable subkey lacks an expiry, and,
  when there are signing-capable subkeys, at least one of them is unexpired.
\<close>

theorem parseColonExpiry_accepts_iff:
  "parseColonExpiry out now = Inr () \<longleftrightarrow> key_usable (records out) now"
  by (rule parseColonExpiry_iff)

end
