(* ===== verification/Signature.thy ===== *)
theory Signature
  imports Command KeyExpiry
begin

section \<open>Command-file signatures (internal/daemon/signature.go)\<close>

text \<open>
  \<open>VerifySignature\<close> with its whole chain: fingerprint check, canonical bytes, isolated keyring,
  export and import of the owner's key, the single-key assertion, the expiry gate and the
  classification of gpg's status lines. gpg and the file system are outside the repository:
  the record \<open>gpg\<close> gives their answers (outcome and output of each subprocess, over an
  abstract keyring type), and \<open>marshal\<close> stands for \<open>json.Marshal\<close>. \<open>ufold\<close> is the Unicode case
  folding of \<open>strings.EqualFold\<close>.
\<close>

subsection \<open>Verdicts\<close>

datatype SignatureReason = ReasonMissing | ReasonInvalid | ReasonWrongKey | ReasonKeyExpired

datatype sig_detail =
    NotFingerprint string
  | NoSignature
  | OwnerKeyMissing
  | OwnerKeyAmbiguous nat
  | ExpiryDetail expiry_error
  | StatusLine string
  | UnrecognizedStatus string string

text \<open>A \<open>*SignatureError\<close> is a verdict on the signature; any other error is operational.\<close>

datatype verify_error = SignatureError SignatureReason sig_detail | OperationalError string

definition hex_char :: "char \<Rightarrow> bool" where
  "hex_char c \<longleftrightarrow>
     (let b = byte c in (48 \<le> b \<and> b \<le> 57) \<or> (65 \<le> b \<and> b \<le> 70) \<or> (97 \<le> b \<and> b \<le> 102))"

definition fingerprintPattern :: "string \<Rightarrow> bool" where
  "fingerprintPattern s \<longleftrightarrow> length s = 40 \<and> list_all hex_char s"

definition isOperationalExecFailure :: "check_error + exec_outcome \<Rightarrow> bool" where
  "isOperationalExecFailure err =
     (case err of
        Inl (KeyExpiryFinding _) \<Rightarrow> False
      | Inl (ExpiryNotRun e) \<Rightarrow> \<not> RanToCompletion (NotRun e)
      | Inr r \<Rightarrow> \<not> RanToCompletion r)"

subsection \<open>The subprocesses\<close>

record 'r gpg =
  fresh_keyring :: "(string, 'r) result"
  gpg_export :: "string \<Rightarrow> exec_outcome \<times> string"
  gpg_import :: "'r \<Rightarrow> string \<Rightarrow> exec_outcome \<times> 'r"
  gpg_list_keys :: "'r \<Rightarrow> string \<Rightarrow> exec_outcome \<times> string"
  write_file :: "string \<Rightarrow> string \<Rightarrow> (string, unit) result"
  gpg_verify :: "'r \<Rightarrow> string \<Rightarrow> string \<Rightarrow> exec_outcome \<times> string \<times> string"

definition CanonicalCommandBytes ::
    "(Command \<Rightarrow> (string, string) result) \<Rightarrow> Command \<Rightarrow> (string, string) result" where
  "CanonicalCommandBytes marshal cmd = marshal (cmd\<lparr>cmd_Signature := []\<rparr>)"

text \<open>\<open>countOwnerKeyMatches\<close>: the pub records whose next line is a fpr record of the owner.\<close>

fun count_matches :: "(nat \<Rightarrow> nat) \<Rightarrow> string \<Rightarrow> string list \<Rightarrow> nat" where
  "count_matches ufold owner [] = 0"
| "count_matches ufold owner [l] = 0"
| "count_matches ufold owner (l # l' # ls) =
     (let f = Split l (CHR '':''); f' = Split l' (CHR '':'') in
      (if hd f = ''pub'' \<and> 10 \<le> length f' \<and> hd f' = ''fpr'' \<and> EqualFold ufold (f' ! 9) owner
       then 1 else 0) + count_matches ufold owner (l' # ls))"

definition countOwnerKeyMatches :: "(nat \<Rightarrow> nat) \<Rightarrow> string \<Rightarrow> string \<Rightarrow> nat" where
  "countOwnerKeyMatches ufold out owner = count_matches ufold owner (Split out NL)"

definition assertSingleOwnerKey ::
    "(nat \<Rightarrow> nat) \<Rightarrow> 'r gpg \<Rightarrow> 'r \<Rightarrow> string \<Rightarrow> (verify_error, unit) result" where
  "assertSingleOwnerKey ufold g ring owner =
     (let (r, out) = gpg_list_keys g ring owner in
      if isOperationalExecFailure (Inr r) then Inl (OperationalError ''run gpg list-keys'')
      else let n = countOwnerKeyMatches ufold out owner in
        if n = 0 then Inl (SignatureError ReasonInvalid OwnerKeyMissing)
        else if n > 1 then Inl (SignatureError ReasonInvalid (OwnerKeyAmbiguous n))
        else Inr ())"

text \<open>\<open>importOwnerKey\<close> returns the keyring it filled: the homedir the later steps use.\<close>

definition importOwnerKey ::
    "(nat \<Rightarrow> nat) \<Rightarrow> 'r gpg \<Rightarrow> 'r \<Rightarrow> string \<Rightarrow> (verify_error, 'r) result" where
  "importOwnerKey ufold g ring owner =
     (let (r, keyData) = gpg_export g owner in
      if r \<noteq> Exited True then Inl (OperationalError ''export owner key'')
      else
        and_then
          (if length keyData > 0 then
             (let (r', ring') = gpg_import g ring keyData in
              if r' \<noteq> Exited True then Inl (OperationalError ''import owner key'') else Inr ring')
           else Inr ring)
          (\<lambda>ring'. and_then (assertSingleOwnerKey ufold g ring' owner) (\<lambda>_. Inr ring')))"

subsection \<open>The status lines\<close>

definition invalid_words :: "string list" where
  "invalid_words = [''BADSIG'', ''ERRSIG'', ''REVKEYSIG'', ''EXPSIG'']"

text \<open>The keyword of a status line: its first field after the \<open>[GNUPG:]\<close> marker.\<close>

definition status_word :: "string \<Rightarrow> string option" where
  "status_word line =
     (case CutPrefix line ''[GNUPG:] '' of
        None \<Rightarrow> None
      | Some rest \<Rightarrow> (case Fields rest of [] \<Rightarrow> None | w # _ \<Rightarrow> Some w))"

record status_lines =
  noPubkeyLine :: string
  invalidLine :: string
  goodLine :: string
  expiredLine :: string

definition status_step :: "string \<Rightarrow> status_lines \<Rightarrow> status_lines" where
  "status_step line s =
     (case status_word line of
        None \<Rightarrow> s
      | Some w \<Rightarrow>
          if w = ''GOODSIG'' then s\<lparr>goodLine := line\<rparr>
          else if w = ''EXPKEYSIG'' then s\<lparr>expiredLine := line\<rparr>
          else if w = ''NO_PUBKEY'' then s\<lparr>noPubkeyLine := line\<rparr>
          else if w \<in> set invalid_words then
            (if invalidLine s = [] then s\<lparr>invalidLine := line\<rparr> else s)
          else s)"

definition no_status :: status_lines where
  "no_status = \<lparr>noPubkeyLine = [], invalidLine = [], goodLine = [], expiredLine = []\<rparr>"

definition classifyStatusLines :: "string \<Rightarrow> string \<Rightarrow> (verify_error, unit) result" where
  "classifyStatusLines out stderr =
     (let s = fold status_step (Split out NL) no_status in
      if noPubkeyLine s \<noteq> [] then Inl (SignatureError ReasonWrongKey (StatusLine (noPubkeyLine s)))
      else if goodLine s \<noteq> [] then Inr ()
      else if expiredLine s \<noteq> [] then
        Inl (SignatureError ReasonKeyExpired (StatusLine (expiredLine s)))
      else if invalidLine s \<noteq> [] then
        Inl (SignatureError ReasonInvalid (StatusLine (invalidLine s)))
      else Inl (SignatureError ReasonInvalid
                  (UnrecognizedStatus (TrimSpace out) (TrimSpace stderr))))"

definition verifyDetachedSignature ::
    "'r gpg \<Rightarrow> 'r \<Rightarrow> string \<Rightarrow> string \<Rightarrow> (verify_error, unit) result" where
  "verifyDetachedSignature g ring canon armoredSig =
     (case write_file g ''command.canonical'' canon of
        Inl e \<Rightarrow> Inl (OperationalError e)
      | Inr _ \<Rightarrow>
         (case write_file g ''signature.asc'' armoredSig of
            Inl e \<Rightarrow> Inl (OperationalError e)
          | Inr _ \<Rightarrow>
             (let (r, out, err) = gpg_verify g ring armoredSig canon in
              if isOperationalExecFailure (Inr r) then Inl (OperationalError ''run gpg verify'')
              else classifyStatusLines out err)))"

definition withCLocale :: "string list \<Rightarrow> string list" where
  "withCLocale env = filter (\<lambda>e. \<not> HasPrefix e ''LC_ALL='') env @ [''LC_ALL=C'']"

definition check_owner_expiry ::
    "'r gpg \<Rightarrow> 'r \<Rightarrow> string \<Rightarrow> int \<Rightarrow> (verify_error, unit) result" where
  "check_owner_expiry g ring owner now =
     (let (r, out) = gpg_list_keys g ring owner in
      case CheckKeyExpiry r out now of
        Inr _ \<Rightarrow> Inr ()
      | Inl e \<Rightarrow>
          if isOperationalExecFailure (Inl e) then Inl (OperationalError ''gpg list-keys'')
          else (case e of
                  KeyExpiryFinding f \<Rightarrow> Inl (SignatureError ReasonKeyExpired (ExpiryDetail f))
                | ExpiryNotRun m \<Rightarrow> Inl (OperationalError m)))"

definition VerifySignature ::
    "(nat \<Rightarrow> nat) \<Rightarrow> 'r gpg \<Rightarrow> (Command \<Rightarrow> (string, string) result) \<Rightarrow> int \<Rightarrow> Command \<Rightarrow> string
       \<Rightarrow> (verify_error, unit) result" where
  "VerifySignature ufold g marshal now cmd owner =
     (if \<not> fingerprintPattern owner then Inl (SignatureError ReasonInvalid (NotFingerprint owner))
      else if cmd_Signature cmd = [] then Inl (SignatureError ReasonMissing NoSignature)
      else case CanonicalCommandBytes marshal cmd of
             Inl e \<Rightarrow> Inl (OperationalError e)
           | Inr canon \<Rightarrow>
              (case fresh_keyring g of
                 Inl e \<Rightarrow> Inl (OperationalError e)
               | Inr ring0 \<Rightarrow>
                   and_then (importOwnerKey ufold g ring0 owner) (\<lambda>ring.
                   and_then (check_owner_expiry g ring owner now) (\<lambda>_.
                     verifyDetachedSignature g ring canon (cmd_Signature cmd)))))"

subsection \<open>The classification, declaratively\<close>

definition says :: "string \<Rightarrow> string \<Rightarrow> bool" where
  "says out w \<longleftrightarrow> (\<exists>line \<in> set (Split out NL). status_word line = Some w)"

lemma status_word_nonempty: "status_word line = Some w \<Longrightarrow> line \<noteq> []"
  by (auto simp: status_word_def CutPrefix_def)

lemma fold_status:
  fixes s :: status_lines and ls :: "string list"
  defines "s' \<equiv> fold status_step ls s"
  shows "goodLine s' \<noteq> [] \<longleftrightarrow> goodLine s \<noteq> [] \<or> (\<exists>l \<in> set ls. status_word l = Some ''GOODSIG'')"
    and "noPubkeyLine s' \<noteq> [] \<longleftrightarrow>
           noPubkeyLine s \<noteq> [] \<or> (\<exists>l \<in> set ls. status_word l = Some ''NO_PUBKEY'')"
    and "expiredLine s' \<noteq> [] \<longleftrightarrow>
           expiredLine s \<noteq> [] \<or> (\<exists>l \<in> set ls. status_word l = Some ''EXPKEYSIG'')"
  unfolding s'_def
proof (induction ls arbitrary: s)
  case (Cons l ls)
  { case 1 show ?case using Cons.IH(1) [of "status_step l s"] status_word_nonempty [of l]
      by (cases "status_word l") (auto simp: status_step_def) }
  { case 2 show ?case using Cons.IH(2) [of "status_step l s"] status_word_nonempty [of l]
      by (cases "status_word l") (auto simp: status_step_def) }
  { case 3 show ?case using Cons.IH(3) [of "status_step l s"] status_word_nonempty [of l]
      by (cases "status_word l") (auto simp: status_step_def) }
qed simp_all

lemma no_status_simps [simp]:
  "goodLine no_status = []" "noPubkeyLine no_status = []"
  "expiredLine no_status = []" "invalidLine no_status = []"
  by (simp_all add: no_status_def)

lemma classify_ok_iff:
  "classifyStatusLines out err = Inr () \<longleftrightarrow> says out ''GOODSIG'' \<and> \<not> says out ''NO_PUBKEY''"
  by (simp add: classifyStatusLines_def Let_def says_def fold_status)

text \<open>
  gpg's answer is taken as valid exactly when its status output has a GOODSIG line and no
  NO_PUBKEY line; every other output is an error.
\<close>

theorem classifyStatusLines_accepts_iff:
  "classifyStatusLines out err = Inr () \<longleftrightarrow> says out ''GOODSIG'' \<and> \<not> says out ''NO_PUBKEY''"
  by (rule classify_ok_iff)

text \<open>
  The reasons of the other outcomes, in their precedence: NO_PUBKEY is a wrong key whatever
  else is reported; without it and without GOODSIG, EXPKEYSIG is an expired key; anything else
  (BADSIG, ERRSIG, REVKEYSIG, EXPSIG or an unrecognised output) is invalid.
\<close>

theorem classifyStatusLines_reasons:
  "((\<exists>d. classifyStatusLines out err = Inl (SignatureError ReasonWrongKey d))
     \<longleftrightarrow> says out ''NO_PUBKEY'')
   \<and> ((\<exists>d. classifyStatusLines out err = Inl (SignatureError ReasonKeyExpired d))
     \<longleftrightarrow> \<not> says out ''NO_PUBKEY'' \<and> \<not> says out ''GOODSIG'' \<and> says out ''EXPKEYSIG'')
   \<and> ((\<exists>d. classifyStatusLines out err = Inl (SignatureError ReasonInvalid d))
     \<longleftrightarrow> \<not> says out ''NO_PUBKEY'' \<and> \<not> says out ''GOODSIG'' \<and> \<not> says out ''EXPKEYSIG'')"
  by (simp_all add: classifyStatusLines_def Let_def says_def fold_status)

subsection \<open>What a nil error of VerifySignature means\<close>

text \<open>The isolated keyring: fresh, holding only what exporting the owner's key alone gave.\<close>

definition isolated_ring :: "'r gpg \<Rightarrow> string \<Rightarrow> 'r \<Rightarrow> bool" where
  "isolated_ring g owner ring \<longleftrightarrow>
     (\<exists>ring0. fresh_keyring g = Inr ring0 \<and>
        ring = (let keyData = snd (gpg_export g owner) in
                if keyData = [] then ring0 else snd (gpg_import g ring0 keyData)))"

definition authorized ::
    "(nat \<Rightarrow> nat) \<Rightarrow> 'r gpg \<Rightarrow> (Command \<Rightarrow> (string, string) result) \<Rightarrow> int \<Rightarrow> Command \<Rightarrow> string \<Rightarrow> bool"
where
  "authorized ufold g marshal now cmd owner \<longleftrightarrow>
     fingerprintPattern owner \<and> cmd_Signature cmd \<noteq> []
   \<and> (\<exists>canon ring keys out err.
        marshal (cmd\<lparr>cmd_Signature := []\<rparr>) = Inr canon
      \<and> isolated_ring g owner ring
      \<and> snd (gpg_list_keys g ring owner) = keys
      \<and> countOwnerKeyMatches ufold keys owner = 1
      \<and> key_usable (records keys) now
      \<and> snd (gpg_verify g ring (cmd_Signature cmd) canon) = (out, err)
      \<and> says out ''GOODSIG'' \<and> \<not> says out ''NO_PUBKEY'')"

lemma assertSingle_ok:
  "assertSingleOwnerKey ufold g ring owner = Inr u \<Longrightarrow>
     countOwnerKeyMatches ufold (snd (gpg_list_keys g ring owner)) owner = 1"
  by (auto simp: assertSingleOwnerKey_def Let_def split: prod.splits if_splits)

lemma check_owner_expiry_ok:
  "check_owner_expiry g ring owner now = Inr u \<Longrightarrow>
     key_usable (records (snd (gpg_list_keys g ring owner))) now"
  by (auto simp: check_owner_expiry_def CheckKeyExpiry_def parseColonExpiry_iff [symmetric]
      isOperationalExecFailure_def
      split: prod.splits sum.splits exec_outcome.splits check_error.splits if_splits)

lemma verifyDetached_ok:
  "verifyDetachedSignature g ring canon sig = Inr u \<Longrightarrow>
     \<exists>out err. snd (gpg_verify g ring sig canon) = (out, err)
       \<and> says out ''GOODSIG'' \<and> \<not> says out ''NO_PUBKEY''"
  by (auto simp: verifyDetachedSignature_def classify_ok_iff
      split: sum.splits prod.splits if_splits)

lemma importOwnerKey_ok:
  "importOwnerKey ufold g ring0 owner = Inr ring \<Longrightarrow>
     countOwnerKeyMatches ufold (snd (gpg_list_keys g ring owner)) owner = 1
   \<and> ring = (let keyData = snd (gpg_export g owner) in
             if keyData = [] then ring0 else snd (gpg_import g ring0 keyData))"
  by (auto simp: importOwnerKey_def and_then_Inr_iff dest: assertSingle_ok
      split: prod.splits if_splits)

lemma verify_authorized:
  assumes "VerifySignature ufold g marshal now cmd owner = Inr u"
  shows "authorized ufold g marshal now cmd owner"
proof -
  from assms obtain canon ring0 ring where
    fp: "fingerprintPattern owner" "cmd_Signature cmd \<noteq> []"
    and fresh: "fresh_keyring g = Inr ring0"
    and canon: "marshal (cmd\<lparr>cmd_Signature := []\<rparr>) = Inr canon"
    and imp: "importOwnerKey ufold g ring0 owner = Inr ring"
    and expy: "check_owner_expiry g ring owner now = Inr ()"
    and ver: "verifyDetachedSignature g ring canon (cmd_Signature cmd) = Inr ()"
    by (auto simp: VerifySignature_def CanonicalCommandBytes_def and_then_Inr_iff
        split: if_splits sum.splits)
  from importOwnerKey_ok [OF imp] check_owner_expiry_ok [OF expy] verifyDetached_ok [OF ver]
  show ?thesis using fp canon fresh unfolding authorized_def isolated_ring_def by blast
qed

text \<open>
  C5. A nil error of \<open>VerifySignature\<close> means what its documentation promises: the owner id is a
  full fingerprint, the file carries a signature, exactly one key of that fingerprint is in the
  isolated keyring, that key is unexpired there, and gpg, run in that keyring on the canonical
  bytes with the signature cleared, reported GOODSIG and no NO_PUBKEY.
\<close>

theorem VerifySignature_sound:
  assumes "VerifySignature ufold g marshal now cmd owner = Inr ()"
  shows "fingerprintPattern owner \<and> cmd_Signature cmd \<noteq> []
    \<and> (\<exists>canon ring keys out err.
        marshal (cmd\<lparr>cmd_Signature := []\<rparr>) = Inr canon
      \<and> isolated_ring g owner ring
      \<and> snd (gpg_list_keys g ring owner) = keys
      \<and> countOwnerKeyMatches ufold keys owner = 1
      \<and> key_usable (records keys) now
      \<and> snd (gpg_verify g ring (cmd_Signature cmd) canon) = (out, err)
      \<and> says out ''GOODSIG'' \<and> \<not> says out ''NO_PUBKEY'')"
  using verify_authorized [OF assms] unfolding authorized_def by blast

text \<open>A keyring with one key, whose gpg accepts one signature.\<close>

definition sample_owner :: string where
  "sample_owner = replicate 40 (CHR ''A'')"

definition sample_keys :: string where
  "sample_keys = ''pub:u:255:22:AAAA:1:99:::::'' @ [NL] @ ''fpr:::::::::'' @ sample_owner @ '':''"

definition sample_gpg :: "nat gpg" where
  "sample_gpg =
     \<lparr>fresh_keyring = Inr 0, gpg_export = (\<lambda>_. (Exited True, ''key'')),
      gpg_import = (\<lambda>r _. (Exited True, Suc r)),
      gpg_list_keys = (\<lambda>r _. (Exited True, if r = 1 then sample_keys else [])),
      write_file = (\<lambda>_ _. Inr ()),
      gpg_verify = (\<lambda>r s d. (Exited True,
        if s = ''sig'' \<and> d = ''canon'' then ''[GNUPG:] GOODSIG AAAA owner'' else ''[GNUPG:] BADSIG'', []))\<rparr>"

lemma sample_verifies:
  "VerifySignature id sample_gpg (\<lambda>c. if cmd_Signature c = [] then Inr ''canon'' else Inr ''x'') 10
     (sample_command\<lparr>cmd_Signature := ''sig''\<rparr>) sample_owner = Inr ()"
  by code_simp

theorem VerifySignature_sound_witness:
  "fingerprintPattern sample_owner
   \<and> (\<exists>ring. isolated_ring sample_gpg sample_owner ring
        \<and> key_usable (records (snd (gpg_list_keys sample_gpg ring sample_owner))) 10)"
  using VerifySignature_sound [OF sample_verifies] by blast

end
