(* ===== verification/CommandLoad.thy ===== *)
theory CommandLoad
  imports Signature
begin

section \<open>Loading the command directory (internal/daemon/command.go)\<close>

text \<open>
  \<open>loadCommand\<close> (decode, verify, validate) and \<open>LoadCommands\<close> (the scan of a directory into the
  registry, with its log). The YAML decoder is a third-party library: \<open>decode\<close> gives what it
  returns for the file of a directory entry. An owner id of "" turns verification off, as in the
  code. The interface between a gate (what decides whether one file is accepted) and the scan
  over it is the locale \<open>recipe_gate\<close>, interpreted on \<open>loadCommand\<close>.
\<close>

datatype load_error =
    DecodeError string
  | VerifySignatureError SignatureReason sig_detail
  | VerifyOperationalError string
  | ValidateError validate_error

definition loadCommand ::
    "(nat \<Rightarrow> nat) \<Rightarrow> 'r gpg \<Rightarrow> (Command \<Rightarrow> (string, string) result) \<Rightarrow> int \<Rightarrow> (string \<Rightarrow> int option)
       \<Rightarrow> (string \<Rightarrow> (string, Command) result) \<Rightarrow> string \<Rightarrow> string \<Rightarrow> (load_error, Command) result" where
  "loadCommand ufold g marshal now dur decode owner path =
     (case decode path of
        Inl e \<Rightarrow> Inl (DecodeError e)
      | Inr cmd \<Rightarrow>
          and_then
            (if owner \<noteq> [] then
               (case VerifySignature ufold g marshal now cmd owner of
                  Inl (SignatureError r d) \<Rightarrow> Inl (VerifySignatureError r d)
                | Inl (OperationalError e) \<Rightarrow> Inl (VerifyOperationalError e)
                | Inr _ \<Rightarrow> Inr ())
             else Inr ())
            (\<lambda>_. case ValidateCommand dur cmd of
                   Inl e \<Rightarrow> Inl (ValidateError e)
                 | Inr cmd' \<Rightarrow> Inr cmd'))"

record dir_entry =
  de_Name :: string
  de_IsDir :: bool

datatype load_log =
    LogRejectSignature string SignatureReason
  | LogVerifyUnavailable string
  | LogSkipInvalid string
  | LogSkipDuplicate string string

definition log_of_error :: "string \<Rightarrow> load_error \<Rightarrow> load_log" where
  "log_of_error path e =
     (case e of
        VerifySignatureError r d \<Rightarrow> LogRejectSignature path r
      | VerifyOperationalError _ \<Rightarrow> LogVerifyUnavailable path
      | _ \<Rightarrow> LogSkipInvalid path)"

text \<open>
  The scan: the registry is an association list in load order (the Go map has no order), and
  an entry that is a directory, lacks the suffix, is refused or repeats a name leaves it as it is.
\<close>

fun load_loop ::
    "(string \<Rightarrow> (load_error, Command) result) \<Rightarrow> dir_entry list \<Rightarrow> (string \<times> Command) list
       \<Rightarrow> load_log list \<Rightarrow> (string \<times> Command) list \<times> load_log list" where
  "load_loop gate [] cmds log = (cmds, log)"
| "load_loop gate (e # es) cmds log =
     (if de_IsDir e \<or> \<not> HasSuffix (de_Name e) ''.yaml'' then load_loop gate es cmds log
      else case gate (de_Name e) of
             Inl err \<Rightarrow> load_loop gate es cmds (log @ [log_of_error (de_Name e) err])
           | Inr cmd \<Rightarrow>
               if map_of cmds (cmd_Name cmd) \<noteq> None
               then load_loop gate es cmds (log @ [LogSkipDuplicate (cmd_Name cmd) (de_Name e)])
               else load_loop gate es (cmds @ [(cmd_Name cmd, cmd)]) log)"

definition LoadCommands ::
    "(nat \<Rightarrow> nat) \<Rightarrow> 'r gpg \<Rightarrow> (Command \<Rightarrow> (string, string) result) \<Rightarrow> int \<Rightarrow> (string \<Rightarrow> int option)
       \<Rightarrow> (string \<Rightarrow> (string, Command) result) \<Rightarrow> string \<Rightarrow> (string, dir_entry list) result
       \<Rightarrow> (string, (string \<times> Command) list \<times> load_log list) result" where
  "LoadCommands ufold g marshal now dur decode owner dir =
     (case dir of
        Inl e \<Rightarrow> Inl e
      | Inr entries \<Rightarrow>
          Inr (load_loop (loadCommand ufold g marshal now dur decode owner) entries [] []))"

subsection \<open>The gate interface\<close>

text \<open>
  What the scan relies on: whatever the gate lets through is good. What the scan then gives:
  every registered command is good, is registered under its own name, came from an accepted
  \<open>.yaml\<close> file, and no name is registered twice.
\<close>

definition candidate :: "dir_entry \<Rightarrow> bool" where
  "candidate e \<longleftrightarrow> \<not> de_IsDir e \<and> HasSuffix (de_Name e) ''.yaml''"

lemma load_loop_skip [simp]: "\<not> candidate e \<Longrightarrow> load_loop gate (e # es) cmds log = load_loop gate es cmds log"
  by (simp add: candidate_def)

lemma load_loop_take:
  "candidate e \<Longrightarrow> load_loop gate (e # es) cmds log =
     (case gate (de_Name e) of
        Inl err \<Rightarrow> load_loop gate es cmds (log @ [log_of_error (de_Name e) err])
      | Inr cmd \<Rightarrow>
          if map_of cmds (cmd_Name cmd) \<noteq> None
          then load_loop gate es cmds (log @ [LogSkipDuplicate (cmd_Name cmd) (de_Name e)])
          else load_loop gate es (cmds @ [(cmd_Name cmd, cmd)]) log)"
  by (simp add: candidate_def)

declare load_loop.simps(2) [simp del]

locale recipe_gate =
  fixes gate :: "string \<Rightarrow> (load_error, Command) result"
    and good :: "Command \<Rightarrow> bool"
  assumes gate_good: "gate path = Inr cmd \<Longrightarrow> good cmd"
begin

definition registry_ok :: "dir_entry list \<Rightarrow> (string \<times> Command) list \<Rightarrow> bool" where
  "registry_ok es cmds \<longleftrightarrow> distinct (map fst cmds) \<and>
     (\<forall>(n, c) \<in> set cmds. n = cmd_Name c \<and> good c \<and>
        (\<exists>e \<in> set es. candidate e \<and> gate (de_Name e) = Inr c))"

lemma load_loop_registry:
  assumes "load_loop gate es cmds log = (cmds', log')" "registry_ok ds cmds" "set es \<subseteq> set ds"
  shows "registry_ok ds cmds'"
  using assms
proof (induction es arbitrary: cmds log)
  case Nil
  then show ?case by simp
next
  case (Cons e es)
  show ?case
  proof (cases "candidate e \<and> (\<exists>c. gate (de_Name e) = Inr c \<and> map_of cmds (cmd_Name c) = None)")
    case True
    then obtain c where c: "candidate e" "gate (de_Name e) = Inr c" "map_of cmds (cmd_Name c) = None"
      by blast
    then have "registry_ok ds (cmds @ [(cmd_Name c, c)])"
      using Cons.prems gate_good [OF c(2)] by (auto simp: registry_ok_def map_of_eq_None_iff)
    with Cons c show ?thesis by (simp add: load_loop_take)
  next
    case False
    then obtain log'' where "load_loop gate (e # es) cmds log = load_loop gate es cmds log''"
      by (cases "candidate e"; cases "gate (de_Name e)") (auto simp: load_loop_take)
    with Cons show ?thesis by simp
  qed
qed

lemma loaded_good:
  assumes "load_loop gate es [] [] = (cmds, log)" "map_of cmds n = Some c"
  shows "n = cmd_Name c \<and> good c \<and> (\<exists>e \<in> set es. candidate e \<and> gate (de_Name e) = Inr c)"
proof -
  have "registry_ok es cmds"
    using load_loop_registry [OF assms(1), of es] by (simp add: registry_ok_def)
  with map_of_SomeD [OF assms(2)] show ?thesis by (auto simp: registry_ok_def)
qed

text \<open>Nothing acceptable is lost: an accepted candidate's name is registered.\<close>

lemma load_loop_keeps:
  "load_loop gate es cmds log = (cmds', log') \<Longrightarrow> map_of cmds n \<noteq> None \<Longrightarrow> map_of cmds' n = map_of cmds n"
proof (induction es arbitrary: cmds log)
  case Nil
  then show ?case by simp
next
  case (Cons e es)
  show ?case
  proof (cases "candidate e")
    case True
    with Cons show ?thesis
      by (fastforce simp: load_loop_take map_add_def split: sum.splits if_splits option.splits)
  next
    case False
    with Cons show ?thesis by simp
  qed
qed

lemma load_loop_complete:
  assumes "load_loop gate es cmds log = (cmds', log')" "e \<in> set es" "candidate e"
    "gate (de_Name e) = Inr c"
  shows "map_of cmds' (cmd_Name c) \<noteq> None"
  using assms
proof (induction es arbitrary: cmds log)
  case Nil
  then show ?case by simp
next
  case (Cons a es)
  show ?case
  proof (cases "a = e")
    case True
    with Cons.prems show ?thesis
      using load_loop_keeps [of es "cmds @ [(cmd_Name c, c)]" log cmds' log' "cmd_Name c"]
      by (cases "map_of cmds (cmd_Name c)")
        (auto simp: load_loop_take dest: load_loop_keeps [where n = "cmd_Name c"])
  next
    case False
    then have "e \<in> set es" using Cons.prems by simp
    moreover obtain cmds'' log'' where "load_loop gate es cmds'' log'' = (cmds', log')"
      using Cons.prems(1)
      by (cases "candidate a") (auto simp: load_loop_take split: sum.splits if_splits)
    ultimately show ?thesis using Cons.IH Cons.prems(3,4) by blast
  qed
qed

end

text \<open>The code's gate: a loaded command is valid and, when an owner is set, authorized by it.\<close>

definition load_good ::
    "(nat \<Rightarrow> nat) \<Rightarrow> 'r gpg \<Rightarrow> (Command \<Rightarrow> (string, string) result) \<Rightarrow> int \<Rightarrow> (string \<Rightarrow> int option)
       \<Rightarrow> string \<Rightarrow> Command \<Rightarrow> bool" where
  "load_good ufold g marshal now dur owner cmd \<longleftrightarrow>
     command_ok dur cmd \<and>
     (owner \<noteq> [] \<longrightarrow> (\<exists>raw. cmd = default_runner_mode raw \<and> authorized ufold g marshal now raw owner))"

lemma loadCommand_good:
  "loadCommand ufold g marshal now dur decode owner path = Inr cmd \<Longrightarrow>
     load_good ufold g marshal now dur owner cmd"
  by (auto simp: loadCommand_def load_good_def and_then_Inr_iff validate_command_ok_iff
      intro: verify_authorized
      split: sum.splits if_splits verify_error.splits)

interpretation daemon_gate: recipe_gate
  "loadCommand ufold g marshal now dur decode owner" "load_good ufold g marshal now dur owner"
  for ufold g marshal now dur decode owner
  by unfold_locales (rule loadCommand_good)

text \<open>
  C3. Every command in the registry that \<open>LoadCommands\<close> builds satisfies the whole schema and is
  registered under its own name; when an owner id is configured, the file's recipe (before
  the defaults) was authorized by that owner's key in the sense of \<open>VerifySignature\<close>.
\<close>

theorem LoadCommands_only_authorized:
  assumes "LoadCommands ufold g marshal now dur decode owner dir = Inr (cmds, log)"
    and "map_of cmds n = Some cmd"
  shows "n = cmd_Name cmd \<and> command_ok dur cmd
    \<and> (owner \<noteq> [] \<longrightarrow> (\<exists>raw. cmd = default_runner_mode raw \<and> authorized ufold g marshal now raw owner))"
proof -
  from assms(1) obtain es where
    "load_loop (loadCommand ufold g marshal now dur decode owner) es [] [] = (cmds, log)"
    by (auto simp: LoadCommands_def split: sum.splits)
  from daemon_gate.loaded_good [OF this assms(2)]
  show ?thesis by (simp add: load_good_def)
qed

lemma sample_load:
  "LoadCommands id sample_gpg (\<lambda>c. if cmd_Signature c = [] then Inr ''canon'' else Inr ''x'') 10
     (\<lambda>_. None) (\<lambda>p. if p = ''a.yaml'' then Inr (sample_command\<lparr>cmd_Signature := ''sig''\<rparr>) else Inl ''bad'')
     sample_owner (Inr [\<lparr>de_Name = ''a.yaml'', de_IsDir = False\<rparr>, \<lparr>de_Name = ''b.yaml'', de_IsDir = False\<rparr>])
   = Inr ([(''lookup'', default_runner_mode (sample_command\<lparr>cmd_Signature := ''sig''\<rparr>))],
          [LogSkipInvalid ''b.yaml''])"
  by code_simp

theorem LoadCommands_only_authorized_witness:
  "command_ok (\<lambda>_. None) (default_runner_mode (sample_command\<lparr>cmd_Signature := ''sig''\<rparr>))"
  using LoadCommands_only_authorized [OF sample_load, of "''lookup''"] by simp

end
