(* ===== verification/Contract.thy ===== *)
theory Contract
  imports Payload
begin

section \<open>Mission contracts and mission ids (internal/daemon/mission.go, pipeline.go, spawner.go)\<close>

text \<open>
  The contract a mission is created from: \<open>escapeYAMLValue\<close> and \<open>escapeYAMLPipe\<close> quote text,
  \<open>BuildContract\<close> and \<open>buildStageContract\<close> fill the YAML templates, \<open>createMissionFromContract\<close>
  writes the file, runs \<open>ethos\<close> (a parameter) and reads the mission id back. The temp directory is
  a map from paths to contents; what the file system answers is a record of outcomes.

  The properties: a reader of the quoted scalar gets back exactly the stripped, capped text; the
  lines of a contract other than the three trigger lines do not depend on the email; an id the
  parser returns is a valid mission id, and no temp file survives the call.
\<close>

subsection \<open>Quoting\<close>

record EmailMeta =
  em_MessageID :: string
  em_From :: string
  em_Subject :: string

definition yaml_quote :: "string \<Rightarrow> string" where
  "yaml_quote s =
     (let e1 = replace_char BACKSLASH [BACKSLASH, BACKSLASH] s;
          e2 = replace_char QUOTE [BACKSLASH, QUOTE] e1;
          e3 = replace_char NL [BACKSLASH, CHR ''n''] e2;
          e4 = replace_char CR [BACKSLASH, CHR ''r''] e3;
          e5 = replace_char TAB [BACKSLASH, CHR ''t''] e4
      in [QUOTE] @ e5 @ [QUOTE])"

definition escapeYAMLValue :: "string \<Rightarrow> string" where
  "escapeYAMLValue s0 =
     (let s = strip_nul s0;
          s = (if RuneCount s > maxContractFieldRunes
               then of_runes (take maxContractFieldRunes (runes s)) else s)
      in yaml_quote s)"

definition escapeYAMLPipe :: "string \<Rightarrow> string" where
  "escapeYAMLPipe s = yaml_quote (strip_nul s)"

text \<open>The reader of a double-quoted scalar: its text and what follows the closing quote.\<close>

fun unescape :: "char \<Rightarrow> char option" where
  "unescape c =
     (if c = BACKSLASH then Some BACKSLASH else if c = QUOTE then Some QUOTE
      else if c = CHR ''n'' then Some NL else if c = CHR ''r'' then Some CR
      else if c = CHR ''t'' then Some TAB else None)"

fun read_dq_body :: "string \<Rightarrow> (string \<times> string) option" where
  "read_dq_body [] = None"
| "read_dq_body [c] = (if c = QUOTE then Some ([], []) else None)"
| "read_dq_body (c # d # cs) =
     (if c = QUOTE then Some ([], d # cs)
      else if c = BACKSLASH then
        (case unescape d of None \<Rightarrow> None
         | Some x \<Rightarrow> map_option (\<lambda>(v, r). (x # v, r)) (read_dq_body cs))
      else if c = NL \<or> c = CR then None
      else map_option (\<lambda>(v, r). (c # v, r)) (read_dq_body (d # cs)))"

definition read_dq :: "string \<Rightarrow> (string \<times> string) option" where
  "read_dq s = (case s of [] \<Rightarrow> None | c # cs \<Rightarrow> if c = QUOTE then read_dq_body cs else None)"

definition yaml_esc :: "char \<Rightarrow> string" where
  "yaml_esc c =
     (if c = BACKSLASH then [BACKSLASH, BACKSLASH] else if c = QUOTE then [BACKSLASH, QUOTE]
      else if c = NL then [BACKSLASH, CHR ''n''] else if c = CR then [BACKSLASH, CHR ''r'']
      else if c = TAB then [BACKSLASH, CHR ''t''] else [c])"

lemma yaml_quote_esc: "yaml_quote s = [QUOTE] @ concat (map yaml_esc s) @ [QUOTE]"
  unfolding yaml_quote_def Let_def
  by (induction s) (simp_all add: yaml_esc_def)

lemma read_dq_body_end: "read_dq_body (QUOTE # r) = Some ([], r)"
  by (cases r) simp_all

lemma read_dq_body_esc:
  "read_dq_body (yaml_esc c @ QUOTE # r) = Some ([c], r) \<and>
   (xs \<noteq> [] \<longrightarrow> read_dq_body (yaml_esc c @ xs) = map_option (\<lambda>(v, r). (c # v, r)) (read_dq_body xs))"
  by (cases xs) (auto simp: yaml_esc_def read_dq_body_end)

lemma read_dq_quote: "read_dq (yaml_quote s @ r) = Some (s, r)"
proof -
  have "read_dq_body (concat (map yaml_esc s) @ QUOTE # r) = Some (s, r)"
  proof (induction s)
    case Nil
    show ?case by (simp add: read_dq_body_end)
  next
    case (Cons c s)
    have "concat (map yaml_esc s) @ QUOTE # r \<noteq> []" by simp
    then show ?case using read_dq_body_esc Cons by (simp del: read_dq_body.simps)
  qed
  then show ?thesis by (simp add: read_dq_def yaml_quote_esc)
qed

lemma yaml_quote_NL [simp]: "NL \<notin> set (yaml_quote s)"
  by (auto simp: yaml_quote_esc yaml_esc_def split: if_splits)

lemma escapeYAMLValue_NL [simp]: "NL \<notin> set (escapeYAMLValue s)" "NL \<notin> set (escapeYAMLPipe s)"
  by (simp_all add: escapeYAMLValue_def escapeYAMLPipe_def Let_def)

lemma read_dq_escape:
  "read_dq (escapeYAMLValue s @ r) = Some (fst (capRunes (strip_nul s) maxContractFieldRunes), r)"
  by (simp add: escapeYAMLValue_def Let_def capRunes_def read_dq_quote)

text \<open>
  Quoting cannot be escaped: a reader of the scalar, whatever follows it, gets back exactly
  the text without NUL bytes capped at 500 runes, and stops at the closing quote.
\<close>

theorem escapeYAMLValue_read:
  "read_dq (escapeYAMLValue s @ r) = Some (fst (capRunes (strip_nul s) maxContractFieldRunes), r)
   \<and> read_dq (escapeYAMLPipe s @ r) = Some (strip_nul s, r)"
  by (simp add: read_dq_escape escapeYAMLPipe_def read_dq_quote)

subsection \<open>Contracts\<close>

definition BuildContract :: "EmailMeta \<Rightarrow> string" where
  "BuildContract m =
     Join [''leader: claude'',
       ''worker: bwk'',
       ''evaluator:'',
       ''  handle: mdm'',
       ''inputs:'',
       ''  trigger:'',
       ''    type: email'',
       ''    message_id: '' @ escapeYAMLValue (em_MessageID m),
       ''    from: '' @ escapeYAMLValue (em_From m),
       ''    subject: '' @ escapeYAMLValue (em_Subject m),
       ''  files: []'',
       ''write_set:'',
       ''  - daemon output'',
       ''success_criteria:'',
       ''  - \"Complete the task described in the triggering email (see inputs.trigger).\"'',
       ''budget:'',
       ''  rounds: 1'',
       ''  reflection_after_each: false'',
       []] [NL]"

definition stageContextReference :: "string \<Rightarrow> int \<Rightarrow> string" where
  "stageContextReference pipelineID stageIdx =
     ''stage input delivered via the per-spawn system prompt (pipeline '' @ pipelineID @ '', ''
     @ (if stageIdx < 0 then ''failure reply'' else ''stage '' @ Itoa stageIdx)
     @ ''); the triggering email's body, this stage's args, and the ''
     @ ''prior stage's output are not stored here -- see this worker's own ''
     @ ''appended system prompt (STAGE INPUT, after SECURITY) for the content''"

definition writeSetYAML :: "string list \<Rightarrow> string" where
  "writeSetYAML ws =
     (case ws of [] \<Rightarrow> ''daemon output''
      | w # ws' \<Rightarrow> foldl (\<lambda>s x. s @ [NL] @ ''  - '' @ x) w ws')"

definition show_bool :: "bool \<Rightarrow> string" where
  "show_bool b = (if b then ''true'' else ''false'')"

definition buildStageContract :: "EmailMeta \<Rightarrow> Command \<Rightarrow> string \<Rightarrow> int \<Rightarrow> string" where
  "buildStageContract m cmd pipelineID stageIdx =
     Join [''leader: claude'',
       ''worker: bwk'',
       ''evaluator:'',
       ''  handle: mdm'',
       ''inputs:'',
       ''  trigger:'',
       ''    type: email'',
       ''    message_id: '' @ escapeYAMLValue (em_MessageID m),
       ''    from: '' @ escapeYAMLValue (em_From m),
       ''    subject: '' @ escapeYAMLValue (em_Subject m),
       ''context: '' @ escapeYAMLValue (stageContextReference pipelineID stageIdx),
       ''write_set:'',
       ''  - '' @ writeSetYAML (cmd_WriteSet cmd),
       ''success_criteria:'',
       ''  - '' @ escapeYAMLPipe (cmd_Prompt cmd),
       ''budget:'',
       ''  rounds: '' @ Itoa (cmd_Rounds cmd),
       ''  reflection_after_each: '' @ show_bool (cmd_ReflectionAfterEach cmd),
       []] [NL]"

text \<open>What a line-wise reader of a contract sees of the email: the value behind a key.\<close>

definition line_value :: "string \<Rightarrow> string \<Rightarrow> string option" where
  "line_value key l =
     (case CutPrefix l key of None \<Rightarrow> None
      | Some v \<Rightarrow> (case read_dq v of Some (x, []) \<Rightarrow> Some x | _ \<Rightarrow> None))"

definition field_text_of :: "string \<Rightarrow> string" where
  "field_text_of s = fst (capRunes (strip_nul s) maxContractFieldRunes)"

lemma CutPrefix_append [simp]: "CutPrefix (p @ r) p = Some r"
  by (simp add: CutPrefix_Some_iff)

lemma line_value_escape: "line_value key (key @ escapeYAMLValue s) = Some (field_text_of s)"
  using read_dq_escape [of s "[]"] by (simp add: line_value_def field_text_of_def)

text \<open>The lines of both contracts: seven fixed ones, the trigger, and the rest.\<close>

definition contract_head :: "string list" where
  "contract_head = [''leader: claude'', ''worker: bwk'', ''evaluator:'', ''  handle: mdm'', ''inputs:'',
     ''  trigger:'', ''    type: email'']"

definition trigger_keys :: "string list" where
  "trigger_keys = [''    message_id: '', ''    from: '', ''    subject: '']"

definition trigger_fields :: "EmailMeta \<Rightarrow> string list" where
  "trigger_fields m = [em_MessageID m, em_From m, em_Subject m]"

definition trigger_lines :: "EmailMeta \<Rightarrow> string list" where
  "trigger_lines m = map2 (\<lambda>k v. k @ escapeYAMLValue v) trigger_keys (trigger_fields m)"

lemma Split_contract:
  assumes "rest \<noteq> []"
  shows "Split (Join (contract_head @ trigger_lines m @ rest) [NL]) NL =
    contract_head @ trigger_lines m @ concat (map (\<lambda>p. Split p NL) rest)"
proof -
  have "concat (map (\<lambda>p. Split p NL) (contract_head @ trigger_lines m)) = contract_head @ trigger_lines m"
    by (simp add: contract_head_def trigger_lines_def trigger_keys_def trigger_fields_def Split_single)
  then show ?thesis
    using Split_Join_lines [of "contract_head @ trigger_lines m @ rest" NL] assms by simp
qed

lemma read_trigger:
  "length ks = length vs \<Longrightarrow>
     map2 line_value ks (map2 (\<lambda>k v. k @ escapeYAMLValue v) ks vs) = map (Some \<circ> field_text_of) vs"
  by (induction ks vs rule: list_induct2) (simp_all add: line_value_escape)

lemma trigger_lines_length [simp]: "length (trigger_lines m) = 3" "length contract_head = 7"
  by (simp_all add: trigger_lines_def trigger_keys_def trigger_fields_def contract_head_def)

lemma trigger_read:
  "map2 line_value trigger_keys (trigger_lines m) = map (Some \<circ> field_text_of) (trigger_fields m)"
  unfolding trigger_lines_def
  by (rule read_trigger) (simp add: trigger_keys_def trigger_fields_def)

lemma trigger_values:
  assumes "ls = contract_head @ trigger_lines m @ rest"
  shows "take 7 ls = contract_head" "drop 10 ls = rest"
    "map2 line_value trigger_keys (take 3 (drop 7 ls)) = map (Some \<circ> field_text_of) (trigger_fields m)"
  unfolding assms by (simp_all add: trigger_read)

definition contract_rest :: "string list" where
  "contract_rest = [''  files: []'', ''write_set:'', ''  - daemon output'', ''success_criteria:'',
     ''  - \"Complete the task described in the triggering email (see inputs.trigger).\"'',
     ''budget:'', ''  rounds: 1'', ''  reflection_after_each: false'', []]"

definition stage_rest :: "Command \<Rightarrow> string \<Rightarrow> int \<Rightarrow> string list" where
  "stage_rest cmd pipelineID stageIdx =
     [''context: '' @ escapeYAMLValue (stageContextReference pipelineID stageIdx),
      ''write_set:'', ''  - '' @ writeSetYAML (cmd_WriteSet cmd), ''success_criteria:'',
      ''  - '' @ escapeYAMLPipe (cmd_Prompt cmd), ''budget:'', ''  rounds: '' @ Itoa (cmd_Rounds cmd),
      ''  reflection_after_each: '' @ show_bool (cmd_ReflectionAfterEach cmd), []]"

lemmas list_layout = append_Cons append_Nil zip_Cons_Cons zip_Nil list.map prod.case

lemma BuildContract_lines: "BuildContract m = Join (contract_head @ trigger_lines m @ contract_rest) [NL]"
  by (simp only: BuildContract_def contract_head_def trigger_lines_def trigger_keys_def
      trigger_fields_def contract_rest_def list_layout)

lemma buildStageContract_lines:
  "buildStageContract m cmd pid i = Join (contract_head @ trigger_lines m @ stage_rest cmd pid i) [NL]"
  by (simp only: buildStageContract_def contract_head_def trigger_lines_def trigger_keys_def
      trigger_fields_def stage_rest_def list_layout)

lemma rest_nonempty: "contract_rest \<noteq> []" "stage_rest cmd pid i \<noteq> []"
  by (simp_all add: contract_rest_def stage_rest_def)

text \<open>
  C23. The email cannot reach past its three values: in both contracts, whatever the message id,
  the sender and the subject hold, the lines at the trigger's place read back to the three capped
  values, and every other line is the same for every email.
\<close>

theorem contract_email_confined:
  "map2 line_value trigger_keys
     (take 3 (drop 7 (Split (buildStageContract m cmd pid i) NL))) =
     map (Some \<circ> field_text_of) [em_MessageID m, em_From m, em_Subject m]
   \<and> take 7 (Split (buildStageContract m cmd pid i) NL) = take 7 (Split (buildStageContract m' cmd pid i) NL)
   \<and> drop 10 (Split (buildStageContract m cmd pid i) NL) = drop 10 (Split (buildStageContract m' cmd pid i) NL)
   \<and> map2 line_value trigger_keys
     (take 3 (drop 7 (Split (BuildContract m) NL))) =
     map (Some \<circ> field_text_of) [em_MessageID m, em_From m, em_Subject m]
   \<and> take 7 (Split (BuildContract m) NL) = take 7 (Split (BuildContract m') NL)
   \<and> drop 10 (Split (BuildContract m) NL) = drop 10 (Split (BuildContract m') NL)"
proof -
  note t = trigger_values [OF refl]
  show ?thesis
    unfolding BuildContract_lines buildStageContract_lines Split_contract [OF rest_nonempty(1)]
      Split_contract [OF rest_nonempty(2)] t trigger_fields_def by blast
qed

subsection \<open>Mission ids\<close>

definition lower_alnum :: "char \<Rightarrow> bool" where
  "lower_alnum c \<longleftrightarrow> (97 \<le> byte c \<and> byte c \<le> 122) \<or> is_digit c"

text \<open>The pattern \<open>^m-[a-z0-9][a-z0-9-]{0,61}$\<close>.\<close>

definition ValidMissionID :: "string \<Rightarrow> bool" where
  "ValidMissionID mid =
     (case CutPrefix mid ''m-'' of
        Some (c # cs) \<Rightarrow> lower_alnum c \<and> length cs \<le> 61 \<and> list_all (\<lambda>x. lower_alnum x \<or> x = CHR ''-'') cs
      | _ \<Rightarrow> False)"

datatype mission_error =
    MkdirFailed | CreateTempFailed | WriteFailed | CloseFailed | AbsFailed
  | EthosFailed string | NoMissionID string | InvalidMissionID string

text \<open>The first loop: the first \<open>created:\<close> line decides, even without an id.\<close>

fun created_id :: "string list \<Rightarrow> string" where
  "created_id [] = []"
| "created_id (l # ls) =
     (let line = TrimSpace l in
      if HasPrefix line ''created: ''
      then (let parts = Fields line in if length parts \<ge> 2 then parts ! 1 else [])
      else created_id ls)"

definition bare_id :: "string list \<Rightarrow> string" where
  "bare_id ls =
     foldl (\<lambda>acc l. let line = TrimSpace l in
        if line \<noteq> [] \<and> \<not> HasPrefix line ''ethos:'' then line else acc) [] ls"

definition parseMissionID :: "string \<Rightarrow> (mission_error, string) result" where
  "parseMissionID output =
     (let ls = Split output NL; first = created_id ls;
          mid = (if first = [] then bare_id ls else first)
      in if mid = [] then Inl (NoMissionID (TrimSpace output))
         else if \<not> ValidMissionID mid then Inl (InvalidMissionID mid)
         else Inr mid)"

subsection \<open>Creating a mission\<close>

text \<open>What the file system answers for one temp file, and the path \<open>os.CreateTemp\<close> picks.\<close>

record temp_ops =
  to_mkdir :: bool
  to_create :: "string option"
  to_write :: bool
  to_close :: bool
  to_abs :: "string option"
  to_remove :: bool

type_synonym files = "string \<rightharpoonup> string"

text \<open>The deferred \<open>os.Remove\<close>: a failure is ignored.\<close>

definition drop_temp :: "temp_ops \<Rightarrow> string \<Rightarrow> files \<Rightarrow> files" where
  "drop_temp ops path fs = (if to_remove ops then fs(path := None) else fs)"

definition createMissionFromContract ::
    "temp_ops \<Rightarrow> (string option \<Rightarrow> (string, string) result) \<Rightarrow> string \<Rightarrow> files
      \<Rightarrow> (mission_error, string) result \<times> files" where
  "createMissionFromContract ops ethos contract fs =
     (if \<not> to_mkdir ops then (Inl MkdirFailed, fs)
      else (case to_create ops of
        None \<Rightarrow> (Inl CreateTempFailed, fs)
      | Some path \<Rightarrow>
          if \<not> to_write ops then (Inl WriteFailed, drop_temp ops path (fs(path \<mapsto> [])))
          else let fs1 = fs(path \<mapsto> contract) in
            if \<not> to_close ops then (Inl CloseFailed, drop_temp ops path fs1)
            else
              (case to_abs ops of
                 None \<Rightarrow> (Inl AbsFailed, drop_temp ops path fs1)
               | Some absPath \<Rightarrow>
                   (case ethos (fs1 absPath) of
                      Inl out \<Rightarrow> (Inl (EthosFailed (TrimSpace out)), drop_temp ops path fs1)
                    | Inr out \<Rightarrow> (parseMissionID out, drop_temp ops path fs1)))))"

definition Create ::
    "temp_ops \<Rightarrow> (string option \<Rightarrow> (string, string) result) \<Rightarrow> EmailMeta \<Rightarrow> files
      \<Rightarrow> (mission_error, string) result \<times> files" where
  "Create ops ethos m fs = createMissionFromContract ops ethos (BuildContract m) fs"

lemma parseMissionID_valid: "parseMissionID out = Inr mid \<Longrightarrow> ValidMissionID mid"
  by (auto simp: parseMissionID_def Let_def split: if_splits)

lemma create_mission_spec:
  assumes "createMissionFromContract ops ethos contract fs = (r, fs')"
    and "\<forall>path. to_create ops = Some path \<longrightarrow> fs path = None" "to_remove ops"
  shows "fs' = fs \<and> (\<forall>mid. r = Inr mid \<longrightarrow> ValidMissionID mid \<and>
     (\<exists>path. to_create ops = Some path \<and> (to_abs ops = Some path \<longrightarrow>
        (\<exists>out. ethos (Some contract) = Inr out \<and> parseMissionID out = Inr mid))))"
proof -
  have "fs(path := None) = fs" if "to_create ops = Some path" for path
    using that assms(2) by (simp add: fun_upd_idem)
  with assms(1,3) show ?thesis
    by (auto simp: createMissionFromContract_def drop_temp_def Let_def fun_upd_idem
        dest: parseMissionID_valid split: if_splits option.splits sum.splits)
qed

text \<open>
  A created mission has a valid id, \<open>ethos\<close> was run on the contract itself, and when the
  temp path was fresh and removable nothing is left on disk, whatever failed.
\<close>

theorem createMission_spec:
  assumes "createMissionFromContract ops ethos contract fs = (r, fs')"
    and "\<forall>path. to_create ops = Some path \<longrightarrow> fs path = None" "to_remove ops"
  shows "fs' = fs \<and> (\<forall>mid. r = Inr mid \<longrightarrow> ValidMissionID mid \<and>
     (\<exists>path. to_create ops = Some path \<and> (to_abs ops = Some path \<longrightarrow>
        (\<exists>out. ethos (Some contract) = Inr out \<and> parseMissionID out = Inr mid))))"
  using assms by (rule create_mission_spec)

definition sample_ops :: temp_ops where
  "sample_ops = \<lparr>to_mkdir = True, to_create = Some ''mission-1.yaml'', to_write = True, to_close = True,
     to_abs = Some ''mission-1.yaml'', to_remove = True\<rparr>"

lemma sample_create:
  "createMissionFromContract sample_ops (\<lambda>_. Inr (''created: m-2025-01'' @ [NL])) ''c'' Map.empty =
     (Inr ''m-2025-01'', Map.empty)"
proof -
  have "parseMissionID (''created: m-2025-01'' @ [NL]) = Inr ''m-2025-01''" by code_simp
  then show ?thesis by (simp add: createMissionFromContract_def sample_ops_def drop_temp_def)
qed

theorem createMission_spec_witness: "ValidMissionID ''m-2025-01''"
  using createMission_spec [OF sample_create] by (simp add: sample_ops_def)

end
