(* ===== verification/Runner.thy ===== *)
theory Runner
  imports Worker "HOL-Library.Multiset" "HOL-Library.List_Lexorder"
begin

section \<open>Running one stage (internal/daemon/runner.go)\<close>

text \<open>
  The two runners of a pipeline stage. \<open>CLIRunner\<close>: the binary whitelist, the argument vector, the
  environment, the capped capture of output, single binaries and compound commands.
  \<open>ClaudeRunner\<close>: the stage payload, and the order of its steps, with the temp files as a map and
  the outside calls as a trace. The processes, the PATH, the environment and the file system's
  answers are parameters. Log lines are left out.

  The properties: a resolved binary lies in a whitelisted directory; the argument vector does not
  depend on how the unstable sort breaks ties; both capture routines keep exactly the first
  megabyte and report truncation exactly when more was offered; a Claude stage leaves no temp file
  behind and reaches the spawner only after every earlier check has passed.
\<close>

subsection \<open>Environment\<close>

type_synonym env = "string \<rightharpoonup> string"

definition Getenv :: "env \<Rightarrow> string \<Rightarrow> string" where
  "Getenv e k = (case e k of None \<Rightarrow> [] | Some v \<Rightarrow> v)"

fun resolveEnvVars :: "env \<Rightarrow> string list \<Rightarrow> env \<times> string list" where
  "resolveEnvVars e [] = (Map.empty, [])"
| "resolveEnvVars e (n # ns) =
     (let (m, missing) = resolveEnvVars e ns in
      case e n of Some v \<Rightarrow> (m(n \<mapsto> v), missing) | None \<Rightarrow> (m, n # missing))"

fun declared_env :: "env \<Rightarrow> string list \<Rightarrow> string list \<times> string list" where
  "declared_env e [] = ([], [])"
| "declared_env e (n # ns) =
     (let (kept, missing) = declared_env e ns in
      case e n of Some v \<Rightarrow> ((n @ ''='' @ v) # kept, missing) | None \<Rightarrow> (kept, n # missing))"

definition minimalEnv :: "env \<Rightarrow> string list \<Rightarrow> string list \<Rightarrow> string list \<times> string list" where
  "minimalEnv e dirs declaredVars =
     (let (kept, missing) = declared_env e declaredVars in
      ([''PATH='' @ Join dirs '':'', ''HOME='' @ Getenv e ''HOME'', ''USER='' @ Getenv e ''USER''] @ kept,
       missing))"

datatype run_error =
    MissingEnv string "string list"
  | NotInWhitelist string
  | SymlinkFailed string
  | OutsideWhitelist string string
  | StdoutPipeFailed
  | StartFailed string
  | CliFailed string
  | ReadStdoutFailed string
  | StepError nat run_error
  | StepStart nat string
  | StepFailed nat string
  | BuildMcpFailed mcp_error
  | MissionFailed mission_error
  | PromptFailed prompt_error
  | SpawnFailed worker_error
  | WorkerFailed int string

definition envForCommand :: "env \<Rightarrow> Command \<Rightarrow> string list \<Rightarrow> (run_error, string list) result" where
  "envForCommand e cmd dirs =
     (let (env, missing) = minimalEnv e dirs (cmd_EnvVars cmd) in
      if missing \<noteq> [] then Inl (MissingEnv (cmd_Name cmd) missing) else Inr env)"

lemma resolveEnvVars_spec:
  "fst (resolveEnvVars e ns) = e |` set ns" "snd (resolveEnvVars e ns) = filter (\<lambda>n. e n = None) ns"
  by (induction ns) (auto simp: Let_def restrict_map_def fun_eq_iff split: prod.splits option.splits)

lemma declared_env_missing: "snd (declared_env e ns) = filter (\<lambda>n. e n = None) ns"
  by (induction ns) (auto simp: Let_def split: prod.splits option.splits)

subsection \<open>The binary whitelist\<close>

record file_info =
  fi_IsDir :: bool
  fi_Executable :: bool

fun Resolve_from ::
    "(string \<Rightarrow> file_info option) \<Rightarrow> (string \<Rightarrow> string option) \<Rightarrow> string list \<Rightarrow> string \<Rightarrow> string list
      \<Rightarrow> (run_error, string) result" where
  "Resolve_from stat evalSymlinks allDirs name [] = Inl (NotInWhitelist name)"
| "Resolve_from stat evalSymlinks allDirs name (dir # dirs) =
     (let candidate = JoinPath [dir, name];
          next_dir = Resolve_from stat evalSymlinks allDirs name dirs
      in case stat candidate of
           None \<Rightarrow> next_dir
         | Some info \<Rightarrow>
             if fi_IsDir info then next_dir
             else if \<not> fi_Executable info then next_dir
             else (case evalSymlinks candidate of
                     None \<Rightarrow> Inl (SymlinkFailed candidate)
                   | Some resolved \<Rightarrow>
                       if Dir resolved \<notin> set allDirs then Inl (OutsideWhitelist name resolved)
                       else Inr resolved))"

definition Resolve_binary ::
    "(string \<Rightarrow> file_info option) \<Rightarrow> (string \<Rightarrow> string option) \<Rightarrow> string list \<Rightarrow> string
      \<Rightarrow> (run_error, string) result" where
  "Resolve_binary stat evalSymlinks dirs name = Resolve_from stat evalSymlinks dirs name dirs"

definition runnable :: "(string \<Rightarrow> file_info option) \<Rightarrow> string \<Rightarrow> bool" where
  "runnable stat p \<longleftrightarrow> (\<exists>i. stat p = Some i \<and> \<not> fi_IsDir i \<and> fi_Executable i)"

lemma Resolve_from_Inr:
  "Resolve_from stat ev allDirs name dirs = Inr p \<longleftrightarrow>
     (\<exists>ds d rest. dirs = ds @ d # rest \<and> (\<forall>x \<in> set ds. \<not> runnable stat (JoinPath [x, name]))
        \<and> runnable stat (JoinPath [d, name]) \<and> ev (JoinPath [d, name]) = Some p \<and> Dir p \<in> set allDirs)"
proof (induction dirs)
  case Nil
  show ?case by simp
next
  case (Cons d dirs)
  show ?case
  proof (cases "runnable stat (JoinPath [d, name])")
    case True
    then obtain i where i: "stat (JoinPath [d, name]) = Some i" "\<not> fi_IsDir i" "fi_Executable i"
      unfolding runnable_def by blast
    have "ds = []" if "d # dirs = ds @ d' # rest" "\<forall>x \<in> set ds. \<not> runnable stat (JoinPath [x, name])" for ds d' rest
      using that True by (cases ds) auto
    with True i show ?thesis by (fastforce simp: Let_def split: option.splits if_splits)
  next
    case False
    then have "Resolve_from stat ev allDirs name (d # dirs) = Resolve_from stat ev allDirs name dirs"
      by (auto simp: runnable_def Let_def split: option.splits)
    moreover have "(\<exists>ds d' rest. d # dirs = ds @ d' # rest \<and> (\<forall>x \<in> set ds. \<not> runnable stat (JoinPath [x, name]))
        \<and> runnable stat (JoinPath [d', name]) \<and> ev (JoinPath [d', name]) = Some p \<and> Dir p \<in> set allDirs) \<longleftrightarrow>
      (\<exists>ds d' rest. dirs = ds @ d' # rest \<and> (\<forall>x \<in> set ds. \<not> runnable stat (JoinPath [x, name]))
        \<and> runnable stat (JoinPath [d', name]) \<and> ev (JoinPath [d', name]) = Some p \<and> Dir p \<in> set allDirs)"
      (is "?L \<longleftrightarrow> ?R")
    proof
      assume ?L
      then obtain ds d' rest where *: "d # dirs = ds @ d' # rest"
        "\<forall>x \<in> set ds. \<not> runnable stat (JoinPath [x, name])"
        "runnable stat (JoinPath [d', name])" "ev (JoinPath [d', name]) = Some p" "Dir p \<in> set allDirs"
        by blast
      with False obtain ds' where "ds = d # ds'" by (cases ds) auto
      with * show ?R by auto
    next
      assume ?R
      then obtain ds d' rest where "dirs = ds @ d' # rest"
        "\<forall>x \<in> set ds. \<not> runnable stat (JoinPath [x, name])"
        "runnable stat (JoinPath [d', name])" "ev (JoinPath [d', name]) = Some p" "Dir p \<in> set allDirs"
        by blast
      with False show ?L by (intro exI [of _ "d # ds"]) auto
    qed
    ultimately show ?thesis using Cons.IH by simp
  qed
qed

text \<open>
  The whitelist resolves a name exactly to the symlink-free path of the first runnable
  candidate in the order of the directories, and only when that path's own directory is one of
  them; an earlier candidate is never skipped over.
\<close>

theorem Resolve_binary_iff:
  "Resolve_binary stat ev dirs name = Inr p \<longleftrightarrow>
     (\<exists>ds d rest. dirs = ds @ d # rest \<and> (\<forall>x \<in> set ds. \<not> runnable stat (JoinPath [x, name]))
        \<and> runnable stat (JoinPath [d, name]) \<and> ev (JoinPath [d, name]) = Some p \<and> Dir p \<in> set dirs)"
  unfolding Resolve_binary_def by (rule Resolve_from_Inr)

theorem Resolve_binary_iff_witness:
  "Dir ''/opt/bin/x'' \<in> set [''/usr/bin'', ''/opt/bin'']"
proof -
  have j: "JoinPath [''/usr/bin'', ''x''] = ''/usr/bin/x''" by code_simp
  have d: "Dir ''/opt/bin/x'' = ''/opt/bin''" by code_simp
  have "Resolve_binary (\<lambda>_. Some \<lparr>fi_IsDir = False, fi_Executable = True\<rparr>) (\<lambda>_. Some ''/opt/bin/x'')
      [''/usr/bin'', ''/opt/bin''] ''x'' = Inr ''/opt/bin/x''"
    by (simp add: Resolve_binary_def d)
  then show ?thesis unfolding Resolve_binary_iff by blast
qed

subsection \<open>Arguments\<close>

definition Sprint :: "any \<Rightarrow> string" where
  "Sprint v = (case v of VString s \<Rightarrow> s | VInt i \<Rightarrow> Itoa i | VInt64 i \<Rightarrow> Itoa i | VFloat64 s \<Rightarrow> s
     | VBool b \<Rightarrow> show_bool b | VOther s \<Rightarrow> s)"

text \<open>The value of a declared argument: from the call, else from the pipe's JSON object.\<close>

definition arg_value :: "args \<Rightarrow> args option \<Rightarrow> CommandArg \<Rightarrow> string option" where
  "arg_value call pipeFields decl =
     (case map_of call (ca_Name decl) of
        Some v \<Rightarrow> Some (Sprint v)
      | None \<Rightarrow>
          (case pipeFields of None \<Rightarrow> None
           | Some pf \<Rightarrow> map_option Sprint (map_of pf (ca_Name decl))))"

fun collect_args :: "args \<Rightarrow> args option \<Rightarrow> CommandArg list \<Rightarrow> (int \<times> string) list \<times> string list" where
  "collect_args call pf [] = ([], [])"
| "collect_args call pf (decl # decls) =
     (let (positional, named) = collect_args call pf decls in
      case arg_value call pf decl of
        None \<Rightarrow> (positional, named)
      | Some s \<Rightarrow>
          if ca_Position decl > 0 then ((ca_Position decl, s) # positional, named)
          else (positional, (''--'' @ ca_Name decl @ ''='' @ s) # named))"

text \<open>
  The argument vector, over the order \<open>sort.Slice\<close> left the positional arguments in: it is any
  sorted permutation, as the sort is not stable.
\<close>

definition argv :: "Command \<Rightarrow> string list \<Rightarrow> (int \<times> string) list \<Rightarrow> string list" where
  "argv cmd named sorted_positional = cmd_FixedArgs cmd @ named @ map snd sorted_positional"

definition cli_args :: "Command \<Rightarrow> args \<Rightarrow> args option \<Rightarrow> string list" where
  "cli_args cmd call pf =
     (let (positional, named) = collect_args call pf (cmd_Args cmd)
      in argv cmd named (sort_key fst positional))"

lemma collect_positions:
  "set (map fst (fst (collect_args call pf ds))) \<subseteq> set (positions ds)
   \<and> (distinct (positions ds) \<longrightarrow> distinct (map fst (fst (collect_args call pf ds))))"
proof (induction ds)
  case Nil
  show ?case by simp
next
  case (Cons d ds)
  obtain p n where pn: "collect_args call pf ds = (p, n)" by fastforce
  from Cons pn show ?case by (auto simp: positions_Cons split: option.splits)
qed

lemma sorted_unique:
  assumes "sorted (map fst xs)" "sorted (map fst ys)" "mset xs = mset ys" "distinct (map fst xs)"
  shows "xs = (ys :: (int \<times> string) list)"
proof -
  have "map fst xs = map fst ys"
    using assms(1-3) by (metis mset_map properties_for_sort)
  moreover have "inj_on fst (set xs \<union> set ys)"
    using assms(3,4) by (metis distinct_map mset_eq_setD sup.idem)
  ultimately show ?thesis using map_inj_on by blast
qed

text \<open>
  The argument vector of a validated command is determined: whatever sorted order the unstable
  sort leaves the positional arguments in, the vector is the fixed arguments, the named ones in
  declaration order, then the positional ones by position.
\<close>

theorem cli_args_deterministic:
  assumes "ValidateCommand dur cmd0 = Inr cmd"
    and "collect_args call pf (cmd_Args cmd) = (positional, named)"
    and "mset ps = mset positional" "sorted (map fst ps)"
  shows "argv cmd named ps = cli_args cmd call pf"
proof -
  have "distinct (positions (cmd_Args cmd))"
    using assms(1) unfolding validate_command_ok_iff command_ok_def by blast
  then have "distinct (map fst positional)"
    using collect_positions [of call pf "cmd_Args cmd"] assms(2) by simp
  then have "distinct (map fst ps)"
    using assms(3) by (metis distinct_map mset_eq_imp_distinct_iff mset_map)
  then have "ps = sort_key fst positional"
    using assms(3,4) by (intro sorted_unique) simp_all
  with assms(2) show ?thesis by (simp add: cli_args_def)
qed

theorem cli_args_deterministic_witness:
  "argv (default_runner_mode sample_command) [] [(1, ''a@b'')] =
     cli_args (default_runner_mode sample_command) [(''to'', VString ''a@b'')] None"
proof -
  have "collect_args [(''to'', VString ''a@b'')] None (cmd_Args (default_runner_mode sample_command)) =
      ([(1, ''a@b'')], [])" by code_simp
  from cli_args_deterministic [OF sample_command_validates this, of "[(1, ''a@b'')]"] show ?thesis by simp
qed

subsection \<open>Capped capture\<close>

text \<open>An \<open>int64\<close> sum wraps; \<open>wrap64\<close> is two's complement at 64 bits.\<close>

definition wrap64 :: "int \<Rightarrow> int" where
  "wrap64 n = (n + 2 ^ 63) mod 2 ^ 64 - 2 ^ 63"

lemma wrap64_id: "- (2 ^ 63) \<le> n \<Longrightarrow> n < 2 ^ 63 \<Longrightarrow> wrap64 n = n"
  by (simp add: wrap64_def)

record cappedWriter =
  cw_buf :: string
  cw_max :: int
  cw_total :: int

definition new_capped :: "int \<Rightarrow> cappedWriter" where
  "new_capped m = \<lparr>cw_buf = [], cw_max = m, cw_total = 0\<rparr>"

definition Write_capped :: "cappedWriter \<Rightarrow> string \<Rightarrow> cappedWriter \<times> nat" where
  "Write_capped w p =
     (let w1 = w\<lparr>cw_total := wrap64 (cw_total w + int (length p))\<rparr>;
          remaining = cw_max w1 - int (length (cw_buf w1))
      in (if remaining > 0 then
            (let n = (if int (length p) > remaining then remaining else int (length p))
             in w1\<lparr>cw_buf := cw_buf w1 @ take (nat n) p\<rparr>)
          else w1,
          length p))"

definition dropped :: "cappedWriter \<Rightarrow> int" where
  "dropped w = (if cw_total w > cw_max w then cw_total w - cw_max w else 0)"

definition write_all :: "cappedWriter \<Rightarrow> string list \<Rightarrow> cappedWriter" where
  "write_all w ps = foldl (\<lambda>w p. fst (Write_capped w p)) w ps"

text \<open>
  What a process writes, chunk by chunk, and whether the stream ends in a read error instead of
  the end of file.
\<close>

record stream =
  sr_chunks :: "string list"
  sr_error :: bool

text \<open>
  \<open>readCapped\<close>: a limited reader reports the end of file once \<open>n\<close> bytes are read, so an error
  counts only before that; the drain's own error is ignored.
\<close>

definition readCapped :: "stream \<Rightarrow> nat \<Rightarrow> string \<times> int \<times> bool" where
  "readCapped r n =
     (let s = concat (sr_chunks r) in
      if sr_error r \<and> length s < n then (s, 0, True)
      else (take n s, int (length s - n), False))"

text \<open>
  The interface both captures implement: after any chunks whose total length fits an \<open>int64\<close>, the
  kept text is the first \<open>cap\<close> bytes, and the lost count is what was offered beyond them.
\<close>

locale capture =
  fixes kept :: "string list \<Rightarrow> string" and lost :: "string list \<Rightarrow> int" and cap :: nat
  assumes kept_take: "length (concat ps) < 2 ^ 63 \<Longrightarrow> kept ps = take cap (concat ps)"
    and lost_excess: "length (concat ps) < 2 ^ 63 \<Longrightarrow> lost ps = int (length (concat ps) - cap)"
begin

lemma truncated_iff: "length (concat ps) < 2 ^ 63 \<Longrightarrow> 0 < lost ps \<longleftrightarrow> kept ps \<noteq> concat ps"
  by (simp add: kept_take lost_excess not_le)

lemma kept_bounded: "length (concat ps) < 2 ^ 63 \<Longrightarrow> length (kept ps) \<le> cap"
  by (simp add: kept_take)

lemma accounted: "length (concat ps) < 2 ^ 63 \<Longrightarrow> int (length (kept ps)) + lost ps = int (length (concat ps))"
  by (simp add: kept_take lost_excess)

lemma rechunk: "length (concat ps) < 2 ^ 63 \<Longrightarrow> concat ps = concat qs \<Longrightarrow> kept ps = kept qs \<and> lost ps = lost qs"
  by (simp add: kept_take lost_excess)

end

lemma write_all_snoc: "write_all w (ps @ [p]) = fst (Write_capped (write_all w ps) p)"
  by (simp add: write_all_def)

lemma take_offered: "take (nat (if r < int (length p) then r else int (length p))) p = take (nat r) p"
  by simp

lemma write_all_spec:
  assumes "int (length (concat ps)) < 2 ^ 63" "m \<ge> 0" "m < 2 ^ 63"
  shows "write_all (new_capped m) ps =
     \<lparr>cw_buf = take (nat m) (concat ps), cw_max = m, cw_total = int (length (concat ps))\<rparr>"
  using assms(1)
proof (induction ps rule: rev_induct)
  case Nil
  show ?case by (simp add: write_all_def new_capped_def)
next
  case (snoc p ps)
  let ?s = "concat ps"
  have w: "write_all (new_capped m) ps = \<lparr>cw_buf = take (nat m) ?s, cw_max = m, cw_total = int (length ?s)\<rparr>"
    using snoc by simp
  have t: "wrap64 (int (length ?s) + int (length p)) = int (length ?s) + int (length p)"
    using snoc.prems by (intro wrap64_id) auto
  show ?case
  proof (cases "m - int (length (take (nat m) ?s)) > 0")
    case True
    then have l: "int (length ?s) < m" "take (nat m) ?s = ?s" by auto
    then have "take (nat (m - int (length ?s))) p = take (nat m - length ?s) p"
      by (simp add: nat_diff_distrib)
    with l t assms(2) show ?thesis by (simp add: write_all_snoc w Write_capped_def Let_def take_offered)
  next
    case False
    have "length (take (nat m) ?s) \<le> length ?s" by simp
    with False have "nat m \<le> length ?s" by linarith
    then have "take (nat m) (?s @ p) = take (nat m) ?s" by simp
    with False t show ?thesis by (simp add: write_all_snoc w Write_capped_def Let_def)
  qed
qed

definition megabyte :: nat where
  "megabyte = 1048576"

interpretation writer: capture "\<lambda>ps. cw_buf (write_all (new_capped (int megabyte)) ps)"
  "\<lambda>ps. dropped (write_all (new_capped (int megabyte)) ps)" megabyte
proof
  fix ps :: "string list"
  assume "length (concat ps) < 2 ^ 63"
  then have l: "int (length (concat ps)) < 2 ^ 63" by (metis of_nat_less_numeral_power_cancel_iff)
  have m: "int megabyte \<ge> 0" "int megabyte < 2 ^ 63" by (simp_all add: megabyte_def)
  note w = write_all_spec [OF l m]
  show "cw_buf (write_all (new_capped (int megabyte)) ps) = take megabyte (concat ps)" by (simp add: w)
  show "dropped (write_all (new_capped (int megabyte)) ps) = int (length (concat ps) - megabyte)"
    by (simp add: w dropped_def)
qed

interpretation reader: capture "\<lambda>ps. fst (readCapped \<lparr>sr_chunks = ps, sr_error = False\<rparr> megabyte)"
  "\<lambda>ps. fst (snd (readCapped \<lparr>sr_chunks = ps, sr_error = False\<rparr> megabyte))" megabyte
  by unfold_locales (simp_all add: readCapped_def Let_def)

text \<open>
  The single-binary and the compound path capture output alike: for the same bytes, however
  the process chunked them, both keep the same prefix of at most a megabyte and report the same
  number of lost bytes, kept and lost add up to what was written, and the output is reported
  truncated exactly when the kept text is not all of it.
\<close>

theorem captures_agree:
  assumes "length (concat ps) < 2 ^ 63" "concat qs = concat ps"
  shows "readCapped \<lparr>sr_chunks = qs, sr_error = False\<rparr> megabyte =
      (cw_buf (write_all (new_capped (int megabyte)) ps), dropped (write_all (new_capped (int megabyte)) ps), False)
   \<and> int (length (cw_buf (write_all (new_capped (int megabyte)) ps)))
       + dropped (write_all (new_capped (int megabyte)) ps) = int (length (concat ps))
   \<and> (0 < dropped (write_all (new_capped (int megabyte)) ps) \<longleftrightarrow>
       cw_buf (write_all (new_capped (int megabyte)) ps) \<noteq> concat ps)"
  using assms writer.accounted [OF assms(1)] writer.truncated_iff [OF assms(1)]
    writer.kept_take [OF assms(1)] writer.lost_excess [OF assms(1)]
  by (simp add: readCapped_def Let_def)

theorem captures_agree_witness:
  "fst (readCapped \<lparr>sr_chunks = [''ab''], sr_error = False\<rparr> megabyte) =
     cw_buf (write_all (new_capped (int megabyte)) [''a'', ''b''])"
  using captures_agree [of "[''a'', ''b'']" "[''ab'']"] by simp

subsection \<open>CLIRunner\<close>

record CommandCall =
  cc_Command :: string
  cc_Args :: args

record process =
  pr_stdout :: stream
  pr_wait_ok :: bool

datatype start = NoStdoutPipe | NoStart | Started process

text \<open>
  A compound command: the step that did not start, or every step's \<open>Wait\<close> in the order they
  returned (whether it succeeded) and what the last step wrote.
\<close>

datatype compound_outcome = StepNotStarted nat | StepsDone "(nat \<times> bool) list" "string list"

record cli_world =
  cl_dirs :: "string list"
  cl_stat :: "string \<Rightarrow> file_info option"
  cl_eval :: "string \<Rightarrow> string option"
  cl_environ :: env
  cl_dur :: "string \<Rightarrow> int option"
  cl_json :: "string \<Rightarrow> args option"
  cl_exec :: "string \<Rightarrow> string list \<Rightarrow> string list \<Rightarrow> string \<Rightarrow> int \<Rightarrow> start"
  cl_compound :: "(string \<times> string list) list \<Rightarrow> string list \<Rightarrow> string \<Rightarrow> int \<Rightarrow> compound_outcome"

definition parseTimeout :: "(string \<Rightarrow> int option) \<Rightarrow> Command \<Rightarrow> int" where
  "parseTimeout dur cmd =
     (if cmd_Timeout cmd = [] then 30000000000
      else (case dur (cmd_Timeout cmd) of None \<Rightarrow> 30000000000 | Some d \<Rightarrow> d))"

definition runOutput :: "process \<Rightarrow> Command \<Rightarrow> (run_error, string \<times> bool) result" where
  "runOutput p cmd =
     (let (data, extra, readErr) = readCapped (pr_stdout p) megabyte in
      if \<not> pr_wait_ok p then Inl (CliFailed (cmd_Binary cmd))
      else if readErr then Inl (ReadStdoutFailed (cmd_Binary cmd))
      else Inr (data, extra > 0))"

definition pipe_fields :: "(string \<Rightarrow> args option) \<Rightarrow> string \<Rightarrow> args option" where
  "pipe_fields json pipe =
     (let trimmed = TrimSpace pipe in
      if trimmed \<noteq> [] \<and> hd trimmed = CHR ''{'' then json pipe else None)"

fun resolve_steps :: "cli_world \<Rightarrow> nat \<Rightarrow> Step list \<Rightarrow> (run_error, string list) result" where
  "resolve_steps w i [] = Inr []"
| "resolve_steps w i (s # ss) =
     (case Resolve_binary (cl_stat w) (cl_eval w) (cl_dirs w) (st_Binary s) of
        Inl e \<Rightarrow> Inl (StepError i e)
      | Inr p \<Rightarrow> and_then (resolve_steps w (Suc i) ss) (\<lambda>ps. Inr (p # ps)))"

definition first_failed :: "(nat \<times> bool) list \<Rightarrow> nat option" where
  "first_failed waits = map_option fst (find (\<lambda>(_, ok). \<not> ok) waits)"

definition runCompound :: "cli_world \<Rightarrow> Command \<Rightarrow> string \<Rightarrow> (run_error, string \<times> bool) result" where
  "runCompound w cmd pipe =
     (let timeout = parseTimeout (cl_dur w) cmd;
          binary = (\<lambda>i. st_Binary (cmd_Steps cmd ! i))
      in and_then (resolve_steps w 0 (cmd_Steps cmd)) (\<lambda>resolved.
         and_then (envForCommand (cl_environ w) cmd (cl_dirs w)) (\<lambda>env.
         (case cl_compound w (zip resolved (map st_FixedArgs (cmd_Steps cmd))) env pipe timeout of
            StepNotStarted i \<Rightarrow> Inl (StepStart i (binary i))
          | StepsDone waits chunks \<Rightarrow>
              (case first_failed waits of
                 Some i \<Rightarrow> Inl (StepFailed i (binary i))
               | None \<Rightarrow>
                   let lastStdout = write_all (new_capped (int megabyte)) chunks
                   in Inr (cw_buf lastStdout, dropped lastStdout > 0))))))"

definition Run_cli :: "cli_world \<Rightarrow> Command \<Rightarrow> CommandCall \<Rightarrow> string \<Rightarrow> (run_error, string \<times> bool) result" where
  "Run_cli w cmd call pipe =
     (if cmd_Steps cmd \<noteq> [] then runCompound w cmd pipe
      else and_then (Resolve_binary (cl_stat w) (cl_eval w) (cl_dirs w) (cmd_Binary cmd)) (\<lambda>resolvedPath.
        let argv = cli_args cmd (cc_Args call) (pipe_fields (cl_json w) pipe) in
        and_then (envForCommand (cl_environ w) cmd (cl_dirs w)) (\<lambda>env.
        (case cl_exec w resolvedPath argv env pipe (parseTimeout (cl_dur w) cmd) of
           NoStdoutPipe \<Rightarrow> Inl StdoutPipeFailed
         | NoStart \<Rightarrow> Inl (StartFailed (cmd_Binary cmd))
         | Started p \<Rightarrow> runOutput p cmd))))"

lemma runOutput_bounded: "runOutput p cmd = Inr (out, t) \<Longrightarrow> length out \<le> megabyte"
  by (auto simp: runOutput_def readCapped_def Let_def split: if_splits)

text \<open>The programs a stage may start, as resolved paths.\<close>

lemma resolve_steps_dirs:
  "resolve_steps w i ss = Inr ps \<Longrightarrow> length ps = length ss \<and> (\<forall>p \<in> set ps. Dir p \<in> set (cl_dirs w))"
proof (induction ss arbitrary: i ps)
  case (Cons s ss)
  then obtain p qs where p: "Resolve_binary (cl_stat w) (cl_eval w) (cl_dirs w) (st_Binary s) = Inr p"
    "resolve_steps w (Suc i) ss = Inr qs" "ps = p # qs"
    by (auto simp: and_then_Inr_iff split: sum.splits)
  from p(1) have "Dir p \<in> set (cl_dirs w)" unfolding Resolve_binary_def Resolve_from_Inr by blast
  with Cons.IH [OF p(2)] p(3) show ?case by simp
qed simp

subsection \<open>ClaudeRunner\<close>

text \<open>Why a pipeline failed, or what went wrong with its auto-reply.\<close>

datatype pipeline_error =
    PlanError string
  | EmptyPlan
  | UnknownCommand nat string
  | BadArgs nat args_error
  | SchemaError string
  | MarshalError
  | UnknownRunner nat string string
  | StageError nat string run_error
  | OutputInvalid nat string string
  | ReplyArgsInvalid args_error
  | ReplyNoRunner string
  | ReplyFailed run_error
  | DaemonStopped

text \<open>
  The persisted record of a run. \<open>Version\<close> is always 1 and \<open>ElseCmd\<close> is never set by the code; both
  are left out.
\<close>

record Pipeline =
  pl_ID :: string
  pl_CreatedAt :: int
  pl_Email :: EmailMeta
  pl_Body :: string
  pl_BodyTruncated :: bool
  pl_BodySanitized :: bool
  pl_Commands :: "CommandCall list"
  pl_Current :: nat
  pl_Results :: "string list"
  pl_Status :: string
  pl_Error :: "pipeline_error option"
  pl_WriteSet :: "string list"

text \<open>The arguments of a stage, in the byte order of their names.\<close>

definition buildStageArgs :: "args \<Rightarrow> StageArg list" where
  "buildStageArgs as =
     map (\<lambda>name.
        let (sanitized, argSanitized) = sanitizeText (Sprint (the (map_of as name)));
            (capped, argTruncated) = capRunes sanitized maxContractFieldRunes
        in \<lparr>sa_Name = name, sa_Value = capped, sa_Truncated = argTruncated, sa_Sanitized = argSanitized\<rparr>)
      (sort (map fst as))"

record claude_world =
  kw_environ :: env
  kw_registry :: servers
  kw_mcp_ops :: temp_ops
  kw_lookpath :: "string \<Rightarrow> string option"
  kw_marshal :: "servers \<Rightarrow> string option"
  kw_mission_ops :: temp_ops
  kw_ethos :: "string option \<Rightarrow> (string, string) result"
  kw_prompt_ops :: temp_ops
  kw_rnd :: "nat list option"
  kw_spawn :: "string \<Rightarrow> string option \<Rightarrow> string option \<Rightarrow> string list \<Rightarrow> env \<Rightarrow> WorkerResult \<times> worker_error option"

datatype claude_event =
    EvMission string
  | EvSpawn string "string list" "string option" "string option"
  | EvClose string

definition stage_payload :: "Pipeline \<Rightarrow> CommandCall \<Rightarrow> string \<Rightarrow> bool \<Rightarrow> StagePayload" where
  "stage_payload p call pipe pipeTruncated =
     (let (fencedPipe, pipeSanitized) = sanitizeText pipe in
      \<lparr>sp_Args = buildStageArgs (cc_Args call),
       sp_PipelineOutput = fencedPipe, sp_PipelineOutputTruncated = pipeTruncated,
       sp_PipelineOutputSanitized = pipeSanitized,
       sp_EmailBody = pl_Body p, sp_EmailBodyTruncated = pl_BodyTruncated p,
       sp_EmailBodySanitized = pl_BodySanitized p\<rparr>)"

text \<open>
  The spawner reads the two files it is given, so it takes their contents; deferred removals run
  on every path out.
\<close>

definition Run_claude ::
    "claude_world \<Rightarrow> Pipeline \<Rightarrow> int \<Rightarrow> Command \<Rightarrow> CommandCall \<Rightarrow> string \<Rightarrow> bool \<Rightarrow> files
      \<Rightarrow> (run_error, string \<times> bool) result \<times> files \<times> claude_event list" where
  "Run_claude w p idx cmd call pipe pipeTruncated fs =
     (let (envOverrides, missingEnv) = resolveEnvVars (kw_environ w) (cmd_EnvVars cmd) in
      if missingEnv \<noteq> [] then (Inl (MissingEnv (cmd_Name cmd) missingEnv), fs, [])
      else
        let names = (case cmd_MCPServers cmd of None \<Rightarrow> [''ethos'', ''beadle-email''] | Some ns \<Rightarrow> ns) in
        (case BuildMCPConfig (kw_mcp_ops w) (kw_lookpath w) (kw_marshal w) names (kw_registry w) fs of
           (Inl e, fs1) \<Rightarrow> (Inl (BuildMcpFailed e), fs1, [])
         | (Inr mcpPath, fs1) \<Rightarrow>
             let contract = buildStageContract (pl_Email p) cmd (pl_ID p) idx;
                 no_mcp = drop_temp (kw_mcp_ops w) mcpPath in
             (case createMissionFromContract (kw_mission_ops w) (kw_ethos w) contract fs1 of
                (Inl e, fs2) \<Rightarrow> (Inl (MissionFailed e), no_mcp fs2, [EvMission contract])
              | (Inr missionID, fs2) \<Rightarrow>
                  let payload = stage_payload p call pipe pipeTruncated in
                  (case BuildSystemPromptForTools (kw_prompt_ops w) (kw_rnd w) missionID (cmd_Tools cmd) payload fs2 of
                     (Inl e, fs3) \<Rightarrow> (Inl (PromptFailed e), no_mcp fs3, [EvMission contract])
                   | (Inr promptPath, fs3) \<Rightarrow>
                       let done = no_mcp (drop_temp (kw_prompt_ops w) promptPath fs3);
                           spawned = [EvMission contract,
                                      EvSpawn missionID (cmd_Tools cmd) (fs3 mcpPath) (fs3 promptPath)] in
                       (case kw_spawn w missionID (fs3 mcpPath) (fs3 promptPath) (cmd_Tools cmd) envOverrides of
                          (wr, Some e) \<Rightarrow> (Inl (SpawnFailed e), done, spawned)
                        | (wr, None) \<Rightarrow>
                            if wr_IsError wr
                            then (Inl (WorkerFailed (wr_ExitCode wr) (truncateLog (wr_Output wr) 500)), done, spawned)
                            else (Inr (wr_Output wr, False), done, spawned @ [EvClose missionID]))))))"

text \<open>What a fresh temp path gives each of the three files.\<close>

definition fresh_temps :: "claude_world \<Rightarrow> files \<Rightarrow> bool" where
  "fresh_temps w fs \<longleftrightarrow>
     to_remove (kw_mcp_ops w) \<and> to_remove (kw_mission_ops w) \<and> to_remove (kw_prompt_ops w)
   \<and> (\<forall>p. to_create (kw_mcp_ops w) = Some p \<longrightarrow> fs p = None)
   \<and> (\<forall>p. to_create (kw_mission_ops w) = Some p \<longrightarrow> fs p = None \<and> to_create (kw_mcp_ops w) \<noteq> Some p)
   \<and> (\<forall>p. to_create (kw_prompt_ops w) = Some p \<longrightarrow> fs p = None \<and> to_create (kw_mcp_ops w) \<noteq> Some p)"

lemma BuildMCPConfig_path: "BuildMCPConfig ops l m ns reg fs = (Inr p, fs') \<Longrightarrow> to_create ops = Some p"
  by (simp add: BuildMCPConfig_def split: if_splits option.splits sum.splits)

lemma prompt_files:
  assumes "BuildSystemPromptForTools ops rnd mid tools payload fs = (r, fs')"
    and "\<forall>p. to_create ops = Some p \<longrightarrow> fs p = None" "to_remove ops"
  shows "drop_temp ops path fs' = (case r of Inl _ \<Rightarrow> fs'(path := None) | Inr _ \<Rightarrow> fs'(path := None))"
    "case r of Inl _ \<Rightarrow> fs' = fs | Inr path \<Rightarrow> to_create ops = Some path \<and> fs'(path := None) = fs"
proof -
  have "fs(p := None) = fs" if "to_create ops = Some p" for p
    using that assms(2) by (simp add: fun_upd_idem)
  then show "case r of Inl _ \<Rightarrow> fs' = fs | Inr path \<Rightarrow> to_create ops = Some path \<and> fs'(path := None) = fs"
    using assms(1,3)
    by (simp add: BuildSystemPromptForTools_def removeAfterFailure_def drop_temp_def Let_def
        split: if_splits option.splits sum.splits) auto
  show "drop_temp ops path fs' = (case r of Inl _ \<Rightarrow> fs'(path := None) | Inr _ \<Rightarrow> fs'(path := None))"
    using assms(3) by (simp add: drop_temp_def split: sum.splits)
qed

lemma prompt_written:
  "BuildSystemPromptForTools ops rnd mid tools payload fs = (Inr path, fs') \<Longrightarrow>
     ValidMissionID mid \<and>
     (\<exists>nonce. genFenceNonce rnd = Inr nonce \<and> fs' path = Some (system_prompt mid tools nonce payload))"
  by (auto simp: BuildSystemPromptForTools_def removeAfterFailure_def Let_def
      split: if_splits option.splits sum.splits)

text \<open>The three stages of a run that gets as far as the worker.\<close>

lemma Run_claude_cases:
  assumes "Run_claude w p idx cmd call pipe t fs = (r, fs', ev)"
  obtains (env) "snd (resolveEnvVars (kw_environ w) (cmd_EnvVars cmd)) \<noteq> []" "ev = []" "fs' = fs" "\<not> is_ok r"
  | (mcp) e names where "BuildMCPConfig (kw_mcp_ops w) (kw_lookpath w) (kw_marshal w) names (kw_registry w) fs = (Inl e, fs')"
      "ev = []" "\<not> is_ok r"
  | (mission) names path fs1 fs2 e where
      "BuildMCPConfig (kw_mcp_ops w) (kw_lookpath w) (kw_marshal w) names (kw_registry w) fs = (Inr path, fs1)"
      "createMissionFromContract (kw_mission_ops w) (kw_ethos w) (buildStageContract (pl_Email p) cmd (pl_ID p) idx) fs1 = (Inl e, fs2)"
      "fs' = drop_temp (kw_mcp_ops w) path fs2" "ev = [EvMission (buildStageContract (pl_Email p) cmd (pl_ID p) idx)]"
      "\<not> is_ok r" "snd (resolveEnvVars (kw_environ w) (cmd_EnvVars cmd)) = []"
  | (prompt) names path fs1 fs2 mid fs3 e where
      "BuildMCPConfig (kw_mcp_ops w) (kw_lookpath w) (kw_marshal w) names (kw_registry w) fs = (Inr path, fs1)"
      "createMissionFromContract (kw_mission_ops w) (kw_ethos w) (buildStageContract (pl_Email p) cmd (pl_ID p) idx) fs1 = (Inr mid, fs2)"
      "BuildSystemPromptForTools (kw_prompt_ops w) (kw_rnd w) mid (cmd_Tools cmd) (stage_payload p call pipe t) fs2 = (Inl e, fs3)"
      "fs' = drop_temp (kw_mcp_ops w) path fs3" "ev = [EvMission (buildStageContract (pl_Email p) cmd (pl_ID p) idx)]"
      "\<not> is_ok r" "snd (resolveEnvVars (kw_environ w) (cmd_EnvVars cmd)) = []"
  | (spawned) names path fs1 fs2 mid fs3 ppath close where
      "BuildMCPConfig (kw_mcp_ops w) (kw_lookpath w) (kw_marshal w) names (kw_registry w) fs = (Inr path, fs1)"
      "createMissionFromContract (kw_mission_ops w) (kw_ethos w) (buildStageContract (pl_Email p) cmd (pl_ID p) idx) fs1 = (Inr mid, fs2)"
      "BuildSystemPromptForTools (kw_prompt_ops w) (kw_rnd w) mid (cmd_Tools cmd) (stage_payload p call pipe t) fs2 = (Inr ppath, fs3)"
      "fs' = drop_temp (kw_mcp_ops w) path (drop_temp (kw_prompt_ops w) ppath fs3)"
      "ev = [EvMission (buildStageContract (pl_Email p) cmd (pl_ID p) idx),
             EvSpawn mid (cmd_Tools cmd) (fs3 path) (fs3 ppath)] @ close"
      "close = (if is_ok r then [EvClose mid] else [])"
      "snd (resolveEnvVars (kw_environ w) (cmd_EnvVars cmd)) = []"
proof -
  obtain ov missing where env: "resolveEnvVars (kw_environ w) (cmd_EnvVars cmd) = (ov, missing)" by fastforce
  show ?thesis
  proof (cases "missing = []")
    case False
    with assms env that(1) show ?thesis by (auto simp: Run_claude_def)
  next
    case True
    define names where "names = (case cmd_MCPServers cmd of None \<Rightarrow> [''ethos'', ''beadle-email''] | Some ns \<Rightarrow> ns)"
    define contract where "contract = buildStageContract (pl_Email p) cmd (pl_ID p) idx"
    obtain b fs1 where b: "BuildMCPConfig (kw_mcp_ops w) (kw_lookpath w) (kw_marshal w) names (kw_registry w) fs = (b, fs1)"
      by fastforce
    obtain c fs2 where c: "createMissionFromContract (kw_mission_ops w) (kw_ethos w) contract fs1 = (c, fs2)" by fastforce
    note start = assms [unfolded Run_claude_def env Let_def prod.case, folded names_def contract_def, unfolded b]
    show ?thesis
    proof (cases b)
      case (Inl e)
      with start True b that(2) [of names e] show ?thesis by auto
    next
      case path: (Inr path)
      show ?thesis
      proof (cases c)
        case (Inl e)
        with start True b c path env that(3) [of names path fs1 e fs2] show ?thesis by (auto simp: contract_def)
      next
        case mid: (Inr mid)
        obtain d fs3 where d: "BuildSystemPromptForTools (kw_prompt_ops w) (kw_rnd w) mid (cmd_Tools cmd)
            (stage_payload p call pipe t) fs2 = (d, fs3)" by fastforce
        show ?thesis
        proof (cases d)
          case (Inl e)
          with start True b c d path mid env that(4) [of names path fs1 mid fs2 e fs3] show ?thesis
            by (auto simp: contract_def)
        next
          case (Inr ppath)
          with start True b c d path mid env that(5) [of names path fs1 mid fs2 ppath fs3] show ?thesis
            by (auto simp: contract_def split: prod.splits option.splits if_splits)
        qed
      qed
    qed
  qed
qed

lemma mission_files:
  assumes "createMissionFromContract ops ethos contract fs = (r, fs')"
    and "\<forall>p. to_create ops = Some p \<longrightarrow> fs p = None" "to_remove ops"
  shows "fs' = fs"
  using create_mission_spec [OF assms] by blast

text \<open>
  A Claude stage leaves the temp directory as it found it: when the temp paths are fresh and
  removable, no MCP config, contract or prompt file (which holds sender text) survives the run,
  whichever step failed.
\<close>

theorem Run_claude_leaves_no_files:
  assumes "Run_claude w p idx cmd call pipe t fs = (r, fs', ev)" "fresh_temps w fs"
  shows "fs' = fs"
proof -
  have ops: "to_remove (kw_mcp_ops w)" "to_remove (kw_mission_ops w)" "to_remove (kw_prompt_ops w)"
    "\<forall>p. to_create (kw_mcp_ops w) = Some p \<longrightarrow> fs p = None"
    using assms(2) by (simp_all add: fresh_temps_def)
  have after_mcp: "fs2(path := None) = fs" "fs2 = fs1"
      "\<forall>p. to_create (kw_prompt_ops w) = Some p \<longrightarrow> fs2 p = None"
    if m: "BuildMCPConfig (kw_mcp_ops w) (kw_lookpath w) (kw_marshal w) names (kw_registry w) fs = (Inr path, fs1)"
      and c: "createMissionFromContract (kw_mission_ops w) (kw_ethos w) contract fs1 = (c, fs2)"
    for names path fs1 fs2 contract c
  proof -
    have path: "to_create (kw_mcp_ops w) = Some path" by (rule BuildMCPConfig_path [OF m])
    obtain data where d: "fs1 = fs(path \<mapsto> data)"
      using mcp_config_spec [OF m ops(4) ops(1)] by auto
    have "\<forall>p. to_create (kw_mission_ops w) = Some p \<longrightarrow> fs1 p = None"
      using assms(2) path d by (auto simp: fresh_temps_def)
    then show "fs2 = fs1" using mission_files [OF c _ ops(2)] by blast
    with d path ops(4) show "fs2(path := None) = fs" by (auto simp: fun_upd_idem)
    show "\<forall>p. to_create (kw_prompt_ops w) = Some p \<longrightarrow> fs2 p = None"
      using assms(2) path d \<open>fs2 = fs1\<close> by (auto simp: fresh_temps_def)
  qed
  from assms(1) show ?thesis
  proof (cases rule: Run_claude_cases)
    case env
    then show ?thesis by simp
  next
    case (mcp e names)
    then show ?thesis using mcp_config_spec [OF mcp(1) ops(4) ops(1)] by simp
  next
    case (mission names path fs1 fs2 e)
    then show ?thesis using after_mcp [OF mission(1,2)] ops(1) by (simp add: drop_temp_def)
  next
    case (prompt names path fs1 fs2 mid fs3 e)
    have "fs3 = fs2" using prompt_files(2) [OF prompt(3) after_mcp(3) [OF prompt(1,2)] ops(3)] by simp
    then show ?thesis using after_mcp [OF prompt(1,2)] ops(1) prompt(4) by (simp add: drop_temp_def)
  next
    case (spawned names path fs1 fs2 mid fs3 ppath close)
    have "fs3(ppath := None) = fs2"
      using prompt_files(2) [OF spawned(3) after_mcp(3) [OF spawned(1,2)] ops(3)] by simp
    then show ?thesis using after_mcp [OF spawned(1,2)] ops spawned(4) by (simp add: drop_temp_def)
  qed
qed

text \<open>
  C24. What a Claude stage has done when it has spawned a worker: every declared variable was
  present, a mission was created first from the contract of this stage, the mission id is valid,
  the worker gets exactly the command's tools and a prompt rendered with a fresh nonce, and the
  mission is closed exactly when the stage succeeds. Without its variables it does nothing at all.
\<close>

theorem Run_claude_order:
  assumes "Run_claude w p idx cmd call pipe t fs = (r, fs', ev)"
  shows "(ev \<noteq> [] \<longrightarrow> (\<forall>n \<in> set (cmd_EnvVars cmd). kw_environ w n \<noteq> None)
            \<and> hd ev = EvMission (buildStageContract (pl_Email p) cmd (pl_ID p) idx))
    \<and> (\<forall>mid tools config prompt. EvSpawn mid tools config prompt \<in> set ev \<longrightarrow>
         tools = cmd_Tools cmd \<and> ValidMissionID mid \<and>
         (\<exists>nonce. genFenceNonce (kw_rnd w) = Inr nonce \<and>
            prompt = Some (system_prompt mid tools nonce (stage_payload p call pipe t))))
    \<and> (is_ok r \<longleftrightarrow> (\<exists>mid. EvClose mid \<in> set ev))"
  using assms
proof (cases rule: Run_claude_cases)
  case env
  then show ?thesis by simp
next
  case (mcp e names)
  then show ?thesis by simp
next
  case (mission names path fs1 fs2 e)
  then show ?thesis by (simp add: resolveEnvVars_spec filter_empty_conv)
next
  case (prompt names path fs1 fs2 mid fs3 e)
  then show ?thesis by (simp add: resolveEnvVars_spec filter_empty_conv)
next
  case (spawned names path fs1 fs2 mid fs3 ppath close)
  from prompt_written [OF spawned(3)] spawned(5,6,7) show ?thesis
    by (auto simp: resolveEnvVars_spec filter_empty_conv split: if_splits)
qed

definition sample_world :: claude_world where
  "sample_world =
     \<lparr>kw_environ = Map.empty, kw_registry = map_of DefaultMCPRegistry, kw_mcp_ops = sample_ops\<lparr>to_create := Some ''m''\<rparr>,
      kw_lookpath = (\<lambda>c. Some (''/bin/'' @ c)), kw_marshal = (\<lambda>_. Some ''{}''), kw_mission_ops = sample_ops,
      kw_ethos = (\<lambda>_. Inr ''created: m-2025-01''), kw_prompt_ops = sample_ops\<lparr>to_create := Some ''p''\<rparr>,
      kw_rnd = Some [1], kw_spawn = (\<lambda>mid _ _ _ _. (no_result mid 0, None))\<rparr>"

definition sample_pipeline :: Pipeline where
  "sample_pipeline = \<lparr>pl_ID = ''1'', pl_CreatedAt = 0,
     pl_Email = \<lparr>em_MessageID = ''7'', em_From = ''a@b'', em_Subject = ''hi''\<rparr>, pl_Body = ''hello'',
     pl_BodyTruncated = False, pl_BodySanitized = False, pl_Commands = [], pl_Current = 0, pl_Results = [],
     pl_Status = ''running'', pl_Error = None, pl_WriteSet = []\<rparr>"

lemma sample_world_fresh: "fresh_temps sample_world Map.empty"
  by (simp add: fresh_temps_def sample_world_def sample_ops_def)

theorem Run_claude_leaves_no_files_witness:
  "fst (snd (Run_claude sample_world sample_pipeline 0 sample_command \<lparr>cc_Command = ''lookup'', cc_Args = []\<rparr> [] False
     Map.empty)) = Map.empty"
  using Run_claude_leaves_no_files [OF _ sample_world_fresh] by (metis prod.collapse)

theorem Run_claude_order_witness:
  "is_ok (fst (Run_claude sample_world sample_pipeline 0 sample_command \<lparr>cc_Command = ''lookup'', cc_Args = []\<rparr> [] False
     Map.empty)) \<longleftrightarrow>
   (\<exists>mid. EvClose mid \<in> set (snd (snd (Run_claude sample_world sample_pipeline 0 sample_command
     \<lparr>cc_Command = ''lookup'', cc_Args = []\<rparr> [] False Map.empty))))"
  using Run_claude_order [of sample_world sample_pipeline 0 sample_command "\<lparr>cc_Command = ''lookup'', cc_Args = []\<rparr>"
      "[]" False Map.empty] by (metis prod.collapse)

end
