(* ===== verification/Pipeline.thy ===== *)
theory Pipeline
  imports Runner
begin

section \<open>The pipeline executor (internal/daemon/pipeline.go, schema.go, planner.go)\<close>

text \<open>
  \<open>Executor.Run\<close> whole: the body's one sanitization, planning, the validation of every call before
  any runs, schema compilation, the stage loop with the pipe and its truncation flag as a pair,
  the auto-reply, and \<open>fireElse\<close> on every failure. Every call of \<open>Store.Save\<close> and of a runner is an
  event of a trace; a runner is a function of its inputs and a world \<open>'w\<close>, the planner, the JSON
  marshaller, the schema compiler and the address parser are parameters.

  The properties are about the trace: the persisted record ends in exactly the returned terminal
  state, no stage runs before every call is validated, every stage reads the output of the last
  process stage with that output's own flag, and a failure is answered by the fixed text only.
\<close>

subsection \<open>Planner and schemas\<close>

record CompiledRule =
  cr_match :: "string \<Rightarrow> bool"
  cr_commands :: "CommandCall list"

definition NewRulePlanner ::
    "(string \<Rightarrow> (string \<Rightarrow> bool) option) \<Rightarrow> (string \<times> CommandCall list) list \<Rightarrow> (nat, CompiledRule list) result" where
  "NewRulePlanner compile rules =
     (case find (\<lambda>(i, pat, _). compile pat = None) (enumerate 0 rules) of
        Some (i, _, _) \<Rightarrow> Inl i
      | None \<Rightarrow> Inr (map (\<lambda>(pat, cs). \<lparr>cr_match = the (compile pat), cr_commands = cs\<rparr>) rules))"

definition Plan_rules :: "CompiledRule list \<Rightarrow> EmailMeta \<Rightarrow> string \<Rightarrow> (string, CommandCall list) result" where
  "Plan_rules rules meta body =
     (let txt = em_Subject meta @ [NL] @ body in
      case find (\<lambda>r. cr_match r txt) rules of
        None \<Rightarrow> Inl ''no rule matches this instruction''
      | Some r \<Rightarrow> Inr (cr_commands r))"

type_synonym 'w runner =
  "Pipeline \<Rightarrow> int \<Rightarrow> Command \<Rightarrow> CommandCall \<Rightarrow> string \<Rightarrow> bool \<Rightarrow> 'w \<Rightarrow> (run_error, string \<times> bool) result \<times> 'w"

record 'w Executor =
  ex_Planner :: "EmailMeta \<Rightarrow> string \<Rightarrow> (string, CommandCall list) result"
  ex_Commands :: "string \<rightharpoonup> Command"
  ex_Runners :: "string \<rightharpoonup> 'w runner"
  ex_Store :: bool
  ex_marshal :: "EmailMeta \<Rightarrow> string option"
  ex_compiles :: "string \<Rightarrow> bool"
  ex_json :: "string \<Rightarrow> bool"
  ex_conforms :: "string \<Rightarrow> string \<Rightarrow> string option"
  ex_address :: "string \<Rightarrow> string"

text \<open>\<open>None\<close> is the nil schema of text mode; a compiled schema is kept as its text.\<close>

definition CompileSchema :: "(string \<Rightarrow> bool) \<Rightarrow> output_schema \<Rightarrow> (string, string option) result" where
  "CompileSchema compiles s =
     (case s of
        SchemaString v \<Rightarrow> if v = ''text'' then Inr None else Inl v
      | SchemaMap j \<Rightarrow> if compiles j then Inr (Some j) else Inl ''compile output_schema''
      | SchemaNil \<Rightarrow> Inl ''<nil>''
      | SchemaOther t \<Rightarrow> Inl t)"

definition ValidateOutput :: "'w Executor \<Rightarrow> string option \<Rightarrow> string \<Rightarrow> (string, unit) result" where
  "ValidateOutput ex schema out =
     (case schema of
        None \<Rightarrow> Inr ()
      | Some j \<Rightarrow>
          if \<not> ex_json ex out then Inl ''output is not valid JSON''
          else (case ex_conforms ex j out of
                  Some msg \<Rightarrow> Inl (''output does not match schema: '' @ msg)
                | None \<Rightarrow> Inr ()))"

subsection \<open>The parts of Run\<close>

datatype pipe_event =
    Saved Pipeline
  | Ran int CommandCall string bool "(run_error, string \<times> bool) result"

definition save :: "'w Executor \<Rightarrow> Pipeline \<Rightarrow> pipe_event list" where
  "save ex p = (if ex_Store ex then [Saved p] else [])"

definition truncationNotice :: string where
  "truncationNotice = [NL] @ ''[output truncated at 1MB]'' @ [NL]"

definition reply_call :: "'w Executor \<Rightarrow> Pipeline \<Rightarrow> CommandCall" where
  "reply_call ex p =
     \<lparr>cc_Command = ''reply'', cc_Args = [(''to'', VString (ex_address ex (em_From (pl_Email p))))]\<rparr>"

definition elsePipe :: "Pipeline \<Rightarrow> string" where
  "elsePipe p = ''Your request could not be completed. Reference: pipeline-'' @ pl_ID p"

definition fireElse :: "'w Executor \<Rightarrow> Pipeline \<Rightarrow> 'w \<Rightarrow> pipe_event list \<times> 'w" where
  "fireElse ex p w =
     (case ex_Commands ex ''reply'' of
        None \<Rightarrow> ([], w)
      | Some replyCmd \<Rightarrow>
          let replyCall = reply_call ex p in
          (case ValidateArgs replyCmd (cc_Args replyCall) of
             Inl _ \<Rightarrow> ([], w)
           | Inr _ \<Rightarrow>
               (case ex_Runners ex (cmd_Runner replyCmd) of
                  None \<Rightarrow> ([], w)
                | Some r \<Rightarrow>
                    (case r p (- 1) replyCmd replyCall (elsePipe p) False w of
                       (res, w') \<Rightarrow> ([Ran (- 1) replyCall (elsePipe p) False res], w')))))"

type_synonym 'w outcome = "(Pipeline \<times> pipeline_error option) \<times> pipe_event list \<times> 'w"

text \<open>The five lines every failure runs: the status, the error, the save and the else reply.\<close>

definition fail_pipeline :: "'w Executor \<Rightarrow> Pipeline \<Rightarrow> pipeline_error \<Rightarrow> 'w \<Rightarrow> 'w outcome" where
  "fail_pipeline ex p err w =
     (let p' = p\<lparr>pl_Status := ''failed'', pl_Error := Some err\<rparr>;
          (evs, w') = fireElse ex p' w
      in ((p', Some err), save ex p' @ evs, w'))"

fun validate_calls :: "'w Executor \<Rightarrow> nat \<Rightarrow> CommandCall list \<Rightarrow> (pipeline_error, unit) result" where
  "validate_calls ex i [] = Inr ()"
| "validate_calls ex i (call # calls) =
     (case ex_Commands ex (cc_Command call) of
        None \<Rightarrow> Inl (UnknownCommand i (cc_Command call))
      | Some cmd \<Rightarrow>
          (case ValidateArgs cmd (cc_Args call) of
             Inl e \<Rightarrow> Inl (BadArgs i e)
           | Inr _ \<Rightarrow> validate_calls ex (Suc i) calls))"

fun add_new :: "string list \<Rightarrow> string list \<Rightarrow> string list" where
  "add_new ws [] = ws"
| "add_new ws (x # xs) = add_new (if x \<in> set ws then ws else ws @ [x]) xs"

definition unionWriteSets :: "'w Executor \<Rightarrow> CommandCall list \<Rightarrow> string list" where
  "unionWriteSets ex calls =
     foldl (\<lambda>ws call. case ex_Commands ex (cc_Command call) of
        None \<Rightarrow> ws | Some cmd \<Rightarrow> add_new ws (cmd_WriteSet cmd)) [] calls"

fun compile_schemas ::
    "'w Executor \<Rightarrow> (string \<rightharpoonup> string option) \<Rightarrow> CommandCall list \<Rightarrow> (pipeline_error, string \<rightharpoonup> string option) result" where
  "compile_schemas ex m [] = Inr m"
| "compile_schemas ex m (call # calls) =
     (case CompileSchema (ex_compiles ex) (cmd_OutputSchema (the (ex_Commands ex (cc_Command call)))) of
        Inl _ \<Rightarrow> Inl (SchemaError (cc_Command call))
      | Inr s \<Rightarrow> compile_schemas ex (m(cc_Command call \<mapsto> s)) calls)"

fun run_stages ::
    "'w Executor \<Rightarrow> (string \<rightharpoonup> string option) \<Rightarrow> nat \<Rightarrow> CommandCall list \<Rightarrow> Pipeline \<Rightarrow> string \<Rightarrow> bool \<Rightarrow> 'w
      \<Rightarrow> (Pipeline \<times> pipeline_error option, Pipeline \<times> string \<times> bool) result \<times> pipe_event list \<times> 'w" where
  "run_stages ex schemas i [] p pipe t w = (Inr (p, pipe, t), [], w)"
| "run_stages ex schemas i (call # calls) p pipe t w =
     (let p1 = p\<lparr>pl_Current := i\<rparr>;
          saved = save ex p1;
          cmd = the (ex_Commands ex (cc_Command call));
          stop = (\<lambda>evs err w. case fail_pipeline ex p1 err w of
                    (out, evs', w') \<Rightarrow> (Inl out, evs @ evs', w'))
      in case ex_Runners ex (cmd_Runner cmd) of
           None \<Rightarrow> stop saved (UnknownRunner i (cc_Command call) (cmd_Runner cmd)) w
         | Some r \<Rightarrow>
             (case r p1 (int i) cmd call pipe t w of
                (res, w1) \<Rightarrow>
                  let ran = saved @ [Ran (int i) call pipe t res] in
                  (case res of
                     Inl e \<Rightarrow> stop ran (StageError i (cc_Command call) e) w1
                   | Inr (result, resultTruncated) \<Rightarrow>
                       let p2 = p1\<lparr>pl_Results := pl_Results p1 @ [result]\<rparr> in
                       if cmd_Mode cmd = ''process'' then
                         (case ValidateOutput ex (the (schemas (cc_Command call))) result of
                            Inl e \<Rightarrow>
                              let msg = (if resultTruncated
                                         then ''output truncated at the 1MB cap, then output validation: '' else [])
                                        @ truncateLog e 200
                              in stop ran (OutputInvalid i (cc_Command call) msg) w1
                          | Inr _ \<Rightarrow>
                              (case run_stages ex schemas (Suc i) calls p2 result resultTruncated w1 of
                                 (out, evs, w2) \<Rightarrow> (out, ran @ save ex p2 @ evs, w2)))
                       else
                         (case run_stages ex schemas (Suc i) calls p2 pipe t w1 of
                            (out, evs, w2) \<Rightarrow> (out, ran @ save ex p2 @ evs, w2)))))"

definition auto_reply :: "'w Executor \<Rightarrow> Pipeline \<Rightarrow> string \<Rightarrow> bool \<Rightarrow> 'w \<Rightarrow> Pipeline \<times> pipe_event list \<times> 'w" where
  "auto_reply ex p pipe t w =
     (case ex_Commands ex ''reply'' of
        None \<Rightarrow> (p, [], w)
      | Some replyCmd \<Rightarrow>
          let replyCall = reply_call ex p in
          (case ValidateArgs replyCmd (cc_Args replyCall) of
             Inl e \<Rightarrow> (p\<lparr>pl_Error := Some (ReplyArgsInvalid e)\<rparr>, [], w)
           | Inr _ \<Rightarrow>
               (case ex_Runners ex (cmd_Runner replyCmd) of
                  None \<Rightarrow> (p\<lparr>pl_Error := Some (ReplyNoRunner (cmd_Runner replyCmd))\<rparr>, [], w)
                | Some r \<Rightarrow>
                    let replyPipe = pipe @ (if t then truncationNotice else []);
                        n = int (length (pl_Commands p)) in
                    (case r p n replyCmd replyCall replyPipe t w of
                       (res, w') \<Rightarrow>
                         ((case res of
                             Inl e \<Rightarrow> p\<lparr>pl_Error := Some (ReplyFailed e)\<rparr>
                           | Inr (replyResult, _) \<Rightarrow> p\<lparr>pl_Results := pl_Results p @ [replyResult]\<rparr>),
                          [Ran n replyCall replyPipe t res], w')))))"

definition new_pipeline :: "string \<Rightarrow> int \<Rightarrow> EmailMeta \<Rightarrow> string \<Rightarrow> Pipeline" where
  "new_pipeline uuid now meta body =
     (let (sanitizedBody, bodySanitized) = sanitizeText body;
          (cappedBody, bodyTruncated) = capRunes sanitizedBody maxContractFieldRunes
      in \<lparr>pl_ID = uuid, pl_CreatedAt = now, pl_Email = meta, pl_Body = cappedBody,
          pl_BodyTruncated = bodyTruncated, pl_BodySanitized = bodySanitized,
          pl_Commands = [], pl_Current = 0, pl_Results = [], pl_Status = ''running'',
          pl_Error = None, pl_WriteSet = []\<rparr>)"

definition norm_body :: "string \<Rightarrow> string" where
  "norm_body body = (if TrimSpace body = [] then [] else body)"

definition Run :: "'w Executor \<Rightarrow> string \<Rightarrow> int \<Rightarrow> EmailMeta \<Rightarrow> string \<Rightarrow> 'w \<Rightarrow> 'w outcome" where
  "Run ex uuid now meta body0 w =
     (let body = norm_body body0;
          p = new_pipeline uuid now meta body;
          evs0 = save ex p;
          stop = (\<lambda>p err w. case fail_pipeline ex p err w of (out, evs, w') \<Rightarrow> (out, evs0 @ evs, w'))
      in case ex_Planner ex meta body of
           Inl e \<Rightarrow> stop p (PlanError e) w
         | Inr calls \<Rightarrow>
             if calls = [] then stop p EmptyPlan w
             else (case validate_calls ex 0 calls of
               Inl e \<Rightarrow> stop p e w
             | Inr _ \<Rightarrow>
                 let p1 = p\<lparr>pl_Commands := calls, pl_WriteSet := unionWriteSets ex calls, pl_Results := []\<rparr> in
                 (case compile_schemas ex Map.empty calls of
                    Inl e \<Rightarrow> stop p1 e w
                  | Inr schemas \<Rightarrow>
                      (case ex_marshal ex meta of
                         None \<Rightarrow> stop p1 MarshalError w
                       | Some pipeData \<Rightarrow>
                           (case run_stages ex schemas 0 calls p1 pipeData False w of
                              (Inl out, evs, w') \<Rightarrow> (out, evs0 @ evs, w')
                            | (Inr (p2, pipe, t), evs, w') \<Rightarrow>
                                (case auto_reply ex p2 pipe t w' of
                                   (p3, evs', w'') \<Rightarrow>
                                     let p4 = p3\<lparr>pl_Status := ''completed''\<rparr> in
                                     ((p4, None), evs0 @ evs @ evs' @ save ex p4, w'')))))))"

subsection \<open>Reading the trace\<close>

text \<open>The records handed to the store, and the outputs of the runner calls that returned one.\<close>

fun saves :: "pipe_event list \<Rightarrow> Pipeline list" where
  "saves [] = []"
| "saves (Saved p # es) = p # saves es"
| "saves (Ran _ _ _ _ _ # es) = saves es"

fun outputs :: "pipe_event list \<Rightarrow> string list" where
  "outputs [] = []"
| "outputs (Saved _ # es) = outputs es"
| "outputs (Ran _ _ _ _ r # es) = (case r of Inr (out, _) \<Rightarrow> [out] | Inl _ \<Rightarrow> []) @ outputs es"

text \<open>The pipe and its flag as one pair, changed only by a process stage's output.\<close>

fun carried :: "'w Executor \<Rightarrow> string \<times> bool \<Rightarrow> pipe_event \<Rightarrow> string \<times> bool" where
  "carried ex st (Saved _) = st"
| "carried ex st (Ran i call _ _ r) =
     (case r of
        Inr out \<Rightarrow> if cmd_Mode (the (ex_Commands ex (cc_Command call))) = ''process'' then out else st
      | Inl _ \<Rightarrow> st)"

text \<open>Every runner call with its inputs and the pair carried to it.\<close>

fun inputs :: "'w Executor \<Rightarrow> string \<times> bool \<Rightarrow> pipe_event list
    \<Rightarrow> (int \<times> CommandCall \<times> (string \<times> bool) \<times> (string \<times> bool)) list" where
  "inputs ex st [] = []"
| "inputs ex st (Saved p # es) = inputs ex st es"
| "inputs ex st (Ran i call pipe t r # es) =
     (i, call, (pipe, t), st) # inputs ex (carried ex st (Ran i call pipe t r)) es"

lemma trace_append [simp]:
  "saves (a @ b) = saves a @ saves b" "outputs (a @ b) = outputs a @ outputs b"
  "inputs ex st (a @ b) = inputs ex st a @ inputs ex (foldl (carried ex) st a) b"
proof -
  show "saves (a @ b) = saves a @ saves b" by (induction a rule: saves.induct) auto
  show "outputs (a @ b) = outputs a @ outputs b" by (induction a rule: outputs.induct) auto
  show "inputs ex st (a @ b) = inputs ex st a @ inputs ex (foldl (carried ex) st a) b"
    by (induction ex st a rule: inputs.induct) auto
qed

lemma save_trace [simp]:
  "saves (save ex p) = (if ex_Store ex then [p] else [])" "outputs (save ex p) = []"
  "inputs ex st (save ex p) = []" "foldl (carried ex) st (save ex p) = st"
  by (simp_all add: save_def)

lemma fireElse_trace:
  assumes "fireElse ex p w = (evs, w')"
  shows "saves evs = []"
    "\<forall>x \<in> set (inputs ex st evs). fst x = - 1 \<and> fst (snd (snd x)) = (elsePipe p, False)"
  using assms by (auto simp: fireElse_def Let_def split: option.splits sum.splits prod.splits)

lemma fail_trace:
  assumes "fail_pipeline ex p err w = ((p', e), evs, w')"
  shows "p' = p\<lparr>pl_Status := ''failed'', pl_Error := Some err\<rparr>" "e = Some err"
    "saves evs = (if ex_Store ex then [p'] else [])"
    "\<forall>x \<in> set (inputs ex st evs). fst x = - 1 \<and> fst (snd (snd x)) = (elsePipe p', False)"
proof -
  obtain els w1 where f: "fireElse ex (p\<lparr>pl_Status := ''failed'', pl_Error := Some err\<rparr>) w = (els, w1)" by fastforce
  show p': "p' = p\<lparr>pl_Status := ''failed'', pl_Error := Some err\<rparr>" and "e = Some err"
    using assms f by (auto simp: fail_pipeline_def Let_def)
  have evs: "evs = save ex p' @ els" using assms f p' by (auto simp: fail_pipeline_def Let_def)
  show "saves evs = (if ex_Store ex then [p'] else [])" using fireElse_trace(1) [OF f] by (simp add: evs)
  show "\<forall>x \<in> set (inputs ex st evs). fst x = - 1 \<and> fst (snd (snd x)) = (elsePipe p', False)"
    using fireElse_trace(2) [OF f] by (simp add: evs p' elsePipe_def)
qed

text \<open>One stage, by what it does: it stops the run, or it passes the pair on.\<close>

lemma run_stages_step:
  assumes "run_stages ex sch i (call # calls) p pipe t w = (out, evs, w')"
  obtains (norunner) p' err evs' where "out = Inl (p', Some err)"
      "fail_pipeline ex (p\<lparr>pl_Current := i\<rparr>) err w = ((p', Some err), evs', w')"
      "evs = save ex (p\<lparr>pl_Current := i\<rparr>) @ evs'"
  | (stopped) p' err evs' res w1 where "out = Inl (p', Some err)"
      "fail_pipeline ex (p\<lparr>pl_Current := i\<rparr>) err w1 = ((p', Some err), evs', w')"
      "evs = save ex (p\<lparr>pl_Current := i\<rparr>) @ [Ran (int i) call pipe t res] @ evs'"
  | (passed) result rt evs' w1 p2 pipe' t' where
      "p2 = p\<lparr>pl_Current := i, pl_Results := pl_Results p @ [result]\<rparr>"
      "run_stages ex sch (Suc i) calls p2 pipe' t' w1 = (out, evs', w')"
      "(pipe', t') = carried ex (pipe, t) (Ran (int i) call pipe t (Inr (result, rt)))"
      "evs = save ex (p\<lparr>pl_Current := i\<rparr>) @ [Ran (int i) call pipe t (Inr (result, rt))] @ save ex p2 @ evs'"
proof -
  let ?p1 = "p\<lparr>pl_Current := i\<rparr>"
  let ?cmd = "the (ex_Commands ex (cc_Command call))"
  note run = assms [unfolded run_stages.simps Let_def]
  show ?thesis
  proof (cases "ex_Runners ex (cmd_Runner ?cmd)")
    case None
    obtain p' e evs' w1 where f: "fail_pipeline ex ?p1 (UnknownRunner i (cc_Command call) (cmd_Runner ?cmd)) w = ((p', e), evs', w1)"
      by (metis prod.exhaust_sel)
    with run None fail_trace(2) [OF f] norunner [of p' _ evs'] show ?thesis by auto
  next
    case (Some r)
    obtain res w1 where res: "r ?p1 (int i) ?cmd call pipe t w = (res, w1)" by fastforce
    have stop: ?thesis if "out = Inl (fst (fail_pipeline ex ?p1 err w1))"
      "evs = save ex ?p1 @ [Ran (int i) call pipe t res] @ fst (snd (fail_pipeline ex ?p1 err w1))"
      "w' = snd (snd (fail_pipeline ex ?p1 err w1))" for err
    proof -
      obtain p' e evs' w2 where f: "fail_pipeline ex ?p1 err w1 = ((p', e), evs', w2)" by (metis prod.exhaust_sel)
      with that fail_trace(2) [OF f] stopped [of p' err w1 evs' res] show ?thesis by auto
    qed
    show ?thesis
    proof (cases res)
      case (Inl e)
      with run Some res stop [of "StageError i (cc_Command call) e"] show ?thesis by (simp add: split_beta)
    next
      case (Inr rr)
      obtain result rt where rr: "rr = (result, rt)" by fastforce
      let ?p2 = "?p1\<lparr>pl_Results := pl_Results ?p1 @ [result]\<rparr>"
      show ?thesis
      proof (cases "cmd_Mode ?cmd = ''process''")
        case False
        obtain out' evs' w2 where n: "run_stages ex sch (Suc i) calls ?p2 pipe t w1 = (out', evs', w2)"
          by (metis prod.exhaust_sel)
        with run Some res Inr rr False passed [of ?p2 result pipe t w1 evs' rt] show ?thesis by auto
      next
        case True
        show ?thesis
        proof (cases "ValidateOutput ex (the (sch (cc_Command call))) result")
          case (Inl e)
          let ?err = "OutputInvalid i (cc_Command call)
            ((if rt then ''output truncated at the 1MB cap, then output validation: '' else []) @ truncateLog e 200)"
          from run Some res Inr rr True Inl stop [of ?err] show ?thesis by (simp add: split_beta)
        next
          case v: (Inr u)
          obtain out' evs' w2 where n: "run_stages ex sch (Suc i) calls ?p2 result rt w1 = (out', evs', w2)"
            by (metis prod.exhaust_sel)
          with run Some res Inr rr True v passed [of ?p2 result result rt w1 evs' rt] show ?thesis by auto
        qed
      qed
    qed
  qed
qed

subsection \<open>What a run has done\<close>

text \<open>The stage loop's contribution to the trace.\<close>

definition stage_input :: "nat \<Rightarrow> CommandCall list \<Rightarrow> int \<times> CommandCall \<times> (string \<times> bool) \<times> (string \<times> bool) \<Rightarrow> bool" where
  "stage_input i calls x =
     (case x of (idx, call, inp, st) \<Rightarrow>
        int i \<le> idx \<and> nat idx - i < length calls \<and> call = calls ! (nat idx - i) \<and> inp = st)"

definition else_input :: "Pipeline \<Rightarrow> int \<times> CommandCall \<times> (string \<times> bool) \<times> (string \<times> bool) \<Rightarrow> bool" where
  "else_input p x = (case x of (idx, call, inp, st) \<Rightarrow> idx = - 1 \<and> inp = (elsePipe p, False))"

lemma stage_input_Suc: "stage_input (Suc i) calls x \<Longrightarrow> stage_input i (call # calls) x"
  by (cases x) (auto simp: stage_input_def nth_Cons' Suc_diff_le)

lemma stage_input_here: "stage_input i (call # calls) (int i, call, st, st)"
  by (simp add: stage_input_def)

definition stages_done :: "'w Executor \<Rightarrow> nat \<Rightarrow> CommandCall list \<Rightarrow> Pipeline \<Rightarrow> string \<times> bool
    \<Rightarrow> (Pipeline \<times> pipeline_error option, Pipeline \<times> string \<times> bool) result \<Rightarrow> pipe_event list \<Rightarrow> bool" where
  "stages_done ex i calls p st out evs =
     (case out of
        Inl (p', e) \<Rightarrow> pl_Status p' = ''failed'' \<and> e \<noteq> None \<and> e = pl_Error p'
          \<and> pl_Commands p' = pl_Commands p
          \<and> (ex_Store ex \<longrightarrow> (\<exists>qs. saves evs = qs @ [p'] \<and> (\<forall>q \<in> set qs. pl_Status q = pl_Status p)))
          \<and> (\<forall>x \<in> set (inputs ex st evs). stage_input i calls x \<or> else_input p' x)
      | Inr (p', st') \<Rightarrow> pl_Status p' = pl_Status p \<and> pl_Commands p' = pl_Commands p
          \<and> (\<forall>q \<in> set (saves evs). pl_Status q = pl_Status p)
          \<and> pl_Results p' = pl_Results p @ outputs evs \<and> length (outputs evs) = length calls
          \<and> st' = foldl (carried ex) st evs
          \<and> (\<forall>x \<in> set (inputs ex st evs). stage_input i calls x))"

lemma stages_done_fail:
  assumes "fail_pipeline ex (p\<lparr>pl_Current := i\<rparr>) err w = ((p', Some err), evs', w')"
    and "\<forall>x \<in> set (inputs ex st run). stage_input i calls x" "saves run = []"
  shows "stages_done ex i calls p st (Inl (p', Some err)) (save ex (p\<lparr>pl_Current := i\<rparr>) @ run @ evs')"
proof -
  note f = fail_trace(1,3) [OF assms(1)]
  have "\<forall>x \<in> set (inputs ex (foldl (carried ex) st run) evs'). else_input p' x"
    using fail_trace(4) [OF assms(1)] by (simp add: else_input_def split_beta)
  then show ?thesis using f assms(2,3) by (auto simp: stages_done_def)
qed

lemma run_stages_done:
  "run_stages ex sch i calls p pipe t w = (out, evs, w') \<Longrightarrow> stages_done ex i calls p (pipe, t) out evs"
proof (induction calls arbitrary: i p pipe t w out evs w')
  case Nil
  then show ?case by (auto simp: stages_done_def)
next
  case (Cons call calls)
  from Cons.prems show ?case
  proof (cases rule: run_stages_step)
    case (norunner p' err evs')
    then show ?thesis using stages_done_fail [OF norunner(2), of "(pipe, t)" "[]" "call # calls"] by simp
  next
    case (stopped p' err evs' res w1)
    then show ?thesis
      using stages_done_fail [OF stopped(2), of "(pipe, t)" "[Ran (int i) call pipe t res]" "call # calls"]
      by (simp add: stage_input_here)
  next
    case (passed result rt evs' w1 p2 pipe' t')
    from Cons.IH [OF passed(2)] have ih: "stages_done ex (Suc i) calls p2 (pipe', t') out evs'" .
    show ?thesis
    proof (cases out)
      case (Inl a)
      with ih passed(1,3,4) show ?thesis
        by (auto simp: stages_done_def stage_input_here dest: stage_input_Suc split: prod.splits)
    next
      case (Inr b)
      with ih passed(1,3,4) show ?thesis
        by (auto simp: stages_done_def stage_input_here dest: stage_input_Suc split: prod.splits)
    qed
  qed
qed

definition planned :: "'w Executor \<Rightarrow> EmailMeta \<Rightarrow> string \<Rightarrow> CommandCall list \<Rightarrow> bool" where
  "planned ex meta body calls \<longleftrightarrow>
     ex_Planner ex meta (norm_body body) = Inr calls \<and> calls \<noteq> [] \<and> validate_calls ex 0 calls = Inr ()"

definition started :: "'w Executor \<Rightarrow> string \<Rightarrow> int \<Rightarrow> EmailMeta \<Rightarrow> string \<Rightarrow> CommandCall list \<Rightarrow> Pipeline" where
  "started ex uuid now meta body calls =
     (new_pipeline uuid now meta (norm_body body))
       \<lparr>pl_Commands := calls, pl_WriteSet := unionWriteSets ex calls, pl_Results := []\<rparr>"

lemma new_pipeline_fields [simp]:
  "pl_Status (new_pipeline u n m b) = ''running''" "pl_Commands (new_pipeline u n m b) = []"
  "pl_Results (new_pipeline u n m b) = []" "pl_ID (new_pipeline u n m b) = u" "pl_Email (new_pipeline u n m b) = m"
  by (simp_all add: new_pipeline_def split_beta Let_def)

lemma started_fields [simp]:
  "pl_Status (started ex u n m b cs) = ''running''" "pl_Commands (started ex u n m b cs) = cs"
  "pl_Results (started ex u n m b cs) = []"
  by (simp_all add: started_def)

lemma Run_cases:
  assumes "Run ex uuid now meta body w = ((p, err), evs, w')"
  obtains (early) p0 e evs' where "pl_Status p0 = ''running''"
      "fail_pipeline ex p0 e w = ((p, err), evs', w')"
      "evs = save ex (new_pipeline uuid now meta (norm_body body)) @ evs'"
  | (stage) calls sch pipe evs' where "planned ex meta body calls" "compile_schemas ex Map.empty calls = Inr sch"
      "ex_marshal ex meta = Some pipe"
      "run_stages ex sch 0 calls (started ex uuid now meta body calls) pipe False w = (Inl (p, err), evs', w')"
      "evs = save ex (new_pipeline uuid now meta (norm_body body)) @ evs'"
  | (finished) calls sch pipe evs' p2 pipe' t w1 p3 evs'' where "planned ex meta body calls"
      "compile_schemas ex Map.empty calls = Inr sch" "ex_marshal ex meta = Some pipe"
      "run_stages ex sch 0 calls (started ex uuid now meta body calls) pipe False w = (Inr (p2, pipe', t), evs', w1)"
      "auto_reply ex p2 pipe' t w1 = (p3, evs'', w')" "p = p3\<lparr>pl_Status := ''completed''\<rparr>" "err = None"
      "evs = save ex (new_pipeline uuid now meta (norm_body body)) @ evs' @ evs'' @ save ex p"
proof -
  let ?p = "new_pipeline uuid now meta (norm_body body)"
  note run = assms [unfolded Run_def Let_def]
  have stop: ?thesis if "pl_Status p0 = ''running''"
    "((p, err), evs, w') = (case fail_pipeline ex p0 e w of (out, evs, w') \<Rightarrow> (out, save ex ?p @ evs, w'))" for p0 e
    using that early [of p0 e] by (cases "fail_pipeline ex p0 e w") auto
  show ?thesis
  proof (cases "ex_Planner ex meta (norm_body body)")
    case (Inl e)
    with run stop [of ?p "PlanError e"] show ?thesis by simp
  next
    case (Inr calls)
    show ?thesis
    proof (cases "calls = []")
      case True
      with run Inr stop [of ?p EmptyPlan] show ?thesis by simp
    next
      case ne: False
      show ?thesis
      proof (cases "validate_calls ex 0 calls")
        case (Inl e)
        with run Inr ne stop [of ?p e] show ?thesis by simp
      next
        case v: (Inr u)
        note run1 = run [unfolded Inr sum.case if_not_P [OF ne] v, folded started_def]
        have pl: "planned ex meta body calls" using Inr ne v by (simp add: planned_def)
        show ?thesis
        proof (cases "compile_schemas ex Map.empty calls")
          case (Inl e)
          with run1 stop [of "started ex uuid now meta body calls" e] show ?thesis by simp
        next
          case sch: (Inr sch)
          show ?thesis
          proof (cases "ex_marshal ex meta")
            case None
            with run1 sch stop [of "started ex uuid now meta body calls" MarshalError] show ?thesis by simp
          next
            case pipe: (Some pipe)
            obtain out evs' w1 where r: "run_stages ex sch 0 calls (started ex uuid now meta body calls) pipe False w =
              (out, evs', w1)" by (metis prod.exhaust_sel)
            show ?thesis
            proof (cases out)
              case (Inl out')
              with run1 sch pipe r stage [OF pl sch pipe, of evs'] show ?thesis by simp
            next
              case (Inr q)
              obtain p2 pipe' t where q: "q = (p2, pipe', t)" by (metis prod.exhaust_sel)
              obtain p3 evs'' w2 where a: "auto_reply ex p2 pipe' t w1 = (p3, evs'', w2)" by (metis prod.exhaust_sel)
              from run1 sch pipe r Inr q a finished [OF pl sch pipe, of p2 pipe' t evs' w1 p3 evs'']
              show ?thesis by auto
            qed
          qed
        qed
      qed
    qed
  qed
qed

lemma auto_reply_trace:
  assumes "auto_reply ex p pipe t w = (p', evs, w')"
  shows "saves evs = []" "pl_Commands p' = pl_Commands p" "pl_Results p' = pl_Results p @ outputs evs"
    "\<forall>x \<in> set (inputs ex st evs). case x of (idx, call, inp, _) \<Rightarrow>
       idx = int (length (pl_Commands p)) \<and> inp = (pipe @ (if t then truncationNotice else []), t)"
  using assms by (auto simp: auto_reply_def Let_def split: option.splits sum.splits prod.splits)

text \<open>
  C19. Every run ends in a terminal state, and says so on disk: the returned record is completed with
  no error or failed with the error it records, and with a store the records handed to it are running ones
  followed, as the last one, by exactly the returned record. (A save the store refuses is only logged, and changes
  nothing of the run.)
\<close>

theorem Run_terminal:
  assumes "Run ex uuid now meta body w = ((p, err), evs, w')"
  shows "(pl_Status p = ''completed'' \<and> err = None \<or> pl_Status p = ''failed'' \<and> err \<noteq> None \<and> err = pl_Error p)
    \<and> (ex_Store ex \<longrightarrow> (\<exists>qs. saves evs = qs @ [p] \<and> qs \<noteq> [] \<and> (\<forall>q \<in> set qs. pl_Status q = ''running'')))"
  using assms
proof (cases rule: Run_cases)
  case (early p0 e evs')
  then show ?thesis using fail_trace(1-3) [OF early(2)] by simp
next
  case (stage calls sch pipe evs')
  note d = run_stages_done [OF stage(4), unfolded stages_done_def sum.case prod.case]
  have "\<exists>qs. saves evs = qs @ [p] \<and> qs \<noteq> [] \<and> (\<forall>q \<in> set qs. pl_Status q = ''running'')" if "ex_Store ex"
  proof -
    from d that obtain qs where "saves evs' = qs @ [p]" "\<forall>q \<in> set qs. pl_Status q = ''running''" by auto
    with stage(5) that show ?thesis
      by (intro exI [of _ "new_pipeline uuid now meta (norm_body body) # qs"]) simp
  qed
  with d show ?thesis by blast
next
  case (finished calls sch pipe evs' p2 pipe' t w1 p3 evs'')
  with run_stages_done [OF finished(4)] auto_reply_trace(1) [OF finished(5)] show ?thesis
    by (auto simp: stages_done_def)
qed

lemma validate_calls_ok:
  "validate_calls ex i calls = Inr u \<longleftrightarrow>
     (\<forall>c \<in> set calls. \<exists>cmd. ex_Commands ex (cc_Command c) = Some cmd \<and> ValidateArgs cmd (cc_Args c) = Inr ())"
  by (induction calls arbitrary: i) (auto split: option.splits sum.splits)

text \<open>
  No stage runs before the whole plan is checked: when a runner was called for anything but the
  failure reply, the planner returned a nonempty plan, every call of it names a known command whose
  arguments validate, and the record carries that plan.
\<close>

theorem Run_validates_first:
  assumes "Run ex uuid now meta body w = ((p, err), evs, w')"
    and "x \<in> set (inputs ex st evs)" "fst x \<noteq> - 1"
  shows "pl_Commands p \<noteq> [] \<and> ex_Planner ex meta (norm_body body) = Inr (pl_Commands p) \<and>
    (\<forall>c \<in> set (pl_Commands p). \<exists>cmd. ex_Commands ex (cc_Command c) = Some cmd \<and> ValidateArgs cmd (cc_Args c) = Inr ())"
  using assms(1)
proof (cases rule: Run_cases)
  case (early p0 e evs')
  then show ?thesis using fail_trace(4) [OF early(2)] assms(2,3) by auto
next
  case (stage calls sch pipe evs')
  with run_stages_done [OF stage(4)] show ?thesis
    by (simp add: stages_done_def planned_def validate_calls_ok)
next
  case (finished calls sch pipe evs' p2 pipe' t w1 p3 evs'')
  with run_stages_done [OF finished(4)] auto_reply_trace(2) [OF finished(5)] show ?thesis
    by (simp add: stages_done_def planned_def validate_calls_ok)
qed

text \<open>
  C20. What every runner call reads: stage \<open>i\<close> of the plan gets call \<open>i\<close> and the pair of the last
  process stage's output and that output's own truncation flag (at first the metadata, untruncated);
  the auto-reply runs only on success, on the final pair, with the notice exactly when the pipe is
  truncated; a failed run calls, besides its stages, only the failure reply, with the fixed text.
\<close>

theorem Run_inputs:
  assumes "Run ex uuid now meta body w = ((p, err), evs, w')"
    and "(idx, call, (pipe, t), st) \<in> set (inputs ex (the (ex_marshal ex meta), False) evs)"
  shows "(0 \<le> idx \<and> nat idx < length (pl_Commands p) \<and> call = pl_Commands p ! nat idx \<and> (pipe, t) = st)
    \<or> (err = None \<and> idx = int (length (pl_Commands p)) \<and> t = snd st
         \<and> pipe = fst st @ (if t then truncationNotice else []))
    \<or> (err \<noteq> None \<and> idx = - 1 \<and> pipe = elsePipe p \<and> \<not> t)"
  using assms(1)
proof (cases rule: Run_cases)
  case (early p0 e evs')
  then show ?thesis using fail_trace(2,4) [OF early(2)] assms(2) by fastforce
next
  case (stage calls sch pipe0 evs')
  note d = run_stages_done [OF stage(4), unfolded stages_done_def sum.case prod.case]
  have e: "err \<noteq> None" and c: "pl_Commands p = calls" using d by (blast, simp)
  have "(idx, call, (pipe, t), st) \<in> set (inputs ex (pipe0, False) evs')"
    using assms(2) stage(3,5) by simp
  then have "stage_input 0 calls (idx, call, (pipe, t), st) \<or> else_input p (idx, call, (pipe, t), st)"
    using d by blast
  with e c show ?thesis by (auto simp: stage_input_def else_input_def)
next
  case (finished calls sch pipe0 evs' p2 pipe' t' w1 p3 evs'')
  note d = run_stages_done [OF finished(4), unfolded stages_done_def]
  have c: "pl_Commands p2 = calls" "pl_Commands p = calls" using d auto_reply_trace(2) [OF finished(5)] finished(6) by simp_all
  have st': "foldl (carried ex) (pipe0, False) evs' = (pipe', t')" using d by simp
  have "(idx, call, (pipe, t), st) \<in> set (inputs ex (pipe0, False) evs') \<union> set (inputs ex (pipe', t') evs'')"
    using assms(2) finished(3,8) st' by simp
  then show ?thesis
  proof
    assume "(idx, call, (pipe, t), st) \<in> set (inputs ex (pipe0, False) evs')"
    then have "stage_input 0 calls (idx, call, (pipe, t), st)" using d by auto
    then show ?thesis using c by (auto simp: stage_input_def)
  next
    assume a: "(idx, call, (pipe, t), st) \<in> set (inputs ex (pipe', t') evs'')"
    then have "st = (pipe', t')"
      using finished(5) by (auto simp: auto_reply_def Let_def split: option.splits sum.splits prod.splits)
    then show ?thesis using a c finished(7) auto_reply_trace(4) [OF finished(5), of "(pipe', t')"] by auto
  qed
qed

text \<open>The runner calls of a trace, in order, each with its output when it returned one.\<close>

fun runs :: "pipe_event list \<Rightarrow> (int \<times> CommandCall \<times> string option) list" where
  "runs [] = []"
| "runs (Saved _ # es) = runs es"
| "runs (Ran i call _ _ r # es) = (i, call, (case r of Inr (out, _) \<Rightarrow> Some out | Inl _ \<Rightarrow> None)) # runs es"

lemma runs_append [simp]: "runs (a @ b) = runs a @ runs b"
  by (induction a rule: runs.induct) auto

lemma runs_save [simp]: "runs (save ex p) = []"
  by (simp add: save_def)

lemma outputs_runs: "outputs evs = List.map_filter (\<lambda>(_, _, out). out) (runs evs)"
  by (induction evs rule: runs.induct) (auto simp: List.map_filter_simps split: sum.splits)

text \<open>What calls a loop that went through made: its calls from the index on, each with an output.\<close>

lemma run_stages_runs:
  "run_stages ex sch i calls p pipe t w = (Inr q, evs, w') \<Longrightarrow>
     \<exists>outs. length outs = length calls
       \<and> runs evs = map (\<lambda>(k, call, out). (int k, call, Some out)) (enumerate i (zip calls outs))"
proof (induction calls arbitrary: i p pipe t w evs)
  case (Cons call calls)
  from Cons.prems show ?case
  proof (cases rule: run_stages_step)
    case (passed result rt evs' w1 p2 pipe' t')
    from Cons.IH [OF passed(2)] obtain outs where o: "length outs = length calls"
      "runs evs' = map (\<lambda>(k, call, out). (int k, call, Some out)) (enumerate (Suc i) (zip calls outs))" by blast
    then show ?thesis unfolding passed(4) by (intro exI [of _ "result # outs"]) simp
  qed simp_all
qed simp

lemma auto_reply_runs:
  assumes "auto_reply ex p pipe t w = (p', evs, w')"
  shows "runs evs = [] \<or> (\<exists>out. runs evs = [(int (length (pl_Commands p)), reply_call ex p, out)])"
    "pl_Email p' = pl_Email p"
  using assms by (auto simp: auto_reply_def Let_def split: option.splits sum.splits prod.splits)

lemma run_stages_email: "run_stages ex sch i calls p pipe t w = (Inr (p', q), evs, w') \<Longrightarrow> pl_Email p' = pl_Email p"
proof (induction calls arbitrary: i p pipe t w evs)
  case (Cons call calls)
  from Cons.prems show ?case
  proof (cases rule: run_stages_step)
    case (passed result rt evs' w1 p2 pipe' t')
    then show ?thesis using Cons.IH [OF passed(2)] by simp
  qed simp_all
qed simp

text \<open>
  C21. A completed run has called the runner for every call of the planner's plan, once each, in the plan's order, each
  with its own place as the index and each with an output; after them for nothing but the reply, at most once, addressed
  to the sender; and the record holds the plan and, in that order, exactly the outputs, the reply's last when it had one.
\<close>

theorem Run_completed:
  assumes "Run ex uuid now meta body w = ((p, None), evs, w')"
  shows "ex_Planner ex meta (norm_body body) = Inr (pl_Commands p) \<and> pl_Commands p \<noteq> []
    \<and> (\<exists>outs reply. length outs = length (pl_Commands p)
        \<and> runs evs = map (\<lambda>(k, call, out). (int k, call, Some out)) (enumerate 0 (zip (pl_Commands p) outs)) @ reply
        \<and> (reply = [] \<or> (\<exists>out. reply = [(int (length (pl_Commands p)), reply_call ex p, out)]))
        \<and> pl_Results p = outs @ List.map_filter (\<lambda>(_, _, out). out) reply)"
  using assms
proof (cases rule: Run_cases)
  case (early p0 e evs')
  then show ?thesis using fail_trace(2) [OF early(2)] by simp
next
  case (stage calls sch pipe evs')
  with run_stages_done [OF stage(4)] show ?thesis by (simp add: stages_done_def)
next
  case (finished calls sch pipe evs' p2 pipe' t w1 p3 evs'')
  note d = run_stages_done [OF finished(4), unfolded stages_done_def sum.case prod.case]
  note r = auto_reply_trace(2,3) [OF finished(5)]
  obtain outs where o: "length outs = length calls"
    "runs evs' = map (\<lambda>(k, call, out). (int k, call, Some out)) (enumerate 0 (zip calls outs))"
    using run_stages_runs [OF finished(4)] by blast
  have c: "pl_Commands p = calls" "pl_Commands p2 = calls" using d r finished(6) by simp_all
  have "reply_call ex p = reply_call ex p2" using auto_reply_runs(2) [OF finished(5)] finished(6) by (simp add: reply_call_def)
  moreover have "List.map_filter (\<lambda>(_, _, out). out) (map (\<lambda>(k, call, out). (int k, call, Some out)) (enumerate n (zip calls outs))) = outs"
    for n :: nat
    using o(1) by (induction calls outs arbitrary: n rule: list_induct2') (simp_all add: List.map_filter_simps)
  then have "outputs evs' = outs" unfolding outputs_runs o(2) .
  moreover have "pl_Results p = outputs evs' @ outputs evs''" using d r finished(6) by simp
  ultimately show ?thesis
    using o c auto_reply_runs(1) [OF finished(5)] finished(1,8)
    by (intro conjI exI [of _ outs] exI [of _ "runs evs''"]) (auto simp: planned_def outputs_runs)
qed

text \<open>A run to apply them to: one text stage and a reply, over a runner that answers everything.\<close>

definition sample_reply :: Command where
  "sample_reply = (default_runner_mode sample_command)\<lparr>cmd_Name := ''reply''\<rparr>"

definition sample_call :: CommandCall where
  "sample_call = \<lparr>cc_Command = ''lookup'', cc_Args = [(''to'', VString ''a@b'')]\<rparr>"

definition sample_executor :: "unit Executor" where
  "sample_executor =
     \<lparr>ex_Planner = (\<lambda>_ _. Inr [sample_call]),
      ex_Commands = [''lookup'' \<mapsto> default_runner_mode sample_command, ''reply'' \<mapsto> sample_reply],
      ex_Runners = [''claude'' \<mapsto> (\<lambda>_ _ _ _ _ _ w. (Inr (''ok'', True), w))],
      ex_Store = True, ex_marshal = (\<lambda>_. Some ''{}''), ex_compiles = (\<lambda>_. True), ex_json = (\<lambda>_. True),
      ex_conforms = (\<lambda>_ _. None), ex_address = (\<lambda>_. ''a@b'')\<rparr>"

definition sample_meta :: EmailMeta where
  "sample_meta = \<lparr>em_MessageID = ''7'', em_From = ''a@b'', em_Subject = ''hi''\<rparr>"

definition sample_run :: "unit outcome" where
  "sample_run = Run sample_executor ''id'' 0 sample_meta ''hello'' ()"

lemma sample_run_eq:
  "Run sample_executor ''id'' 0 sample_meta ''hello'' () = ((fst (fst sample_run), None), fst (snd sample_run), snd (snd sample_run))"
  by code_simp

lemma sample_inputs:
  "map (\<lambda>(i, _, inp, st). (i, inp, st)) (inputs sample_executor (''{}'', False) (fst (snd sample_run))) =
     [(0, (''{}'', False), (''{}'', False)), (1, (''ok'' @ truncationNotice, True), (''ok'', True))]"
  by code_simp

theorem Run_terminal_witness:
  "\<exists>qs. saves (fst (snd sample_run)) = qs @ [fst (fst sample_run)] \<and> (\<forall>q \<in> set qs. pl_Status q = ''running'')"
  using Run_terminal [OF sample_run_eq] by (auto simp: sample_executor_def)

lemma sample_first_input:
  "(0, sample_call, (''{}'', False), (''{}'', False)) \<in> set (inputs sample_executor (''{}'', False) (fst (snd sample_run)))"
  by code_simp

theorem Run_validates_first_witness: "pl_Commands (fst (fst sample_run)) \<noteq> []"
  using Run_validates_first [OF sample_run_eq sample_first_input] by simp

lemma sample_second_input:
  "(1, reply_call sample_executor (fst (fst sample_run)), (''ok'' @ truncationNotice, True), (''ok'', True)) \<in>
     set (inputs sample_executor (the (ex_marshal sample_executor sample_meta), False) (fst (snd sample_run)))"
  by code_simp

theorem Run_inputs_witness:
  "length (pl_Commands (fst (fst sample_run))) = 1 \<or> 1 < length (pl_Commands (fst (fst sample_run)))"
  using Run_inputs [OF sample_run_eq sample_second_input] by auto

theorem Run_completed_witness:
  "\<exists>outs reply. runs (fst (snd sample_run)) = (0, sample_call, Some (hd outs)) # reply
     \<and> pl_Results (fst (fst sample_run)) = outs @ List.map_filter (\<lambda>(_, _, out). out) reply"
proof -
  have c: "pl_Commands (fst (fst sample_run)) = [sample_call]" by code_simp
  from Run_completed [OF sample_run_eq] obtain outs reply where o: "length outs = 1"
    "runs (fst (snd sample_run)) = map (\<lambda>(k, call, out). (int k, call, Some out)) (enumerate 0 (zip [sample_call] outs)) @ reply"
    "pl_Results (fst (fst sample_run)) = outs @ List.map_filter (\<lambda>(_, _, out). out) reply"
    unfolding c by auto
  obtain out where "outs = [out]" using o(1) by (cases outs) simp_all
  with o show ?thesis by (intro exI [of _ outs] exI [of _ reply]) simp
qed

end
