(* ===== verification/Persist.thy ===== *)
theory Persist
  imports Pipeline
begin

section \<open>Pipeline records on disk (internal/daemon/persist.go)\<close>

text \<open>
  \<open>PipelineStore\<close>: \<open>Save\<close> with its temp file and rename, \<open>LoadRunning\<close>, \<open>Prune\<close>, and the pruning
  goroutine behind \<open>StartPruning\<close>/\<open>StopPruning\<close>. The directory is a list of named entries in the
  order \<open>os.ReadDir\<close> gives (byte order of the names); the JSON codec is a pair of parameters, the
  clock and what the file system refuses are arguments. Times are nanoseconds.

  The interface the operations rest on is the directory (\<open>directory\<close>): put, delete and lookup with
  their laws, interpreted on the ordered list. The properties: a saved record is what a later load
  sees, a crash between the write and the rename loses nothing, pruning removes exactly the aged
  terminal records and the orphaned temp files and never a running one, and at most one pruning
  goroutine is ever alive.
\<close>

subsection \<open>The directory\<close>

record entry =
  en_dir :: bool
  en_readable :: bool
  en_data :: string
  en_mtime :: int

type_synonym dir = "(string \<times> entry) list"

fun put_file :: "string \<Rightarrow> entry \<Rightarrow> dir \<Rightarrow> dir" where
  "put_file n e [] = [(n, e)]"
| "put_file n e ((m, x) # d) =
     (if n = m then (n, e) # d else if n < m then (n, e) # (m, x) # d else (m, x) # put_file n e d)"

definition del_file :: "string \<Rightarrow> dir \<Rightarrow> dir" where
  "del_file n d = filter (\<lambda>(m, _). m \<noteq> n) d"

definition dir_ok :: "dir \<Rightarrow> bool" where
  "dir_ok d \<longleftrightarrow> sorted (map fst d) \<and> distinct (map fst d)"

locale directory =
  fixes put :: "'n \<Rightarrow> 'e \<Rightarrow> 'd \<Rightarrow> 'd" and del :: "'n \<Rightarrow> 'd \<Rightarrow> 'd" and look :: "'d \<Rightarrow> 'n \<Rightarrow> 'e option"
    and ok :: "'d \<Rightarrow> bool"
  assumes look_put: "ok d \<Longrightarrow> look (put n e d) = (look d)(n \<mapsto> e)"
    and look_del: "ok d \<Longrightarrow> look (del n d) = (look d)(n := None)"
    and put_ok: "ok d \<Longrightarrow> ok (put n e d)"
    and del_ok: "ok d \<Longrightarrow> ok (del n d)"
begin

text \<open>A rename is a put of the target and a delete of the source.\<close>

definition rename :: "'n \<Rightarrow> 'n \<Rightarrow> 'e \<Rightarrow> 'd \<Rightarrow> 'd" where
  "rename a b e d = put b e (del a d)"

lemma rename_ok: "ok d \<Longrightarrow> ok (rename a b e d)"
  by (simp add: rename_def put_ok del_ok)

lemma look_rename: "ok d \<Longrightarrow> look (rename a b e d) = ((look d)(a := None))(b \<mapsto> e)"
  by (simp add: rename_def look_put look_del del_ok)

lemma rename_other: "ok d \<Longrightarrow> n \<noteq> a \<Longrightarrow> n \<noteq> b \<Longrightarrow> look (rename a b e d) n = look d n"
  by (simp add: look_rename)

lemma write_rename:
  "ok d \<Longrightarrow> a \<noteq> b \<Longrightarrow> look d a = None \<Longrightarrow> look (rename a b e (put a x d)) = (look d)(b \<mapsto> e)"
  by (auto simp: look_rename put_ok look_put fun_eq_iff)

lemma put_del: "ok d \<Longrightarrow> look d a = None \<Longrightarrow> look (del a (put a x d)) = look d"
  by (auto simp: look_put look_del put_ok fun_eq_iff)

end

lemma put_file_set: "set (map fst (put_file n e d)) = insert n (set (map fst d))"
  by (induction n e d rule: put_file.induct) auto

lemma put_file_ok: "dir_ok d \<Longrightarrow> dir_ok (put_file n e d)"
proof (induction n e d rule: put_file.induct)
  case (1 n e)
  then show ?case by (simp add: dir_ok_def)
next
  case (2 n e m x d)
  then show ?case using put_file_set [of n e d] by (auto simp: dir_ok_def)
qed

lemma put_file_look: "dir_ok d \<Longrightarrow> map_of (put_file n e d) = (map_of d)(n \<mapsto> e)"
proof (induction n e d rule: put_file.induct)
  case (1 n e)
  show ?case by simp
next
  case (2 n e m x d)
  then show ?case by (auto simp: dir_ok_def fun_eq_iff)
qed

lemma del_file_names: "map fst (del_file n d) = filter (\<lambda>m. m \<noteq> n) (map fst d)"
  by (induction d) (auto simp: del_file_def)

lemma del_file_look: "map_of (del_file n d) = (map_of d)(n := None)"
  by (induction d) (auto simp: del_file_def fun_eq_iff)

lemma del_file_ok: "dir_ok d \<Longrightarrow> dir_ok (del_file n d)"
  by (simp add: dir_ok_def del_file_names sorted_wrt_filter)

interpretation files: directory put_file del_file map_of dir_ok
  by unfold_locales (simp_all add: put_file_look del_file_look put_file_ok del_file_ok)

definition rename_file :: "string \<Rightarrow> string \<Rightarrow> entry \<Rightarrow> dir \<Rightarrow> dir" where
  "rename_file a b e d = put_file b e (del_file a d)"

lemma rename_file_eq: "rename_file a b e d = files.rename a b e d"
  by (simp add: rename_file_def files.rename_def)

subsection \<open>Save and LoadRunning\<close>

datatype store_error =
    InvalidPipelineID string | StoreMkdir | StoreMarshal | StoreWrite | StoreRename | StoreReadDir

text \<open>What the file system does in one save; a failed write may leave a partial temp file.\<close>

record save_ops =
  so_mkdir :: bool
  so_write :: bool
  so_partial :: "entry option"
  so_rename :: bool
  so_now :: int

definition bad_id :: "string \<Rightarrow> bool" where
  "bad_id i \<longleftrightarrow> ContainsAny i [SLASH, BACKSLASH] \<or> Contains i ''..'' \<or> i = []"

definition tmp_name :: "string \<Rightarrow> string" where
  "tmp_name i = ''.tmp-'' @ i @ ''.json''"

definition final_name :: "string \<Rightarrow> string" where
  "final_name i = i @ ''.json''"

definition file_of :: "string \<Rightarrow> int \<Rightarrow> entry" where
  "file_of data t = \<lparr>en_dir = False, en_readable = True, en_data = data, en_mtime = t\<rparr>"

definition Save ::
    "(Pipeline \<Rightarrow> string option) \<Rightarrow> save_ops \<Rightarrow> Pipeline \<Rightarrow> dir \<Rightarrow> (store_error, unit) result \<times> dir" where
  "Save encode ops p d =
     (if bad_id (pl_ID p) then (Inl (InvalidPipelineID (pl_ID p)), d)
      else if \<not> so_mkdir ops then (Inl StoreMkdir, d)
      else (case encode p of
        None \<Rightarrow> (Inl StoreMarshal, d)
      | Some data \<Rightarrow>
          let tmp = tmp_name (pl_ID p); final = final_name (pl_ID p) in
          if \<not> so_write ops
          then (Inl StoreWrite, case so_partial ops of None \<Rightarrow> d | Some e \<Rightarrow> put_file tmp e d)
          else let e = file_of data (so_now ops); d1 = put_file tmp e d in
            if \<not> so_rename ops then (Inl StoreRename, del_file tmp d1)
            else (Inr (), rename_file tmp final e d1)))"

text \<open>The record files a reader considers, and the running ones among those it can parse.\<close>

definition record_file :: "string \<times> entry \<Rightarrow> bool" where
  "record_file f = (case f of (n, e) \<Rightarrow> \<not> en_dir e \<and> HasSuffix n ''.json'' \<and> \<not> HasPrefix n ''.tmp-'')"

definition read_record :: "(string \<Rightarrow> Pipeline option) \<Rightarrow> entry \<Rightarrow> Pipeline option" where
  "read_record decode e = (if en_readable e then decode (en_data e) else None)"

text \<open>The outcome of \<open>os.ReadDir\<close>: no such directory, an error, or the entries.\<close>

datatype dir_read = NoDir | DirError | Entries dir

definition LoadRunning :: "(string \<Rightarrow> Pipeline option) \<Rightarrow> dir_read \<Rightarrow> (store_error, Pipeline list) result" where
  "LoadRunning decode r =
     (case r of
        NoDir \<Rightarrow> Inr []
      | DirError \<Rightarrow> Inl StoreReadDir
      | Entries d \<Rightarrow>
          Inr (filter (\<lambda>p. pl_Status p = ''running'')
                (List.map_filter (\<lambda>f. if record_file f then read_record decode (snd f) else None) d)))"

lemma names_distinct:
  "tmp_name i \<noteq> final_name i" "tmp_name i = tmp_name j \<longleftrightarrow> i = j" "final_name i = final_name j \<longleftrightarrow> i = j"
  by (auto simp: tmp_name_def final_name_def dest: arg_cong [where f = length])

lemma final_name_tmp: "HasPrefix (final_name i) ''.tmp-'' \<longleftrightarrow> HasPrefix i ''.tmp-''"
proof
  assume "HasPrefix i ''.tmp-''"
  then show "HasPrefix (final_name i) ''.tmp-''" by (auto simp: HasPrefix_iff final_name_def)
next
  assume "HasPrefix (final_name i) ''.tmp-''"
  then obtain r where r: "i @ ''.json'' = ''.tmp-'' @ r" by (auto simp: HasPrefix_iff final_name_def)
  show "HasPrefix i ''.tmp-''"
  proof (cases "length i < 5")
    case True
    have "(i @ ''.json'') ! 4 = ''.json'' ! (4 - length i)" using True by (simp add: nth_append)
    moreover have "''.json'' ! (4 - length i) \<in> set ''.json''" by (rule nth_mem) simp
    moreover have "(i @ ''.json'') ! 4 = CHR ''-''" unfolding r by simp
    moreover have "CHR ''-'' \<notin> set ''.json''" by simp
    ultimately show ?thesis by metis
  next
    case False
    then have "take 5 i = take 5 (i @ ''.json'')" by simp
    also have "\<dots> = ''.tmp-''" unfolding r by simp
    finally show ?thesis by (simp add: HasPrefix_def numeral_eq_Suc)
  qed
qed

lemma Save_ok:
  assumes "Save encode ops p d = (Inr (), d')" "dir_ok d" "map_of d (tmp_name (pl_ID p)) = None"
  shows "dir_ok d' \<and> (\<exists>data. encode p = Some data \<and>
    map_of d' = (map_of d)(final_name (pl_ID p) \<mapsto> file_of data (so_now ops)))"
proof -
  from assms(1) obtain data where data: "encode p = Some data"
    "d' = files.rename (tmp_name (pl_ID p)) (final_name (pl_ID p)) (file_of data (so_now ops))
       (put_file (tmp_name (pl_ID p)) (file_of data (so_now ops)) d)"
    by (auto simp: Save_def Let_def rename_file_eq split: if_splits option.splits)
  then show ?thesis
    using files.write_rename [OF assms(2) names_distinct(1) assms(3)] files.rename_ok [OF files.put_ok [OF assms(2)]]
    by simp
qed

subsection \<open>Prune\<close>

definition tmpFileMaxAge :: int where
  "tmpFileMaxAge = minutes 5"

definition DefaultRetention :: int where
  "DefaultRetention = 30 * 24 * minutes 60"

text \<open>What the file system refuses: \<open>os.Stat\<close> and \<open>os.Remove\<close> on a name.\<close>

record prune_ops =
  po_stat :: "string \<Rightarrow> bool"
  po_remove :: "string \<Rightarrow> bool"

definition pruneAgedFile :: "(string \<Rightarrow> Pipeline option) \<Rightarrow> prune_ops \<Rightarrow> int \<Rightarrow> string \<times> entry \<Rightarrow> bool" where
  "pruneAgedFile decode ops cutoff f =
     (case read_record decode (snd f) of
        None \<Rightarrow> False
      | Some p \<Rightarrow>
          if pl_Status p = ''running'' \<or> \<not> pl_CreatedAt p < cutoff then False
          else po_remove ops (fst f))"

definition pruneOrphanedTemp :: "prune_ops \<Rightarrow> int \<Rightarrow> string \<times> entry \<Rightarrow> bool" where
  "pruneOrphanedTemp ops now f =
     (if \<not> po_stat ops (fst f) then False
      else if now - en_mtime (snd f) < tmpFileMaxAge then False
      else po_remove ops (fst f))"

text \<open>The loop over the entries read at the start: the two counts, and the directory after it.\<close>

fun prune_loop ::
    "(string \<Rightarrow> Pipeline option) \<Rightarrow> prune_ops \<Rightarrow> int \<Rightarrow> int \<Rightarrow> dir \<Rightarrow> nat \<times> nat \<times> dir \<Rightarrow> nat \<times> nat \<times> dir" where
  "prune_loop decode ops now cutoff [] acc = acc"
| "prune_loop decode ops now cutoff (f # fs) (aged, temp, d) =
     (if en_dir (snd f) \<or> \<not> HasSuffix (fst f) ''.json'' then prune_loop decode ops now cutoff fs (aged, temp, d)
      else if HasPrefix (fst f) ''.tmp-'' then
        (if pruneOrphanedTemp ops now f
         then prune_loop decode ops now cutoff fs (aged, Suc temp, del_file (fst f) d)
         else prune_loop decode ops now cutoff fs (aged, temp, d))
      else if pruneAgedFile decode ops cutoff f
      then prune_loop decode ops now cutoff fs (Suc aged, temp, del_file (fst f) d)
      else prune_loop decode ops now cutoff fs (aged, temp, d))"

definition pruneCounts ::
    "(string \<Rightarrow> Pipeline option) \<Rightarrow> prune_ops \<Rightarrow> int \<Rightarrow> int \<Rightarrow> dir_read \<Rightarrow> dir
      \<Rightarrow> (store_error, nat \<times> nat) result \<times> dir" where
  "pruneCounts decode ops now maxAge r d =
     (case r of
        NoDir \<Rightarrow> (Inr (0, 0), d)
      | DirError \<Rightarrow> (Inl StoreReadDir, d)
      | Entries es \<Rightarrow>
          (case prune_loop decode ops now (now - maxAge) es (0, 0, d) of
             (aged, temp, d') \<Rightarrow> (Inr (aged, temp), d')))"

definition Prune ::
    "(string \<Rightarrow> Pipeline option) \<Rightarrow> prune_ops \<Rightarrow> int \<Rightarrow> int \<Rightarrow> dir_read \<Rightarrow> dir
      \<Rightarrow> (store_error, nat) result \<times> dir" where
  "Prune decode ops now maxAge r d =
     (case pruneCounts decode ops now maxAge r d of
        (Inl e, d') \<Rightarrow> (Inl e, d')
      | (Inr (aged, temp), d') \<Rightarrow> (Inr (aged + temp), d'))"

text \<open>What pruning is for: the files it must remove.\<close>

definition prunable :: "(string \<Rightarrow> Pipeline option) \<Rightarrow> prune_ops \<Rightarrow> int \<Rightarrow> int \<Rightarrow> string \<times> entry \<Rightarrow> bool" where
  "prunable decode ops now maxAge f \<longleftrightarrow>
     \<not> en_dir (snd f) \<and> HasSuffix (fst f) ''.json'' \<and> po_remove ops (fst f) \<and>
     (if HasPrefix (fst f) ''.tmp-'' then po_stat ops (fst f) \<and> en_mtime (snd f) + tmpFileMaxAge \<le> now
      else \<exists>p. read_record decode (snd f) = Some p \<and> pl_Status p \<noteq> ''running'' \<and> pl_CreatedAt p + maxAge < now)"

lemma prune_loop_spec:
  "prune_loop decode ops now (now - maxAge) es (a, t, d) = (a', t', d') \<Longrightarrow>
     a' + t' = a + t + length (filter (prunable decode ops now maxAge) es)
     \<and> d' = filter (\<lambda>f. \<not> (\<exists>g \<in> set es. prunable decode ops now maxAge g \<and> fst g = fst f)) d"
proof (induction es arbitrary: a t d)
  case Nil
  then show ?case by simp
next
  case (Cons f es)
  have skip: ?case if "\<not> prunable decode ops now maxAge f"
    "prune_loop decode ops now (now - maxAge) es (a, t, d) = (a', t', d')"
    using Cons.IH [OF that(2)] that(1) by simp
  have del: ?case if p: "prunable decode ops now maxAge f" and x: "x + y = Suc (a + t)"
    and l: "prune_loop decode ops now (now - maxAge) es (x, y, del_file (fst f) d) = (a', t', d')" for x y
  proof -
    from Cons.IH [OF l] p x have "a' + t' = a + t + length (filter (prunable decode ops now maxAge) (f # es))" by simp
    moreover have "d' = filter (\<lambda>h. \<not> (\<exists>g \<in> set (f # es). prunable decode ops now maxAge g \<and> fst g = fst h)) d"
    proof -
      have "d' = filter (\<lambda>h. \<not> (\<exists>g \<in> set es. prunable decode ops now maxAge g \<and> fst g = fst h)) (del_file (fst f) d)"
        using Cons.IH [OF l] by blast
      also have "\<dots> = filter (\<lambda>h. \<not> (\<exists>g \<in> set (f # es). prunable decode ops now maxAge g \<and> fst g = fst h)) d"
        unfolding del_file_def filter_filter by (rule filter_cong) (use p in auto)
      finally show ?thesis .
    qed
    ultimately show ?thesis by blast
  qed
  show ?case
  proof (cases "en_dir (snd f) \<or> \<not> HasSuffix (fst f) ''.json''")
    case True
    with Cons.prems have "prune_loop decode ops now (now - maxAge) es (a, t, d) = (a', t', d')"
      "\<not> prunable decode ops now maxAge f" by (auto simp: prunable_def)
    then show ?thesis by (rule skip [rotated])
  next
    case json: False
    show ?thesis
    proof (cases "HasPrefix (fst f) ''.tmp-''")
      case True
      with json have iff: "prunable decode ops now maxAge f \<longleftrightarrow> pruneOrphanedTemp ops now f"
        by (auto simp: prunable_def pruneOrphanedTemp_def)
      show ?thesis
      proof (cases "pruneOrphanedTemp ops now f")
        case o: True
        with Cons.prems json True
        have l: "prune_loop decode ops now (now - maxAge) es (a, Suc t, del_file (fst f) d) = (a', t', d')" by simp
        show ?thesis by (rule del [OF _ _ l]) (simp_all add: iff o)
      next
        case o: False
        with Cons.prems json True
        have l: "prune_loop decode ops now (now - maxAge) es (a, t, d) = (a', t', d')" by simp
        show ?thesis by (rule skip [OF _ l]) (simp add: iff o)
      qed
    next
      case False
      with json have iff: "prunable decode ops now maxAge f \<longleftrightarrow> pruneAgedFile decode ops (now - maxAge) f"
        by (auto simp: prunable_def pruneAgedFile_def split: option.splits)
      show ?thesis
      proof (cases "pruneAgedFile decode ops (now - maxAge) f")
        case o: True
        with Cons.prems json False
        have l: "prune_loop decode ops now (now - maxAge) es (Suc a, t, del_file (fst f) d) = (a', t', d')" by simp
        show ?thesis by (rule del [OF _ _ l]) (simp_all add: iff o)
      next
        case o: False
        with Cons.prems json False
        have l: "prune_loop decode ops now (now - maxAge) es (a, t, d) = (a', t', d')" by simp
        show ?thesis by (rule skip [OF _ l]) (simp add: iff o)
      qed
    qed
  qed
qed

text \<open>
  C25. Pruning removes exactly what it must: over the directory it read, the files left are those
  that are neither aged terminal records nor orphaned temp files, the count returned is the number
  of files removed, and in particular no record that reads as running is ever removed.
\<close>

theorem Prune_exact:
  assumes "Prune decode ops now maxAge (Entries d) d = (Inr n, d')" "dir_ok d"
  shows "d' = filter (\<lambda>f. \<not> prunable decode ops now maxAge f) d
    \<and> n + length d' = length d
    \<and> (\<forall>(m, e) \<in> set d. \<not> HasPrefix m ''.tmp-'' \<and> (\<exists>p. read_record decode e = Some p \<and> pl_Status p = ''running'')
         \<longrightarrow> (m, e) \<in> set d')"
proof -
  obtain aged temp where l: "prune_loop decode ops now (now - maxAge) d (0, 0, d) = (aged, temp, d')" "n = aged + temp"
    using assms(1) by (auto simp: Prune_def pruneCounts_def split: prod.splits)
  note spec = prune_loop_spec [OF l(1)]
  have uniq: "g = f" if "g \<in> set d" "f \<in> set d" "fst g = fst f" for f g
    using that assms(2) unfolding dir_ok_def by (metis eq_key_imp_eq_value prod.collapse)
  have "(\<exists>g \<in> set d. prunable decode ops now maxAge g \<and> fst g = fst f) \<longleftrightarrow> prunable decode ops now maxAge f"
    if "f \<in> set d" for f
    using uniq that by blast
  then have d': "d' = filter (\<lambda>f. \<not> prunable decode ops now maxAge f) d"
    using spec by (simp cong: filter_cong)
  moreover have "n + length d' = length d"
    using spec l(2) sum_length_filter_compl [of "prunable decode ops now maxAge" d] d' by simp
  ultimately show ?thesis by (auto simp: prunable_def)
qed

definition sample_done :: Pipeline where
  "sample_done = sample_pipeline\<lparr>pl_Status := ''failed''\<rparr>"

definition sample_dir :: dir where
  "sample_dir = [(''a.json'', file_of ''old'' 0), (''b.json'', file_of ''live'' 0)]"

definition sample_decode :: "string \<Rightarrow> Pipeline option" where
  "sample_decode s = Some (if s = ''old'' then sample_done else sample_pipeline)"

lemma sample_dir_ok: "dir_ok sample_dir"
  by code_simp

lemma sample_prune:
  "Prune sample_decode \<lparr>po_stat = (\<lambda>_. True), po_remove = (\<lambda>_. True)\<rparr> 100 10 (Entries sample_dir) sample_dir =
     (Inr 1, [(''b.json'', file_of ''live'' 0)])"
  by code_simp

theorem Prune_exact_witness: "1 + length [(''b.json'', file_of ''live'' 0)] = length sample_dir"
  by (rule Prune_exact [THEN conjunct2, THEN conjunct1, OF sample_prune sample_dir_ok])

text \<open>
  Saving and recovering: after a save of a running pipeline succeeded, loading the directory
  returns that record whenever the codec reads back what it wrote; and a save that failed at any
  point leaves every record file as it was.
\<close>

theorem Save_then_load:
  assumes "Save encode ops p d = (r, d')" "dir_ok d" "map_of d (tmp_name (pl_ID p)) = None"
    and "\<forall>data. encode p = Some data \<longrightarrow> decode data = Some p"
    and "pl_Status p = ''running''" "\<not> HasPrefix (pl_ID p) ''.tmp-''"
    and "LoadRunning decode (Entries d') = Inr ps"
  shows "(r = Inr () \<longrightarrow> p \<in> set ps) \<and> (\<not> is_ok r \<longrightarrow>
     (\<forall>n. n \<noteq> tmp_name (pl_ID p) \<longrightarrow> map_of d' n = map_of d n))"
proof
  show "r = Inr () \<longrightarrow> p \<in> set ps"
  proof
    assume "r = Inr ()"
    with Save_ok [OF _ assms(2,3)] assms(1) obtain data where d: "dir_ok d'" "encode p = Some data"
      "map_of d' = (map_of d)(final_name (pl_ID p) \<mapsto> file_of data (so_now ops))" by blast
    then have "(final_name (pl_ID p), file_of data (so_now ops)) \<in> set d'"
      by (intro map_of_SomeD) simp
    moreover have "record_file (final_name (pl_ID p), file_of data (so_now ops))"
      using assms(6) by (simp add: record_file_def file_of_def final_name_tmp) (simp add: final_name_def)
    moreover have "read_record decode (file_of data (so_now ops)) = Some p"
      using assms(4) d(2) by (simp add: read_record_def file_of_def)
    ultimately show "p \<in> set ps"
      using assms(5,7) by (force simp: LoadRunning_def List.map_filter_def)
  qed
  show "\<not> is_ok r \<longrightarrow> (\<forall>n. n \<noteq> tmp_name (pl_ID p) \<longrightarrow> map_of d' n = map_of d n)"
    using assms(1,2)
    by (auto simp: Save_def Let_def files.look_put files.look_del put_file_ok
        split: if_splits option.splits)
qed

definition sample_save_ops :: save_ops where
  "sample_save_ops = \<lparr>so_mkdir = True, so_write = True, so_partial = None, so_rename = True, so_now = 5\<rparr>"

lemma sample_save:
  "Save (\<lambda>_. Some ''live'') sample_save_ops sample_pipeline [] = (Inr (), [(''1.json'', file_of ''live'' 5)])"
  by code_simp

lemma sample_recovered: "LoadRunning sample_decode (Entries [(''1.json'', file_of ''live'' 5)]) = Inr [sample_pipeline]"
  by code_simp

theorem Save_then_load_witness: "sample_pipeline \<in> set [sample_pipeline]"
  using Save_then_load [OF sample_save _ _ _ _ _ sample_recovered]
  by (simp add: dir_ok_def sample_decode_def sample_pipeline_def)

subsection \<open>The pruning goroutine\<close>

text \<open>
  The steps of \<open>StartPruning\<close>, \<open>StopPruning\<close> and the goroutines, interleaved by the scheduler. A
  goroutine is its stop channel (a number); the wait group counts the live ones; \<open>StopPruning\<close> holds
  the mutex from the close of the channel to the return of \<open>Wait\<close>, so no other call runs between.
\<close>

datatype prune_lock = Unlocked | Waiting

record prune_state =
  ps_stop :: "nat option"
  ps_fresh :: nat
  ps_closed :: "nat list"
  ps_live :: "nat list"
  ps_lock :: prune_lock

definition prune_init :: prune_state where
  "prune_init = \<lparr>ps_stop = None, ps_fresh = 0, ps_closed = [], ps_live = [], ps_lock = Unlocked\<rparr>"

inductive prune_step :: "prune_state \<Rightarrow> prune_state \<Rightarrow> bool" where
  StartPruning_again: "ps_lock s = Unlocked \<Longrightarrow> ps_stop s = Some c \<Longrightarrow> prune_step s s"
| StartPruning: "ps_lock s = Unlocked \<Longrightarrow> ps_stop s = None \<Longrightarrow>
    prune_step s (s\<lparr>ps_stop := Some (ps_fresh s), ps_live := ps_fresh s # ps_live s, ps_fresh := Suc (ps_fresh s)\<rparr>)"
| StopPruning_idle: "ps_lock s = Unlocked \<Longrightarrow> ps_stop s = None \<Longrightarrow> prune_step s s"
| StopPruning: "ps_lock s = Unlocked \<Longrightarrow> ps_stop s = Some c \<Longrightarrow>
    prune_step s (s\<lparr>ps_stop := None, ps_closed := c # ps_closed s, ps_lock := Waiting\<rparr>)"
| StopPruning_return: "ps_lock s = Waiting \<Longrightarrow> ps_live s = [] \<Longrightarrow> prune_step s (s\<lparr>ps_lock := Unlocked\<rparr>)"
| pruneTick: "c \<in> set (ps_live s) \<Longrightarrow> prune_step s s"
| goroutine_exit: "c \<in> set (ps_live s) \<Longrightarrow> c \<in> set (ps_closed s) \<Longrightarrow>
    prune_step s (s\<lparr>ps_live := remove1 c (ps_live s)\<rparr>)"

inductive prune_reach :: "prune_state \<Rightarrow> bool" where
  init: "prune_reach prune_init"
| step: "prune_reach s \<Longrightarrow> prune_step s s' \<Longrightarrow> prune_reach s'"

inductive_cases prune_stepE: "prune_step s s'"

definition prune_inv :: "prune_state \<Rightarrow> bool" where
  "prune_inv s \<longleftrightarrow>
     (\<forall>c \<in> set (ps_closed s). c < ps_fresh s) \<and>
     (case ps_stop s of
        None \<Rightarrow> length (ps_live s) \<le> 1 \<and> set (ps_live s) \<subseteq> set (ps_closed s)
                \<and> (ps_lock s = Unlocked \<longrightarrow> ps_live s = [])
      | Some c \<Rightarrow> ps_lock s = Unlocked \<and> ps_live s = [c] \<and> c \<notin> set (ps_closed s) \<and> c < ps_fresh s)"

lemma prune_inv_step: "prune_inv s \<Longrightarrow> prune_step s s' \<Longrightarrow> prune_inv s'"
proof (erule prune_stepE)
  fix c assume i: "prune_inv s" and s': "s' = s\<lparr>ps_live := remove1 c (ps_live s)\<rparr>"
    and c: "c \<in> set (ps_live s)" "c \<in> set (ps_closed s)"
  then have "ps_stop s = None" by (auto simp: prune_inv_def split: option.splits)
  with i c obtain "ps_live s = [c]" by (cases "ps_live s") (auto simp: prune_inv_def)
  with i s' \<open>ps_stop s = None\<close> show "prune_inv s'" by (simp add: prune_inv_def)
qed (auto simp: prune_inv_def split: option.splits)

lemma prune_reach_inv: "prune_reach s \<Longrightarrow> prune_inv s"
proof (induction rule: prune_reach.induct)
  case init
  show ?case by (simp add: prune_init_def prune_inv_def)
next
  case (step s s')
  then show ?case by (blast intro: prune_inv_step)
qed

text \<open>
  In every reachable state at most one pruning goroutine is alive, it is alive with an open
  channel exactly while the store holds its channel, a returned stop has none alive, and a waiting
  stop is never stuck: it can return or its goroutine can exit.
\<close>

theorem prune_goroutines:
  assumes "prune_reach s"
  shows "length (ps_live s) \<le> 1
    \<and> (ps_lock s = Unlocked \<longrightarrow> ps_live s = (case ps_stop s of None \<Rightarrow> [] | Some c \<Rightarrow> [c]))
    \<and> (ps_lock s = Waiting \<longrightarrow> prune_step s (s\<lparr>ps_lock := Unlocked\<rparr>) \<or>
        (\<exists>c. ps_live s = [c] \<and> prune_step s (s\<lparr>ps_live := []\<rparr>)))"
proof -
  have i: "prune_inv s" by (rule prune_reach_inv [OF assms])
  have "prune_step s (s\<lparr>ps_lock := Unlocked\<rparr>) \<or> (\<exists>c. ps_live s = [c] \<and> prune_step s (s\<lparr>ps_live := []\<rparr>))"
    if w: "ps_lock s = Waiting"
  proof (cases "ps_live s")
    case Nil
    with w show ?thesis by (simp add: StopPruning_return)
  next
    case (Cons c cs)
    with i w have "cs = []" "c \<in> set (ps_closed s)" by (auto simp: prune_inv_def split: option.splits)
    with Cons goroutine_exit [of c s] show ?thesis by simp
  qed
  with i show ?thesis by (auto simp: prune_inv_def split: option.splits)
qed

theorem prune_goroutines_witness: "length (ps_live prune_init) \<le> 1"
  using prune_goroutines [OF prune_reach.init] by blast

end
