(* ===== verification/Contacts.thy ===== *)
theory Contacts
  imports PathMatch
begin

section \<open>Contacts and permissions (internal/contacts)\<close>

text \<open>
  The address book: \<open>Permission\<close> and its string form, \<open>Contact\<close> with \<open>Validate\<close>, \<open>Find\<close>,
  \<open>ResolveAddress(es)\<close> and \<open>CheckNameConflict\<close>, and the \<open>Store\<close> with \<open>Add\<close>, \<open>Remove\<close>, \<open>Load\<close> and
  \<open>FindByAddress\<close>. The store's file holds the contact list that was marshalled last; what the file
  system refuses is an argument. Lower-casing of non-ASCII runes is the parameter \<open>ulow\<close>, case folding
  \<open>ufold\<close>.

  The properties: a store changed only through its operations never lets a pattern grant write or
  execute, so an executable permission belongs to the exact address; the lookup precedence; names
  never resolve ambiguously; permission strings round trip.
\<close>

subsection \<open>ASCII bytes and runes\<close>

lemma ascii_of_runes: "byte c < 0x80 \<Longrightarrow> c \<in> set (of_runes rs) \<longleftrightarrow> byte c \<in> set rs"
proof
  assume b: "byte c < 0x80" and "c \<in> set (of_runes rs)"
  then obtain r where r: "r \<in> set rs" "c \<in> set (encode_rune r)" by (auto simp: of_runes_def)
  with b encode_rune_bytes_high have "r < 0x80" by fastforce
  with r show "byte c \<in> set rs" by (simp add: encode_rune_def of_bytes_def)
next
  assume b: "byte c < 0x80" and "byte c \<in> set rs"
  moreover have "c \<in> set (encode_rune (byte c))" using b by (simp add: encode_rune_def of_bytes_def)
  ultimately show "c \<in> set (of_runes rs)" unfolding of_runes_def by (metis UN_I set_concat set_map image_eqI)
qed

lemma decode_short: "snd (decode_rune (a # bs)) \<le> 1 \<Longrightarrow> \<not> a < 0x80 \<Longrightarrow> fst (decode_rune (a # bs)) = RuneError"
proof -
  assume "snd (decode_rune (a # bs)) \<le> 1" "\<not> a < 0x80"
  moreover have "snd (decode2 x ys) \<le> 1 \<longrightarrow> fst (decode2 x ys) = RuneError" for x ys
    by (induction x ys rule: decode2.induct) simp_all
  moreover have "snd (decode3 x ys) \<le> 1 \<longrightarrow> fst (decode3 x ys) = RuneError" for x ys
    by (induction x ys rule: decode3.induct) simp_all
  moreover have "snd (decode4 x ys) \<le> 1 \<longrightarrow> fst (decode4 x ys) = RuneError" for x ys
    by (induction x ys rule: decode4.induct) simp_all
  ultimately show ?thesis by (auto simp: decode_rune.simps split: if_splits)
qed

lemma rune_chunk_bad: "(p, r, False) \<in> set (rune_chunks s) \<Longrightarrow> r = RuneError \<and> (\<forall>c \<in> set p. \<not> byte c < 0x80)"
proof (induction s rule: rune_chunks.induct)
  case 1
  then show ?case by simp
next
  case (2 c cs)
  let ?w = "rune_width (c # cs)"
  show ?case
  proof (cases "(p, r, False) \<in> set (rune_chunks (drop ?w (c # cs)))")
    case True
    with 2 show ?thesis by blast
  next
    case False
    with "2.prems" have e: "p = take ?w (c # cs)" "r = fst (decode_rune (bytes (c # cs)))" "?w = 1" "\<not> byte c < 0x80"
      by (auto simp: Let_def rune_chunks.simps(2) [of c cs] simp del: take_Suc_Cons)
    then have "snd (decode_rune (bytes (c # cs))) \<le> 1" by (simp add: rune_width_def)
    with e decode_short [of "byte c" "bytes cs"] show ?thesis by (simp add: bytes_def)
  qed
qed

lemma ascii_runes: "byte c < 0x80 \<Longrightarrow> byte c \<in> set (runes s) \<longleftrightarrow> c \<in> set s"
proof
  assume b: "byte c < 0x80" and "byte c \<in> set (runes s)"
  then obtain p ok where p: "(p, byte c, ok) \<in> set (rune_chunks s)" by (auto simp: runes_def)
  then have "ok" using rune_chunk_bad [of p "byte c" s] b by (cases ok) (auto simp: RuneError_def)
  with rune_chunk_valid [OF p] b have "p = [c]" by (simp add: encode_rune_def of_bytes_def)
  then have "c \<in> set (concat (map fst (rune_chunks s)))" using p by force
  then show "c \<in> set s" by (simp add: concat_rune_chunks)
next
  assume b: "byte c < 0x80" and "c \<in> set s"
  then have "c \<in> set (concat (map fst (rune_chunks s)))" by (simp add: concat_rune_chunks)
  then obtain p r ok where p: "(p, r, ok) \<in> set (rune_chunks s)" "c \<in> set p" by auto
  then have ok: "ok" using rune_chunk_bad [of p r s] b by (cases ok) auto
  with rune_chunk_valid [OF p(1)] p(2) have "c \<in> set (encode_rune r)" by simp
  with b encode_rune_bytes_high have "r < 0x80" by fastforce
  with \<open>c \<in> set (encode_rune r)\<close> have "r = byte c" by (simp add: encode_rune_def of_bytes_def)
  with p(1) show "byte c \<in> set (runes s)" by (force simp: runes_def)
qed

text \<open>Lower-casing creates no ASCII byte of \<open>bs\<close> out of a non-ASCII rune.\<close>

definition ulow_keeps :: "char list \<Rightarrow> (nat \<Rightarrow> nat) \<Rightarrow> bool" where
  "ulow_keeps bs ulow \<longleftrightarrow> (\<forall>r \<ge> 0x80. ulow r \<notin> byte ` set bs)"

lemma ToLower_byte:
  assumes "ulow_keeps bs ulow" "c \<in> set bs" "byte c < 0x80"
  shows "c \<in> set (ToLower ulow s) \<longleftrightarrow>
    (c \<in> set s \<and> \<not> (65 \<le> byte c \<and> byte c \<le> 90))
    \<or> (97 \<le> byte c \<and> byte c \<le> 122 \<and> char_of (byte c - 32) \<in> set s)"
proof -
  have "byte c \<in> lower_rune ulow ` set (runes s) \<longleftrightarrow>
     (byte c \<in> set (runes s) \<and> \<not> (65 \<le> byte c \<and> byte c \<le> 90))
     \<or> (97 \<le> byte c \<and> byte c \<le> 122 \<and> byte c - 32 \<in> set (runes s))" (is "?L \<longleftrightarrow> ?R")
  proof
    assume ?L
    then obtain r where r: "r \<in> set (runes s)" "byte c = lower_rune ulow r" by blast
    have "ulow r \<noteq> byte c" if "\<not> r < 128"
      using assms(1,2) that unfolding ulow_keeps_def by (metis imageI not_le)
    with r assms(3) show ?R by (auto simp: lower_rune_def RuneError_def split: if_splits)
  next
    assume ?R
    then show ?L
    proof
      assume "byte c \<in> set (runes s) \<and> \<not> (65 \<le> byte c \<and> byte c \<le> 90)"
      then show ?L using assms(3) by (intro image_eqI [of _ _ "byte c"]) (auto simp: lower_rune_def)
    next
      assume "97 \<le> byte c \<and> byte c \<le> 122 \<and> byte c - 32 \<in> set (runes s)"
      then show ?L by (intro image_eqI [of _ _ "byte c - 32"]) (auto simp: lower_rune_def)
    qed
  qed
  moreover have "byte c - 32 = byte (char_of (byte c - 32))"
    using assms(3) by simp
  ultimately show ?thesis
    using assms(3) ascii_runes [of c s] ascii_runes [of "char_of (byte c - 32)" s]
    by (auto simp: ToLower_def ascii_of_runes)
qed

subsection \<open>Permissions\<close>

record Permission =
  pm_Read :: bool
  pm_Write :: bool
  pm_Execute :: bool

datatype perm_error = PermLength | PermRead | PermWrite | PermExecute | PermIndex

text \<open>One \<open>switch\<close> on a byte; \<open>PermIndex\<close> is the index panic of a string that got shorter.\<close>

definition perm_flag :: "string \<Rightarrow> nat \<Rightarrow> char \<Rightarrow> perm_error \<Rightarrow> (perm_error, bool) result" where
  "perm_flag s i ch e =
     (if length s \<le> i then Inl PermIndex
      else if s ! i = ch then Inr True
      else if s ! i = CHR ''-'' then Inr False
      else Inl e)"

definition ParsePermission :: "(nat \<Rightarrow> nat) \<Rightarrow> string \<Rightarrow> (perm_error, Permission) result" where
  "ParsePermission ulow s0 =
     (if length s0 \<noteq> 3 then Inl PermLength
      else let s = ToLower ulow s0 in
        and_then (perm_flag s 0 (CHR ''r'') PermRead) (\<lambda>r.
        and_then (perm_flag s 1 (CHR ''w'') PermWrite) (\<lambda>w.
        and_then (perm_flag s 2 (CHR ''x'') PermExecute) (\<lambda>x.
          Inr \<lparr>pm_Read = r, pm_Write = w, pm_Execute = x\<rparr>))))"

definition perm_String :: "Permission \<Rightarrow> string" where
  "perm_String p =
     [if pm_Read p then CHR ''r'' else CHR ''-'', if pm_Write p then CHR ''w'' else CHR ''-'',
      if pm_Execute p then CHR ''x'' else CHR ''-'']"

definition no_permission :: Permission where
  "no_permission = \<lparr>pm_Read = False, pm_Write = False, pm_Execute = False\<rparr>"

subsection \<open>Contacts\<close>

record Contact =
  co_Name :: string
  co_Email :: string
  co_Aliases :: "string list"
  co_GPGKeyID :: string
  co_Notes :: string
  co_Permissions :: "(string \<times> string) list"

definition IsPattern :: "Contact \<Rightarrow> bool" where
  "IsPattern c \<longleftrightarrow> ContainsAny (co_Email c) ''*?[''"

definition CheckPermission :: "(nat \<Rightarrow> nat) \<Rightarrow> Contact \<Rightarrow> string \<Rightarrow> Permission" where
  "CheckPermission ulow c identityEmail =
     (case map_of (co_Permissions c) (ToLower ulow identityEmail) of
        None \<Rightarrow> no_permission
      | Some perm \<Rightarrow> (case ParsePermission ulow perm of Inr p \<Rightarrow> p | Inl _ \<Rightarrow> no_permission))"

datatype contact_error =
    NameRequired | EmailRequired | EmailNoAt string | BadPattern | PatternGrants string
  | NameConflict string string | AliasConflict string string
  | ContactNotFound string | ContactWriteFailed
  | EmptyAddress | NoContact string | AmbiguousContact string

definition Validate_contact :: "Contact \<Rightarrow> (contact_error, unit) result" where
  "Validate_contact c =
     (if TrimSpace (co_Name c) = [] then Inl NameRequired
      else if TrimSpace (co_Email c) = [] then Inl EmailRequired
      else if \<not> Contains (co_Email c) ''@'' then Inl (EmailNoAt (co_Email c))
      else if IsPattern c then
        (case path_Match (co_Email c) ''probe'' of
           Inl _ \<Rightarrow> Inl BadPattern
         | Inr _ \<Rightarrow>
             each_ok (\<lambda>(_, perm). check (\<not> ContainsAny perm ''wWxX'') (PatternGrants perm)) (co_Permissions c))
      else Inr ())"

definition matchesContact :: "(nat \<Rightarrow> nat) \<Rightarrow> string \<Rightarrow> Contact \<Rightarrow> bool" where
  "matchesContact ulow query c \<longleftrightarrow>
     (if ToLower ulow (co_Name c) = query then True
      else if ToLower ulow (co_Email c) = query then True
      else list_ex (\<lambda>alias. ToLower ulow alias = query) (co_Aliases c))"

definition Find_contacts :: "(nat \<Rightarrow> nat) \<Rightarrow> Contact list \<Rightarrow> string \<Rightarrow> Contact list" where
  "Find_contacts ulow cs query =
     (let q = ToLower ulow (TrimSpace query) in if q = [] then [] else filter (matchesContact ulow q) cs)"

definition ResolveAddress ::
    "(nat \<Rightarrow> nat) \<Rightarrow> Contact list \<Rightarrow> string \<Rightarrow> (contact_error, string) result \<times> Contact list" where
  "ResolveAddress ulow cs token0 =
     (let token = TrimSpace token0 in
      if token = [] then (Inl EmptyAddress, [])
      else if Contains token ''@'' then (Inr token, [])
      else (case Find_contacts ulow cs token of
              [] \<Rightarrow> (Inl (NoContact token), [])
            | [m] \<Rightarrow> (Inr (co_Email m), [m])
            | ms \<Rightarrow> (Inl (AmbiguousContact token), ms)))"

fun resolve_tokens :: "(nat \<Rightarrow> nat) \<Rightarrow> Contact list \<Rightarrow> string list \<Rightarrow> (contact_error, string list) result" where
  "resolve_tokens ulow cs [] = Inr []"
| "resolve_tokens ulow cs (t # ts) =
     (if TrimSpace t = [] then resolve_tokens ulow cs ts
      else and_then (fst (ResolveAddress ulow cs (TrimSpace t))) (\<lambda>a.
           and_then (resolve_tokens ulow cs ts) (\<lambda>as. Inr (a # as))))"

definition ResolveAddresses :: "(nat \<Rightarrow> nat) \<Rightarrow> Contact list \<Rightarrow> string \<Rightarrow> (contact_error, string) result" where
  "ResolveAddresses ulow cs raw =
     (if raw = [] then Inr []
      else and_then (resolve_tokens ulow cs (Split raw (CHR '',''))) (\<lambda>as. Inr (Join as '','')))"

definition owned_names :: "(nat \<Rightarrow> nat) \<Rightarrow> Contact list \<Rightarrow> (string \<times> string) list" where
  "owned_names ulow es =
     concat (map (\<lambda>e. (ToLower ulow (co_Name e), co_Name e)
                      # map (\<lambda>a. (ToLower ulow a, co_Name e)) (co_Aliases e)) es)"

text \<open>The map keeps the last owner written under a name.\<close>

definition CheckNameConflict :: "(nat \<Rightarrow> nat) \<Rightarrow> Contact list \<Rightarrow> Contact \<Rightarrow> (contact_error, unit) result" where
  "CheckNameConflict ulow existing c =
     (let names = map_of (rev (owned_names ulow existing)) in
      case names (ToLower ulow (co_Name c)) of
        Some owner \<Rightarrow> Inl (NameConflict (co_Name c) owner)
      | None \<Rightarrow>
          each_ok (\<lambda>a. case names (ToLower ulow a) of
                     Some owner \<Rightarrow> Inl (AliasConflict a owner) | None \<Rightarrow> Inr ()) (co_Aliases c))"

subsection \<open>The store\<close>

text \<open>The loaded contacts, and what the file holds (\<open>None\<close>: no file).\<close>

record Store =
  s_contacts :: "Contact list"
  s_file :: "Contact list option"

record write_ops =
  wo_mkdir :: bool
  wo_marshal :: bool
  wo_write :: bool
  wo_rename :: bool

definition write_store :: "write_ops \<Rightarrow> Store \<Rightarrow> contact_error option \<times> Store" where
  "write_store ops s =
     (if wo_mkdir ops \<and> wo_marshal ops \<and> wo_write ops \<and> wo_rename ops
      then (None, s\<lparr>s_file := Some (s_contacts s)\<rparr>) else (Some ContactWriteFailed, s))"

definition normalize_contact :: "Contact \<Rightarrow> Contact" where
  "normalize_contact c =
     c\<lparr>co_Name := TrimSpace (co_Name c), co_Email := TrimSpace (co_Email c),
       co_Aliases := filter (\<lambda>a. a \<noteq> []) (map TrimSpace (co_Aliases c)),
       co_GPGKeyID := TrimSpace (co_GPGKeyID c)\<rparr>"

definition Add :: "(nat \<Rightarrow> nat) \<Rightarrow> write_ops \<Rightarrow> Contact \<Rightarrow> Store \<Rightarrow> (Contact \<times> contact_error option) \<times> Store" where
  "Add ulow ops c0 s =
     (let c = normalize_contact c0 in
      case Validate_contact c of
        Inl e \<Rightarrow> ((c, Some e), s)
      | Inr _ \<Rightarrow>
          (case CheckNameConflict ulow (s_contacts s) c of
             Inl e \<Rightarrow> ((c, Some e), s)
           | Inr _ \<Rightarrow>
               (case write_store ops (s\<lparr>s_contacts := s_contacts s @ [c]\<rparr>) of
                  (e, s') \<Rightarrow> ((c, e), s'))))"

fun remove_first :: "(Contact \<Rightarrow> bool) \<Rightarrow> Contact list \<Rightarrow> Contact list option" where
  "remove_first P [] = None"
| "remove_first P (c # cs) = (if P c then Some cs else map_option (Cons c) (remove_first P cs))"

definition Remove :: "(nat \<Rightarrow> nat) \<Rightarrow> write_ops \<Rightarrow> string \<Rightarrow> Store \<Rightarrow> contact_error option \<times> Store" where
  "Remove ufold ops name0 s =
     (let name = TrimSpace name0 in
      case remove_first (\<lambda>c. EqualFold ufold (co_Name c) name) (s_contacts s) of
        None \<Rightarrow> (Some (ContactNotFound name), s)
      | Some cs \<Rightarrow> write_store ops (s\<lparr>s_contacts := cs\<rparr>))"

text \<open>
  \<open>err\<close> is what reading or parsing the file ends in, when it fails; a missing file is an empty book. (Books edited by
  another program are read by \<open>load_store\<close> of the tools.)
\<close>

datatype book_error = BookRead string | BookParse string

definition Load :: "book_error option \<Rightarrow> Store \<Rightarrow> book_error option \<times> Store" where
  "Load err s =
     (case err of
        Some e \<Rightarrow> (Some e, s)
      | None \<Rightarrow> (None, s\<lparr>s_contacts := (case s_file s of None \<Rightarrow> [] | Some cs \<Rightarrow> cs)\<rparr>))"

fun find_address :: "(nat \<Rightarrow> nat) \<Rightarrow> string \<Rightarrow> (Contact \<times> nat) option \<Rightarrow> Contact list \<Rightarrow> Contact option" where
  "find_address ulow addr best [] = map_option fst best"
| "find_address ulow addr best (c # cs) =
     (if co_Email c = [] then find_address ulow addr best cs
      else if \<not> IsPattern c then
        (if ToLower ulow (co_Email c) = addr then Some c else find_address ulow addr best cs)
      else if path_Match (ToLower ulow (co_Email c)) addr \<noteq> Inr True then find_address ulow addr best cs
      else if (case best of None \<Rightarrow> True | Some (_, bestLen) \<Rightarrow> RuneCount (co_Email c) > bestLen)
      then find_address ulow addr (Some (c, RuneCount (co_Email c))) cs
      else find_address ulow addr best cs)"

definition FindByAddress :: "(nat \<Rightarrow> nat) \<Rightarrow> Store \<Rightarrow> string \<Rightarrow> Contact option" where
  "FindByAddress ulow s addr0 =
     (let addr = ToLower ulow (TrimSpace addr0) in
      if addr = [] then None else find_address ulow addr None (s_contacts s))"

text \<open>The states the operations reach from a new store.\<close>

inductive store_reach :: "(nat \<Rightarrow> nat) \<Rightarrow> (nat \<Rightarrow> nat) \<Rightarrow> Store \<Rightarrow> bool" for ulow ufold where
  NewStore: "store_reach ulow ufold \<lparr>s_contacts = [], s_file = None\<rparr>"
| add: "store_reach ulow ufold s \<Longrightarrow> store_reach ulow ufold (snd (Add ulow ops c s))"
| remove: "store_reach ulow ufold s \<Longrightarrow> store_reach ulow ufold (snd (Remove ufold ops n s))"
| load: "store_reach ulow ufold s \<Longrightarrow> store_reach ulow ufold (snd (Load err s))"

subsection \<open>The invariant of a store\<close>

definition contact_ok :: "Contact \<Rightarrow> bool" where
  "contact_ok c \<longleftrightarrow> Validate_contact c = Inr ()"

definition name_tokens :: "(nat \<Rightarrow> nat) \<Rightarrow> Contact \<Rightarrow> string set" where
  "name_tokens ulow c = ToLower ulow ` insert (co_Name c) (set (co_Aliases c))"

definition contacts_ok :: "(nat \<Rightarrow> nat) \<Rightarrow> Contact list \<Rightarrow> bool" where
  "contacts_ok ulow cs \<longleftrightarrow> (\<forall>c \<in> set cs. contact_ok c)
     \<and> sorted_wrt (\<lambda>c d. name_tokens ulow c \<inter> name_tokens ulow d = {}) cs"

lemma owned_names_keys: "fst ` set (owned_names ulow es) = (\<Union>e \<in> set es. name_tokens ulow e)"
  by (simp add: owned_names_def name_tokens_def image_UN image_image)

lemma CheckNameConflict_ok:
  "CheckNameConflict ulow es c = Inr () \<longleftrightarrow> (\<forall>e \<in> set es. name_tokens ulow e \<inter> name_tokens ulow c = {})"
proof -
  let ?names = "map_of (rev (owned_names ulow es))"
  have n: "?names t = None \<longleftrightarrow> (\<forall>e \<in> set es. t \<notin> name_tokens ulow e)" for t
    by (simp add: map_of_eq_None_iff owned_names_keys)
  have chk: "(case N t of Some owner \<Rightarrow> Inl (NameConflict x owner)
       | None \<Rightarrow> each_ok (\<lambda>a. case N (ToLower ulow a) of
            Some owner \<Rightarrow> Inl (AliasConflict a owner) | None \<Rightarrow> Inr ()) as) = Inr () \<longleftrightarrow>
      N t = None \<and> (\<forall>a \<in> set as. N (ToLower ulow a) = None)" for N t x as
    by (cases "N t") (auto simp: each_ok_Inr_iff is_ok_iff split: option.splits)
  have "CheckNameConflict ulow es c = Inr () \<longleftrightarrow>
      ?names (ToLower ulow (co_Name c)) = None \<and> (\<forall>a \<in> set (co_Aliases c). ?names (ToLower ulow a) = None)"
    unfolding CheckNameConflict_def Let_def by (rule chk)
  also have "\<dots> \<longleftrightarrow> (\<forall>t \<in> name_tokens ulow c. \<forall>e \<in> set es. t \<notin> name_tokens ulow e)"
    unfolding n name_tokens_def [of ulow c] by simp
  also have "\<dots> \<longleftrightarrow> (\<forall>e \<in> set es. name_tokens ulow e \<inter> name_tokens ulow c = {})" by blast
  finally show ?thesis .
qed

lemma remove_first_split: "remove_first P cs = Some ds \<Longrightarrow> \<exists>a c b. cs = a @ c # b \<and> ds = a @ b \<and> P c \<and> (\<forall>x \<in> set a. \<not> P x)"
proof (induction cs arbitrary: ds)
  case (Cons c cs)
  show ?case
  proof (cases "P c")
    case True
    with Cons.prems show ?thesis by (intro exI [of _ "[]"]) auto
  next
    case False
    with Cons.prems obtain es where e: "remove_first P cs = Some es" "ds = c # es" by auto
    from Cons.IH [OF e(1)] obtain a x b where "cs = a @ x # b" "es = a @ b" "P x" "\<forall>x \<in> set a. \<not> P x" by blast
    with False e(2) show ?thesis by (intro exI [of _ "c # a"]) auto
  qed
qed simp

lemma contacts_ok_remove: "contacts_ok ulow (a @ c # b) \<Longrightarrow> contacts_ok ulow (a @ b)"
  by (auto simp: contacts_ok_def sorted_wrt_append)

lemma contacts_ok_add:
  "contacts_ok ulow cs \<Longrightarrow> contact_ok c \<Longrightarrow> CheckNameConflict ulow cs c = Inr () \<Longrightarrow> contacts_ok ulow (cs @ [c])"
  by (auto simp: contacts_ok_def sorted_wrt_append CheckNameConflict_ok)

definition store_ok :: "(nat \<Rightarrow> nat) \<Rightarrow> Store \<Rightarrow> bool" where
  "store_ok ulow s \<longleftrightarrow> contacts_ok ulow (s_contacts s)
     \<and> (\<forall>cs. s_file s = Some cs \<longrightarrow> contacts_ok ulow cs)"

lemma store_ok_write: "store_ok ulow s \<Longrightarrow> store_ok ulow (snd (write_store ops s))"
  by (simp add: store_ok_def write_store_def)

lemma store_ok_Add: "store_ok ulow s \<Longrightarrow> store_ok ulow (snd (Add ulow ops c s))"
proof -
  assume s: "store_ok ulow s"
  let ?c = "normalize_contact c"
  show ?thesis
  proof (cases "Validate_contact ?c = Inr () \<and> CheckNameConflict ulow (s_contacts s) ?c = Inr ()")
    case True
    with s have "store_ok ulow (s\<lparr>s_contacts := s_contacts s @ [?c]\<rparr>)"
      by (auto simp: store_ok_def contact_ok_def intro: contacts_ok_add)
    with True store_ok_write show ?thesis by (simp add: Add_def Let_def split_beta)
  next
    case False
    with s show ?thesis by (auto simp: Add_def Let_def split: sum.splits)
  qed
qed

lemma store_ok_Remove: "store_ok ulow s \<Longrightarrow> store_ok ulow (snd (Remove ufold ops n s))"
proof -
  assume s: "store_ok ulow s"
  let ?P = "\<lambda>c. EqualFold ufold (co_Name c) (TrimSpace n)"
  show ?thesis
  proof (cases "remove_first ?P (s_contacts s)")
    case None
    with s show ?thesis by (simp add: Remove_def Let_def)
  next
    case (Some ds)
    with remove_first_split [OF Some] s have "store_ok ulow (s\<lparr>s_contacts := ds\<rparr>)"
      by (auto simp: store_ok_def dest: contacts_ok_remove)
    with Some store_ok_write show ?thesis by (simp add: Remove_def Let_def)
  qed
qed

lemma store_reach_ok: "store_reach ulow ufold s \<Longrightarrow> store_ok ulow s"
proof (induction rule: store_reach.induct)
  case NewStore
  show ?case by (simp add: store_ok_def contacts_ok_def)
next
  case (load s)
  then show ?case by (auto simp: store_ok_def Load_def contacts_ok_def split: option.splits)
qed (simp_all add: store_ok_Add store_ok_Remove)

lemma perm_flag_True: "perm_flag s i ch e = Inr True \<Longrightarrow> ch \<in> set s"
  by (auto simp: perm_flag_def not_le split: if_splits)

lemma ParsePermission_chars:
  assumes "ParsePermission ulow s = Inr p"
  shows "pm_Write p \<Longrightarrow> CHR ''w'' \<in> set (ToLower ulow s)" "pm_Execute p \<Longrightarrow> CHR ''x'' \<in> set (ToLower ulow s)"
proof -
  obtain r w x where f: "perm_flag (ToLower ulow s) 1 (CHR ''w'') PermWrite = Inr w"
    "perm_flag (ToLower ulow s) 2 (CHR ''x'') PermExecute = Inr x"
    "p = \<lparr>pm_Read = r, pm_Write = w, pm_Execute = x\<rparr>"
    using assms by (auto simp: ParsePermission_def Let_def and_then_Inr_iff split: if_splits)
  show "pm_Write p \<Longrightarrow> CHR ''w'' \<in> set (ToLower ulow s)"
    using f perm_flag_True by simp
  show "pm_Execute p \<Longrightarrow> CHR ''x'' \<in> set (ToLower ulow s)"
    using f perm_flag_True by simp
qed

lemma lower_w:
  assumes "ulow_keeps ''wx'' ulow"
  shows "CHR ''w'' \<in> set (ToLower ulow s) \<or> CHR ''x'' \<in> set (ToLower ulow s) \<Longrightarrow> ContainsAny s ''wWxX''"
proof -
  have b: "byte (CHR ''w'') = 119" "byte (CHR ''x'') = 120" by (simp_all add: byte_def)
  have c: "char_of (87 :: nat) = CHR ''W''" "char_of (88 :: nat) = CHR ''X''" by (simp_all add: char_of_def bit_Suc_0_iff)
  have "CHR ''w'' \<in> set (ToLower ulow s) \<longleftrightarrow> CHR ''w'' \<in> set s \<or> CHR ''W'' \<in> set s"
    using ToLower_byte [OF assms, of "CHR ''w''" s] by (simp add: b c)
  moreover have "CHR ''x'' \<in> set (ToLower ulow s) \<longleftrightarrow> CHR ''x'' \<in> set s \<or> CHR ''X'' \<in> set s"
    using ToLower_byte [OF assms, of "CHR ''x''" s] by (simp add: b c)
  ultimately show "CHR ''w'' \<in> set (ToLower ulow s) \<or> CHR ''x'' \<in> set (ToLower ulow s) \<Longrightarrow> ContainsAny s ''wWxX''"
    by (auto simp: ContainsAny_iff)
qed

lemma pattern_read_only:
  assumes "contact_ok c" "IsPattern c" "ulow_keeps ''wx'' ulow"
  shows "\<not> pm_Write (CheckPermission ulow c i) \<and> \<not> pm_Execute (CheckPermission ulow c i)"
proof (cases "map_of (co_Permissions c) (ToLower ulow i)")
  case None
  then show ?thesis by (simp add: CheckPermission_def no_permission_def)
next
  case (Some perm)
  have "\<forall>x \<in> set (co_Permissions c). \<not> ContainsAny (snd x) ''wWxX''"
    using assms(1,2) by (auto simp: contact_ok_def Validate_contact_def each_ok_Inr_iff is_ok_iff
        split: if_splits sum.splits)
  then have "\<not> ContainsAny perm ''wWxX''" using map_of_SomeD [OF Some] by force
  then show ?thesis
    using Some lower_w [OF assms(3), of perm] ParsePermission_chars [of ulow perm]
    by (auto simp: CheckPermission_def no_permission_def split: sum.splits)
qed

definition exact_match :: "(nat \<Rightarrow> nat) \<Rightarrow> string \<Rightarrow> Contact \<Rightarrow> bool" where
  "exact_match ulow addr c \<longleftrightarrow> co_Email c \<noteq> [] \<and> \<not> IsPattern c \<and> ToLower ulow (co_Email c) = addr"

definition pattern_match :: "(nat \<Rightarrow> nat) \<Rightarrow> string \<Rightarrow> Contact \<Rightarrow> bool" where
  "pattern_match ulow addr c \<longleftrightarrow> co_Email c \<noteq> [] \<and> IsPattern c \<and> path_Match (ToLower ulow (co_Email c)) addr = Inr True"

definition better :: "(nat \<Rightarrow> nat) \<Rightarrow> string \<Rightarrow> (Contact \<times> nat) option \<Rightarrow> Contact \<Rightarrow> (Contact \<times> nat) option" where
  "better ulow addr best c =
     (if pattern_match ulow addr c \<and> (case best of None \<Rightarrow> True | Some (_, n) \<Rightarrow> RuneCount (co_Email c) > n)
      then Some (c, RuneCount (co_Email c)) else best)"

lemma find_address_fold:
  "find_address ulow addr best cs =
     (case find (exact_match ulow addr) cs of Some c \<Rightarrow> Some c
      | None \<Rightarrow> map_option fst (foldl (better ulow addr) best cs))"
proof (induction cs arbitrary: best)
  case Nil
  show ?case by simp
next
  case (Cons c cs)
  show ?case
  proof (cases "exact_match ulow addr c")
    case True
    then show ?thesis by (simp add: exact_match_def)
  next
    case False
    then have "find_address ulow addr best (c # cs) = find_address ulow addr (better ulow addr best c) cs"
      by (auto simp: exact_match_def better_def pattern_match_def)
    with False Cons.IH [of "better ulow addr best c"] show ?thesis by (simp split: option.split)
  qed
qed

definition longest_pattern :: "(nat \<Rightarrow> nat) \<Rightarrow> string \<Rightarrow> Contact list \<Rightarrow> Contact \<Rightarrow> bool" where
  "longest_pattern ulow addr cs c \<longleftrightarrow>
     (\<exists>pre post. cs = pre @ c # post \<and> pattern_match ulow addr c
        \<and> (\<forall>d \<in> set pre. pattern_match ulow addr d \<longrightarrow> RuneCount (co_Email d) < RuneCount (co_Email c))
        \<and> (\<forall>d \<in> set post. pattern_match ulow addr d \<longrightarrow> RuneCount (co_Email d) \<le> RuneCount (co_Email c)))"

lemma foldl_better:
  "case foldl (better ulow addr) None cs of
     None \<Rightarrow> \<forall>c \<in> set cs. \<not> pattern_match ulow addr c
   | Some (c, n) \<Rightarrow> n = RuneCount (co_Email c) \<and> longest_pattern ulow addr cs c"
proof (induction cs rule: rev_induct)
  case Nil
  show ?case by simp
next
  case (snoc d cs)
  show ?case
  proof (cases "foldl (better ulow addr) None cs")
    case None
    with snoc have none: "\<forall>c \<in> set cs. \<not> pattern_match ulow addr c" by simp
    show ?thesis
    proof (cases "pattern_match ulow addr d")
      case True
      have "longest_pattern ulow addr (cs @ [d]) d"
        unfolding longest_pattern_def
        by (intro exI [of _ cs] exI [of _ "[]"]) (use True none in simp)
      with True None show ?thesis by (simp add: better_def [of ulow addr None d])
    next
      case False
      with None none show ?thesis by (simp add: better_def [of ulow addr None d])
    qed
  next
    case (Some b)
    obtain c n where b: "b = (c, n)" by fastforce
    from snoc Some b obtain pre post where c: "n = RuneCount (co_Email c)" "cs = pre @ c # post" "pattern_match ulow addr c"
      "\<forall>d \<in> set pre. pattern_match ulow addr d \<longrightarrow> RuneCount (co_Email d) < RuneCount (co_Email c)"
      "\<forall>d \<in> set post. pattern_match ulow addr d \<longrightarrow> RuneCount (co_Email d) \<le> RuneCount (co_Email c)"
      by (auto simp: longest_pattern_def)
    show ?thesis
    proof (cases "pattern_match ulow addr d \<and> RuneCount (co_Email d) > n")
      case True
      have "longest_pattern ulow addr (cs @ [d]) d"
        unfolding longest_pattern_def
        by (intro exI [of _ cs] exI [of _ "[]"]) (use True c in fastforce)
      with True Some b show ?thesis by (simp add: better_def [of ulow addr "Some (c, n)" d])
    next
      case False
      have "longest_pattern ulow addr (cs @ [d]) c"
        unfolding longest_pattern_def
        by (intro exI [of _ pre] exI [of _ "post @ [d]"]) (use False c in auto)
      moreover have "better ulow addr (Some (c, n)) d = Some (c, n)" using False by (auto simp: better_def)
      ultimately show ?thesis using Some b c(1) by simp
    qed
  qed
qed

lemma find_authority:
  assumes "store_reach ulow ufold s" "ulow_keeps ''wx'' ulow"
    and "FindByAddress ulow s addr = Some c"
    and "pm_Write (CheckPermission ulow c ident) \<or> pm_Execute (CheckPermission ulow c ident)"
  shows "c \<in> set (s_contacts s) \<and> \<not> IsPattern c \<and> ToLower ulow (co_Email c) = ToLower ulow (TrimSpace addr)"
proof -
  let ?a = "ToLower ulow (TrimSpace addr)"
  have f: "find_address ulow ?a None (s_contacts s) = Some c"
    using assms(3) by (auto simp: FindByAddress_def Let_def split: if_splits)
  show ?thesis
  proof (cases "find (exact_match ulow ?a) (s_contacts s)")
    case (Some d)
    with f have "c = d" by (simp add: find_address_fold)
    with Some show ?thesis by (auto simp: find_Some_iff exact_match_def)
  next
    case None
    with f obtain n where "foldl (better ulow ?a) None (s_contacts s) = Some (c, n)"
      by (auto simp: find_address_fold)
    with foldl_better [where ulow = ulow and addr = ?a and cs = "s_contacts s"] have "c \<in> set (s_contacts s)" "IsPattern c"
      by (auto simp: longest_pattern_def pattern_match_def)
    moreover have "contact_ok c"
      using store_reach_ok [OF assms(1)] \<open>c \<in> set (s_contacts s)\<close> by (simp add: store_ok_def contacts_ok_def)
    ultimately show ?thesis using pattern_read_only [OF _ _ assms(2)] assms(4) by blast
  qed
qed

text \<open>
  C26. A pattern never carries authority: in every state the store's operations reach, a contact
  found for a sender that has write or execute permission for some identity is not a pattern, is in
  the book, and its address is the sender's own (up to case), for any case data that does not map a
  non-ASCII rune to \<open>w\<close> or \<open>x\<close>.
\<close>

theorem FindByAddress_authority:
  assumes "store_reach ulow ufold s" "ulow_keeps ''wx'' ulow"
    and "FindByAddress ulow s addr = Some c"
    and "pm_Write (CheckPermission ulow c ident) \<or> pm_Execute (CheckPermission ulow c ident)"
  shows "c \<in> set (s_contacts s) \<and> \<not> IsPattern c \<and> ToLower ulow (co_Email c) = ToLower ulow (TrimSpace addr)"
  using assms by (rule find_authority)

text \<open>
  C27. In every state the store's operations reach, whatever writes fail, the contacts in memory and those on disk are well
  formed: every contact passes the validation of its name, address, key and permissions, and no name or alias of one is, up
  to case, a name or alias of another.
\<close>

theorem store_well_formed:
  assumes "store_reach ulow ufold s"
  shows "store_ok ulow s"
  using assms by (rule store_reach_ok)

text \<open>
  The lookup's precedence: the first contact whose plain address is the sender's; without one,
  the pattern that matches with the most runes, the first among equals; nothing exactly when neither
  exists.
\<close>

theorem FindByAddress_precedence:
  assumes "ToLower ulow (TrimSpace addr) = a" "a \<noteq> []"
  shows "case FindByAddress ulow s addr of
      Some c \<Rightarrow> (\<exists>pre post. s_contacts s = pre @ c # post \<and> exact_match ulow a c \<and> (\<forall>d \<in> set pre. \<not> exact_match ulow a d))
        \<or> (\<forall>d \<in> set (s_contacts s). \<not> exact_match ulow a d) \<and> longest_pattern ulow a (s_contacts s) c
    | None \<Rightarrow> \<forall>d \<in> set (s_contacts s). \<not> exact_match ulow a d \<and> \<not> pattern_match ulow a d"
proof (cases "find (exact_match ulow a) (s_contacts s)")
  case (Some c)
  then obtain i where i: "i < length (s_contacts s)" "s_contacts s ! i = c" "exact_match ulow a c"
    "\<forall>j < i. \<not> exact_match ulow a (s_contacts s ! j)"
    by (auto simp: find_Some_iff)
  have "s_contacts s = take i (s_contacts s) @ c # drop (Suc i) (s_contacts s)"
    using i(1,2) id_take_nth_drop by blast
  moreover have "\<forall>d \<in> set (take i (s_contacts s)). \<not> exact_match ulow a d"
    using i(1,4) by (auto simp: in_set_conv_nth)
  ultimately show ?thesis using Some i(3) assms by (auto simp: FindByAddress_def find_address_fold)
next
  case None
  then have "\<forall>d \<in> set (s_contacts s). \<not> exact_match ulow a d" by (simp add: find_None_iff)
  with None foldl_better [where ulow = ulow and addr = a and cs = "s_contacts s"] assms show ?thesis
    by (auto simp: FindByAddress_def find_address_fold split: option.splits)
qed

lemma runes_ascii: "\<forall>c \<in> set s. byte c < 0x80 \<Longrightarrow> runes s = map byte s"
proof (induction s)
  case (Cons c s)
  then show ?case by (simp add: runes_def rune_chunks.simps(2) rune_width_def bytes_def decode_rune.simps)
qed (simp add: runes_def)

lemma ToLower_ascii:
  "\<forall>c \<in> set s. byte c < 0x80 \<and> \<not> (65 \<le> byte c \<and> byte c \<le> 90) \<Longrightarrow> ToLower ulow s = s"
proof -
  assume a: "\<forall>c \<in> set s. byte c < 0x80 \<and> \<not> (65 \<le> byte c \<and> byte c \<le> 90)"
  then have "ToLower ulow s = of_runes (map byte s)"
    unfolding ToLower_def by (simp add: runes_ascii lower_rune_def) (intro arg_cong [where f = of_runes] map_cong, auto simp: lower_rune_def)
  also have "\<dots> = s" using a by (induction s) (simp_all add: of_runes_def encode_rune_def of_bytes_def)
  finally show ?thesis .
qed

lemma perm_String_ascii: "ToLower ulow (perm_String p) = perm_String p"
  by (rule ToLower_ascii) (simp add: perm_String_def byte_def)

text \<open>
  Permission strings round trip: parsing the canonical string of a permission gives it back,
  whatever the case data.
\<close>

theorem ParsePermission_String: "ParsePermission ulow (perm_String p) = Inr p"
  unfolding ParsePermission_def perm_String_ascii Let_def
  by (cases p) (simp add: perm_String_def perm_flag_def)

text \<open>Names in a reachable store.\<close>

lemma at_most_one:
  "sorted_wrt (\<lambda>c d. \<not> (P c \<and> P d)) cs \<Longrightarrow> length (filter P cs) \<le> 1"
proof (induction cs)
  case (Cons c cs)
  show ?case
  proof (cases "P c")
    case True
    with Cons.prems have "filter P cs = []" by (simp add: filter_empty_conv)
    then show ?thesis by simp
  next
    case False
    with Cons show ?thesis by simp
  qed
qed simp

lemma set_TrimLeftSpace: "set (TrimLeftSpace s) \<subseteq> set s"
proof (induction s rule: TrimLeftSpace.induct)
  case (1 s)
  then show ?case by (subst TrimLeftSpace.simps) (auto dest: in_set_dropD)
qed

lemma set_TrimRightSpace: "set (TrimRightSpace s) \<subseteq> set s"
proof (induction s rule: TrimRightSpace.induct)
  case (1 s)
  then show ?case by (subst TrimRightSpace.simps) (auto dest: in_set_takeD)
qed

lemma set_TrimSpace: "set (TrimSpace s) \<subseteq> set s"
  unfolding TrimSpace_def using set_TrimLeftSpace set_TrimRightSpace by blast

lemma email_has_at: "contact_ok c \<Longrightarrow> CHR ''@'' \<in> set (co_Email c)"
  by (auto simp: contact_ok_def Validate_contact_def Contains_iff_infix split: if_splits)

lemma lower_at: "ulow_keeps ''@'' ulow \<Longrightarrow> CHR ''@'' \<in> set (ToLower ulow s) \<longleftrightarrow> CHR ''@'' \<in> set s"
  using ToLower_byte [of "''@''" ulow "CHR ''@''" s] by (simp add: byte_def)

text \<open>
  In every state the store's operations reach, a name or alias resolves to at most one contact:
  a token without an at sign is never ambiguous, for any case data that does not map a non-ASCII rune
  to the at sign.
\<close>

theorem ResolveAddress_unambiguous:
  assumes "store_reach ulow ufold s" "ulow_keeps ''@'' ulow" "CHR ''@'' \<notin> set token"
  shows "fst (ResolveAddress ulow (s_contacts s) token) \<noteq> Inl (AmbiguousContact (TrimSpace token))"
proof -
  let ?q = "ToLower ulow (TrimSpace (TrimSpace token))"
  have ok: "contacts_ok ulow (s_contacts s)" using store_reach_ok [OF assms(1)] by (simp add: store_ok_def)
  have "CHR ''@'' \<notin> set (TrimSpace (TrimSpace token))" using assms(3) set_TrimSpace by blast
  then have q: "CHR ''@'' \<notin> set ?q" using assms(2) lower_at by simp
  have m: "?q \<in> name_tokens ulow c" if "matchesContact ulow ?q c" "contact_ok c" for c
  proof -
    have "CHR ''@'' \<in> set (ToLower ulow (co_Email c))" using email_has_at [OF that(2)] assms(2) lower_at by simp
    with q have "ToLower ulow (co_Email c) \<noteq> ?q" by auto
    with that(1) show ?thesis
      by (auto simp: matchesContact_def name_tokens_def list_ex_iff intro: rev_image_eqI split: if_splits)
  qed
  have "sorted_wrt (\<lambda>c d. \<not> (matchesContact ulow ?q c \<and> matchesContact ulow ?q d)) (s_contacts s)"
  proof (rule sorted_wrt_mono_rel [where P = "\<lambda>c d. name_tokens ulow c \<inter> name_tokens ulow d = {}"])
    show "sorted_wrt (\<lambda>c d. name_tokens ulow c \<inter> name_tokens ulow d = {}) (s_contacts s)"
      using ok by (simp add: contacts_ok_def)
  next
    fix c d
    assume "c \<in> set (s_contacts s)" "d \<in> set (s_contacts s)" "name_tokens ulow c \<inter> name_tokens ulow d = {}"
    moreover have "contact_ok c" "contact_ok d" using ok calculation(1,2) by (auto simp: contacts_ok_def)
    ultimately show "\<not> (matchesContact ulow ?q c \<and> matchesContact ulow ?q d)" using m by blast
  qed
  from at_most_one [OF this] have "length (Find_contacts ulow (s_contacts s) (TrimSpace token)) \<le> 1"
    by (simp add: Find_contacts_def Let_def)
  then show ?thesis
    by (cases "Find_contacts ulow (s_contacts s) (TrimSpace token)") (auto simp: ResolveAddress_def Let_def)
qed

text \<open>A book with one exact contact and one pattern.\<close>

definition sample_alice :: Contact where
  "sample_alice = \<lparr>co_Name = ''alice'', co_Email = ''a@b'', co_Aliases = [], co_GPGKeyID = [], co_Notes = [],
     co_Permissions = [(''me'', ''rwx'')]\<rparr>"

definition sample_domain :: Contact where
  "sample_domain = \<lparr>co_Name = ''domain'', co_Email = ''*@b'', co_Aliases = [], co_GPGKeyID = [], co_Notes = [],
     co_Permissions = [(''me'', ''r--'')]\<rparr>"

definition all_writes :: write_ops where
  "all_writes = \<lparr>wo_mkdir = True, wo_marshal = True, wo_write = True, wo_rename = True\<rparr>"

definition sample_store :: Store where
  "sample_store = snd (Add (\<lambda>r. r) all_writes sample_domain (snd (Add (\<lambda>r. r) all_writes sample_alice
     \<lparr>s_contacts = [], s_file = None\<rparr>)))"

lemma sample_store_reach: "store_reach (\<lambda>r. r) (\<lambda>r. r) sample_store"
  unfolding sample_store_def by (intro store_reach.add store_reach.NewStore)

lemma sample_keeps: "ulow_keeps ''wx'' (\<lambda>r. r)" "ulow_keeps ''@'' (\<lambda>r. r)"
  by (auto simp: ulow_keeps_def byte_def)

lemma sample_find: "FindByAddress (\<lambda>r. r) sample_store ''A@b'' = Some sample_alice"
  by code_simp

lemma sample_perm: "pm_Write (CheckPermission (\<lambda>r. r) sample_alice ''me'') \<or> pm_Execute (CheckPermission (\<lambda>r. r) sample_alice ''me'')"
  by code_simp

theorem FindByAddress_authority_witness: "\<not> IsPattern sample_alice"
  using FindByAddress_authority [OF sample_store_reach sample_keeps(1) sample_find sample_perm] by blast

theorem store_well_formed_witness: "store_ok (\<lambda>r. r) sample_store"
  by (rule store_well_formed [OF sample_store_reach])

lemma sample_lower: "ToLower (\<lambda>r. r) (TrimSpace ''A@b'') = ''a@b''"
  by code_simp

theorem FindByAddress_precedence_witness:
  "(\<exists>pre post. s_contacts sample_store = pre @ sample_alice # post \<and> exact_match (\<lambda>r. r) ''a@b'' sample_alice)
   \<or> longest_pattern (\<lambda>r. r) ''a@b'' (s_contacts sample_store) sample_alice"
  using FindByAddress_precedence [OF sample_lower, of sample_store] unfolding sample_find by auto

lemma sample_token: "CHR ''@'' \<notin> set ''alice''"
  by simp

theorem ResolveAddress_unambiguous_witness:
  "fst (ResolveAddress (\<lambda>r. r) (s_contacts sample_store) ''alice'') \<noteq> Inl (AmbiguousContact (TrimSpace ''alice''))"
  by (rule ResolveAddress_unambiguous [OF sample_store_reach sample_keeps(2) sample_token])

end
