(* ===== verification/Handler.thy ===== *)
theory Handler
  imports Contacts Contract
begin

section \<open>Trust and the mail handler (internal/email/trust.go, address.go, internal/daemon/handler.go)\<close>

text \<open>
  Who may start a pipeline: the trust classification of a message from its headers and MIME type,
  the sender's address, \<open>verifyTrust\<close>, and \<open>OnNewMail\<close> with its gates in order (address, contact,
  x permission, trust, body, worker slot). The IMAP client, \<open>pgp.Verify\<close>, the RFC 5322 address parser
  and the media type parser are parameters; the actions a pass takes are its result.

  The handler relies on the address book through one law (\<open>sender_book\<close>): a contact found for an
  address that may execute carries that address. The property: whoever gets a pipeline or a mission
  is a contact listed under that very address, with the x permission for this identity, on a message
  that is PGP-verified (by the contact's registered key, when there is one) or end-to-end encrypted
  mail read from a loopback IMAP host.
\<close>

subsection \<open>Addresses\<close>

definition ExtractEmailAddress :: "(string \<Rightarrow> (string \<times> string) option) \<Rightarrow> string \<Rightarrow> string" where
  "ExtractEmailAddress parse from0 =
     (let addr = TrimSpace from0;
          bare = (if Contains addr ''@'' \<and> \<not> ContainsAny addr ('' <>'' @ [QUOTE, TAB]) then addr else [])
      in if addr = [] then []
         else (case parse addr of
           Some (_, a) \<Rightarrow> TrimSpace a
         | None \<Rightarrow>
             (case LastIndexByte addr (CHR ''<'') of
                None \<Rightarrow> bare
              | Some start \<Rightarrow>
                  (case IndexByte (drop start addr) (CHR ''>'') of
                     None \<Rightarrow> bare
                   | Some stop \<Rightarrow>
                       let candidate = TrimSpace (take (stop - 1) (drop (Suc start) addr)) in
                       if Contains candidate ''@'' then candidate else bare))))"

definition ExtractDisplayName :: "(string \<Rightarrow> (string \<times> string) option) \<Rightarrow> string \<Rightarrow> string" where
  "ExtractDisplayName parse from0 =
     (let addr = TrimSpace from0 in
      if addr = [] then []
      else (case parse addr of
        Some (name, a) \<Rightarrow> if name \<noteq> [] then name else a
      | None \<Rightarrow>
          (case LastIndexByte addr (CHR ''<'') of
             Some (Suc i) \<Rightarrow>
               let name = TrimSpace (take (Suc i) addr) in if name \<noteq> [] then name else addr
           | _ \<Rightarrow> addr)))"

subsection \<open>Trust\<close>

datatype TrustLevel = Trusted | Verified | Untrusted | Unverified

record TrustResult =
  tr_Level :: TrustLevel
  tr_Reason :: string
  tr_Encryption :: string
  tr_Origin :: string
  tr_HasSig :: bool

type_synonym headers = "string \<rightharpoonup> string"

definition header :: "headers \<Rightarrow> string \<Rightarrow> string" where
  "header h k = (case h k of None \<Rightarrow> [] | Some v \<Rightarrow> v)"

definition HasPGPSignature :: "(string \<Rightarrow> string) \<Rightarrow> string \<Rightarrow> string \<Rightarrow> bool" where
  "HasPGPSignature mediaType contentType raw =
     (if contentType \<noteq> [] \<and> mediaType contentType = ''multipart/signed'' then True
      else Contains raw ''application/pgp-signature'')"

definition ClassifyTrustDetailed ::
    "(nat \<Rightarrow> nat) \<Rightarrow> (string \<Rightarrow> string) \<Rightarrow> headers \<Rightarrow> string \<Rightarrow> TrustResult" where
  "ClassifyTrustDetailed ulow mediaType h raw =
     (let enc = ToLower ulow (header h ''X-Pm-Content-Encryption'');
          origin = ToLower ulow (header h ''X-Pm-Origin'')
      in if Contains enc ''end-to-end'' \<and> origin = ''internal'' then
           \<lparr>tr_Level = Trusted, tr_Reason = ''Proton-to-Proton end-to-end encrypted message'',
            tr_Encryption = ''end-to-end'', tr_Origin = ''internal'', tr_HasSig = False\<rparr>
         else if HasPGPSignature mediaType (header h ''Content-Type'') raw then
           \<lparr>tr_Level = Unverified,
            tr_Reason = ''PGP signature present but not yet verified '' @ [CHR 0xE2, CHR 0x80, CHR 0x94] @ '' call verify_signature to determine trust'',
            tr_Encryption = ''tls'', tr_Origin = ''external'', tr_HasSig = True\<rparr>
         else
           \<lparr>tr_Level = Unverified, tr_Reason = ''External message with no PGP signature'',
            tr_Encryption = ''tls'', tr_Origin = ''external'', tr_HasSig = False\<rparr>)"

definition ClassifyTrust :: "(nat \<Rightarrow> nat) \<Rightarrow> (string \<Rightarrow> string) \<Rightarrow> headers \<Rightarrow> string \<Rightarrow> TrustLevel" where
  "ClassifyTrust ulow mediaType h raw = tr_Level (ClassifyTrustDetailed ulow mediaType h raw)"

subsection \<open>verifyTrust\<close>

text \<open>\<open>net.SplitHostPort\<close>: the host, or \<open>None\<close> for its error.\<close>

definition SplitHostPort :: "string \<Rightarrow> string option" where
  "SplitHostPort hp =
     (case LastIndexByte hp (CHR '':'') of
        None \<Rightarrow> None
      | Some i \<Rightarrow>
          if HasPrefix hp ''['' then
            (case IndexByte hp (CHR '']'') of
               None \<Rightarrow> None
             | Some e \<Rightarrow>
                 if Suc e \<noteq> i then None
                 else if CHR ''['' \<in> set (drop 1 hp) \<or> CHR '']'' \<in> set (drop (Suc e) hp) then None
                 else Some (take (e - 1) (drop 1 hp)))
          else if CHR '':'' \<in> set (take i hp) \<or> CHR ''['' \<in> set hp \<or> CHR '']'' \<in> set hp then None
          else Some (take i hp))"

definition isLoopbackHost :: "string \<Rightarrow> bool" where
  "isLoopbackHost host0 =
     (let h = (case SplitHostPort host0 of Some x \<Rightarrow> x | None \<Rightarrow> host0);
          h = TrimSuffix (TrimPrefix h ''['') '']''
      in h = ''127.0.0.1'' \<or> h = ''::1'' \<or> h = ''localhost'')"

definition upper_rune :: "(nat \<Rightarrow> nat) \<Rightarrow> nat \<Rightarrow> nat" where
  "upper_rune uup r = (if 97 \<le> r \<and> r \<le> 122 then r - 32 else if r < 128 \<or> r = RuneError then r else uup r)"

definition ToUpper :: "(nat \<Rightarrow> nat) \<Rightarrow> string \<Rightarrow> string" where
  "ToUpper uup s = of_runes (map (upper_rune uup) (runes s))"

definition normalizeKeyID :: "(nat \<Rightarrow> nat) \<Rightarrow> string \<Rightarrow> string" where
  "normalizeKeyID uup i = TrimPrefix (ToUpper uup (TrimSpace i)) ''0X''"

record MessageSummary =
  ms_ID :: string
  ms_From :: string
  ms_Subject :: string
  ms_TrustLevel :: TrustLevel
  ms_HasSig :: bool
  ms_Date :: "int option"
  ms_Unread :: bool

record verify_result =
  vr_Valid :: bool
  vr_KeyID :: string

text \<open>The mailbox and the tools the handler calls.\<close>

record mail_world =
  mw_identity :: "string option"
  mw_imap_host :: "string option"
  mw_dial :: bool
  mw_list :: "nat \<Rightarrow> MessageSummary list option"
  mw_raw :: "int \<Rightarrow> string option"
  mw_body :: "int \<Rightarrow> string option"
  mw_pgp :: "string \<Rightarrow> verify_result option"
  mw_parse :: "string \<Rightarrow> (string \<times> string) option"
  mw_uup :: "nat \<Rightarrow> nat"

definition verifyTrust :: "mail_world \<Rightarrow> string \<Rightarrow> MessageSummary \<Rightarrow> string \<Rightarrow> TrustLevel" where
  "verifyTrust w imapHost msg contactKey =
     (if ms_TrustLevel msg = Trusted then (if isLoopbackHost imapHost then Trusted else Unverified)
      else if \<not> ms_HasSig msg then Unverified
      else (case ParseUint32 (ms_ID msg) of
        None \<Rightarrow> Unverified
      | Some uid \<Rightarrow>
          (case mw_raw w uid of
             None \<Rightarrow> Unverified
           | Some raw \<Rightarrow>
               (case mw_pgp w raw of
                  None \<Rightarrow> Untrusted
                | Some r \<Rightarrow>
                    if \<not> vr_Valid r then Untrusted
                    else if contactKey \<noteq> [] \<and>
                        \<not> HasSuffix (normalizeKeyID (mw_uup w) (vr_KeyID r)) (normalizeKeyID (mw_uup w) contactKey)
                    then Untrusted
                    else Verified))))"

definition fetchBody :: "mail_world \<Rightarrow> string \<Rightarrow> string option" where
  "fetchBody w msgID = (case ParseUint32 msgID of None \<Rightarrow> None | Some uid \<Rightarrow> mw_body w uid)"

subsection \<open>OnNewMail\<close>

text \<open>
  What a pass does for a message: runs a pipeline on a goroutine, or creates a bare mission. The
  contact is the book's \<open>'c\<close>; \<open>key_of\<close> is its registered key.
\<close>

datatype action = RunPipeline EmailMeta string | CreateMission EmailMeta

record 'c book =
  bk_find :: "string \<Rightarrow> 'c option"
  bk_execute :: "'c \<Rightarrow> string \<Rightarrow> bool"
  bk_key :: "'c \<Rightarrow> string"

definition message_meta :: "MessageSummary \<Rightarrow> EmailMeta" where
  "message_meta msg = \<lparr>em_MessageID = ms_ID msg, em_From = ms_From msg, em_Subject = ms_Subject msg\<rparr>"

text \<open>The gates before a message may act: the contact that passed them.\<close>

definition admit :: "mail_world \<Rightarrow> 'c book \<Rightarrow> string \<Rightarrow> string \<Rightarrow> MessageSummary \<Rightarrow> 'c option" where
  "admit w bk ident imapHost msg =
     (let addr = ExtractEmailAddress (mw_parse w) (ms_From msg) in
      if addr = [] then None
      else (case bk_find bk addr of
        None \<Rightarrow> None
      | Some contact \<Rightarrow>
          if \<not> bk_execute bk contact ident then None
          else let trust = verifyTrust w imapHost msg (bk_key bk contact) in
            if trust \<noteq> Verified \<and> trust \<noteq> Trusted then None else Some contact))"

text \<open>
  The loop: \<open>free\<close> says how many workers finished before the message, \<open>busy\<close> how many hold a slot
  of the semaphore of size \<open>slots\<close>; \<open>worker\<close> says that a spawner and templates are configured.
\<close>

fun handle_messages ::
    "mail_world \<Rightarrow> 'c book \<Rightarrow> string \<Rightarrow> string \<Rightarrow> bool \<Rightarrow> nat \<Rightarrow> nat \<Rightarrow> (MessageSummary \<times> nat) list
      \<Rightarrow> action list \<times> nat" where
  "handle_messages w bk ident host worker slots busy [] = ([], busy)"
| "handle_messages w bk ident host worker slots busy ((msg, free) # msgs) =
     (let busy' = busy - free;
          next_msg = (\<lambda>b. handle_messages w bk ident host worker slots b msgs) in
      case admit w bk ident host msg of
        None \<Rightarrow> next_msg busy'
      | Some _ \<Rightarrow>
          if worker then
            (case fetchBody w (ms_ID msg) of
               None \<Rightarrow> next_msg busy'
             | Some body \<Rightarrow>
                 if busy' < slots
                 then apfst (Cons (RunPipeline (message_meta msg) body)) (next_msg (Suc busy'))
                 else next_msg busy')
          else apfst (Cons (CreateMission (message_meta msg))) (next_msg busy'))"

definition OnNewMail ::
    "mail_world \<Rightarrow> (string \<Rightarrow> 'c book option) \<Rightarrow> bool \<Rightarrow> nat \<Rightarrow> nat \<Rightarrow> (nat \<Rightarrow> nat) \<Rightarrow> nat \<Rightarrow> action list \<times> nat" where
  "OnNewMail w load worker slots busy freed newCount =
     (case mw_identity w of
        None \<Rightarrow> ([], busy)
      | Some ident \<Rightarrow>
          (case mw_imap_host w of
             None \<Rightarrow> ([], busy)
           | Some host \<Rightarrow>
               if \<not> mw_dial w then ([], busy)
               else (case mw_list w (if newCount > 20 then 20 else newCount) of
                  None \<Rightarrow> ([], busy)
                | Some msgs \<Rightarrow>
                    (case load ident of
                       None \<Rightarrow> ([], busy)
                     | Some bk \<Rightarrow>
                         handle_messages w bk ident host worker slots busy
                           (zip msgs (map freed [0..<length msgs]))))))"

definition NewMailHandler_slots :: "int \<Rightarrow> nat" where
  "NewMailHandler_slots maxWorkers = (if maxWorkers \<le> 0 then 2 else nat maxWorkers)"

subsection \<open>The address book the handler relies on\<close>

locale sender_book =
  fixes ok :: "'s \<Rightarrow> bool" and look :: "'s \<Rightarrow> string \<Rightarrow> 'c option"
    and executes :: "'c \<Rightarrow> string \<Rightarrow> bool" and listed :: "'s \<Rightarrow> 'c \<Rightarrow> string \<Rightarrow> bool"
  assumes execute_listed: "ok s \<Longrightarrow> look s a = Some c \<Longrightarrow> executes c i \<Longrightarrow> listed s c a"
begin

definition as_book :: "'s \<Rightarrow> ('c \<Rightarrow> string) \<Rightarrow> 'c book" where
  "as_book s key = \<lparr>bk_find = look s, bk_execute = executes, bk_key = key\<rparr>"

lemma admit_listed:
  "ok s \<Longrightarrow> admit w (as_book s key) i h msg = Some c \<Longrightarrow>
     listed s c (ExtractEmailAddress (mw_parse w) (ms_From msg)) \<and> executes c i
     \<and> verifyTrust w h msg (key c) \<in> {Verified, Trusted}"
  by (auto simp: admit_def as_book_def Let_def execute_listed split: option.splits if_splits)

end

definition contact_executes :: "(nat \<Rightarrow> nat) \<Rightarrow> Contact \<Rightarrow> string \<Rightarrow> bool" where
  "contact_executes ulow c ident = pm_Execute (CheckPermission ulow c ident)"

definition listed_contact :: "(nat \<Rightarrow> nat) \<Rightarrow> Store \<Rightarrow> Contact \<Rightarrow> string \<Rightarrow> bool" where
  "listed_contact ulow s c addr \<longleftrightarrow>
     c \<in> set (s_contacts s) \<and> \<not> IsPattern c \<and> ToLower ulow (co_Email c) = ToLower ulow (TrimSpace addr)"

definition contact_book :: "(nat \<Rightarrow> nat) \<Rightarrow> Store \<Rightarrow> Contact book" where
  "contact_book ulow s =
     \<lparr>bk_find = FindByAddress ulow s, bk_execute = contact_executes ulow, bk_key = co_GPGKeyID\<rparr>"

interpretation contacts: sender_book "\<lambda>s. store_reach ulow ufold s \<and> ulow_keeps ''wx'' ulow"
    "FindByAddress ulow" "contact_executes ulow" "listed_contact ulow" for ulow ufold
proof
  fix s a c i
  assume "store_reach ulow ufold s \<and> ulow_keeps ''wx'' ulow" "FindByAddress ulow s a = Some c" "contact_executes ulow c i"
  then show "listed_contact ulow s c a"
    unfolding listed_contact_def contact_executes_def by (intro find_authority) auto
qed

lemma contact_book_eq: "contact_book ulow s = contacts.as_book ulow s co_GPGKeyID"
  by (simp add: contact_book_def contacts.as_book_def)

text \<open>What the trust level of an admitted message says.\<close>

lemma verifyTrust_Trusted:
  "verifyTrust w h msg key = Trusted \<Longrightarrow> ms_TrustLevel msg = Trusted \<and> isLoopbackHost h"
  by (auto simp: verifyTrust_def Let_def split: if_splits option.splits)

lemma verifyTrust_Verified:
  "verifyTrust w h msg key = Verified \<Longrightarrow>
     ms_HasSig msg \<and> (\<exists>uid raw r. ParseUint32 (ms_ID msg) = Some uid \<and> mw_raw w uid = Some raw
        \<and> mw_pgp w raw = Some r \<and> vr_Valid r
        \<and> (key \<noteq> [] \<longrightarrow> HasSuffix (normalizeKeyID (mw_uup w) (vr_KeyID r)) (normalizeKeyID (mw_uup w) key)))"
  by (auto simp: verifyTrust_def Let_def split: if_splits option.splits)

definition trusted_sender :: "mail_world \<Rightarrow> string \<Rightarrow> Contact \<Rightarrow> MessageSummary \<Rightarrow> bool" where
  "trusted_sender w host c msg \<longleftrightarrow>
     (ms_TrustLevel msg = Trusted \<and> isLoopbackHost host)
   \<or> (ms_HasSig msg \<and> (\<exists>uid raw r. ParseUint32 (ms_ID msg) = Some uid \<and> mw_raw w uid = Some raw
        \<and> mw_pgp w raw = Some r \<and> vr_Valid r
        \<and> (co_GPGKeyID c \<noteq> [] \<longrightarrow>
            HasSuffix (normalizeKeyID (mw_uup w) (vr_KeyID r)) (normalizeKeyID (mw_uup w) (co_GPGKeyID c)))))"

fun action_meta :: "action \<Rightarrow> EmailMeta" where
  "action_meta (RunPipeline m _) = m"
| "action_meta (CreateMission m) = m"

text \<open>What one message adds to a pass: nothing, a pipeline run, or a mission.\<close>

lemma handle_messages_step:
  obtains b where "handle_messages w bk i h worker slots busy ((msg, free) # msgs)
        = handle_messages w bk i h worker slots b msgs" "b = busy - free"
  | c body where "admit w bk i h msg = Some c" "worker" "fetchBody w (ms_ID msg) = Some body" "busy - free < slots"
      "handle_messages w bk i h worker slots busy ((msg, free) # msgs)
        = apfst (Cons (RunPipeline (message_meta msg) body))
            (handle_messages w bk i h worker slots (Suc (busy - free)) msgs)"
  | c where "admit w bk i h msg = Some c" "\<not> worker"
      "handle_messages w bk i h worker slots busy ((msg, free) # msgs)
        = apfst (Cons (CreateMission (message_meta msg))) (handle_messages w bk i h worker slots (busy - free) msgs)"
proof (cases "admit w bk i h msg")
  case None
  then show ?thesis using that(1) by simp
next
  case (Some c)
  show ?thesis
  proof (cases worker)
    case False
    with Some show ?thesis using that(3) by simp
  next
    case True
    show ?thesis
    proof (cases "fetchBody w (ms_ID msg)")
      case None
      with Some True show ?thesis using that(1) by simp
    next
      case (Some body)
      then show ?thesis using \<open>admit w bk i h msg = Some c\<close> True that(1,2)
        by (cases "busy - free < slots") simp_all
    qed
  qed
qed

lemma handle_messages_admitted:
  "a \<in> set (fst (handle_messages w bk i h worker slots busy msgs)) \<Longrightarrow>
     \<exists>msg c. msg \<in> fst ` set msgs \<and> action_meta a = message_meta msg \<and> admit w bk i h msg = Some c
       \<and> (\<forall>m b. a = RunPipeline m b \<longrightarrow> worker \<and> fetchBody w (ms_ID msg) = Some b)"
proof (induction msgs arbitrary: busy)
  case (Cons x msgs)
  obtain msg free where x: "x = (msg, free)" by fastforce
  have rest: ?case if r: "a \<in> set (fst (handle_messages w bk i h worker slots b msgs))" for b
  proof -
    from Cons.IH [OF r] obtain m c where "m \<in> fst ` set msgs" "action_meta a = message_meta m"
      "admit w bk i h m = Some c" "\<forall>m' b. a = RunPipeline m' b \<longrightarrow> worker \<and> fetchBody w (ms_ID m) = Some b" by blast
    then show ?thesis by (intro exI [of _ m] exI [of _ c]) simp
  qed
  have a: "a \<in> set (fst (handle_messages w bk i h worker slots busy ((msg, free) # msgs)))"
    using Cons.prems x by simp
  show ?case
  proof (cases rule: handle_messages_step [of w bk i h worker slots busy msg free msgs])
    case (1 b)
    from a have "a \<in> set (fst (handle_messages w bk i h worker slots b msgs))" unfolding 1(1) .
    then show ?thesis by (rule rest)
  next
    case (2 c body)
    from a have "a = RunPipeline (message_meta msg) body \<or>
        a \<in> set (fst (handle_messages w bk i h worker slots (Suc (busy - free)) msgs))" unfolding 2(5) by simp
    then show ?thesis
    proof
      assume "a = RunPipeline (message_meta msg) body"
      with 2(1-3) show ?thesis by (intro exI [of _ msg] exI [of _ c]) (simp add: x)
    qed (rule rest)
  next
    case (3 c)
    from a have "a = CreateMission (message_meta msg) \<or>
        a \<in> set (fst (handle_messages w bk i h worker slots (busy - free) msgs))" unfolding 3(3) by simp
    then show ?thesis
    proof
      assume "a = CreateMission (message_meta msg)"
      with 3(1) show ?thesis by (intro exI [of _ msg] exI [of _ c]) (simp add: x)
    qed (rule rest)
  qed
qed simp

text \<open>Who is behind an action of a pass.\<close>

lemma pass_sender:
  assumes "store_reach ulow ufold s" "ulow_keeps ''wx'' ulow"
    and "mw_identity w = Some ident" "mw_imap_host w = Some host"
    and "a \<in> set (fst (OnNewMail w (\<lambda>_. Some (contact_book ulow s)) worker slots busy freed n))"
  shows "\<exists>msg c msgs. mw_list w (min n 20) = Some msgs \<and> msg \<in> set msgs \<and> action_meta a = message_meta msg
     \<and> listed_contact ulow s c (ExtractEmailAddress (mw_parse w) (ms_From msg))
     \<and> pm_Execute (CheckPermission ulow c ident) \<and> trusted_sender w host c msg
     \<and> (\<forall>m b. a = RunPipeline m b \<longrightarrow> worker)"
proof -
  have n: "(if n > 20 then 20 else n) = min n 20" by simp
  from assms(3,4,5) obtain msgs where msgs: "mw_list w (min n 20) = Some msgs"
    "a \<in> set (fst (handle_messages w (contact_book ulow s) ident host worker slots busy
        (zip msgs (map freed [0..<length msgs]))))"
    unfolding OnNewMail_def n by (auto split: if_splits option.splits)
  from handle_messages_admitted [OF msgs(2)] obtain msg c where m:
    "msg \<in> fst ` set (zip msgs (map freed [0..<length msgs]))" "action_meta a = message_meta msg"
    "admit w (contact_book ulow s) ident host msg = Some c" "\<forall>m b. a = RunPipeline m b \<longrightarrow> worker" by blast
  from m(1) have "msg \<in> set msgs" by (auto dest: set_zip_leftD)
  moreover have "listed_contact ulow s c (ExtractEmailAddress (mw_parse w) (ms_From msg))"
      "contact_executes ulow c ident" "verifyTrust w host msg (co_GPGKeyID c) \<in> {Verified, Trusted}"
    using contacts.admit_listed [of ulow ufold s w co_GPGKeyID ident host msg c] assms(1,2) m(3)
    by (simp_all add: contact_book_eq)
  moreover from this(3) have "trusted_sender w host c msg"
    unfolding trusted_sender_def using verifyTrust_Trusted verifyTrust_Verified by blast
  ultimately show ?thesis using msgs(1) m(2,4) unfolding contact_executes_def by blast
qed

text \<open>
  C2. Nobody else gets a worker: over a contact book reached through its own operations, every
  pipeline run or mission created by a pass belongs to a listed message whose sender's address is,
  up to case, the plain address of a contact that has the x permission for this identity, and whose
  transport is trusted: verified by PGP (with the contact's key when one is registered), or
  end-to-end encrypted mail read from a loopback host.
\<close>

theorem OnNewMail_authorized:
  assumes "store_reach ulow ufold s" "ulow_keeps ''wx'' ulow"
    and "mw_identity w = Some ident" "mw_imap_host w = Some host"
    and "a \<in> set (fst (OnNewMail w (\<lambda>_. Some (contact_book ulow s)) worker slots busy freed n))"
  shows "\<exists>msg c msgs. mw_list w (min n 20) = Some msgs \<and> msg \<in> set msgs \<and> action_meta a = message_meta msg
     \<and> listed_contact ulow s c (ExtractEmailAddress (mw_parse w) (ms_From msg))
     \<and> pm_Execute (CheckPermission ulow c ident) \<and> trusted_sender w host c msg"
  using pass_sender [OF assms] by blast

text \<open>The semaphore: a pass never holds more slots than there are.\<close>

lemma handle_messages_slots:
  "busy \<le> slots \<Longrightarrow> snd (handle_messages w bk i h worker slots busy msgs) \<le> slots"
proof (induction msgs arbitrary: busy)
  case (Cons x msgs)
  obtain msg free where x: "x = (msg, free)" by fastforce
  have b: "busy - free \<le> slots" using Cons.prems by simp
  show ?case unfolding x
    by (cases rule: handle_messages_step [of w bk i h worker slots busy msg free msgs])
      (use b Cons.IH in simp_all)
qed simp

lemma pass_slots: "busy \<le> slots \<Longrightarrow> snd (OnNewMail w load worker slots busy freed n) \<le> slots"
  using handle_messages_slots by (auto simp: OnNewMail_def split: option.splits)

text \<open>
  However many messages a pass admits, the workers holding the semaphore at its end are at most
  the configured capacity, and the capacity is never zero.
\<close>

theorem OnNewMail_bounded:
  assumes "busy \<le> NewMailHandler_slots maxWorkers"
  shows "snd (OnNewMail w load worker (NewMailHandler_slots maxWorkers) busy freed n) \<le> NewMailHandler_slots maxWorkers
    \<and> 0 < NewMailHandler_slots maxWorkers"
  using pass_slots [OF assms, of w load worker freed n] by (auto simp: NewMailHandler_slots_def)

text \<open>
  The key comparison is by suffix after normalization, so a registered key that normalizes to the
  empty string (the two characters of a bare hexadecimal prefix) is matched by every valid signature.
\<close>

lemma bare_prefix_key_matches_all:
  "normalizeKeyID (\<lambda>r. r) ''0x'' = [] \<and> HasSuffix k (normalizeKeyID (\<lambda>r. r) ''0x'')"
proof -
  have "normalizeKeyID (\<lambda>r. r) ''0x'' = []" by code_simp
  then show ?thesis by (simp add: HasSuffix_def)
qed

subsection \<open>Witnesses\<close>

text \<open>A signed message from a contact of the sample book who may execute, with its body.\<close>

definition alice_runs :: Contact where
  "alice_runs = \<lparr>co_Name = ''alice'', co_Email = ''a@b'', co_Aliases = [], co_GPGKeyID = ''0xAB'', co_Notes = [],
     co_Permissions = [(''me'', ''rwx'')]\<rparr>"

definition sample_book :: Store where
  "sample_book = snd (Add (\<lambda>r. r) all_writes alice_runs \<lparr>s_contacts = [], s_file = None\<rparr>)"

definition sample_mail :: mail_world where
  "sample_mail = \<lparr>mw_identity = Some ''me'', mw_imap_host = Some ''imap.b:993'', mw_dial = True,
     mw_list = (\<lambda>_. Some [\<lparr>ms_ID = ''7'', ms_From = ''A <A@b>'', ms_Subject = ''do'',
       ms_TrustLevel = Unverified, ms_HasSig = True, ms_Date = None, ms_Unread = True\<rparr>]),
     mw_raw = (\<lambda>_. Some ''raw''), mw_body = (\<lambda>_. Some ''body''),
     mw_pgp = (\<lambda>_. Some \<lparr>vr_Valid = True, vr_KeyID = ''00ab''\<rparr>),
     mw_parse = (\<lambda>_. None), mw_uup = (\<lambda>r. r)\<rparr>"

lemma sample_book_reach: "store_reach (\<lambda>r. r) (\<lambda>r. r) sample_book"
  unfolding sample_book_def by (intro store_reach.add store_reach.NewStore)

lemma sample_pass:
  "fst (OnNewMail sample_mail (\<lambda>_. Some (contact_book (\<lambda>r. r) sample_book)) True 2 0 (\<lambda>_. 0) 1)
     = [RunPipeline \<lparr>em_MessageID = ''7'', em_From = ''A <A@b>'', em_Subject = ''do''\<rparr> ''body'']"
  by code_simp

lemma sample_settings: "mw_identity sample_mail = Some ''me''" "mw_imap_host sample_mail = Some ''imap.b:993''"
  by (simp_all add: sample_mail_def)

lemma sample_run:
  "RunPipeline \<lparr>em_MessageID = ''7'', em_From = ''A <A@b>'', em_Subject = ''do''\<rparr> ''body''
     \<in> set (fst (OnNewMail sample_mail (\<lambda>_. Some (contact_book (\<lambda>r. r) sample_book)) True 2 0 (\<lambda>_. 0) 1))"
  unfolding sample_pass by simp

theorem OnNewMail_authorized_witness:
  "\<exists>msg c. listed_contact (\<lambda>r. r) sample_book c (ExtractEmailAddress (mw_parse sample_mail) (ms_From msg))
     \<and> trusted_sender sample_mail ''imap.b:993'' c msg"
  using OnNewMail_authorized [OF sample_book_reach sample_keeps(1) sample_settings sample_run] by blast

theorem OnNewMail_bounded_witness:
  "snd (OnNewMail sample_mail (\<lambda>_. Some (contact_book (\<lambda>r. r) sample_book)) True
     (NewMailHandler_slots 1) 1 (\<lambda>_. 0) 1) \<le> 1"
  using OnNewMail_bounded [of 1 1 sample_mail "\<lambda>_. Some (contact_book (\<lambda>r. r) sample_book)" True "\<lambda>_. 0" 1]
  by (simp add: NewMailHandler_slots_def)

end
