(* ===== verification/Imports.thy ===== *)
theory Imports
  imports GoStrings
begin

section \<open>The import line of a CLAUDE.md (internal/claudemd/imports.go)\<close>

text \<open>
  The editor that adds and removes one @-import line in a file the user owns: the split into lines
  that keep their terminators, the code-block rules (fenced ranges and indented lines) that decide
  which lines are top-level, \<open>Register\<close>, \<open>Prune\<close> and \<open>PruneAndDiscardEmpty\<close> with the atomic write
  and the lock.

  A file is its bytes, its mode, what kind of path leads to it and whether a temp file was left
  behind; the outcomes of the system calls are the record \<open>md_io\<close>. \<open>code_marks\<close> is the reference
  definition of the code blocks, by recursion over the lines with a look-ahead to the closing fence;
  the one-pass loop of the source is proved equal to it, and the file properties rest on it:
  registering then pruning gives the file back (with one line break when its last line had none),
  and pruning drops exactly the top-level matches.
\<close>

subsection \<open>Lines and terminators\<close>

fun take_line :: "string \<Rightarrow> string \<times> string" where
  "take_line [] = ([], [])"
| "take_line [c] = ([c], [])"
| "take_line (c # d # cs) =
     (if c = CR \<and> d = NL then ([CR, NL], cs)
      else if c = NL \<or> c = CR then ([c], d # cs)
      else (let (l, r) = take_line (d # cs) in (c # l, r)))"

lemma take_line_append: "fst (take_line s) @ snd (take_line s) = s"
  by (induction s rule: take_line.induct) (auto simp: Let_def split: prod.splits)

lemma take_line_nonempty: "s \<noteq> [] \<Longrightarrow> fst (take_line s) \<noteq> []"
  by (induction s rule: take_line.induct) (auto simp: Let_def split: prod.splits)

lemma take_line_shorter: "s \<noteq> [] \<Longrightarrow> length (snd (take_line s)) < length s"
  using take_line_nonempty [of s] arg_cong [OF take_line_append [of s], of length]
  by (cases "fst (take_line s)") auto

function splitKeepEnds :: "string \<Rightarrow> string list" where
  "splitKeepEnds s = (if s = [] then [] else fst (take_line s) # splitKeepEnds (snd (take_line s)))"
  by pat_completeness auto

termination by (relation "measure length") (auto simp: take_line_shorter)

declare splitKeepEnds.simps [simp del, code del]

lemma splitKeepEnds_code [code]:
  "splitKeepEnds [] = []"
  "splitKeepEnds (c # cs) = fst (take_line (c # cs)) # splitKeepEnds (snd (take_line (c # cs)))"
  by (simp_all add: splitKeepEnds.simps)

definition terminator :: "string \<Rightarrow> string" where
  "terminator line =
     (if HasSuffix line [CR, NL] then [CR, NL]
      else if HasSuffix line [NL] then [NL]
      else if HasSuffix line [CR] then [CR]
      else [])"

definition trimTerminator :: "string \<Rightarrow> string" where
  "trimTerminator line = rev (dropWhile (\<lambda>c. c = CR \<or> c = NL) (rev line))"

fun hostEOL :: "string list \<Rightarrow> string" where
  "hostEOL [] = [NL]"
| "hostEOL (ln # lns) = (if terminator ln \<noteq> [] then terminator ln else hostEOL lns)"

definition appended :: "string list \<Rightarrow> string \<Rightarrow> string" where
  "appended lines importLine =
     (let eol = hostEOL lines;
          sep = (if lines \<noteq> [] \<and> terminator (last lines) = [] then eol else [])
      in sep @ importLine @ eol)"

subsection \<open>Code blocks\<close>

definition isIndented :: "string \<Rightarrow> bool" where
  "isIndented body \<longleftrightarrow>
     HasPrefix body [TAB] \<or> 4 \<le> length body - length (dropWhile (\<lambda>c. c = CHR '' '') body)"

definition parseFence :: "string \<Rightarrow> (char \<times> nat) option" where
  "parseFence body =
     (if HasPrefix body [TAB] then None
      else
        let stripped = dropWhile (\<lambda>c. c = CHR '' '') body in
        if 4 \<le> length body - length stripped then None
        else (case stripped of
          [] \<Rightarrow> None
        | marker # _ \<Rightarrow>
            if marker \<noteq> CHR 0x60 \<and> marker \<noteq> CHR ''~'' then None
            else let run = length (takeWhile (\<lambda>c. c = marker) stripped) in
              if run < 3 then None else Some (marker, run)))"

definition closes :: "char \<Rightarrow> nat \<Rightarrow> string \<Rightarrow> bool" where
  "closes openMarker openLen b =
     (case parseFence b of None \<Rightarrow> False | Some (marker, run) \<Rightarrow> marker = openMarker \<and> openLen \<le> run)"

fun fence_loop :: "nat \<Rightarrow> (nat \<times> char \<times> nat) option \<Rightarrow> string list \<Rightarrow> (nat \<times> nat) list" where
  "fence_loop i op [] = []"
| "fence_loop i None (b # bs) =
     (case parseFence b of
        None \<Rightarrow> fence_loop (Suc i) None bs
      | Some (marker, run) \<Rightarrow> fence_loop (Suc i) (Some (i, marker, run)) bs)"
| "fence_loop i (Some (start, marker, run)) (b # bs) =
     (if closes marker run b then (start, i) # fence_loop (Suc i) None bs
      else fence_loop (Suc i) (Some (start, marker, run)) bs)"

definition fencedRanges :: "string list \<Rightarrow> (nat \<times> nat) list" where
  "fencedRanges bodies = fence_loop 0 None bodies"

definition inside_range :: "(nat \<times> nat) list \<Rightarrow> nat \<Rightarrow> bool" where
  "inside_range ranges i \<longleftrightarrow> list_ex (\<lambda>(a, b). Suc a \<le> i \<and> i \<le> b) ranges"

text \<open>The lines the callback of the scan sees, with their indices.\<close>

definition scanTopLevel :: "string list \<Rightarrow> (nat \<times> string) list" where
  "scanTopLevel lines =
     (let bodies = map trimTerminator lines; ranges = fencedRanges bodies in
      filter (\<lambda>(i, b). \<not> (inside_range ranges i \<or> isIndented b)) (enumerate 0 bodies))"

definition present :: "string list \<Rightarrow> string \<Rightarrow> bool" where
  "present lines importLine \<longleftrightarrow> list_ex (\<lambda>(_, b). b = importLine) (scanTopLevel lines)"

definition remove_import :: "string list \<Rightarrow> string \<Rightarrow> string list" where
  "remove_import lines importLine =
     (let drop = map fst (filter (\<lambda>(_, b). b = importLine) (scanTopLevel lines)) in
      if drop = [] then lines
      else map snd (filter (\<lambda>(i, _). i \<notin> set drop) (enumerate 0 lines)))"

subsection \<open>The code blocks as a reference definition\<close>

text \<open>
  A fence opens a block when a closing fence follows; the opener is not inside, the content and the
  closer are. An opener that is never closed ends the scan: nothing after it is inside a block.
\<close>

fun close_at :: "char \<Rightarrow> nat \<Rightarrow> string list \<Rightarrow> nat option" where
  "close_at m n [] = None"
| "close_at m n (b # bs) = (if closes m n b then Some 0 else map_option Suc (close_at m n bs))"

function code_marks :: "string list \<Rightarrow> bool list" where
  "code_marks [] = []"
| "code_marks (b # bs) =
     (case parseFence b of
        None \<Rightarrow> False # code_marks bs
      | Some (m, n) \<Rightarrow>
          (case close_at m n bs of
             None \<Rightarrow> False # replicate (length bs) False
           | Some k \<Rightarrow> False # replicate (Suc k) True @ code_marks (drop (Suc k) bs)))"
  by pat_completeness auto

termination by (relation "measure length") auto

lemma close_at_Some: "close_at m n bs = Some k \<Longrightarrow> k < length bs"
  by (induction bs arbitrary: k) (auto split: if_splits)

lemma length_code_marks [simp]: "length (code_marks bs) = length bs"
  by (induction bs rule: code_marks.induct) (auto split: option.splits dest: close_at_Some)

lemma fence_loop_open:
  "fence_loop i (Some (start, m, n)) bs =
     (case close_at m n bs of
        None \<Rightarrow> []
      | Some k \<Rightarrow> (start, i + k) # fence_loop (i + Suc k) None (drop (Suc k) bs))"
  by (induction bs arbitrary: i) (auto split: option.splits)

lemma nth_closed: "(replicate (Suc k) True @ ys) ! d \<longleftrightarrow> d \<le> k \<or> ys ! (d - Suc k)"
  by (simp add: nth_append less_Suc_eq_le del: replicate_Suc)

lemma inside_marks:
  "inside_range (fence_loop i None bs) j \<longleftrightarrow> i \<le> j \<and> j - i < length bs \<and> code_marks bs ! (j - i)"
proof (induction bs arbitrary: i rule: code_marks.induct)
  case 1
  then show ?case by (simp add: inside_range_def)
next
  case (2 b bs)
  show ?case
  proof (cases "parseFence b")
    case None
    have "code_marks (b # bs) ! (j - i) \<longleftrightarrow> i < j \<and> code_marks bs ! (j - Suc i)" if "i \<le> j"
      using that None by (cases "j = i") (auto simp: nth_Cons' Suc_diff_Suc)
    with None show ?thesis using 2(1) [OF None, of "Suc i"] by (cases "i < j") auto
  next
    case (Some mn)
    obtain m n where mn: "parseFence b = Some (m, n)" using Some by (cases mn) auto
    show ?thesis
    proof (cases "close_at m n bs")
      case None
      with mn show ?thesis
        by (auto simp: fence_loop_open inside_range_def nth_Cons split: nat.splits)
    next
      case (Some k)
      have k: "k < length bs" using Some by (rule close_at_Some)
      have ih: "inside_range (fence_loop (i + Suc (Suc k)) None (drop (Suc k) bs)) j \<longleftrightarrow>
          i + Suc (Suc k) \<le> j \<and> j - (i + Suc (Suc k)) < length (drop (Suc k) bs)
          \<and> code_marks (drop (Suc k) bs) ! (j - (i + Suc (Suc k)))"
        using 2(2) [OF mn _ Some, of "i + Suc (Suc k)"] by simp
      have "inside_range (fence_loop i None (b # bs)) j \<longleftrightarrow>
          (Suc i \<le> j \<and> j \<le> i + Suc k) \<or> inside_range (fence_loop (i + Suc (Suc k)) None (drop (Suc k) bs)) j"
        using mn Some by (simp add: fence_loop_open inside_range_def)
      also have "\<dots> \<longleftrightarrow> i \<le> j \<and> j - i < length (b # bs) \<and> code_marks (b # bs) ! (j - i)"
      proof (cases "i < j")
        case True
        then obtain d where j: "j = i + Suc d" by (metis add_Suc_right less_imp_Suc_add)
        have m: "code_marks (b # bs) ! Suc d \<longleftrightarrow> d \<le> k \<or> code_marks (drop (Suc k) bs) ! (d - Suc k)"
          using mn Some nth_closed [of k "code_marks (drop (Suc k) bs)" d] by (simp del: replicate_Suc)
        have e: "j - (i + Suc (Suc k)) = d - Suc k" "j - i = Suc d" using j by auto
        show ?thesis unfolding ih e m using j k by auto
      next
        case False
        then show ?thesis unfolding ih using mn Some by auto
      qed
      finally show ?thesis .
    qed
  qed
qed

text \<open>The scan and the removal over the marks.\<close>

definition top_match :: "string \<Rightarrow> string \<times> bool \<Rightarrow> bool" where
  "top_match importLine = (\<lambda>(l, m). \<not> m \<and> \<not> isIndented (trimTerminator l) \<and> trimTerminator l = importLine)"

definition marked :: "string list \<Rightarrow> (string \<times> bool) list" where
  "marked lines = zip lines (code_marks (map trimTerminator lines))"

lemma scan_index:
  "(i, b) \<in> set (scanTopLevel lines) \<longleftrightarrow>
     i < length lines \<and> b = trimTerminator (lines ! i)
     \<and> \<not> code_marks (map trimTerminator lines) ! i \<and> \<not> isIndented b"
  using inside_marks [of 0 "map trimTerminator lines" i]
  by (auto simp: scanTopLevel_def Let_def fencedRanges_def in_set_enumerate_eq)

lemma present_marked: "present lines importLine \<longleftrightarrow> list_ex (top_match importLine) (marked lines)"
proof -
  have "present lines importLine \<longleftrightarrow> (\<exists>i. (i, importLine) \<in> set (scanTopLevel lines))"
    by (force simp: present_def list_ex_iff)
  also have "\<dots> \<longleftrightarrow> (\<exists>i < length lines. top_match importLine (marked lines ! i))"
    by (auto simp: scan_index top_match_def marked_def)
  finally show ?thesis by (auto simp: list_ex_length marked_def)
qed

lemma filter_enumerate:
  "\<forall>i < length xs. P (k + i) \<longleftrightarrow> Q (xs ! i) (ys ! i) \<Longrightarrow> length ys = length xs \<Longrightarrow>
     map snd (filter (\<lambda>(i, _). P i) (enumerate k xs)) = map fst (filter (\<lambda>(x, y). Q x y) (zip xs ys))"
proof (induction xs arbitrary: k ys)
  case (Cons x xs)
  then obtain y ys' where ys: "ys = y # ys'" by (cases ys) auto
  have "P k \<longleftrightarrow> Q x y" using Cons.prems(1) [rule_format, of 0] ys by simp
  moreover have "\<forall>i < length xs. P (Suc k + i) \<longleftrightarrow> Q (xs ! i) (ys' ! i)"
    using Cons.prems(1) ys by (metis Suc_less_eq add_Suc_shift length_Cons nth_Cons_Suc)
  ultimately show ?case using Cons.IH [of "Suc k" ys'] Cons.prems(2) ys by simp
qed simp

lemma remove_import_marked:
  "remove_import lines importLine = map fst (filter (\<lambda>lm. \<not> top_match importLine lm) (marked lines))"
proof -
  let ?drop = "map fst (filter (\<lambda>(_, b). b = importLine) (scanTopLevel lines))"
  have drop: "i \<in> set ?drop \<longleftrightarrow> top_match importLine (marked lines ! i)" if "i < length lines" for i
  proof -
    have "i \<in> set ?drop \<longleftrightarrow> (i, importLine) \<in> set (scanTopLevel lines)" by force
    also have "\<dots> \<longleftrightarrow> top_match importLine (marked lines ! i)"
      using that by (auto simp: scan_index top_match_def marked_def)
    finally show ?thesis .
  qed
  have eq: "map snd (filter (\<lambda>(i, _). i \<notin> set ?drop) (enumerate 0 lines))
      = map fst (filter (\<lambda>(l, m). \<not> top_match importLine (l, m)) (zip lines (code_marks (map trimTerminator lines))))"
  proof (intro filter_enumerate allI impI)
    fix i
    assume i: "i < length lines"
    then have "marked lines ! i = (lines ! i, code_marks (map trimTerminator lines) ! i)"
      by (simp add: marked_def)
    with drop [OF i] show "0 + i \<notin> set ?drop \<longleftrightarrow>
        \<not> top_match importLine (lines ! i, code_marks (map trimTerminator lines) ! i)" by (simp only: add_0)
  qed simp
  show ?thesis
  proof (cases "?drop = []")
    case True
    have "filter (\<lambda>(i, _). i \<notin> set ?drop) (enumerate 0 lines) = enumerate 0 lines"
      unfolding True by simp
    then have "lines = map snd (filter (\<lambda>(i, _). i \<notin> set ?drop) (enumerate 0 lines))"
      by (simp only: map_snd_enumerate)
    moreover have "remove_import lines importLine = lines"
      using True by (simp add: remove_import_def Let_def)
    ultimately show ?thesis using eq by (simp add: marked_def split_def)
  next
    case False
    then show ?thesis using eq unfolding remove_import_def Let_def by (simp add: marked_def split_def)
  qed
qed

text \<open>Appending a line that is no fence, and dropping such lines at the top level, keep the marks.\<close>

lemma close_at_None: "close_at m n bs = None \<longleftrightarrow> (\<forall>b \<in> set bs. \<not> closes m n b)"
  by (induction bs) auto

lemma close_at_take: "close_at m n bs = Some k \<Longrightarrow> close_at m n (take (Suc k) bs @ ys) = Some k"
  by (induction bs arbitrary: k) (auto split: if_splits)

lemma close_at_snoc: "close_at m n bs = Some k \<Longrightarrow> close_at m n (bs @ ys) = Some k"
  by (induction bs arbitrary: k) (auto split: if_splits)

lemma no_fence_closes: "parseFence b = None \<Longrightarrow> \<not> closes m n b"
  by (simp add: closes_def)

lemma replicate_snoc: "replicate n x @ [x] = x # replicate n x"
  by (simp add: replicate_append_same)

lemma marks_snoc: "parseFence b = None \<Longrightarrow> code_marks (bs @ [b]) = code_marks bs @ [False]"
proof (induction bs rule: code_marks.induct)
  case (2 c bs)
  show ?case
  proof (cases "parseFence c")
    case None
    with 2 show ?thesis by simp
  next
    case (Some mn)
    obtain m n where mn: "parseFence c = Some (m, n)" using Some by (cases mn) auto
    show ?thesis
    proof (cases "close_at m n bs")
      case None
      with mn 2(3) have "close_at m n (bs @ [b]) = None" by (auto simp: close_at_None no_fence_closes)
      with mn None show ?thesis by (simp add: replicate_snoc)
    next
      case (Some k)
      from Some have "k < length bs" by (rule close_at_Some)
      with 2(2) [OF mn _ Some] 2(3) mn close_at_snoc [OF Some, of "[b]"] Some show ?thesis by simp
    qed
  qed
qed simp

lemma marks_kept:
  assumes "\<And>l. keep (l, True)" "\<And>l. \<not> keep (l, False) \<Longrightarrow> parseFence (f l) = None"
  shows "code_marks (map (f \<circ> fst) (filter keep (zip ls (code_marks (map f ls)))))
    = map snd (filter keep (zip ls (code_marks (map f ls))))"
proof (induction "length ls" arbitrary: ls rule: less_induct)
  case less
  show ?case
  proof (cases ls)
    case (Cons l ls')
    show ?thesis
    proof (cases "parseFence (f l)")
      case None
      then show ?thesis using less [of ls'] Cons by simp
    next
      case (Some mn)
      obtain m n where mn: "parseFence (f l) = Some (m, n)" using Some by (cases mn) auto
      have l: "keep (l, False)" using assms(2) [of l] mn by auto
      show ?thesis
      proof (cases "close_at m n (map f ls')")
        case None
        let ?zs = "filter keep (zip ls' (replicate (length ls') False))"
        have "close_at m n (map (f \<circ> fst) ?zs) = None"
          using None unfolding close_at_None by (auto dest: set_zip_leftD)
        moreover have "map snd ?zs = replicate (length ?zs) False"
          by (rule replicate_eqI) (auto dest: set_zip_rightD)
        ultimately show ?thesis using mn None Cons l by simp
      next
        case (Some k)
        have k: "k < length ls'" using close_at_Some [OF Some] by simp
        let ?ys = "drop (Suc k) ls'"
        let ?zs = "filter keep (zip ?ys (code_marks (map f ?ys)))"
        have "zip ls' (replicate (Suc k) True @ code_marks (drop (Suc k) (map f ls')))
            = zip (take (Suc k) ls') (replicate (Suc k) True) @ zip ?ys (code_marks (map f ?ys))"
          using k zip_append [of "take (Suc k) ls'" "replicate (Suc k) True" ?ys "code_marks (map f ?ys)"]
          by (simp add: drop_map del: replicate_Suc)
        moreover have "filter keep (zip (take (Suc k) ls') (replicate (Suc k) True))
            = zip (take (Suc k) ls') (replicate (Suc k) True)"
          using assms(1) by (auto simp: filter_id_conv dest: set_zip_rightD simp del: replicate_Suc)
        ultimately have zs: "filter keep (zip ls (code_marks (map f ls)))
            = (l, False) # zip (take (Suc k) ls') (replicate (Suc k) True) @ ?zs"
          using mn Some Cons l by (simp del: replicate_Suc)
        have fst: "map (f \<circ> fst) (zip (take (Suc k) ls') (replicate (Suc k) True)) = take (Suc k) (map f ls')"
          using k by (simp add: map_fst_zip_take take_map flip: map_map del: replicate_Suc)
        have snd: "map snd (zip (take (Suc k) ls') (replicate (Suc k) True)) = replicate (Suc k) True"
          using k by (simp add: map_snd_zip_take del: replicate_Suc)
        have "code_marks (map (f \<circ> fst) ?zs) = map snd ?zs"
          using less [of ?ys] Cons k by simp
        then show ?thesis unfolding zs
          using mn close_at_take [OF Some, of "map (f \<circ> fst) ?zs"] k
          by (simp add: fst snd del: replicate_Suc)
      qed
    qed
  qed simp
qed

subsection \<open>Splitting what was appended\<close>

abbreviation eol_char :: "char \<Rightarrow> bool" where
  "eol_char c \<equiv> c = CR \<or> c = NL"

lemma concat_split: "concat (splitKeepEnds s) = s"
  by (induction s rule: splitKeepEnds.induct) (subst splitKeepEnds.simps, simp add: take_line_append)

lemma split_nonempty: "l \<in> set (splitKeepEnds s) \<Longrightarrow> l \<noteq> []"
  by (induction s rule: splitKeepEnds.induct)
    (subst (asm) (2) splitKeepEnds.simps, auto dest: take_line_nonempty split: if_splits)

lemma split_Nil [simp]: "splitKeepEnds [] = []"
  by (subst splitKeepEnds.simps) simp

lemma split_eq_Nil [simp]: "splitKeepEnds s = [] \<longleftrightarrow> s = []"
  by (subst splitKeepEnds.simps) simp

lemma take_line_extend:
  "s \<noteq> [] \<Longrightarrow> eol_char (last s) \<Longrightarrow> \<not> HasPrefix t [NL] \<Longrightarrow>
     take_line (s @ t) = (fst (take_line s), snd (take_line s) @ t)"
proof (induction s rule: take_line.induct)
  case (2 c)
  then show ?case by (cases t) auto
qed (auto simp: Let_def split: prod.splits)

lemma take_line_last: "snd (take_line s) \<noteq> [] \<Longrightarrow> last (snd (take_line s)) = last s"
  by (metis last_appendR take_line_append)

lemma split_append:
  "s = [] \<or> eol_char (last s) \<Longrightarrow> \<not> HasPrefix t [NL] \<Longrightarrow>
     splitKeepEnds (s @ t) = splitKeepEnds s @ splitKeepEnds t"
proof (induction s rule: splitKeepEnds.induct)
  case (1 s)
  show ?case
  proof (cases "s = []")
    case False
    let ?r = "snd (take_line s)"
    have "?r = [] \<or> eol_char (last ?r)" using 1(2) False take_line_last by auto
    with 1(1) [OF False _ 1(3)] False 1(2,3) show ?thesis
      by (simp add: take_line_extend splitKeepEnds.simps [of s] splitKeepEnds.simps [of "s @ t"])
  qed simp
qed

lemma take_line_plain: "l \<noteq> [] \<Longrightarrow> list_all (\<lambda>c. \<not> eol_char c) l \<Longrightarrow> take_line l = (l, [])"
  by (induction l rule: take_line.induct) auto

lemma take_line_eol:
  assumes "list_all (\<lambda>c. \<not> eol_char c) l" "e \<in> {[NL], [CR], [CR, NL]}" "\<not> HasPrefix t [NL]"
  shows "take_line (l @ e @ t) = (l @ e, t)"
  using assms(1)
proof (induction l)
  case Nil
  with assms(2,3) show ?case by (cases t) auto
next
  case (Cons c l)
  obtain d r where "l @ e @ t = d # r" using assms(2) by (cases "l @ e @ t") auto
  with Cons show ?case by auto
qed

lemma split_eol:
  assumes "list_all (\<lambda>c. \<not> eol_char c) l" "e \<in> {[NL], [CR], [CR, NL]}" "\<not> HasPrefix t [NL]"
  shows "splitKeepEnds (l @ e @ t) = (l @ e) # splitKeepEnds t"
  using assms take_line_eol [OF assms] by (subst splitKeepEnds.simps) auto

lemma split_plain: "l \<noteq> [] \<Longrightarrow> list_all (\<lambda>c. \<not> eol_char c) l \<Longrightarrow> splitKeepEnds l = [l]"
  by (subst splitKeepEnds.simps) (simp add: take_line_plain)

lemma terminator_Nil: "terminator l = [] \<longleftrightarrow> l = [] \<or> \<not> eol_char (last l)"
  by (cases l rule: rev_cases) (auto simp: terminator_def HasSuffix_iff)

lemma hostEOL_cases: "hostEOL lines \<in> {[NL], [CR], [CR, NL]}"
  by (induction lines) (auto simp: terminator_def)

lemma trim_eol:
  "list_all (\<lambda>c. \<not> eol_char c) l \<Longrightarrow> set e \<subseteq> {CR, NL} \<Longrightarrow> trimTerminator (l @ e) = l"
proof (induction e rule: rev_induct)
  case Nil
  then show ?case by (cases l rule: rev_cases) (auto simp: trimTerminator_def)
qed (auto simp: trimTerminator_def)

lemma last_line:
  assumes "s \<noteq> []"
  shows "last (last (splitKeepEnds s)) = last s"
proof -
  let ?ls = "splitKeepEnds s"
  have ne: "?ls \<noteq> []" using assms by simp
  have "s = concat (butlast ?ls @ [last ?ls])" using ne concat_split [of s] by simp
  moreover have "last ?ls \<noteq> []" using ne split_nonempty by (meson last_in_set)
  ultimately show ?thesis by (metis append_Nil2 concat.simps concat_append last_appendR)
qed

lemma unterminated_iff: "s \<noteq> [] \<Longrightarrow> terminator (last (splitKeepEnds s)) = [] \<longleftrightarrow> \<not> eol_char (last s)"
  using last_line [of s] split_nonempty [of "last (splitKeepEnds s)" s] by (auto simp: terminator_Nil)

lemma plain_no_prefix: "list_all (\<lambda>c. \<not> eol_char c) l \<Longrightarrow> \<not> HasPrefix l [NL]"
  by (cases l) (auto simp: HasPrefix_def)

text \<open>An unterminated file ends in a line of its own.\<close>

lemma split_unterminated:
  assumes "s \<noteq> []" "\<not> eol_char (last s)"
  obtains a l where "s = a @ l" "a = [] \<or> eol_char (last a)" "l \<noteq> []" "list_all (\<lambda>c. \<not> eol_char c) l"
    "splitKeepEnds s = splitKeepEnds a @ [l]"
proof -
  let ?l = "rev (takeWhile (\<lambda>c. \<not> eol_char c) (rev s))"
  let ?a = "rev (dropWhile (\<lambda>c. \<not> eol_char c) (rev s))"
  have s: "s = ?a @ ?l" by (metis rev_append rev_rev_ident takeWhile_dropWhile_id)
  have a: "?a = [] \<or> eol_char (last ?a)"
    using hd_dropWhile [of "\<lambda>c. \<not> eol_char c" "rev s"] by (auto simp: last_rev)
  have l: "list_all (\<lambda>c. \<not> eol_char c) ?l" by (auto simp: list_all_iff dest: set_takeWhileD)
  have ne: "?l \<noteq> []" using assms by (cases s rule: rev_cases) auto
  have "\<not> HasPrefix ?l [NL]" by (rule plain_no_prefix [OF l])
  from split_append [OF a this] have "splitKeepEnds (?a @ ?l) = splitKeepEnds ?a @ [?l]"
    unfolding split_plain [OF ne l] .
  then have "splitKeepEnds s = splitKeepEnds ?a @ [?l]" unfolding s [symmetric] .
  from that [OF s a ne l this] show ?thesis .
qed

subsection \<open>The editor on the bytes\<close>

datatype import_error =
    ImportEmpty | ImportMultiLine | ImportPadded | ImportNoAt
  | FileOp string
  | FileOps string string

definition validate_import :: "string \<Rightarrow> (import_error, unit) result" where
  "validate_import line =
     (if line = [] \<or> TrimSpace line = [] then Inl ImportEmpty
      else if ContainsAny line [CR, NL] then Inl ImportMultiLine
      else if line \<noteq> TrimSpace line then Inl ImportPadded
      else if \<not> HasPrefix line ''@'' then Inl ImportNoAt
      else Inr ())"

definition register_text :: "string \<Rightarrow> string \<Rightarrow> string" where
  "register_text importLine content =
     (let lines = splitKeepEnds content in concat (lines @ [appended lines importLine]))"

definition prune_text :: "string \<Rightarrow> string \<Rightarrow> string" where
  "prune_text importLine content = concat (remove_import (splitKeepEnds content) importLine)"

lemma valid_import:
  assumes "validate_import imp = Inr ()"
  shows "list_all (\<lambda>c. \<not> eol_char c) imp" "\<not> HasPrefix imp [NL]" "parseFence imp = None" "\<not> isIndented imp"
proof -
  have "\<not> ContainsAny imp [CR, NL]" and p: "HasPrefix imp ''@''"
    using assms by (auto simp: validate_import_def split: if_splits)
  then show "list_all (\<lambda>c. \<not> eol_char c) imp" by (auto simp: ContainsAny_iff list_all_iff)
  from p obtain r where "imp = CHR ''@'' # r" by (auto simp: HasPrefix_iff)
  then show "\<not> HasPrefix imp [NL]" "parseFence imp = None" "\<not> isIndented imp"
    by (simp_all add: parseFence_def isIndented_def Let_def)
qed

text \<open>What a registered file splits into: the old lines, the last one terminated, and the import.\<close>

lemma split_registered:
  assumes "validate_import imp = Inr ()"
  obtains ls e where "splitKeepEnds (register_text imp s) = ls @ [imp @ hostEOL (splitKeepEnds s)]"
    "map trimTerminator ls = map trimTerminator (splitKeepEnds s)"
    "concat ls = s @ e"
    "e = (if s \<noteq> [] \<and> terminator (last (splitKeepEnds s)) = [] then hostEOL (splitKeepEnds s) else [])"
proof -
  let ?lines = "splitKeepEnds s" and ?eol = "hostEOL (splitKeepEnds s)"
  note imp = valid_import [OF assms]
  have tail: "splitKeepEnds (imp @ ?eol) = [imp @ ?eol]"
    using split_eol [OF imp(1) hostEOL_cases, of "[]" ?lines] by simp
  have noNL: "\<not> HasPrefix (imp @ ?eol) [NL]"
    using assms by (auto simp: validate_import_def HasPrefix_iff split: if_splits)
  show ?thesis
  proof (cases "s \<noteq> [] \<and> terminator (last ?lines) = []")
    case True
    then have "\<not> eol_char (last s)" using unterminated_iff [of s] by blast
    with True obtain a l where s: "s = a @ l" "a = [] \<or> eol_char (last a)" "l \<noteq> []"
      "list_all (\<lambda>c. \<not> eol_char c) l" "?lines = splitKeepEnds a @ [l]" using split_unterminated by blast
    have "\<not> HasPrefix (l @ ?eol @ imp @ ?eol) [NL]"
      using s(3,4) by (cases l) (auto simp: HasPrefix_iff)
    then have "splitKeepEnds (a @ l @ ?eol @ imp @ ?eol) = splitKeepEnds a @ (l @ ?eol) # [imp @ ?eol]"
      using split_append [OF s(2)] split_eol [OF s(4) hostEOL_cases noNL] tail by simp
    moreover have "register_text imp s = a @ l @ ?eol @ imp @ ?eol"
      using True s(1) by (simp add: register_text_def appended_def Let_def concat_split)
    moreover have "trimTerminator (l @ ?eol) = trimTerminator l"
      using trim_eol [OF s(4), of ?eol] trim_eol [OF s(4), of "[]"] hostEOL_cases [of ?lines] by auto
    ultimately show ?thesis using True s
      by (intro that [of "splitKeepEnds a @ [l @ ?eol]" ?eol]) (simp_all add: concat_split)
  next
    case False
    then have "s = [] \<or> eol_char (last s)" using unterminated_iff [of s] by blast
    from split_append [OF this noNL] have "splitKeepEnds (s @ imp @ ?eol) = ?lines @ [imp @ ?eol]"
      using tail by simp
    moreover have "register_text imp s = s @ imp @ ?eol"
      using False by (auto simp: register_text_def appended_def Let_def concat_split)
    ultimately show ?thesis using False by (intro that [of ?lines "[]"]) (auto simp: concat_split)
  qed
qed

lemma marked_registered:
  assumes "validate_import imp = Inr ()"
    and ls: "map trimTerminator ls = map trimTerminator (splitKeepEnds s)" "set e \<subseteq> {CR, NL}"
  shows "marked (ls @ [imp @ e]) = zip ls (code_marks (map trimTerminator (splitKeepEnds s))) @ [(imp @ e, False)]"
proof -
  note imp = valid_import [OF assms(1)]
  have "length ls = length (splitKeepEnds s)" using arg_cong [OF ls(1), of length] by simp
  then show ?thesis
    using ls(1) trim_eol [OF imp(1) ls(2)] by (simp add: marked_def marks_snoc [OF imp(3)])
qed

lemma list_all_zip_bodies:
  assumes "map f ls = map f ls'"
  shows "list_ex (\<lambda>(l, m). P (f l) m) (zip ls ms) \<longleftrightarrow> list_ex (\<lambda>(l, m). P (f l) m) (zip ls' ms)"
  using assms
proof (induction ls arbitrary: ls' ms)
  case (Cons l ls)
  then obtain l' ls'' where "ls' = l' # ls''" by (cases ls') auto
  with Cons show ?case by (cases ms) auto
qed simp

text \<open>Registering makes the line present, and pruning a registered file gives the file back.\<close>

lemma register_present:
  assumes "validate_import imp = Inr ()"
  shows "present (splitKeepEnds (register_text imp s)) imp"
proof -
  obtain ls e where ls: "splitKeepEnds (register_text imp s) = ls @ [imp @ hostEOL (splitKeepEnds s)]"
    "map trimTerminator ls = map trimTerminator (splitKeepEnds s)" using split_registered [OF assms] by blast
  have e: "set (hostEOL (splitKeepEnds s)) \<subseteq> {CR, NL}" using hostEOL_cases [of "splitKeepEnds s"] by auto
  show ?thesis
    unfolding ls(1) present_marked marked_registered [OF assms ls(2) e]
    using valid_import [OF assms] trim_eol [OF _ e] by (simp add: top_match_def)
qed

lemma register_then_prune:
  assumes "validate_import imp = Inr ()" "\<not> present (splitKeepEnds s) imp"
  shows "prune_text imp (register_text imp s) =
    s @ (if s \<noteq> [] \<and> terminator (last (splitKeepEnds s)) = [] then hostEOL (splitKeepEnds s) else [])"
proof -
  obtain ls e where ls: "splitKeepEnds (register_text imp s) = ls @ [imp @ hostEOL (splitKeepEnds s)]"
    "map trimTerminator ls = map trimTerminator (splitKeepEnds s)" "concat ls = s @ e"
    "e = (if s \<noteq> [] \<and> terminator (last (splitKeepEnds s)) = [] then hostEOL (splitKeepEnds s) else [])"
    using split_registered [OF assms(1)] by blast
  have eol: "set (hostEOL (splitKeepEnds s)) \<subseteq> {CR, NL}" using hostEOL_cases [of "splitKeepEnds s"] by auto
  let ?ms = "code_marks (map trimTerminator (splitKeepEnds s))"
  have len: "length ls = length ?ms" using arg_cong [OF ls(2), of length] by simp
  have "\<not> list_ex (top_match imp) (zip ls ?ms)"
    using assms(2) list_all_zip_bodies [OF ls(2), of "\<lambda>b m. \<not> m \<and> \<not> isIndented b \<and> b = imp" ?ms]
    by (simp add: present_marked marked_def top_match_def)
  then have "filter (\<lambda>lm. \<not> top_match imp lm) (zip ls ?ms) = zip ls ?ms"
    by (simp add: filter_id_conv list_ex_iff)
  moreover have "top_match imp (imp @ hostEOL (splitKeepEnds s), False)"
    using valid_import [OF assms(1)] trim_eol [OF _ eol] by (simp add: top_match_def)
  ultimately have "remove_import (ls @ [imp @ hostEOL (splitKeepEnds s)]) imp = ls"
    unfolding remove_import_marked marked_registered [OF assms(1) ls(2) eol] using len by simp
  then show ?thesis by (simp add: prune_text_def ls)
qed

text \<open>Pruning drops every top-level match and nothing else, so none is left.\<close>

lemma remove_absent:
  assumes "validate_import imp = Inr ()"
  shows "\<not> present (remove_import lines imp) imp"
proof -
  let ?keep = "\<lambda>lm. \<not> top_match imp lm"
  let ?zs = "filter ?keep (marked lines)"
  have "code_marks (map (trimTerminator \<circ> fst) ?zs) = map snd ?zs"
    unfolding marked_def using valid_import(3) [OF assms]
    by (intro marks_kept) (auto simp: top_match_def)
  then have "marked (remove_import lines imp) = ?zs"
    by (simp add: remove_import_marked marked_def [of "map fst ?zs"] zip_map_fst_snd)
  then show ?thesis by (auto simp: present_marked list_ex_iff)
qed

subsection \<open>Files and system calls\<close>

datatype path_kind = PathMissing | PathRegular | PathSymlink | PathOther

text \<open>The bytes are \<open>None\<close> when the resolved target does not exist.\<close>

record md_file =
  md_kind :: path_kind
  md_data :: "string option"
  md_mode :: nat
  md_temp :: bool

text \<open>Which system calls succeed. A missing file is not a failure of the calls that may meet one.\<close>

record md_io =
  io_abs :: bool
  io_lstat :: bool
  io_eval :: bool
  io_lock_open :: bool
  io_flock :: bool
  io_lock_close :: bool
  io_read :: bool
  io_stat :: bool
  io_create_temp :: bool
  io_write :: bool
  io_sync :: bool
  io_close :: bool
  io_chmod :: bool
  io_rename :: bool
  io_remove_temp :: bool
  io_lstat2 :: bool
  io_remove :: bool

definition newFileMode :: nat where
  "newFileMode = 420"

definition read_md :: "md_io \<Rightarrow> md_file \<Rightarrow> (import_error, string) result" where
  "read_md io f =
     (case md_data f of
        None \<Rightarrow> Inr []
      | Some d \<Rightarrow> if io_read io then Inr d else Inl (FileOp ''read''))"

definition removeTemp :: "md_io \<Rightarrow> import_error \<Rightarrow> md_file \<Rightarrow> import_error option \<times> md_file" where
  "removeTemp io err f =
     (if io_remove_temp io then (Some err, f)
      else (Some (case err of FileOp a \<Rightarrow> FileOps a ''removeTemp'' | e \<Rightarrow> e), f\<lparr>md_temp := True\<rparr>))"

definition writeTemp :: "md_io \<Rightarrow> (import_error, unit) result" where
  "writeTemp io =
     (if \<not> io_write io then Inl (FileOp ''write'')
      else if \<not> io_sync io then Inl (FileOp ''sync'')
      else if \<not> io_close io then Inl (FileOp ''close'')
      else if \<not> io_chmod io then Inl (FileOp ''chmod'')
      else Inr ())"

definition write_md :: "md_io \<Rightarrow> string \<Rightarrow> md_file \<Rightarrow> import_error option \<times> md_file" where
  "write_md io content f =
     (if \<not> io_stat io then (Some (FileOp ''stat''), f)
      else let mode = (if md_data f = None then newFileMode else md_mode f) in
      if \<not> io_create_temp io then (Some (FileOp ''createTemp''), f)
      else (case writeTemp io of
        Inl e \<Rightarrow> removeTemp io e f
      | Inr _ \<Rightarrow>
          if \<not> io_rename io then removeTemp io (FileOp ''rename'') f
          else (None, f\<lparr>md_data := Some content, md_mode := mode,
                        md_kind := (if md_kind f = PathMissing then PathRegular else md_kind f)\<rparr>)))"

text \<open>\<open>resolve\<close>, \<open>siblingLockPath\<close> and \<open>flockFile\<close> around a critical section.\<close>

definition resolve_md :: "md_io \<Rightarrow> md_file \<Rightarrow> (import_error, unit) result" where
  "resolve_md io f =
     (if \<not> io_lstat io then Inl (FileOp ''lstat'')
      else if md_kind f = PathSymlink \<and> \<not> io_eval io then Inl (FileOp ''evalSymlinks'')
      else Inr ())"

definition flockFile ::
    "md_io \<Rightarrow> 'r \<Rightarrow> (md_file \<Rightarrow> ('r \<times> import_error option) \<times> md_file) \<Rightarrow> md_file
      \<Rightarrow> ('r \<times> import_error option) \<times> md_file" where
  "flockFile io r0 fn f =
     (if \<not> io_lock_open io then ((r0, Some (FileOp ''openLock'')), f)
      else if \<not> io_flock io then ((r0, Some (FileOp ''flock'')), f)
      else (case fn f of
        ((r, None), f') \<Rightarrow> ((r, if io_lock_close io then None else Some (FileOp ''closeLock'')), f')
      | ((r, Some e), f') \<Rightarrow> ((r, Some e), f')))"

definition withLock_md ::
    "md_io \<Rightarrow> 'r \<Rightarrow> (md_file \<Rightarrow> ('r \<times> import_error option) \<times> md_file) \<Rightarrow> md_file
      \<Rightarrow> ('r \<times> import_error option) \<times> md_file" where
  "withLock_md io r0 fn f =
     (case resolve_md io f of
        Inl e \<Rightarrow> ((r0, Some e), f)
      | Inr _ \<Rightarrow>
          if \<not> io_abs io then ((r0, Some (FileOp ''abs'')), f)
          else flockFile io r0 fn f)"

definition Register :: "md_io \<Rightarrow> string \<Rightarrow> md_file \<Rightarrow> (bool \<times> import_error option) \<times> md_file" where
  "Register io importLine f =
     (case validate_import importLine of
        Inl e \<Rightarrow> ((False, Some e), f)
      | Inr _ \<Rightarrow>
          withLock_md io False (\<lambda>f.
            case read_md io f of
              Inl e \<Rightarrow> ((False, Some e), f)
            | Inr content \<Rightarrow>
                if present (splitKeepEnds content) importLine then ((False, None), f)
                else (case write_md io (register_text importLine content) f of
                  (Some e, f') \<Rightarrow> ((False, Some e), f')
                | (None, f') \<Rightarrow> ((True, None), f'))) f)"

definition prune_md ::
    "md_io \<Rightarrow> string \<Rightarrow> bool \<Rightarrow> md_file \<Rightarrow> ((bool \<times> bool) \<times> import_error option) \<times> md_file" where
  "prune_md io importLine discardEmpty f =
     (case validate_import importLine of
        Inl e \<Rightarrow> (((False, False), Some e), f)
      | Inr _ \<Rightarrow>
          withLock_md io (False, False) (\<lambda>f.
            case read_md io f of
              Inl e \<Rightarrow> (((False, False), Some e), f)
            | Inr content \<Rightarrow>
                let lines = splitKeepEnds content; kept = remove_import lines importLine in
                if length kept = length lines then (((False, False), None), f)
                else let joined = concat kept in
                (case write_md io joined f of
                  (Some e, f') \<Rightarrow> (((False, False), Some e), f')
                | (None, f') \<Rightarrow>
                    if \<not> discardEmpty \<or> joined \<noteq> [] then (((True, False), None), f')
                    else if \<not> io_lstat2 io then (((True, False), Some (FileOp ''lstat'')), f')
                    else if md_kind f' = PathRegular then
                      (if io_remove io
                       then (((True, True), None), f'\<lparr>md_kind := PathMissing, md_data := None\<rparr>)
                       else (((True, False), Some (FileOp ''remove'')), f'))
                    else (((True, False), None), f'))) f)"

definition Prune_import :: "md_io \<Rightarrow> string \<Rightarrow> md_file \<Rightarrow> (bool \<times> import_error option) \<times> md_file" where
  "Prune_import io importLine f =
     (case prune_md io importLine False f of (((pruned, _), err), f') \<Rightarrow> ((pruned, err), f'))"

definition PruneAndDiscardEmpty ::
    "md_io \<Rightarrow> string \<Rightarrow> md_file \<Rightarrow> ((bool \<times> bool) \<times> import_error option) \<times> md_file" where
  "PruneAndDiscardEmpty io importLine f = prune_md io importLine True f"

subsection \<open>What the operations leave in the file\<close>

definition content_of :: "md_file \<Rightarrow> string" where
  "content_of f = (case md_data f of None \<Rightarrow> [] | Some d \<Rightarrow> d)"

definition same_file :: "md_file \<Rightarrow> md_file \<Rightarrow> bool" where
  "same_file f f' \<longleftrightarrow> md_data f' = md_data f \<and> md_kind f' = md_kind f \<and> md_mode f' = md_mode f"

definition rewritten :: "md_file \<Rightarrow> string \<Rightarrow> md_file \<Rightarrow> bool" where
  "rewritten f content f' \<longleftrightarrow>
     md_data f' = Some content \<and> md_mode f' = (if md_data f = None then newFileMode else md_mode f)
     \<and> md_kind f' = (if md_kind f = PathMissing then PathRegular else md_kind f)"

lemma same_file_refl [simp]: "same_file f f"
  by (simp add: same_file_def)

lemma removeTemp_same: "removeTemp io e f = (err, f') \<Longrightarrow> err \<noteq> None \<and> same_file f f'"
  by (auto simp: removeTemp_def same_file_def split: if_splits)

lemma write_md_cases:
  "write_md io content f = (err, f') \<Longrightarrow>
     (err = None \<and> rewritten f content f') \<or> (err \<noteq> None \<and> same_file f f')"
  by (auto simp: write_md_def Let_def rewritten_def split: if_splits sum.splits dest: removeTemp_same)

lemma read_md_content: "read_md io f = Inr content \<Longrightarrow> content = content_of f"
  by (auto simp: read_md_def content_of_def split: option.splits if_splits)

lemma withLock_cases:
  assumes "withLock_md io r0 fn f = ((r, err), f')"
  obtains e where "r = r0" "err = Some e" "f' = f"
  | err' where "fn f = ((r, err'), f')" "err = None \<longrightarrow> err' = None" "err' \<noteq> None \<longrightarrow> err = err'"
proof -
  consider "r = r0 \<and> err \<noteq> None \<and> f' = f" | "flockFile io r0 fn f = ((r, err), f')"
    using assms by (auto simp: withLock_md_def split: sum.splits if_splits)
  then show ?thesis
  proof cases
    case 2
    obtain r1 err1 f1 where fn: "fn f = ((r1, err1), f1)" by (metis surj_pair)
    with 2 show ?thesis using that
      by (cases err1) (auto simp: flockFile_def split: if_splits)
  qed (use that in auto)
qed

lemma Register_cases:
  assumes "Register io imp f = ((wrote, err), f')"
  shows "(wrote \<longrightarrow> validate_import imp = Inr () \<and> \<not> present (splitKeepEnds (content_of f)) imp
        \<and> rewritten f (register_text imp (content_of f)) f')
    \<and> (\<not> wrote \<longrightarrow> same_file f f')
    \<and> (err = None \<longrightarrow> validate_import imp = Inr () \<and> (wrote \<or> present (splitKeepEnds (content_of f)) imp))"
proof (cases "validate_import imp")
  case Inl
  with assms show ?thesis by (auto simp: Register_def)
next
  case (Inr u)
  note W = assms [unfolded Register_def Inr sum.case]
  from W show ?thesis
  proof (cases rule: withLock_cases)
    case (2 err')
    show ?thesis
    proof (cases "read_md io f")
      case Inl
      with 2 show ?thesis by auto
    next
      case (Inr content)
      note c = read_md_content [OF Inr]
      obtain e1 f1 where w: "write_md io (register_text imp content) f = (e1, f1)" by fastforce
      show ?thesis
      proof (cases "present (splitKeepEnds content) imp")
        case True
        have "((False, None), f) = ((wrote, err'), f')" using 2(1) by (simp add: Inr True)
        with 2(2) True \<open>validate_import imp = Inr u\<close> show ?thesis unfolding c by simp
      next
        case False
        have e: "((e1 = None, e1), f1) = ((wrote, err'), f')"
          using 2(1) Inr False w by (cases e1) auto
        with write_md_cases [OF w] 2(2) False \<open>validate_import imp = Inr u\<close> show ?thesis unfolding c
          by (cases e1) auto
      qed
    qed
  qed simp
qed

lemma Register_ok_present:
  assumes "Register io imp f = ((wrote, None), f')"
  shows "present (splitKeepEnds (content_of f')) imp"
proof -
  note R = Register_cases [OF assms]
  have same: "content_of f' = content_of f" if "same_file f f'"
    using that by (simp add: same_file_def content_of_def)
  have "content_of f' = register_text imp (content_of f)" "validate_import imp = Inr ()" if wrote
    using R that by (auto simp: rewritten_def content_of_def)
  with R same register_present [of imp "content_of f"] show ?thesis by (cases wrote) auto
qed

lemma Register_keeps_present:
  assumes "Register io imp f = ((wrote, err), f')" "present (splitKeepEnds (content_of f)) imp"
  shows "present (splitKeepEnds (content_of f')) imp"
  using Register_cases [OF assms(1)] assms(2) by (auto simp: same_file_def content_of_def)

text \<open>
  Registering is safe and effective: when it reports no error the import is a top-level line of
  the file; when it did not write, bytes, mode and kind of the file are what they were, whatever
  system call failed; when it wrote, the file holds the old bytes followed by the import.
\<close>

theorem Register_spec:
  assumes "Register io imp f = ((wrote, err), f')"
  shows "(err = None \<longrightarrow> present (splitKeepEnds (content_of f')) imp)
    \<and> (\<not> wrote \<longrightarrow> same_file f f')
    \<and> (wrote \<longrightarrow> (\<exists>t. content_of f' = content_of f @ t) \<and> md_mode f' = (if md_data f = None then newFileMode else md_mode f))"
proof -
  note R = Register_cases [OF assms]
  have same: "content_of f' = content_of f" if "same_file f f'"
    using that by (simp add: same_file_def content_of_def)
  have wrote: "content_of f' = register_text imp (content_of f)" "validate_import imp = Inr ()" if wrote
    using R that by (auto simp: rewritten_def content_of_def)
  have "\<exists>t. register_text imp (content_of f) = content_of f @ t"
    by (simp add: register_text_def Let_def concat_split)
  with R same wrote register_present [of imp "content_of f"] show ?thesis
    by (cases wrote) (auto simp: rewritten_def)
qed

lemma prune_md_cases:
  assumes "prune_md io imp d f = (((pruned, removed), err), f')"
  shows "(pruned \<and> \<not> removed \<longrightarrow> rewritten f (prune_text imp (content_of f)) f')
    \<and> (removed \<longrightarrow> pruned \<and> d \<and> prune_text imp (content_of f) = [] \<and> md_kind f \<in> {PathRegular, PathMissing}
          \<and> md_data f' = None \<and> md_kind f' = PathMissing)
    \<and> (\<not> pruned \<longrightarrow> same_file f f')
    \<and> (err = None \<longrightarrow> validate_import imp = Inr () \<and>
         (pruned \<longleftrightarrow> length (remove_import (splitKeepEnds (content_of f)) imp) \<noteq> length (splitKeepEnds (content_of f)))
         \<and> (d \<and> pruned \<and> prune_text imp (content_of f) = [] \<and> md_kind f = PathRegular \<longrightarrow> removed))"
proof (cases "validate_import imp")
  case Inl
  with assms show ?thesis by (auto simp: prune_md_def)
next
  case (Inr u)
  note W = assms [unfolded prune_md_def Inr sum.case]
  from W show ?thesis
  proof (cases rule: withLock_cases)
    case (2 err')
    show ?thesis
    proof (cases "read_md io f")
      case Inl
      with 2 show ?thesis by auto
    next
      case (Inr content)
      note c = read_md_content [OF Inr]
      let ?n = "length (remove_import (splitKeepEnds content) imp) = length (splitKeepEnds content)"
      let ?out = "prune_text imp content"
      obtain e1 f1 where w: "write_md io ?out f = (e1, f1)" by fastforce
      note w' = w [unfolded prune_text_def]
      show ?thesis
      proof (cases ?n)
        case True
        have "(((False, False), None), f) = (((pruned, removed), err'), f')"
          using 2(1) by (simp add: Inr True Let_def)
        with 2(2) True \<open>validate_import imp = Inr u\<close> show ?thesis unfolding c by simp
      next
        case False
        have e: "(case e1 of Some e \<Rightarrow> (((False, False), Some e), f1)
            | None \<Rightarrow>
                if \<not> d \<or> ?out \<noteq> [] then (((True, False), None), f1)
                else if \<not> io_lstat2 io then (((True, False), Some (FileOp ''lstat'')), f1)
                else if md_kind f1 = PathRegular then
                  (if io_remove io then (((True, True), None), f1\<lparr>md_kind := PathMissing, md_data := None\<rparr>)
                   else (((True, False), Some (FileOp ''remove'')), f1))
                else (((True, False), None), f1)) = (((pruned, removed), err'), f')"
          using 2(1) Inr False w' unfolding prune_text_def by (cases e1) (auto simp: Let_def)
        show ?thesis
        proof (cases e1)
          case None
          with write_md_cases [OF w] have r: "rewritten f ?out f1" by simp
          then have k: "md_kind f1 = PathRegular \<longleftrightarrow> md_kind f \<in> {PathRegular, PathMissing}"
            by (auto simp: rewritten_def)
          show ?thesis using e [unfolded None option.case] r k 2(2) False \<open>validate_import imp = Inr u\<close>
            unfolding c by (auto split: if_splits)
        next
          case (Some x)
          with e write_md_cases [OF w] 2(2,3) show ?thesis unfolding c by auto
        qed
      qed
    qed
  qed simp
qed

lemma prune_counts: "length (remove_import lines imp) \<noteq> length lines \<longleftrightarrow> present lines imp"
proof -
  have "length (marked lines) = length lines" by (simp add: marked_def)
  moreover have "length (filter (\<lambda>lm. \<not> top_match imp lm) (marked lines)) < length (marked lines)"
    if "present lines imp"
    using that length_filter_less [of _ "marked lines" "\<lambda>lm. \<not> top_match imp lm"]
    by (auto simp: present_marked list_ex_iff)
  moreover have "filter (\<lambda>lm. \<not> top_match imp lm) (marked lines) = marked lines" if "\<not> present lines imp"
    using that by (auto simp: present_marked list_ex_iff filter_id_conv)
  ultimately show ?thesis by (cases "present lines imp") (simp_all add: remove_import_marked)
qed

text \<open>
  Register and Prune round trip: on a file that does not import the line at its top level, a
  Register and a Prune that report no error give the bytes back, followed by one line break of the
  file's own kind exactly when its last line had none, and keep the mode of an existing file.
\<close>

theorem Register_Prune_roundtrip:
  assumes "Register io imp f = ((wrote, None), f1)" "Prune_import io' imp f1 = ((pruned, None), f2)"
    and "\<not> present (splitKeepEnds (content_of f)) imp"
  shows "wrote \<and> pruned \<and> md_mode f2 = (if md_data f = None then newFileMode else md_mode f) \<and> content_of f2 = content_of f @
    (if content_of f \<noteq> [] \<and> terminator (last (splitKeepEnds (content_of f))) = []
     then hostEOL (splitKeepEnds (content_of f)) else [])"
proof -
  from Register_cases [OF assms(1)] assms(3) have v: "validate_import imp = Inr ()" and wrote: wrote
    and r: "rewritten f (register_text imp (content_of f)) f1" by auto
  have c: "content_of f1 = register_text imp (content_of f)" using r by (simp add: rewritten_def content_of_def)
  obtain rem where p: "prune_md io' imp False f1 = (((pruned, rem), None), f2)"
    using assms(2) by (auto simp: Prune_import_def split: prod.splits)
  from prune_md_cases [OF p] prune_counts register_present [OF v, of "content_of f"]
  have pruned and r2: "rewritten f1 (prune_text imp (content_of f1)) f2" unfolding c by auto
  with wrote r register_then_prune [OF v assms(3)] c show ?thesis
    by (auto simp: rewritten_def content_of_def)
qed

lemma PruneAndDiscardEmpty_facts:
  assumes "PruneAndDiscardEmpty io imp f = (((pruned, removed), None), f')"
  shows "let lines = splitKeepEnds (content_of f); kept = remove_import lines imp in
      content_of f' = concat kept \<and> \<not> present kept imp \<and> (pruned \<longleftrightarrow> present lines imp)
    \<and> kept = map fst (filter (\<lambda>lm. \<not> top_match imp lm) (zip lines (code_marks (map trimTerminator lines))))
    \<and> (removed \<longrightarrow> pruned \<and> concat kept = [] \<and> md_kind f \<noteq> PathSymlink \<and> md_data f' = None)
    \<and> (\<not> pruned \<longrightarrow> same_file f f')"
proof -
  let ?lines = "splitKeepEnds (content_of f)"
  note P = prune_md_cases [OF assms [unfolded PruneAndDiscardEmpty_def]]
  have v: "validate_import imp = Inr ()" and n: "pruned \<longleftrightarrow> present ?lines imp"
    using P prune_counts [of ?lines imp] by auto
  have "content_of f' = concat (remove_import ?lines imp)"
  proof (cases pruned)
    case True
    with P show ?thesis by (cases removed) (auto simp: rewritten_def content_of_def prune_text_def)
  next
    case False
    then have "remove_import ?lines imp = ?lines"
      using n by (simp add: remove_import_marked present_marked list_ex_iff filter_id_conv) (simp add: marked_def)
    with P False show ?thesis by (simp add: same_file_def content_of_def concat_split)
  qed
  with P n remove_absent [OF v, of ?lines] show ?thesis
    by (auto simp: Let_def prune_text_def remove_import_marked marked_def)
qed

text \<open>
  C33. Pruning is exact: without error, the file is the concatenation of its lines less the top-level
  matches (a match inside a code block stays), no top-level match is left among them, and the file
  is rewritten exactly when there was one; and it is removed only when nothing is left of it and the
  path is a plain file.
\<close>

theorem PruneAndDiscardEmpty_exact:
  assumes "PruneAndDiscardEmpty io imp f = (((pruned, removed), None), f')"
  shows "let lines = splitKeepEnds (content_of f); kept = remove_import lines imp in
      content_of f' = concat kept \<and> \<not> present kept imp \<and> (pruned \<longleftrightarrow> present lines imp)
    \<and> kept = map fst (filter (\<lambda>lm. \<not> top_match imp lm) (zip lines (code_marks (map trimTerminator lines))))
    \<and> (removed \<longrightarrow> pruned \<and> concat kept = [] \<and> md_kind f \<noteq> PathSymlink \<and> md_data f' = None)
    \<and> (\<not> pruned \<longrightarrow> same_file f f')"
  by (rule PruneAndDiscardEmpty_facts [OF assms])

subsection \<open>Witnesses\<close>

text \<open>A file with a match inside a fenced block and an unterminated last line, and calls that all succeed.\<close>

definition sample_import :: string where
  "sample_import = ''@a/b.md''"

definition sample_md :: md_file where
  "sample_md = \<lparr>md_kind = PathRegular,
     md_data = Some (''# t'' @ [CR, NL] @ replicate 3 (CHR 0x60) @ [CR, NL] @ sample_import @ [CR, NL]
       @ replicate 3 (CHR 0x60) @ [CR, NL] @ ''end''),
     md_mode = 384, md_temp = False\<rparr>"

definition all_calls :: md_io where
  "all_calls = \<lparr>io_abs = True, io_lstat = True, io_eval = True, io_lock_open = True, io_flock = True,
     io_lock_close = True, io_read = True, io_stat = True, io_create_temp = True, io_write = True,
     io_sync = True, io_close = True, io_chmod = True, io_rename = True, io_remove_temp = True,
     io_lstat2 = True, io_remove = True\<rparr>"

definition sample_registered :: md_file where
  "sample_registered = snd (Register all_calls sample_import sample_md)"

lemma sample_register: "Register all_calls sample_import sample_md = ((True, None), sample_registered)"
  unfolding sample_registered_def by code_simp

lemma sample_md_prune:
  "Prune_import all_calls sample_import sample_registered =
     ((True, None), snd (Prune_import all_calls sample_import sample_registered))"
  "PruneAndDiscardEmpty all_calls sample_import sample_registered =
     (((True, False), None), snd (PruneAndDiscardEmpty all_calls sample_import sample_registered))"
  unfolding sample_registered_def by code_simp+

lemma sample_absent: "\<not> present (splitKeepEnds (content_of sample_md)) sample_import"
  by code_simp

theorem Register_spec_witness: "present (splitKeepEnds (content_of sample_registered)) sample_import"
  using Register_spec [OF sample_register] by simp

theorem Register_Prune_roundtrip_witness:
  "md_mode (snd (Prune_import all_calls sample_import sample_registered)) = 384"
  using Register_Prune_roundtrip [OF sample_register sample_md_prune(1) sample_absent]
  by (simp add: sample_md_def)

theorem PruneAndDiscardEmpty_exact_witness:
  "\<not> present (remove_import (splitKeepEnds (content_of sample_registered)) sample_import) sample_import"
  using PruneAndDiscardEmpty_exact [OF sample_md_prune(2)] unfolding Let_def by blast

end
