(* ===== verification/Json.thy ===== *)
theory Json
  imports GoStrings
begin

section \<open>JSON texts: the part of package encoding/json the editors use\<close>

text \<open>
  The lexical syntax, the grammar as the pushdown automaton of Go's scanner, string literals in both
  directions, and the layout of \<open>json.Indent\<close>. A JSON value kept as written is its list of tokens,
  each literal with the bytes it had: white space between tokens is the only part of a text that no
  later step reads, since every writer here lays the tokens out anew. The library maps to no file of
  the repository.

  The facts the editors rest on: reading what \<open>indent\<close> wrote gives the tokens back
  (\<open>tokenize_indent\<close>), an object read from what was encoded has the same members
  (\<open>parseObject_encode\<close>), and a string literal decodes to the string it was encoded from
  (\<open>unquote_quote\<close>).
\<close>

subsection \<open>Lexical syntax\<close>

datatype jtok = LBrace | RBrace | LBrack | RBrack | Comma | Colon | Lit string

definition json_space :: "char \<Rightarrow> bool" where
  "json_space c \<longleftrightarrow> c = CHR '' '' \<or> c = TAB \<or> c = CR \<or> c = NL"

definition hex_val :: "char \<Rightarrow> nat option" where
  "hex_val c =
     (let b = byte c in
      if 48 \<le> b \<and> b \<le> 57 then Some (b - 48)
      else if 97 \<le> b \<and> b \<le> 102 then Some (b - 87)
      else if 65 \<le> b \<and> b \<le> 70 then Some (b - 55)
      else None)"

text \<open>\<open>getu4\<close>: the code unit of four hexadecimal digits at the start of a text.\<close>

definition hex4 :: "string \<Rightarrow> nat option" where
  "hex4 s =
     (if length s < 4 \<or> list_ex (\<lambda>c. hex_val c = None) (take 4 s) then None
      else Some (foldl (\<lambda>n c. 16 * n + the (hex_val c)) 0 (take 4 s)))"

definition prepend :: "string \<Rightarrow> (string \<times> string) option \<Rightarrow> (string \<times> string) option" where
  "prepend p r = map_option (apfst (append p)) r"

text \<open>One unit of a string literal: a byte, or an escape sequence.\<close>

definition str_unit :: "string \<Rightarrow> (string \<times> string) option" where
  "str_unit s =
     (case s of
        [] \<Rightarrow> None
      | c # cs \<Rightarrow>
          if c = BACKSLASH then
            (case cs of
               [] \<Rightarrow> None
             | e # es \<Rightarrow>
                 if e \<in> set (QUOTE # BACKSLASH # ''/bfnrt'') then Some ([BACKSLASH, e], es)
                 else if e = CHR ''u'' then
                   (if hex4 es = None then None else Some ([BACKSLASH, e] @ take 4 es, drop 4 es))
                 else None)
          else if byte c < 32 then None
          else Some ([c], cs))"

lemma str_unit_shorter: "str_unit s = Some (u, r) \<Longrightarrow> length r < length s"
  by (auto simp: str_unit_def split: list.splits if_splits)

text \<open>A string literal after its opening quote: its text with the closing quote, and what follows.\<close>

function lex_string :: "string \<Rightarrow> (string \<times> string) option" where
  "lex_string [] = None"
| "lex_string (c # cs) =
     (if c = QUOTE then Some ([QUOTE], cs)
      else (case str_unit (c # cs) of
        None \<Rightarrow> None
      | Some (u, r) \<Rightarrow> prepend u (lex_string r)))"
  by pat_completeness auto

termination by (relation "measure length") (auto dest: str_unit_shorter)

definition lex_digits :: "string \<Rightarrow> (string \<times> string) option" where
  "lex_digits s =
     (let ds = takeWhile is_digit s in if ds = [] then None else Some (ds, drop (length ds) s))"

definition lex_int :: "string \<Rightarrow> (string \<times> string) option" where
  "lex_int s =
     (case s of
        [] \<Rightarrow> None
      | c # r \<Rightarrow> if c = CHR ''0'' then Some ([c], r) else lex_digits s)"

definition lex_frac :: "string \<Rightarrow> (string \<times> string) option" where
  "lex_frac s =
     (case s of
        [] \<Rightarrow> Some ([], [])
      | c # r \<Rightarrow> if c = CHR ''.'' then prepend [c] (lex_digits r) else Some ([], s))"

definition lex_exp :: "string \<Rightarrow> (string \<times> string) option" where
  "lex_exp s =
     (case s of
        [] \<Rightarrow> Some ([], [])
      | c # r \<Rightarrow>
          if c = CHR ''e'' \<or> c = CHR ''E'' then
            (case r of
               [] \<Rightarrow> None
             | g # r' \<Rightarrow>
                 if g = CHR ''+'' \<or> g = CHR ''-'' then prepend [c, g] (lex_digits r')
                 else prepend [c] (lex_digits r))
          else Some ([], s))"

definition lex_number :: "string \<Rightarrow> (string \<times> string) option" where
  "lex_number s =
     (let (neg, s1) = (case s of c # r \<Rightarrow> if c = CHR ''-'' then ([c], r) else ([], s) | [] \<Rightarrow> ([], [])) in
      case lex_int s1 of
        None \<Rightarrow> None
      | Some (i, s2) \<Rightarrow>
          (case lex_frac s2 of
             None \<Rightarrow> None
           | Some (f, s3) \<Rightarrow>
               (case lex_exp s3 of
                  None \<Rightarrow> None
                | Some (e, s4) \<Rightarrow> Some (neg @ i @ f @ e, s4))))"

definition lex_word :: "string \<Rightarrow> (string \<times> string) option" where
  "lex_word s =
     (if HasPrefix s ''true'' then Some (''true'', drop 4 s)
      else if HasPrefix s ''false'' then Some (''false'', drop 5 s)
      else if HasPrefix s ''null'' then Some (''null'', drop 4 s)
      else lex_number s)"

definition punct :: "char \<Rightarrow> jtok option" where
  "punct c =
     (if c = CHR 0x7B then Some LBrace else if c = CHR 0x7D then Some RBrace
      else if c = CHR ''['' then Some LBrack else if c = CHR '']'' then Some RBrack
      else if c = CHR '','' then Some Comma else if c = CHR '':'' then Some Colon
      else None)"

text \<open>One token of a text that does not start with white space.\<close>

definition lex :: "string \<Rightarrow> (jtok \<times> string) option" where
  "lex s =
     (case s of
        [] \<Rightarrow> None
      | c # cs \<Rightarrow>
          (case punct c of
             Some t \<Rightarrow> Some (t, cs)
           | None \<Rightarrow>
               if c = QUOTE then map_option (\<lambda>(b, r). (Lit (QUOTE # b), r)) (lex_string cs)
               else map_option (\<lambda>(w, r). (Lit w, r)) (lex_word s)))"

lemma lex_string_shorter: "lex_string s = Some (b, r) \<Longrightarrow> length r < length s"
  by (induction s arbitrary: b r rule: lex_string.induct)
    (fastforce simp: prepend_def dest: str_unit_shorter split: if_splits option.splits prod.splits)+

lemma lex_digits_shorter: "lex_digits s = Some (b, r) \<Longrightarrow> length r < length s"
  by (cases s) (auto simp: lex_digits_def Let_def split: if_splits)

lemma lex_int_shorter: "lex_int s = Some (i, r) \<Longrightarrow> length r < length s"
  by (auto simp: lex_int_def dest: lex_digits_shorter split: list.splits if_splits)

lemma lex_frac_shorter: "lex_frac s = Some (i, r) \<Longrightarrow> length r \<le> length s"
  by (auto simp: lex_frac_def prepend_def dest!: lex_digits_shorter split: list.splits if_splits)

lemma lex_exp_shorter: "lex_exp s = Some (i, r) \<Longrightarrow> length r \<le> length s"
  by (auto simp: lex_exp_def prepend_def dest!: lex_digits_shorter split: list.splits if_splits)

lemma lex_number_shorter:
  assumes "lex_number s = Some (w, r)"
  shows "length r < length s"
proof -
  obtain neg s1 where s1: "(case s of c # r \<Rightarrow> if c = CHR ''-'' then ([c], r) else ([], s) | [] \<Rightarrow> ([], [])) = (neg, s1)"
    by fastforce
  have "length s1 \<le> length s" using s1 by (auto split: list.splits if_splits)
  moreover obtain i s2 f s3 e where "lex_int s1 = Some (i, s2)" "lex_frac s2 = Some (f, s3)" "lex_exp s3 = Some (e, r)"
    using assms unfolding lex_number_def s1 Let_def by (auto split: option.splits)
  ultimately show ?thesis
    using lex_int_shorter lex_frac_shorter lex_exp_shorter by (meson le_less_trans less_le_trans)
qed

lemma lex_word_shorter: "lex_word s = Some (w, r) \<Longrightarrow> length r < length s"
  by (auto simp: lex_word_def HasPrefix_iff dest: lex_number_shorter split: if_splits)

lemma lex_shorter:
  assumes "lex s = Some (t, r)"
  shows "length r < length s"
proof (cases s)
  case (Cons c cs)
  show ?thesis
  proof (cases "punct c")
    case None
    with assms Cons show ?thesis
      by (cases "c = QUOTE") (auto simp: lex_def dest: lex_string_shorter lex_word_shorter)
  qed (use assms Cons in \<open>auto simp: lex_def\<close>)
qed (use assms in \<open>simp add: lex_def\<close>)

function tokenize :: "string \<Rightarrow> jtok list option" where
  "tokenize [] = Some []"
| "tokenize (c # cs) =
     (if json_space c then tokenize cs
      else (case lex (c # cs) of
        None \<Rightarrow> None
      | Some (t, r) \<Rightarrow> map_option (Cons t) (tokenize r)))"
  by pat_completeness auto

termination by (relation "measure length") (auto dest: lex_shorter)

subsection \<open>String literals\<close>

text \<open>A literal to the string it denotes; surrogate pairs combine, lone surrogates and invalid bytes do not.\<close>

definition surrogate_pair :: "nat \<Rightarrow> string \<Rightarrow> (nat \<times> string) option" where
  "surrogate_pair r rest =
     (if HasPrefix rest [BACKSLASH, CHR ''u''] then
        (case hex4 (drop 2 rest) of
           None \<Rightarrow> None
         | Some r1 \<Rightarrow>
             if 0xD800 \<le> r \<and> r < 0xDC00 \<and> 0xDC00 \<le> r1 \<and> r1 < 0xE000
             then Some (0x10000 + (r - 0xD800) * 1024 + (r1 - 0xDC00), drop 6 rest)
             else None)
      else None)"

definition unescape_u :: "string \<Rightarrow> string \<times> string" where
  "unescape_u es =
     (case hex4 es of
        None \<Rightarrow> ([], [])
      | Some r \<Rightarrow>
          if 0xD800 \<le> r \<and> r < 0xE000 then
            (case surrogate_pair r (drop 4 es) of
               Some (r2, rest) \<Rightarrow> (encode_rune r2, rest)
             | None \<Rightarrow> (encode_rune RuneError, drop 4 es))
          else (encode_rune r, drop 4 es))"

lemma unescape_u_shorter: "length (snd (unescape_u es)) \<le> length es"
  by (auto simp: unescape_u_def surrogate_pair_def split: option.splits if_splits)

definition escape_char :: "char \<Rightarrow> char option" where
  "escape_char e =
     (if e = CHR ''b'' then Some (CHR 0x08) else if e = CHR ''f'' then Some (CHR 0x0C)
      else if e = CHR ''n'' then Some NL else if e = CHR ''r'' then Some CR else if e = CHR ''t'' then Some TAB
      else if e \<in> {QUOTE, BACKSLASH, CHR ''/''} then Some e
      else None)"

definition unquote_step :: "string \<Rightarrow> string \<times> string" where
  "unquote_step s =
     (case s of
        [] \<Rightarrow> ([], [])
      | c # cs \<Rightarrow>
          if c = BACKSLASH then
            (case cs of
               [] \<Rightarrow> ([], [])
             | e # es \<Rightarrow>
                 if e = CHR ''u'' then unescape_u es
                 else (case escape_char e of None \<Rightarrow> ([], []) | Some x \<Rightarrow> ([x], es)))
          else (encode_rune (fst (decode_rune (bytes s))), drop (rune_width s) s))"

lemma unquote_step_shorter: "length (snd (unquote_step (c # cs))) < length (c # cs)"
  using unescape_u_shorter [of "tl cs"]
  by (auto simp: unquote_step_def split: list.splits option.splits)

function unquote_body :: "string \<Rightarrow> string" where
  "unquote_body [] = []"
| "unquote_body (c # cs) =
     (if c = QUOTE then []
      else fst (unquote_step (c # cs)) @ unquote_body (snd (unquote_step (c # cs))))"
  by pat_completeness auto

termination by (relation "measure length") (auto simp del: list.size intro: unquote_step_shorter)

definition unquote :: "string \<Rightarrow> string" where
  "unquote l = unquote_body (tl l)"

text \<open>ASCII first, for evaluation.\<close>

definition is_ascii :: "char \<Rightarrow> bool" where
  "is_ascii c \<longleftrightarrow> byte c < 128"

lemma is_ascii_code [code]: "is_ascii (Char b0 b1 b2 b3 b4 b5 b6 b7) \<longleftrightarrow> \<not> b7"
  by (cases b0; cases b1; cases b2; cases b3; cases b4; cases b5; cases b6; cases b7) (simp_all add: is_ascii_def byte_def)

lemma ascii_rune: "byte c < 128 \<Longrightarrow> decode_rune (bytes (c # cs)) = (byte c, 1) \<and> encode_rune (byte c) = [c]"
  by (simp add: bytes_def decode_rune.simps encode_rune_def of_bytes_def)

lemma ascii_width: "byte c < 128 \<Longrightarrow> rune_width (c # cs) = 1"
  by (simp add: rune_width_def ascii_rune)

declare rune_chunks.simps [code del] unquote_step_def [code del]

lemma rune_chunks_ascii_code [code]:
  "rune_chunks [] = []"
  "rune_chunks (c # cs) =
     (if is_ascii c then ([c], byte c, True) # rune_chunks cs
      else (take (rune_width (c # cs)) (c # cs), fst (decode_rune (bytes (c # cs))), rune_width (c # cs) \<noteq> 1)
           # rune_chunks (drop (rune_width (c # cs)) (c # cs)))"
  using rune_chunks_Cons [of "c # cs"] ascii_rune [of c cs] ascii_width [of c cs] by (auto simp: is_ascii_def)

declare valid_utf8_def [code del]

lemma valid_utf8_code [code]:
  "valid_utf8 [] = True"
  "valid_utf8 (c # cs) =
     (if is_ascii c then valid_utf8 cs else list_all (\<lambda>(_, _, ok). ok) (rune_chunks (c # cs)))"
  by (simp_all add: valid_utf8_def rune_chunks_ascii_code(2) is_ascii_def)

definition is_control :: "char \<Rightarrow> bool" where
  "is_control c \<longleftrightarrow> byte c < 32"

lemma is_control_code [code]: "is_control (Char b0 b1 b2 b3 b4 b5 b6 b7) \<longleftrightarrow> \<not> b5 \<and> \<not> b6 \<and> \<not> b7"
  by (cases b0; cases b1; cases b2; cases b3; cases b4; cases b5; cases b6; cases b7) (simp_all add: is_control_def byte_def)

declare str_unit_def [code del]

lemma str_unit_code [code]:
  "str_unit [] = None"
  "str_unit (c # cs) =
     (if c = BACKSLASH then
        (case cs of
           [] \<Rightarrow> None
         | e # es \<Rightarrow>
             if e \<in> set (QUOTE # BACKSLASH # ''/bfnrt'') then Some ([BACKSLASH, e], es)
             else if e = CHR ''u'' then
               (if hex4 es = None then None else Some ([BACKSLASH, e] @ take 4 es, drop 4 es))
             else None)
      else if is_control c then None
      else Some ([c], cs))"
  by (simp_all add: str_unit_def is_control_def split: list.split)

lemma unquote_step_code [code]:
  "unquote_step [] = ([], [])"
  "unquote_step (c # cs) =
     (if c = BACKSLASH then
        (case cs of
           [] \<Rightarrow> ([], [])
         | e # es \<Rightarrow>
             if e = CHR ''u'' then unescape_u es
             else (case escape_char e of None \<Rightarrow> ([], []) | Some x \<Rightarrow> ([x], es)))
      else if is_ascii c then ([c], cs)
      else (encode_rune (fst (decode_rune (bytes (c # cs)))), drop (rune_width (c # cs)) (c # cs)))"
  by (simp_all add: unquote_step_def is_ascii_def ascii_rune ascii_width split: list.split)

declare unquote_body.simps [code del]

lemma unquote_body_code [code]:
  "unquote_body [] = []"
  "unquote_body (c # cs) =
     (if c = QUOTE then []
      else if c = BACKSLASH \<or> \<not> is_ascii c then (case unquote_step (c # cs) of (a, b) \<Rightarrow> a @ unquote_body b)
      else c # unquote_body cs)"
  by (simp_all add: unquote_step_code is_ascii_def split: prod.split)

definition hex_low :: "nat \<Rightarrow> char" where
  "hex_low n = (if n < 10 then char_of (48 + n) else char_of (87 + n))"

definition esc_rune :: "bool \<Rightarrow> string \<times> nat \<times> bool \<Rightarrow> string" where
  "esc_rune html = (\<lambda>(chunk, r, ok).
     if \<not> ok then [BACKSLASH] @ ''ufffd''
     else if r = 34 \<or> r = 92 then BACKSLASH # chunk
     else if r = 8 then [BACKSLASH, CHR ''b''] else if r = 12 then [BACKSLASH, CHR ''f'']
     else if r = 10 then [BACKSLASH, CHR ''n''] else if r = 13 then [BACKSLASH, CHR ''r'']
     else if r = 9 then [BACKSLASH, CHR ''t'']
     else if r < 32 \<or> (html \<and> r \<in> {38, 60, 62})
       then [BACKSLASH] @ ''u00'' @ [hex_low (r div 16), hex_low (r mod 16)]
     else if r = 0x2028 \<or> r = 0x2029 then [BACKSLASH] @ ''u202'' @ [hex_low (r mod 16)]
     else chunk)"

lemma esc_rune_code [code]:
  "esc_rune html (chunk, r, ok) =
     (if \<not> ok then [BACKSLASH] @ ''ufffd''
      else if r < 128 then
        (if r = 34 \<or> r = 92 then BACKSLASH # chunk
         else if r < 32 then
           (if r = 8 then [BACKSLASH, CHR ''b''] else if r = 12 then [BACKSLASH, CHR ''f'']
            else if r = 10 then [BACKSLASH, CHR ''n''] else if r = 13 then [BACKSLASH, CHR ''r'']
            else if r = 9 then [BACKSLASH, CHR ''t'']
            else [BACKSLASH] @ ''u00'' @ [hex_low (r div 16), hex_low (r mod 16)])
         else if html \<and> (r = 38 \<or> r = 60 \<or> r = 62)
           then [BACKSLASH] @ ''u00'' @ [hex_low (r div 16), hex_low (r mod 16)]
         else chunk)
      else if r = 0x2028 \<or> r = 0x2029 then [BACKSLASH] @ ''u202'' @ [hex_low (r mod 16)]
      else chunk)"
  by (auto simp: esc_rune_def)

definition quote_json :: "bool \<Rightarrow> string \<Rightarrow> string" where
  "quote_json html s = [QUOTE] @ concat (map (esc_rune html) (rune_chunks s)) @ [QUOTE]"

subsection \<open>The grammar\<close>

datatype jctx = InObj | InArr

datatype jstate = BeginValue | BeginValueOrEmpty | BeginStringOrEmpty | BeginString | AfterKey | EndValue

definition key_tok :: "jtok \<Rightarrow> bool" where
  "key_tok t \<longleftrightarrow> (case t of Lit l \<Rightarrow> HasPrefix l [QUOTE] | _ \<Rightarrow> False)"

fun begin_value :: "jctx list \<Rightarrow> jtok \<Rightarrow> (jstate \<times> jctx list) option" where
  "begin_value stk (Lit l) = Some (EndValue, stk)"
| "begin_value stk LBrace = Some (BeginStringOrEmpty, InObj # stk)"
| "begin_value stk LBrack = Some (BeginValueOrEmpty, InArr # stk)"
| "begin_value stk t = None"

fun scan_step :: "jstate \<Rightarrow> jctx list \<Rightarrow> jtok \<Rightarrow> (jstate \<times> jctx list) option" where
  "scan_step BeginValue stk t = begin_value stk t"
| "scan_step BeginValueOrEmpty stk t = (if t = RBrack then Some (EndValue, tl stk) else begin_value stk t)"
| "scan_step BeginStringOrEmpty stk t =
     (if t = RBrace then Some (EndValue, tl stk) else if key_tok t then Some (AfterKey, stk) else None)"
| "scan_step BeginString stk t = (if key_tok t then Some (AfterKey, stk) else None)"
| "scan_step AfterKey stk t = (if t = Colon then Some (BeginValue, stk) else None)"
| "scan_step EndValue [] t = None"
| "scan_step EndValue (InObj # stk) t =
     (if t = Comma then Some (BeginString, InObj # stk) else if t = RBrace then Some (EndValue, stk) else None)"
| "scan_step EndValue (InArr # stk) t =
     (if t = Comma then Some (BeginValue, InArr # stk) else if t = RBrack then Some (EndValue, stk) else None)"

text \<open>Reads one value: its tokens and what follows.\<close>

fun read_from :: "jstate \<Rightarrow> jctx list \<Rightarrow> jtok list \<Rightarrow> (jtok list \<times> jtok list) option" where
  "read_from st stk [] = None"
| "read_from st stk (t # ts) =
     (case scan_step st stk t of
        None \<Rightarrow> None
      | Some (st', stk') \<Rightarrow>
          if st' = EndValue \<and> stk' = [] then Some ([t], ts)
          else map_option (apfst (Cons t)) (read_from st' stk' ts))"

definition read_value :: "jtok list \<Rightarrow> (jtok list \<times> jtok list) option" where
  "read_value = read_from BeginValue []"

lemma read_from_split: "read_from st stk ts = Some (v, r) \<Longrightarrow> ts = v @ r \<and> v \<noteq> [] \<and> read_from st stk (v @ r') = Some (v, r')"
proof (induction ts arbitrary: st stk v)
  case (Cons t ts)
  obtain st' stk' where s: "scan_step st stk t = Some (st', stk')"
    using Cons.prems by (cases "scan_step st stk t") auto
  show ?case
  proof (cases "st' = EndValue \<and> stk' = []")
    case True
    with Cons.prems s show ?thesis by auto
  next
    case False
    then obtain v' where "read_from st' stk' ts = Some (v', r)" "v = t # v'"
      using Cons.prems s by (auto simp: apfst_def map_prod_def split: prod.splits)
    with Cons.IH [OF this(1)] False s show ?thesis by auto
  qed
qed simp

lemma read_value_split: "read_value ts = Some (v, r) \<Longrightarrow> ts = v @ r \<and> v \<noteq> [] \<and> read_value (v @ r') = Some (v, r')"
  unfolding read_value_def by (rule read_from_split)

lemma read_value_shorter: "read_value ts = Some (v, r) \<Longrightarrow> length r < length ts"
  using read_value_split [of ts v r "[]"] by auto

function parse_members :: "jtok list \<Rightarrow> ((string \<times> jtok list) list \<times> jtok list) option" where
  "parse_members ts =
     (case ts of
        k # Colon # r \<Rightarrow>
          (case (k, read_value r) of
             (Lit l, Some (v, Comma # r2)) \<Rightarrow>
               if key_tok k then map_option (apfst (Cons (unquote l, v))) (parse_members r2) else None
           | (Lit l, Some (v, RBrace # r2)) \<Rightarrow> if key_tok k then Some ([(unquote l, v)], r2) else None
           | _ \<Rightarrow> None)
      | _ \<Rightarrow> None)"
  by pat_completeness auto

termination by (relation "measure length") (auto dest!: read_value_shorter read_value_shorter [OF sym])

declare parse_members.simps [simp del, code del]

lemma parse_members_code [code]:
  "parse_members [] = None"
  "parse_members [k] = None"
  "parse_members (k # c # r) =
     (if c \<noteq> Colon then None
      else (case (k, read_value r) of
          (Lit l, Some (v, Comma # r2)) \<Rightarrow>
            if key_tok k then map_option (apfst (Cons (unquote l, v))) (parse_members r2) else None
        | (Lit l, Some (v, RBrace # r2)) \<Rightarrow> if key_tok k then Some ([(unquote l, v)], r2) else None
        | _ \<Rightarrow> None))"
  by (simp_all add: parse_members.simps split: jtok.split)

definition parse_object :: "jtok list \<Rightarrow> (string \<times> jtok list) list option" where
  "parse_object ts =
     (if ts = [LBrace, RBrace] then Some []
      else (case ts of
        LBrace # r \<Rightarrow> (case parse_members r of Some (ms, []) \<Rightarrow> Some ms | _ \<Rightarrow> None)
      | _ \<Rightarrow> None))"

function parse_elems :: "jtok list \<Rightarrow> (jtok list list \<times> jtok list) option" where
  "parse_elems ts =
     (case read_value ts of
        Some (v, Comma # r) \<Rightarrow> map_option (apfst (Cons v)) (parse_elems r)
      | Some (v, RBrack # r) \<Rightarrow> Some ([v], r)
      | _ \<Rightarrow> None)"
  by pat_completeness auto

termination by (relation "measure length") (auto dest!: read_value_shorter read_value_shorter [OF sym])

declare parse_elems.simps [simp del, code del]

lemma parse_elems_code [code]:
  "parse_elems [] = None"
  "parse_elems (t # ts) =
     (case read_value (t # ts) of
        Some (v, Comma # r) \<Rightarrow> map_option (apfst (Cons v)) (parse_elems r)
      | Some (v, RBrack # r) \<Rightarrow> Some ([v], r)
      | _ \<Rightarrow> None)"
  by (simp_all add: parse_elems.simps [of "[]"] parse_elems.simps [of "t # ts"] read_value_def)

definition parse_array :: "jtok list \<Rightarrow> jtok list list option" where
  "parse_array ts =
     (if ts = [LBrack, RBrack] then Some []
      else (case ts of
        LBrack # r \<Rightarrow> (case parse_elems r of Some (vs, []) \<Rightarrow> Some vs | _ \<Rightarrow> None)
      | _ \<Rightarrow> None))"

text \<open>\<open>json.Unmarshal\<close> of a value into a string: \<open>null\<close> leaves the zero value.\<close>

definition unmarshal_string :: "jtok list \<Rightarrow> string option" where
  "unmarshal_string v =
     (case v of
        [Lit l] \<Rightarrow> if HasPrefix l [QUOTE] then Some (unquote l) else if l = ''null'' then Some [] else None
      | _ \<Rightarrow> None)"

subsection \<open>Layout\<close>

fun comma_sep :: "jtok list list \<Rightarrow> jtok list" where
  "comma_sep [] = []"
| "comma_sep [v] = v"
| "comma_sep (v # w # vs) = v @ Comma # comma_sep (w # vs)"

definition array_toks :: "jtok list list \<Rightarrow> jtok list" where
  "array_toks vs = LBrack # comma_sep vs @ [RBrack]"

definition object_toks :: "(string \<times> jtok list) list \<Rightarrow> jtok list" where
  "object_toks ms = LBrace # comma_sep (map (\<lambda>(k, v). Lit (quote_json False k) # Colon # v) ms) @ [RBrace]"

definition newline :: "nat \<Rightarrow> string" where
  "newline depth = NL # replicate (2 * depth) (CHR '' '')"

fun tok_text :: "jtok \<Rightarrow> string" where
  "tok_text LBrace = [CHR 0x7B]"
| "tok_text RBrace = [CHR 0x7D]"
| "tok_text LBrack = ''[''"
| "tok_text RBrack = '']''"
| "tok_text Comma = '',''"
| "tok_text Colon = '':''"
| "tok_text (Lit l) = l"

text \<open>
  \<open>json.Indent\<close> with an empty prefix and two spaces: an opening bracket owes a line break (\<open>need\<close>)
  that the next token pays unless it closes the bracket.
\<close>

fun indent :: "nat \<Rightarrow> bool \<Rightarrow> jtok list \<Rightarrow> string" where
  "indent d need [] = []"
| "indent d need (t # ts) =
     (if t = RBrace \<or> t = RBrack then
        (if need then tok_text t @ indent d False ts
         else newline (d - 1) @ tok_text t @ indent (d - 1) False ts)
      else let d' = (if need then Suc d else d) in
        (if need then newline d' else []) @ tok_text t
        @ (if t = Comma then newline d' else if t = Colon then '' '' else [])
        @ indent d' (t = LBrace \<or> t = LBrack) ts)"

subsection \<open>Reading what was laid out\<close>

text \<open>A literal that lexes alone before anything a layout can put after it.\<close>

definition tok_end :: "string \<Rightarrow> bool" where
  "tok_end r \<longleftrightarrow> r = [] \<or> hd r \<in> {NL, CHR '','', CHR '':'', CHR ''['', CHR '']'', CHR 0x7B, CHR 0x7D}"

definition lit_ok :: "string \<Rightarrow> bool" where
  "lit_ok l \<longleftrightarrow> l \<noteq> [] \<and> \<not> json_space (hd l) \<and> (\<forall>r. tok_end r \<longrightarrow> lex (l @ r) = Some (Lit l, r))"

fun tok_ok :: "jtok \<Rightarrow> bool" where
  "tok_ok (Lit l) = lit_ok l"
| "tok_ok t = True"

text \<open>No two literals are neighbours.\<close>

fun is_lit :: "jtok \<Rightarrow> bool" where
  "is_lit (Lit l) = True"
| "is_lit t = False"

fun lits_apart :: "jtok list \<Rightarrow> bool" where
  "lits_apart [] = True"
| "lits_apart (t # ts) = (\<not> (is_lit t \<and> ts \<noteq> [] \<and> is_lit (hd ts)) \<and> lits_apart ts)"

lemma tokenize_newline: "tokenize (newline d @ s) = tokenize s"
proof -
  have "tokenize (replicate n (CHR '' '') @ s) = tokenize s" for n
    by (induction n) (simp_all add: json_space_def)
  then show ?thesis by (simp add: newline_def json_space_def)
qed

lemma lex_punct: "\<not> is_lit t \<Longrightarrow> tokenize (tok_text t @ s) = map_option (Cons t) (tokenize s)"
  by (cases t) (simp_all add: lex_def punct_def json_space_def)

lemma tokenize_tok:
  assumes "tok_ok t" "is_lit t \<Longrightarrow> tok_end s"
  shows "tokenize (tok_text t @ s) = map_option (Cons t) (tokenize s)"
proof (cases "is_lit t")
  case True
  then obtain l where t: "t = Lit l" by (cases t) auto
  then obtain c cs where "l = c # cs" using assms(1) by (cases l) (auto simp: lit_ok_def)
  with t assms show ?thesis by (auto simp: lit_ok_def)
qed (rule lex_punct)

lemma indent_end: "ts = [] \<or> \<not> is_lit (hd ts) \<Longrightarrow> tok_end e \<Longrightarrow> tok_end (indent d False ts @ e)"
proof (cases ts)
  case (Cons t us)
  assume "ts = [] \<or> \<not> is_lit (hd ts)"
  with Cons show ?thesis by (cases t) (auto simp: tok_end_def newline_def)
qed (simp add: tok_end_def)

lemma tokenize_indent:
  assumes "tok_end e" "tokenize e = Some []"
  shows "list_all tok_ok ts \<Longrightarrow> lits_apart ts \<Longrightarrow> tokenize (indent d need ts @ e) = Some ts"
proof (induction ts arbitrary: d need)
  case (Cons t ts)
  have ih: "tokenize (indent d' need' ts @ e) = Some ts" for d' need'
    using Cons.IH Cons.prems by simp
  show ?case
  proof (cases "is_lit t")
    case True
    then obtain l where l: "t = Lit l" by (cases t) auto
    have "ts = [] \<or> \<not> is_lit (hd ts)" using Cons.prems(2) True by auto
    then have "tokenize (l @ indent d' False ts @ e) = Some (t # ts)" for d'
      using tokenize_tok [of t "indent d' False ts @ e"] indent_end [OF _ assms(1), of ts d'] Cons.prems(1) ih l
      by simp
    then show ?thesis using l by (simp add: Let_def tokenize_newline)
  next
    case False
    have tail: "tokenize (tok_text t @ s) = map_option (Cons t) (tokenize s)" for s
      using lex_punct [OF False] by simp
    have "tokenize (CHR '' '' # s) = tokenize s" for s by (simp add: json_space_def)
    then show ?thesis
      using False ih tail by (cases "t = RBrace \<or> t = RBrack") (auto simp: Let_def tokenize_newline)
  qed
qed (simp add: assms)

subsection \<open>Values, members and elements\<close>

definition is_value :: "jtok list \<Rightarrow> bool" where
  "is_value v \<longleftrightarrow> read_value v = Some (v, [])"

lemma read_is_value: "read_value ts = Some (v, r) \<Longrightarrow> is_value v"
  using read_value_split [of ts v r "[]"] by (simp add: is_value_def)

lemma is_value_read: "is_value v \<Longrightarrow> read_value (v @ r) = Some (v, r)"
  using read_value_split [of v v "[]" r] by (simp add: is_value_def)

lemma is_value_nonempty: "is_value v \<Longrightarrow> v \<noteq> []"
  by (auto simp: is_value_def read_value_def)

abbreviation opened :: "jstate \<Rightarrow> jctx list \<Rightarrow> bool" where
  "opened st s \<equiv> st \<in> {BeginValueOrEmpty, BeginStringOrEmpty} \<longrightarrow> s \<noteq> []"

lemma begin_value_frame: "begin_value s t = Some (st', s') \<Longrightarrow> begin_value (s @ x) t = Some (st', s' @ x) \<and> opened st' s'"
  by (cases t) auto

lemma scan_step_frame:
  "scan_step st s t = Some (st', s') \<Longrightarrow> opened st s \<Longrightarrow> scan_step st (s @ x) t = Some (st', s' @ x) \<and> opened st' s'"
proof (cases st)
  case EndValue
  assume "scan_step st s t = Some (st', s')" "opened st s"
  with EndValue show ?thesis by (cases "(st, s, t)" rule: scan_step.cases) (auto split: if_splits)
qed (auto simp: begin_value_frame split: if_splits)

lemma read_frame:
  "read_from st s v = Some (v, []) \<Longrightarrow> opened st s \<Longrightarrow> x \<noteq> [] \<Longrightarrow>
     read_from st (s @ x) (v @ r) = map_option (apfst (append v)) (read_from EndValue x r)"
proof (induction v arbitrary: st s)
  case (Cons t ts)
  obtain st' s' where st: "scan_step st s t = Some (st', s')"
    using Cons.prems by (cases "scan_step st s t") auto
  note f = scan_step_frame [OF st Cons.prems(2), of x]
  show ?case
  proof (cases "st' = EndValue \<and> s' = []")
    case True
    with Cons.prems st have "ts = []" by simp
    with True f \<open>x \<noteq> []\<close> show ?thesis by (simp add: apfst_def map_prod_def option.map_id0 cong: map_option_cong)
  next
    case False
    then have "read_from st' s' ts = Some (ts, [])" using Cons.prems st
      by (auto simp: apfst_def map_prod_def split: prod.splits)
    from Cons.IH [OF this _ \<open>x \<noteq> []\<close>] f False show ?thesis
      using \<open>x \<noteq> []\<close> by (simp add: option.map_comp o_def apfst_compose)
  qed
qed simp

lemma value_frame:
  "is_value v \<Longrightarrow> x \<noteq> [] \<Longrightarrow> read_from BeginValue x (v @ r) = map_option (apfst (append v)) (read_from EndValue x r)"
  using read_frame [of BeginValue "[]" v x r] by (simp add: is_value_def read_value_def)

lemma read_elems:
  "vs \<noteq> [] \<Longrightarrow> list_all is_value vs \<Longrightarrow>
     read_from BeginValue [InArr] (comma_sep vs @ RBrack # r) = Some (comma_sep vs @ [RBrack], r)"
  by (induction vs rule: comma_sep.induct) (simp_all add: value_frame)

lemma value_not_close: "is_value v \<Longrightarrow> hd v \<noteq> RBrack"
  by (cases v) (auto simp: is_value_def read_value_def)

lemma comma_sep_hd: "vs \<noteq> [] \<Longrightarrow> hd vs \<noteq> [] \<Longrightarrow> hd (comma_sep vs @ ts) = hd (hd vs) \<and> comma_sep vs \<noteq> []"
  by (cases vs rule: comma_sep.cases) auto

lemma array_is_value: "list_all is_value vs \<Longrightarrow> is_value (array_toks vs)"
proof (cases "vs = []")
  case False
  assume v: "list_all is_value vs"
  with False have "is_value (hd vs)" by (cases vs) auto
  with False comma_sep_hd [of vs "[RBrack]"] value_not_close [of "hd vs"] is_value_nonempty
  have "comma_sep vs @ [RBrack] \<noteq> [] \<and> hd (comma_sep vs @ [RBrack]) \<noteq> RBrack" by auto
  then have "read_from BeginValueOrEmpty [InArr] (comma_sep vs @ [RBrack]) = read_from BeginValue [InArr] (comma_sep vs @ [RBrack])"
    by (cases "comma_sep vs @ [RBrack]") auto
  with read_elems [OF False v, of "[]"] show ?thesis
    by (simp add: is_value_def read_value_def array_toks_def)
qed (simp add: is_value_def read_value_def array_toks_def)

definition member_toks :: "string \<times> jtok list \<Rightarrow> jtok list" where
  "member_toks = (\<lambda>(k, v). Lit (quote_json False k) # Colon # v)"

lemma object_toks_member: "object_toks ms = LBrace # comma_sep (map member_toks ms) @ [RBrace]"
  by (simp add: object_toks_def member_toks_def)

lemma quote_key: "key_tok (Lit (quote_json html k))"
  by (simp add: key_tok_def quote_json_def)

lemma read_members:
  "ms \<noteq> [] \<Longrightarrow> list_all (is_value \<circ> snd) ms \<Longrightarrow>
     read_from BeginString [InObj] (comma_sep (map member_toks ms) @ RBrace # r)
       = Some (comma_sep (map member_toks ms) @ [RBrace], r)"
  by (induction ms rule: induct_list012)
    (auto simp: member_toks_def value_frame quote_key split: prod.splits)

lemma object_is_value: "list_all (is_value \<circ> snd) ms \<Longrightarrow> is_value (object_toks ms)"
proof (cases ms)
  case (Cons m ms')
  assume v: "list_all (is_value \<circ> snd) ms"
  have "read_from BeginStringOrEmpty [InObj] (comma_sep (map member_toks ms) @ [RBrace])
      = read_from BeginString [InObj] (comma_sep (map member_toks ms) @ [RBrace])"
    using Cons by (cases ms') (auto simp: member_toks_def split: prod.splits)
  with read_members [OF _ v, of "[]"] Cons show ?thesis
    by (simp add: is_value_def read_value_def object_toks_member)
qed (simp add: is_value_def read_value_def object_toks_def)

lemma parse_members_encode:
  "ms \<noteq> [] \<Longrightarrow> list_all (is_value \<circ> snd) ms \<Longrightarrow>
     parse_members (comma_sep (map member_toks ms) @ RBrace # r)
       = Some (map (\<lambda>(k, v). (unquote (quote_json False k), v)) ms, r)"
  by (induction ms rule: induct_list012)
    (auto simp: parse_members.simps member_toks_def is_value_read quote_key split: prod.splits)

lemma parse_object_encode:
  assumes "list_all (is_value \<circ> snd) ms"
  shows "parse_object (object_toks ms) = Some (map (\<lambda>(k, v). (unquote (quote_json False k), v)) ms)"
proof (cases ms)
  case (Cons m ms')
  have "comma_sep (map member_toks ms) @ [RBrace] \<noteq> [RBrace]"
    using Cons by (cases ms') (auto simp: member_toks_def split: prod.splits)
  with parse_members_encode [OF _ assms, of "[]"] Cons show ?thesis
    by (simp add: parse_object_def object_toks_member)
qed (simp add: parse_object_def object_toks_def)

lemma parse_elems_encode:
  "vs \<noteq> [] \<Longrightarrow> list_all is_value vs \<Longrightarrow> parse_elems (comma_sep vs @ RBrack # r) = Some (vs, r)"
  by (induction vs rule: comma_sep.induct) (simp_all add: parse_elems.simps is_value_read)

lemma parse_array_encode:
  assumes "list_all is_value vs"
  shows "parse_array (array_toks vs) = Some vs"
proof (cases vs)
  case (Cons v vs')
  then have "comma_sep vs @ [RBrack] \<noteq> [RBrack]" using assms is_value_nonempty by (cases vs') auto
  with parse_elems_encode [OF _ assms, of "[]"] Cons show ?thesis
    by (simp add: parse_array_def array_toks_def)
qed (simp add: parse_array_def array_toks_def)

subsection \<open>What the lexer accepts lexes again\<close>

lemma str_unit_again:
  assumes "str_unit s = Some (u, r)"
  shows "s = u @ r \<and> u \<noteq> [] \<and> str_unit (u @ r') = Some (u, r')"
proof -
  have four: "hex4 (take 4 es @ r') = hex4 es" if "hex4 es \<noteq> None" for es
    using that by (auto simp: hex4_def split: if_splits)
  have len: "length (take 4 es) = 4" if "hex4 es \<noteq> None" for es
    using that by (auto simp: hex4_def split: if_splits)
  obtain c cs where s: "s = c # cs" using assms by (cases s) (auto simp: str_unit_def)
  show ?thesis
  proof (cases "c = BACKSLASH")
    case True
    then obtain e es where cs: "cs = e # es" using assms s by (cases cs) (auto simp: str_unit_def)
    show ?thesis
    proof (cases "e \<in> set (QUOTE # BACKSLASH # ''/bfnrt'')")
      case False
      with assms s cs True have e: "e = CHR ''u''" "hex4 es \<noteq> None" "u = [BACKSLASH, e] @ take 4 es" "r = drop 4 es"
        by (auto simp: str_unit_def split: if_splits)
      with s cs True False four [OF e(2)] len [OF e(2)] show ?thesis by (simp add: str_unit_def)
    qed (use assms s cs True in \<open>auto simp: str_unit_def\<close>)
  qed (use assms s in \<open>auto simp: str_unit_def split: if_splits\<close>)
qed

lemma lex_string_again: "lex_string s = Some (b, r) \<Longrightarrow> lex_string (b @ r') = Some (b, r')"
proof (induction s arbitrary: b r rule: lex_string.induct)
  case (2 c cs)
  show ?case
  proof (cases "c = QUOTE")
    case False
    then obtain u t b' where u: "str_unit (c # cs) = Some (u, t)" "lex_string t = Some (b', r)" "b = u @ b'"
      using 2(2) by (auto simp: prepend_def split: option.splits)
    note a = str_unit_again [OF u(1), of "b' @ r'"]
    obtain u' where u': "u = c # u'" using a by (cases u) auto
    have "lex_string (u @ b' @ r') = prepend u (lex_string (b' @ r'))"
      using a False unfolding u' by simp
    with 2(1) [OF False u(1) refl u(2)] u(3) show ?thesis by (simp add: prepend_def)
  qed (use 2 in auto)
qed simp

text \<open>A number ends at the first byte that cannot continue it.\<close>

definition num_end :: "string \<Rightarrow> bool" where
  "num_end r \<longleftrightarrow> r = [] \<or> \<not> (is_digit (hd r) \<or> hd r \<in> set ''.eE+-'')"

lemma lex_digits_again:
  assumes "lex_digits s = Some (d, r)"
  shows "d \<noteq> [] \<and> (\<forall>c \<in> set d. is_digit c) \<and>
    (r' = [] \<or> \<not> is_digit (hd r') \<longrightarrow> lex_digits (d @ r') = Some (d, r'))"
proof -
  have d: "d = takeWhile is_digit s" "d \<noteq> []" using assms by (auto simp: lex_digits_def Let_def split: if_splits)
  then have all: "\<forall>c \<in> set d. is_digit c" using set_takeWhileD by fastforce
  have "takeWhile is_digit (d @ r') = d" if "r' = [] \<or> \<not> is_digit (hd r')"
    using all that by (cases r') (auto simp: takeWhile_append2)
  with d all show ?thesis by (auto simp: lex_digits_def Let_def)
qed

lemma lex_int_again:
  assumes "lex_int s = Some (i, r)"
  shows "i \<noteq> [] \<and> is_digit (hd i) \<and> (r' = [] \<or> \<not> is_digit (hd r') \<longrightarrow> lex_int (i @ r') = Some (i, r'))"
proof -
  obtain c cs where s: "s = c # cs" using assms by (cases s) (auto simp: lex_int_def)
  show ?thesis
  proof (cases "c = CHR ''0''")
    case True
    with assms s show ?thesis by (auto simp: lex_int_def is_digit_def byte_def)
  next
    case False
    then have l: "lex_digits s = Some (i, r)" using assms s by (simp add: lex_int_def)
    have "hd i = c" using l s by (auto simp: lex_digits_def Let_def split: if_splits)
    with lex_digits_again [OF l, of r'] False show ?thesis by (cases i) (auto simp: lex_int_def)
  qed
qed

lemma lex_frac_again:
  assumes "lex_frac s = Some (f, r)" "r' = [] \<or> \<not> (is_digit (hd r') \<or> hd r' = CHR ''.'')"
  shows "lex_frac (f @ r') = Some (f, r') \<and> (f = [] \<or> hd f = CHR ''.'')"
proof (cases "\<exists>cs. s = CHR ''.'' # cs")
  case True
  then obtain cs d where "lex_digits cs = Some (d, r)" "f = CHR ''.'' # d"
    using assms(1) by (auto simp: lex_frac_def prepend_def)
  with lex_digits_again [OF this(1), of r'] assms(2) show ?thesis by (auto simp: lex_frac_def prepend_def)
next
  case False
  then have "f = []" using assms(1) by (auto simp: lex_frac_def split: list.splits if_splits)
  with assms(2) show ?thesis by (auto simp: lex_frac_def split: list.splits)
qed

lemma lex_exp_again:
  assumes "lex_exp s = Some (e, r)" "num_end r'"
  shows "lex_exp (e @ r') = Some (e, r') \<and> (e = [] \<or> hd e \<in> {CHR ''e'', CHR ''E''})"
proof (cases "\<exists>c cs. s = c # cs \<and> c \<in> {CHR ''e'', CHR ''E''}")
  case True
  then obtain c g t where s: "s = c # g # t" "c \<in> {CHR ''e'', CHR ''E''}"
    using assms(1) by (auto simp: lex_exp_def split: list.splits)
  have stop: "r' = [] \<or> \<not> is_digit (hd r')" using assms(2) by (auto simp: num_end_def)
  show ?thesis
  proof (cases "g = CHR ''+'' \<or> g = CHR ''-''")
    case True
    with s assms(1) obtain d where "lex_digits t = Some (d, r)" "e = c # g # d"
      by (auto simp: lex_exp_def prepend_def)
    with lex_digits_again [OF this(1), of r'] stop s True show ?thesis by (auto simp: lex_exp_def prepend_def)
  next
    case False
    with s assms(1) obtain d where d: "lex_digits (g # t) = Some (d, r)" "e = c # d"
      by (auto simp: lex_exp_def prepend_def)
    have "hd d = g" using d(1) by (auto simp: lex_digits_def Let_def split: if_splits)
    with d lex_digits_again [OF d(1), of r'] stop s False show ?thesis
      by (cases d) (auto simp: lex_exp_def prepend_def)
  qed
next
  case False
  then have "e = []" using assms(1) by (auto simp: lex_exp_def split: list.splits if_splits)
  with assms(2) show ?thesis by (auto simp: lex_exp_def num_end_def split: list.splits)
qed

lemma digit_not_punct: "is_digit c \<Longrightarrow> c \<noteq> CHR ''.'' \<and> c \<noteq> CHR ''-'' \<and> c \<noteq> CHR ''e'' \<and> c \<noteq> CHR ''E''"
  by (auto simp: is_digit_def byte_def)

lemma lex_number_again:
  assumes "lex_number s = Some (w, r)" "num_end r'"
  shows "w \<noteq> [] \<and> (is_digit (hd w) \<or> hd w = CHR ''-'') \<and> lex_number (w @ r') = Some (w, r')"
proof -
  obtain neg s1 where s1: "(case s of c # r \<Rightarrow> if c = CHR ''-'' then ([c], r) else ([], s) | [] \<Rightarrow> ([], [])) = (neg, s1)"
    by fastforce
  then have neg: "neg = [] \<or> neg = ''-''" by (auto split: list.splits if_splits)
  obtain i s2 f s3 e where l: "lex_int s1 = Some (i, s2)" "lex_frac s2 = Some (f, s3)" "lex_exp s3 = Some (e, r)"
    and w: "w = neg @ i @ f @ e"
    using assms(1) unfolding lex_number_def s1 Let_def by (auto split: option.splits)
  note E = lex_exp_again [OF l(3) assms(2)]
  have "e @ r' = [] \<or> \<not> (is_digit (hd (e @ r')) \<or> hd (e @ r') = CHR ''.'')"
    using E assms(2) by (cases e) (auto simp: num_end_def dest: digit_not_punct simp: is_digit_def byte_def)
  note F = lex_frac_again [OF l(2) this]
  have "f @ e @ r' = [] \<or> \<not> is_digit (hd (f @ e @ r'))"
    using F E assms(2) by (cases f; cases e) (auto simp: num_end_def is_digit_def byte_def)
  with lex_int_again [OF l(1), of "f @ e @ r'"]
  have I: "i \<noteq> []" "is_digit (hd i)" "lex_int (i @ f @ e @ r') = Some (i, f @ e @ r')" by auto
  then obtain c cs where i: "i = c # cs" by (cases i) auto
  have "lex_number (w @ r') = Some (w, r')"
    using neg
  proof
    assume "neg = []"
    then have "(case w @ r' of c # r \<Rightarrow> if c = CHR ''-'' then ([c], r) else ([], w @ r') | [] \<Rightarrow> ([], []))
        = ([], i @ f @ e @ r')" using w i I(2) digit_not_punct [of c] by simp
    then show ?thesis using I(3) F E w \<open>neg = []\<close> unfolding lex_number_def Let_def by simp
  next
    assume "neg = ''-''"
    then show ?thesis using I(3) F E w by (simp add: lex_number_def)
  qed
  then show ?thesis using neg w i I(2) by auto
qed

lemma lex_word_again:
  assumes "lex_word s = Some (w, r)" "num_end r'"
  shows "w \<noteq> [] \<and> lex_word (w @ r') = Some (w, r')
    \<and> (w \<in> {''true'', ''false'', ''null''} \<or> is_digit (hd w) \<or> hd w = CHR ''-'')"
proof (cases "HasPrefix s ''true'' \<or> HasPrefix s ''false'' \<or> HasPrefix s ''null''")
  case True
  with assms show ?thesis by (auto simp: lex_word_def HasPrefix_iff split: if_splits)
next
  case False
  then have n: "lex_number s = Some (w, r)" using assms(1) by (auto simp: lex_word_def)
  note a = lex_number_again [OF n assms(2)]
  then obtain c cs where w: "w = c # cs" by (cases w) auto
  have "c \<noteq> CHR ''t'' \<and> c \<noteq> CHR ''f'' \<and> c \<noteq> CHR ''n''"
    using a w by (auto simp: is_digit_def byte_def)
  with a w show ?thesis by (simp add: lex_word_def)
qed

lemma lex_lit_ok:
  assumes "lex s = Some (Lit l, r)"
  shows "lit_ok l"
proof -
  obtain c cs where s: "s = c # cs" using assms by (cases s) (auto simp: lex_def)
  have p: "punct c = None" using assms s by (auto simp: lex_def punct_def split: if_splits)
  show ?thesis
  proof (cases "c = QUOTE")
    case True
    then obtain b where b: "lex_string cs = Some (b, r)" "l = QUOTE # b"
      using assms s p by (auto simp: lex_def)
    then show ?thesis using lex_string_again [OF b(1)] by (simp add: lit_ok_def lex_def punct_def json_space_def)
  next
    case False
    then have l: "lex_word s = Some (l, r)" using assms s p by (auto simp: lex_def)
    have num: "num_end r'" if "tok_end r'" for r'
      using that by (auto simp: tok_end_def num_end_def is_digit_def byte_def)
    have l0: "l \<noteq> []" "l \<in> {''true'', ''false'', ''null''} \<or> is_digit (hd l) \<or> hd l = CHR ''-''"
      using lex_word_again [OF l, of "[]"] by (auto simp: num_end_def)
    then obtain d ds where d: "l = d # ds" by (cases l) auto
    have "d \<in> {CHR ''t'', CHR ''f'', CHR ''n'', CHR ''-''} \<or> is_digit d" using l0(2) d by auto
    then have "\<not> json_space d \<and> punct d = None \<and> d \<noteq> QUOTE"
    proof
      assume "is_digit d"
      then have "d \<notin> {CHR '' '', TAB, CR, NL, CHR 0x7B, CHR 0x7D, CHR ''['', CHR '']'', CHR '','', CHR '':'', QUOTE}"
        by (auto simp: is_digit_def byte_def)
      then show ?thesis by (simp add: json_space_def punct_def)
    qed (auto simp: json_space_def punct_def)
    with d lex_word_again [OF l] num show ?thesis by (simp add: lit_ok_def lex_def)
  qed
qed

lemma tokenize_ok: "tokenize s = Some ts \<Longrightarrow> list_all tok_ok ts"
proof (induction s arbitrary: ts rule: tokenize.induct)
  case (2 c cs)
  show ?case
  proof (cases "json_space c")
    case False
    with 2(3) obtain t r ts' where l: "lex (c # cs) = Some (t, r)" "tokenize r = Some ts'" "ts = t # ts'"
      by (auto split: option.splits)
    have "tok_ok t" using lex_lit_ok l(1) by (cases t) auto
    with 2(2) [OF False l(1) refl l(2)] l(3) show ?thesis by simp
  qed (use 2 in auto)
qed simp

lemma read_from_apart:
  "read_from st stk ts = Some (v, r) \<Longrightarrow>
     lits_apart v \<and> (st \<in> {EndValue, AfterKey} \<longrightarrow> \<not> is_lit (hd v)) \<and> (list_all tok_ok ts \<longrightarrow> list_all tok_ok v \<and> list_all tok_ok r)"
proof (induction ts arbitrary: st stk v)
  case (Cons t ts)
  obtain st' stk' where s: "scan_step st stk t = Some (st', stk')"
    using Cons.prems by (cases "scan_step st stk t") auto
  have t: "\<not> is_lit t" if "st \<in> {EndValue, AfterKey}"
    using that s by (cases "(st, stk, t)" rule: scan_step.cases) (auto split: if_splits)
  have l: "st' \<in> {EndValue, AfterKey}" if "is_lit t"
    using that s by (cases st; cases t; cases "(st, stk, t)" rule: scan_step.cases) (auto split: if_splits)
  show ?case
  proof (cases "st' = EndValue \<and> stk' = []")
    case True
    with Cons.prems s t show ?thesis by auto
  next
    case False
    then obtain v' where v': "read_from st' stk' ts = Some (v', r)" "v = t # v'"
      using Cons.prems s by (auto simp: apfst_def map_prod_def split: prod.splits)
    from Cons.IH [OF v'(1)] t l v' show ?thesis by auto
  qed
qed simp

lemma value_apart: "is_value v \<Longrightarrow> lits_apart v"
  using read_from_apart [of BeginValue "[]" v v "[]"] by (simp add: is_value_def read_value_def)

subsection \<open>A quoted string is one literal, and denotes the string\<close>

lemma hex_low_val: "n < 16 \<Longrightarrow> hex_val (hex_low n) = Some n"
  by (auto simp: hex_low_def hex_val_def byte_def Let_def)

lemma hex_low_ascii: "n < 16 \<Longrightarrow> byte (hex_low n) < 128"
  by (auto simp: hex_low_def byte_def)

lemma hex4_Cons:
  assumes "hex_val a = Some i" "hex_val b = Some j" "hex_val c = Some k" "hex_val d = Some l"
  shows "hex4 (a # b # c # d # s) = Some (16 * (16 * (16 * i + j) + k) + l)"
  using assms by (simp add: hex4_def)

lemma hex_val_digits: "hex_val (CHR ''0'') = Some 0" "hex_val (CHR ''2'') = Some 2"
  by (simp_all add: hex_val_def byte_def)

lemma hex4_low:
  assumes "m < 16" "n < 16"
  shows "hex4 (CHR ''0'' # CHR ''0'' # hex_low m # hex_low n # s) = Some (16 * m + n)"
  using hex4_Cons [OF hex_val_digits(1) hex_val_digits(1) hex_low_val [OF assms(1)] hex_low_val [OF assms(2)]]
  by simp

lemma hex4_202:
  assumes "n < 16"
  shows "hex4 (CHR ''2'' # CHR ''0'' # CHR ''2'' # hex_low n # s) = Some (0x2020 + n)"
  using hex4_Cons [OF hex_val_digits(2) hex_val_digits(1) hex_val_digits(2) hex_low_val [OF assms]]
  by simp

lemma char_of_eq: "r < 256 \<Longrightarrow> char_of r = c \<longleftrightarrow> r = byte c"
  by (auto simp: byte_def)

lemma eq_char_of: "r < 256 \<Longrightarrow> c = char_of r \<longleftrightarrow> r = byte c"
  by (auto simp: byte_def)

lemma encode_low: "r < 128 \<Longrightarrow> encode_rune r = [char_of r]"
  by (simp add: encode_rune_def of_bytes_def)

text \<open>How a rune is written: as it is, as a two-byte escape, or by its code.\<close>

lemma esc_rune_cases:
  assumes "scalar r"
  obtains (plain) "esc_rune html (encode_rune r, r, True) = encode_rune r" "32 \<le> r" "r \<noteq> 34" "r \<noteq> 92"
  | (short) e where "esc_rune html (encode_rune r, r, True) = [BACKSLASH, e]" "escape_char e = Some (char_of r)"
      "r < 128" "e \<in> set (QUOTE # BACKSLASH # ''/bfnrt'')" "e \<noteq> CHR ''u''"
  | (code) h where "esc_rune html (encode_rune r, r, True) = BACKSLASH # CHR ''u'' # h" "length h = 4"
      "\<And>s. hex4 (h @ s) = Some r" "r < 0xD800" "list_all (\<lambda>c. byte c < 128) h"
proof -
  let ?e = "esc_rune html (encode_rune r, r, True)"
  consider (esc) "r \<in> {34, 92}" | (ctl) "r \<in> {8, 12, 10, 13, 9}"
    | (low) "r \<notin> {34, 92, 8, 12, 10, 13, 9}" "r < 32 \<or> html \<and> r \<in> {38, 60, 62}"
    | (sep) "r = 0x2028 \<or> r = 0x2029"
    | (asis) "r \<notin> {34, 92, 8, 12, 10, 13, 9, 0x2028, 0x2029}" "\<not> (r < 32 \<or> html \<and> r \<in> {38, 60, 62})"
    by blast
  then show ?thesis
  proof cases
    case esc
    then have e: "?e = [BACKSLASH, char_of r]" "r < 128" by (auto simp: esc_rune_def encode_low)
    have c: "char_of r = QUOTE \<or> char_of r = BACKSLASH" using esc by (auto simp: char_of_eq byte_def)
    show ?thesis by (rule short [OF e(1) _ e(2)]) (use c in \<open>auto simp: escape_char_def\<close>)
  next
    case ctl
    with ctl show ?thesis
      by (intro short [of "if r = 8 then CHR ''b'' else if r = 12 then CHR ''f'' else if r = 10 then CHR ''n''
            else if r = 13 then CHR ''r'' else CHR ''t''"])
        (auto simp: esc_rune_def escape_char_def eq_char_of byte_def)
  next
    case low
    then have "?e = BACKSLASH # CHR ''u'' # [CHR ''0'', CHR ''0'', hex_low (r div 16), hex_low (r mod 16)]"
      by (simp add: esc_rune_def)
    moreover have "hex4 ([CHR ''0'', CHR ''0'', hex_low (r div 16), hex_low (r mod 16)] @ s) = Some r" for s
      using low hex4_low [of "r div 16" "r mod 16" s] by auto
    moreover have r: "r < 256" using low(2) by auto
    moreover have "byte (hex_low (r div 16)) < 128" "byte (hex_low (r mod 16)) < 128"
      using r by (auto intro: hex_low_ascii)
    ultimately show ?thesis
      by (intro code [of "[CHR ''0'', CHR ''0'', hex_low (r div 16), hex_low (r mod 16)]"]) (simp_all add: byte_def)
  next
    case sep
    then have "?e = BACKSLASH # CHR ''u'' # [CHR ''2'', CHR ''0'', CHR ''2'', hex_low (r mod 16)]"
      by (auto simp: esc_rune_def)
    moreover have "hex4 ([CHR ''2'', CHR ''0'', CHR ''2'', hex_low (r mod 16)] @ s) = Some r" for s
      using sep hex4_202 [of "r mod 16" s] by auto
    moreover have "byte (hex_low (r mod 16)) < 128" "r < 0xD800" using sep by (auto intro: hex_low_ascii)
    ultimately show ?thesis
      by (intro code [of "[CHR ''2'', CHR ''0'', CHR ''2'', hex_low (r mod 16)]"]) (simp_all add: byte_def)
  next
    case asis
    then have "?e = encode_rune r" by (auto simp: esc_rune_def)
    with asis plain show ?thesis by auto
  qed
qed

lemma encode_rune_hd:
  assumes "32 \<le> r" "r \<noteq> 34" "r \<noteq> 92" "c \<in> set (encode_rune r)"
  shows "c \<noteq> QUOTE \<and> c \<noteq> BACKSLASH \<and> 32 \<le> byte c"
proof (cases "r < 0x80")
  case True
  with assms show ?thesis by (auto simp: encode_low char_of_eq) (simp_all add: byte_def)
next
  case False
  from encode_rune_bytes_high [OF False assms(4)] show ?thesis by (auto simp: byte_def)
qed

lemma prepend_Nil: "prepend [] x = x"
  by (cases x) (auto simp: prepend_def)

lemma prepend_prepend: "prepend a (prepend b x) = prepend (a @ b) x"
  by (cases x) (auto simp: prepend_def)

lemma lex_string_plain:
  "list_all (\<lambda>c. c \<noteq> QUOTE \<and> c \<noteq> BACKSLASH \<and> 32 \<le> byte c) p \<Longrightarrow> lex_string (p @ s) = prepend p (lex_string s)"
proof (induction p)
  case (Cons c p)
  then have "str_unit (c # p @ s) = Some ([c], p @ s)" by (simp add: str_unit_def)
  with Cons show ?case by (simp add: prepend_prepend)
qed (simp add: prepend_Nil)

lemma unquote_step_encode:
  assumes "scalar r" "r \<noteq> 92"
  shows "unquote_step (encode_rune r @ s) = (encode_rune r, s)"
proof -
  have d: "decode_rune (bytes (encode_rune r @ s)) = (r, length (encode_rune r))"
    by (simp add: decode_encode_rune [OF assms(1)])
  then have w: "rune_width (encode_rune r @ s) = length (encode_rune r)"
    by (simp add: rune_width_def max_def Suc_le_eq)
  obtain c cs where c: "encode_rune r @ s = c # cs" by (cases "encode_rune r @ s") auto
  have "c \<noteq> BACKSLASH"
  proof (cases "r < 0x80")
    case True
    with c assms(2) show ?thesis by (auto simp: encode_low char_of_eq) (simp add: byte_def)
  next
    case False
    have "c \<in> set (encode_rune r)" using c by (cases "encode_rune r") auto
    from encode_rune_bytes_high [OF False this] show ?thesis by (auto simp: byte_def)
  qed
  moreover have "drop (rune_width (encode_rune r @ s)) (encode_rune r @ s) = s" by (simp add: w)
  ultimately show ?thesis using c d by (simp add: unquote_step_def)
qed

lemma unquote_esc:
  assumes "scalar r"
  shows "unquote_body (esc_rune html (encode_rune r, r, True) @ s) = encode_rune r @ unquote_body s"
  using assms
proof (cases rule: esc_rune_cases [of r html])
  case plain
  obtain c cs where c: "encode_rune r @ s = c # cs" by (cases "encode_rune r @ s") auto
  then have "c \<in> set (encode_rune r)" by (cases "encode_rune r") auto
  then have "c \<noteq> QUOTE" using encode_rune_hd plain by blast
  with c plain unquote_step_encode [OF assms plain(4), of s] show ?thesis by simp
next
  case (short e)
  have "encode_rune r = [char_of r]" using short(3) by (simp add: encode_rune_def of_bytes_def)
  with short show ?thesis by (simp add: unquote_step_def)
next
  case (code h)
  then have "unescape_u (h @ s) = (encode_rune r, s)" by (simp add: unescape_u_def)
  with code show ?thesis by (simp add: unquote_step_def)
qed

lemma lex_esc:
  assumes "scalar r"
  shows "lex_string (esc_rune html (encode_rune r, r, True) @ s)
     = prepend (esc_rune html (encode_rune r, r, True)) (lex_string s)"
  using assms
proof (cases rule: esc_rune_cases [of r html])
  case plain
  then have "list_all (\<lambda>c. c \<noteq> QUOTE \<and> c \<noteq> BACKSLASH \<and> 32 \<le> byte c) (encode_rune r)"
    using encode_rune_hd by (auto simp: list_all_iff)
  with plain show ?thesis using lex_string_plain by simp
next
  case (short e)
  then show ?thesis by (simp add: str_unit_def prepend_def)
next
  case (code h)
  then have "str_unit (BACKSLASH # CHR ''u'' # h @ s) = Some (BACKSLASH # CHR ''u'' # h, s)"
    by (simp add: str_unit_def)
  with code show ?thesis by simp
qed

lemma unquote_quote:
  assumes "valid_utf8 s"
  shows "unquote (quote_json html s) = s"
proof -
  have "unquote_body (concat (map (\<lambda>r. esc_rune html (encode_rune r, r, True)) rs) @ [QUOTE]) = of_runes rs"
    if "list_all scalar rs" for rs
    using that by (induction rs) (simp_all add: unquote_esc of_runes_def)
  with valid_utf8_runes [OF assms] rune_chunks_of_runes [of "runes s"] show ?thesis
    by (simp add: unquote_def quote_json_def comp_def)
qed

lemma lit_ok_quote:
  assumes "valid_utf8 s"
  shows "lit_ok (quote_json html s)"
proof -
  let ?q = "\<lambda>rs. concat (map (\<lambda>r. esc_rune html (encode_rune r, r, True)) rs)"
  have "lex_string (?q rs @ QUOTE # t) = Some (?q rs @ [QUOTE], t)" if "list_all scalar rs" for rs t
    using that by (induction rs) (simp_all add: lex_esc prepend_def)
  with valid_utf8_runes [OF assms] rune_chunks_of_runes [of "runes s"]
  have "lex (quote_json html s @ r) = Some (Lit (quote_json html s), r)" for r
    by (simp add: quote_json_def comp_def lex_def punct_def)
  then show ?thesis by (simp add: lit_ok_def quote_json_def json_space_def)
qed

subsection \<open>Valid text in, valid text out\<close>

lemma valid_append: "valid_utf8 a \<Longrightarrow> valid_utf8 b \<Longrightarrow> valid_utf8 (a @ b)"
  using valid_utf8_of_runes [of "runes a @ runes b"] valid_utf8_runes
  by (simp add: of_runes_def)

lemma valid_encode: "valid_utf8 (encode_rune r)"
proof (cases "scalar r")
  case True
  with valid_utf8_of_runes [of "[r]"] show ?thesis by (simp add: of_runes_def)
next
  case False
  then have "encode_rune r = encode_rune RuneError"
    by (auto simp: encode_rune_def scalar_def cont_def RuneError_def)
  moreover have "scalar RuneError" by (simp add: scalar_def cont_def RuneError_def)
  ultimately show ?thesis using valid_utf8_of_runes [of "[RuneError]"] by (simp add: of_runes_def)
qed

lemma valid_Nil: "valid_utf8 []"
  by (simp add: valid_utf8_def)

lemma valid_ascii: "byte c < 128 \<Longrightarrow> valid_utf8 [c]"
  using valid_encode [of "byte c"] by (simp add: encode_low byte_def)

lemma valid_ascii_list: "list_all (\<lambda>c. byte c < 128) s \<Longrightarrow> valid_utf8 s"
proof (induction s)
  case (Cons c s)
  with valid_append [OF valid_ascii [of c], of s] show ?case by simp
qed (rule valid_Nil)

lemma valid_Cons_ascii: "byte c < 128 \<Longrightarrow> valid_utf8 s \<Longrightarrow> valid_utf8 (c # s)"
  using valid_append [OF valid_ascii] by fastforce

lemma valid_concat: "list_all valid_utf8 ss \<Longrightarrow> valid_utf8 (concat ss)"
  by (induction ss) (simp_all add: valid_Nil valid_append)

lemma escape_char_ascii:
  assumes "escape_char e = Some x"
  shows "byte x < 128"
proof -
  have "x \<in> set [CHR 0x08, CHR 0x0C, NL, CR, TAB, QUOTE, BACKSLASH, CHR ''/'']"
    using assms unfolding escape_char_def by (simp split: if_splits) blast?
  moreover have "list_all (\<lambda>c. byte c < 128) [CHR 0x08, CHR 0x0C, NL, CR, TAB, QUOTE, BACKSLASH, CHR ''/'']"
    by (simp add: byte_def)
  ultimately show ?thesis unfolding list_all_iff by blast
qed

lemma unquote_step_valid: "valid_utf8 (fst (unquote_step s))"
proof -
  have u: "valid_utf8 (fst (unescape_u es))" for es
    by (simp add: unescape_u_def valid_encode valid_Nil split: option.split)
  show ?thesis
  proof (cases s)
    case (Cons c cs)
    then show ?thesis
      by (cases cs; cases "escape_char (hd cs)") (simp_all add: unquote_step_def valid_encode valid_Nil u valid_ascii escape_char_ascii)
  qed (simp add: unquote_step_def valid_Nil)
qed

lemma unquote_valid: "valid_utf8 (unquote l)"
proof -
  have "valid_utf8 (unquote_body s)" for s
    by (induction s rule: unquote_body.induct) (simp_all add: valid_Nil valid_append unquote_step_valid)
  then show ?thesis by (simp add: unquote_def)
qed

text \<open>A valid text splits at an ASCII byte into valid texts.\<close>

lemma valid_split_ascii:
  assumes "byte c < 128"
  shows "valid_utf8 (a @ c # r) \<Longrightarrow> valid_utf8 a \<and> valid_utf8 r"
proof (induction a rule: length_induct)
  case (1 a)
  let ?s = "a @ c # r"
  have ok: "list_all scalar (runes ?s)" "of_runes (runes ?s) = ?s" using valid_utf8_runes [OF 1(2)] by auto
  then obtain x xs where x: "runes ?s = x # xs" by (cases "runes ?s") (auto simp: of_runes_def)
  with ok have s: "?s = encode_rune x @ of_runes xs" "scalar x" "list_all scalar xs" by (auto simp: of_runes_def)
  then have v: "valid_utf8 (of_runes xs)" by (simp add: valid_utf8_of_runes)
  from s(1) consider (cut) u where "a = encode_rune x @ u" "of_runes xs = u @ c # r"
    | (over) u where "encode_rune x = a @ c # u" "r = u @ of_runes xs"
    by (auto simp: append_eq_append_conv2 Cons_eq_append_conv dest: sym)
  then show ?case
  proof cases
    case cut
    have "length u < length a" using cut(1) by simp
    with 1(1) v cut(2) have "valid_utf8 u \<and> valid_utf8 r" by metis
    with cut show ?thesis by (simp add: valid_append valid_encode)
  next
    case over
    then have "x < 128" using encode_rune_bytes_high [of x c] assms by force
    with over v show ?thesis by (cases a) (auto simp: encode_low valid_Nil)
  qed
qed

definition ascii :: "string \<Rightarrow> bool" where
  "ascii s \<longleftrightarrow> list_all (\<lambda>c. byte c < 128) s"

lemma ascii_simps [simp]: "ascii []" "ascii (c # s) \<longleftrightarrow> byte c < 128 \<and> ascii s" "ascii (a @ b) \<longleftrightarrow> ascii a \<and> ascii b"
  by (simp_all add: ascii_def)

lemma valid_split_ascii_text:
  assumes "ascii u" "valid_utf8 (u @ r)"
  shows "valid_utf8 u \<and> valid_utf8 r"
proof (cases u rule: rev_cases)
  case (snoc u' c)
  with assms valid_split_ascii [of c u' r] show ?thesis
    by (simp add: valid_ascii_list ascii_def)
qed (use assms in \<open>simp add: valid_Nil\<close>)

lemma lex_digits_split: "lex_digits s = Some (d, r) \<Longrightarrow> s = d @ r \<and> ascii d"
  using takeWhile_dropWhile_id [of is_digit s]
  by (auto simp: lex_digits_def Let_def ascii_def list_all_iff is_digit_def dropWhile_eq_drop
      dest: set_takeWhileD split: if_splits)

lemma lex_int_split: "lex_int s = Some (d, r) \<Longrightarrow> s = d @ r \<and> ascii d"
  by (auto simp: lex_int_def byte_def dest: lex_digits_split split: list.splits if_splits)

lemma lex_frac_split: "lex_frac s = Some (d, r) \<Longrightarrow> s = d @ r \<and> ascii d"
  by (auto simp: lex_frac_def byte_def prepend_def dest: lex_digits_split split: list.splits if_splits)

lemma lex_exp_split: "lex_exp s = Some (d, r) \<Longrightarrow> s = d @ r \<and> ascii d"
  by (auto simp: lex_exp_def byte_def prepend_def dest: lex_digits_split split: list.splits if_splits)

lemma lex_number_split: "lex_number s = Some (d, r) \<Longrightarrow> s = d @ r \<and> ascii d"
  by (auto simp: lex_number_def Let_def byte_def
      dest!: lex_int_split lex_frac_split lex_exp_split split: list.splits if_splits option.splits prod.splits)

lemma lex_word_split:
  assumes "lex_word s = Some (d, r)"
  shows "s = d @ r \<and> ascii d"
proof -
  have w: "ascii ''true''" "ascii ''false''" "ascii ''null''" by (simp_all add: byte_def)
  have "drop 4 s = drop (length ''true'') s" "drop 4 s = drop (length ''null'') s" "drop 5 s = drop (length ''false'') s"
    by (simp_all add: eval_nat_numeral)
  then consider "HasPrefix s d" "r = drop (length d) s" "d \<in> {''true'', ''false'', ''null''}" | "lex_number s = Some (d, r)"
    using assms by (simp only: lex_word_def split: if_splits) auto
  then show ?thesis
  proof cases
    case 1
    then have "s = d @ r" using append_take_drop_id [of "length d" s] by (simp add: HasPrefix_def)
    with 1 w show ?thesis by blast
  qed (use lex_number_split in blast)
qed

lemma lex_string_split: "lex_string s = Some (b, r) \<Longrightarrow> \<exists>b'. b = b' @ [QUOTE] \<and> s = b @ r"
proof (induction s arbitrary: b r rule: lex_string.induct)
  case (2 c cs)
  show ?case
  proof (cases "c = QUOTE")
    case False
    then obtain u r1 b1 where u: "str_unit (c # cs) = Some (u, r1)" "lex_string r1 = Some (b1, r)" "b = u @ b1"
      using 2(2) by (auto simp: prepend_def split: option.splits)
    from 2(1) [OF False u(1) refl u(2)] u(3) str_unit_again [OF u(1)] show ?thesis by auto
  qed (use 2(2) in auto)
qed simp

lemma lex_valid:
  assumes "lex s = Some (t, r)" "valid_utf8 s"
  shows "valid_utf8 (tok_text t) \<and> valid_utf8 r"
proof -
  obtain c cs where s: "s = c # cs" using assms by (cases s) (auto simp: lex_def)
  show ?thesis
  proof (cases "punct c")
    case (Some p)
    then have c: "tok_text t = [c]" "r = cs" "byte c < 128"
      using assms(1) s by (auto simp: lex_def punct_def byte_def split: if_splits)
    with valid_split_ascii_text [of "[c]" cs] assms(2) s show ?thesis by simp
  next
    case None
    show ?thesis
    proof (cases "c = QUOTE")
      case True
      then obtain b where b: "lex_string cs = Some (b, r)" "t = Lit (QUOTE # b)" using assms(1) s None by (auto simp: lex_def)
      then obtain b' where b': "b = b' @ [QUOTE]" "cs = b @ r" using lex_string_split by blast
      have q: "byte QUOTE < 128" by (simp add: byte_def)
      have "valid_utf8 ((QUOTE # b') @ QUOTE # r)" using assms(2) s b' True by simp
      from valid_split_ascii [OF q this] have "valid_utf8 (QUOTE # b')" "valid_utf8 r" by auto
      with valid_append [OF _ valid_ascii [OF q], of "QUOTE # b'"] b(2) b'(1) show ?thesis by simp
    next
      case False
      then obtain w where "lex_word s = Some (w, r)" "t = Lit w" using assms(1) s None by (auto simp: lex_def)
      moreover from this have "s = w @ r" "ascii w" using lex_word_split by blast+
      ultimately show ?thesis using valid_split_ascii_text [of w r] assms(2) by simp
    qed
  qed
qed

definition good_tok :: "jtok \<Rightarrow> bool" where
  "good_tok t \<longleftrightarrow> tok_ok t \<and> valid_utf8 (tok_text t)"

lemma tokenize_good: "tokenize s = Some ts \<Longrightarrow> valid_utf8 s \<Longrightarrow> list_all good_tok ts"
proof (induction s arbitrary: ts rule: tokenize.induct)
  case (2 c cs)
  show ?case
  proof (cases "json_space c")
    case False
    with 2(3) obtain t r ts' where l: "lex (c # cs) = Some (t, r)" "tokenize r = Some ts'" "ts = t # ts'"
      by (auto split: option.splits)
    have "tok_ok t" using lex_lit_ok l(1) by (cases t) auto
    with 2(2) [OF False l(1) refl l(2)] l(3) lex_valid [OF l(1) 2(4)] show ?thesis by (simp add: good_tok_def)
  next
    case True
    then have "byte c < 128" by (auto simp: json_space_def) (simp_all add: byte_def)
    with True 2 valid_split_ascii_text [of "[c]" cs] show ?thesis by auto
  qed
qed simp

lemma indent_valid: "list_all good_tok ts \<Longrightarrow> valid_utf8 (indent d need ts)"
proof -
  have nl: "valid_utf8 (newline d)" for d
    by (rule valid_ascii_list) (simp add: newline_def byte_def list_all_iff)
  show "list_all good_tok ts \<Longrightarrow> valid_utf8 (indent d need ts)"
  proof (induction ts arbitrary: d need)
    case (Cons t ts)
    then have "valid_utf8 (tok_text t)" "valid_utf8 (indent d need ts)" for d need
      by (simp_all add: good_tok_def)
    then show ?case by (simp only: indent.simps Let_def) (auto intro!: valid_append valid_Cons_ascii nl simp: valid_Nil byte_def)
  qed (simp add: valid_Nil)
qed

lemma quote_valid: "valid_utf8 s \<Longrightarrow> valid_utf8 (quote_json html s)"
proof -
  assume v: "valid_utf8 s"
  have q: "valid_utf8 [QUOTE]" by (simp add: valid_ascii byte_def)
  have e: "valid_utf8 (esc_rune html (p, r, ok))" if "(p, r, ok) \<in> set (rune_chunks s)" for p r ok
  proof -
    have "ok" using v that by (auto simp: valid_utf8_def list_all_iff)
    with rune_chunk_valid [OF that] have p: "p = encode_rune r" "scalar r" by auto
    show ?thesis
      using p(2)
    proof (cases rule: esc_rune_cases [of r html])
      case (code h)
      have "ascii (BACKSLASH # CHR ''u'' # h)" using code(5) by (simp add: ascii_def byte_def)
      with code(1) \<open>ok\<close> p show ?thesis by (simp add: ascii_def valid_ascii_list)
    next
      case (short e)
      have "ascii [BACKSLASH, e]" using short(4) by (auto simp: byte_def)
      then show ?thesis using short(1) \<open>ok\<close> p by (simp add: ascii_def valid_ascii_list)
    qed (use p \<open>ok\<close> in \<open>simp add: valid_encode\<close>)
  qed
  then have "list_all valid_utf8 (map (esc_rune html) (rune_chunks s))" by (auto simp: list_all_iff)
  from valid_concat [OF this] show ?thesis by (simp only: quote_json_def) (intro valid_append q)
qed

lemma good_quote: "valid_utf8 s \<Longrightarrow> good_tok (Lit (quote_json html s))"
  by (simp add: good_tok_def lit_ok_quote quote_valid)

subsection \<open>What is parsed can be written again\<close>

definition json_value :: "jtok list \<Rightarrow> bool" where
  "json_value v \<longleftrightarrow> is_value v \<and> list_all good_tok v"

definition good_member :: "string \<times> jtok list \<Rightarrow> bool" where
  "good_member m \<longleftrightarrow> valid_utf8 (fst m) \<and> json_value (snd m)"

lemma read_value_good:
  assumes "read_value ts = Some (v, r)" "list_all good_tok ts"
  shows "json_value v \<and> list_all good_tok r"
  using read_value_split [OF assms(1)] read_is_value [OF assms(1)] assms(2) by (auto simp: json_value_def)

lemma parse_members_good:
  "parse_members ts = Some (ms, r) \<Longrightarrow> list_all good_tok ts \<Longrightarrow> list_all good_member ms"
proof (induction ts arbitrary: ms rule: length_induct)
  case (1 ts)
  then obtain l r1 v t r2 where ts: "ts = Lit l # Colon # r1" "read_value r1 = Some (v, t # r2)" "t = Comma \<or> t = RBrace"
    by (auto simp: parse_members.simps [of ts] split: list.splits jtok.splits option.splits if_splits)
  have v: "good_member (unquote l, v)" "list_all good_tok r2"
    using read_value_good [OF ts(2)] 1(3) ts(1) by (auto simp: good_member_def unquote_valid)
  have "length r2 < length ts" using read_value_shorter [OF ts(2)] ts(1) by simp
  then have ih: "list_all good_member ms'" if "parse_members r2 = Some (ms', r)" for ms'
    using 1(1) v(2) that by blast
  have p: "parse_members (Lit l # Colon # r1) = Some (ms, r)" using 1(2) ts(1) by simp
  note p = p [unfolded parse_members.simps [of "Lit l # Colon # r1"]]
  from ts(3) show ?case
  proof
    assume t: "t = Comma"
    then obtain ms' where "parse_members r2 = Some (ms', r)" "ms = (unquote l, v) # ms'"
      using p ts(2) by (auto split: if_splits)
    with ih v(1) show ?thesis by simp
  next
    assume t: "t = RBrace"
    then have "ms = [(unquote l, v)]" using p ts(2) by (auto split: if_splits)
    with v(1) show ?thesis by simp
  qed
qed

lemma parse_object_good: "parse_object ts = Some ms \<Longrightarrow> list_all good_tok ts \<Longrightarrow> list_all good_member ms"
  by (auto simp: parse_object_def dest: parse_members_good split: if_splits list.splits jtok.splits option.splits)

lemma parse_elems_good:
  "parse_elems ts = Some (vs, r) \<Longrightarrow> list_all good_tok ts \<Longrightarrow> list_all json_value vs"
proof (induction ts arbitrary: vs rule: length_induct)
  case (1 ts)
  then obtain v t r2 where ts: "read_value ts = Some (v, t # r2)" "t = Comma \<or> t = RBrack"
    by (auto simp: parse_elems.simps [of ts] split: list.splits jtok.splits option.splits)
  have v: "json_value v" "list_all good_tok r2"
    using read_value_good [OF ts(1)] 1(3) by auto
  have "length r2 < length ts" using read_value_shorter [OF ts(1)] by simp
  then have ih: "list_all json_value vs'" if "parse_elems r2 = Some (vs', r)" for vs'
    using 1(1) v(2) that by blast
  from ts(2) show ?case
  proof
    assume "t = Comma"
    then obtain vs' where "parse_elems r2 = Some (vs', r)" "vs = v # vs'"
      using 1(2) ts(1) by (auto simp: parse_elems.simps [of ts])
    with ih v(1) show ?thesis by simp
  next
    assume "t = RBrack"
    then have "vs = [v]" using 1(2) ts(1) by (auto simp: parse_elems.simps [of ts])
    with v(1) show ?thesis by simp
  qed
qed

lemma parse_array_good: "parse_array ts = Some vs \<Longrightarrow> list_all good_tok ts \<Longrightarrow> list_all json_value vs"
  by (auto simp: parse_array_def dest: parse_elems_good split: if_splits list.splits jtok.splits option.splits)

lemma good_punct: "good_tok LBrace" "good_tok RBrace" "good_tok LBrack" "good_tok RBrack" "good_tok Comma" "good_tok Colon"
  by (simp_all add: good_tok_def valid_ascii byte_def)

lemma comma_sep_good: "list_all (list_all good_tok) vs \<Longrightarrow> list_all good_tok (comma_sep vs)"
  by (induction vs rule: comma_sep.induct) (simp_all add: good_punct)

lemma json_string: "valid_utf8 s \<Longrightarrow> json_value [Lit (quote_json html s)]"
  by (simp add: json_value_def good_quote is_value_def read_value_def)

lemma json_array: "list_all json_value vs \<Longrightarrow> json_value (array_toks vs)"
  using array_is_value [of vs] comma_sep_good [of vs]
  by (auto simp: json_value_def array_toks_def good_punct list_all_iff)

lemma json_object:
  assumes "list_all good_member ms"
  shows "json_value (object_toks ms)"
proof -
  have "list_all (is_value \<circ> snd) ms" using assms by (auto simp: list_all_iff good_member_def json_value_def)
  from object_is_value [OF this] have v: "is_value (object_toks ms)" .
  have "list_all (list_all good_tok) (map member_toks ms)"
    using assms
    by (auto simp: list_all_iff good_member_def json_value_def member_toks_def good_punct intro!: good_quote)
  from comma_sep_good [OF this] have "list_all good_tok (object_toks ms)"
    by (simp add: object_toks_member good_punct)
  with v show ?thesis by (simp add: json_value_def)
qed

lemma parse_object_written:
  assumes "list_all good_member ms"
  shows "parse_object (object_toks ms) = Some ms"
proof -
  have "list_all (is_value \<circ> snd) ms" using assms by (auto simp: list_all_iff good_member_def json_value_def)
  moreover have "map (\<lambda>(k, v). (unquote (quote_json False k), v)) ms = ms"
    using assms by (intro map_idI) (auto simp: list_all_iff good_member_def unquote_quote)
  ultimately show ?thesis using parse_object_encode [of ms] by simp
qed

lemma parse_array_written: "list_all json_value vs \<Longrightarrow> parse_array (array_toks vs) = Some vs"
  by (rule parse_array_encode) (auto simp: list_all_iff json_value_def)

text \<open>A laid out value with its final line break reads back to the value, and is valid text.\<close>

definition json_text :: "jtok list \<Rightarrow> string" where
  "json_text v = indent 0 False v @ [NL]"

lemma json_text_read: "json_value v \<Longrightarrow> tokenize (json_text v) = Some v"
proof -
  assume v: "json_value v"
  then have "list_all tok_ok v" "lits_apart v" using value_apart by (auto simp: json_value_def good_tok_def list_all_iff)
  with tokenize_indent [of "[NL]" v 0 False] show ?thesis by (simp add: json_text_def tok_end_def json_space_def)
qed

lemma json_text_valid: "json_value v \<Longrightarrow> valid_utf8 (json_text v)"
  using valid_append [OF indent_valid valid_ascii [of NL]] by (simp add: json_text_def json_value_def byte_def)

lemma json_text_nonempty: "json_text v \<noteq> []"
  by (simp add: json_text_def)

end
