(* ===== verification/Permissions.thy ===== *)
theory Permissions
  imports Json Imports
begin

section \<open>Allow rules in a repository's Claude settings\<close>

text \<open>
  Models \<open>internal/permissions/permissions.go\<close>. The state is the repository's \<open>.claude\<close>
  directory: the settings file and the record of granted rules, each absent, a symbolic link or a
  plain file with its bytes and mode. A JSON value kept as \<open>json.RawMessage\<close> is its token list.
  Every system call that may fail has its outcome as a field of a parameter record; the exclusive
  lock makes each call of \<open>run\<close> one transition. Another program that swaps files under the lock
  and the depth limit of the JSON scanner are outside the model.
\<close>

datatype perm_error =
    NoHomeDir | IsHomeDir | SymlinkRefused string
  | NotUtf8 | NotJson | PermissionsNotObject | AllowNotList | DuplicateKey string
  | RecordNotList
  | HandEdit perm_error
  | PermIo string
  | Rollback perm_error perm_error

text \<open>\<open>errors.Is (err, ErrRefused)\<close>.\<close>

fun refused :: "perm_error \<Rightarrow> bool" where
  "refused (PermIo a) = False"
| "refused (HandEdit e) = refused e"
| "refused (Rollback a b) = (refused a \<or> refused b)"
| "refused e = True"

definition handEdit :: "perm_error \<Rightarrow> perm_error" where
  "handEdit e = (if refused e then HandEdit e else e)"

lemma refused_handEdit [simp]: "refused (handEdit e) = refused e"
  by (simp add: handEdit_def)

definition Rules :: "string list" where
  "Rules = [''mcp__plugin_beadle_email__*'', ''mcp__beadle-email__*'', ''Bash(beadle-email:*)'',
    ''Skill(beadle)'', ''Skill(contacts)'', ''Skill(inbox)'', ''Skill(mail)'', ''Skill(send)'']"

subsection \<open>Members of an object\<close>

type_synonym member = "string \<times> jtok list"

definition parseObject :: "string \<Rightarrow> member list option" where
  "parseObject data = (case tokenize data of None \<Rightarrow> None | Some ts \<Rightarrow> parse_object ts)"

fun find_from :: "nat \<Rightarrow> nat option \<Rightarrow> member list \<Rightarrow> string \<Rightarrow> (perm_error, nat option) result" where
  "find_from i at [] key = Inr at"
| "find_from i at (m # ms) key =
     (if fst m \<noteq> key then find_from (Suc i) at ms key
      else if at \<noteq> None then Inl (DuplicateKey key)
      else find_from (Suc i) (Some i) ms key)"

definition find_key :: "member list \<Rightarrow> string \<Rightarrow> (perm_error, nat option) result" where
  "find_key ms key = find_from 0 None ms key"

fun set_member :: "member list \<Rightarrow> string \<Rightarrow> jtok list \<Rightarrow> member list" where
  "set_member [] key val = [(key, val)]"
| "set_member ((k, v) # ms) key val = (if k = key then (key, val) # ms else (k, v) # set_member ms key val)"

definition ruleString :: "jtok list \<Rightarrow> string option" where
  "ruleString raw = unmarshal_string raw"

definition hasRule :: "jtok list list \<Rightarrow> string \<Rightarrow> bool" where
  "hasRule allow rule = list_ex (\<lambda>raw. ruleString raw = Some rule) allow"

definition encodeString :: "string \<Rightarrow> jtok list" where
  "encodeString s = [Lit (quote_json False s)]"

subsection \<open>The edit\<close>

definition read_top :: "string option \<Rightarrow> (perm_error, member list) result" where
  "read_top data =
     (case data of
        None \<Rightarrow> Inr []
      | Some d \<Rightarrow>
          if \<not> valid_utf8 d then Inl NotUtf8
          else (case parseObject d of None \<Rightarrow> Inl NotJson | Some ms \<Rightarrow> Inr ms))"

definition read_perms :: "member list \<Rightarrow> nat option \<Rightarrow> (perm_error, member list) result" where
  "read_perms tops permsAt =
     (case permsAt of
        None \<Rightarrow> Inr []
      | Some i \<Rightarrow> (case parse_object (snd (tops ! i)) of None \<Rightarrow> Inl PermissionsNotObject | Some ms \<Rightarrow> Inr ms))"

definition read_allow :: "member list \<Rightarrow> nat option \<Rightarrow> (perm_error, jtok list list) result" where
  "read_allow perms allowAt =
     (case allowAt of
        None \<Rightarrow> Inr []
      | Some i \<Rightarrow> (case parse_array (snd (perms ! i)) of None \<Rightarrow> Inl AllowNotList | Some vs \<Rightarrow> Inr vs))"

definition plan_read :: "string option \<Rightarrow> (perm_error, member list \<times> member list \<times> jtok list list) result" where
  "plan_read data =
     and_then (read_top data) (\<lambda>tops.
     and_then (find_key tops ''permissions'') (\<lambda>permsAt.
     and_then (read_perms tops permsAt) (\<lambda>perms.
     and_then (find_key perms ''allow'') (\<lambda>allowAt.
     and_then (read_allow perms allowAt) (\<lambda>allow.
     Inr (tops, perms, allow))))))"

fun add_rules :: "string list \<Rightarrow> jtok list list \<Rightarrow> string list \<Rightarrow> jtok list list \<times> string list" where
  "add_rules [] allow changed = (allow, changed)"
| "add_rules (rule # rules) allow changed =
     (if hasRule allow rule then add_rules rules allow changed
      else add_rules rules (allow @ [encodeString rule]) (changed @ [rule]))"

fun remove_rules :: "string list \<Rightarrow> jtok list list \<Rightarrow> jtok list list \<Rightarrow> string list \<Rightarrow> jtok list list \<times> string list" where
  "remove_rules rules [] kept changed = (kept, changed)"
| "remove_rules rules (raw # allow) kept changed =
     (case ruleString raw of
        Some s \<Rightarrow>
          if s \<in> set rules
          then remove_rules rules allow kept (if s \<in> set changed then changed else changed @ [s])
          else remove_rules rules allow (kept @ [raw]) changed
      | None \<Rightarrow> remove_rules rules allow (kept @ [raw]) changed)"

definition plan :: "string option \<Rightarrow> bool \<Rightarrow> string list \<Rightarrow> (perm_error, string list \<times> string option) result" where
  "plan data add rules =
     and_then (plan_read data) (\<lambda>(tops, perms, allow).
       let (allow', changed) = (if add then add_rules rules allow [] else remove_rules rules allow [] []) in
       if changed = [] then Inr ([], None)
       else
         let perms' = set_member perms ''allow'' (array_toks allow');
             tops' = set_member tops ''permissions'' (object_toks perms')
         in Inr (changed, Some (json_text (object_toks tops'))))"

subsection \<open>Reading back an edit\<close>

lemma find_from_set:
  "find_from i at ms key = Inr r \<Longrightarrow>
     (r = at \<and> key \<notin> fst ` set ms \<and> set_member ms key val = ms @ [(key, val)])
     \<or> (at = None \<and> (\<exists>j < length ms. r = Some (i + j) \<and> fst (ms ! j) = key \<and> set_member ms key val = ms[j := (key, val)]
          \<and> (\<forall>v. find_from i at (ms[j := (key, v)]) key = Inr (Some (i + j)))))"
proof (induction i at ms key rule: find_from.induct)
  case (2 i at m ms key)
  obtain k v where m: "m = (k, v)" by (cases m)
  show ?case
  proof (cases "k = key")
    case False
    from 2(1) False m 2(3) show ?thesis
      by (auto intro: exI [of _ "Suc j" for j] simp: nth_Cons' )
  next
    case True
    then have at: "at = None" "find_from (Suc i) (Some i) ms key = Inr r" using 2(3) m by (auto split: if_splits)
    then have "r = Some i" "key \<notin> fst ` set ms" using 2(2) True m by auto
    then show ?thesis using True m at by (auto intro!: exI [of _ 0])
  qed
qed simp

lemma find_from_absent:
  "key \<notin> fst ` set ms \<Longrightarrow> find_from i at (ms @ rest) key = find_from (i + length ms) at rest key"
  by (induction i at ms key rule: find_from.induct) auto

lemma find_set:
  assumes "find_key ms key = Inr r"
  shows "\<exists>j. find_key (set_member ms key val) key = Inr (Some j) \<and> set_member ms key val ! j = (key, val)"
  using find_from_set [of 0 None ms key r val] find_from_absent [of key ms 0 None "[(key, val)]"] assms
  by (auto simp: find_key_def)

lemma find_found: "find_key ms key = Inr (Some i) \<Longrightarrow> i < length ms \<and> fst (ms ! i) = key"
  using find_from_set [of 0 None ms key "Some i" undefined] by (auto simp: find_key_def)

lemma set_member_good: "list_all good_member ms \<Longrightarrow> good_member (key, val) \<Longrightarrow> list_all good_member (set_member ms key val)"
  by (induction ms key val rule: set_member.induct) auto

lemma good_nth: "list_all good_member ms \<Longrightarrow> i < length ms \<Longrightarrow> list_all good_tok (snd (ms ! i)) \<and> is_value (snd (ms ! i))"
  by (auto simp: list_all_length good_member_def json_value_def)

text \<open>What a successful read found is good JSON, and each of the three parts is where the code looked.\<close>

lemma plan_read_parts:
  assumes "plan_read data = Inr (tops, perms, allow)"
  obtains pa aa where "read_top data = Inr tops" "find_key tops ''permissions'' = Inr pa" "read_perms tops pa = Inr perms"
    "find_key perms ''allow'' = Inr aa" "read_allow perms aa = Inr allow"
  using assms by (auto simp: plan_read_def and_then_Inr_iff)

lemma plan_read_good:
  assumes "plan_read data = Inr (tops, perms, allow)"
  shows "list_all good_member tops \<and> list_all good_member perms \<and> list_all json_value allow"
proof -
  obtain pa aa where p: "read_top data = Inr tops" "find_key tops ''permissions'' = Inr pa" "read_perms tops pa = Inr perms"
    "find_key perms ''allow'' = Inr aa" "read_allow perms aa = Inr allow"
    using plan_read_parts [OF assms] .
  have t: "list_all good_member tops"
    using p(1) by (auto simp: read_top_def parseObject_def dest: tokenize_good parse_object_good split: option.splits if_splits)
  have m: "list_all good_member perms"
  proof (cases pa)
    case (Some i)
    with p(2) find_found have "i < length tops" by blast
    with p(3) Some good_nth [OF t] show ?thesis
      by (auto simp: read_perms_def dest: parse_object_good split: option.splits)
  qed (use p(3) in \<open>simp add: read_perms_def\<close>)
  have "list_all json_value allow"
  proof (cases aa)
    case (Some i)
    with p(4) find_found have "i < length perms" by blast
    with p(5) Some good_nth [OF m] show ?thesis
      by (auto simp: read_allow_def dest: parse_array_good split: option.splits)
  qed (use p(5) in \<open>simp add: read_allow_def\<close>)
  with t m show ?thesis by blast
qed

text \<open>A written edit reads back as the edit: only the allow list changed.\<close>

lemma plan_read_written:
  assumes r: "plan_read data = Inr (tops, perms, allow)" and a: "list_all json_value allow'"
  defines "perms' \<equiv> set_member perms ''allow'' (array_toks allow')"
  defines "tops' \<equiv> set_member tops ''permissions'' (object_toks perms')"
  shows "plan_read (Some (json_text (object_toks tops'))) = Inr (tops', perms', allow')"
proof -
  obtain pa aa where p: "find_key tops ''permissions'' = Inr pa" "find_key perms ''allow'' = Inr aa"
    using plan_read_parts [OF r] by metis
  have v: "valid_utf8 ''allow''" "valid_utf8 ''permissions''"
    by (rule valid_ascii_list, simp add: byte_def)+
  have g: "list_all good_member tops" "list_all good_member perms" using plan_read_good [OF r] by auto
  have g': "list_all good_member perms'"
    unfolding perms'_def by (rule set_member_good [OF g(2)]) (simp add: good_member_def v json_array a)
  have t': "list_all good_member tops'"
    unfolding tops'_def by (rule set_member_good [OF g(1)]) (simp add: good_member_def v json_object g')
  obtain j where j: "find_key tops' ''permissions'' = Inr (Some j)" "tops' ! j = (''permissions'', object_toks perms')"
    using find_set [OF p(1)] unfolding tops'_def by blast
  obtain k where k: "find_key perms' ''allow'' = Inr (Some k)" "perms' ! k = (''allow'', array_toks allow')"
    using find_set [OF p(2)] unfolding perms'_def by blast
  have "parseObject (json_text (object_toks tops')) = Some tops'"
    using json_text_read [OF json_object [OF t']] parse_object_written [OF t'] by (simp add: parseObject_def)
  with j k json_text_valid [OF json_object [OF t']] parse_object_written [OF g'] parse_array_written [OF a]
  show ?thesis by (simp add: plan_read_def read_top_def read_perms_def read_allow_def)
qed

subsection \<open>The two edits of an allow list\<close>

lemma rule_string_encode [simp]: "valid_utf8 r \<Longrightarrow> ruleString (encodeString r) = Some r"
  by (simp add: ruleString_def encodeString_def unmarshal_string_def unquote_quote HasPrefix_def)
    (simp add: quote_json_def)

lemma hasRule_append [simp]: "hasRule (xs @ ys) r \<longleftrightarrow> hasRule xs r \<or> hasRule ys r"
  by (simp add: hasRule_def)

lemma hasRule_Nil [simp]: "\<not> hasRule [] r"
  by (simp add: hasRule_def)

lemma hasRule_Cons [simp]: "hasRule (x # xs) r \<longleftrightarrow> ruleString x = Some r \<or> hasRule xs r"
  by (simp add: hasRule_def)

lemma hasRule_filter: "hasRule (filter p xs) r \<longleftrightarrow> (\<exists>x \<in> set xs. p x \<and> ruleString x = Some r)"
  by (auto simp: hasRule_def list_ex_iff)

lemma add_rules_eq:
  "list_all valid_utf8 rules \<Longrightarrow> distinct rules \<Longrightarrow>
     add_rules rules allow changed =
       (allow @ map encodeString (filter (\<lambda>r. \<not> hasRule allow r) rules), changed @ filter (\<lambda>r. \<not> hasRule allow r) rules)"
proof (induction rules arbitrary: allow changed)
  case (Cons r rules)
  have "filter (\<lambda>x. \<not> (hasRule allow x \<or> r = x)) rules = filter (\<lambda>x. \<not> hasRule allow x) rules"
    using Cons.prems(2) by (intro filter_cong) auto
  with Cons show ?case by auto
qed simp

definition names :: "string list \<Rightarrow> jtok list \<Rightarrow> bool" where
  "names rules raw \<longleftrightarrow> (case ruleString raw of Some s \<Rightarrow> s \<in> set rules | None \<Rightarrow> False)"

lemma remove_rules_eq:
  "fst (remove_rules rules allow kept changed) = kept @ filter (\<lambda>raw. \<not> names rules raw) allow
   \<and> set (snd (remove_rules rules allow kept changed)) = set changed \<union> {s \<in> set rules. hasRule allow s}"
  by (induction rules allow kept changed rule: remove_rules.induct)
    (auto simp: names_def split: option.splits)

lemma hasRule_kept: "hasRule (filter (\<lambda>raw. \<not> names rules raw) allow) s \<longleftrightarrow> hasRule allow s \<and> s \<notin> set rules"
  by (auto simp: hasRule_filter names_def hasRule_def list_ex_iff)

lemma Rules_facts: "list_all valid_utf8 Rules" "distinct Rules"
proof -
  have "list_all ascii Rules" by (simp add: Rules_def byte_def)
  then show "list_all valid_utf8 Rules" by (auto simp: list_all_iff ascii_def valid_ascii_list)
qed (simp add: Rules_def)

text \<open>The allow list of a settings file, and the rules it allows.\<close>

definition allow_list :: "string option \<Rightarrow> jtok list list" where
  "allow_list data = (case plan_read data of Inr (tops, perms, allow) \<Rightarrow> allow | Inl e \<Rightarrow> [])"

text \<open>A file with another allow list: every other key keeps its place and its value.\<close>

definition with_allow :: "string option \<Rightarrow> jtok list list \<Rightarrow> string \<Rightarrow> bool" where
  "with_allow data allow' out \<longleftrightarrow>
     (case plan_read data of
        Inl e \<Rightarrow> False
      | Inr (tops, perms, allow) \<Rightarrow>
          let perms' = set_member perms ''allow'' (array_toks allow') in
          plan_read (Some out) = Inr (set_member tops ''permissions'' (object_toks perms'), perms', allow'))"

lemma with_allow_list: "with_allow data allow' out \<Longrightarrow> allow_list (Some out) = allow' \<and> is_ok (plan_read (Some out))"
  by (auto simp: with_allow_def allow_list_def Let_def split: sum.splits)

lemma plan_add:
  assumes "plan data True Rules = Inr (changed, out)"
  shows "changed = filter (\<lambda>r. \<not> hasRule (allow_list data) r) Rules"
    and "changed = [] \<longrightarrow> out = None"
    and "changed \<noteq> [] \<longrightarrow> (\<exists>o'. out = Some o' \<and> with_allow data (allow_list data @ map encodeString changed) o')"
proof -
  obtain tops perms allow where r: "plan_read data = Inr (tops, perms, allow)"
    using assms by (auto simp: plan_def and_then_Inr_iff)
  have al: "allow_list data = allow" by (simp add: allow_list_def r)
  note p = assms [unfolded plan_def r, simplified, unfolded add_rules_eq [OF Rules_facts]]
  show c: "changed = filter (\<lambda>r. \<not> hasRule (allow_list data) r) Rules"
    using p by (auto simp: Let_def al split: if_splits)
  show "changed = [] \<longrightarrow> out = None" using p by (auto simp: Let_def split: if_splits)
  have g: "list_all json_value (allow @ map encodeString changed)"
    using plan_read_good [OF r] Rules_facts(1) c by (auto simp: list_all_iff encodeString_def json_string)
  show "changed \<noteq> [] \<longrightarrow> (\<exists>o'. out = Some o' \<and> with_allow data (allow_list data @ map encodeString changed) o')"
    using p c plan_read_written [OF r g] by (auto simp: Let_def al with_allow_def r split: if_splits)
qed

lemma plan_remove:
  assumes "plan data False rules = Inr (changed, out)"
  shows "set changed = {s \<in> set rules. hasRule (allow_list data) s}"
    and "changed = [] \<longrightarrow> out = None"
    and "changed \<noteq> [] \<longrightarrow>
      (\<exists>o'. out = Some o' \<and> with_allow data (filter (\<lambda>raw. \<not> names rules raw) (allow_list data)) o')"
proof -
  obtain tops perms allow where r: "plan_read data = Inr (tops, perms, allow)"
    using assms by (auto simp: plan_def and_then_Inr_iff)
  have al: "allow_list data = allow" by (simp add: allow_list_def r)
  obtain allow' ch where e: "remove_rules rules allow [] [] = (allow', ch)" by fastforce
  have e': "allow' = filter (\<lambda>raw. \<not> names rules raw) allow" "set ch = {s \<in> set rules. hasRule allow s}"
    using remove_rules_eq [of rules allow "[]" "[]"] by (auto simp: e)
  note p = assms [unfolded plan_def r, simplified, unfolded e]
  have ch: "changed = ch" using p by (auto simp: Let_def split: if_splits)
  show "set changed = {s \<in> set rules. hasRule (allow_list data) s}" by (simp add: ch e' al)
  show "changed = [] \<longrightarrow> out = None" using p by (auto simp: Let_def split: if_splits)
  have g: "list_all json_value allow'" using plan_read_good [OF r] by (auto simp: e' list_all_iff)
  show "changed \<noteq> [] \<longrightarrow>
      (\<exists>o'. out = Some o' \<and> with_allow data (filter (\<lambda>raw. \<not> names rules raw) (allow_list data)) o')"
    using p plan_read_written [OF r g] by (auto simp: Let_def al with_allow_def r ch e' split: if_splits)
qed

subsection \<open>The directory and its files\<close>

text \<open>A symbolic link carries the mode of its target, \<open>None\<close> when it dangles.\<close>

datatype entry = Absent | Linked "nat option" | Plain string nat

datatype dir_kind = NoDir | RealDir | LinkDir

record claude_dir =
  dot_claude :: dir_kind
  settings :: entry
  granted :: entry
  temp_left :: bool

datatype perm_file = SettingsFile | RecordFile

fun entry_of :: "perm_file \<Rightarrow> claude_dir \<Rightarrow> entry" where
  "entry_of SettingsFile d = settings d"
| "entry_of RecordFile d = granted d"

fun put_entry :: "perm_file \<Rightarrow> entry \<Rightarrow> claude_dir \<Rightarrow> claude_dir" where
  "put_entry SettingsFile e d = d\<lparr>settings := e\<rparr>"
| "put_entry RecordFile e d = d\<lparr>granted := e\<rparr>"

text \<open>Outcomes of the calls of one read, and of one replacement of a file.\<close>

record read_io =
  rd_lstat :: bool
  rd_read :: bool

datatype temp_try = RandFails | NameTaken | OpenFails | Opened

record write_io =
  wr_stat :: bool
  wr_temp :: "nat \<Rightarrow> temp_try"
  wr_write :: bool
  wr_sync :: bool
  wr_chmod :: bool
  wr_close :: bool
  wr_rename :: bool
  wr_clean :: bool
  wr_remove :: bool

definition readConfined :: "read_io \<Rightarrow> perm_file \<Rightarrow> claude_dir \<Rightarrow> (perm_error, string option) result" where
  "readConfined io name d =
     (case entry_of name d of
        Absent \<Rightarrow> Inr None
      | Linked m \<Rightarrow> if \<not> rd_lstat io then Inl (PermIo ''inspecting'') else Inl (SymlinkRefused ''file'')
      | Plain data m \<Rightarrow>
          if \<not> rd_lstat io then Inl (PermIo ''inspecting'')
          else if \<not> rd_read io then Inl (PermIo ''reading'')
          else Inr (Some data))"

text \<open>\<open>json.Unmarshal\<close> into a list of strings; \<open>null\<close> leaves the list empty.\<close>

definition unmarshal_strings :: "string \<Rightarrow> string list option" where
  "unmarshal_strings data =
     (case tokenize data of
        None \<Rightarrow> None
      | Some ts \<Rightarrow>
          if ts = [Lit ''null''] then Some []
          else (case parse_array ts of None \<Rightarrow> None | Some vs \<Rightarrow> those (map unmarshal_string vs)))"

definition readGranted :: "read_io \<Rightarrow> claude_dir \<Rightarrow> (perm_error, string list) result" where
  "readGranted io d =
     and_then (readConfined io RecordFile d) (\<lambda>data.
       case data of
         None \<Rightarrow> Inr []
       | Some s \<Rightarrow> (case unmarshal_strings s of None \<Rightarrow> Inl RecordNotList | Some rs \<Rightarrow> Inr rs))"

text \<open>At most ten names are tried; the last error of a taken name is the one returned.\<close>

fun create_temp_from :: "nat \<Rightarrow> nat \<Rightarrow> (nat \<Rightarrow> temp_try) \<Rightarrow> (perm_error, unit) result" where
  "create_temp_from 0 i tries = Inl (PermIo ''exists'')"
| "create_temp_from (Suc n) i tries =
     (case tries i of
        RandFails \<Rightarrow> Inl (PermIo ''choosing temp name'')
      | Opened \<Rightarrow> Inr ()
      | OpenFails \<Rightarrow> Inl (PermIo ''open'')
      | NameTaken \<Rightarrow> create_temp_from n (Suc i) tries)"

definition createTemp :: "(nat \<Rightarrow> temp_try) \<Rightarrow> (perm_error, unit) result" where
  "createTemp tries = create_temp_from 10 0 tries"

definition fill_temp :: "write_io \<Rightarrow> (perm_error, unit) result" where
  "fill_temp io =
     (if \<not> wr_write io then Inl (PermIo ''writing'')
      else if \<not> wr_sync io then Inl (PermIo ''syncing'')
      else if \<not> wr_chmod io then Inl (PermIo ''chmod'')
      else if \<not> wr_close io then Inl (PermIo ''closing'')
      else if \<not> wr_rename io then Inl (PermIo ''replacing'')
      else Inr ())"

definition write_mode :: "write_io \<Rightarrow> entry \<Rightarrow> nat" where
  "write_mode io e =
     (case e of
        Plain s m \<Rightarrow> if wr_stat io then m else newFileMode
      | Linked (Some m) \<Rightarrow> if wr_stat io then m else newFileMode
      | _ \<Rightarrow> newFileMode)"

definition writeAtomic :: "write_io \<Rightarrow> perm_file \<Rightarrow> string \<Rightarrow> claude_dir \<Rightarrow> perm_error option \<times> claude_dir" where
  "writeAtomic io name data d =
     (let mode = write_mode io (entry_of name d) in
      case createTemp (wr_temp io) of
        Inl e \<Rightarrow> (Some e, d)
      | Inr _ \<Rightarrow>
          (case fill_temp io of
             Inl e \<Rightarrow> (Some e, if wr_clean io then d else d\<lparr>temp_left := True\<rparr>)
           | Inr _ \<Rightarrow> (None, put_entry name (Plain data mode) d)))"

definition writeGranted :: "write_io \<Rightarrow> string list \<Rightarrow> claude_dir \<Rightarrow> perm_error option \<times> claude_dir" where
  "writeGranted io rs d =
     (if rs = [] then
        (if granted d = Absent then (None, d)
         else if wr_remove io then (None, d\<lparr>granted := Absent\<rparr>)
         else (Some (PermIo ''removing''), d))
      else writeAtomic io RecordFile (json_text (array_toks (map (\<lambda>s. [Lit (quote_json True s)]) rs))) d)"

subsection \<open>One transaction\<close>

record request =
  rq_add :: bool
  rq_dry :: bool
  rq_rules :: "string list option"

record tx_io =
  tx_settings :: read_io
  tx_granted :: read_io
  tx_record :: write_io
  tx_out :: write_io
  tx_restore :: write_io

type_synonym tx_result = "(perm_error, string list \<times> string list) result"

fun merge_record :: "string list \<Rightarrow> string list \<Rightarrow> string list" where
  "merge_record merged [] = merged"
| "merge_record merged (rule # rules) = merge_record (if rule \<in> set merged then merged else merged @ [rule]) rules"

definition grant_writes ::
    "tx_io \<Rightarrow> string list \<Rightarrow> string list \<Rightarrow> string option \<Rightarrow> claude_dir \<Rightarrow> tx_result \<times> claude_dir" where
  "grant_writes io recd changed out d =
     (if changed = [] then (Inr ([], []), d)
      else (case writeGranted (tx_record io) (merge_record recd changed) d of
        (Some e, d1) \<Rightarrow> (Inl e, d1)
      | (None, d1) \<Rightarrow>
          (case writeAtomic (tx_out io) SettingsFile (the out) d1 of
             (Some e, d2) \<Rightarrow>
               (case writeGranted (tx_restore io) recd d2 of
                  (Some e', d3) \<Rightarrow> (Inl (Rollback e e'), d3)
                | (None, d3) \<Rightarrow> (Inl e, d3))
           | (None, d2) \<Rightarrow> (Inr (changed, []), d2))))"

definition unrecorded_rules :: "request \<Rightarrow> string option \<Rightarrow> string list \<Rightarrow> (perm_error, string list) result" where
  "unrecorded_rules q data recd =
     (if rq_rules q = None \<and> recd = [] then
        and_then (plan data False (filter (\<lambda>s. s \<notin> set recd) Rules)) (\<lambda>(stray, _). Inr stray)
      else Inr [])"

definition remove_writes ::
    "tx_io \<Rightarrow> string list \<Rightarrow> string list \<Rightarrow> string list \<Rightarrow> string list \<Rightarrow> string option \<Rightarrow> claude_dir
      \<Rightarrow> tx_result \<times> claude_dir" where
  "remove_writes io recd rules unrecorded changed out d =
     (case (if changed \<noteq> [] then writeAtomic (tx_out io) SettingsFile (the out) d else (None, d)) of
        (Some e, d1) \<Rightarrow> (Inl e, d1)
      | (None, d1) \<Rightarrow>
          let rest = filter (\<lambda>s. s \<notin> set rules) recd in
          (case (if length rest \<noteq> length recd then writeGranted (tx_record io) rest d1 else (None, d1)) of
             (Some e, d2) \<Rightarrow> (Inl e, d2)
           | (None, d2) \<Rightarrow> (Inr (changed, unrecorded), d2)))"

definition request_rules :: "request \<Rightarrow> string list \<Rightarrow> string list" where
  "request_rules q recd =
     (if rq_add q then Rules
      else filter (\<lambda>s. s \<in> set Rules) (case rq_rules q of None \<Rightarrow> recd | Some rs \<Rightarrow> rs))"

definition transact :: "tx_io \<Rightarrow> request \<Rightarrow> claude_dir \<Rightarrow> tx_result \<times> claude_dir" where
  "transact io q d =
     (case readConfined (tx_settings io) SettingsFile d of
        Inl e \<Rightarrow> (Inl e, d)
      | Inr data \<Rightarrow>
     (case readGranted (tx_granted io) d of
        Inl e \<Rightarrow> (Inl (handEdit e), d)
      | Inr recd \<Rightarrow>
          let rules = request_rules q recd in
     (case plan data (rq_add q) rules of
        Inl e \<Rightarrow> (Inl (handEdit e), d)
      | Inr (changed, out) \<Rightarrow>
          if rq_dry q then (Inr ([], []), d)
          else if rq_add q then grant_writes io recd changed out d
          else (case unrecorded_rules q data recd of
             Inl e \<Rightarrow> (Inl (handEdit e), d)
           | Inr unrecorded \<Rightarrow> remove_writes io recd rules unrecorded changed out d))))"

subsection \<open>The operations\<close>

record run_io =
  rn_home :: bool
  rn_same :: bool
  rn_lstat_dir :: bool
  rn_lstat_file :: bool
  rn_open_root :: bool
  rn_mkdir :: bool
  rn_open_claude :: bool
  rn_lock_open :: bool
  rn_flock :: bool
  rn_tx :: tx_io

definition settingsPresent :: "run_io \<Rightarrow> claude_dir \<Rightarrow> (perm_error, bool) result" where
  "settingsPresent io d =
     (if dot_claude d = NoDir then Inr False
      else if \<not> rn_lstat_dir io then Inl (PermIo ''inspecting'')
      else if dot_claude d = LinkDir then Inl (SymlinkRefused ''.claude'')
      else (case settings d of
        Absent \<Rightarrow> Inr False
      | Linked m \<Rightarrow>
          if \<not> rn_lstat_file io then Inl (PermIo ''inspecting'') else Inl (SymlinkRefused ''settings.json'')
      | Plain s m \<Rightarrow> if \<not> rn_lstat_file io then Inl (PermIo ''inspecting'') else Inr True))"

definition openError :: "claude_dir \<Rightarrow> perm_error" where
  "openError d = (if dot_claude d = LinkDir then SymlinkRefused ''.claude'' else PermIo ''opening'')"

definition mkdir_claude :: "run_io \<Rightarrow> claude_dir \<Rightarrow> (perm_error, claude_dir) result" where
  "mkdir_claude io d =
     (if dot_claude d \<noteq> NoDir then Inr d
      else if rn_mkdir io then Inr (d\<lparr>dot_claude := RealDir\<rparr>)
      else Inl (PermIo ''creating''))"

definition withLock_perm :: "run_io \<Rightarrow> (claude_dir \<Rightarrow> tx_result \<times> claude_dir) \<Rightarrow> claude_dir \<Rightarrow> tx_result \<times> claude_dir" where
  "withLock_perm io fn d =
     (if \<not> rn_lock_open io then (Inl (PermIo ''opening lock''), d)
      else if \<not> rn_flock io then (Inl (PermIo ''locking''), d)
      else fn d)"

definition run_confined :: "run_io \<Rightarrow> request \<Rightarrow> claude_dir \<Rightarrow> tx_result \<times> claude_dir" where
  "run_confined io q d =
     (if \<not> rn_open_root io then (Inl (PermIo ''opening''), d)
      else (case (if rq_add q then mkdir_claude io d else Inr d) of
        Inl e \<Rightarrow> (Inl e, d)
      | Inr d1 \<Rightarrow>
          if \<not> rn_open_claude io then (Inl (openError d1), d1)
          else if rq_dry q then
            (case transact (rn_tx io) q d1 of
               (Inl e, d2) \<Rightarrow> (Inl e, d2)
             | (Inr r, d2) \<Rightarrow> (Inr ([], []), d2))
          else withLock_perm io (transact (rn_tx io) q) d1))"

definition run_perm :: "run_io \<Rightarrow> request \<Rightarrow> claude_dir \<Rightarrow> tx_result \<times> claude_dir" where
  "run_perm io q d =
     (if \<not> rn_home io then (Inl NoHomeDir, d)
      else if rn_same io then (Inl IsHomeDir, d)
      else (case settingsPresent io d of
        Inl e \<Rightarrow> (Inl e, d)
      | Inr found \<Rightarrow>
          if \<not> found \<and> (\<not> rq_add q \<or> rq_dry q) then (Inr ([], []), d)
          else run_confined io q d))"

definition Grant :: "run_io \<Rightarrow> claude_dir \<Rightarrow> (perm_error, string list) result \<times> claude_dir" where
  "Grant io d =
     (case run_perm io \<lparr>rq_add = True, rq_dry = False, rq_rules = None\<rparr> d of
        (Inl e, d') \<Rightarrow> (Inl e, d')
      | (Inr (changed, _), d') \<Rightarrow> (Inr changed, d'))"

definition Revoke :: "run_io \<Rightarrow> claude_dir \<Rightarrow> tx_result \<times> claude_dir" where
  "Revoke io d = run_perm io \<lparr>rq_add = False, rq_dry = False, rq_rules = None\<rparr> d"

definition Remove_perm :: "run_io \<Rightarrow> string list \<Rightarrow> claude_dir \<Rightarrow> (perm_error, string list) result \<times> claude_dir" where
  "Remove_perm io rs d =
     (if rs = [] then (Inr [], d)
      else (case run_perm io \<lparr>rq_add = False, rq_dry = False, rq_rules = Some rs\<rparr> d of
        (Inl e, d') \<Rightarrow> (Inl e, d')
      | (Inr (changed, _), d') \<Rightarrow> (Inr changed, d')))"

definition Preflight :: "run_io \<Rightarrow> claude_dir \<Rightarrow> perm_error option \<times> claude_dir" where
  "Preflight io d =
     (case run_perm io \<lparr>rq_add = True, rq_dry = True, rq_rules = None\<rparr> d of
        (Inl e, d') \<Rightarrow> (Some e, d')
      | (Inr _, d') \<Rightarrow> (None, d'))"

subsection \<open>What is on disk\<close>

definition file_text :: "entry \<Rightarrow> string option" where
  "file_text e = (case e of Plain s m \<Rightarrow> Some s | _ \<Rightarrow> None)"

definition allowed :: "claude_dir \<Rightarrow> string set" where
  "allowed d = {r. hasRule (allow_list (file_text (settings d))) r}"

definition recorded :: "claude_dir \<Rightarrow> string list" where
  "recorded d =
     (case file_text (granted d) of
        None \<Rightarrow> []
      | Some s \<Rightarrow> (case unmarshal_strings s of None \<Rightarrow> [] | Some rs \<Rightarrow> rs))"

definition same_files :: "claude_dir \<Rightarrow> claude_dir \<Rightarrow> bool" where
  "same_files d d' \<longleftrightarrow> settings d' = settings d \<and> granted d' = granted d"

lemma same_files_refl [simp]: "same_files d d"
  by (simp add: same_files_def)

lemma same_files_on_disk: "same_files d d' \<Longrightarrow> allowed d' = allowed d \<and> recorded d' = recorded d"
  by (simp add: same_files_def allowed_def recorded_def)

lemma readConfined_text: "readConfined io name d = Inr data \<Longrightarrow> data = file_text (entry_of name d)"
  by (auto simp: readConfined_def file_text_def split: entry.splits if_splits)

lemma readGranted_recorded: "readGranted io d = Inr recd \<Longrightarrow> recd = recorded d"
proof -
  assume "readGranted io d = Inr recd"
  then obtain data where r: "readConfined io RecordFile d = Inr data"
    "(case data of None \<Rightarrow> Inr [] | Some s \<Rightarrow> (case unmarshal_strings s of None \<Rightarrow> Inl RecordNotList | Some rs \<Rightarrow> Inr rs)) = Inr recd"
    by (auto simp: readGranted_def and_then_Inr_iff)
  from readConfined_text [OF r(1)] r(2) show ?thesis by (auto simp: recorded_def split: option.splits)
qed

lemma those_valid: "those (map unmarshal_string vs) = Some rs \<Longrightarrow> list_all valid_utf8 rs"
proof (induction vs arbitrary: rs)
  case (Cons v vs)
  have "valid_utf8 s" if "unmarshal_string v = Some s" for s
    using that by (auto simp: unmarshal_string_def unquote_valid valid_Nil split: list.splits jtok.splits if_splits)
  with Cons show ?case by (auto split: option.splits)
qed simp

lemma recorded_valid: "list_all valid_utf8 (recorded d)"
  by (auto simp: recorded_def unmarshal_strings_def those_valid split: option.splits if_splits)

lemma record_roundtrip:
  assumes "list_all valid_utf8 rs"
  shows "unmarshal_strings (json_text (array_toks (map (\<lambda>s. [Lit (quote_json True s)]) rs))) = Some rs"
proof -
  let ?vs = "map (\<lambda>s. [Lit (quote_json True s)]) rs"
  have v: "list_all json_value ?vs" using assms by (auto simp: list_all_iff json_string)
  have u: "unmarshal_string [Lit (quote_json True s)] = Some s" if "valid_utf8 s" for s
    using that by (simp add: unmarshal_string_def unquote_quote HasPrefix_def) (simp add: quote_json_def)
  have "those (map unmarshal_string ?vs) = Some rs"
    using assms by (induction rs) (simp_all add: u)
  with json_text_read [OF json_array [OF v]] parse_array_written [OF v] show ?thesis
    by (simp add: unmarshal_strings_def) (simp add: array_toks_def)
qed

lemma writeAtomic_cases:
  assumes "writeAtomic io name data d = (err, d')"
  shows "(err = None \<and> d' = put_entry name (Plain data (write_mode io (entry_of name d))) d)
       \<or> (err \<noteq> None \<and> \<not> refused (the err) \<and> same_files d d' \<and> dot_claude d' = dot_claude d)"
proof -
  have "create_temp_from n i t = Inl e \<Longrightarrow> \<not> refused e" for n i t e
    by (induction n i t rule: create_temp_from.induct) (auto split: temp_try.splits)
  moreover have "fill_temp io = Inl e \<Longrightarrow> \<not> refused e" for e
    by (auto simp: fill_temp_def split: if_splits)
  ultimately show ?thesis
    using assms by (auto simp: writeAtomic_def createTemp_def Let_def same_files_def split: sum.splits)
qed

lemma writeGranted_cases:
  assumes "writeGranted io rs d = (err, d')" "list_all valid_utf8 rs"
  shows "settings d' = settings d \<and> (err = None \<longrightarrow> recorded d' = rs)
       \<and> (err \<noteq> None \<longrightarrow> \<not> refused (the err) \<and> same_files d d')"
proof (cases "rs = []")
  case False
  with assms(1) have "writeAtomic io RecordFile (json_text (array_toks (map (\<lambda>s. [Lit (quote_json True s)]) rs))) d = (err, d')"
    by (simp add: writeGranted_def)
  from writeAtomic_cases [OF this] record_roundtrip [OF assms(2)] show ?thesis
    by (auto simp: recorded_def file_text_def same_files_def)
qed (use assms(1) in \<open>auto simp: writeGranted_def recorded_def file_text_def split: if_splits\<close>)

lemma merge_record_set: "set (merge_record merged rules) = set merged \<union> set rules"
  by (induction merged rules rule: merge_record.induct) auto

lemma merge_record_valid: "list_all valid_utf8 a \<Longrightarrow> list_all valid_utf8 b \<Longrightarrow> list_all valid_utf8 (merge_record a b)"
  by (auto simp: list_all_iff merge_record_set)

lemma merge_record_nonempty: "b \<noteq> [] \<Longrightarrow> merge_record a b \<noteq> []"
  using merge_record_set [of a b] by (cases "merge_record a b") auto

lemma merge_fresh: "distinct (a @ b) \<Longrightarrow> merge_record a b = a @ b"
  by (induction a b rule: merge_record.induct) auto

text \<open>How a run ends: before any file is touched, with nothing to edit, or with a transaction.\<close>

lemma settingsPresent_absent:
  "settingsPresent io d = Inr False \<Longrightarrow> dot_claude d = NoDir \<or> settings d = Absent"
  by (auto simp: settingsPresent_def split: if_splits entry.splits)

lemma settingsPresent_found: "settingsPresent io d = Inr True \<Longrightarrow> dot_claude d \<noteq> NoDir"
  by (auto simp: settingsPresent_def)

lemma run_perm_cases:
  assumes "run_perm io q d = (r, d')"
  obtains (stopped) e where "r = Inl e" "same_files d d'"
  | (nothing) "r = Inr ([], [])" "d' = d" "\<not> rq_add q \<or> rq_dry q" "dot_claude d = NoDir \<or> settings d = Absent"
  | (dry) r' d1 where "rq_dry q" "same_files d d1" "transact (rn_tx io) q d1 = (r', d')"
      "r = (case r' of Inl e \<Rightarrow> Inl e | Inr _ \<Rightarrow> Inr ([], []))"
  | (edit) d1 where "\<not> rq_dry q" "same_files d d1" "dot_claude d1 \<noteq> NoDir" "transact (rn_tx io) q d1 = (r, d')"
proof -
  have alt: "(\<exists>e. r = Inl e \<and> d' = d)
    \<or> (r = Inr ([], []) \<and> d' = d \<and> (\<not> rq_add q \<or> rq_dry q) \<and> settingsPresent io d = Inr False)
    \<or> (run_confined io q d = (r, d') \<and> (rq_add q \<or> dot_claude d \<noteq> NoDir))"
  proof (cases "rn_home io \<and> \<not> rn_same io")
    case home: True
    show ?thesis
    proof (cases "settingsPresent io d")
      case (Inr found)
      with settingsPresent_found [of io d] have "found \<Longrightarrow> dot_claude d \<noteq> NoDir" by simp
      with Inr home assms show ?thesis
        by (cases found; cases "\<not> rq_add q \<or> rq_dry q") (simp_all add: run_perm_def)
    qed (use home assms in \<open>auto simp: run_perm_def\<close>)
  qed (use assms in \<open>auto simp: run_perm_def split: if_splits\<close>)
  then consider e where "r = Inl e" "d' = d"
    | "r = Inr ([], [])" "d' = d" "\<not> rq_add q \<or> rq_dry q" "settingsPresent io d = Inr False"
    | "run_confined io q d = (r, d')" "rq_add q \<or> dot_claude d \<noteq> NoDir"
    by blast
  then show ?thesis
  proof cases
    case 3
    note c = 3(1) [unfolded run_confined_def] and nd = 3(2)
    let ?m = "if rq_add q then mkdir_claude io d else Inr d"
    show ?thesis
    proof (cases "rn_open_root io")
      case opened: True
      show ?thesis
      proof (cases ?m)
        case (Inr d1)
        have s: "same_files d d1" "dot_claude d1 \<noteq> NoDir"
          using Inr nd by (auto simp: mkdir_claude_def same_files_def split: if_splits)
        note c = c [unfolded Inr]
        consider "\<not> rn_open_claude io" | "rn_open_claude io" "rq_dry q" | "rn_open_claude io" "\<not> rq_dry q" by blast
        then show ?thesis
        proof cases
          case 2
          obtain r' d2 where t: "transact (rn_tx io) q d1 = (r', d2)" by fastforce
          have e: "(case r' of Inl e \<Rightarrow> (Inl e, d2) | Inr x \<Rightarrow> (Inr ([], []), d2)) = (r, d')"
            using c opened 2 by (simp add: t)
          then have "d2 = d'" "r = (case r' of Inl e \<Rightarrow> Inl e | Inr _ \<Rightarrow> Inr ([], []))"
            by (auto split: sum.splits)
          with t show ?thesis by (intro dry [OF 2(2) s(1)]) simp_all
        next
          case 3
          with c opened have "withLock_perm io (transact (rn_tx io) q) d1 = (r, d')" by simp
          with stopped edit [OF 3(2) s] s show ?thesis by (auto simp: withLock_perm_def split: if_splits)
        qed (use c opened s stopped in auto)
      qed (use c opened stopped in auto)
    qed (use c stopped in auto)
  qed (use that settingsPresent_absent in \<open>auto simp: same_files_def\<close>)
qed

lemma dot_kept:
  "writeAtomic io name data d = (err, d') \<Longrightarrow> dot_claude d' = dot_claude d"
  "writeGranted wio rs d = (err, d') \<Longrightarrow> dot_claude d' = dot_claude d"
proof -
  show a: "writeAtomic io name data d = (err, d') \<Longrightarrow> dot_claude d' = dot_claude d" for io name data d err d'
    by (cases name) (auto simp: writeAtomic_def Let_def split: sum.splits if_splits)
  show "writeGranted wio rs d = (err, d') \<Longrightarrow> dot_claude d' = dot_claude d"
    by (auto simp: writeGranted_def dest: a split: if_splits)
qed

lemma grant_writes_dot: "grant_writes io recd changed out d = (r, d') \<Longrightarrow> dot_claude d' = dot_claude d"
  by (auto simp: grant_writes_def dest!: dot_kept split: if_splits prod.splits option.splits)

lemma transact_cases:
  assumes "transact io q d = (r, d')"
  obtains (stopped) e where "r = Inl e" "d' = d"
  | (planned) changed out where
      "plan (file_text (settings d)) (rq_add q) (request_rules q (recorded d)) = Inr (changed, out)"
      "rq_dry q \<longrightarrow> r = Inr ([], []) \<and> d' = d"
      "\<not> rq_dry q \<and> rq_add q \<longrightarrow> grant_writes io (recorded d) changed out d = (r, d')"
      "\<not> rq_dry q \<and> \<not> rq_add q \<longrightarrow>
         (\<exists>unrec. unrecorded_rules q (file_text (settings d)) (recorded d) = Inr unrec
            \<and> remove_writes io (recorded d) (request_rules q (recorded d)) unrec changed out d = (r, d'))"
proof (cases "readConfined (tx_settings io) SettingsFile d")
  case (Inl e)
  with assms stopped show ?thesis by (auto simp: transact_def)
next
  case 1: (Inr data)
  note data = readConfined_text [OF 1, simplified]
  show ?thesis
  proof (cases "readGranted (tx_granted io) d")
    case (Inl e)
    with 1 assms stopped show ?thesis by (auto simp: transact_def)
  next
    case 2: (Inr recd)
    note recd = readGranted_recorded [OF 2]
    show ?thesis
    proof (cases "plan data (rq_add q) (request_rules q recd)")
      case (Inl e)
      with 1 2 assms stopped show ?thesis by (auto simp: transact_def Let_def)
    next
      case 3: (Inr p)
      obtain changed out where p: "p = (changed, out)" by fastforce
      note t = assms [unfolded transact_def 1 2 Let_def, simplified, unfolded 3 p, simplified]
      consider "rq_dry q \<or> rq_add q" | e where "\<not> rq_dry q" "\<not> rq_add q" "unrecorded_rules q data recd = Inl e"
        | u where "\<not> rq_dry q" "\<not> rq_add q" "unrecorded_rules q data recd = Inr u"
        by (cases "unrecorded_rules q data recd") auto
      then show ?thesis
      proof cases
        case 1
        note P = 3 [unfolded p data recd]
        show ?thesis by (rule planned [OF P]) (use 1 t in \<open>simp_all add: data recd split: if_splits\<close>)
      next
        case (2 e)
        with t have "r = Inl (handEdit e)" "d' = d" by simp_all
        then show ?thesis by (rule stopped)
      next
        case (3 u)
        note P = \<open>plan data (rq_add q) (request_rules q recd) = Inr p\<close> [unfolded p data recd]
        show ?thesis by (rule planned [OF P]) (use 3 t in \<open>simp_all add: data recd\<close>)
      qed
    qed
  qed
qed

text \<open>The files after the writes of a grant: all of it, or the old settings with a record at least as large.\<close>

lemma grant_writes_cases:
  assumes "grant_writes io (recorded d) changed out d = (r, d')" "list_all valid_utf8 changed"
  shows "(changed = [] \<and> r = Inr ([], []) \<and> d' = d)
    \<or> (changed \<noteq> [] \<and> r = Inr (changed, [])
        \<and> (\<exists>m. settings d' = Plain (the out) m) \<and> recorded d' = merge_record (recorded d) changed)
    \<or> (changed \<noteq> [] \<and> (\<exists>e. r = Inl e \<and> \<not> refused e) \<and> settings d' = settings d
        \<and> set (recorded d) \<subseteq> set (recorded d'))"
proof (cases "changed = []")
  case ne: False
  let ?rec = "merge_record (recorded d) changed"
  have v: "list_all valid_utf8 ?rec" using merge_record_valid recorded_valid assms(2) by blast
  obtain e1 d1 where w1: "writeGranted (tx_record io) ?rec d = (e1, d1)" by fastforce
  note c1 = writeGranted_cases [OF w1 v]
  show ?thesis
  proof (cases e1)
    case (Some e)
    with assms(1) ne w1 have "r = Inl e" "d' = d1" by (simp_all add: grant_writes_def)
    with c1 Some ne same_files_on_disk [of d d1] show ?thesis by auto
  next
    case None
    obtain e2 d2 where w2: "writeAtomic (tx_out io) SettingsFile (the out) d1 = (e2, d2)" by fastforce
    note c2 = writeAtomic_cases [OF w2]
    show ?thesis
    proof (cases e2)
      case e2: None
      with assms(1) ne w1 w2 None have "r = Inr (changed, [])" "d' = d2" by (simp_all add: grant_writes_def)
      with c1 c2 None e2 ne show ?thesis by (auto simp: recorded_def)
    next
      case (Some e)
      obtain e3 d3 where w3: "writeGranted (tx_restore io) (recorded d) d2 = (e3, d3)" by fastforce
      note c3 = writeGranted_cases [OF w3 recorded_valid]
      have d': "d' = d3" "\<exists>e. r = Inl e \<and> \<not> refused e"
        using assms(1) ne w1 w2 w3 None Some c2 c3 by (auto simp: grant_writes_def split: option.splits)
      have s: "settings d3 = settings d" using c1 c2 c3 Some by (auto simp: same_files_def)
      have "recorded d3 = recorded d \<or> recorded d3 = ?rec"
        using c1 c2 c3 None Some same_files_on_disk [of d1 d2] same_files_on_disk [of d2 d3] by (cases e3) auto
      with d' s ne show ?thesis by (auto simp: merge_record_set)
    qed
  qed
qed (use assms(1) in \<open>simp add: grant_writes_def\<close>)

text \<open>The files after the writes of a removal: the record shrinks only once the settings are written.\<close>

definition settings_written :: "string list \<Rightarrow> string option \<Rightarrow> claude_dir \<Rightarrow> claude_dir \<Rightarrow> bool" where
  "settings_written changed out d d' \<longleftrightarrow>
     (if changed = [] then settings d' = settings d else \<exists>m. settings d' = Plain (the out) m)"

lemma remove_writes_cases:
  assumes "remove_writes io (recorded d) rules unrec changed out d = (r, d')"
  shows "(settings d' = settings d \<and> recorded d' = recorded d \<and> (\<exists>e. r = Inl e \<and> \<not> refused e))
    \<or> (settings_written changed out d d' \<and> recorded d' = recorded d \<and> (\<exists>e. r = Inl e \<and> \<not> refused e))
    \<or> (settings_written changed out d d' \<and> recorded d' = filter (\<lambda>s. s \<notin> set rules) (recorded d) \<and> r = Inr (changed, unrec))"
proof -
  obtain e1 d1 where w1: "(if changed \<noteq> [] then writeAtomic (tx_out io) SettingsFile (the out) d else (None, d)) = (e1, d1)"
    by fastforce
  have c1: "(e1 = None \<and> settings_written changed out d d1 \<and> recorded d1 = recorded d)
      \<or> (\<exists>e. e1 = Some e \<and> \<not> refused e \<and> same_files d d1)"
    using w1 by (cases "changed = []")
      (auto simp: settings_written_def recorded_def dest!: writeAtomic_cases)
  note t = assms [unfolded remove_writes_def w1]
  show ?thesis
  proof (cases e1)
    case None
    let ?rest = "filter (\<lambda>s. s \<notin> set rules) (recorded d)"
    have rest: "length ?rest = length (recorded d) \<Longrightarrow> ?rest = recorded d"
      by (metis filter_True length_filter_less nat_neq_iff)
    have v: "list_all valid_utf8 ?rest" using recorded_valid [of d] by (auto simp: list_all_iff)
    obtain e2 d2 where w2: "(if length ?rest \<noteq> length (recorded d) then writeGranted (tx_record io) ?rest d1 else (None, d1)) = (e2, d2)"
      by fastforce
    have c2: "settings d2 = settings d1 \<and> (e2 = None \<longrightarrow> recorded d2 = ?rest)
        \<and> (e2 \<noteq> None \<longrightarrow> \<not> refused (the e2) \<and> same_files d1 d2)"
      using w2 rest c1 None writeGranted_cases [of "tx_record io" ?rest d1 e2 d2] v by (auto split: if_splits)
    have r: "(r, d') = (case e2 of Some e \<Rightarrow> (Inl e, d2) | None \<Rightarrow> (Inr (changed, unrec), d2))"
      using t None w2 by (cases e2) (simp_all add: Let_def)
    show ?thesis
      using r c1 c2 None same_files_on_disk [of d1 d2] by (cases e2) (auto simp: settings_written_def)
  next
    case (Some e)
    with t c1 same_files_on_disk [of d d1] show ?thesis by (auto simp: same_files_def)
  qed
qed

subsection \<open>Grants and their record\<close>

text \<open>Every rule of beadle's set that is allowed is the operator's own or in the record.\<close>

definition accounted :: "string set \<Rightarrow> claude_dir \<Rightarrow> bool" where
  "accounted own d \<longleftrightarrow> allowed d \<inter> set Rules \<subseteq> own \<union> set (recorded d)"

lemma accounted_same: "same_files d d' \<Longrightarrow> accounted own d' = accounted own d"
  by (simp add: accounted_def same_files_on_disk)

lemma grant_allowed:
  assumes "plan (file_text (settings d)) True Rules = Inr (changed, out)" "changed \<noteq> []" "settings d' = Plain (the out) m"
  shows "allowed d' = allowed d \<union> set changed"
proof -
  obtain o' where o': "out = Some o'" "with_allow (file_text (settings d)) (allow_list (file_text (settings d)) @ map encodeString changed) o'"
    using plan_add(3) [OF assms(1)] assms(2) by blast
  have v: "list_all valid_utf8 changed" using plan_add(1) [OF assms(1)] Rules_facts(1) by (auto simp: list_all_iff)
  have h: "hasRule (map encodeString changed) r \<longleftrightarrow> r \<in> set changed" for r
    using v by (induction changed) auto
  from with_allow_list [OF o'(2)] o'(1) assms(3) show ?thesis
    by (auto simp: allowed_def file_text_def h)
qed

lemma remove_allowed:
  assumes "plan (file_text (settings d)) False rules = Inr (changed, out)" "settings_written changed out d d'"
  shows "allowed d' = allowed d - set rules"
proof (cases "changed = []")
  case True
  with assms plan_remove(1) [OF assms(1)] show ?thesis by (auto simp: settings_written_def allowed_def)
next
  case False
  then obtain o' where o': "out = Some o'"
      "with_allow (file_text (settings d)) (filter (\<lambda>raw. \<not> names rules raw) (allow_list (file_text (settings d)))) o'"
    using plan_remove(3) [OF assms(1)] by blast
  obtain m where "settings d' = Plain o' m" using assms(2) False o'(1) by (auto simp: settings_written_def)
  with with_allow_list [OF o'(2)] show ?thesis by (auto simp: allowed_def file_text_def hasRule_kept)
qed

lemma transact_accounted:
  assumes "transact io q d = (r, d')" "accounted own d"
  shows "accounted own d'"
  using assms(1)
proof (cases rule: transact_cases)
  case (stopped e)
  with assms(2) show ?thesis by simp
next
  case (planned changed out)
  show ?thesis
  proof (cases "rq_dry q")
    case True
    with planned(2) assms(2) show ?thesis by simp
  next
    case nd: False
    show ?thesis
    proof (cases "rq_add q")
      case True
      have p: "plan (file_text (settings d)) True Rules = Inr (changed, out)"
        using planned(1) True by (simp add: request_rules_def)
      have v: "list_all valid_utf8 changed" using plan_add(1) [OF p] Rules_facts(1) by (auto simp: list_all_iff)
      from planned(3) nd True have w: "grant_writes io (recorded d) changed out d = (r, d')" by simp
      from grant_writes_cases [OF w v] consider "d' = d"
        | m where "changed \<noteq> []" "settings d' = Plain (the out) m" "recorded d' = merge_record (recorded d) changed"
        | "settings d' = settings d" "set (recorded d) \<subseteq> set (recorded d')"
        by blast
      then show ?thesis
      proof cases
        case (2 m)
        from grant_allowed [OF p 2(1,2)] 2(3) assms(2) show ?thesis by (auto simp: accounted_def merge_record_set)
      next
        case 3
        then have "allowed d' = allowed d" by (simp add: allowed_def)
        with 3(2) assms(2) show ?thesis by (auto simp: accounted_def)
      qed (use assms(2) in simp)
    next
      case False
      from planned(4) nd False obtain unrec where
        w: "remove_writes io (recorded d) (request_rules q (recorded d)) unrec changed out d = (r, d')" by blast
      have a: "allowed d' = allowed d - set (request_rules q (recorded d))" if "settings_written changed out d d'"
        using remove_allowed planned(1) False that by simp
      from remove_writes_cases [OF w] consider "settings d' = settings d" "recorded d' = recorded d"
        | "settings_written changed out d d'" "recorded d' = recorded d"
        | "settings_written changed out d d'" "recorded d' = filter (\<lambda>s. s \<notin> set (request_rules q (recorded d))) (recorded d)"
        by blast
      then show ?thesis
      proof cases
        case 1
        then have "allowed d' = allowed d" by (simp add: allowed_def)
        with 1(2) assms(2) show ?thesis by (simp add: accounted_def)
      qed (use a assms(2) in \<open>auto simp: accounted_def\<close>)
    qed
  qed
qed

lemma run_perm_accounted:
  assumes "run_perm io q d = (r, d')" "accounted own d"
  shows "accounted own d'"
  using assms(1)
proof (cases rule: run_perm_cases)
  case (dry r' d1)
  with assms(2) accounted_same transact_accounted show ?thesis by metis
next
  case (edit d1)
  with assms(2) accounted_same transact_accounted show ?thesis by metis
qed (use assms(2) accounted_same in auto)

text \<open>The calls another part of beadle makes, in any order, each with any outcome of its system calls.\<close>

inductive perm_step :: "claude_dir \<Rightarrow> claude_dir \<Rightarrow> bool" where
  grant: "Grant io d = (r, d') \<Longrightarrow> perm_step d d'"
| revoke: "Revoke io d = (r2, d') \<Longrightarrow> perm_step d d'"
| remove: "Remove_perm io rs d = (r, d') \<Longrightarrow> perm_step d d'"
| preflight: "Preflight io d = (e, d') \<Longrightarrow> perm_step d d'"

lemma perm_step_run:
  assumes "perm_step d d'"
  shows "d' = d \<or> (\<exists>io q r. run_perm io q d = (r, d'))"
  using assms
proof cases
  case (grant io r)
  then show ?thesis
    by (cases "run_perm io \<lparr>rq_add = True, rq_dry = False, rq_rules = None\<rparr> d") (auto simp: Grant_def split: sum.splits)
next
  case (revoke io r2)
  then show ?thesis unfolding Revoke_def by blast
next
  case (remove io rs r)
  then show ?thesis
    by (cases "run_perm io \<lparr>rq_add = False, rq_dry = False, rq_rules = Some rs\<rparr> d")
      (auto simp: Remove_perm_def split: sum.splits if_splits)
next
  case (preflight io e)
  then show ?thesis
    by (cases "run_perm io \<lparr>rq_add = True, rq_dry = True, rq_rules = None\<rparr> d") (auto simp: Preflight_def split: sum.splits)
qed

lemma settings_text: "settings d' = Plain s m \<Longrightarrow> file_text (settings d') = Some s"
  by (simp add: file_text_def)

lemma Grant_facts:
  assumes "Grant io d = (Inr changed, d')"
  shows "changed = filter (\<lambda>r. r \<notin> allowed d) Rules \<and> set Rules \<subseteq> allowed d'
    \<and> (if changed = [] then same_files d d'
       else (\<exists>out m. settings d' = Plain out m
              \<and> with_allow (file_text (settings d)) (allow_list (file_text (settings d)) @ map encodeString changed) out)
          \<and> recorded d' = merge_record (recorded d) changed \<and> dot_claude d' \<noteq> NoDir)"
proof -
  obtain u where "run_perm io \<lparr>rq_add = True, rq_dry = False, rq_rules = None\<rparr> d = (Inr (changed, u), d')" (is "run_perm io ?q d = _")
    using assms by (auto simp: Grant_def split: prod.splits sum.splits)
  then show ?thesis
  proof (cases rule: run_perm_cases)
    case (edit d1)
    have dd: "settings d1 = settings d" "granted d1 = granted d" "allowed d1 = allowed d" "recorded d1 = recorded d"
      using same_files_on_disk [OF edit(2)] edit(2) [unfolded same_files_def] by simp_all
    from edit(4) show ?thesis
    proof (cases rule: transact_cases)
      case (planned ch out)
      have p: "plan (file_text (settings d1)) True Rules = Inr (ch, out)"
        using planned(1) by (simp add: request_rules_def)
      have c: "ch = filter (\<lambda>r. r \<notin> allowed d) Rules"
        using plan_add(1) [OF p] by (simp add: allowed_def dd)
      have v: "list_all valid_utf8 ch" using c Rules_facts(1) by (auto simp: list_all_iff)
      have w: "grant_writes (rn_tx io) (recorded d1) ch out d1 = (Inr (changed, u), d')" using planned(3) by simp
      from grant_writes_cases [OF w v] consider "ch = []" "changed = []" "d' = d1"
        | m where "ch \<noteq> []" "changed = ch" "settings d' = Plain (the out) m" "recorded d' = merge_record (recorded d1) ch" "dot_claude d' \<noteq> NoDir"
        using grant_writes_dot [OF w] edit(3) by auto
      then show ?thesis
      proof cases
        case 1
        have "same_files d d'" using edit(2) 1(3) by simp
        moreover have "allowed d' = allowed d" using 1(3) dd(3) by simp
        moreover have "set Rules \<subseteq> allowed d" using c [symmetric] unfolding 1(1) filter_empty_conv by blast
        ultimately show ?thesis unfolding if_P [OF 1(2)] using c 1(1,2) by simp
      next
        case (2 m)
        have all: "set Rules \<subseteq> allowed d'"
          using grant_allowed [OF p 2(1,3)] c dd(3) by auto
        obtain o' where o': "out = Some o'"
            "with_allow (file_text (settings d)) (allow_list (file_text (settings d)) @ map encodeString ch) o'"
          using plan_add(3) [OF p] 2(1) unfolding dd by blast
        have ne: "changed \<noteq> []" using 2(1,2) by simp
        have "settings d' = Plain o' m" using 2(3) o'(1) by simp
        moreover have "recorded d' = merge_record (recorded d) changed" using 2(2,4) dd(4) by simp
        ultimately show ?thesis unfolding if_not_P [OF ne] using all c 2(2,5) o'(2) by blast
      qed
    qed simp
  qed simp_all
qed

subsection \<open>The interface enabling relies on\<close>

text \<open>
  What a client may rely on: a grant adds exactly the missing rules or nothing, removing what a grant
  just added takes exactly those rules away again, and no other call allows anything.
\<close>

locale allow_rules =
  fixes grant :: "'io \<Rightarrow> 'd \<Rightarrow> ('e, string list) result \<times> 'd"
    and remove :: "'io \<Rightarrow> string list \<Rightarrow> 'd \<Rightarrow> ('e, string list) result \<times> 'd"
    and revoke :: "'io \<Rightarrow> 'd \<Rightarrow> ('e, string list \<times> string list) result \<times> 'd"
    and preflight :: "'io \<Rightarrow> 'd \<Rightarrow> 'e option \<times> 'd"
    and allows :: "'d \<Rightarrow> string set"
    and rules :: "string set"
  assumes preflight_keeps: "preflight io d = (pe, d') \<Longrightarrow> allows d' = allows d"
    and grant_fails: "grant io d = (Inl e, d') \<Longrightarrow> allows d' = allows d"
    and grant_adds: "grant io d = (Inr added, d') \<Longrightarrow> set added = rules - allows d \<and> allows d' = allows d \<union> set added"
    and remove_added: "grant io d = (Inr added, d1) \<Longrightarrow> remove io' added d1 = (Inr removed, d') \<Longrightarrow>
      allows d' = allows d1 - set added"
    and remove_shrinks: "remove io rs d = (r, d') \<Longrightarrow> allows d' \<subseteq> allows d"
    and revoke_shrinks: "revoke io d = (r2, d') \<Longrightarrow> allows d' \<subseteq> allows d"
begin

lemma grant_all: "grant io d = (Inr added, d') \<Longrightarrow> rules \<subseteq> allows d'"
  using grant_adds by blast

text \<open>Rolling a grant back restores what was allowed.\<close>

lemma rollback_exact:
  assumes "grant io d = (Inr added, d1)" "remove io' added d1 = (Inr removed, d')"
  shows "allows d' = allows d"
  using grant_adds [OF assms(1)] remove_added [OF assms] by blast

lemma disabling_never_allows:
  "revoke io d = (r2, d') \<Longrightarrow> x \<notin> allows d \<Longrightarrow> x \<notin> allows d'"
  using revoke_shrinks by blast

end

lemma Preflight_keeps:
  assumes "Preflight io d = (e, d')"
  shows "same_files d d'"
proof -
  obtain r where "run_perm io \<lparr>rq_add = True, rq_dry = True, rq_rules = None\<rparr> d = (r, d')"
    using assms by (auto simp: Preflight_def split: prod.splits sum.splits)
  then show ?thesis
  proof (cases rule: run_perm_cases)
    case (dry r' d1)
    from dry(3) have "d' = d1" by (cases rule: transact_cases) simp_all
    with dry(2) show ?thesis by simp
  qed simp_all
qed

lemma Grant_fails_keeps:
  assumes "Grant io d = (Inl e, d')"
  shows "settings d' = settings d"
proof -
  have "run_perm io \<lparr>rq_add = True, rq_dry = False, rq_rules = None\<rparr> d = (Inl e, d')"
    using assms by (auto simp: Grant_def split: prod.splits sum.splits)
  then show ?thesis
  proof (cases rule: run_perm_cases)
    case (edit d1)
    from edit(4) have "settings d' = settings d1"
    proof (cases rule: transact_cases)
      case (planned changed out)
      have p: "plan (file_text (settings d1)) True Rules = Inr (changed, out)"
        using planned(1) by (simp add: request_rules_def)
      have v: "list_all valid_utf8 changed" using plan_add(1) [OF p] Rules_facts(1) by (auto simp: list_all_iff)
      have "grant_writes (rn_tx io) (recorded d1) changed out d1 = (Inl e, d')" using planned(3) by simp
      from grant_writes_cases [OF this v] show ?thesis by auto
    qed simp
    with edit(2) show ?thesis by (simp add: same_files_def)
  qed (simp_all add: same_files_def)
qed

lemma Grant_adds:
  assumes "Grant io d = (Inr added, d')"
  shows "set added = set Rules - allowed d \<and> allowed d' = allowed d \<union> set added"
proof (cases "added = []")
  case True
  from Grant_facts [OF assms, unfolded if_P [OF True]]
  have s: "same_files d d'" "added = filter (\<lambda>r. r \<notin> allowed d) Rules" by blast+
  have "set Rules - allowed d = {}" using s(2) [symmetric] unfolding True filter_empty_conv by blast
  with same_files_on_disk [OF s(1)] True show ?thesis by simp
next
  case False
  from Grant_facts [OF assms, unfolded if_not_P [OF False]] obtain out m where
    o: "added = filter (\<lambda>r. r \<notin> allowed d) Rules" "settings d' = Plain out m"
      "with_allow (file_text (settings d)) (allow_list (file_text (settings d)) @ map encodeString added) out" by blast
  have v: "list_all valid_utf8 added" using o(1) Rules_facts(1) by (auto simp: list_all_iff)
  have h: "hasRule (map encodeString added) r \<longleftrightarrow> r \<in> set added" for r
    using v by (induction added) auto
  have "allowed d' = allowed d \<union> set added"
    using with_allow_list [OF o(3)] o(2) by (auto simp: allowed_def file_text_def h)
  with o(1) show ?thesis by auto
qed

text \<open>A removal, on any outcome: either nothing changed in what is allowed, or the rules asked for are gone.\<close>

lemma removal_allowed:
  assumes "run_perm io q d = (r, d')" "\<not> rq_add q"
  shows "(allowed d' = allowed d \<and> (rq_dry q \<or> dot_claude d = NoDir \<or> settings d = Absent \<or> (\<exists>e. r = Inl e)))
    \<or> (\<exists>d1. same_files d d1 \<and> allowed d' = allowed d - set (request_rules q (recorded d1)))"
  using assms(1)
proof (cases rule: run_perm_cases)
  case (stopped e)
  with same_files_on_disk show ?thesis by auto
next
  case nothing
  then show ?thesis by auto
next
  case (dry r' d1)
  from dry(3) have "d' = d1" by (cases rule: transact_cases) (use dry(1) in simp_all)
  with dry same_files_on_disk show ?thesis by auto
next
  case (edit d1)
  have a1: "allowed d1 = allowed d" using same_files_on_disk [OF edit(2)] by simp
  from edit(4) show ?thesis
  proof (cases rule: transact_cases)
    case (stopped e)
    with a1 show ?thesis by auto
  next
    case (planned changed out)
    then obtain unrec where
      w: "remove_writes (rn_tx io) (recorded d1) (request_rules q (recorded d1)) unrec changed out d1 = (r, d')"
      using edit(1) assms(2) by blast
    have p: "plan (file_text (settings d1)) False (request_rules q (recorded d1)) = Inr (changed, out)"
      using planned(1) assms(2) by simp
    from remove_writes_cases [OF w] consider e where "settings d' = settings d1" "r = Inl e"
      | "settings_written changed out d1 d'" by blast
    then show ?thesis
    proof cases
      case (1 e)
      then show ?thesis using a1 by (simp add: allowed_def)
    next
      case 2
      from remove_allowed [OF p 2] a1 edit(2) show ?thesis by blast
    qed
  qed
qed

lemma Remove_added:
  assumes "Grant io d = (Inr added, d1)" "Remove_perm io' added d1 = (Inr removed, d')"
  shows "allowed d' = allowed d1 - set added"
proof (cases "added = []")
  case False
  from Grant_facts [OF assms(1), unfolded if_not_P [OF False]] obtain out m where
    o: "added = filter (\<lambda>r. r \<notin> allowed d) Rules" "settings d1 = Plain out m" "dot_claude d1 \<noteq> NoDir" by blast
  obtain u where r: "run_perm io' \<lparr>rq_add = False, rq_dry = False, rq_rules = Some added\<rparr> d1 = (Inr (removed, u), d')"
    (is "run_perm io' ?q d1 = _")
    using assms(2) False by (auto simp: Remove_perm_def split: prod.splits sum.splits)
  have "filter (\<lambda>s. s \<in> set Rules) added = added" by (rule filter_True) (simp add: o(1))
  then have "request_rules ?q x = added" for x by (simp add: request_rules_def)
  with removal_allowed [OF r] o(2,3) show ?thesis by auto
qed (use assms(2) in \<open>simp add: Remove_perm_def\<close>)

lemma Remove_shrinks: "Remove_perm io rs d = (r, d') \<Longrightarrow> allowed d' \<subseteq> allowed d"
proof -
  assume a: "Remove_perm io rs d = (r, d')"
  show ?thesis
  proof (cases "rs = []")
    case False
    obtain r' where "run_perm io \<lparr>rq_add = False, rq_dry = False, rq_rules = Some rs\<rparr> d = (r', d')"
      using a False by (auto simp: Remove_perm_def split: prod.splits sum.splits)
    from removal_allowed [OF this] show ?thesis by auto
  qed (use a in \<open>simp add: Remove_perm_def\<close>)
qed

lemma Revoke_shrinks: "Revoke io d = (r, d') \<Longrightarrow> allowed d' \<subseteq> allowed d"
  unfolding Revoke_def by (auto dest!: removal_allowed)

interpretation perms: allow_rules Grant Remove_perm Revoke Preflight allowed "set Rules"
proof unfold_locales
  fix io d d' pe assume "Preflight io d = (pe, d')"
  then show "allowed d' = allowed d" using Preflight_keeps same_files_on_disk by blast
next
  fix io d d' e assume "Grant io d = (Inl e, d')"
  then show "allowed d' = allowed d" using Grant_fails_keeps by (simp add: allowed_def)
qed (fact Grant_adds Remove_added Remove_shrinks Revoke_shrinks)+

text \<open>
  A grant that succeeds reports the rules of the fixed set that were not yet allowed, in the set's order,
  and afterwards every rule of the set is allowed. When there was something to add, the new settings file reads
  back as the old one with exactly those rules appended to the allow list, every other key of the file and of its
  permissions in place with its value, and the record holds the added rules after the ones it had. When nothing
  was missing, no file changed.
\<close>

theorem Grant_exact:
  assumes "Grant io d = (Inr changed, d')"
  shows "changed = filter (\<lambda>r. r \<notin> allowed d) Rules \<and> set Rules \<subseteq> allowed d'
    \<and> (if changed = [] then same_files d d'
       else (\<exists>out m. settings d' = Plain out m
              \<and> with_allow (file_text (settings d)) (allow_list (file_text (settings d)) @ map encodeString changed) out)
          \<and> recorded d' = merge_record (recorded d) changed)"
proof (cases "changed = []")
  case True
  from Grant_facts [OF assms, unfolded if_P [OF True]] show ?thesis unfolding if_P [OF True] by blast
next
  case False
  from Grant_facts [OF assms, unfolded if_not_P [OF False]] show ?thesis unfolding if_not_P [OF False] by blast
qed

text \<open>
  C32. Revoking after a grant, in a repository that had no record, restores the allow list token for token, reports
  exactly the granted rules as removed and nothing as unexplained, and leaves no record.
\<close>

theorem Revoke_undoes_Grant:
  assumes "recorded d = []" "Grant io d = (Inr changed, d1)" "changed \<noteq> []" "Revoke io' d1 = (Inr (removed, unrec), d2)"
  shows "allow_list (file_text (settings d2)) = allow_list (file_text (settings d))
    \<and> set removed = set changed \<and> unrec = [] \<and> recorded d2 = []"
proof -
  define A where "A = allow_list (file_text (settings d))"
  note G = Grant_facts [OF assms(2), unfolded if_not_P [OF assms(3)], folded A_def]
  have ch: "changed = filter (\<lambda>r. r \<notin> allowed d) Rules" using G by blast
  have dc: "distinct changed" "set changed \<subseteq> set Rules" "list_all valid_utf8 changed"
    using ch Rules_facts by (auto simp: list_all_iff)
  have "recorded d1 = changed" using G merge_fresh [of "[]" changed] dc(1) assms(1) by simp
  moreover obtain out m where o: "settings d1 = Plain out m" "with_allow (file_text (settings d)) (A @ map encodeString changed) out"
    using G by blast
  have "allow_list (file_text (settings d1)) = A @ map encodeString changed"
    using with_allow_list [OF o(2)] o(1) by (simp add: file_text_def)
  moreover have dot: "dot_claude d1 \<noteq> NoDir" using G by blast
  ultimately have d1: "recorded d1 = changed" "allow_list (file_text (settings d1)) = A @ map encodeString changed" by blast+
  have named: "names changed (encodeString r)" if "r \<in> set changed" for r
    using that dc(3) by (simp add: names_def list_all_iff)
  have enc: "hasRule (map encodeString changed) r" if "r \<in> set changed" for r
    using that dc(3) by (auto simp: hasRule_def list_ex_iff list_all_iff)
  have other: "\<not> names changed raw" if "raw \<in> set A" for raw
    using that ch by (auto simp: names_def allowed_def A_def hasRule_def list_ex_iff split: option.splits)
  from assms(4) [unfolded Revoke_def] show ?thesis
  proof (cases rule: run_perm_cases)
    case nothing
    with dot o(1) show ?thesis by simp
  next
    case (edit e)
    have e: "settings e = settings d1" "recorded e = changed"
      using same_files_on_disk [OF edit(2)] edit(2) [unfolded same_files_def] d1(1) by simp_all
    from edit(4) show ?thesis
    proof (cases rule: transact_cases)
      case (planned ch' out')
      have rr: "filter (\<lambda>s. s \<in> set Rules) changed = changed" using dc(2) by (auto intro: filter_True)
      then have q: "request_rules \<lparr>rq_add = False, rq_dry = False, rq_rules = None\<rparr> (recorded e) = changed"
        by (simp add: request_rules_def e)
      have p: "plan (file_text (settings e)) False changed = Inr (ch', out')" using planned(1) q by simp
      have sc: "set ch' = set changed"
        using plan_remove(1) [OF p] enc by (auto simp: e d1(2))
      then have ne: "ch' \<noteq> []" using assms(3) by auto
      from planned(4) q obtain un where
        un: "unrecorded_rules \<lparr>rq_add = False, rq_dry = False, rq_rules = None\<rparr> (file_text (settings e)) (recorded e) = Inr un"
        and w: "remove_writes (rn_tx io') (recorded e) changed un ch' out' e = (Inr (removed, unrec), d2)"
        by auto
      have un0: "un = []" using un assms(3) by (simp add: unrecorded_rules_def e)
      from remove_writes_cases [OF w] have f: "settings_written ch' out' e d2" "removed = ch'" "unrec = un"
        "recorded d2 = filter (\<lambda>s. s \<notin> set changed) (recorded e)" by auto
      obtain o' where o': "out' = Some o'"
          "with_allow (file_text (settings e)) (filter (\<lambda>raw. \<not> names changed raw) (A @ map encodeString changed)) o'"
        using plan_remove(3) [OF p] ne by (auto simp: e d1(2))
      obtain m' where "settings d2 = Plain o' m'" using f(1) ne o'(1) by (auto simp: settings_written_def)
      with with_allow_list [OF o'(2)] have "allow_list (file_text (settings d2)) = filter (\<lambda>raw. \<not> names changed raw) (A @ map encodeString changed)"
        by (simp add: file_text_def)
      also have "\<dots> = A" using named other by (auto simp: filter_empty_conv intro: filter_True)
      finally show ?thesis using f sc un0 by (simp add: A_def e)
    qed simp
  qed simp_all
qed

text \<open>
  C31. In every sequence of grants, revocations, removals and preflights, whatever system call fails in any of them,
  a rule of beadle's set that is allowed was allowed before the first of them or is in the record.
\<close>

theorem grants_accounted:
  assumes "perm_step\<^sup>*\<^sup>* d d'"
  shows "accounted (allowed d) d'"
  using assms
proof (induction rule: rtranclp_induct)
  case (step x y)
  with perm_step_run run_perm_accounted show ?case by metis
qed (auto simp: accounted_def)

text \<open>
  A refusal leaves the settings file and the record as they were, bytes and modes.
\<close>

theorem refused_untouched:
  assumes "run_perm io q d = (Inl e, d')" "refused e"
  shows "same_files d d'"
proof -
  have t: "same_files d1 d'" if t: "transact tio q d1 = (Inl e, d')" for tio d1
    using t
  proof (cases rule: transact_cases)
    case (planned changed out)
    show ?thesis
    proof (cases "rq_add q")
      case True
      have p: "plan (file_text (settings d1)) True Rules = Inr (changed, out)"
        using planned(1) True by (simp add: request_rules_def)
      have v: "list_all valid_utf8 changed" using plan_add(1) [OF p] Rules_facts(1) by (auto simp: list_all_iff)
      have "grant_writes tio (recorded d1) changed out d1 = (Inl e, d')" using planned(2,3) True by auto
      from grant_writes_cases [OF this v] assms(2) show ?thesis by auto
    next
      case False
      then obtain unrec where
        "remove_writes tio (recorded d1) (request_rules q (recorded d1)) unrec changed out d1 = (Inl e, d')"
        using planned(2,4) by auto
      from remove_writes_cases [OF this] assms(2) show ?thesis by auto
    qed
  qed simp
  from assms(1) show ?thesis
  proof (cases rule: run_perm_cases)
    case (dry r' d1)
    then have "r' = Inl e" by (cases r') auto
    with dry t show ?thesis unfolding same_files_def by metis
  next
    case (edit d1)
    with t show ?thesis unfolding same_files_def by metis
  qed auto
qed

subsection \<open>Concrete runs\<close>

definition good_read :: read_io where
  "good_read = \<lparr>rd_lstat = True, rd_read = True\<rparr>"

definition good_write :: write_io where
  "good_write = \<lparr>wr_stat = True, wr_temp = (\<lambda>i. if i < 9 then NameTaken else Opened), wr_write = True, wr_sync = True,
     wr_chmod = True, wr_close = True, wr_rename = True, wr_clean = True, wr_remove = True\<rparr>"

definition good_run :: run_io where
  "good_run = \<lparr>rn_home = True, rn_same = False, rn_lstat_dir = True, rn_lstat_file = True, rn_open_root = True,
     rn_mkdir = True, rn_open_claude = True, rn_lock_open = True, rn_flock = True,
     rn_tx = \<lparr>tx_settings = good_read, tx_granted = good_read, tx_record = good_write, tx_out = good_write,
       tx_restore = good_write\<rparr>\<rparr>"

definition fresh_dir :: claude_dir where
  "fresh_dir = \<lparr>dot_claude = NoDir, settings = Absent, granted = Absent, temp_left = False\<rparr>"

text \<open>Every write of the settings fails, and so does every later write of the record.\<close>

definition torn_run :: run_io where
  "torn_run = good_run\<lparr>rn_tx := (rn_tx good_run)\<lparr>tx_out := good_write\<lparr>wr_rename := False\<rparr>,
     tx_restore := good_write\<lparr>wr_remove := False\<rparr>\<rparr>\<rparr>"

definition broken_dir :: claude_dir where
  "broken_dir = \<lparr>dot_claude = RealDir, settings = Plain ''['' 420, granted = Absent, temp_left = False\<rparr>"

lemma fresh_grant: "fst (Grant good_run fresh_dir) = Inr Rules"
  by code_simp

lemma fresh_revoke: "fst (Revoke good_run (snd (Grant good_run fresh_dir))) = Inr (Rules, [])"
  by code_simp

lemma fresh_recorded: "recorded fresh_dir = []"
  by code_simp

theorem Grant_exact_witness:
  "fst (Grant good_run fresh_dir) = Inr Rules \<and> set Rules \<subseteq> allowed (snd (Grant good_run fresh_dir))"
  using Grant_exact [of good_run fresh_dir Rules "snd (Grant good_run fresh_dir)"] fresh_grant
  by (metis prod.collapse)

theorem Revoke_undoes_Grant_witness:
  "recorded (snd (Revoke good_run (snd (Grant good_run fresh_dir)))) = []
   \<and> allow_list (file_text (settings (snd (Revoke good_run (snd (Grant good_run fresh_dir)))))) = []"
proof -
  have "Grant good_run fresh_dir = (Inr Rules, snd (Grant good_run fresh_dir))"
    using fresh_grant by (metis prod.collapse)
  moreover have "Revoke good_run (snd (Grant good_run fresh_dir))
      = (Inr (Rules, []), snd (Revoke good_run (snd (Grant good_run fresh_dir))))"
    using fresh_revoke by (metis prod.collapse)
  moreover have "Rules \<noteq> []" by (simp add: Rules_def)
  moreover have "allow_list (file_text (settings fresh_dir)) = []" by code_simp
  ultimately show ?thesis
    using Revoke_undoes_Grant [OF fresh_recorded] by metis
qed

theorem grants_accounted_witness:
  "accounted (allowed fresh_dir) (snd (Grant torn_run (snd (Grant good_run fresh_dir))))"
proof (rule grants_accounted)
  have "perm_step d (snd (Grant io d))" for io d
    by (rule perm_step.grant [of io d "fst (Grant io d)"]) simp
  then show "perm_step\<^sup>*\<^sup>* fresh_dir (snd (Grant torn_run (snd (Grant good_run fresh_dir))))"
    by (meson rtranclp.rtrancl_into_rtrancl rtranclp.rtrancl_refl)
qed

theorem refused_untouched_witness:
  "fst (run_perm good_run \<lparr>rq_add = True, rq_dry = False, rq_rules = None\<rparr> broken_dir) = Inl (HandEdit NotJson)
   \<and> same_files broken_dir (snd (run_perm good_run \<lparr>rq_add = True, rq_dry = False, rq_rules = None\<rparr> broken_dir))"
proof -
  have e: "fst (run_perm good_run \<lparr>rq_add = True, rq_dry = False, rq_rules = None\<rparr> broken_dir) = Inl (HandEdit NotJson)"
    by code_simp
  have "refused (HandEdit NotJson)" by simp
  with refused_untouched e show ?thesis by (metis prod.collapse)
qed

text \<open>
  A preflight stops at the missing settings file and does not read the record, so it reports no refusal where
  the grant is refused.
\<close>

lemma Preflight_misses_record:
  "fst (Preflight good_run \<lparr>dot_claude = RealDir, settings = Absent, granted = Plain ''{}'' 420, temp_left = False\<rparr>) = None
   \<and> fst (Grant good_run \<lparr>dot_claude = RealDir, settings = Absent, granted = Plain ''{}'' 420, temp_left = False\<rparr>)
       = Inl (HandEdit RecordNotList)"
  by code_simp

end
