(* ===== verification/Enable.thy ===== *)
theory Enable
  imports Permissions
begin

section \<open>Enabling and disabling a repository\<close>

text \<open>
  Models \<open>internal/enable/enable.go\<close> and the two locks of \<open>internal/claudemd/imports.go\<close>.
  The state is the part of a repository the two operations touch: its CLAUDE.md, its
  \<open>.claude\<close> directory, and the guide and the marker under \<open>.punt-labs/beadle\<close>. The operation
  lock makes each call one transition. The text of the guide is a parameter (it is an embedded
  file), the outcomes of the system calls are records, and progress lines are left out.
\<close>

record repo =
  rp_host :: md_file
  rp_claude :: claude_dir
  rp_dir :: bool
  rp_guide :: "string option"
  rp_marker :: "string option"

definition ImportLine :: string where
  "ImportLine = ''@.punt-labs/beadle/CLAUDE.md''"

datatype enable_error =
    RootError
  | LockError string
  | PreflightError perm_error
  | EnableIo string
  | RegisterError import_error
  | GrantError perm_error
  | MarkerError
  | MarkerRollbackError perm_error
  | RevokeError perm_error
  | PruneError import_error

text \<open>\<open>os.WriteFile\<close> truncates before it writes, so a failure may leave any beginning of the data.\<close>

datatype file_write = Wrote | NotOpened | Torn nat

fun WriteFile :: "file_write \<Rightarrow> string \<Rightarrow> string option \<Rightarrow> bool \<times> string option" where
  "WriteFile Wrote data old = (True, Some data)"
| "WriteFile NotOpened data old = (False, old)"
| "WriteFile (Torn n) data old = (False, Some (take n data))"

record lock_io =
  lk_abs :: bool
  lk_open :: bool
  lk_flock :: bool
  lk_close :: bool

definition flock_repo :: "lock_io \<Rightarrow> (repo \<Rightarrow> enable_error option \<times> repo) \<Rightarrow> repo \<Rightarrow> enable_error option \<times> repo" where
  "flock_repo io fn r =
     (if \<not> lk_open io then (Some (LockError ''opening lock''), r)
      else if \<not> lk_flock io then (Some (LockError ''locking''), r)
      else (case fn r of
        (None, r') \<Rightarrow> (if lk_close io then None else Some (LockError ''closing lock''), r')
      | (Some e, r') \<Rightarrow> (Some e, r')))"

definition WithLock :: "lock_io \<Rightarrow> (repo \<Rightarrow> enable_error option \<times> repo) \<Rightarrow> repo \<Rightarrow> enable_error option \<times> repo" where
  "WithLock io fn r = (if \<not> lk_abs io then (Some (LockError ''resolving''), r) else flock_repo io fn r)"

subsection \<open>Enable\<close>

record enable_io =
  en_root :: bool
  en_lock :: lock_io
  en_preflight :: run_io
  en_mkdir :: bool
  en_guide :: file_write
  en_register :: md_io
  en_grant :: run_io
  en_marker :: file_write
  en_rollback :: run_io

definition write_marker :: "enable_io \<Rightarrow> string list \<Rightarrow> repo \<Rightarrow> enable_error option \<times> repo" where
  "write_marker io added r =
     (let (ok, m) = WriteFile (en_marker io) [] (rp_marker r); r1 = r\<lparr>rp_marker := m\<rparr> in
      if ok then (None, r1)
      else (case Remove_perm (en_rollback io) added (rp_claude r1) of
        (Inl e, c) \<Rightarrow> (Some (MarkerRollbackError e), r1\<lparr>rp_claude := c\<rparr>)
      | (Inr _, c) \<Rightarrow> (Some MarkerError, r1\<lparr>rp_claude := c\<rparr>)))"

definition register_and_grant :: "enable_io \<Rightarrow> repo \<Rightarrow> enable_error option \<times> repo" where
  "register_and_grant io r =
     (case Register (en_register io) ImportLine (rp_host r) of
        ((wrote, Some e), h) \<Rightarrow> (Some (RegisterError e), r\<lparr>rp_host := h\<rparr>)
      | ((wrote, None), h) \<Rightarrow>
          let r1 = r\<lparr>rp_host := h\<rparr> in
          (case Grant (en_grant io) (rp_claude r1) of
             (Inl e, c) \<Rightarrow> (Some (GrantError e), r1\<lparr>rp_claude := c\<rparr>)
           | (Inr added, c) \<Rightarrow> write_marker io added (r1\<lparr>rp_claude := c\<rparr>)))"

definition enableLocked :: "string \<Rightarrow> enable_io \<Rightarrow> repo \<Rightarrow> enable_error option \<times> repo" where
  "enableLocked guideText io r =
     (case Preflight (en_preflight io) (rp_claude r) of
        (Some e, c) \<Rightarrow> (Some (PreflightError e), r\<lparr>rp_claude := c\<rparr>)
      | (None, c) \<Rightarrow>
          if \<not> en_mkdir io then (Some (EnableIo ''creating''), r\<lparr>rp_claude := c\<rparr>)
          else
            let (ok, g) = WriteFile (en_guide io) guideText (rp_guide r);
                r1 = r\<lparr>rp_claude := c, rp_dir := True, rp_guide := g\<rparr>
            in if \<not> ok then (Some (EnableIo ''writing guide''), r1)
               else register_and_grant io r1)"

definition Enable :: "string \<Rightarrow> enable_io \<Rightarrow> repo \<Rightarrow> enable_error option \<times> repo" where
  "Enable guideText io r =
     (if \<not> en_root io then (Some RootError, r)
      else WithLock (en_lock io) (enableLocked guideText io) r)"

subsection \<open>Disable\<close>

text \<open>\<open>os.RemoveAll\<close> may stop half way: which files are gone is part of the outcome.\<close>

datatype remove_all = RemovedAll | RemovedSome bool bool

record disable_io =
  di_root :: bool
  di_lock :: lock_io
  di_revoke :: run_io
  di_purge :: remove_all
  di_marker :: bool
  di_prune :: md_io

definition clear_marker :: "disable_io \<Rightarrow> bool \<Rightarrow> repo \<Rightarrow> enable_error option \<times> repo" where
  "clear_marker io purge r =
     (if purge then
        (case di_purge io of
           RemovedAll \<Rightarrow> (None, r\<lparr>rp_dir := False, rp_guide := None, rp_marker := None\<rparr>)
         | RemovedSome g m \<Rightarrow>
             (Some (EnableIo ''purging''),
              r\<lparr>rp_guide := (if g then None else rp_guide r), rp_marker := (if m then None else rp_marker r)\<rparr>))
      else if rp_marker r = None then (None, r)
      else if di_marker io then (None, r\<lparr>rp_marker := None\<rparr>)
      else (Some (EnableIo ''removing marker''), r))"

definition disableLocked :: "disable_io \<Rightarrow> bool \<Rightarrow> repo \<Rightarrow> enable_error option \<times> repo" where
  "disableLocked io purge r =
     (case Revoke (di_revoke io) (rp_claude r) of
        (Inl e, c) \<Rightarrow> (Some (RevokeError e), r\<lparr>rp_claude := c\<rparr>)
      | (Inr (revoked, unrecorded), c) \<Rightarrow>
          (case clear_marker io purge (r\<lparr>rp_claude := c\<rparr>) of
             (Some e, r1) \<Rightarrow> (Some e, r1)
           | (None, r1) \<Rightarrow>
               (case PruneAndDiscardEmpty (di_prune io) ImportLine (rp_host r1) of
                  (((pruned, removed), Some e), h) \<Rightarrow> (Some (PruneError e), r1\<lparr>rp_host := h\<rparr>)
                | (((pruned, removed), None), h) \<Rightarrow> (None, r1\<lparr>rp_host := h\<rparr>))))"

definition Disable :: "disable_io \<Rightarrow> bool \<Rightarrow> repo \<Rightarrow> enable_error option \<times> repo" where
  "Disable io purge r =
     (if \<not> di_root io then (Some RootError, r)
      else WithLock (di_lock io) (disableLocked io purge) r)"

subsection \<open>A marked repository imports the guide\<close>

definition imports_guide :: "repo \<Rightarrow> bool" where
  "imports_guide r = present (splitKeepEnds (content_of (rp_host r))) ImportLine"

text \<open>The statement the order of the writes is for: a marker only where the import is.\<close>

definition marked_imports :: "repo \<Rightarrow> bool" where
  "marked_imports r \<longleftrightarrow> (rp_marker r \<noteq> None \<longrightarrow> imports_guide r)"

lemma WithLock_cases:
  assumes "WithLock io fn r = (err, r')"
  obtains e where "err = Some (LockError e)" "r' = r"
  | e where "fn r = (e, r')" "e \<noteq> None \<longrightarrow> err = e" "e = None \<longrightarrow> err = None \<or> err = Some (LockError ''closing lock'')"
proof -
  obtain e1 r1 where f: "fn r = (e1, r1)" by fastforce
  show ?thesis
  proof (cases "lk_abs io \<and> lk_open io \<and> lk_flock io")
    case True
    with assms f that(2) show ?thesis by (cases e1) (auto simp: WithLock_def flock_repo_def split: if_splits)
  qed (use assms that(1) in \<open>auto simp: WithLock_def flock_repo_def split: if_splits\<close>)
qed

text \<open>What an enabling has done by the time each of its parts returns.\<close>

lemma write_marker_cases:
  assumes "write_marker io added r = (err, r')"
  shows "rp_host r' = rp_host r \<and> rp_guide r' = rp_guide r
    \<and> (err = None \<longrightarrow> rp_marker r' = Some [] \<and> rp_claude r' = rp_claude r)
    \<and> (err = Some MarkerError \<longrightarrow> (\<exists>x. Remove_perm (en_rollback io) added (rp_claude r) = (Inr x, rp_claude r')))
    \<and> (err = None \<or> err = Some MarkerError \<or> (\<exists>e. err = Some (MarkerRollbackError e)))"
  using assms
  by (cases "en_marker io"; cases "Remove_perm (en_rollback io) added (rp_claude r)")
    (auto simp: write_marker_def Let_def split: sum.splits)

lemma register_and_grant_cases:
  assumes "register_and_grant io r = (err, r')"
  shows "rp_guide r' = rp_guide r
    \<and> (imports_guide r \<longrightarrow> imports_guide r')
    \<and> ((\<exists>e. err = Some (RegisterError e)) \<and> rp_marker r' = rp_marker r \<and> rp_claude r' = rp_claude r
      \<or> (\<exists>e. err = Some (GrantError e)) \<and> rp_marker r' = rp_marker r \<and> imports_guide r'
          \<and> (\<exists>e. Grant (en_grant io) (rp_claude r) = (Inl e, rp_claude r'))
      \<or> imports_guide r' \<and> (\<exists>added c r1. Grant (en_grant io) (rp_claude r) = (Inr added, c) \<and> rp_claude r1 = c
          \<and> write_marker io added r1 = (err, r')))"
proof -
  obtain w e h where reg: "Register (en_register io) ImportLine (rp_host r) = ((w, e), h)" by (metis surj_pair)
  note keep = Register_keeps_present [OF reg]
  show ?thesis
  proof (cases e)
    case (Some e1)
    with assms reg keep show ?thesis by (auto simp: register_and_grant_def imports_guide_def)
  next
    case None
    have p: "present (splitKeepEnds (content_of h)) ImportLine" using Register_ok_present reg None by blast
    obtain g c where gr: "Grant (en_grant io) (rp_claude r) = (g, c)" by fastforce
    show ?thesis
    proof (cases g)
      case (Inl e1)
      with assms reg None gr p show ?thesis by (auto simp: register_and_grant_def imports_guide_def Let_def)
    next
      case (Inr added)
      with assms reg None gr have w: "write_marker io added (r\<lparr>rp_host := h, rp_claude := c\<rparr>) = (err, r')"
        by (simp add: register_and_grant_def Let_def)
      from write_marker_cases [OF w] have "rp_host r' = h" "rp_guide r' = rp_guide r" by auto
      with p gr Inr w show ?thesis by (auto simp: imports_guide_def)
    qed
  qed
qed

lemma enableLocked_cases:
  assumes "enableLocked g io r = (err, r')"
  shows "(err \<noteq> None \<and> (\<forall>e. err \<noteq> Some (MarkerRollbackError e)) \<and> rp_host r' = rp_host r \<and> rp_marker r' = rp_marker r
      \<and> allowed (rp_claude r') = allowed (rp_claude r))
    \<or> (\<exists>r1. rp_host r1 = rp_host r \<and> rp_marker r1 = rp_marker r \<and> rp_guide r1 = Some g
        \<and> allowed (rp_claude r1) = allowed (rp_claude r) \<and> register_and_grant io r1 = (err, r'))"
proof -
  obtain p c where pf: "Preflight (en_preflight io) (rp_claude r) = (p, c)" by fastforce
  note keep = perms.preflight_keeps [OF pf]
  show ?thesis
  proof (cases p)
    case (Some e)
    with assms pf keep show ?thesis by (auto simp: enableLocked_def)
  next
    case None
    show ?thesis
    proof (cases "en_mkdir io")
      case False
      with assms pf None keep show ?thesis by (auto simp: enableLocked_def)
    next
      case True
      show ?thesis
      proof (cases "en_guide io = Wrote")
        case w: True
        with assms pf None True
        have "register_and_grant io (r\<lparr>rp_claude := c, rp_dir := True, rp_guide := Some g\<rparr>) = (err, r')"
          by (simp add: enableLocked_def)
        with keep show ?thesis by (intro disjI2 exI [of _ "r\<lparr>rp_claude := c, rp_dir := True, rp_guide := Some g\<rparr>"]) simp
      next
        case False
        with assms pf None True keep show ?thesis
          by (cases "en_guide io") (auto simp: enableLocked_def)
      qed
    qed
  qed
qed

lemma enableLocked_marked:
  assumes "enableLocked g io r = (err, r')" "marked_imports r"
  shows "marked_imports r'"
  using enableLocked_cases [OF assms(1)]
proof (elim disjE exE conjE)
  fix r1 assume r1: "rp_host r1 = rp_host r" "rp_marker r1 = rp_marker r" "register_and_grant io r1 = (err, r')"
  from register_and_grant_cases [OF r1(3)] r1 assms(2) show ?thesis
    by (auto simp: marked_imports_def imports_guide_def)
qed (use assms(2) in \<open>simp add: marked_imports_def imports_guide_def\<close>)

lemma clear_marker_cases:
  assumes "clear_marker io purge r = (err, r')"
  shows "rp_host r' = rp_host r \<and> rp_claude r' = rp_claude r \<and> (rp_marker r' = rp_marker r \<or> rp_marker r' = None)
    \<and> (err = None \<longrightarrow> rp_marker r' = None \<and> (purge \<longrightarrow> rp_guide r' = None \<and> \<not> rp_dir r'))"
  using assms by (auto simp: clear_marker_def split: if_splits remove_all.splits)

lemma disableLocked_cases:
  assumes "disableLocked io purge r = (err, r')"
  shows "(err \<noteq> None \<and> rp_host r' = rp_host r \<and> (rp_marker r' = rp_marker r \<or> rp_marker r' = None))
    \<or> (rp_marker r' = None \<and> (purge \<longrightarrow> rp_guide r' = None \<and> \<not> rp_dir r')
        \<and> (\<exists>rv. Revoke (di_revoke io) (rp_claude r) = (Inr rv, rp_claude r'))
        \<and> (\<exists>out e. PruneAndDiscardEmpty (di_prune io) ImportLine (rp_host r) = ((out, e), rp_host r') \<and> (err = None \<longrightarrow> e = None)))"
proof -
  obtain rv c where rvk: "Revoke (di_revoke io) (rp_claude r) = (rv, c)" by fastforce
  show ?thesis
  proof (cases rv)
    case (Inl e)
    with assms rvk show ?thesis by (auto simp: disableLocked_def)
  next
    case (Inr ru)
    obtain e1 r1 where cm: "clear_marker io purge (r\<lparr>rp_claude := c\<rparr>) = (e1, r1)" by fastforce
    note C = clear_marker_cases [OF cm]
    show ?thesis
    proof (cases e1)
      case (Some e)
      with assms rvk Inr cm C show ?thesis by (cases ru) (auto simp: disableLocked_def)
    next
      case None
      obtain pr e2 h where pd: "PruneAndDiscardEmpty (di_prune io) ImportLine (rp_host r1) = ((pr, e2), h)"
        by (metis surj_pair)
      have "r' = r1\<lparr>rp_host := h\<rparr> \<and> (err = None \<longrightarrow> e2 = None)"
        using assms rvk Inr cm None pd
        by (cases ru; cases e2; cases pr) (auto simp: disableLocked_def)
      with rvk Inr C None pd show ?thesis by simp
    qed
  qed
qed

text \<open>Calls of the two operations, each with any outcome of its system calls.\<close>

inductive repo_step :: "repo \<Rightarrow> repo \<Rightarrow> bool" where
  enable: "Enable g io r = (err, r') \<Longrightarrow> repo_step r r'"
| disable: "Disable io2 purge r = (err, r') \<Longrightarrow> repo_step r r'"

lemma repo_step_marked:
  assumes "repo_step r r'" "marked_imports r"
  shows "marked_imports r'"
  using assms(1)
proof cases
  case (enable g io err)
  have "en_root io \<Longrightarrow> WithLock (en_lock io) (enableLocked g io) r = (err, r')" "\<not> en_root io \<Longrightarrow> r' = r"
    using enable by (auto simp: Enable_def split: if_splits)
  with assms(2) enableLocked_marked show ?thesis by (metis WithLock_cases)
next
  case (disable io2 purge err)
  have d: "di_root io2 \<Longrightarrow> WithLock (di_lock io2) (disableLocked io2 purge) r = (err, r')" "\<not> di_root io2 \<Longrightarrow> r' = r"
    using disable by (auto simp: Disable_def split: if_splits)
  have "marked_imports r'" if "disableLocked io2 purge r = (e, r')" for e
    using disableLocked_cases [OF that] assms(2) by (auto simp: marked_imports_def imports_guide_def)
  with d assms(2) show ?thesis by (metis WithLock_cases)
qed

subsection \<open>What enabling and disabling guarantee\<close>

text \<open>
  C30. Whatever system calls fail in whatever sequence of enable and disable runs, a repository with the enabled
  marker imports the guide at the top level of its CLAUDE.md, when that held at the start (it does without a marker).
\<close>

theorem marker_means_import:
  assumes "repo_step\<^sup>*\<^sup>* r r'" "marked_imports r"
  shows "rp_marker r' \<noteq> None \<longrightarrow> imports_guide r'"
proof -
  have "marked_imports r'"
    using assms(1) by (induction rule: rtranclp_induct) (use assms(2) repo_step_marked in auto)
  then show ?thesis by (simp add: marked_imports_def)
qed

text \<open>
  A successful enable leaves the guide's text, an empty marker, the import at the top level of CLAUDE.md and every
  rule of the set allowed.
\<close>

theorem Enable_establishes:
  assumes "Enable g io r = (None, r')"
  shows "rp_marker r' = Some [] \<and> rp_guide r' = Some g \<and> imports_guide r' \<and> set Rules \<subseteq> allowed (rp_claude r')"
proof -
  have "WithLock (en_lock io) (enableLocked g io) r = (None, r')"
    using assms by (simp add: Enable_def split: if_splits)
  then have e: "enableLocked g io r = (None, r')" by (rule WithLock_cases) auto
  from enableLocked_cases [OF e] obtain r1 where
    r1: "rp_guide r1 = Some g" "register_and_grant io r1 = (None, r')" by auto
  from register_and_grant_cases [OF r1(2)] r1(1) obtain added r2 where
    i: "imports_guide r'" "rp_guide r' = Some g" and gr: "Grant (en_grant io) (rp_claude r1) = (Inr added, rp_claude r2)"
    and w: "write_marker io added r2 = (None, r')" by auto
  from write_marker_cases [OF w] have "rp_marker r' = Some []" "rp_claude r' = rp_claude r2" by simp_all
  with i perms.grant_all [OF gr] show ?thesis by simp
qed

text \<open>
  A failed enable leaves the allowed rules as they were, unless the roll back failed as well or only the release of
  the lock failed after all the work was done.
\<close>

theorem Enable_failure_keeps_rules:
  assumes "Enable g io r = (Some e, r')" "\<forall>p. e \<noteq> MarkerRollbackError p" "e \<noteq> LockError ''closing lock''"
  shows "allowed (rp_claude r') = allowed (rp_claude r)"
proof (cases "en_root io")
  case True
  then have "WithLock (en_lock io) (enableLocked g io) r = (Some e, r')" using assms(1) by (simp add: Enable_def)
  then show ?thesis
  proof (cases rule: WithLock_cases)
    case (2 e1)
    then have l: "enableLocked g io r = (Some e, r')" using assms(3) by (cases e1) auto
    from enableLocked_cases [OF l] show ?thesis
    proof (elim disjE exE conjE)
      fix r1 assume r1: "allowed (rp_claude r1) = allowed (rp_claude r)" "register_and_grant io r1 = (Some e, r')"
      from register_and_grant_cases [OF r1(2)] consider "rp_claude r' = rp_claude r1"
        | e2 where "Grant (en_grant io) (rp_claude r1) = (Inl e2, rp_claude r')"
        | added r2 where "Grant (en_grant io) (rp_claude r1) = (Inr added, rp_claude r2)" "write_marker io added r2 = (Some e, r')"
        by blast
      then show ?thesis
      proof cases
        case (2 e2)
        with perms.grant_fails r1(1) show ?thesis by simp
      next
        case (3 added r2)
        from write_marker_cases [OF 3(2)] assms(2) obtain x where
          "Remove_perm (en_rollback io) added (rp_claude r2) = (Inr x, rp_claude r')" by auto
        from perms.rollback_exact [OF 3(1) this] r1(1) show ?thesis by simp
      qed (use r1(1) in simp)
    qed
  qed simp
qed (use assms(1) in \<open>simp add: Enable_def\<close>)

definition claude_wf :: "claude_dir \<Rightarrow> bool" where
  "claude_wf d \<longleftrightarrow> (dot_claude d = NoDir \<longrightarrow> settings d = Absent)"

lemma absent_allows_nothing: "settings d = Absent \<Longrightarrow> allowed d = {}"
  by (simp add: allowed_def file_text_def allow_list_def plan_read_def read_top_def find_key_def read_perms_def read_allow_def)

lemma Revoke_exact:
  assumes "Revoke io d = (Inr rv, d')" "claude_wf d"
  shows "allowed d' = allowed d - (set Rules \<inter> set (recorded d))"
proof -
  have "dot_claude d = NoDir \<or> settings d = Absent \<Longrightarrow> allowed d = {}"
    using assms(2) absent_allows_nothing by (auto simp: claude_wf_def)
  moreover have "request_rules \<lparr>rq_add = False, rq_dry = False, rq_rules = None\<rparr> recd = filter (\<lambda>s. s \<in> set Rules) recd" for recd
    by (simp add: request_rules_def)
  ultimately show ?thesis
    using removal_allowed [OF assms(1) [unfolded Revoke_def]] same_files_on_disk by fastforce
qed

text \<open>
  A successful disable clears the marker (and the guide under purge), takes exactly the recorded rules of the set
  off the allow list, and leaves a CLAUDE.md that is the old one without its top-level import lines.
\<close>

theorem Disable_establishes:
  assumes "Disable io purge r = (None, r')" "claude_wf (rp_claude r)"
  shows "rp_marker r' = None \<and> (purge \<longrightarrow> rp_guide r' = None)
    \<and> allowed (rp_claude r') = allowed (rp_claude r) - (set Rules \<inter> set (recorded (rp_claude r)))
    \<and> content_of (rp_host r') = concat (remove_import (splitKeepEnds (content_of (rp_host r))) ImportLine)
    \<and> \<not> present (remove_import (splitKeepEnds (content_of (rp_host r))) ImportLine) ImportLine"
proof -
  have "WithLock (di_lock io) (disableLocked io purge) r = (None, r')"
    using assms(1) by (simp add: Disable_def split: if_splits)
  then have e: "disableLocked io purge r = (None, r')" by (rule WithLock_cases) auto
  from disableLocked_cases [OF e] obtain rv pruned removed where
    d: "rp_marker r' = None" "purge \<longrightarrow> rp_guide r' = None" "Revoke (di_revoke io) (rp_claude r) = (Inr rv, rp_claude r')"
    and p: "PruneAndDiscardEmpty (di_prune io) ImportLine (rp_host r) = (((pruned, removed), None), rp_host r')"
    by auto
  from PruneAndDiscardEmpty_facts [OF p, unfolded Let_def] Revoke_exact [OF d(3) assms(2)] d(1,2) show ?thesis
    by blast
qed

subsection \<open>A run on a fresh repository\<close>

definition fresh_repo :: repo where
  "fresh_repo = \<lparr>rp_host = \<lparr>md_kind = PathMissing, md_data = None, md_mode = 0, md_temp = False\<rparr>,
     rp_claude = fresh_dir, rp_dir = False, rp_guide = None, rp_marker = None\<rparr>"

definition good_lock :: lock_io where
  "good_lock = \<lparr>lk_abs = True, lk_open = True, lk_flock = True, lk_close = True\<rparr>"

definition good_enable :: enable_io where
  "good_enable = \<lparr>en_root = True, en_lock = good_lock, en_preflight = good_run, en_mkdir = True, en_guide = Wrote,
     en_register = all_calls, en_grant = good_run, en_marker = Wrote, en_rollback = good_run\<rparr>"

definition good_disable :: disable_io where
  "good_disable = \<lparr>di_root = True, di_lock = good_lock, di_revoke = good_run, di_purge = RemovedAll, di_marker = True,
     di_prune = all_calls\<rparr>"

lemma fresh_enable: "fst (Enable ''guide'' good_enable fresh_repo) = None"
  by code_simp

lemma fresh_torn: "fst (Enable ''guide'' (good_enable\<lparr>en_grant := torn_run\<rparr>) fresh_repo) = Some (GrantError (Rollback (PermIo ''replacing'') (PermIo ''removing'')))"
  by code_simp

theorem Enable_establishes_witness:
  "set Rules \<subseteq> allowed (rp_claude (snd (Enable ''guide'' good_enable fresh_repo)))"
  using Enable_establishes [of "''guide''" good_enable fresh_repo] fresh_enable by (metis prod.collapse)

theorem marker_means_import_witness:
  "rp_marker (snd (Disable good_disable False (snd (Enable ''guide'' good_enable fresh_repo)))) = None
   \<or> imports_guide (snd (Disable good_disable False (snd (Enable ''guide'' good_enable fresh_repo))))"
proof -
  have "repo_step r (snd (Enable g io r))" "repo_step r (snd (Disable io2 p r))" for r g io io2 p
    using repo_step.intros by (metis prod.collapse)+
  then have "repo_step\<^sup>*\<^sup>* fresh_repo (snd (Disable good_disable False (snd (Enable ''guide'' good_enable fresh_repo))))"
    by (meson rtranclp.rtrancl_into_rtrancl rtranclp.rtrancl_refl)
  moreover have "marked_imports fresh_repo" by (simp add: marked_imports_def fresh_repo_def)
  ultimately show ?thesis using marker_means_import by blast
qed

theorem Enable_failure_keeps_rules_witness:
  "allowed (rp_claude (snd (Enable ''guide'' (good_enable\<lparr>en_grant := torn_run\<rparr>) fresh_repo))) = allowed fresh_dir"
proof -
  have "allowed (rp_claude (snd (Enable ''guide'' (good_enable\<lparr>en_grant := torn_run\<rparr>) fresh_repo)))
      = allowed (rp_claude fresh_repo)"
    by (rule Enable_failure_keeps_rules [of "''guide''" "good_enable\<lparr>en_grant := torn_run\<rparr>" fresh_repo
        "GrantError (Rollback (PermIo ''replacing'') (PermIo ''removing''))"]) (use fresh_torn in \<open>auto simp: prod_eq_iff\<close>)
  then show ?thesis by (simp add: fresh_repo_def)
qed

lemma fresh_disable: "fst (Disable good_disable True fresh_repo) = None"
  by code_simp

theorem Disable_establishes_witness:
  "rp_marker (snd (Disable good_disable True fresh_repo)) = None
   \<and> content_of (rp_host (snd (Disable good_disable True fresh_repo))) = []"
proof -
  have "claude_wf (rp_claude fresh_repo)" by (simp add: claude_wf_def fresh_repo_def fresh_dir_def)
  moreover have "Disable good_disable True fresh_repo = (None, snd (Disable good_disable True fresh_repo))"
    using fresh_disable by (metis prod.collapse)
  moreover have "concat (remove_import (splitKeepEnds (content_of (rp_host fresh_repo))) ImportLine) = []" by code_simp
  ultimately show ?thesis using Disable_establishes by metis
qed

end
