(* ===== verification/Poller.thy ===== *)
theory Poller
  imports GoStrings "HOL-Library.Word" "HOL-Library.Multiset"
begin

section \<open>The background poller\<close>

text \<open>
  Models \<open>internal/email/poller.go\<close>, the interval part of \<open>internal/email/config.go\<close> and the unread
  marker of \<open>internal/mcp/poll_tools.go\<close>. Durations are minutes. One poll is a function of the
  state of the poller and of what the mailbox answered; the loop goroutines and the callers of
  \<open>Stop\<close> and \<open>SetInterval\<close> are a step relation whose steps are the critical sections of the
  poller's mutex, so that overlapping calls interleave as they may. Logging and the resolution of
  identity and configuration inside a poll are outcomes of the poll.
\<close>

subsection \<open>Intervals\<close>

definition validPollIntervals :: "(string \<times> nat) list" where
  "validPollIntervals = [(''1m'', 1), (''2m'', 2), (''3m'', 3), (''5m'', 5), (''10m'', 10), (''15m'', 15),
     (''30m'', 30), (''1h'', 60), (''2h'', 120)]"

definition PollDuration :: "string \<Rightarrow> nat option" where
  "PollDuration s = (if s = [] \<or> s = ''n'' then None else map_of validPollIntervals s)"

definition ValidPollInterval :: "string \<Rightarrow> bool" where
  "ValidPollInterval s \<longleftrightarrow> s = [] \<or> s = ''n'' \<or> map_of validPollIntervals s \<noteq> None"

text \<open>The keys in the order of the durations, whatever order the map is iterated in.\<close>

definition PollIntervals :: "(string \<times> nat) list \<Rightarrow> string list" where
  "PollIntervals entries = map fst (sort_key snd entries)"

definition PollIntervalList :: "(string \<times> nat) list \<Rightarrow> string" where
  "PollIntervalList entries = Join (PollIntervals entries) '', ''"

lemma PollIntervals_order:
  assumes "mset entries = mset validPollIntervals"
  shows "PollIntervals entries = map fst validPollIntervals"
proof -
  have d: "distinct (map snd validPollIntervals)" "sorted (map snd validPollIntervals)"
    by (simp_all add: validPollIntervals_def)
  have "set entries = set validPollIntervals" using assms by (metis set_mset_mset)
  with d(1) have "inj_on snd (set entries)" by (simp add: distinct_map)
  from sort_key_inj_key_eq [OF assms this d(2)] show ?thesis by (simp add: PollIntervals_def)
qed

subsection \<open>One poll\<close>

text \<open>The zero time is \<open>None\<close>.\<close>

record poller =
  po_interval :: nat
  po_raw :: string
  po_lastSeen :: "32 word"
  po_lastCheck :: "nat option"
  po_stop :: "nat option"
  po_fails :: "32 word"
  po_error :: string

definition new_poller :: poller where
  "new_poller = \<lparr>po_interval = 0, po_raw = [], po_lastSeen = 0, po_lastCheck = None, po_stop = None,
     po_fails = 0, po_error = []\<rparr>"

record poller_hooks =
  hk_onNewMail :: bool
  hk_onCount :: bool

datatype notice = Count "32 word" | NewMail "32 word"

datatype poll_result = LoadFails string | DialFails string | CountFails string | Unseen "32 word"

definition recordFailure :: "nat \<Rightarrow> string \<Rightarrow> poller \<Rightarrow> poller" where
  "recordFailure now msg p = p\<lparr>po_fails := po_fails p + 1, po_error := msg, po_lastCheck := Some now\<rparr>"

definition notify :: "poller_hooks \<Rightarrow> bool \<Rightarrow> 32 word \<Rightarrow> 32 word \<Rightarrow> notice list" where
  "notify hk first prev unseen =
     (if unseen \<noteq> prev \<and> hk_onCount hk then [Count unseen] else [])
     @ (if \<not> first \<and> prev < unseen then (if hk_onNewMail hk then [NewMail (unseen - prev)] else []) else [])"

definition poll :: "poller_hooks \<Rightarrow> nat \<Rightarrow> poll_result \<Rightarrow> poller \<Rightarrow> poller \<times> notice list" where
  "poll hk now res p =
     (case res of
        LoadFails e \<Rightarrow> (recordFailure now (''load config: '' @ e) p, [])
      | DialFails e \<Rightarrow> (recordFailure now (''dial: '' @ e) p, [])
      | CountFails e \<Rightarrow> (recordFailure now (''unread count: '' @ e) p, [])
      | Unseen unseen \<Rightarrow>
          let first = (po_lastCheck p = None);
              prev = po_lastSeen p;
              p1 = p\<lparr>po_lastSeen := unseen, po_fails := 0, po_error := []\<rparr>
          in (p1\<lparr>po_lastCheck := Some now\<rparr>, notify hk first prev unseen))"

record poll_status =
  st_interval :: string
  st_active :: bool
  st_lastCheck :: "nat option"
  st_unseen :: "32 word"
  st_fails :: "32 word"
  st_error :: string

definition Status :: "poller \<Rightarrow> poll_status" where
  "Status p = \<lparr>st_interval = po_raw p, st_active = (po_stop p \<noteq> None), st_lastCheck = po_lastCheck p,
     st_unseen = po_lastSeen p, st_fails = po_fails p, st_error = po_error p\<rparr>"

subsection \<open>A history of polls\<close>

type_synonym history = "(nat \<times> poll_result) list"

fun polls :: "poller_hooks \<Rightarrow> history \<Rightarrow> poller \<Rightarrow> poller \<times> notice list" where
  "polls hk [] p = (p, [])"
| "polls hk ((now, res) # h) p =
     (let (p1, ns) = poll hk now res p; (p2, ms) = polls hk h p1 in (p2, ns @ ms))"

text \<open>What the callers should see, read off the history alone.\<close>

fun is_count :: "poll_result \<Rightarrow> bool" where
  "is_count (Unseen u) = True"
| "is_count _ = False"

fun the_count :: "poll_result \<Rightarrow> 32 word" where
  "the_count (Unseen u) = u"
| "the_count _ = 0"

definition counts :: "history \<Rightarrow> 32 word list" where
  "counts h = map (the_count \<circ> snd) (filter (is_count \<circ> snd) h)"

definition last_count :: "history \<Rightarrow> 32 word" where
  "last_count h = (if counts h = [] then 0 else last (counts h))"

definition trailing_failures :: "history \<Rightarrow> nat" where
  "trailing_failures h = length (takeWhile (\<lambda>r. \<not> is_count (snd r)) (rev h))"

text \<open>The hooks a poll with this result calls after the history \<open>h\<close>.\<close>

definition called :: "poller_hooks \<Rightarrow> history \<Rightarrow> poll_result \<Rightarrow> notice list" where
  "called hk h res =
     (case res of
        Unseen u \<Rightarrow>
          (if u \<noteq> last_count h \<and> hk_onCount hk then [Count u] else [])
          @ (if h \<noteq> [] \<and> last_count h < u \<and> hk_onNewMail hk then [NewMail (u - last_count h)] else [])
      | _ \<Rightarrow> [])"

definition called_all :: "poller_hooks \<Rightarrow> history \<Rightarrow> notice list" where
  "called_all hk h = concat (map (\<lambda>i. called hk (take i h) (snd (h ! i))) [0..<length h])"

text \<open>
  The notices the hooks are promised for: each answered count that is not the one before it, and each growth over an
  earlier answer; the first answer counts the mail that was waiting at startup, and is no growth.
\<close>

fun owed_from :: "poller_hooks \<Rightarrow> 32 word option \<Rightarrow> 32 word list \<Rightarrow> notice list" where
  "owed_from hk prev [] = []"
| "owed_from hk prev (u # us) =
     (if u \<noteq> (case prev of None \<Rightarrow> 0 | Some v \<Rightarrow> v) \<and> hk_onCount hk then [Count u] else [])
     @ (case prev of None \<Rightarrow> [] | Some v \<Rightarrow> if v < u \<and> hk_onNewMail hk then [NewMail (u - v)] else [])
     @ owed_from hk (Some u) us"

definition owed :: "poller_hooks \<Rightarrow> history \<Rightarrow> notice list" where
  "owed hk h = owed_from hk None (counts h)"

lemma polls_append:
  "polls hk (h @ h') p = (let (p1, ns) = polls hk h p; (p2, ms) = polls hk h' p1 in (p2, ns @ ms))"
  by (induction h arbitrary: p) (auto simp: Let_def split: prod.splits)

lemma counts_snoc: "counts (h @ [(now, res)]) = counts h @ (if is_count res then [the_count res] else [])"
  by (simp add: counts_def)

lemma last_count_snoc: "last_count (h @ [(now, res)]) = (if is_count res then the_count res else last_count h)"
  by (simp add: last_count_def counts_snoc)

lemma trailing_snoc: "trailing_failures (h @ [(now, res)]) = (if is_count res then 0 else Suc (trailing_failures h))"
  by (simp add: trailing_failures_def)

lemma called_all_snoc: "called_all hk (h @ [(now, res)]) = called_all hk h @ called hk h res"
proof -
  have "concat (map (\<lambda>i. called hk (take i (h @ [(now, res)])) (snd ((h @ [(now, res)]) ! i))) [0..<length h])
      = concat (map (\<lambda>i. called hk (take i h) (snd (h ! i))) [0..<length h])"
    by (intro arg_cong [of _ _ concat] map_cong) (auto simp: nth_append)
  moreover have "take (length h) (h @ [(now, res)]) = h" by simp
  ultimately show ?thesis by (simp add: called_all_def del: take_append)
qed

lemma polls_snoc:
  "polls hk (h @ [(now, res)]) p =
     (let (p1, ns) = polls hk h p; (p2, ms) = poll hk now res p1 in (p2, ns @ ms))"
  by (simp add: polls_append Let_def split: prod.splits)

lemma polls_facts:
  "polls hk h new_poller = (p, ns) \<Longrightarrow>
     po_lastSeen p = last_count h \<and> unat (po_fails p) = trailing_failures h mod 2 ^ 32
     \<and> (po_lastCheck p = None \<longleftrightarrow> h = []) \<and> ns = called_all hk h"
proof (induction h arbitrary: p ns rule: rev_induct)
  case Nil
  then show ?case by (auto simp: new_poller_def last_count_def counts_def trailing_failures_def called_all_def)
next
  case (snoc x h)
  obtain now res where x: "x = (now, res)" by fastforce
  obtain p1 ns1 where p1: "polls hk h new_poller = (p1, ns1)" by fastforce
  obtain ms where p: "poll hk now res p1 = (p, ms)" and ns: "ns = ns1 @ ms"
    using snoc.prems by (auto simp: x polls_snoc p1 Let_def split: prod.splits)
  note ih = snoc.IH [OF p1]
  have fail: "unat (po_fails p1 + 1) = Suc (trailing_failures h) mod 2 ^ 32"
    using ih by (simp add: unat_word_ariths mod_Suc_eq)
  show ?case
  proof (cases res)
    case (Unseen u)
    with p ih show ?thesis
      by (auto simp: x poll_def Let_def last_count_snoc trailing_snoc called_all_snoc ns called_def notify_def)
  qed (use p ih fail in \<open>auto simp: x poll_def recordFailure_def last_count_snoc trailing_snoc called_all_snoc ns called_def\<close>)
qed

lemma owed_from_snoc:
  "owed_from hk prev (us @ [u]) = owed_from hk prev us
     @ (let v = (if us = [] then prev else Some (last us)) in
        (if u \<noteq> (case v of None \<Rightarrow> 0 | Some x \<Rightarrow> x) \<and> hk_onCount hk then [Count u] else [])
        @ (case v of None \<Rightarrow> [] | Some x \<Rightarrow> if x < u \<and> hk_onNewMail hk then [NewMail (u - x)] else []))"
  by (induction us arbitrary: prev) (auto simp: Let_def)

lemma called_owed: "(h \<noteq> [] \<Longrightarrow> is_count (snd (hd h))) \<Longrightarrow> called_all hk h = owed hk h"
proof (induction h rule: rev_induct)
  case Nil
  then show ?case by (simp add: called_all_def owed_def counts_def)
next
  case (snoc x h)
  obtain now res where x: "x = (now, res)" by fastforce
  have ih: "called_all hk h = owed hk h" using snoc by (cases h) simp_all
  have ne: "h \<noteq> [] \<longleftrightarrow> counts h \<noteq> []" using snoc.prems by (cases h) (auto simp: counts_def)
  show ?case
  proof (cases res)
    case (Unseen u)
    then show ?thesis
      using ih ne by (auto simp: x called_all_snoc called_def owed_def counts_snoc owed_from_snoc last_count_def Let_def)
  qed (use ih in \<open>auto simp: x called_all_snoc called_def owed_def counts_snoc\<close>)
qed

text \<open>
  C34. After any history of polls the poller shows the last count the mailbox answered and the number of failures since
  then modulo the counter's width; and when the first poll got an answer, the hooks were called exactly as promised: the
  count hook on every change of the count, and the mail hook with the increase on every growth over an earlier answer, so
  never for the mail that was waiting at startup, however many polls failed in between. (When the very first poll fails
  the promise about startup is broken: \<open>failed_first_poll_prompts\<close>.)
\<close>

theorem polls_owed:
  assumes "polls hk h new_poller = (p, ns)"
  shows "po_lastSeen p = last_count h \<and> unat (po_fails p) = trailing_failures h mod 2 ^ 32
    \<and> (h \<noteq> [] \<and> is_count (snd (hd h)) \<longrightarrow> ns = owed hk h)"
  using polls_facts [OF assms] called_owed [of h hk] by simp

theorem polls_owed_witness:
  "snd (polls \<lparr>hk_onNewMail = True, hk_onCount = True\<rparr> [(1, Unseen 2), (2, DialFails ''x''), (3, Unseen 5), (4, Unseen 1)] new_poller)
     = [Count 2, Count 5, NewMail 3, Count 1]"
proof -
  let ?hk = "\<lparr>hk_onNewMail = True, hk_onCount = True\<rparr>"
  let ?h = "[(1, Unseen 2), (2, DialFails ''x''), (3, Unseen 5), (4, Unseen 1)] :: history"
  have "?h \<noteq> [] \<and> is_count (snd (hd ?h))" by simp
  then have "snd (polls ?hk ?h new_poller) = owed ?hk ?h"
    using polls_owed [of ?hk ?h "fst (polls ?hk ?h new_poller)" "snd (polls ?hk ?h new_poller)"] by simp
  also have "\<dots> = [Count 2, Count 5, NewMail 3, Count 1]" by code_simp
  finally show ?thesis .
qed

text \<open>A first poll that fails makes the next one prompt for mail that was there at startup.\<close>

lemma failed_first_poll_prompts:
  "snd (polls \<lparr>hk_onNewMail = True, hk_onCount = True\<rparr> [(1, DialFails e), (2, Unseen 5)] new_poller) = [Count 5, NewMail 5]"
  "snd (polls \<lparr>hk_onNewMail = True, hk_onCount = True\<rparr> [(1, Unseen 5)] new_poller) = [Count 5]"
  by (simp_all add: poll_def recordFailure_def new_poller_def notify_def Let_def)

subsection \<open>The unread marker\<close>

definition unreadBucket :: "32 word \<Rightarrow> string" where
  "unreadBucket n =
     (if n = 0 then []
      else if n < 10 then '' ('' @ Itoa_nat (unat n) @ '' unread)''
      else if n < 50 then '' (10+ unread)''
      else if n < 100 then '' (50+ unread)''
      else '' (100+ unread)'')"

text \<open>The marker last rendered and the descriptions registered so far, newest last.\<close>

record unread_marker =
  um_cur :: string
  um_registered :: "string list"

definition newUnreadMarker :: "32 word \<Rightarrow> unread_marker" where
  "newUnreadMarker n = \<lparr>um_cur = unreadBucket n, um_registered = [unreadBucket n]\<rparr>"

definition Update_marker :: "32 word \<Rightarrow> unread_marker \<Rightarrow> unread_marker" where
  "Update_marker n m =
     (let marker = unreadBucket n in
      if marker = um_cur m then m
      else m\<lparr>um_cur := marker, um_registered := um_registered m @ [marker]\<rparr>)"

fun observe :: "notice list \<Rightarrow> unread_marker \<Rightarrow> unread_marker" where
  "observe [] m = m"
| "observe (Count n # ns) m = observe ns (Update_marker n m)"
| "observe (NewMail n # ns) m = observe ns m"

lemma observe_append: "observe (ns @ ms) m = observe ms (observe ns m)"
  by (induction ns m rule: observe.induct) auto

lemma last_snoc_ne: "xs \<noteq> [] \<Longrightarrow> last (ys @ xs) = last xs"
  by simp

text \<open>
  With both hooks wired as in the server, the description registered last is always the one for the last count the
  mailbox answered, and no two registrations in a row are the same.
\<close>

theorem marker_tracks_count:
  assumes "polls hk h new_poller = (p, ns)" "hk_onCount hk"
  shows "last (um_registered (observe ns (newUnreadMarker 0))) = unreadBucket (po_lastSeen p)
    \<and> distinct_adj (um_registered (observe ns (newUnreadMarker 0)))"
proof -
  let ?m = "\<lambda>h. observe (called_all hk h) (newUnreadMarker 0)"
  have upd: "um_cur (Update_marker n m) = unreadBucket n" "um_registered (Update_marker n m) \<noteq> []"
    "last (um_registered (Update_marker n m)) = unreadBucket n" "distinct_adj (um_registered (Update_marker n m))"
    if "um_cur m = last (um_registered m)" "um_registered m \<noteq> []" "distinct_adj (um_registered m)" for n m
    using that by (auto simp: Update_marker_def Let_def distinct_adj_append_iff)
  have inv: "um_cur (?m h) = unreadBucket (last_count h) \<and> um_registered (?m h) \<noteq> []
      \<and> last (um_registered (?m h)) = unreadBucket (last_count h) \<and> distinct_adj (um_registered (?m h))"
  proof (induction h rule: rev_induct)
    case Nil
    then show ?case by (simp add: called_all_def newUnreadMarker_def last_count_def counts_def)
  next
    case (snoc x h)
    obtain now res where x: "x = (now, res)" by fastforce
    have o: "observe (called_all hk (h @ [x])) (newUnreadMarker 0) = observe (called hk h res) (?m h)"
      by (simp add: x called_all_snoc observe_append)
    show ?case
    proof (cases res)
      case (Unseen u)
      then show ?thesis
        using snoc upd [of "?m h" u] assms(2) unfolding o by (auto simp: x called_def last_count_snoc)
    qed (use snoc in \<open>unfold o, auto simp: x called_def last_count_snoc\<close>)
  qed
  with polls_facts [OF assms(1)] show ?thesis by simp
qed

theorem marker_tracks_count_witness:
  "last (um_registered (observe [Count 3, Count 70] (newUnreadMarker 0))) = '' (50+ unread)''"
proof -
  let ?hk = "\<lparr>hk_onNewMail = False, hk_onCount = True\<rparr>"
  let ?h = "[(1, Unseen 3), (2, Unseen 70)] :: history"
  obtain p where p: "polls ?hk ?h new_poller = (p, [Count 3, Count 70])" "po_lastSeen p = 70"
    by (simp add: poll_def new_poller_def notify_def Let_def)
  show ?thesis using marker_tracks_count [OF p(1)] p(2) by (simp add: unreadBucket_def)
qed

subsection \<open>Starting, stopping and setting the interval\<close>

text \<open>
  Each caller of the poller works off a list of atomic actions: the critical sections of its mutex, the closing of a
  channel and the wait for the loops, which is enabled only when no loop is left. A loop ends only when its own
  channel is closed. Channels are numbered as they are made.
\<close>

datatype action = TakeStop | CloseChan nat | WaitLoops | SetFields nat string | StartLoop

datatype poll_error = ConfigError string | ConfigInterval string | InvalidInterval string

definition Start :: "(string, string) result \<Rightarrow> (poll_error, action list) result" where
  "Start cfg =
     (case cfg of
        Inl e \<Rightarrow> Inl (ConfigError e)
      | Inr raw \<Rightarrow>
          (case PollDuration raw of
             None \<Rightarrow> if raw \<noteq> [] \<and> raw \<noteq> ''n'' then Inl (ConfigInterval raw) else Inr []
           | Some d \<Rightarrow> Inr [SetFields d raw, StartLoop]))"

definition Stop :: "action list" where
  "Stop = [TakeStop]"

definition SetInterval :: "string \<Rightarrow> (poll_error, action list) result" where
  "SetInterval interval =
     (if \<not> ValidPollInterval interval then Inl (InvalidInterval interval)
      else if interval = [] \<or> interval = ''n'' then Inr (Stop @ [SetFields 0 interval])
      else Inr (Stop @ [SetFields (the (map_of validPollIntervals interval)) interval, StartLoop]))"

record poll_sys =
  sy_po :: poller
  sy_next :: nat
  sy_closed :: "nat list"
  sy_loops :: "nat list"
  sy_calls :: "nat \<Rightarrow> action list"

fun act_step :: "action \<Rightarrow> poll_sys \<Rightarrow> (poll_sys \<times> action list) option" where
  "act_step TakeStop s =
     Some (s\<lparr>sy_po := (sy_po s)\<lparr>po_stop := None\<rparr>\<rparr>,
       case po_stop (sy_po s) of None \<Rightarrow> [] | Some c \<Rightarrow> [CloseChan c, WaitLoops])"
| "act_step (CloseChan c) s = Some (s\<lparr>sy_closed := c # sy_closed s\<rparr>, [])"
| "act_step WaitLoops s = (if sy_loops s = [] then Some (s, []) else None)"
| "act_step (SetFields d raw) s = Some (s\<lparr>sy_po := (sy_po s)\<lparr>po_interval := d, po_raw := raw\<rparr>\<rparr>, [])"
| "act_step StartLoop s =
     Some (s\<lparr>sy_po := (sy_po s)\<lparr>po_stop := Some (sy_next s)\<rparr>, sy_loops := sy_next s # sy_loops s,
       sy_next := Suc (sy_next s)\<rparr>, [])"

definition set_call :: "nat \<Rightarrow> action list \<Rightarrow> poll_sys \<Rightarrow> poll_sys" where
  "set_call t as s = s\<lparr>sy_calls := (sy_calls s)(t := as)\<rparr>"

definition request :: "action list \<Rightarrow> bool" where
  "request as \<longleftrightarrow> as = Stop \<or> (\<exists>iv. SetInterval iv = Inr as)"

text \<open>Callers in turn (\<open>serial\<close>) or overlapping.\<close>

inductive po_step :: "bool \<Rightarrow> poll_sys \<Rightarrow> poll_sys \<Rightarrow> bool" for serial where
  call: "sy_calls s t = [] \<Longrightarrow> serial \<longrightarrow> (\<forall>u. sy_calls s u = []) \<Longrightarrow> request as \<Longrightarrow> po_step serial s (set_call t as s)"
| act: "sy_calls s t = a # as \<Longrightarrow> act_step a s = Some (s', extra) \<Longrightarrow> po_step serial s (set_call t (extra @ as) s')"
| loop_exit: "c \<in> set (sy_loops s) \<Longrightarrow> c \<in> set (sy_closed s) \<Longrightarrow> po_step serial s (s\<lparr>sy_loops := remove1 c (sy_loops s)\<rparr>)"

inductive_cases po_stepE: "po_step serial s s'"

definition init_sys :: "action list \<Rightarrow> poll_sys" where
  "init_sys as = \<lparr>sy_po = new_poller, sy_next = 0, sy_closed = [], sy_loops = [], sy_calls = (\<lambda>_. [])(0 := as)\<rparr>"

subsection \<open>Calls in turn\<close>

definition settled :: "poll_sys \<Rightarrow> bool" where
  "settled s \<longleftrightarrow>
     (case po_stop (sy_po s) of
        None \<Rightarrow> sy_loops s = []
      | Some c \<Rightarrow> sy_loops s = [c] \<and> c \<notin> set (sy_closed s))"

definition after_stop :: "action list \<Rightarrow> bool" where
  "after_stop as \<longleftrightarrow> as = [] \<or> (\<exists>d r. as = [SetFields d r] \<or> as = [SetFields d r, StartLoop])"

fun phase :: "action list \<Rightarrow> poll_sys \<Rightarrow> bool" where
  "phase [] s = settled s"
| "phase (TakeStop # as) s = (settled s \<and> after_stop as)"
| "phase (CloseChan c # as) s =
     (po_stop (sy_po s) = None \<and> sy_loops s = [c] \<and> c \<notin> set (sy_closed s) \<and> (\<exists>as'. as = WaitLoops # as' \<and> after_stop as'))"
| "phase (WaitLoops # as) s =
     (po_stop (sy_po s) = None \<and> (sy_loops s = [] \<or> (\<exists>c \<in> set (sy_closed s). sy_loops s = [c])) \<and> after_stop as)"
| "phase (SetFields d r # as) s = (po_stop (sy_po s) = None \<and> sy_loops s = [] \<and> (as = [] \<or> as = [StartLoop]))"
| "phase (StartLoop # as) s = (po_stop (sy_po s) = None \<and> sy_loops s = [] \<and> as = [])"

definition serial_inv :: "poll_sys \<Rightarrow> bool" where
  "serial_inv s \<longleftrightarrow>
     (\<exists>t as. sy_calls s = (\<lambda>_. [])(t := as) \<and> phase as s)
     \<and> (\<forall>c \<in> set (sy_closed s) \<union> set (sy_loops s). c < sy_next s)"

lemma request_cases:
  assumes "request as"
  obtains as' where "as = TakeStop # as'" "after_stop as'"
  using assms by (auto simp: request_def Stop_def SetInterval_def after_stop_def split: if_splits)

lemma start_phase: "Start cfg = Inr as \<Longrightarrow> phase as (init_sys as)"
  by (auto simp: Start_def init_sys_def new_poller_def settled_def split: sum.splits option.splits if_splits)

lemma init_serial_inv: "Start cfg = Inr as \<Longrightarrow> serial_inv (init_sys as)"
  using start_phase by (auto simp: serial_inv_def init_sys_def)

lemma phase_set_call [simp]: "phase as (set_call t bs s) = phase as s"
  by (cases "po_stop (sy_po s)"; cases "(as, s)" rule: phase.cases) (auto simp: set_call_def settled_def)

lemma act_phase:
  assumes "phase (a # as) s" "act_step a s = Some (s', extra)"
    "\<forall>c \<in> set (sy_closed s) \<union> set (sy_loops s). c < sy_next s"
  shows "phase (extra @ as) s' \<and> (\<forall>c \<in> set (sy_closed s') \<union> set (sy_loops s'). c < sy_next s') \<and> sy_calls s' = sy_calls s"
proof (cases a)
  case TakeStop
  then show ?thesis
    using assms by (cases "po_stop (sy_po s)") (auto simp: settled_def after_stop_def)
next
  case (SetFields d r)
  then show ?thesis using assms by (auto simp: settled_def)
qed (use assms in \<open>auto simp: settled_def after_stop_def less_Suc_eq split: if_splits\<close>)

lemma serial_step_inv:
  assumes "po_step True s s'" "serial_inv s"
  shows "serial_inv s'"
proof -
  obtain t0 as0 where c0: "sy_calls s = (\<lambda>_. [])(t0 := as0)" "phase as0 s"
    and b: "\<forall>c \<in> set (sy_closed s) \<union> set (sy_loops s). c < sy_next s"
    using assms(2) by (auto simp: serial_inv_def)
  from assms(1) show ?thesis
  proof cases
    case (call t as)
    then have "as0 = []" using c0(1) by (metis fun_upd_same)
    then have calls: "sy_calls s = (\<lambda>_. [])" using c0(1) by auto
    obtain as' where as': "as = TakeStop # as'" "after_stop as'" using call request_cases by blast
    have "phase as s'" using call(1) as' c0(2) \<open>as0 = []\<close> by simp
    moreover have "sy_calls s' = (\<lambda>_. [])(t := as)" using call(1) calls by (simp add: set_call_def)
    ultimately show ?thesis using b call(1) by (auto simp: serial_inv_def set_call_def)
  next
    case (act t a as s1 extra)
    have t: "t = t0" "as0 = a # as" using act(2) c0(1) by (auto split: if_splits)
    from act_phase [OF c0(2) [unfolded t(2)] act(3) b]
    have ph: "phase (extra @ as) s1" and b1: "\<forall>c \<in> set (sy_closed s1) \<union> set (sy_loops s1). c < sy_next s1"
      and calls: "sy_calls s1 = sy_calls s" by auto
    have "sy_calls s' = (\<lambda>_. [])(t0 := extra @ as)" using act(1) calls c0(1) t(1) by (simp add: set_call_def)
    moreover have "phase (extra @ as) s'" using ph act(1) by simp
    ultimately show ?thesis using b1 act(1) by (auto simp: serial_inv_def set_call_def)
  next
    case (loop_exit c)
    have "phase as0 s'"
      using c0(2) loop_exit by (cases "(as0, s)" rule: phase.cases) (auto simp: settled_def split: option.splits)
    moreover have "set (remove1 c (sy_loops s)) \<subseteq> set (sy_loops s)" by (rule set_remove1_subset)
    ultimately show ?thesis using b c0(1) loop_exit(1) by (auto simp: serial_inv_def)
  qed
qed


lemma serial_reach_inv:
  assumes "(po_step True)\<^sup>*\<^sup>* (init_sys as) s" "Start cfg = Inr as"
  shows "serial_inv s"
  using assms(1) by (induction rule: rtranclp_induct) (use assms(2) init_serial_inv serial_step_inv in auto)

text \<open>C35. One caller at a time: never two loops, and between calls the poller is active exactly when a loop runs.\<close>

theorem serial_one_loop:
  assumes "(po_step True)\<^sup>*\<^sup>* (init_sys as) s" "Start cfg = Inr as"
  shows "length (sy_loops s) \<le> 1 \<and> ((\<forall>t. sy_calls s t = []) \<longrightarrow> (st_active (Status (sy_po s)) \<longleftrightarrow> sy_loops s \<noteq> []))"
proof -
  from serial_reach_inv [OF assms] obtain t as' where c: "sy_calls s = (\<lambda>_. [])(t := as')" "phase as' s"
    by (auto simp: serial_inv_def)
  have "length (sy_loops s) \<le> 1"
    using c(2) by (cases "(as', s)" rule: phase.cases) (auto simp: settled_def split: option.splits)
  moreover have "st_active (Status (sy_po s)) \<longleftrightarrow> sy_loops s \<noteq> []" if "\<forall>t. sy_calls s t = []"
  proof -
    have "as' = []" using that c(1) by (metis fun_upd_same)
    with c(2) show ?thesis by (auto simp: settled_def Status_def split: option.splits)
  qed
  ultimately show ?thesis by blast
qed

theorem serial_one_loop_witness: "length (sy_loops (init_sys [SetFields 5 ''5m'', StartLoop])) \<le> 1"
proof -
  have "Start (Inr ''5m'') = Inr [SetFields 5 ''5m'', StartLoop]" by code_simp
  then show ?thesis using serial_one_loop [OF rtranclp.rtrancl_refl] by blast
qed

text \<open>Every call in turn can be finished: \<open>Stop\<close> never waits for a loop that cannot end.\<close>

lemma act_reaches:
  assumes "sy_calls s = (\<lambda>_. [])(t := a # as)" "act_step a s = Some (s1, extra)" "phase (a # as) s"
    "\<forall>c \<in> set (sy_closed s) \<union> set (sy_loops s). c < sy_next s"
  shows "po_step True s (set_call t (extra @ as) s1) \<and> sy_calls (set_call t (extra @ as) s1) = (\<lambda>_. [])(t := extra @ as)
    \<and> serial_inv (set_call t (extra @ as) s1)"
proof -
  have st: "po_step True s (set_call t (extra @ as) s1)" using assms(1,2) by (intro act [of s t a as s1 extra]) auto
  moreover have "serial_inv s" using assms by (auto simp: serial_inv_def)
  ultimately show ?thesis
    using serial_step_inv act_phase [OF assms(3,2,4)] assms(1) by (auto simp: set_call_def)
qed

fun work :: "action list \<Rightarrow> nat" where
  "work [] = 0"
| "work (TakeStop # as) = 10 + work as"
| "work (WaitLoops # as) = 2 + work as"
| "work (a # as) = 1 + work as"

lemma work_append: "work (as @ bs) = work as + work bs"
  by (induction as rule: work.induct) auto

lemma serial_finishes:
  assumes "serial_inv s"
  shows "\<exists>s'. (po_step True)\<^sup>*\<^sup>* s s' \<and> (\<forall>t. sy_calls s' t = [])"
proof -
  have main: "\<exists>s'. (po_step True)\<^sup>*\<^sup>* s s' \<and> (\<forall>t. sy_calls s' t = [])"
    if "sy_calls s = (\<lambda>_. [])(t := as)" "phase as s" "\<forall>c \<in> set (sy_closed s) \<union> set (sy_loops s). c < sy_next s" for s t as
    using that
  proof (induction "work as" arbitrary: s as rule: less_induct)
    case less
    show ?case
    proof (cases as)
      case (Cons a bs)
      have go: ?thesis if s2: "sy_calls s2 = sy_calls s" "phase as s2" "(po_step True)\<^sup>*\<^sup>* s s2"
          "\<forall>c \<in> set (sy_closed s2) \<union> set (sy_loops s2). c < sy_next s2"
          "act_step a s2 = Some (s1, extra)" "work (extra @ bs) < work as" for s1 s2 extra
      proof -
        have c2: "sy_calls s2 = (\<lambda>_. [])(t := a # bs)" using s2(1) less(2) Cons by simp
        have ph2: "phase (a # bs) s2" using s2(2) Cons by simp
        let ?s3 = "set_call t (extra @ bs) s1"
        from act_reaches [OF c2 s2(5) ph2 s2(4)] have st: "po_step True s2 ?s3"
          and c3: "sy_calls ?s3 = (\<lambda>_. [])(t := extra @ bs)" by auto
        from act_phase [OF ph2 s2(5,4)] have p3: "phase (extra @ bs) ?s3"
          "\<forall>c \<in> set (sy_closed ?s3) \<union> set (sy_loops ?s3). c < sy_next ?s3"
          by (simp, simp add: set_call_def)
        obtain s' where s': "(po_step True)\<^sup>*\<^sup>* ?s3 s'" "\<forall>t. sy_calls s' t = []"
          using less(1) [OF s2(6) c3 p3] by blast
        have "(po_step True)\<^sup>*\<^sup>* s s'" using s2(3) st s'(1) by (meson rtranclp.rtrancl_into_rtrancl rtranclp_trans)
        with s'(2) show ?thesis by blast
      qed
      show ?thesis
      proof (cases "a = WaitLoops \<and> sy_loops s \<noteq> []")
        case True
        then obtain c where c: "c \<in> set (sy_closed s)" "sy_loops s = [c]" using less(3) Cons by auto
        let ?s2 = "s\<lparr>sy_loops := remove1 c (sy_loops s)\<rparr>"
        have "po_step True s ?s2" by (rule loop_exit) (use c in auto)
        then show ?thesis
          using True c less(3,4) Cons by (intro go [of ?s2 ?s2 "[]"]) auto
      next
        case False
        show ?thesis
        proof (cases a)
          case TakeStop
          then show ?thesis using less(3,4) Cons
            by (intro go [of s]) (auto simp: work_append split: option.split)
        qed (use False less(3,4) Cons in \<open>auto intro!: go [of s]\<close>)
      qed
    qed (use less(2) in auto)
  qed
  from assms obtain t as where "sy_calls s = (\<lambda>_. [])(t := as)" "phase as s"
    "\<forall>c \<in> set (sy_closed s) \<union> set (sy_loops s). c < sy_next s" by (auto simp: serial_inv_def)
  from main [OF this] show ?thesis .
qed


text \<open>
  C36. From every state that calls in turn reach, the call in progress can run to its end: \<open>Stop\<close> and \<open>SetInterval\<close>
  never wait for a loop that cannot end.
\<close>

theorem serial_calls_finish:
  assumes "(po_step True)\<^sup>*\<^sup>* (init_sys as) s" "Start cfg = Inr as"
  shows "\<exists>s'. (po_step True)\<^sup>*\<^sup>* s s' \<and> (\<forall>t. sy_calls s' t = [])"
  using serial_finishes [OF serial_reach_inv [OF assms]] .

theorem serial_calls_finish_witness:
  "\<exists>s'. (po_step True)\<^sup>*\<^sup>* (init_sys [SetFields 5 ''5m'', StartLoop]) s' \<and> (\<forall>t. sy_calls s' t = [])"
proof -
  have "Start (Inr ''5m'') = Inr [SetFields 5 ''5m'', StartLoop]" by code_simp
  then show ?thesis using serial_calls_finish [OF rtranclp.rtrancl_refl] by blast
qed

subsection \<open>Overlapping calls\<close>

text \<open>A loop whose channel nobody holds any more.\<close>

definition orphan :: "nat \<Rightarrow> poll_sys \<Rightarrow> bool" where
  "orphan c s \<longleftrightarrow> c \<in> set (sy_loops s) \<and> c \<notin> set (sy_closed s) \<and> po_stop (sy_po s) \<noteq> Some c \<and> c < sy_next s
     \<and> (\<forall>t. CloseChan c \<notin> set (sy_calls s t))"

lemma act_orphan:
  assumes "act_step a s = Some (s', extra)" "orphan c s" "a \<noteq> CloseChan c"
  shows "c \<in> set (sy_loops s') \<and> c \<notin> set (sy_closed s') \<and> po_stop (sy_po s') \<noteq> Some c \<and> c < sy_next s'
    \<and> sy_calls s' = sy_calls s \<and> CloseChan c \<notin> set extra"
  using assms by (cases a) (auto simp: orphan_def split: if_splits option.splits)

lemma orphan_stays:
  assumes "po_step serial s s'" "orphan c s"
  shows "orphan c s'"
  using assms(1)
proof cases
  case (call t as)
  have "CloseChan c \<notin> set as"
    using call(4) by (auto simp: request_def Stop_def SetInterval_def split: if_splits)
  with assms(2) call(1) show ?thesis by (auto simp: orphan_def set_call_def)
next
  case (act t a as s1 extra)
  have "CloseChan c \<notin> set (a # as)" using assms(2) act(2) by (metis orphan_def)
  with act_orphan [OF act(3) assms(2)] assms(2) act(1) show ?thesis by (auto simp: orphan_def set_call_def)
next
  case (loop_exit d)
  then have "d \<noteq> c" using assms(2) by (auto simp: orphan_def)
  with loop_exit assms(2) show ?thesis by (simp add: orphan_def)
qed

lemma orphan_forever: "(po_step serial)\<^sup>*\<^sup>* s s' \<Longrightarrow> orphan c s \<Longrightarrow> orphan c s'"
  by (induction rule: rtranclp_induct) (auto intro: orphan_stays)

text \<open>Which thread moves next: \<open>Some\<close> begins a call, \<open>None\<close> performs its next action.\<close>

fun schedule :: "(nat \<times> action list option) list \<Rightarrow> poll_sys \<Rightarrow> poll_sys option" where
  "schedule [] s = Some s"
| "schedule ((t, Some as) # ms) s = (if sy_calls s t = [] then schedule ms (set_call t as s) else None)"
| "schedule ((t, None) # ms) s =
     (case sy_calls s t of
        [] \<Rightarrow> None
      | a # as \<Rightarrow> (case act_step a s of None \<Rightarrow> None | Some (s', extra) \<Rightarrow> schedule ms (set_call t (extra @ as) s')))"

lemma schedule_reach:
  "schedule ms s = Some s' \<Longrightarrow> (\<forall>t as. (t, Some as) \<in> set ms \<longrightarrow> request as) \<Longrightarrow> (po_step False)\<^sup>*\<^sup>* s s'"
proof (induction ms s rule: schedule.induct)
  case (2 t as ms s)
  then have "po_step False s (set_call t as s)" by (intro call) (auto split: if_splits)
  with 2 show ?case by (auto split: if_splits intro: converse_rtranclp_into_rtranclp)
next
  case (3 t ms s)
  then obtain a as s1 extra where a: "sy_calls s t = a # as" "act_step a s = Some (s1, extra)"
    "schedule ms (set_call t (extra @ as) s1) = Some s'" by (auto split: list.splits option.splits)
  have "po_step False s (set_call t (extra @ as) s1)" by (rule act [OF a(1,2)])
  moreover have "(po_step False)\<^sup>*\<^sup>* (set_call t (extra @ as) s1) s'" using 3 a by auto
  ultimately show ?case by (rule converse_rtranclp_into_rtranclp)
qed simp

definition overlap :: "(nat \<times> action list option) list" where
  "overlap =
     (let as = Stop @ [SetFields 1 ''1m'', StartLoop] in
      [(1, Some as), (2, Some as), (1, None), (2, None), (1, None), (1, None), (2, None), (2, None)])"

text \<open>
  Two overlapping calls of \<open>SetInterval\<close> can both start a loop; the first is then beyond the reach of every later
  call, so a loop runs in every later state and every later \<open>Stop\<close> waits for ever.
\<close>

lemma overlapping_calls_orphan_a_loop:
  "\<exists>s. (po_step False)\<^sup>*\<^sup>* (init_sys []) s \<and> (\<forall>t. sy_calls s t = []) \<and> length (sy_loops s) = 2
     \<and> (\<forall>s'. (po_step False)\<^sup>*\<^sup>* s s' \<longrightarrow> sy_loops s' \<noteq> [] \<and> act_step WaitLoops s' = None)"
proof -
  obtain s where s: "schedule overlap (init_sys []) = Some s" "sy_loops s = [1, 0]" "sy_closed s = []"
    "po_stop (sy_po s) = Some 1" "sy_next s = 2" "sy_calls s = (\<lambda>_. [])(0 := [], 1 := [], 2 := [])"
    by (simp add: overlap_def Stop_def init_sys_def set_call_def Let_def new_poller_def fun_upd_twist numeral_2_eq_2)
  have "SetInterval ''1m'' = Inr (Stop @ [SetFields 1 ''1m'', StartLoop])" by code_simp
  then have "\<forall>t as. (t, Some as) \<in> set overlap \<longrightarrow> request as" by (auto simp: overlap_def Let_def request_def)
  with s(1) have "(po_step False)\<^sup>*\<^sup>* (init_sys []) s" by (intro schedule_reach) auto
  moreover have o: "orphan 0 s" using s by (auto simp: orphan_def)
  have "sy_loops s' \<noteq> []" if "(po_step False)\<^sup>*\<^sup>* s s'" for s'
    using orphan_forever [OF that o] by (auto simp: orphan_def)
  ultimately show ?thesis using s by (intro exI [of _ s]) auto
qed

end
