(* ===== verification/Identity.thy ===== *)
theory Identity
  imports GoPath
begin

section \<open>Paths and identities\<close>

text \<open>
  Models \<open>internal/paths/paths.go\<close>, \<open>internal/identity/resolve.go\<close>, \<open>identity.go\<close> and
  \<open>migrate.go\<close>. Reading a file is a function from its path to its bytes or an error, of which
  the code distinguishes only "does not exist"; the YAML decoders are parameters. The migration
  works on a map from paths to bytes with the outcome of every system call.
\<close>

subsection \<open>Reading files\<close>

datatype os_error = ErrNotExist | OsError string

type_synonym reader = "string \<Rightarrow> (os_error, string) result"

subsection \<open>The data directories\<close>

definition DataDir :: "(string, string) result \<Rightarrow> (string, string) result" where
  "DataDir home = and_then home (\<lambda>h. Inr (JoinPath [h, ''.punt-labs'', ''beadle'']))"

definition EthosDir :: "(string, string) result \<Rightarrow> (string, string) result" where
  "EthosDir home = and_then home (\<lambda>h. Inr (JoinPath [h, ''.punt-labs'', ''ethos'']))"

definition IdentityDir :: "(string, string) result \<Rightarrow> string \<Rightarrow> (string, string) result" where
  "IdentityDir home email = and_then (DataDir home) (\<lambda>base. Inr (JoinPath [base, ''identities'', email]))"

definition IdentityConfigPath :: "(string, string) result \<Rightarrow> string \<Rightarrow> (string, string) result" where
  "IdentityConfigPath home email = and_then (IdentityDir home email) (\<lambda>dir. Inr (JoinPath [dir, ''email.json'']))"

definition IdentityContactsPath :: "(string, string) result \<Rightarrow> string \<Rightarrow> (string, string) result" where
  "IdentityContactsPath home email = and_then (IdentityDir home email) (\<lambda>dir. Inr (JoinPath [dir, ''contacts.json'']))"

subsection \<open>Handles, emails and files\<close>

record ethosIdentity =
  ei_Handle :: string
  ei_Name :: string
  ei_Email :: string

record repoEthosConfig =
  rc_Agent :: string
  rc_Active :: string

record identity =
  id_Handle :: string
  id_Name :: string
  id_Email :: string
  id_GPGKeyID :: string
  id_Source :: string

text \<open>What the YAML library makes of the bytes of a file, per target type; the extension yields its key id.\<close>

record yaml_lib =
  ym_identity :: "string \<Rightarrow> (string, ethosIdentity) result"
  ym_extension :: "string \<Rightarrow> (string, string) result"
  ym_repo :: "string \<Rightarrow> (string, repoEthosConfig) result"

record Resolver =
  rs_ethosDir :: string
  rs_beadleDir :: string
  rs_repoDir :: string

datatype id_error =
    HandleSeparator string
  | HandleParent string
  | EmailEmpty
  | EmailSeparator string
  | EmailParent string
  | RepoConfigRead os_error
  | RepoConfigParse string
  | RepoConfigDeprecated
  | ActiveRead os_error
  | EthosIdentityRead os_error
  | EthosIdentityParse string
  | EthosIdentityNoEmail
  | EthosIdentityEmail id_error
  | ExtensionParse string
  | ExtensionRead os_error
  | ActiveIdentity string id_error
  | DefaultRead os_error
  | DefaultEmpty
  | DefaultEmail id_error
  | NoIdentity

definition ValidateHandle :: "string \<Rightarrow> (id_error, unit) result" where
  "ValidateHandle handle =
     (if ContainsAny handle [SLASH, BACKSLASH] then Inl (HandleSeparator handle)
      else if handle = dotdot \<or> HasPrefix handle dotdot then Inl (HandleParent handle)
      else Inr ())"

definition ValidateEmailAsPath :: "string \<Rightarrow> (id_error, unit) result" where
  "ValidateEmailAsPath email =
     (if email = [] then Inl EmailEmpty
      else if ContainsAny email [SLASH, BACKSLASH] then Inl (EmailSeparator email)
      else if email = dotdot \<or> Contains email dotdot then Inl (EmailParent email)
      else Inr ())"

definition readRepoEthosConfig :: "yaml_lib \<Rightarrow> reader \<Rightarrow> string \<Rightarrow> (id_error, string) result" where
  "readRepoEthosConfig ym rd path =
     (case rd (Clean path) of
        Inl e \<Rightarrow> Inl (RepoConfigRead e)
      | Inr data \<Rightarrow>
          (case ym_repo ym data of
             Inl e \<Rightarrow> Inl (RepoConfigParse e)
           | Inr cfg \<Rightarrow>
               if rc_Agent cfg = [] \<and> rc_Active cfg \<noteq> [] then Inl RepoConfigDeprecated else Inr (rc_Agent cfg)))"

definition repo_config :: "Resolver \<Rightarrow> string" where
  "repo_config r = JoinPath [rs_repoDir r, ''.punt-labs'', ''ethos.yaml'']"

definition active_path :: "Resolver \<Rightarrow> string" where
  "active_path r = JoinPath [rs_ethosDir r, ''active'']"

text \<open>The handle of the global active file, or "".\<close>

definition global_handle :: "reader \<Rightarrow> Resolver \<Rightarrow> (id_error, string) result" where
  "global_handle rd r =
     (case rd (Clean (active_path r)) of
        Inl ErrNotExist \<Rightarrow> Inr []
      | Inl e \<Rightarrow> Inl (ActiveRead e)
      | Inr data \<Rightarrow> Inr (TrimSpace data))"

definition resolveHandle :: "yaml_lib \<Rightarrow> reader \<Rightarrow> Resolver \<Rightarrow> (id_error, string) result" where
  "resolveHandle ym rd r =
     (if rs_repoDir r \<noteq> [] then
        (case readRepoEthosConfig ym rd (repo_config r) of
           Inr handle \<Rightarrow> if handle \<noteq> [] then Inr handle else global_handle rd r
         | Inl (RepoConfigRead ErrNotExist) \<Rightarrow> global_handle rd r
         | Inl e \<Rightarrow> Inl e)
      else global_handle rd r)"

definition identity_path :: "Resolver \<Rightarrow> string \<Rightarrow> string" where
  "identity_path r handle = JoinPath [rs_ethosDir r, ''identities'', handle @ ''.yaml'']"

definition extension_path :: "Resolver \<Rightarrow> string \<Rightarrow> string" where
  "extension_path r handle = JoinPath [rs_ethosDir r, ''identities'', handle @ ''.ext'', ''beadle.yaml'']"

definition fromEthos :: "yaml_lib \<Rightarrow> reader \<Rightarrow> Resolver \<Rightarrow> string \<Rightarrow> (id_error, identity) result" where
  "fromEthos ym rd r handle =
     (case rd (Clean (identity_path r handle)) of
        Inl e \<Rightarrow> Inl (EthosIdentityRead e)
      | Inr data \<Rightarrow>
          (case ym_identity ym data of
             Inl e \<Rightarrow> Inl (EthosIdentityParse e)
           | Inr eid \<Rightarrow>
               if ei_Email eid = [] then Inl EthosIdentityNoEmail
               else (case ValidateEmailAsPath (ei_Email eid) of
                  Inl e \<Rightarrow> Inl (EthosIdentityEmail e)
                | Inr _ \<Rightarrow>
                    let i = \<lparr>id_Handle = handle, id_Name = ei_Name eid, id_Email = ei_Email eid,
                              id_GPGKeyID = [], id_Source = ''ethos''\<rparr> in
                    (case rd (Clean (extension_path r handle)) of
                       Inr ext \<Rightarrow>
                         (case ym_extension ym ext of
                            Inl e \<Rightarrow> Inl (ExtensionParse e)
                          | Inr key \<Rightarrow> Inr (i\<lparr>id_GPGKeyID := key\<rparr>))
                     | Inl ErrNotExist \<Rightarrow> Inr i
                     | Inl e \<Rightarrow> Inl (ExtensionRead e)))))"

definition default_path :: "Resolver \<Rightarrow> string" where
  "default_path r = JoinPath [rs_beadleDir r, ''default-identity'']"

definition fromDefault :: "reader \<Rightarrow> Resolver \<Rightarrow> (id_error, identity) result" where
  "fromDefault rd r =
     (case rd (Clean (default_path r)) of
        Inl e \<Rightarrow> Inl (DefaultRead e)
      | Inr data \<Rightarrow>
          let email = TrimSpace data in
          if email = [] then Inl DefaultEmpty
          else (case ValidateEmailAsPath email of
             Inl e \<Rightarrow> Inl (DefaultEmail e)
           | Inr _ \<Rightarrow> Inr \<lparr>id_Handle = [], id_Name = [], id_Email = email, id_GPGKeyID = [], id_Source = ''default''\<rparr>))"

definition Resolve :: "yaml_lib \<Rightarrow> reader \<Rightarrow> Resolver \<Rightarrow> (id_error, identity) result" where
  "Resolve ym rd r =
     (case resolveHandle ym rd r of
        Inl e \<Rightarrow> Inl e
      | Inr handle \<Rightarrow>
          if handle \<noteq> [] then
            and_then (ValidateHandle handle) (\<lambda>_.
              case fromEthos ym rd r handle of
                Inl e \<Rightarrow> Inl (ActiveIdentity handle e)
              | Inr i \<Rightarrow> Inr i)
          else (case fromDefault rd r of Inr i \<Rightarrow> Inr i | Inl _ \<Rightarrow> Inl NoIdentity))"

definition ResolveHandle :: "yaml_lib \<Rightarrow> reader \<Rightarrow> Resolver \<Rightarrow> string \<Rightarrow> (id_error, identity) result" where
  "ResolveHandle ym rd r handle = and_then (ValidateHandle handle) (\<lambda>_. fromEthos ym rd r handle)"

text \<open>\<open>errors.Is(err, os.ErrNotExist)\<close>: whether the chain of wrapped errors holds it.\<close>

fun wraps_not_exist :: "id_error \<Rightarrow> bool" where
  "wraps_not_exist (RepoConfigRead e) = (e = ErrNotExist)"
| "wraps_not_exist (ActiveRead e) = (e = ErrNotExist)"
| "wraps_not_exist (EthosIdentityRead e) = (e = ErrNotExist)"
| "wraps_not_exist (ExtensionRead e) = (e = ErrNotExist)"
| "wraps_not_exist (DefaultRead e) = (e = ErrNotExist)"
| "wraps_not_exist (EthosIdentityEmail e) = wraps_not_exist e"
| "wraps_not_exist (ActiveIdentity h e) = wraps_not_exist e"
| "wraps_not_exist (DefaultEmail e) = wraps_not_exist e"
| "wraps_not_exist _ = False"

subsection \<open>Confinement\<close>

lemma path_comps_Join:
  assumes "\<forall>n \<in> set ns. plain_name n" "d \<noteq> []"
  shows "path_comps (Join (d # ns) [SLASH]) = path_comps d @ ns \<and> IsAbs (Join (d # ns) [SLASH]) = IsAbs d
    \<and> Join (d # ns) [SLASH] \<noteq> []"
  using assms(1)
proof (induction ns rule: rev_induct)
  case Nil
  then show ?case using assms(2) by simp
next
  case (snoc n ns)
  let ?p = "Join (d # ns) [SLASH]"
  have "Join (d # ns @ [n]) [SLASH] = ?p @ SLASH # n" using Join_snoc [of "d # ns"] by simp
  with snoc path_comps_append [of n ?p] show ?case by simp
qed

lemma clean_stack_plains: "clean_stack b st \<Longrightarrow> \<forall>n \<in> set ns. plain_name n \<Longrightarrow> clean_stack b (rev ns @ st)"
  by (induction ns arbitrary: st) (auto intro: clean_stack_plain)

lemma comps_JoinPath:
  assumes "\<forall>n \<in> set ns. plain_name n" "d \<noteq> []"
  shows "path_comps (JoinPath (d # ns)) = path_comps d @ ns" "Clean (JoinPath (d # ns)) = JoinPath (d # ns)"
    "JoinPath (d # ns) \<noteq> []" "IsAbs (JoinPath (d # ns)) = IsAbs d"
proof -
  from path_comps_Join [OF assms] have j: "JoinPath (d # ns) = render_path (IsAbs d) (path_comps d @ ns)"
    using assms(2) by (simp add: JoinPath_def Clean_def)
  have st: "clean_stack (IsAbs d) (rev (path_comps d @ ns))"
    using clean_stack_plains [OF path_comps_stack assms(1)] by simp
  from st show "path_comps (JoinPath (d # ns)) = path_comps d @ ns" by (simp add: j path_comps_render)
  from st show "Clean (JoinPath (d # ns)) = JoinPath (d # ns)" by (simp add: j Clean_render)
  from st show "JoinPath (d # ns) \<noteq> []" by (simp add: j render_nonempty)
  from st show "IsAbs (JoinPath (d # ns)) = IsAbs d" by (simp add: j)
qed

lemma ValidateHandle_ok: "ValidateHandle h = Inr u \<Longrightarrow> SLASH \<notin> set h"
  by (auto simp: ValidateHandle_def ContainsAny_def list_ex_iff split: if_splits)

lemma plain_suffix: "SLASH \<notin> set h \<Longrightarrow> SLASH \<notin> set s \<Longrightarrow> 2 < length s \<Longrightarrow> plain_name (h @ s)"
  by (auto simp: plain_name_def append_eq_Cons_conv)

text \<open>The only files an identity may come from: four fixed places and the entries of the identities directory.\<close>

definition identity_file :: "Resolver \<Rightarrow> string \<Rightarrow> bool" where
  "identity_file r p \<longleftrightarrow>
     p = Clean (repo_config r) \<or> p = Clean (active_path r) \<or> p = Clean (default_path r)
     \<or> (\<exists>h. plain_name h \<and> path_comps p = path_comps (rs_ethosDir r) @ [''identities'', h])
     \<or> (\<exists>h. plain_name h \<and> path_comps p = path_comps (rs_ethosDir r) @ [''identities'', h, ''beadle.yaml''])"

lemma plain_names [simp]: "plain_name ''identities''" "plain_name ''beadle.yaml''" "plain_name ''email.json''"
    "plain_name ''contacts.json''" "plain_name ''daemon.json''"
  by (simp_all add: plain_name_def)

lemma handle_paths:
  assumes "SLASH \<notin> set h" "rs_ethosDir r \<noteq> []"
  shows "path_comps (Clean (identity_path r h)) = path_comps (rs_ethosDir r) @ [''identities'', h @ ''.yaml'']"
    "path_comps (Clean (extension_path r h)) = path_comps (rs_ethosDir r) @ [''identities'', h @ ''.ext'', ''beadle.yaml'']"
    "plain_name (h @ ''.yaml'')" "plain_name (h @ ''.ext'')"
proof -
  show y: "plain_name (h @ ''.yaml'')" and e: "plain_name (h @ ''.ext'')" using assms(1) by (auto intro!: plain_suffix)
  show "path_comps (Clean (identity_path r h)) = path_comps (rs_ethosDir r) @ [''identities'', h @ ''.yaml'']"
    using y comps_JoinPath [of "[''identities'', h @ ''.yaml'']"] assms(2) by (simp add: identity_path_def)
  show "path_comps (Clean (extension_path r h)) = path_comps (rs_ethosDir r) @ [''identities'', h @ ''.ext'', ''beadle.yaml'']"
    using e comps_JoinPath [of "[''identities'', h @ ''.ext'', ''beadle.yaml'']"] assms(2) by (simp add: extension_path_def)
qed

lemma handle_files:
  assumes "SLASH \<notin> set h" "rs_ethosDir r \<noteq> []"
  shows "identity_file r (Clean (identity_path r h))" "identity_file r (Clean (extension_path r h))"
  using handle_paths [OF assms] unfolding identity_file_def by blast+

lemma fromEthos_cong:
  assumes "\<And>p. identity_file r p \<Longrightarrow> rd p = rd' p" "SLASH \<notin> set h" "rs_ethosDir r \<noteq> []"
  shows "fromEthos ym rd r h = fromEthos ym rd' r h"
  unfolding fromEthos_def assms(1) [OF handle_files(1) [OF assms(2,3)]] assms(1) [OF handle_files(2) [OF assms(2,3)]] ..

lemma fixed_files: "identity_file r (Clean (repo_config r))" "identity_file r (Clean (active_path r))"
    "identity_file r (Clean (default_path r))"
  by (simp_all add: identity_file_def)

text \<open>
  Whatever handle is asked for, and whatever the configuration names, the outcome depends on no other file: two
  file systems that agree on those give the same identity or the same error.
\<close>

theorem identity_reads_confined:
  assumes "\<forall>p. identity_file r p \<longrightarrow> rd p = rd' p" "rs_ethosDir r \<noteq> []"
  shows "ResolveHandle ym rd r h = ResolveHandle ym rd' r h \<and> Resolve ym rd r = Resolve ym rd' r"
proof
  have eq: "identity_file r p \<Longrightarrow> rd p = rd' p" for p using assms(1) by blast
  have fe: "fromEthos ym rd r k = fromEthos ym rd' r k" if "ValidateHandle k = Inr u" for k u
    by (rule fromEthos_cong [OF eq ValidateHandle_ok [OF that] assms(2)])
  show "ResolveHandle ym rd r h = ResolveHandle ym rd' r h"
    using fe [of h] by (cases "ValidateHandle h") (simp_all add: ResolveHandle_def)
  have g: "global_handle rd r = global_handle rd' r" using eq [OF fixed_files(2)] by (simp add: global_handle_def)
  have "resolveHandle ym rd r = resolveHandle ym rd' r"
    unfolding resolveHandle_def readRepoEthosConfig_def g eq [OF fixed_files(1)] ..
  moreover have "fromDefault rd r = fromDefault rd' r" using eq [OF fixed_files(3)] by (simp add: fromDefault_def)
  moreover have "and_then (ValidateHandle k) (\<lambda>_. case fromEthos ym rd r k of Inl e \<Rightarrow> Inl (ActiveIdentity k e) | Inr i \<Rightarrow> Inr i)
      = and_then (ValidateHandle k) (\<lambda>_. case fromEthos ym rd' r k of Inl e \<Rightarrow> Inl (ActiveIdentity k e) | Inr i \<Rightarrow> Inr i)" for k
    using fe [of k] by (cases "ValidateHandle k") simp_all
  ultimately show "Resolve ym rd r = Resolve ym rd' r" unfolding Resolve_def by (cases "resolveHandle ym rd' r") simp_all
qed

subsection \<open>What a resolved identity is\<close>

text \<open>An email that may name a directory.\<close>

lemma ValidateEmail_ok:
  "ValidateEmailAsPath e = Inr u \<longleftrightarrow> e \<noteq> [] \<and> SLASH \<notin> set e \<and> BACKSLASH \<notin> set e \<and> \<not> Contains e dotdot"
  by (auto simp: ValidateEmailAsPath_def ContainsAny_def list_ex_iff Contains_def)

lemma email_plain:
  assumes "ValidateEmailAsPath e = Inr u" "e \<noteq> dot"
  shows "plain_name e"
  using assms unfolding ValidateEmail_ok by (auto simp: plain_name_def Contains_def)

lemma fromEthos_Inr:
  "fromEthos ym rd r h = Inr i \<longleftrightarrow>
     (\<exists>data eid key. rd (Clean (identity_path r h)) = Inr data \<and> ym_identity ym data = Inr eid
        \<and> ValidateEmailAsPath (ei_Email eid) = Inr ()
        \<and> (case rd (Clean (extension_path r h)) of Inr ext \<Rightarrow> ym_extension ym ext = Inr key | Inl e \<Rightarrow> e = ErrNotExist \<and> key = [])
        \<and> i = \<lparr>id_Handle = h, id_Name = ei_Name eid, id_Email = ei_Email eid, id_GPGKeyID = key, id_Source = ''ethos''\<rparr>)"
    (is "?L \<longleftrightarrow> ?R")
proof -
  have u: "ValidateEmailAsPath [] \<noteq> Inr ()" by (simp add: ValidateEmailAsPath_def)
  show ?thesis
  proof (cases "rd (Clean (identity_path r h))")
    case (Inr data)
    show ?thesis
    proof (cases "ym_identity ym data")
      case eid: (Inr eid)
      show ?thesis
      proof (cases "ValidateEmailAsPath (ei_Email eid)")
        case (Inr v)
        with u have "ei_Email eid \<noteq> []" by auto
        with \<open>rd _ = Inr data\<close> eid Inr show ?thesis
          by (auto simp: fromEthos_def Let_def split: sum.splits os_error.splits)
      qed (use \<open>rd _ = Inr data\<close> eid in \<open>auto simp: fromEthos_def\<close>)
    qed (use Inr in \<open>auto simp: fromEthos_def\<close>)
  qed (auto simp: fromEthos_def)
qed

text \<open>The handle in force: the repository's, else the global one.\<close>

definition repo_handle :: "yaml_lib \<Rightarrow> reader \<Rightarrow> Resolver \<Rightarrow> string" where
  "repo_handle ym rd r =
     (if rs_repoDir r = [] then []
      else case rd (Clean (repo_config r)) of
             Inl _ \<Rightarrow> []
           | Inr data \<Rightarrow> (case ym_repo ym data of Inl _ \<Rightarrow> [] | Inr cfg \<Rightarrow> rc_Agent cfg))"

definition ethos_handle :: "yaml_lib \<Rightarrow> reader \<Rightarrow> Resolver \<Rightarrow> string" where
  "ethos_handle ym rd r =
     (if repo_handle ym rd r \<noteq> [] then repo_handle ym rd r
      else case rd (Clean (active_path r)) of Inl _ \<Rightarrow> [] | Inr data \<Rightarrow> TrimSpace data)"

definition repo_config_broken :: "yaml_lib \<Rightarrow> reader \<Rightarrow> Resolver \<Rightarrow> bool" where
  "repo_config_broken ym rd r \<longleftrightarrow>
     rs_repoDir r \<noteq> [] \<and>
     (case rd (Clean (repo_config r)) of
        Inl e \<Rightarrow> e \<noteq> ErrNotExist
      | Inr data \<Rightarrow>
          (case ym_repo ym data of
             Inl _ \<Rightarrow> True
           | Inr cfg \<Rightarrow> rc_Agent cfg = [] \<and> rc_Active cfg \<noteq> []))"

definition active_broken :: "reader \<Rightarrow> Resolver \<Rightarrow> bool" where
  "active_broken rd r \<longleftrightarrow> (\<exists>m. rd (Clean (active_path r)) = Inl (OsError m))"

lemma global_handle_Inr:
  "global_handle rd r = Inr h \<longleftrightarrow>
     \<not> active_broken rd r \<and> h = (case rd (Clean (active_path r)) of Inl _ \<Rightarrow> [] | Inr data \<Rightarrow> TrimSpace data)"
  by (auto simp: global_handle_def active_broken_def split: sum.splits os_error.splits)

lemma resolveHandle_Inr:
  "resolveHandle ym rd r = Inr h \<longleftrightarrow>
     \<not> repo_config_broken ym rd r \<and> (repo_handle ym rd r = [] \<longrightarrow> \<not> active_broken rd r) \<and> h = ethos_handle ym rd r"
proof (cases "rs_repoDir r = []")
  case True
  then show ?thesis
    by (auto simp: resolveHandle_def repo_config_broken_def repo_handle_def ethos_handle_def global_handle_Inr)
next
  case False
  show ?thesis
  proof (cases "rd (Clean (repo_config r))")
    case (Inl e)
    with False show ?thesis
      by (cases e) (auto simp: resolveHandle_def readRepoEthosConfig_def repo_config_broken_def repo_handle_def
          ethos_handle_def global_handle_Inr)
  next
    case (Inr data)
    with False show ?thesis
      by (cases "ym_repo ym data")
        (auto simp: resolveHandle_def readRepoEthosConfig_def repo_config_broken_def repo_handle_def
          ethos_handle_def global_handle_Inr)
  qed
qed

text \<open>
  C28. Resolution fails closed: an identity is the one of the handle in force, read in full from its own files, and the
  default identity is used only when neither ethos file names a handle. A configuration that is there but broken
  never gives an identity, and the email is the name of an entry of the identities directory, or ".".
\<close>

theorem Resolve_sound:
  assumes "Resolve ym rd r = Inr i"
  shows "\<not> repo_config_broken ym rd r
    \<and> (if ethos_handle ym rd r \<noteq> []
       then id_Handle i = ethos_handle ym rd r \<and> ResolveHandle ym rd r (id_Handle i) = Inr i \<and> id_Source i = ''ethos''
       else (\<exists>data. rd (Clean (default_path r)) = Inr data \<and> id_Email i = TrimSpace data) \<and> \<not> active_broken rd r
         \<and> id_Handle i = [] \<and> id_GPGKeyID i = [] \<and> id_Source i = ''default'')
    \<and> (id_Email i = dot \<or> plain_name (id_Email i))"
proof -
  obtain h where h: "resolveHandle ym rd r = Inr h" using assms by (auto simp: Resolve_def split: sum.splits)
  note hh = h [unfolded resolveHandle_Inr]
  show ?thesis
  proof (cases "h = []")
    case True
    then have d: "fromDefault rd r = Inr i" using assms h by (auto simp: Resolve_def split: sum.splits)
    then obtain data where data: "rd (Clean (default_path r)) = Inr data" "ValidateEmailAsPath (TrimSpace data) = Inr ()"
      "i = \<lparr>id_Handle = [], id_Name = [], id_Email = TrimSpace data, id_GPGKeyID = [], id_Source = ''default''\<rparr>"
      by (auto simp: fromDefault_def Let_def split: sum.splits if_splits)
    have "repo_handle ym rd r = []" using hh True by (auto simp: ethos_handle_def split: if_splits)
    with hh True data email_plain [OF data(2)] show ?thesis by auto
  next
    case False
    then have v: "ValidateHandle h = Inr ()" and f: "fromEthos ym rd r h = Inr i"
      using assms h by (auto simp: Resolve_def and_then_Inr_iff split: sum.splits)
    from f [unfolded fromEthos_Inr] have "ValidateEmailAsPath (id_Email i) = Inr ()" "id_Handle i = h" "id_Source i = ''ethos''"
      by auto
    with hh False v f email_plain show ?thesis by (auto simp: ResolveHandle_def)
  qed
qed

definition sample_rs :: Resolver where
  "sample_rs = \<lparr>rs_ethosDir = ''/h/ethos'', rs_beadleDir = ''/h/beadle'', rs_repoDir = ''/w''\<rparr>"

definition sample_rd :: reader where
  "sample_rd p =
     (if p = ''/w/.punt-labs/ethos.yaml'' then Inr ''agent: claude''
      else if p = ''/h/ethos/identities/claude.yaml'' then Inr ''email: c@x''
      else Inl ErrNotExist)"

definition sample_ym :: yaml_lib where
  "sample_ym = \<lparr>ym_identity = (\<lambda>_. Inr \<lparr>ei_Handle = ''claude'', ei_Name = ''C'', ei_Email = ''c@x''\<rparr>),
     ym_extension = (\<lambda>_. Inl ''none''), ym_repo = (\<lambda>_. Inr \<lparr>rc_Agent = ''claude'', rc_Active = []\<rparr>)\<rparr>"

definition sample_id :: identity where
  "sample_id = \<lparr>id_Handle = ''claude'', id_Name = ''C'', id_Email = ''c@x'', id_GPGKeyID = [], id_Source = ''ethos''\<rparr>"

lemma sample_resolve: "Resolve sample_ym sample_rd sample_rs = Inr sample_id"
  by code_simp

theorem identity_reads_confined_witness:
  "Resolve sample_ym (sample_rd(''/etc/passwd'' := Inr ''x'')) sample_rs = Inr sample_id"
proof -
  have e: "path_comps (rs_ethosDir sample_rs) = [''h'', ''ethos'']" by code_simp
  have p: "path_comps ''/etc/passwd'' = [''etc'', ''passwd'']" by code_simp
  have f: "Clean (repo_config sample_rs) = ''/w/.punt-labs/ethos.yaml''" "Clean (active_path sample_rs) = ''/h/ethos/active''"
    "Clean (default_path sample_rs) = ''/h/beadle/default-identity''" by code_simp+
  have "\<not> identity_file sample_rs ''/etc/passwd''" by (simp add: identity_file_def e p f)
  then have "\<forall>q. identity_file sample_rs q \<longrightarrow> sample_rd q = (sample_rd(''/etc/passwd'' := Inr ''x'')) q" by auto
  moreover have "rs_ethosDir sample_rs \<noteq> []" by (simp add: sample_rs_def)
  ultimately have "Resolve sample_ym sample_rd sample_rs = Resolve sample_ym (sample_rd(''/etc/passwd'' := Inr ''x'')) sample_rs"
    by (rule conjunct2 [OF identity_reads_confined])
  with sample_resolve show ?thesis by (simp only:)
qed

theorem Resolve_sound_witness: "id_Source sample_id = ''ethos'' \<and> plain_name (id_Email sample_id)"
proof -
  have h: "ethos_handle sample_ym sample_rd sample_rs = ''claude''" by code_simp
  have d: "id_Email sample_id \<noteq> dot" by (simp add: sample_id_def)
  from Resolve_sound [OF sample_resolve] h d show ?thesis by simp
qed

subsection \<open>The identity directory\<close>

type_synonym file_map = "string \<Rightarrow> string option"

text \<open>What the system calls of one copy do; \<open>ci_copy\<close> gives the bytes written before a failed copy.\<close>

record copy_io =
  ci_stat :: bool
  ci_open :: bool
  ci_fstat :: bool
  ci_create :: bool
  ci_copy :: "nat option"
  ci_close :: bool
  ci_remove :: bool

datatype migrate_error = MigrateNoEmail | MigrateMkdir | CopyOpen | CopyStat | CopyCreate | CopyWrite | CopyClose

definition drop_copy :: "copy_io \<Rightarrow> string \<Rightarrow> string \<Rightarrow> file_map \<Rightarrow> file_map" where
  "drop_copy io dst left fs = (if ci_remove io then fs(dst := None) else fs(dst \<mapsto> left))"

definition copyFileIfNeeded ::
    "copy_io \<Rightarrow> string \<Rightarrow> string \<Rightarrow> file_map \<Rightarrow> (migrate_error, unit) result \<times> file_map" where
  "copyFileIfNeeded io src dst fs =
     (if fs dst \<noteq> None \<and> ci_stat io then (Inr (), fs)
      else if \<not> ci_open io then (Inl CopyOpen, fs)
      else case fs src of
             None \<Rightarrow> (Inr (), fs)
           | Some data \<Rightarrow>
               if \<not> ci_fstat io then (Inl CopyStat, fs)
               else if \<not> ci_create io \<or> fs dst \<noteq> None then (Inl CopyCreate, fs)
               else (case ci_copy io of
                       Some n \<Rightarrow> (Inl CopyWrite, drop_copy io dst (take n data) fs)
                     | None \<Rightarrow>
                         if \<not> ci_close io then (Inl CopyClose, drop_copy io dst data fs)
                         else (Inr (), fs(dst \<mapsto> data))))"

fun migrate_loop ::
    "(string \<Rightarrow> copy_io) \<Rightarrow> string \<Rightarrow> string \<Rightarrow> string list \<Rightarrow> file_map \<Rightarrow> (migrate_error, unit) result \<times> file_map" where
  "migrate_loop io beadleDir idDir [] fs = (Inr (), fs)"
| "migrate_loop io beadleDir idDir (name # names) fs =
     (case copyFileIfNeeded (io name) (JoinPath [beadleDir, name]) (JoinPath [idDir, name]) fs of
        (Inl e, fs') \<Rightarrow> (Inl e, fs')
      | (Inr _, fs') \<Rightarrow> migrate_loop io beadleDir idDir names fs')"

definition filesToMigrate :: "string list" where
  "filesToMigrate = [''email.json'', ''contacts.json'']"

definition EnsureIdentityDir ::
    "(string \<Rightarrow> copy_io) \<Rightarrow> bool \<Rightarrow> string \<Rightarrow> string \<Rightarrow> file_map \<Rightarrow> (migrate_error, string) result \<times> file_map" where
  "EnsureIdentityDir io mkdir beadleDir email fs =
     (if email = [] then (Inl MigrateNoEmail, fs)
      else let idDir = JoinPath [beadleDir, ''identities'', email] in
        if \<not> mkdir then (Inl MigrateMkdir, fs)
        else case migrate_loop io beadleDir idDir filesToMigrate fs of
               (Inl e, fs') \<Rightarrow> (Inl e, fs')
             | (Inr _, fs') \<Rightarrow> (Inr idDir, fs'))"

lemma copy_keeps: "copyFileIfNeeded io src dst fs = (res, fs') \<Longrightarrow> fs p \<noteq> None \<Longrightarrow> fs' p = fs p"
  by (auto simp: copyFileIfNeeded_def drop_copy_def split: if_splits option.splits)

lemma copy_ok:
  assumes "copyFileIfNeeded io src dst fs = (Inr u, fs')"
  shows "fs' = (if fs dst = None then fs(dst := fs src) else fs)"
proof -
  have "fs(dst := None) = fs" if "fs dst = None" using that by auto
  with assms show ?thesis by (auto simp: copyFileIfNeeded_def split: if_splits option.splits)
qed

lemma copy_fault_free:
  "copyFileIfNeeded \<lparr>ci_stat = True, ci_open = True, ci_fstat = True, ci_create = True, ci_copy = None, ci_close = True,
      ci_remove = rm\<rparr> src dst fs = (Inr (), if fs dst = None then fs(dst := fs src) else fs)"
proof -
  have "fs(dst := None) = fs" if "fs dst = None" using that by auto
  then show ?thesis by (auto simp: copyFileIfNeeded_def split: option.splits)
qed

lemma copy_failed:
  "copyFileIfNeeded io src dst fs = (Inl e, fs') \<Longrightarrow> ci_remove io \<Longrightarrow> fs' = fs"
  by (auto simp: copyFileIfNeeded_def drop_copy_def split: if_splits option.splits)

lemma migrate_keeps: "migrate_loop io b d names fs = (res, fs') \<Longrightarrow> fs p \<noteq> None \<Longrightarrow> fs' p = fs p"
proof (induction names arbitrary: fs)
  case (Cons n names)
  obtain r fs1 where c: "copyFileIfNeeded (io n) (JoinPath [b, n]) (JoinPath [d, n]) fs = (r, fs1)" by fastforce
  with Cons copy_keeps [OF c] show ?case by (cases r) auto
qed simp

lemma last_name:
  assumes "plain_name n" "plain_name m" "b \<noteq> []" "d \<noteq> []" "JoinPath [b, n] = JoinPath [d, m]"
  shows "n = m"
  using comps_JoinPath(1) [of "[n]" b] comps_JoinPath(1) [of "[m]" d] assms by simp

definition missing_copied :: "string \<Rightarrow> string \<Rightarrow> string \<Rightarrow> file_map \<Rightarrow> file_map" where
  "missing_copied b d n fs =
     (if fs (JoinPath [d, n]) = None then fs(JoinPath [d, n] := fs (JoinPath [b, n])) else fs)"

text \<open>
  The migration never alters or removes a file that exists, the identity's or the root's. When it succeeds, exactly
  the missing identity files have appeared, as copies of the root files. When it fails and a torn copy could be
  removed, every file it has made is a complete copy.
\<close>

theorem EnsureIdentityDir_migrates:
  assumes "EnsureIdentityDir io mkdir b email fs = (res, fs')" "b \<noteq> []" "d = JoinPath [b, ''identities'', email]"
  shows "(\<forall>p x. fs p = Some x \<longrightarrow> fs' p = Some x)
    \<and> (case res of
         Inr d' \<Rightarrow> d' = d \<and> fs' = missing_copied b d ''contacts.json'' (missing_copied b d ''email.json'' fs)
       | Inl _ \<Rightarrow> (\<forall>n. ci_remove (io n)) \<longrightarrow> fs' = fs \<or> fs' = missing_copied b d ''email.json'' fs)"
proof -
  let ?l = "migrate_loop io b d filesToMigrate fs"
  obtain r1 fs1 where c1: "copyFileIfNeeded (io ''email.json'') (JoinPath [b, ''email.json'']) (JoinPath [d, ''email.json'']) fs = (r1, fs1)"
    by fastforce
  obtain r2 fs2 where c2: "copyFileIfNeeded (io ''contacts.json'') (JoinPath [b, ''contacts.json'']) (JoinPath [d, ''contacts.json'']) fs1 = (r2, fs2)"
    by fastforce
  have keep: "fs p = Some x \<Longrightarrow> fs' p = Some x" for p x
    using assms(1) migrate_keeps [of io b d filesToMigrate fs] unfolding EnsureIdentityDir_def assms(3) [symmetric] Let_def
    by (cases ?l; cases "fst ?l") (auto split: if_splits)
  consider (early) e where "res = Inl e" "fs' = fs"
    | (first) e where "r1 = Inl e" "res = Inl e" "fs' = fs1"
    | (second) u e where "r1 = Inr u" "r2 = Inl e" "res = Inl e" "fs' = fs2"
    | (both) u v where "r1 = Inr u" "r2 = Inr v" "res = Inr d" "fs' = fs2"
    using assms(1) c1 c2 unfolding EnsureIdentityDir_def assms(3) [symmetric] Let_def filesToMigrate_def
    by (cases r1; cases r2) (auto split: if_splits)
  then show ?thesis
  proof cases
    case early
    with keep show ?thesis by simp
  next
    case first
    with c1 copy_failed [of "io ''email.json''"] keep show ?thesis by auto
  next
    case second
    with c1 have "fs1 = missing_copied b d ''email.json'' fs" by (auto simp: missing_copied_def dest: copy_ok)
    with second c2 copy_failed [of "io ''contacts.json''"] keep show ?thesis by auto
  next
    case both
    with c1 have f1: "fs1 = missing_copied b d ''email.json'' fs" by (auto simp: missing_copied_def dest: copy_ok)
    from both c2 have "fs2 = missing_copied b d ''contacts.json'' fs1" by (auto simp: missing_copied_def dest: copy_ok)
    with both f1 keep show ?thesis by simp
  qed
qed

text \<open>Running it again changes nothing, whatever the second run meets.\<close>

lemma EnsureIdentityDir_idempotent:
  assumes "EnsureIdentityDir io mkdir b email fs = (Inr d, fs1)" "b \<noteq> []"
    "EnsureIdentityDir io' mkdir' b email fs1 = (res, fs2)" "\<forall>n. ci_remove (io' n)"
  shows "fs2 = fs1"
proof -
  let ?d = "JoinPath [b, ''identities'', email]"
  have d: "?d \<noteq> []"
  proof -
    have "[b, ''identities'', email] \<noteq> []" "Join [b, ''identities'', email] [SLASH] \<noteq> []" using assms(2) by auto
    then show ?thesis using assms(2) Clean_render render_nonempty [OF path_comps_stack]
      by (simp add: JoinPath_def Clean_def)
  qed
  have ne: "JoinPath [b, ''contacts.json''] \<noteq> JoinPath [?d, ''email.json'']" "JoinPath [b, ''email.json''] \<noteq> JoinPath [?d, ''contacts.json'']"
      "JoinPath [?d, ''email.json''] \<noteq> JoinPath [?d, ''contacts.json'']"
    using last_name [of "''contacts.json''" "''email.json''" b ?d] last_name [of "''email.json''" "''contacts.json''" b ?d]
      last_name [of "''email.json''" "''contacts.json''" ?d ?d] d assms(2) by auto
  have a: "fs1 = missing_copied b ?d ''contacts.json'' (missing_copied b ?d ''email.json'' fs)"
    using EnsureIdentityDir_migrates [OF assms(1,2) refl] by simp
  have e: "missing_copied b ?d ''email.json'' fs1 = fs1" "missing_copied b ?d ''contacts.json'' fs1 = fs1"
    using ne unfolding a by (auto simp: missing_copied_def fun_eq_iff)
  from EnsureIdentityDir_migrates [OF assms(3,2) refl] assms(4) show ?thesis
    by (cases res) (auto simp: e)
qed

theorem EnsureIdentityDir_migrates_witness:
  "\<exists>fs'. EnsureIdentityDir (\<lambda>_. \<lparr>ci_stat = True, ci_open = True, ci_fstat = True, ci_create = True, ci_copy = None,
      ci_close = True, ci_remove = True\<rparr>) True ''b'' ''c@x'' [''b/email.json'' \<mapsto> ''{}''] = (Inr ''b/identities/c@x'', fs')
    \<and> fs' ''b/identities/c@x/email.json'' = Some ''{}''"
proof -
  let ?io = "\<lambda>_ :: string. \<lparr>ci_stat = True, ci_open = True, ci_fstat = True, ci_create = True, ci_copy = None,
      ci_close = True, ci_remove = True\<rparr>"
  let ?r = "EnsureIdentityDir ?io True ''b'' ''c@x'' [''b/email.json'' \<mapsto> ''{}'']"
  have d: "JoinPath [''b'', ''identities'', ''c@x''] = ''b/identities/c@x''"
    "JoinPath [''b/identities/c@x'', ''email.json''] = ''b/identities/c@x/email.json''"
    "JoinPath [''b/identities/c@x'', ''contacts.json''] = ''b/identities/c@x/contacts.json''"
    "JoinPath [''b'', ''email.json''] = ''b/email.json''" by code_simp+
  obtain fs' where r: "?r = (Inr ''b/identities/c@x'', fs')"
    by (simp add: EnsureIdentityDir_def d filesToMigrate_def copy_fault_free)
  have "fs' ''b/identities/c@x/email.json'' = Some ''{}''"
    using EnsureIdentityDir_migrates [OF r _ refl] by (simp add: d missing_copied_def)
  with r show ?thesis by blast
qed

end
