(* ===== verification/Secret.thy ===== *)
theory Secret
  imports Identity "HOL-Library.Word"
begin

section \<open>Credentials\<close>

text \<open>
  Models \<open>internal/secret/secret.go\<close>, \<open>keychain_linux.go\<close>, and the code that asks for a
  credential: the password methods of \<open>internal/email/config.go\<close> and the daemon's API key
  (\<open>cmd/beadle-daemon/main.go\<close>). The two subprocesses, the file and the environment are a record
  of what they answer for each name.
\<close>

unbundle bit_operations_syntax

datatype keychain_error = PassNotInstalled | PassFailed string | ToolNotInstalled | ToolFailed string | NoKeychainBackend

text \<open>A subprocess: not on the path, a failed run, or its standard output.\<close>

datatype subprocess = NotInstalled | RunFails string | Output string

record secret_world =
  sw_pass :: "string \<Rightarrow> subprocess"
  sw_tool :: "string \<Rightarrow> subprocess"
  sw_dir :: "(os_error, string) result"
  sw_stat :: "string \<Rightarrow> (os_error, 32 word) result"
  sw_read :: reader
  sw_env :: "string \<Rightarrow> string"

definition realPassGet :: "secret_world \<Rightarrow> string \<Rightarrow> (keychain_error, string) result" where
  "realPassGet w name =
     (case sw_pass w (''beadle/'' @ name) of
        NotInstalled \<Rightarrow> Inl PassNotInstalled
      | RunFails e \<Rightarrow> Inl (PassFailed e)
      | Output out \<Rightarrow> Inr (TrimSpace out))"

definition realSecretToolGet :: "secret_world \<Rightarrow> string \<Rightarrow> (keychain_error, string) result" where
  "realSecretToolGet w name =
     (case sw_tool w name of
        NotInstalled \<Rightarrow> Inl ToolNotInstalled
      | RunFails e \<Rightarrow> Inl (ToolFailed e)
      | Output out \<Rightarrow> Inr (TrimSpace out))"

definition keychainGet :: "secret_world \<Rightarrow> string \<Rightarrow> (keychain_error, string) result" where
  "keychainGet w name =
     (let r1 = realPassGet w name in
      case r1 of
        Inr (c # v) \<Rightarrow> Inr (c # v)
      | _ \<Rightarrow>
          let lastErr = (case r1 of Inl e \<Rightarrow> Some e | Inr _ \<Rightarrow> None);
              r2 = realSecretToolGet w name in
          (case r2 of
             Inr (c # v) \<Rightarrow> Inr (c # v)
           | _ \<Rightarrow>
               (case (case r2 of Inl e \<Rightarrow> Some e | Inr _ \<Rightarrow> lastErr) of
                  None \<Rightarrow> Inl NoKeychainBackend
                | Some e \<Rightarrow> Inl e)))"

datatype file_error = SecretsDir os_error | SecretStat os_error | UnsafePermissions "32 word" | SecretRead os_error

fun file_not_exist :: "file_error \<Rightarrow> bool" where
  "file_not_exist (SecretsDir e) = (e = ErrNotExist)"
| "file_not_exist (SecretStat e) = (e = ErrNotExist)"
| "file_not_exist (UnsafePermissions m) = False"
| "file_not_exist (SecretRead e) = (e = ErrNotExist)"

definition fileGet :: "secret_world \<Rightarrow> string \<Rightarrow> (file_error, string) result" where
  "fileGet w name =
     (case sw_dir w of
        Inl e \<Rightarrow> Inl (SecretsDir e)
      | Inr dir \<Rightarrow>
          let path = JoinPath [dir, name] in
          (case sw_stat w path of
             Inl e \<Rightarrow> Inl (SecretStat e)
           | Inr mode \<Rightarrow>
               if mode AND 0x3F \<noteq> 0 then Inl (UnsafePermissions (mode AND 0x1FF))
               else (case sw_read w (Clean path) of
                       Inl e \<Rightarrow> Inl (SecretRead e)
                     | Inr data \<Rightarrow> Inr (TrimSpace data))))"

datatype get_error = CredentialSeparator string | CredentialRead file_error | CredentialNotFound "keychain_error option"

text \<open>\<open>strings.ToUpper\<close> on the bytes of a credential name, which are ASCII, and the hyphens as underscores.\<close>

definition upper_char :: "char \<Rightarrow> char" where
  "upper_char c = (if 97 \<le> byte c \<and> byte c \<le> 122 then char_of (byte c - 32) else c)"

definition env_key :: "string \<Rightarrow> string" where
  "env_key name = ''BEADLE_'' @ map (\<lambda>c. if c = CHR ''-'' then CHR ''_'' else upper_char c) name"

definition Get :: "secret_world \<Rightarrow> string \<Rightarrow> (get_error, string) result" where
  "Get w name =
     (if ContainsAny name [SLASH, BACKSLASH] then Inl (CredentialSeparator name)
      else let keychain = keychainGet w name in
        (case keychain of
           Inr (c # v) \<Rightarrow> Inr (c # v)
         | _ \<Rightarrow>
            let file = fileGet w name;
                env = sw_env w (env_key name);
                missing = (if env \<noteq> [] then Inr env
                  else Inl (CredentialNotFound (case keychain of Inl e \<Rightarrow> Some e | Inr _ \<Rightarrow> None))) in
            (case file of
               Inr (c # v) \<Rightarrow> Inr (c # v)
             | Inr [] \<Rightarrow> missing
             | Inl e \<Rightarrow> if \<not> file_not_exist e then Inl (CredentialRead e) else missing)))"

text \<open>\<open>errors.Is(err, secret.ErrNotFound)\<close>.\<close>

fun not_found :: "get_error \<Rightarrow> bool" where
  "not_found (CredentialNotFound k) = True"
| "not_found _ = False"

subsection \<open>Who asks\<close>

definition IMAPPassword :: "secret_world \<Rightarrow> string \<Rightarrow> (get_error, string) result" where
  "IMAPPassword w testPassword = (if testPassword \<noteq> [] then Inr testPassword else Get w ''imap-password'')"

definition SMTPPassword :: "secret_world \<Rightarrow> string \<Rightarrow> (get_error, string) result" where
  "SMTPPassword w testPassword =
     (if testPassword \<noteq> [] then Inr testPassword
      else case Get w ''smtp-password'' of
             Inr pw \<Rightarrow> Inr pw
           | Inl e \<Rightarrow> if not_found e then IMAPPassword w testPassword else Inl e)"

definition ResendAPIKey :: "secret_world \<Rightarrow> (get_error, string) result" where
  "ResendAPIKey w = Get w ''resend-api-key''"

definition GPGPassphrase :: "secret_world \<Rightarrow> (get_error, string) result" where
  "GPGPassphrase w = Get w ''gpg-passphrase''"

text \<open>The key a daemon starts its workers with; "" means it spawns none.\<close>

definition daemon_api_key :: "secret_world \<Rightarrow> string" where
  "daemon_api_key w =
     (case Get w ''anthropic-api-key'' of
        Inr key \<Rightarrow> key
      | Inl e \<Rightarrow> if not_found e then sw_env w ''ANTHROPIC_API_KEY'' else [])"

subsection \<open>The chain\<close>

text \<open>What each backend offers, "" for nothing, in the order they are asked.\<close>

definition offer :: "('e, string) result \<Rightarrow> string" where
  "offer r = (case r of Inl _ \<Rightarrow> [] | Inr v \<Rightarrow> v)"

definition offers :: "secret_world \<Rightarrow> string \<Rightarrow> string list" where
  "offers w name =
     [offer (realPassGet w name), offer (realSecretToolGet w name), offer (fileGet w name), sw_env w (env_key name)]"

definition file_broken :: "secret_world \<Rightarrow> string \<Rightarrow> bool" where
  "file_broken w name \<longleftrightarrow> (\<exists>e. fileGet w name = Inl e \<and> \<not> file_not_exist e)"

lemma keychain_offer:
  "offer (keychainGet w name) =
     (if offer (realPassGet w name) \<noteq> [] then offer (realPassGet w name) else offer (realSecretToolGet w name))"
  by (auto simp: keychainGet_def offer_def Let_def split: sum.splits list.splits option.splits)

lemma Get_offer:
  "Get w name = Inr v \<longleftrightarrow>
     \<not> ContainsAny name [SLASH, BACKSLASH] \<and> v \<noteq> []
     \<and> (let k = offer (keychainGet w name) in
        if k \<noteq> [] then v = k
        else \<not> file_broken w name
          \<and> (if offer (fileGet w name) \<noteq> [] then v = offer (fileGet w name) else v = sw_env w (env_key name)))"
proof (cases "keychainGet w name")
  case (Inl e)
  then show ?thesis
    by (cases "fileGet w name") (auto simp: Get_def offer_def Let_def file_broken_def split: list.splits)
next
  case (Inr k)
  then show ?thesis
    by (cases k; cases "fileGet w name") (auto simp: Get_def offer_def Let_def file_broken_def split: list.splits)
qed

text \<open>
  A credential is the first one offered: by pass, by secret-tool, by the file, by the environment. The file cuts
  the chain: when it is there but unsafe or unreadable, nothing behind it is used.
\<close>

theorem Get_first_offer:
  "Get w name = Inr v \<longleftrightarrow>
     \<not> ContainsAny name [SLASH, BACKSLASH]
     \<and> List.find (\<lambda>x. x \<noteq> []) (if file_broken w name then take 2 (offers w name) else offers w name) = Some v"
proof -
  have "file_broken w name \<Longrightarrow> offer (fileGet w name) = []" by (auto simp: file_broken_def offer_def)
  then show ?thesis
    unfolding Get_offer keychain_offer offers_def by (auto simp: Let_def numeral_2_eq_2)
qed

text \<open>
  A credential file that others may read, or that cannot be read, is never worked around: the mail password does
  not fall back to another one, and the daemon spawns no worker.
\<close>

theorem broken_file_fails_closed:
  assumes "file_broken w name" "offer (realPassGet w name) = []" "offer (realSecretToolGet w name) = []"
  shows "\<exists>e. Get w name = Inl e \<and> \<not> not_found e
    \<and> (name = ''smtp-password'' \<longrightarrow> SMTPPassword w [] = Inl e)
    \<and> (name = ''anthropic-api-key'' \<longrightarrow> daemon_api_key w = [])"
proof -
  obtain fe where fe: "fileGet w name = Inl fe" "\<not> file_not_exist fe" using assms(1) by (auto simp: file_broken_def)
  have k: "offer (keychainGet w name) = []" using assms(2,3) by (simp add: keychain_offer)
  have "Get w name = Inl (CredentialSeparator name) \<or> Get w name = Inl (CredentialRead fe)"
    using k fe by (cases "keychainGet w name") (auto simp: Get_def Let_def offer_def)
  then show ?thesis by (auto simp: SMTPPassword_def daemon_api_key_def)
qed

definition sample_secrets :: secret_world where
  "sample_secrets = \<lparr>sw_pass = (\<lambda>_. NotInstalled), sw_tool = (\<lambda>_. RunFails ''locked''), sw_dir = Inr ''/s'',
     sw_stat = (\<lambda>p. if p = ''/s/smtp-password'' then Inr 0x1A4 else Inl ErrNotExist),
     sw_read = (\<lambda>_. Inr ''hunter2''), sw_env = (\<lambda>_. ''from env'')\<rparr>"

theorem broken_file_fails_closed_witness:
  "\<exists>e. SMTPPassword sample_secrets [] = Inl e \<and> \<not> not_found e"
proof -
  have "fileGet sample_secrets ''smtp-password'' = Inl (UnsafePermissions 0x1A4)" by code_simp
  then have "file_broken sample_secrets ''smtp-password''" by (simp add: file_broken_def)
  moreover have "offer (realPassGet sample_secrets ''smtp-password'') = []"
    "offer (realSecretToolGet sample_secrets ''smtp-password'') = []" by code_simp+
  ultimately show ?thesis using broken_file_fails_closed by blast
qed

end
