(* ===== verification/MailConfig.thy ===== *)
theory MailConfig
  imports Secret Poller Contacts
begin

section \<open>The configuration of the mail channel\<close>

text \<open>
  Models the files of \<open>internal/email/config.go\<close> and \<open>resolve.go\<close>, the poller's \<open>loadConfig\<close> and the
  \<open>set_poll_interval\<close> tool. The JSON library is a parameter: what it decodes a file to as a
  \<open>Config\<close>, as an object of raw values, and how it writes an object.
\<close>

subsection \<open>Loading\<close>

record mail_config =
  mc_IMAPHost :: string
  mc_IMAPPort :: int
  mc_IMAPUser :: string
  mc_SMTPHost :: string
  mc_SMTPPort :: int
  mc_SMTPUser :: string
  mc_FromAddress :: string
  mc_GPGBinary :: string
  mc_GPGSigner :: string
  mc_PollInterval :: string
  mc_TLSSkipVerify :: bool
  mc_TestPassword :: string

text \<open>A JSON object as a map; \<open>null\<close> leaves a nil map, which is \<open>None\<close>.\<close>

record 'v json_lib =
  js_config :: "string \<Rightarrow> (string, mail_config) result"
  js_object :: "string \<Rightarrow> (string, (string \<rightharpoonup> 'v) option) result"
  js_string :: "string \<Rightarrow> 'v"
  js_marshal :: "(string \<rightharpoonup> 'v) option \<Rightarrow> (string, string) result"

datatype config_error =
    ConfigRead string os_error
  | ConfigParse string string
  | IdentityPath string
  | IdentityConfig config_error
  | DefaultConfig config_error
  | NoResolver
  | ResolveFailed id_error
  | NoDataDir string

fun config_not_exist :: "config_error \<Rightarrow> bool" where
  "config_not_exist (ConfigRead p e) = (e = ErrNotExist)"
| "config_not_exist (IdentityConfig e) = config_not_exist e"
| "config_not_exist (DefaultConfig e) = config_not_exist e"
| "config_not_exist (ResolveFailed e) = wraps_not_exist e"
| "config_not_exist _ = False"

definition or_default :: "string \<Rightarrow> string \<Rightarrow> string" where
  "or_default s d = (if s = [] then d else s)"

definition with_defaults :: "mail_config \<Rightarrow> mail_config" where
  "with_defaults c =
     (let c1 = c\<lparr>mc_IMAPHost := or_default (mc_IMAPHost c) ''127.0.0.1''\<rparr>;
          c2 = c1\<lparr>mc_IMAPPort := if mc_IMAPPort c1 = 0 then 1143 else mc_IMAPPort c1\<rparr>;
          c3 = c2\<lparr>mc_SMTPHost := or_default (mc_SMTPHost c2) (mc_IMAPHost c2)\<rparr>;
          c4 = c3\<lparr>mc_SMTPPort := if mc_SMTPPort c3 = 0 then 1025 else mc_SMTPPort c3\<rparr>;
          c5 = c4\<lparr>mc_SMTPUser := or_default (mc_SMTPUser c4) (mc_IMAPUser c4)\<rparr>
      in c5\<lparr>mc_GPGBinary := or_default (mc_GPGBinary c5) ''gpg''\<rparr>)"

definition LoadConfig :: "'v json_lib \<Rightarrow> reader \<Rightarrow> string \<Rightarrow> (config_error, mail_config) result" where
  "LoadConfig js rd path =
     (case rd (Clean path) of
        Inl e \<Rightarrow> Inl (ConfigRead path e)
      | Inr data \<Rightarrow>
          (case js_config js data of
             Inl e \<Rightarrow> Inl (ConfigParse path e)
           | Inr c \<Rightarrow> Inr (with_defaults c)))"

text \<open>The result and the path it is from.\<close>

definition LoadIdentityConfig ::
    "'v json_lib \<Rightarrow> reader \<Rightarrow> (string, string) result \<Rightarrow> identity option \<Rightarrow> string
       \<Rightarrow> (config_error, mail_config) result \<times> string" where
  "LoadIdentityConfig js rd home i fallback =
     (let dflt = (LoadConfig js rd fallback, fallback) in
      case i of
        None \<Rightarrow> dflt
      | Some i \<Rightarrow>
          if id_Email i = [] then dflt
          else case IdentityConfigPath home (id_Email i) of
                 Inl e \<Rightarrow> (Inl (IdentityPath e), [])
               | Inr path \<Rightarrow>
                   (case LoadConfig js rd path of
                      Inr c \<Rightarrow> (Inr c, path)
                    | Inl e \<Rightarrow> if \<not> config_not_exist e then (Inl (IdentityConfig e), path) else dflt))"

definition SMTPEffectiveHost :: "mail_config \<Rightarrow> string" where
  "SMTPEffectiveHost c = or_default (mc_SMTPHost c) (mc_IMAPHost c)"

definition SMTPEffectiveUser :: "mail_config \<Rightarrow> string" where
  "SMTPEffectiveUser c = or_default (mc_SMTPUser c) (mc_IMAPUser c)"

text \<open>What the poller loads: the resolver's identity, the fallback in the data directory.\<close>

definition loadConfig ::
    "'v json_lib \<Rightarrow> reader \<Rightarrow> (string, string) result \<Rightarrow> (id_error, identity) result option
       \<Rightarrow> (config_error, mail_config) result" where
  "loadConfig js rd home resolver =
     (case resolver of
        None \<Rightarrow> Inl NoResolver
      | Some (Inl e) \<Rightarrow> Inl (ResolveFailed e)
      | Some (Inr i) \<Rightarrow>
          (case DataDir home of
             Inl e \<Rightarrow> Inl (NoDataDir e)
           | Inr dataDir \<Rightarrow>
               let fallback = JoinPath [dataDir, ''email.json''] in
               (case LoadIdentityConfig js rd home (Some i) fallback of
                  (Inr c, used) \<Rightarrow> Inr c
                | (Inl e, used) \<Rightarrow> if used = fallback then Inl (DefaultConfig e) else Inl e)))"

lemma defaults_effective:
  "SMTPEffectiveHost (with_defaults c) = mc_SMTPHost (with_defaults c)"
  "SMTPEffectiveUser (with_defaults c) = mc_SMTPUser (with_defaults c)"
  by (auto simp: SMTPEffectiveHost_def SMTPEffectiveUser_def with_defaults_def or_default_def Let_def)

lemma identity_config_cases:
  assumes "IdentityConfigPath home (id_Email i) = Inr path" "id_Email i \<noteq> []"
  shows "LoadIdentityConfig js rd home (Some i) fallback =
    (if rd (Clean path) = Inl ErrNotExist then (LoadConfig js rd fallback, fallback)
     else ((case LoadConfig js rd path of Inr c \<Rightarrow> Inr c | Inl e \<Rightarrow> Inl (IdentityConfig e)), path))"
proof -
  have "config_not_exist e \<longleftrightarrow> rd (Clean path) = Inl ErrNotExist" if "LoadConfig js rd path = Inl e" for e
    using that by (auto simp: LoadConfig_def split: sum.splits)
  moreover have "rd (Clean path) = Inl ErrNotExist \<Longrightarrow> LoadConfig js rd path = Inl (ConfigRead path ErrNotExist)"
    by (simp add: LoadConfig_def)
  ultimately show ?thesis
    using assms by (cases "LoadConfig js rd path") (auto simp: LoadIdentityConfig_def Let_def)
qed

text \<open>
  The identity's own file decides whenever it exists: a configuration comes from it, or, only when it is absent or
  there is no identity, from the fallback. An identity file that is there but unreadable or malformed is an error
  under its own path, whatever the fallback holds.
\<close>

theorem LoadIdentityConfig_fails_closed:
  assumes "IdentityConfigPath home (id_Email i) = Inr path" "id_Email i \<noteq> []"
  shows "LoadIdentityConfig js rd home (Some i) fallback =
    (if rd (Clean path) = Inl ErrNotExist then (LoadConfig js rd fallback, fallback)
     else ((case LoadConfig js rd path of Inr c \<Rightarrow> Inr c | Inl e \<Rightarrow> Inl (IdentityConfig e)), path))"
  by (rule identity_config_cases [OF assms])

definition sample_json :: "string json_lib" where
  "sample_json = \<lparr>js_config = (\<lambda>d. if d = ''bad'' then Inl ''syntax'' else Inr \<lparr>mc_IMAPHost = [], mc_IMAPPort = 0, mc_IMAPUser = ''u'',
       mc_SMTPHost = [], mc_SMTPPort = 0, mc_SMTPUser = [], mc_FromAddress = [], mc_GPGBinary = [], mc_GPGSigner = [],
       mc_PollInterval = d, mc_TLSSkipVerify = False, mc_TestPassword = []\<rparr>),
     js_object = (\<lambda>_. Inr (Some (\<lambda>_. None))), js_string = (\<lambda>s. s),
     js_marshal = (\<lambda>m. Inr (case m of None \<Rightarrow> ''null'' | Some m \<Rightarrow> (case m ''poll_interval'' of None \<Rightarrow> [] | Some v \<Rightarrow> v)))\<rparr>"

theorem LoadIdentityConfig_fails_closed_witness:
  "\<exists>e path. LoadIdentityConfig sample_json (\<lambda>p. if HasSuffix p ''c@x/email.json'' then Inr ''bad'' else Inr ''{}'')
     (Inr ''/h'') (Some sample_id) ''/h/email.json'' = (Inl (IdentityConfig e), path)"
proof -
  let ?rd = "(\<lambda>p. if HasSuffix p ''c@x/email.json'' then Inr ''bad'' else Inr ''{}'') :: reader"
  define path where "path = projr (IdentityConfigPath (Inr ''/h'') (id_Email sample_id))"
  have p: "IdentityConfigPath (Inr ''/h'') (id_Email sample_id) = Inr path" unfolding path_def by code_simp
  have rd: "?rd (Clean path) = Inr ''bad''" unfolding path_def by code_simp
  then have n: "?rd (Clean path) \<noteq> Inl ErrNotExist" by (simp only: sum.distinct not_False_eq_True)
  have "js_config sample_json ''bad'' = Inl ''syntax''" by (simp add: sample_json_def)
  with rd have l: "LoadConfig sample_json ?rd path = Inl (ConfigParse path ''syntax'')" by (simp only: LoadConfig_def sum.case)
  have e: "id_Email sample_id \<noteq> []" by (simp add: sample_id_def)
  show ?thesis unfolding LoadIdentityConfig_fails_closed [OF p e] l if_not_P [OF n] sum.case by blast
qed

subsection \<open>Names and addresses\<close>

text \<open>\<open>load\<close> is what \<open>contacts.Store.Load\<close> answers; no store is needed when every token is an address.\<close>

definition needs_contacts :: "string \<Rightarrow> bool" where
  "needs_contacts raw \<longleftrightarrow>
     list_ex (\<lambda>tok. let t = TrimSpace tok in t \<noteq> [] \<and> \<not> Contains t ''@'') (Split raw (CHR '',''))"

definition LoadContactsIfNeeded :: "('e, Contact list) result \<Rightarrow> string list \<Rightarrow> ('e, Contact list option) result" where
  "LoadContactsIfNeeded load fs =
     (if list_ex needs_contacts fs then and_then load (\<lambda>s. Inr (Some s)) else Inr None)"

datatype 'e resolve_error = ContactsUnavailable 'e | Unresolved contact_error

definition ResolveField ::
    "(nat \<Rightarrow> nat) \<Rightarrow> ('e, Contact list option) result \<Rightarrow> string \<Rightarrow> ('e resolve_error, string) result" where
  "ResolveField ulow loaded raw =
     (if raw = [] then Inr []
      else case loaded of
             Inl e \<Rightarrow> Inl (ContactsUnavailable e)
           | Inr None \<Rightarrow> Inr raw
           | Inr (Some store) \<Rightarrow> (case ResolveAddresses ulow store raw of Inl e \<Rightarrow> Inl (Unresolved e) | Inr as \<Rightarrow> Inr as))"

text \<open>A broken contacts file never stops a message whose recipients are all addresses.\<close>

lemma raw_addresses_need_no_contacts:
  assumes "\<forall>raw \<in> set fs. \<not> needs_contacts raw" "raw \<in> set fs"
  shows "ResolveField ulow (LoadContactsIfNeeded load fs) raw = Inr raw"
  using assms by (auto simp: ResolveField_def LoadContactsIfNeeded_def list_ex_iff)

subsection \<open>Saving\<close>

record save_io =
  sc_read :: "string option"
  sc_mkdir :: bool
  sc_create :: "string option"
  sc_write :: "nat option"
  sc_chmod :: bool
  sc_close :: bool
  sc_rename :: bool
  sc_remove :: bool

datatype save_error =
    SaveCorrupt string
  | SaveRead string
  | SavePanics
  | SaveMarshal string
  | SaveMkdir
  | SaveCreate
  | SaveWrite
  | SaveChmod
  | SaveClose
  | SaveRename

definition interval_set :: "string \<Rightarrow> bool" where
  "interval_set interval \<longleftrightarrow> interval \<noteq> [] \<and> interval \<noteq> ''n''"

definition set_interval :: "'v json_lib \<Rightarrow> string \<Rightarrow> (string \<rightharpoonup> 'v) \<Rightarrow> (string \<rightharpoonup> 'v)" where
  "set_interval js interval obj =
     (if interval_set interval then obj(''poll_interval'' \<mapsto> js_string js interval) else obj(''poll_interval'' := None))"

text \<open>An assignment to a nil map panics, a deletion from it does nothing. The temp file's name is what \<open>os.CreateTemp\<close> answers; the deferred removal runs on every return.\<close>

definition SaveConfig ::
    "'v json_lib \<Rightarrow> save_io \<Rightarrow> string \<Rightarrow> mail_config \<Rightarrow> file_map \<Rightarrow> (save_error, unit) result \<times> file_map" where
  "SaveConfig js io path cfg fs =
     (case (case sc_read io of
              Some e \<Rightarrow> Inl (SaveRead e)
            | None \<Rightarrow>
                (case fs (Clean path) of
                   None \<Rightarrow> Inr (Some (\<lambda>_. None))
                 | Some data \<Rightarrow> (case js_object js data of Inl e \<Rightarrow> Inl (SaveCorrupt e) | Inr obj \<Rightarrow> Inr obj))) of
        Inl e \<Rightarrow> (Inl e, fs)
      | Inr obj \<Rightarrow>
          if obj = None \<and> interval_set (mc_PollInterval cfg) then (Inl SavePanics, fs)
          else (case js_marshal js (map_option (set_interval js (mc_PollInterval cfg)) obj) of
             Inl e \<Rightarrow> (Inl (SaveMarshal e), fs)
           | Inr out0 \<Rightarrow>
               let out = out0 @ [NL] in
               if \<not> sc_mkdir io then (Inl SaveMkdir, fs)
               else (case sc_create io of
                 None \<Rightarrow> (Inl SaveCreate, fs)
               | Some tmp \<Rightarrow>
                   let remove = (\<lambda>g :: file_map. if sc_remove io then g(tmp := None) else g) in
                   (case sc_write io of
                      Some n \<Rightarrow> (Inl SaveWrite, remove (fs(tmp \<mapsto> take n out)))
                    | None \<Rightarrow>
                        let fs1 = fs(tmp \<mapsto> out) in
                        if \<not> sc_chmod io then (Inl SaveChmod, remove fs1)
                        else if \<not> sc_close io then (Inl SaveClose, remove fs1)
                        else if \<not> sc_rename io then (Inl SaveRename, remove fs1)
                        else (Inr (), remove (fs1(tmp := None, path \<mapsto> out)))))))"

lemma SaveConfig_Inl:
  "SaveConfig js io path cfg fs = (Inl e, fs') \<Longrightarrow> (\<forall>tmp. sc_create io = Some tmp \<longrightarrow> fs tmp = None) \<Longrightarrow>
     sc_remove io \<Longrightarrow> fs' = fs"
  by (auto simp: SaveConfig_def Let_def fun_upd_idem split: sum.splits option.splits if_splits)

text \<open>A save over a file that exists.\<close>

lemma SaveConfig_Inr:
  assumes "SaveConfig js io path cfg fs = (Inr u, fs')" "\<forall>tmp. sc_create io = Some tmp \<longrightarrow> fs tmp = None"
    "fs path = Some data" "Clean path = path"
  obtains obj out where "js_object js data = Inr obj"
    "js_marshal js (map_option (set_interval js (mc_PollInterval cfg)) obj) = Inr out" "fs' = fs(path \<mapsto> out @ [NL])"
proof -
  have t: "fs(path \<mapsto> x, tmp := None) = fs(path \<mapsto> x)" "fs(tmp := None, path \<mapsto> x) = fs(path \<mapsto> x)"
    if "sc_create io = Some tmp" for tmp x
    using assms(2,3) that by (auto simp: fun_eq_iff)
  from assms(1) show ?thesis
    unfolding SaveConfig_def Let_def by (auto simp: t assms(3,4) split: sum.splits option.splits if_splits intro: that)
qed

subsection \<open>The set_poll_interval tool\<close>

datatype tool_error =
    BadInterval string
  | ToolResolve id_error
  | ToolDataDir string
  | ToolLoad config_error
  | ToolSave save_error
  | ToolSet poll_error

text \<open>On success, the calls the poller is asked to perform.\<close>

definition setPollInterval ::
    "'v json_lib \<Rightarrow> save_io \<Rightarrow> reader \<Rightarrow> (string, string) result \<Rightarrow> (id_error, identity) result \<Rightarrow> string
       \<Rightarrow> file_map \<Rightarrow> (tool_error, action list) result \<times> file_map" where
  "setPollInterval js io rd home resolved interval fs =
     (if \<not> ValidPollInterval interval then (Inl (BadInterval interval), fs)
      else case resolved of
        Inl e \<Rightarrow> (Inl (ToolResolve e), fs)
      | Inr i \<Rightarrow>
          (case DataDir home of
             Inl e \<Rightarrow> (Inl (ToolDataDir e), fs)
           | Inr dataDir \<Rightarrow>
               (case LoadIdentityConfig js rd home (Some i) (JoinPath [dataDir, ''email.json'']) of
                  (Inl e, used) \<Rightarrow> (Inl (ToolLoad e), fs)
                | (Inr cfg, configPath) \<Rightarrow>
                    (case SaveConfig js io configPath (cfg\<lparr>mc_PollInterval := interval\<rparr>) fs of
                       (Inl e, fs') \<Rightarrow> (Inl (ToolSave e), fs')
                     | (Inr _, fs') \<Rightarrow>
                         (case SetInterval interval of
                            Inl e \<Rightarrow> (Inl (ToolSet e), fs')
                          | Inr calls \<Rightarrow> (Inr calls, fs'))))))"

text \<open>Reading a file system that refuses nothing.\<close>

definition reader_of :: "file_map \<Rightarrow> reader" where
  "reader_of fs p = (case fs p of None \<Rightarrow> Inl ErrNotExist | Some data \<Rightarrow> Inr data)"

lemma Clean_JoinPath: "d \<noteq> [] \<Longrightarrow> Clean (JoinPath (d # ds)) = JoinPath (d # ds)"
  by (simp add: JoinPath_def Clean_idem)

lemma JoinPath_nonempty: "d \<noteq> [] \<Longrightarrow> JoinPath (d # ds) \<noteq> []"
proof -
  assume "d \<noteq> []"
  then have "Join (d # ds) [SLASH] \<noteq> []" by (cases ds) auto
  then show ?thesis using \<open>d \<noteq> []\<close> render_nonempty [OF path_comps_stack] by (simp add: JoinPath_def Clean_def Let_def)
qed

lemma DataDir_nonempty: "DataDir home = Inr d \<Longrightarrow> d \<noteq> []"
proof -
  assume "DataDir home = Inr d"
  then obtain h where d: "d = JoinPath [h, ''.punt-labs'', ''beadle'']" by (auto simp: DataDir_def and_then_Inr_iff)
  show ?thesis
  proof (cases "h = []")
    case True
    then have "d = JoinPath [''.punt-labs'', ''beadle'']" using d by (simp add: JoinPath_def)
    then show ?thesis using JoinPath_nonempty by simp
  qed (use d JoinPath_nonempty in simp)
qed

lemma IdentityConfigPath_clean: "IdentityConfigPath home e = Inr p \<Longrightarrow> Clean p = p"
  using DataDir_nonempty by (auto simp: IdentityConfigPath_def IdentityDir_def and_then_Inr_iff intro!: Clean_JoinPath JoinPath_nonempty)

text \<open>Loading from where a configuration was found, after that file alone has been replaced.\<close>

lemma load_after_write:
  assumes "LoadIdentityConfig js (reader_of fs) home (Some i) fallback = (Inr c, path)" "Clean fallback = fallback"
  shows "Clean path = path" "\<exists>data. fs path = Some data"
    "js_config js x = Inr c' \<Longrightarrow>
       LoadIdentityConfig js (reader_of (fs(path \<mapsto> x))) home (Some i) fallback = (Inr (with_defaults c'), path)"
proof -
  have loaded: "\<exists>data. fs p = Some data" if "LoadConfig js (reader_of fs) p = Inr c" "Clean p = p" for p
    using that by (auto simp: LoadConfig_def reader_of_def split: sum.splits option.splits)
  have new: "LoadConfig js (reader_of (fs(p \<mapsto> x))) p = Inr (with_defaults c')" if "js_config js x = Inr c'" "Clean p = p" for p
    using that by (simp add: LoadConfig_def reader_of_def)
  have "Clean path = path \<and> (\<exists>data. fs path = Some data) \<and> (js_config js x = Inr c' \<longrightarrow>
       LoadIdentityConfig js (reader_of (fs(path \<mapsto> x))) home (Some i) fallback = (Inr (with_defaults c'), path))"
  proof (cases "id_Email i = []")
    case True
    then show ?thesis using assms loaded new by (auto simp: LoadIdentityConfig_def)
  next
    case False
    then obtain ip where ip: "IdentityConfigPath home (id_Email i) = Inr ip"
      using assms(1) by (cases "IdentityConfigPath home (id_Email i)") (auto simp: LoadIdentityConfig_def Let_def)
    note cp = IdentityConfigPath_clean [OF ip]
    note eq = identity_config_cases [OF ip False, of js]
    show ?thesis
    proof (cases "fs ip")
      case None
      then have "path = fallback" "LoadConfig js (reader_of fs) fallback = Inr c"
        using assms(1) eq [of "reader_of fs"] cp by (auto simp: reader_of_def)
      moreover have "ip \<noteq> fallback" using None loaded [OF calculation(2) assms(2)] by auto
      ultimately show ?thesis
        using None assms(2) cp loaded new eq by (auto simp: reader_of_def)
    next
      case (Some d)
      then have "path = ip" "LoadConfig js (reader_of fs) ip = Inr c"
        using assms(1) eq [of "reader_of fs"] cp by (auto simp: reader_of_def split: sum.splits)
      then show ?thesis using Some cp new eq by (auto simp: reader_of_def)
    qed
  qed
  then show "Clean path = path" "\<exists>data. fs path = Some data"
    "js_config js x = Inr c' \<Longrightarrow>
       LoadIdentityConfig js (reader_of (fs(path \<mapsto> x))) home (Some i) fallback = (Inr (with_defaults c'), path)" by auto
qed

text \<open>
  The tool applies an interval only after it is on disk, in the file the poller's next start will read, and changes
  nothing in that file but the one key. When it reports an error no file has changed.
\<close>

theorem setPollInterval_persists:
  assumes "setPollInterval js io (reader_of fs) home resolved interval fs = (res, fs')"
    and "\<forall>tmp. sc_create io = Some tmp \<longrightarrow> fs tmp = None" "sc_remove io"
  shows "case res of
      Inl _ \<Rightarrow> fs' = fs
    | Inr calls \<Rightarrow> SetInterval interval = Inr calls \<and>
       (\<exists>path data obj out. fs path = Some data \<and> js_object js data = Inr obj
          \<and> js_marshal js (map_option (set_interval js interval) obj) = Inr out \<and> fs' = fs(path \<mapsto> out @ [NL])
          \<and> (\<forall>c. js_config js (out @ [NL]) = Inr c \<longrightarrow>
               loadConfig js (reader_of fs') home (Some resolved) = Inr (with_defaults c)))"
proof -
  have set_ok: "\<exists>calls. SetInterval interval = Inr calls" if "ValidPollInterval interval"
    using that by (simp add: SetInterval_def)
  show ?thesis
  proof (cases "\<exists>i dataDir cfg path. ValidPollInterval interval \<and> resolved = Inr i \<and> DataDir home = Inr dataDir
      \<and> LoadIdentityConfig js (reader_of fs) home (Some i) (JoinPath [dataDir, ''email.json'']) = (Inr cfg, path)")
    case False
    then have "fs' = fs \<and> (\<exists>e. res = Inl e)"
      using assms(1) by (auto simp: setPollInterval_def split: if_splits sum.splits prod.splits)
    then show ?thesis by auto
  next
    case True
    then obtain i dataDir cfg path where v: "ValidPollInterval interval" "resolved = Inr i" "DataDir home = Inr dataDir"
      and l: "LoadIdentityConfig js (reader_of fs) home (Some i) (JoinPath [dataDir, ''email.json'']) = (Inr cfg, path)" by blast
    have fb: "Clean (JoinPath [dataDir, ''email.json'']) = JoinPath [dataDir, ''email.json'']"
      by (rule Clean_JoinPath [OF DataDir_nonempty [OF v(3)]])
    note w = load_after_write [OF l fb]
    obtain data where data: "fs path = Some data" using w(2) by blast
    obtain r fs1 where save: "SaveConfig js io path (cfg\<lparr>mc_PollInterval := interval\<rparr>) fs = (r, fs1)" by fastforce
    obtain calls where calls: "SetInterval interval = Inr calls" using set_ok [OF v(1)] by blast
    show ?thesis
    proof (cases r)
      case (Inl e)
      then have "res = Inl (ToolSave e)" "fs' = fs1"
        using assms(1) v l save by (simp_all add: setPollInterval_def)
      with SaveConfig_Inl [OF save [unfolded Inl] assms(2,3)] show ?thesis by simp
    next
      case (Inr u)
      then have r: "res = Inr calls" "fs' = fs1" using assms(1) v l save calls by (simp_all add: setPollInterval_def)
      from SaveConfig_Inr [OF save [unfolded Inr] assms(2) data w(1)] obtain obj out
        where o: "js_object js data = Inr obj" "js_marshal js (map_option (set_interval js interval) obj) = Inr out"
          "fs1 = fs(path \<mapsto> out @ [NL])" by auto
      have "loadConfig js (reader_of fs') home (Some resolved) = Inr (with_defaults c)" if "js_config js (out @ [NL]) = Inr c" for c
        using w(3) [OF that] v o(3) r(2) by (simp add: loadConfig_def Let_def)
      with r calls data o show ?thesis by auto
    qed
  qed
qed

theorem setPollInterval_persists_witness:
  "\<exists>calls fs'. setPollInterval sample_json \<lparr>sc_read = None, sc_mkdir = True, sc_create = Some ''/t'', sc_write = None, sc_chmod = True,
       sc_close = True, sc_rename = True, sc_remove = True\<rparr> (reader_of [''/h/.punt-labs/beadle/email.json'' \<mapsto> ''{}'']) (Inr ''/h'')
       (Inr sample_id) ''5m'' [''/h/.punt-labs/beadle/email.json'' \<mapsto> ''{}''] = (Inr calls, fs')
     \<and> SetInterval ''5m'' = Inr calls \<and> (\<exists>path. fs' = [''/h/.punt-labs/beadle/email.json'' \<mapsto> ''{}''](path \<mapsto> ''5m'' @ [NL]))"
proof -
  let ?fs = "[''/h/.punt-labs/beadle/email.json'' \<mapsto> ''{}''] :: file_map"
  let ?io = "\<lparr>sc_read = None, sc_mkdir = True, sc_create = Some ''/t'', sc_write = None, sc_chmod = True,
       sc_close = True, sc_rename = True, sc_remove = True\<rparr>"
  let ?r = "setPollInterval sample_json ?io (reader_of ?fs) (Inr ''/h'') (Inr sample_id) ''5m'' ?fs"
  have ok: "is_ok (fst ?r)" by code_simp
  obtain calls fs' where r: "?r = (Inr calls, fs')" using ok by (metis is_ok_iff prod.collapse)
  have h: "\<forall>tmp. sc_create ?io = Some tmp \<longrightarrow> ?fs tmp = None" "sc_remove ?io" by simp_all
  have m: "js_marshal sample_json (map_option (set_interval sample_json ''5m'') (Some (\<lambda>_. None))) = Inr ''5m''"
    "js_object sample_json d = Inr (Some (\<lambda>_. None))" for d
    by (simp_all add: sample_json_def set_interval_def interval_set_def)
  from setPollInterval_persists [OF r h] obtain path data obj out where "SetInterval ''5m'' = Inr calls"
    "js_object sample_json data = Inr obj" "js_marshal sample_json (map_option (set_interval sample_json ''5m'') obj) = Inr out"
    "fs' = ?fs(path \<mapsto> out @ [NL])" unfolding sum.case by blast
  with m have "SetInterval ''5m'' = Inr calls \<and> (\<exists>path. fs' = ?fs(path \<mapsto> ''5m'' @ [NL]))" by fastforce
  with r show ?thesis by blast
qed

end
