(* ===== verification/GoSplit.thy ===== *)
theory GoSplit
  imports GoStrings
begin

section \<open>Splitting on a string, and trimming, for the mail formats\<close>

text \<open>
  \<open>bytes.Split\<close> on a separator of more than one byte, with the one fact the MIME code rests on: a
  delimiter of two hyphens and a boundary without hyphens splits exactly where it was written. And
  that a trimmed text followed by a line end trims to itself. It maps to no file of the repository.
\<close>

abbreviation CRLF :: string where "CRLF \<equiv> [CR, NL]"

lemma Index_bound: "Index s t = Some i \<Longrightarrow> i + length t \<le> length s"
proof (induction s arbitrary: i)
  case (Cons c cs)
  show ?case
  proof (cases "HasPrefix (c # cs) t")
    case True
    then obtain r where r: "c # cs = t @ r" by (auto simp: HasPrefix_iff)
    have "length t \<le> length (c # cs)" unfolding r by simp
    then show ?thesis using Cons.prems True by simp
  qed (use Cons in auto)
qed (auto split: if_splits)

function SplitStr :: "string \<Rightarrow> string \<Rightarrow> string list" where
  "SplitStr s sep =
     (case Index s sep of
        None \<Rightarrow> [s]
      | Some i \<Rightarrow> if sep = [] then [s] else take i s # SplitStr (drop (i + length sep) s) sep)"
  by pat_completeness auto
termination
proof (relation "measure (length \<circ> fst)")
  show "((drop (i + length sep) s, sep), s, sep) \<in> measure (length \<circ> fst)" if "Index s sep = Some i" "sep \<noteq> []" for s sep i
    using Index_bound [OF that(1)] that(2) by (cases sep) auto
qed simp

declare SplitStr.simps [simp del]

lemma SplitStr_none: "\<not> Contains s sep \<Longrightarrow> SplitStr s sep = [s]"
  by (simp add: SplitStr.simps Contains_def)

lemma SplitStr_at: "Index (a @ sep @ r) sep = Some (length a) \<Longrightarrow> sep \<noteq> [] \<Longrightarrow> SplitStr (a @ sep @ r) sep = a # SplitStr r sep"
  by (simp add: SplitStr.simps [of "a @ sep @ r"])

text \<open>A delimiter: its first two bytes are hyphens, the rest has none, so it overlaps no shift of itself.\<close>

definition delimiter :: "string \<Rightarrow> string" where
  "delimiter b = ''--'' @ b"

lemma delimiter_no_overlap:
  assumes "CHR ''-'' \<notin> set b" "b \<noteq> []" "HasPrefix (x @ delimiter b @ r) (delimiter b)" "\<not> Contains x (delimiter b)"
  shows "x = []"
proof (rule ccontr)
  assume "x \<noteq> []"
  obtain r' where e: "x @ delimiter b @ r = delimiter b @ r'" using assms(3) by (auto simp: HasPrefix_iff)
  show False
  proof (cases "length (delimiter b) \<le> length x")
    case True
    from e have "take (length (delimiter b)) x = delimiter b"
      using True by (metis append_eq_append_conv_if append_eq_conv_conj)
    then have "x = delimiter b @ drop (length (delimiter b)) x" by (metis append_take_drop_id)
    then show False using assms(4) unfolding Contains_iff_infix by (metis append_Nil)
  next
    case False
    let ?n = "length x"
    have n: "0 < ?n" "?n < length (delimiter b)" using False \<open>x \<noteq> []\<close> by auto
    have at: "delimiter b ! (?n + k) = delimiter b ! k" if "?n + k < length (delimiter b)" for k
    proof -
      have "(x @ delimiter b @ r) ! (?n + k) = (delimiter b @ r') ! (?n + k)" unfolding e ..
      then show ?thesis using that by (simp add: nth_append)
    qed
    have hy: "delimiter b ! k = CHR ''-'' \<longleftrightarrow> k < 2" if "k < length (delimiter b)" for k
    proof (cases "k < 2")
      case True
      then show ?thesis by (cases k) (auto simp: delimiter_def less_Suc_eq)
    next
      case False
      then have "delimiter b ! k = b ! (k - 2)" "k - 2 < length b" using that by (simp_all add: delimiter_def nth_Cons' numeral_2_eq_2)
      then show ?thesis using False assms(1) by (metis nth_mem)
    qed
    have "delimiter b \<noteq> []" by (simp add: delimiter_def)
    then have "delimiter b ! ?n = CHR ''-''" using at [of 0] hy [of 0] n by simp
    then have "?n < 2" using hy n by blast
    then have "?n = 1" using n by linarith
    moreover have "2 < length (delimiter b)" using assms(2) by (simp add: delimiter_def)
    ultimately have "delimiter b ! 2 = delimiter b ! 1" using at [of 1] by (simp add: numeral_2_eq_2)
    then show False using hy [of 1] hy [of 2] \<open>2 < length (delimiter b)\<close> by simp
  qed
qed

lemma Index_delimiter:
  assumes "CHR ''-'' \<notin> set b" "b \<noteq> []" "\<not> Contains a (delimiter b)"
  shows "Index (a @ delimiter b @ r) (delimiter b) = Some (length a)"
  using assms(3)
proof (induction a)
  case Nil
  have "HasPrefix (delimiter b @ r) (delimiter b)" by simp
  then show ?case by (cases "delimiter b @ r") (simp_all add: delimiter_def)
next
  case (Cons c a)
  have "\<not> HasPrefix ((c # a) @ delimiter b @ r) (delimiter b)"
    using delimiter_no_overlap [OF assms(1,2) _ Cons.prems] by blast
  moreover have "\<not> Contains a (delimiter b)" using Cons.prems by (simp add: Contains_Cons)
  ultimately show ?case using Cons.IH by simp
qed

lemma SplitStr_delimiter:
  assumes "CHR ''-'' \<notin> set b" "b \<noteq> []" "\<not> Contains a (delimiter b)"
  shows "SplitStr (a @ delimiter b @ r) (delimiter b) = a # SplitStr r (delimiter b)"
  using Index_delimiter [OF assms] by (intro SplitStr_at) (simp_all add: delimiter_def)

text \<open>Where a delimiter can come from in a concatenation: one of the parts, when a byte outside it lies between.\<close>

lemma Contains_between:
  assumes "x \<notin> set t"
  shows "Contains (a @ x # c) t \<longleftrightarrow> Contains a t \<or> Contains c t"
proof
  assume "Contains (a @ x # c) t"
  then obtain u v where e: "a @ x # c = u @ t @ v" by (auto simp: Contains_iff_infix)
  consider w where "a = u @ w" "w @ x # c = t @ v" | w where "u = a @ x # w" "c = w @ t @ v"
    | "u = a" "t = []"
    using e by (auto simp: append_eq_append_conv2 Cons_eq_append_conv)
  then show "Contains a t \<or> Contains c t"
  proof cases
    case 1
    from 1(2) assms obtain w' where "w = t @ w'" by (auto simp: append_eq_append_conv2 Cons_eq_append_conv)
    with 1 show ?thesis by (auto simp: Contains_iff_infix)
  qed (auto simp: Contains_iff_infix)
next
  assume "Contains a t \<or> Contains c t"
  then show "Contains (a @ x # c) t"
    unfolding Contains_iff_infix by (metis append.assoc append_Cons)
qed

subsection \<open>Trimming\<close>

lemma space_encodings_check:
  "list_all (\<lambda>e. (list_ex (\<lambda>c. c = CR \<or> c = NL) e \<longrightarrow> e = [CR] \<or> e = [NL]) \<and> e \<noteq> []) space_encodings"
  by code_simp

lemma space_encoding_cases:
  assumes "e \<in> set space_encodings"
  shows "CR \<in> set e \<or> NL \<in> set e \<Longrightarrow> e = [CR] \<or> e = [NL]" "e \<noteq> []"
  using space_encodings_check assms by (auto simp: list_all_iff list_ex_iff)

lemma space_encoding_line_ends: "[CR] \<in> set space_encodings" "[NL] \<in> set space_encodings"
  by (simp_all add: space_encodings_code)

lemma find_SomeD: "find P xs = Some e \<Longrightarrow> e \<in> set xs \<and> P e"
  by (induction xs) (auto split: if_splits)

lemma space_len_end_crlf:
  assumes "c = CR \<or> c = NL"
  shows "space_len_end (s @ [c]) = 1"
proof -
  obtain e where e: "find (HasSuffix (s @ [c])) space_encodings = Some e" "e \<in> set space_encodings" "HasSuffix (s @ [c]) e"
  proof (cases "find (HasSuffix (s @ [c])) space_encodings")
    case None
    moreover have "HasSuffix (s @ [c]) [c]" by simp
    ultimately show ?thesis using assms space_encoding_line_ends by (auto simp: find_None_iff)
  next
    case (Some e)
    with find_SomeD [OF Some] show ?thesis using that by blast
  qed
  from e(3) space_encoding_cases(2) [OF e(2)] have "c \<in> set e"
    by (auto simp: HasSuffix_iff) (metis append_is_Nil_conv last_appendR last_in_set last_snoc)
  with space_encoding_cases(1) [OF e(2)] assms have "length e = 1" by auto
  with e(1) show ?thesis by (simp add: space_len_end_def)
qed

lemma TrimRight_crlf: "TrimRightSpace (s @ CRLF) = TrimRightSpace s"
proof -
  have "TrimRightSpace ((s @ [CR]) @ [NL]) = TrimRightSpace (s @ [CR])"
    using space_len_end_crlf [of NL "s @ [CR]"] by (subst TrimRightSpace.simps) simp
  also have "\<dots> = TrimRightSpace s"
    using space_len_end_crlf [of CR s] by (subst TrimRightSpace.simps) simp
  finally show ?thesis by simp
qed

lemma TrimRight_idem: "space_len_end (TrimRightSpace s) = 0"
  by (induction s rule: TrimRightSpace.induct) (subst (1) TrimRightSpace.simps, simp)

lemma TrimRight_prefix: "\<exists>t. s = TrimRightSpace s @ t"
proof (induction s rule: TrimRightSpace.induct)
  case (1 s)
  show ?case
  proof (cases "space_len_end s = 0")
    case False
    let ?r = "take (length s - space_len_end s) s"
    obtain t where "?r = TrimRightSpace ?r @ t" using 1 False by blast
    then have "s = TrimRightSpace ?r @ t @ drop (length s - space_len_end s) s"
      by (metis append.assoc append_take_drop_id)
    moreover have "TrimRightSpace s = TrimRightSpace ?r" using False by (subst TrimRightSpace.simps) simp
    ultimately show ?thesis by auto
  qed (subst TrimRightSpace.simps, simp)
qed

lemma TrimLeft_idem: "space_len (TrimLeftSpace s) = 0"
  by (induction s rule: TrimLeftSpace.induct) (subst (1) TrimLeftSpace.simps, simp)

lemma space_len_pos: "space_len s = 0 \<longleftrightarrow> (\<forall>e \<in> set space_encodings. \<not> HasPrefix s e)"
proof (cases "find (HasPrefix s) space_encodings")
  case None
  then have "space_len s = 0" by (simp add: space_len_def)
  with None show ?thesis by (simp add: find_None_iff)
next
  case (Some e)
  with find_SomeD [OF Some] space_encoding_cases(2) [of e] show ?thesis by (auto simp: space_len_def)
qed

lemma space_len_TrimSpace: "space_len (TrimSpace s) = 0"
proof -
  obtain t where t: "TrimLeftSpace s = TrimSpace s @ t" using TrimRight_prefix unfolding TrimSpace_def by blast
  have "\<not> HasPrefix (TrimSpace s) e" if "e \<in> set space_encodings" for e
    using TrimLeft_idem [of s] that unfolding space_len_pos t by (metis HasPrefix_iff append.assoc)
  then show ?thesis by (simp add: space_len_pos)
qed

text \<open>A trimmed text keeps its start when a line end follows it.\<close>

lemma space_len_keep:
  assumes "space_len x = 0" "x \<noteq> []"
  shows "space_len (x @ CRLF) = 0"
  unfolding space_len_pos
proof
  fix e assume e: "e \<in> set space_encodings"
  show "\<not> HasPrefix (x @ CRLF) e"
  proof
    assume "HasPrefix (x @ CRLF) e"
    then obtain r where r: "x @ CRLF = e @ r" by (auto simp: HasPrefix_iff)
    have "\<not> HasPrefix x e" using assms(1) e by (simp add: space_len_pos)
    have longer: "length x < length e"
    proof (rule ccontr)
      assume "\<not> length x < length e"
      then have "take (length e) x = take (length e) (x @ CRLF)" by simp
      also have "\<dots> = e" unfolding r by simp
      finally show False using \<open>\<not> HasPrefix x e\<close> by (simp add: HasPrefix_def)
    qed
    have "e = take (length e) (x @ CRLF)" unfolding r by simp
    then have u: "e = x @ take (length e - length x) CRLF" using longer by simp
    have "CR \<in> set (take (length e - length x) CRLF)" using longer by (cases "length e - length x") simp_all
    then have "CR \<in> set e" by (subst u) simp
    then have "length e = 1" using space_encoding_cases(1) [OF e] by auto
    with longer assms(2) show False by (cases x) simp_all
  qed
qed

lemma TrimSpace_idem: "TrimSpace (TrimSpace s) = TrimSpace s"
proof -
  have "TrimLeftSpace (TrimSpace s) = TrimSpace s" by (subst TrimLeftSpace.simps) (simp add: space_len_TrimSpace)
  moreover have "TrimRightSpace (TrimSpace s) = TrimSpace s"
    by (subst TrimRightSpace.simps) (simp add: TrimSpace_def TrimRight_idem)
  ultimately show ?thesis by (simp add: TrimSpace_def [of "TrimSpace s"])
qed

lemma TrimSpace_crlf: "TrimSpace (TrimSpace s @ CRLF) = TrimSpace s"
proof (cases "TrimSpace s = []")
  case True
  have "TrimSpace CRLF = []" by code_simp
  with True show ?thesis by simp
next
  case False
  have "TrimLeftSpace (TrimSpace s @ CRLF) = TrimSpace s @ CRLF"
    using space_len_keep [OF space_len_TrimSpace False] by (subst TrimLeftSpace.simps) simp
  moreover have "TrimRightSpace (TrimSpace s) = TrimSpace s"
    by (subst TrimRightSpace.simps) (simp add: TrimSpace_def TrimRight_idem)
  ultimately show ?thesis by (simp add: TrimSpace_def [of "TrimSpace s @ CRLF"] TrimRight_crlf)
qed

end
