(* ===== verification/Pgp.thy ===== *)
theory Pgp
  imports GoSplit KeyExpiry Identity
begin

section \<open>Signing, verifying and decrypting messages (internal/pgp)\<close>

text \<open>
  Models \<open>internal/pgp/sign.go\<close>, \<open>verify.go\<close>, \<open>decrypt.go\<close>, \<open>encrypt.go\<close> and \<open>probe.go\<close>. The gpg
  processes, the system calls around them and the header parser of \<open>net/mail\<close> and \<open>mime\<close> are
  arguments; the bytes that are written and split are the code's.
\<close>

subsection \<open>Signing\<close>

text \<open>
  One detached signature: what listing the key answered and the time it was read at, the outcome of the passphrase
  file's system calls, and gpg's answer for the passphrase file and the data.
\<close>

record gpg_sign =
  gs_list :: "exec_outcome \<times> string"
  gs_now :: int
  gs_create :: "string option"
  gs_write :: bool
  gs_close :: bool
  gs_remove :: bool
  gs_run :: "string option \<Rightarrow> string \<Rightarrow> (string, string) result"

datatype sign_error =
    HeaderNewline
  | SigningKeyRejected expiry_error
  | SigningKeyUnchecked check_error
  | NoBoundaryBytes
  | PassphraseCreate
  | PassphraseWrite
  | PassphraseClose
  | DetachSignFailed string

definition checkSignerKeyExpiry :: "gpg_sign \<Rightarrow> (sign_error, unit) result" where
  "checkSignerKeyExpiry g =
     (case CheckKeyExpiry (fst (gs_list g)) (snd (gs_list g)) (gs_now g) of
        Inr _ \<Rightarrow> Inr ()
      | Inl (KeyExpiryFinding f) \<Rightarrow> Inl (SigningKeyRejected f)
      | Inl e \<Rightarrow> Inl (SigningKeyUnchecked e))"

definition drop_passphrase :: "gpg_sign \<Rightarrow> string \<Rightarrow> file_map \<Rightarrow> file_map" where
  "drop_passphrase g f fs = (if gs_remove g then fs(f := None) else fs)"

definition detachSign :: "gpg_sign \<Rightarrow> string \<Rightarrow> string \<Rightarrow> file_map \<Rightarrow> (sign_error, string) result \<times> file_map" where
  "detachSign g passphrase data fs =
     (case gs_create g of
        None \<Rightarrow> (Inl PassphraseCreate, fs)
      | Some f \<Rightarrow>
          if \<not> gs_write g then (Inl PassphraseWrite, drop_passphrase g f (fs(f \<mapsto> [])))
          else let fs1 = fs(f \<mapsto> passphrase) in
            if \<not> gs_close g then (Inl PassphraseClose, drop_passphrase g f fs1)
            else (case gs_run g (fs1 f) data of
                    Inl e \<Rightarrow> (Inl (DetachSignFailed e), drop_passphrase g f fs1)
                  | Inr sig \<Rightarrow> (Inr sig, drop_passphrase g f fs1)))"

definition DetachSignBody :: "gpg_sign \<Rightarrow> string \<Rightarrow> string \<Rightarrow> file_map \<Rightarrow> (sign_error, string) result \<times> file_map" where
  "DetachSignBody g passphrase data fs =
     (case checkSignerKeyExpiry g of
        Inl e \<Rightarrow> (Inl e, fs)
      | Inr _ \<Rightarrow> detachSign g passphrase data fs)"

text \<open>The random numbers below 62 that the boundary is built from, or a failure of the source.\<close>

definition boundary_chars :: string where
  "boundary_chars = ''abcdefghijklmnopqrstuvwxyzABCDEFGHIJKLMNOPQRSTUVWXYZ0123456789''"

definition RandomBoundary :: "nat list option \<Rightarrow> string option" where
  "RandomBoundary rnd = map_option (\<lambda>ns. ''Beadle'' @ map (\<lambda>n. boundary_chars ! n) ns) rnd"

text \<open>\<open>%q\<close> of a boundary, which has no character to escape.\<close>

definition quoted :: "string \<Rightarrow> string" where
  "quoted b = [QUOTE] @ b @ [QUOTE]"

definition text_part :: "string \<Rightarrow> string" where
  "text_part body =
     ''Content-Type: text/plain; charset=utf-8'' @ CRLF @ ''Content-Transfer-Encoding: 7bit'' @ CRLF @ CRLF @ body @ CRLF"

definition signed_type :: "string \<Rightarrow> string" where
  "signed_type b =
     ''Content-Type: multipart/signed; boundary='' @ quoted b @ ''; micalg=pgp-sha256; protocol='' @ quoted ''application/pgp-signature'' @ CRLF"

definition signature_headers :: string where
  "signature_headers =
     ''Content-Type: application/pgp-signature; name='' @ quoted ''signature.asc'' @ CRLF
     @ ''Content-Disposition: attachment; filename='' @ quoted ''signature.asc'' @ CRLF"

text \<open>What follows the blank line after the envelope's headers.\<close>

definition signed_body :: "string \<Rightarrow> string \<Rightarrow> string \<Rightarrow> string" where
  "signed_body b part sig =
     ''--'' @ b @ CRLF @ part @ CRLF @ ''--'' @ b @ CRLF @ signature_headers @ CRLF @ TrimSpace sig @ CRLF @ ''--'' @ b @ ''--'' @ CRLF"

record signed_message =
  sm_Raw :: string
  sm_Boundary :: string

definition has_crlf :: "string \<Rightarrow> bool" where
  "has_crlf s = ContainsAny s [CR, NL]"

definition Sign ::
    "gpg_sign \<Rightarrow> nat list option \<Rightarrow> string \<Rightarrow> string \<Rightarrow> string \<Rightarrow> string \<Rightarrow> string \<Rightarrow> file_map
       \<Rightarrow> (sign_error, signed_message) result \<times> file_map" where
  "Sign g rnd signer passphrase to subject body fs =
     (if list_ex has_crlf [signer, to, subject] then (Inl HeaderNewline, fs)
      else case checkSignerKeyExpiry g of
        Inl e \<Rightarrow> (Inl e, fs)
      | Inr _ \<Rightarrow>
          (case RandomBoundary rnd of
             None \<Rightarrow> (Inl NoBoundaryBytes, fs)
           | Some b \<Rightarrow>
               (case detachSign g passphrase (text_part body) fs of
                  (Inl e, fs') \<Rightarrow> (Inl e, fs')
                | (Inr sig, fs') \<Rightarrow>
                    (Inr \<lparr>sm_Raw = ''From: '' @ signer @ CRLF @ ''To: '' @ to @ CRLF @ ''Subject: '' @ subject @ CRLF
                        @ ''MIME-Version: 1.0'' @ CRLF @ signed_type b @ CRLF @ signed_body b (text_part body) sig,
                       sm_Boundary = b\<rparr>, fs'))))"

text \<open>The passphrase never stays on disk, whatever fails.\<close>

lemma detachSign_files:
  assumes "detachSign g passphrase data fs = (r, fs')" "gs_remove g" "\<forall>f. gs_create g = Some f \<longrightarrow> fs f = None"
  shows "fs' = fs"
  using assms by (auto simp: detachSign_def drop_passphrase_def Let_def fun_upd_idem split: option.splits if_splits sum.splits)

lemma DetachSignBody_files:
  assumes "DetachSignBody g passphrase data fs = (r, fs')" "gs_remove g" "\<forall>f. gs_create g = Some f \<longrightarrow> fs f = None"
  shows "fs' = fs"
  using assms detachSign_files [of g passphrase data fs r fs'] by (auto simp: DetachSignBody_def split: sum.splits)

subsection \<open>Verifying\<close>

datatype extract_error =
    ParseMessage string
  | SignatureOutsideSigned string
  | NotSigned string
  | NoBoundary
  | CannotSplit
  | NoSignaturePayload

text \<open>
  \<open>ctype\<close> is what \<open>mail.ReadMessage\<close> and \<open>mime.ParseMediaType\<close> make of the message: an error, or the media
  type of its Content-Type and the boundary parameter, "" when absent.
\<close>

type_synonym ctype = "string \<Rightarrow> (string, string \<times> string) result"

text \<open>The bytes after the first blank line of a part.\<close>

definition part_payload :: "string \<Rightarrow> string option" where
  "part_payload part =
     (case Index part (CRLF @ CRLF) of
        Some i \<Rightarrow> Some (TrimSpace (drop (i + 4) part))
      | None \<Rightarrow> (case Index part [NL, NL] of Some i \<Rightarrow> Some (TrimSpace (drop (i + 2) part)) | None \<Rightarrow> None))"

definition until_boundary :: "string \<Rightarrow> string \<Rightarrow> string" where
  "until_boundary delim s = (case Index s delim of None \<Rightarrow> s | Some i \<Rightarrow> TrimSpace (take i s))"

text \<open>\<open>bytes.TrimSpace\<close> of nothing but blanks is \<open>nil\<close>, which stands for no key.\<close>

definition pubkey_step :: "string \<Rightarrow> string option \<Rightarrow> string option" where
  "pubkey_step part key =
     (if Contains part ''application/pgp-keys'' then
        (case Index part (CRLF @ CRLF) of
           Some i \<Rightarrow> (let k = TrimSpace (drop (i + 4) part) in if k = [] then None else Some k)
         | None \<Rightarrow> key)
      else key)"

definition extractSignedParts :: "ctype \<Rightarrow> string \<Rightarrow> (extract_error, string \<times> string \<times> string option) result" where
  "extractSignedParts ct raw =
     (case ct raw of
        Inl e \<Rightarrow> Inl (ParseMessage e)
      | Inr (media, boundary) \<Rightarrow>
          if media \<noteq> ''multipart/signed'' then
            (if Contains raw ''application/pgp-signature'' then Inl (SignatureOutsideSigned media) else Inl (NotSigned media))
          else if boundary = [] then Inl NoBoundary
          else let delim = delimiter boundary; parts = SplitStr raw delim in
            if length parts < 3 then Inl CannotSplit
            else let signedData = TrimSuffix (TrimPrefix (parts ! 1) CRLF) CRLF in
              (case part_payload (parts ! 2) of
                 None \<Rightarrow> Inl NoSignaturePayload
               | Some signature \<Rightarrow>
                   Inr (signedData, until_boundary delim signature, fold pubkey_step (drop 3 parts) None)))"

text \<open>The keyrings are of any type; an import answers whether it succeeded and the keyring after it.\<close>

record 'r pgp_io =
  pg_tmp :: bool
  pg_home :: "'r option"
  pg_keyfile :: bool
  pg_import :: "'r \<Rightarrow> string \<Rightarrow> bool \<times> 'r"
  pg_export :: "bool \<times> string"
  pg_bodyfile :: bool
  pg_sigfile :: bool
  pg_verify :: "'r \<Rightarrow> string \<Rightarrow> string \<Rightarrow> bool \<times> string"

record VerifyResult =
  vf_Valid :: bool
  vf_KeyID :: string
  vf_Signer :: string
  vf_Output :: string
  vf_KeyImported :: bool

datatype verify_failure = ExtractFailed extract_error | NoTempDir | NoGpgHome | NoKeyFile | NoBodyFile | NoSigFile

definition extractQuoted :: "string \<Rightarrow> string" where
  "extractQuoted s =
     (case IndexByte s QUOTE of
        None \<Rightarrow> []
      | Some start \<Rightarrow>
          (case IndexByte (drop (Suc start) s) QUOTE of
             None \<Rightarrow> []
           | Some n \<Rightarrow> take n (drop (Suc start) s)))"

definition exportAll :: "'r pgp_io \<Rightarrow> 'r \<Rightarrow> 'r" where
  "exportAll io ring =
     (let (ok, keyData) = pg_export io in
      if \<not> ok \<or> keyData = [] then ring else snd (pg_import io ring keyData))"

definition verify_line :: "string \<Rightarrow> VerifyResult \<Rightarrow> VerifyResult" where
  "verify_line line r =
     (let r1 = (if Contains line ''Good signature from'' then r\<lparr>vf_Signer := extractQuoted line\<rparr> else r) in
      if Contains line ''using'' \<and> Contains line ''key'' then
        (let parts = Fields line in if 0 < length parts then r1\<lparr>vf_KeyID := last parts\<rparr> else r1)
      else r1)"

definition Verify :: "ctype \<Rightarrow> 'r pgp_io \<Rightarrow> string \<Rightarrow> (verify_failure, VerifyResult) result" where
  "Verify ct io raw =
     (case extractSignedParts ct raw of
        Inl e \<Rightarrow> Inl (ExtractFailed e)
      | Inr (signedData, sigBytes, pubkey) \<Rightarrow>
          if \<not> pg_tmp io then Inl NoTempDir
          else (case pg_home io of
            None \<Rightarrow> Inl NoGpgHome
          | Some ring0 \<Rightarrow>
              and_then
                (case pubkey of
                   None \<Rightarrow> Inr (False, ring0)
                 | Some key \<Rightarrow> if \<not> pg_keyfile io then Inl NoKeyFile else Inr (pg_import io ring0 key))
                (\<lambda>(imported, ring1).
                   let ring2 = (if imported then ring1 else exportAll io ring1) in
                   if \<not> pg_bodyfile io then Inl NoBodyFile
                   else if \<not> pg_sigfile io then Inl NoSigFile
                   else let (ok, err) = pg_verify io ring2 sigBytes signedData; out = TrimSpace err in
                     Inr (fold verify_line (Split out NL)
                       \<lparr>vf_Valid = ok, vf_KeyID = [], vf_Signer = [], vf_Output = out, vf_KeyImported = imported\<rparr>))))"

subsection \<open>Decrypting and encrypting\<close>

record DecryptResult =
  dr_Plaintext :: string
  dr_KeyID :: string
  dr_Signed :: bool
  dr_Signer :: string
  dr_Output :: string

datatype decrypt_error =
    DecryptParse string
  | NotEncrypted string
  | EncryptedNoBoundary
  | EncryptedCannotSplit
  | EncryptedEmpty
  | MultipartFallback string
  | DecryptPassphrase sign_error
  | DecryptFailed string

definition pgp_begin :: string where "pgp_begin = ''-----BEGIN PGP MESSAGE-----''"
definition pgp_end :: string where "pgp_end = ''-----END PGP MESSAGE-----''"

text \<open>\<open>parts\<close> is what \<open>mime/multipart\<close> reads, each part's bytes or an error.\<close>

fun multipart_second :: "nat \<Rightarrow> (string, string) result list \<Rightarrow> (decrypt_error, string) result" where
  "multipart_second idx [] = Inl (MultipartFallback ''encrypted data part not found'')"
| "multipart_second idx (Inl e # ps) = Inl (MultipartFallback e)"
| "multipart_second idx (Inr data # ps) = (if idx = 1 then Inr data else multipart_second (Suc idx) ps)"

definition extractEncryptedPayload ::
    "ctype \<Rightarrow> (string \<Rightarrow> (string, string) result list) \<Rightarrow> string \<Rightarrow> (decrypt_error, string) result" where
  "extractEncryptedPayload ct multipart raw =
     (case ct raw of
        Inl e \<Rightarrow> Inl (DecryptParse e)
      | Inr (media, boundary) \<Rightarrow>
          if media \<noteq> ''multipart/encrypted'' then Inl (NotEncrypted media)
          else if boundary = [] then Inl EncryptedNoBoundary
          else let delim = delimiter boundary; parts = SplitStr raw delim in
            if length parts < 3 then Inl EncryptedCannotSplit
            else let body = until_boundary delim
                  (case part_payload (parts ! 2) of Some p \<Rightarrow> p | None \<Rightarrow> TrimSpace (parts ! 2)) in
              if body = [] then Inl EncryptedEmpty
              else (case Index body pgp_begin of
                 Some start \<Rightarrow>
                   (case Index body pgp_end of
                      Some stop \<Rightarrow> if start < stop then Inr (drop start (take (stop + length pgp_end) body)) else Inr body
                    | None \<Rightarrow> Inr body)
               | None \<Rightarrow> multipart_second 0 (multipart raw)))"

fun key_after_id :: "string list \<Rightarrow> string \<Rightarrow> string" where
  "key_after_id (p # q # ps) key = key_after_id (q # ps) (if p = ''ID'' then TrimSuffix q '','' else key)"
| "key_after_id _ key = key"

definition decrypt_line :: "string \<Rightarrow> DecryptResult \<Rightarrow> DecryptResult" where
  "decrypt_line line r =
     (let r1 = (if Contains line ''Good signature from'' then r\<lparr>dr_Signed := True, dr_Signer := extractQuoted line\<rparr> else r) in
      if Contains line ''encrypted with'' then r1\<lparr>dr_KeyID := key_after_id (Fields line) (dr_KeyID r1)\<rparr> else r1)"

text \<open>The passphrase file is the signer's; gpg answers its exit, its output and its error output.\<close>

definition Decrypt ::
    "ctype \<Rightarrow> (string \<Rightarrow> (string, string) result list) \<Rightarrow> gpg_sign \<Rightarrow> (string option \<Rightarrow> string \<Rightarrow> bool \<times> string \<times> string)
       \<Rightarrow> string \<Rightarrow> string \<Rightarrow> file_map \<Rightarrow> (decrypt_error, DecryptResult) result \<times> file_map" where
  "Decrypt ct multipart g run passphrase raw fs =
     (case extractEncryptedPayload ct multipart raw of
        Inl e \<Rightarrow> (Inl e, fs)
      | Inr ciphertext \<Rightarrow>
          (case gs_create g of
             None \<Rightarrow> (Inl (DecryptPassphrase PassphraseCreate), fs)
           | Some f \<Rightarrow>
               if \<not> gs_write g then (Inl (DecryptPassphrase PassphraseWrite), drop_passphrase g f (fs(f \<mapsto> [])))
               else let fs1 = fs(f \<mapsto> passphrase); fs2 = drop_passphrase g f fs1 in
                 if \<not> gs_close g then (Inl (DecryptPassphrase PassphraseClose), fs2)
                 else (case run (fs1 f) ciphertext of
                         (ok, out, err) \<Rightarrow>
                           let output = TrimSpace err in
                           if \<not> ok then (Inl (DecryptFailed output), fs2)
                           else (Inr (fold decrypt_line (Split output NL)
                             \<lparr>dr_Plaintext = out, dr_KeyID = [], dr_Signed = False, dr_Signer = [], dr_Output = output\<rparr>), fs2))))"

definition Encrypt_args :: "string list \<Rightarrow> string \<Rightarrow> string list" where
  "Encrypt_args keys self =
     [''--batch'', ''--no-tty'', ''--encrypt'', ''--armor'', ''--trust-model'', ''always'']
     @ concat (map (\<lambda>k. [''--recipient'', k]) keys) @ (if self \<noteq> [] then [''--recipient'', self] else [])"

datatype encrypt_error = NoRecipientKeys | GpgEncrypt string

definition Encrypt ::
    "(string list \<Rightarrow> string \<Rightarrow> (string, string) result) \<Rightarrow> string list \<Rightarrow> string \<Rightarrow> string \<Rightarrow> (encrypt_error, string) result" where
  "Encrypt gpg keys self data =
     (if keys = [] then Inl NoRecipientKeys
      else case gpg (Encrypt_args keys self) data of Inl e \<Rightarrow> Inl (GpgEncrypt e) | Inr out \<Rightarrow> Inr out)"

definition KeyRequiresPassphrase :: "exec_outcome \<Rightarrow> bool" where
  "KeyRequiresPassphrase probe \<longleftrightarrow> probe \<noteq> Exited True"

subsection \<open>A signed message is read back\<close>

text \<open>Text in which a delimiter of this boundary does not occur.\<close>

definition clean_of :: "string \<Rightarrow> string \<Rightarrow> bool" where
  "clean_of b s \<longleftrightarrow> \<not> Contains s (delimiter b)"

definition plain_boundary :: "string \<Rightarrow> bool" where
  "plain_boundary b \<longleftrightarrow> b \<noteq> [] \<and> set b \<subseteq> set boundary_chars"

lemma boundary_char: "n < 62 \<Longrightarrow> boundary_chars ! n \<in> set boundary_chars"
  by (rule nth_mem) (simp add: boundary_chars_def)

lemma RandomBoundary_plain: "RandomBoundary (Some ns) = Some b \<Longrightarrow> \<forall>n \<in> set ns. n < 62 \<Longrightarrow> plain_boundary b"
  using boundary_char by (auto simp: RandomBoundary_def plain_boundary_def) (auto simp: boundary_chars_def)

lemma plain_boundary_notin:
  assumes "plain_boundary b"
  shows "CHR ''-'' \<notin> set b" "CR \<notin> set b" "NL \<notin> set b" "QUOTE \<notin> set b" "b \<noteq> []"
    "CR \<notin> set (delimiter b)" "NL \<notin> set (delimiter b)" "QUOTE \<notin> set (delimiter b)"
proof -
  have c: "CHR ''-'' \<notin> set boundary_chars" "CR \<notin> set boundary_chars" "NL \<notin> set boundary_chars" "QUOTE \<notin> set boundary_chars"
    by (simp_all add: boundary_chars_def)
  with assms show "CHR ''-'' \<notin> set b" "CR \<notin> set b" "NL \<notin> set b" "QUOTE \<notin> set b" "b \<noteq> []"
    by (auto simp: plain_boundary_def)
  then show "CR \<notin> set (delimiter b)" "NL \<notin> set (delimiter b)" "QUOTE \<notin> set (delimiter b)"
    by (auto simp: delimiter_def)
qed

lemma clean_Nil [simp]: "clean_of b []"
  by (simp add: clean_of_def delimiter_def)

lemma clean_Cons [simp]: "c \<noteq> CHR ''-'' \<Longrightarrow> clean_of b (c # s) = clean_of b s"
  by (simp add: clean_of_def Contains_Cons delimiter_def)

lemma clean_hyphen [simp]: "c \<noteq> CHR ''-'' \<Longrightarrow> clean_of b (CHR ''-'' # c # s) = clean_of b s"
  by (simp add: clean_of_def Contains_Cons delimiter_def)

lemma clean_between:
  assumes "plain_boundary b"
  shows "clean_of b (s @ CR # r) \<longleftrightarrow> clean_of b s \<and> clean_of b r"
    "clean_of b (s @ NL # r) \<longleftrightarrow> clean_of b s \<and> clean_of b r"
    "clean_of b (s @ QUOTE # r) \<longleftrightarrow> clean_of b s \<and> clean_of b r"
  using plain_boundary_notin [OF assms] Contains_between by (auto simp: clean_of_def)

lemma clean_boundary: "plain_boundary b \<Longrightarrow> clean_of b b"
  using plain_boundary_notin(1) [of b] by (auto simp: clean_of_def Contains_iff_infix delimiter_def)

lemma TrimLeft_suffix: "\<exists>t. s = t @ TrimLeftSpace s"
proof (induction s rule: TrimLeftSpace.induct)
  case (1 s)
  show ?case
  proof (cases "space_len s = 0")
    case False
    then obtain t where t: "drop (space_len s) s = t @ TrimLeftSpace (drop (space_len s) s)" using 1 by blast
    moreover have "TrimLeftSpace s = TrimLeftSpace (drop (space_len s) s)" using False by (subst TrimLeftSpace.simps) simp
    ultimately have "s = (take (space_len s) s @ t) @ TrimLeftSpace s" by (metis append.assoc append_take_drop_id)
    then show ?thesis by blast
  qed (subst TrimLeftSpace.simps, simp)
qed

lemma TrimSpace_infix: "\<exists>a c. s = a @ TrimSpace s @ c"
  using TrimLeft_suffix [of s] TrimRight_prefix [of "TrimLeftSpace s"] unfolding TrimSpace_def by metis

lemma clean_TrimSpace: "clean_of b s \<Longrightarrow> clean_of b (TrimSpace s)"
  using TrimSpace_infix [of s] Contains_append unfolding clean_of_def by metis

lemma signed_parts:
  assumes b: "plain_boundary b" and "clean_of b h" "clean_of b part" "clean_of b sig"
  shows "SplitStr (h @ signed_body b part sig) (delimiter b) =
    [h, CRLF @ part @ CRLF, CRLF @ signature_headers @ CRLF @ TrimSpace sig @ CRLF, ''--'' @ CRLF]"
proof -
  note n = plain_boundary_notin [OF b]
  note cb = clean_between [OF b]
  have p: "clean_of b (CRLF @ part @ CRLF)" using assms(3) cb(1) [of part "[NL]"] by simp
  have s: "clean_of b (CRLF @ signature_headers @ CRLF @ TrimSpace sig @ CRLF)"
    using clean_TrimSpace [OF assms(4)] cb(1) [of "TrimSpace sig" "[NL]"]
    by (simp add: signature_headers_def quoted_def)
  have e: "clean_of b (''--'' @ CRLF)"
    by (auto simp: clean_of_def Contains_Cons delimiter_def n(5) n(2)) (metis HasPrefix_Cons list.exhaust n(2,5) list.set_intros(1))
  note sp = SplitStr_delimiter [OF n(1,5)]
  have eq: "h @ signed_body b part sig = h @ delimiter b @ (CRLF @ part @ CRLF) @ delimiter b
      @ (CRLF @ signature_headers @ CRLF @ TrimSpace sig @ CRLF) @ delimiter b @ (''--'' @ CRLF)"
    by (simp add: signed_body_def delimiter_def)
  show ?thesis
    unfolding eq sp [OF assms(2) [unfolded clean_of_def]] sp [OF p [unfolded clean_of_def]] sp [OF s [unfolded clean_of_def]]
      SplitStr_none [OF e [unfolded clean_of_def]] ..
qed

lemma signature_payload: "part_payload (CRLF @ signature_headers @ CRLF @ TrimSpace sig @ CRLF) = Some (TrimSpace sig)"
proof -
  have "Index (CRLF @ signature_headers @ CRLF @ TrimSpace sig @ CRLF) (CRLF @ CRLF) = Some (length (CRLF @ signature_headers) - 2)"
    by (simp add: signature_headers_def quoted_def)
  moreover have "drop (length (CRLF @ signature_headers) - 2 + 4) (CRLF @ signature_headers @ CRLF @ TrimSpace sig @ CRLF) = TrimSpace sig @ CRLF"
    by (simp add: signature_headers_def quoted_def)
  ultimately show ?thesis by (simp add: part_payload_def TrimSpace_crlf)
qed

lemma until_clean: "clean_of b s \<Longrightarrow> until_boundary (delimiter b) s = s"
  by (simp add: until_boundary_def clean_of_def Contains_def)

lemma extract_signed_body:
  assumes b: "plain_boundary b" and "clean_of b h" "clean_of b part" "clean_of b sig"
    "ct (h @ signed_body b part sig) = Inr (''multipart/signed'', b)"
  shows "extractSignedParts ct (h @ signed_body b part sig) = Inr (part, TrimSpace sig, None)"
proof -
  have "TrimSuffix (TrimPrefix (CRLF @ part @ CRLF) CRLF) CRLF = part"
    using TrimPrefix_append [of CRLF "part @ CRLF"] by (simp add: TrimSuffix_def del: TrimPrefix_append)
  moreover have "\<not> Contains (''--'' @ CRLF) ''application/pgp-keys''" by code_simp
  ultimately show ?thesis
    using assms(5) signed_parts [OF assms(1-4)] signature_payload until_clean [OF clean_TrimSpace [OF assms(4)]]
      plain_boundary_notin(5) [OF b]
    by (simp add: extractSignedParts_def Let_def pubkey_step_def)
qed

text \<open>
  What \<open>Sign\<close> sends, \<open>Verify\<close> takes apart again: exactly the part that was given to gpg for signing, byte for byte,
  and gpg's signature, unless the boundary drawn for it happens to occur in the text.
\<close>

theorem Sign_extract_roundtrip:
  assumes "Sign g (Some ns) signer passphrase to subject body fs = (Inr m, fs')" "\<forall>n \<in> set ns. n < 62"
    and "ct (sm_Raw m) = Inr (''multipart/signed'', sm_Boundary m)"
    and "\<forall>s \<in> {signer, to, subject, body}. \<not> Contains s (delimiter (sm_Boundary m))"
    and "\<forall>sig. gs_run g (Some passphrase) (text_part body) = Inr sig \<longrightarrow> \<not> Contains sig (delimiter (sm_Boundary m))"
  shows "\<exists>sig. gs_run g (Some passphrase) (text_part body) = Inr sig
    \<and> extractSignedParts ct (sm_Raw m) = Inr (text_part body, TrimSpace sig, None)"
proof -
  obtain b sig where b: "RandomBoundary (Some ns) = Some b" and d: "detachSign g passphrase (text_part body) fs = (Inr sig, fs')"
    and m: "sm_Boundary m = b"
      "sm_Raw m = ''From: '' @ signer @ CRLF @ ''To: '' @ to @ CRLF @ ''Subject: '' @ subject @ CRLF
         @ ''MIME-Version: 1.0'' @ CRLF @ signed_type b @ CRLF @ signed_body b (text_part body) sig"
    using assms(1) by (auto simp: Sign_def split: if_splits sum.splits option.splits prod.splits)
  have pb: "plain_boundary b" using RandomBoundary_plain [OF b assms(2)] .
  have run: "gs_run g (Some passphrase) (text_part body) = Inr sig"
    using d by (auto simp: detachSign_def Let_def split: option.splits if_splits sum.splits)
  define h where "h = ''From: '' @ signer @ CRLF @ ''To: '' @ to @ CRLF @ ''Subject: '' @ subject @ CRLF
     @ ''MIME-Version: 1.0'' @ CRLF @ signed_type b @ CRLF"
  have raw: "sm_Raw m = h @ signed_body b (text_part body) sig" unfolding m h_def by simp
  have c: "clean_of b signer" "clean_of b to" "clean_of b subject" "clean_of b body" "clean_of b sig"
    using assms(4,5) run m(1) by (auto simp: clean_of_def)
  have h: "clean_of b h"
    unfolding h_def using c clean_boundary [OF pb] by (simp add: clean_between [OF pb] signed_type_def quoted_def)
  have p: "clean_of b (text_part body)" using c(4) clean_between(1) [OF pb, of body] by (simp add: text_part_def)
  have "extractSignedParts ct (sm_Raw m) = Inr (text_part body, TrimSpace sig, None)"
    unfolding raw by (rule extract_signed_body [OF pb h p c(5)]) (use assms(3) m(1) raw in simp)
  with run show ?thesis by blast
qed

definition sample_sign :: gpg_sign where
  "sample_sign = \<lparr>gs_list = (Exited True, ''pub:u:255:22:AA:1:99:::::scESC:'' @ [NL]), gs_now = 10, gs_create = Some ''/tmp/pp'',
     gs_write = True, gs_close = True, gs_remove = True, gs_run = (\<lambda>_ _. Inr ''SIG'')\<rparr>"

theorem Sign_extract_roundtrip_witness:
  "\<exists>m. Sign sample_sign (Some (replicate 16 5)) ''me'' ''pw'' ''you'' ''hi'' ''text'' (\<lambda>_. None) = (Inr m, \<lambda>_. None)
    \<and> extractSignedParts (\<lambda>_. Inr (''multipart/signed'', sm_Boundary m)) (sm_Raw m) = Inr (text_part ''text'', ''SIG'', None)"
proof -
  let ?s = "Sign sample_sign (Some (replicate 16 5)) ''me'' ''pw'' ''you'' ''hi'' ''text'' (\<lambda>_. None)"
  obtain m fs' where s: "?s = (Inr m, fs')" "sm_Boundary m = ''Beadleffffffffffffffff''"
  proof -
    have "map_sum (\<lambda>_. ()) sm_Boundary (fst ?s) = Inr ''Beadleffffffffffffffff''" by code_simp
    then show ?thesis using that by (cases ?s; cases "fst ?s") auto
  qed
  have d: "detachSign sample_sign ''pw'' (text_part ''text'') (\<lambda>_. None) = (Inr ''SIG'', \<lambda>_. None)"
    by (auto simp: detachSign_def sample_sign_def drop_passphrase_def)
  have fs': "fs' = (\<lambda>_. None)"
    using s(1) unfolding Sign_def d by (auto split: if_splits sum.splits option.splits)
  have n: "\<forall>n \<in> set (replicate 16 (5::nat)). n < 62" by simp
  have c: "\<forall>t \<in> {''me'', ''you'', ''hi'', ''text''}. \<not> Contains t (delimiter (sm_Boundary m))" unfolding s(2) by code_simp
  have r: "gs_run sample_sign (Some ''pw'') (text_part ''text'') = Inr sig \<longleftrightarrow> sig = ''SIG''" for sig
    by (auto simp: sample_sign_def)
  have "\<not> Contains ''SIG'' (delimiter (sm_Boundary m))" unfolding s(2) by code_simp
  then have q: "\<forall>sig. gs_run sample_sign (Some ''pw'') (text_part ''text'') = Inr sig \<longrightarrow> \<not> Contains sig (delimiter (sm_Boundary m))"
    unfolding r by blast
  obtain sig where g: "gs_run sample_sign (Some ''pw'') (text_part ''text'') = Inr sig"
    "extractSignedParts (\<lambda>_. Inr (''multipart/signed'', sm_Boundary m)) (sm_Raw m) = Inr (text_part ''text'', TrimSpace sig, None)"
    using Sign_extract_roundtrip [OF s(1) n refl c q] by blast
  have "TrimSpace ''SIG'' = ''SIG''" by code_simp
  with g(2) g(1) [unfolded r]
  have "extractSignedParts (\<lambda>_. Inr (''multipart/signed'', sm_Boundary m)) (sm_Raw m) = Inr (text_part ''text'', ''SIG'', None)"
    by (simp only:)
  with s(1) fs' show ?thesis by blast
qed

subsection \<open>A signature in the preamble\<close>

text \<open>The delimiter line of a multipart body: the delimiter from its first byte, then white space or the closing hyphens.\<close>

definition delimiter_line :: "string \<Rightarrow> string \<Rightarrow> bool" where
  "delimiter_line b l \<longleftrightarrow> HasPrefix l (delimiter b) \<and> set (drop (length (delimiter b)) l) \<subseteq> {CHR '' '', TAB, CR, CHR ''-''}"

lemma clean_lines: "clean_of b s \<Longrightarrow> l \<in> set (Split s NL) \<Longrightarrow> \<not> HasPrefix l (delimiter b)"
proof
  assume c: "clean_of b s" and l: "l \<in> set (Split s NL)" and p: "HasPrefix l (delimiter b)"
  obtain ls rs where "Split s NL = ls @ l # rs" using l by (meson split_list)
  then have "s = Join (ls @ l # rs) [NL]" by (metis Join_Split)
  moreover have "\<exists>a c. Join (ls @ l # rs) [NL] = a @ l @ c"
  proof -
    have "\<exists>c. Join (l # rs) [NL] = l @ c" by (cases rs) auto
    moreover have "\<exists>a. Join (ls @ l # rs) [NL] = a @ Join (l # rs) [NL]"
    proof (induction ls)
      case (Cons x ls)
      then obtain a where "Join (ls @ l # rs) [NL] = a @ Join (l # rs) [NL]" by blast
      then have "Join ((x # ls) @ l # rs) [NL] = (x @ [NL] @ a) @ Join (l # rs) [NL]" by (simp add: Join_Cons)
      then show ?case by blast
    qed (auto intro: exI [of _ "[]"])
    ultimately show ?thesis by metis
  qed
  ultimately obtain a d where "s = a @ l @ d" by blast
  moreover have "Contains l (delimiter b)" using p by (auto simp: HasPrefix_iff Contains_iff_infix)
  ultimately show False using c Contains_append by (auto simp: clean_of_def)
qed

definition wrapped :: "string \<Rightarrow> string \<Rightarrow> string \<Rightarrow> string \<Rightarrow> string" where
  "wrapped b h signed sig = h @ delimiter b @ CRLF @ signed @ CRLF @ delimiter b @ ''x'' @ CRLF @ CRLF @ sig @ CRLF"

lemma wrapped_no_delimiter_line:
  assumes b: "plain_boundary b" and "clean_of b h" "clean_of b signed" "clean_of b sig" "last (Split h NL) \<noteq> []"
    and l: "l \<in> set (Split (wrapped b h signed sig) NL)"
  shows "\<not> delimiter_line b l"
proof -
  note n = plain_boundary_notin [OF b]
  have w: "wrapped b h signed sig = (h @ delimiter b @ [CR]) @ NL # (signed @ [CR]) @ NL # (delimiter b @ ''x'' @ [CR]) @ NL
      # [CR] @ NL # (sig @ [CR]) @ NL # []" by (simp add: wrapped_def)
  have d: "Split (delimiter b @ r) NL = [delimiter b @ r]" if "NL \<notin> set r" for r
    using n(7) that by (simp add: Split_single)
  have "l \<in> set (Split (h @ delimiter b @ [CR]) NL) \<or> l \<in> set (Split (signed @ [CR]) NL) \<or> l = delimiter b @ ''x'' @ [CR]
      \<or> l = [CR] \<or> l \<in> set (Split (sig @ [CR]) NL) \<or> l = []"
    using l d [of "''x'' @ [CR]"] unfolding w Split_append_sep2 by (auto simp: Split_single)
  moreover have "\<not> HasPrefix l (delimiter b)" if "l \<in> set (Split (t @ [CR]) NL)" "clean_of b t" for t
    using clean_lines [of b "t @ [CR]"] that clean_between(1) [OF b, of t "[]"] by simp
  moreover have "\<not> HasPrefix l (delimiter b)" if hl: "l \<in> set (Split (h @ delimiter b @ [CR]) NL)"
  proof -
    let ?x = "last (Split h NL)"
    have "Split (h @ delimiter b @ [CR]) NL = butlast (Split h NL) @ [?x @ delimiter b @ [CR]]"
      unfolding Split_append [of h] d [of "[CR]", simplified] by simp
    then consider "l \<in> set (butlast (Split h NL))" | "l = ?x @ delimiter b @ [CR]" using hl by auto
    then show ?thesis
    proof cases
      case 1
      then show ?thesis using clean_lines [OF assms(2)] by (auto dest: in_set_butlastD)
    next
      case 2
      have "?x \<in> set (Split h NL)" by simp
      then have "\<not> HasPrefix ?x (delimiter b)" using clean_lines [OF assms(2)] by blast
      have "clean_of b ?x"
      proof (rule ccontr)
        assume "\<not> clean_of b ?x"
        then obtain p q where "?x = p @ delimiter b @ q" by (auto simp: clean_of_def Contains_iff_infix)
        moreover obtain hs where "h = hs @ ?x"
          by (metis Join_Split Join_snoc Split_nonempty append_butlast_last_id append.assoc append_Nil Join.simps(2))
        ultimately show False using assms(2) unfolding clean_of_def Contains_iff_infix by (metis append.assoc)
      qed
      then show ?thesis using delimiter_no_overlap [OF n(1,5), of ?x "[CR]"] assms(5) 2 by (auto simp: clean_of_def)
    qed
  qed
  ultimately show ?thesis using assms(3,4) n(5)
    by (auto simp: delimiter_line_def delimiter_def)
qed

text \<open>
  The parts are cut at every occurrence of the delimiter, not at delimiter lines: a signed text and its signature
  placed before the first delimiter line, where no mail reader looks, are what is verified, whatever the message says.
\<close>

lemma signature_in_preamble:
  assumes b: "plain_boundary b" and "clean_of b h" "clean_of b signed" "clean_of b sig"
    and t: "TrimSpace sig = sig" and "ct (wrapped b h signed sig @ delimiter b @ rest) = Inr (''multipart/signed'', b)"
  shows "\<exists>key. extractSignedParts ct (wrapped b h signed sig @ delimiter b @ rest) = Inr (signed, sig, key)"
proof -
  note n = plain_boundary_notin [OF b]
  note sp = SplitStr_delimiter [OF n(1,5)]
  have p: "clean_of b (CRLF @ signed @ CRLF)" using assms(3) clean_between(1) [OF b, of signed "[NL]"] by simp
  have s: "clean_of b (''x'' @ CRLF @ CRLF @ sig @ CRLF)" using assms(4) clean_between(1) [OF b, of sig "[NL]"] by simp
  have eq: "wrapped b h signed sig @ delimiter b @ rest = h @ delimiter b @ (CRLF @ signed @ CRLF) @ delimiter b
      @ (''x'' @ CRLF @ CRLF @ sig @ CRLF) @ delimiter b @ rest" by (simp add: wrapped_def)
  have parts: "SplitStr (wrapped b h signed sig @ delimiter b @ rest) (delimiter b) =
      h # (CRLF @ signed @ CRLF) # (''x'' @ CRLF @ CRLF @ sig @ CRLF) # SplitStr rest (delimiter b)"
    unfolding eq sp [OF assms(2) [unfolded clean_of_def]] sp [OF p [unfolded clean_of_def]] sp [OF s [unfolded clean_of_def]] ..
  have "part_payload (''x'' @ CRLF @ CRLF @ sig @ CRLF) = Some (TrimSpace (sig @ CRLF))"
    by (simp add: part_payload_def)
  moreover have "TrimSpace (sig @ CRLF) = sig" using TrimSpace_crlf [of sig] t by simp
  moreover have "TrimSuffix (TrimPrefix (CRLF @ signed @ CRLF) CRLF) CRLF = signed"
    using TrimPrefix_append [of CRLF "signed @ CRLF"] by (simp add: TrimSuffix_def del: TrimPrefix_append)
  moreover have "SplitStr rest (delimiter b) \<noteq> []" by (subst SplitStr.simps) (auto split: option.splits)
  ultimately show ?thesis
    using assms(6) parts until_clean [OF assms(4)] n(5)
    by (cases "SplitStr rest (delimiter b)") (simp_all add: extractSignedParts_def Let_def)
qed

end
