(* ===== verification/Daemon.thy ===== *)
theory Daemon
  imports CommandLoad Persist Secret Pgp
begin

section \<open>The daemon's configuration and its command line\<close>

text \<open>
  Models \<open>internal/daemon/config.go\<close> and, of \<open>cmd/beadle-daemon\<close>, how the daemon finds its owner key and its
  commands and sweeps stale pipelines (\<open>main.go\<close>), and the \<open>sign\<close>, \<open>verify\<close> and \<open>init\<close> commands. JSON, YAML and
  gpg are parameters as in the theories this one composes; the files a command may write are a map from paths to
  bytes, with the outcome of every system call.
\<close>

subsection \<open>The owner key\<close>

record daemon_config =
  dc_OwnerHandle :: string
  dc_OwnerGPGKeyID :: string

datatype daemon_error =
    DaemonRead os_error
  | DaemonParse string
  | OwnerAmbiguous
  | OwnerHandle string id_error
  | OwnerNoKey string
  | OwnerBadKey string string
  | OwnerBadFingerprint string
  | OwnerUnset

text \<open>\<open>errors.Is(err, os.ErrNotExist)\<close> through the wrapping of both functions.\<close>

fun daemon_not_exist :: "daemon_error \<Rightarrow> bool" where
  "daemon_not_exist (DaemonRead e) = (e = ErrNotExist)"
| "daemon_not_exist (OwnerHandle h e) = wraps_not_exist e"
| "daemon_not_exist _ = False"

type_synonym config_json = "string \<Rightarrow> (string, daemon_config) result"

definition LoadConfig_daemon :: "config_json \<Rightarrow> reader \<Rightarrow> string \<Rightarrow> (daemon_error, daemon_config) result" where
  "LoadConfig_daemon json rd path =
     (case rd (Clean path) of
        Inl e \<Rightarrow> Inl (DaemonRead e)
      | Inr data \<Rightarrow> (case json data of Inl e \<Rightarrow> Inl (DaemonParse e) | Inr cfg \<Rightarrow> Inr cfg))"

definition ResolveOwnerKeyID :: "yaml_lib \<Rightarrow> reader \<Rightarrow> Resolver \<Rightarrow> daemon_config \<Rightarrow> (daemon_error, string) result" where
  "ResolveOwnerKeyID ym rd r c =
     (if dc_OwnerHandle c \<noteq> [] \<and> dc_OwnerGPGKeyID c \<noteq> [] then Inl OwnerAmbiguous
      else if dc_OwnerHandle c \<noteq> [] then
        (case ResolveHandle ym rd r (dc_OwnerHandle c) of
           Inl e \<Rightarrow> Inl (OwnerHandle (dc_OwnerHandle c) e)
         | Inr i \<Rightarrow>
             if id_GPGKeyID i = [] then Inl (OwnerNoKey (dc_OwnerHandle c))
             else if \<not> fingerprintPattern (id_GPGKeyID i) then Inl (OwnerBadKey (dc_OwnerHandle c) (id_GPGKeyID i))
             else Inr (id_GPGKeyID i))
      else if dc_OwnerGPGKeyID c \<noteq> [] then
        (if \<not> fingerprintPattern (dc_OwnerGPGKeyID c) then Inl (OwnerBadFingerprint (dc_OwnerGPGKeyID c))
         else Inr (dc_OwnerGPGKeyID c))
      else Inl OwnerUnset)"

text \<open>The key, whether commands load, and whether an error was logged.\<close>

definition resolveDaemonOwnerKeyID ::
    "config_json \<Rightarrow> yaml_lib \<Rightarrow> reader \<Rightarrow> Resolver \<Rightarrow> string \<Rightarrow> (string \<times> bool) \<times> bool" where
  "resolveDaemonOwnerKeyID json ym rd r configPath =
     (case LoadConfig_daemon json rd configPath of
        Inl e \<Rightarrow> (([], False), \<not> daemon_not_exist e)
      | Inr cfg \<Rightarrow>
          (case ResolveOwnerKeyID ym rd r cfg of
             Inl e \<Rightarrow> (([], False), True)
           | Inr key \<Rightarrow> ((key, True), False)))"

text \<open>\<open>load\<close> is \<open>LoadCommands\<close> on the daemon's command directory, for the owner key it is given.\<close>

definition loadDaemonCommands ::
    "(string \<Rightarrow> (string, (string \<times> Command) list \<times> load_log list) result) \<Rightarrow> string \<Rightarrow> bool \<Rightarrow> (string \<times> Command) list" where
  "loadDaemonCommands load owner enabled =
     (if \<not> enabled then []
      else case load owner of Inl e \<Rightarrow> [] | Inr (commands, log) \<Rightarrow> commands)"

text \<open>The key the configuration names: the literal one, or the one in the extension of the named identity.\<close>

definition owner_key_of :: "config_json \<Rightarrow> yaml_lib \<Rightarrow> reader \<Rightarrow> Resolver \<Rightarrow> string \<Rightarrow> string \<Rightarrow> bool" where
  "owner_key_of json ym rd r path key \<longleftrightarrow>
     (\<exists>data cfg. rd (Clean path) = Inr data \<and> json data = Inr cfg
        \<and> (dc_OwnerHandle cfg = [] \<and> dc_OwnerGPGKeyID cfg = key
           \<or> dc_OwnerGPGKeyID cfg = [] \<and> dc_OwnerHandle cfg \<noteq> []
             \<and> (\<exists>i. ResolveHandle ym rd r (dc_OwnerHandle cfg) = Inr i \<and> id_GPGKeyID i = key)))"

lemma fingerprint_nonempty: "fingerprintPattern key \<Longrightarrow> key \<noteq> []"
  by (auto simp: fingerprintPattern_def)

lemma resolve_owner_enabled:
  assumes "fst (resolveDaemonOwnerKeyID json ym rd r path) = (key, True)"
  shows "fingerprintPattern key" "owner_key_of json ym rd r path key"
  using assms
  by (auto simp: resolveDaemonOwnerKeyID_def LoadConfig_daemon_def ResolveOwnerKeyID_def owner_key_of_def
      split: sum.splits if_splits)

text \<open>
  Zero agent authority: whatever daemon.json, the ethos files and the command directory hold, a command in the
  daemon's registry satisfies the schema and was signed by the one full fingerprint that the operator's own
  configuration names. There is no way for a command to load without such a key.
\<close>

theorem daemon_commands_need_owner:
  assumes "resolveDaemonOwnerKeyID json ym rd r path = ((key, enabled), logged)"
    and "map_of (loadDaemonCommands (\<lambda>owner. LoadCommands ufold g marshal now dur decode owner dir) key enabled) n = Some cmd"
  shows "fingerprintPattern key \<and> owner_key_of json ym rd r path key \<and> n = cmd_Name cmd \<and> command_ok dur cmd
    \<and> (\<exists>raw. cmd = default_runner_mode raw \<and> authorized ufold g marshal now raw key)"
proof -
  from assms(2) obtain cmds log where e: "enabled" and l: "LoadCommands ufold g marshal now dur decode key dir = Inr (cmds, log)"
    "map_of cmds n = Some cmd"
    by (auto simp: loadDaemonCommands_def split: if_splits sum.splits)
  from assms(1) e have "fst (resolveDaemonOwnerKeyID json ym rd r path) = (key, True)" by simp
  note k = resolve_owner_enabled [OF this]
  from l(1) obtain es where "load_loop (loadCommand ufold g marshal now dur decode key) es [] [] = (cmds, log)"
    by (auto simp: LoadCommands_def split: sum.splits)
  from daemon_gate.loaded_good [OF this l(2)] fingerprint_nonempty [OF k(1)] k show ?thesis
    by (auto simp: load_good_def)
qed

subsection \<open>Stale pipelines\<close>

text \<open>The saves of the sweep, each with what the file system does, and whether loading failed; errors are logged.\<close>

definition relabel :: "Pipeline \<Rightarrow> Pipeline" where
  "relabel p = p\<lparr>pl_Status := ''failed'', pl_Error := Some DaemonStopped\<rparr>"

text \<open>Each save meets its own outcome; a failed one is logged and the sweep goes on.\<close>

fun sweep_loop :: "(Pipeline \<Rightarrow> string option) \<Rightarrow> (string \<Rightarrow> save_ops) \<Rightarrow> Pipeline list \<Rightarrow> dir \<Rightarrow> dir" where
  "sweep_loop encode ops [] d = d"
| "sweep_loop encode ops (p # ps) d =
     (let p' = relabel p in sweep_loop encode ops ps (snd (Save encode (ops (pl_ID p')) p' d)))"

definition sweepStalePipelines ::
    "(Pipeline \<Rightarrow> string option) \<Rightarrow> (string \<Rightarrow> Pipeline option) \<Rightarrow> (string \<Rightarrow> save_ops) \<Rightarrow> dir_read \<Rightarrow> dir \<Rightarrow> dir" where
  "sweepStalePipelines encode decode ops r d =
     (case LoadRunning decode r of Inl e \<Rightarrow> d | Inr stale \<Rightarrow> sweep_loop encode ops stale d)"

lemma relabel_simps [simp]: "pl_ID (relabel p) = pl_ID p" "pl_Status (relabel p) = ''failed''"
  by (simp_all add: relabel_def)

definition save_works :: "save_ops \<Rightarrow> bool" where
  "save_works ops \<longleftrightarrow> so_mkdir ops \<and> so_write ops \<and> so_rename ops"

lemma Save_works:
  "\<not> bad_id (pl_ID p) \<Longrightarrow> save_works ops \<Longrightarrow> encode p = Some data \<Longrightarrow> \<exists>d'. Save encode ops p d = (Inr (), d')"
  by (simp add: Save_def save_works_def Let_def)

definition sweepable :: "(Pipeline \<Rightarrow> string option) \<Rightarrow> (string \<Rightarrow> save_ops) \<Rightarrow> dir \<Rightarrow> Pipeline \<Rightarrow> bool" where
  "sweepable encode ops d p \<longleftrightarrow> \<not> bad_id (pl_ID p) \<and> \<not> HasPrefix (pl_ID p) ''.tmp-'' \<and> save_works (ops (pl_ID p))
     \<and> (\<exists>data. encode (relabel p) = Some data) \<and> map_of d (tmp_name (pl_ID p)) = None"

lemma tmp_not_final: "\<not> HasPrefix j ''.tmp-'' \<Longrightarrow> tmp_name i \<noteq> final_name j"
  using final_name_tmp [of j] by (auto simp: tmp_name_def HasPrefix_iff) metis

lemma sweep_loop_map:
  assumes "dir_ok d" "\<forall>p \<in> set ps. sweepable encode ops d p"
  shows "(\<forall>n. n \<notin> (final_name \<circ> pl_ID) ` set ps \<longrightarrow> map_of (sweep_loop encode ops ps d) n = map_of d n)
    \<and> (\<forall>p \<in> set ps. \<exists>q \<in> set ps. pl_ID q = pl_ID p \<and> map_of (sweep_loop encode ops ps d) (final_name (pl_ID p)) =
          Some (file_of (the (encode (relabel q))) (so_now (ops (pl_ID q)))))"
  using assms
proof (induction ps arbitrary: d)
  case (Cons p ps)
  from Cons.prems(2) have s: "sweepable encode ops d p" by simp
  then obtain data where data: "encode (relabel p) = Some data" by (auto simp: sweepable_def)
  obtain d1 where d1: "Save encode (ops (pl_ID p)) (relabel p) d = (Inr (), d1)"
    using Save_works [of "relabel p" "ops (pl_ID p)" encode data d] s data by (auto simp: sweepable_def)
  have m: "dir_ok d1" "map_of d1 = (map_of d)(final_name (pl_ID p) \<mapsto> file_of data (so_now (ops (pl_ID p))))"
    using Save_ok [OF d1 Cons.prems(1)] s data by (auto simp: sweepable_def)
  have sw: "\<forall>q \<in> set ps. sweepable encode ops d1 q"
    using Cons.prems(2) s tmp_not_final [of "pl_ID p"] by (auto simp: sweepable_def m(2))
  note ih = Cons.IH [OF m(1) sw]
  have eq: "sweep_loop encode ops (p # ps) d = sweep_loop encode ops ps d1" by (simp add: d1)
  let ?f = "\<lambda>q. Some (file_of (the (encode (relabel q))) (so_now (ops (pl_ID q))))"
  have others: "map_of (sweep_loop encode ops ps d1) n = map_of d n" if "n \<notin> (final_name \<circ> pl_ID) ` set (p # ps)" for n
    using ih that m(2) by simp
  have swept: "\<exists>q \<in> set (p # ps). pl_ID q = pl_ID x \<and> map_of (sweep_loop encode ops ps d1) (final_name (pl_ID x)) = ?f q"
    if "x \<in> set (p # ps)" for x
  proof (cases "\<exists>y \<in> set ps. pl_ID y = pl_ID x")
    case True
    then obtain y where "y \<in> set ps" "pl_ID y = pl_ID x" by blast
    then obtain q where "q \<in> set ps" "pl_ID q = pl_ID y" "map_of (sweep_loop encode ops ps d1) (final_name (pl_ID y)) = ?f q"
      using ih by blast
    then show ?thesis using \<open>pl_ID y = pl_ID x\<close> by auto
  next
    case False
    then have x: "x = p" using that by auto
    then have "final_name (pl_ID p) \<notin> (final_name \<circ> pl_ID) ` set ps" using False names_distinct(3) by auto
    then have "map_of (sweep_loop encode ops ps d1) (final_name (pl_ID p)) = ?f p" using ih m(2) data by simp
    then show ?thesis using x by auto
  qed
  show ?case unfolding eq using others swept by blast
qed simp

lemma Save_keeps_ok: "dir_ok d \<Longrightarrow> dir_ok (snd (Save encode ops p d))"
  by (auto simp: Save_def Let_def rename_file_eq intro!: files.put_ok files.del_ok files.rename_ok split: option.splits)

lemma sweep_loop_ok: "dir_ok d \<Longrightarrow> dir_ok (sweep_loop encode ops ps d)"
  by (induction ps arbitrary: d) (simp_all add: Save_keeps_ok)

lemma in_map_filter: "y \<in> set (List.map_filter f xs) \<longleftrightarrow> (\<exists>x \<in> set xs. f x = Some y)"
  by (induction xs) (auto simp: List.map_filter_simps split: option.splits)

lemma LoadRunning_iff:
  assumes "LoadRunning decode (Entries d) = Inr ps"
  shows "p \<in> set ps \<longleftrightarrow>
    (\<exists>n e. (n, e) \<in> set d \<and> record_file (n, e) \<and> read_record decode e = Some p \<and> pl_Status p = ''running'')"
proof -
  have "ps = filter (\<lambda>p. pl_Status p = ''running'')
      (List.map_filter (\<lambda>f. if record_file f then read_record decode (snd f) else None) d)"
    using assms by (simp add: LoadRunning_def)
  then have "p \<in> set ps \<longleftrightarrow> pl_Status p = ''running'' \<and> (\<exists>f \<in> set d. record_file f \<and> read_record decode (snd f) = Some p)"
    by (auto simp: in_map_filter)
  then show ?thesis by force
qed

text \<open>
  After the sweep no record counts as running any more, so none is ever resumed; and every file but the records of
  the stale pipelines is as it was.
\<close>

theorem sweep_settles:
  assumes "dir_ok d" "LoadRunning decode (Entries d) = Inr stale"
    and "\<forall>(n, e) \<in> set d. \<forall>p. record_file (n, e) \<and> read_record decode e = Some p \<longrightarrow> n = final_name (pl_ID p)"
    and "\<forall>p \<in> set stale. sweepable encode ops d p"
    and "\<forall>p data. encode p = Some data \<longrightarrow> decode data = Some p"
  shows "LoadRunning decode (Entries (sweepStalePipelines encode decode ops (Entries d) d)) = Inr []
    \<and> (\<forall>n. n \<notin> (final_name \<circ> pl_ID) ` set stale \<longrightarrow>
         map_of (sweepStalePipelines encode decode ops (Entries d) d) n = map_of d n)"
proof -
  let ?d = "sweep_loop encode ops stale d"
  have eq: "sweepStalePipelines encode decode ops (Entries d) d = ?d" by (simp add: sweepStalePipelines_def assms(2))
  note m = sweep_loop_map [OF assms(1,4)]
  have ok: "dir_ok ?d"
    by (rule sweep_loop_ok [OF assms(1)])
  obtain ps where ps: "LoadRunning decode (Entries ?d) = Inr ps" by (simp add: LoadRunning_def)
  have "p \<notin> set ps" for p
  proof
    assume "p \<in> set ps"
    then obtain n e where e: "(n, e) \<in> set ?d" "record_file (n, e)" "read_record decode e = Some p" "pl_Status p = ''running''"
      unfolding LoadRunning_iff [OF ps] by blast
    have l: "map_of ?d n = Some e" using ok e(1) by (simp add: dir_ok_def map_of_is_SomeI)
    show False
    proof (cases "n \<in> (final_name \<circ> pl_ID) ` set stale")
      case True
      then obtain q where q: "q \<in> set stale" "e = file_of (the (encode (relabel q))) (so_now (ops (pl_ID q)))"
        using m l by fastforce
      with assms(4) obtain data where "encode (relabel q) = Some data" by (auto simp: sweepable_def)
      with assms(5) q e(3) have "p = relabel q" by (auto simp: read_record_def file_of_def)
      with e(4) show False by simp
    next
      case False
      with m l have "map_of d n = Some e" by simp
      then have d: "(n, e) \<in> set d" by (rule map_of_SomeD)
      with e have "p \<in> set stale" unfolding LoadRunning_iff [OF assms(2)] by blast
      moreover have "n = final_name (pl_ID p)" using assms(3) d e by blast
      ultimately show False using False by auto
    qed
  qed
  then have "ps = []" by (cases ps) auto
  with ps m eq show ?thesis by simp
qed

subsection \<open>verify\<close>

datatype signer_error = NoDaemonConfig | ReadDaemonConfig daemon_error | AuthorizerUnresolved daemon_error

definition resolveVerifySigner ::
    "config_json \<Rightarrow> yaml_lib \<Rightarrow> reader \<Rightarrow> Resolver \<Rightarrow> string \<Rightarrow> (signer_error, string) result" where
  "resolveVerifySigner json ym rd r dataDir =
     (case LoadConfig_daemon json rd (JoinPath [dataDir, ''daemon.json'']) of
        Inl e \<Rightarrow> if daemon_not_exist e then Inl NoDaemonConfig else Inl (ReadDaemonConfig e)
      | Inr cfg \<Rightarrow>
          (case ResolveOwnerKeyID ym rd r cfg of
             Inl e \<Rightarrow> Inl (AuthorizerUnresolved e)
           | Inr fpr \<Rightarrow> Inr fpr))"

fun signer_not_exist :: "signer_error \<Rightarrow> bool" where
  "signer_not_exist NoDaemonConfig = True"
| "signer_not_exist (ReadDaemonConfig e) = daemon_not_exist e"
| "signer_not_exist (AuthorizerUnresolved e) = daemon_not_exist e"

datatype verify_cmd_error =
    BadSigner string
  | NoPaths string
  | SignerUnresolved signer_error
  | UndecodableCommand string
  | BadSignature SignatureReason sig_detail
  | CouldNotVerify string
  | OutputFailed

text \<open>
  \<open>paths\<close> is the data directory and the resolver, or why they are not known; the result is the key a good
  signature is reported for.
\<close>

definition runVerify ::
    "(nat \<Rightarrow> nat) \<Rightarrow> 'r gpg \<Rightarrow> (Command \<Rightarrow> (string, string) result) \<Rightarrow> int \<Rightarrow> (string, Command) result
       \<Rightarrow> config_json \<Rightarrow> yaml_lib \<Rightarrow> reader \<Rightarrow> (string, string \<times> Resolver) result \<Rightarrow> bool \<Rightarrow> string
       \<Rightarrow> (verify_cmd_error, string) result" where
  "runVerify ufold g marshal now decoded json ym rd paths print signer0 =
     (if signer0 \<noteq> [] \<and> \<not> fingerprintPattern signer0 then Inl (BadSigner signer0)
      else and_then
        (if signer0 = [] then
           (case paths of
              Inl e \<Rightarrow> Inl (NoPaths e)
            | Inr (dataDir, r) \<Rightarrow>
                (case resolveVerifySigner json ym rd r dataDir of Inl e \<Rightarrow> Inl (SignerUnresolved e) | Inr fpr \<Rightarrow> Inr fpr))
         else Inr signer0)
        (\<lambda>signer.
          case decoded of
            Inl e \<Rightarrow> Inl (UndecodableCommand e)
          | Inr command \<Rightarrow>
              (case VerifySignature ufold g marshal now command signer of
                 Inr _ \<Rightarrow> if print then Inr signer else Inl OutputFailed
               | Inl (SignatureError reason d) \<Rightarrow> Inl (BadSignature reason d)
               | Inl (OperationalError e) \<Rightarrow> Inl (CouldNotVerify e))))"

subsection \<open>sign\<close>

text \<open>Lines that belong to a removed key: blank or indented.\<close>

definition continuation :: "string \<Rightarrow> bool" where
  "continuation line \<longleftrightarrow> line = [] \<or> HasPrefix line '' '' \<or> HasPrefix line [TAB]"

fun strip_lines :: "string \<Rightarrow> bool \<Rightarrow> string list \<Rightarrow> string list" where
  "strip_lines key_start skipping [] = []"
| "strip_lines key_start skipping (line # ls) =
     (if \<not> skipping then
        (if HasPrefix line key_start then strip_lines key_start True ls else line # strip_lines key_start False ls)
      else if continuation line then strip_lines key_start True ls
      else line # strip_lines key_start False ls)"

definition stripTopLevelKey :: "string \<Rightarrow> string \<Rightarrow> string" where
  "stripTopLevelKey data key = Join (strip_lines (key @ '':'') False (Split data NL)) [NL]"

text \<open>\<open>block\<close> is what the YAML library makes of the map with the one key.\<close>

definition spliceSignature :: "(string \<Rightarrow> (string, string) result) \<Rightarrow> string \<Rightarrow> string \<Rightarrow> (string, string) result" where
  "spliceSignature block original sig =
     (case block sig of
        Inl e \<Rightarrow> Inl e
      | Inr b \<Rightarrow>
          let stripped = stripTopLevelKey original ''signature'' in
          Inr ((if stripped \<noteq> [] \<and> last stripped \<noteq> NL then stripped @ [NL] else stripped) @ b))"

datatype sign_cmd_error =
    SignBadSigner string
  | AuthorizerError signer_error
  | SignerMismatch string string
  | WarningFailed
  | SignReadFailed string
  | SignDecode string
  | SignInvalid validate_error
  | SignCanonicalize string
  | SignPassphrase get_error
  | SignGpg sign_error bool
  | SignSplice string
  | SigningWrite
  | RereadFailed string
  | Recanonicalize string
  | DifferentBytes
  | RoundTripVerify verify_error
  | SignRename
  | SignOutput

definition checkSignerMatchesAuthorizer ::
    "(nat \<Rightarrow> nat) \<Rightarrow> (signer_error, string) result \<Rightarrow> bool \<Rightarrow> string \<Rightarrow> bool \<Rightarrow> (sign_cmd_error, unit) result" where
  "checkSignerMatchesAuthorizer ufold authorizer print signer force =
     (case authorizer of
        Inl e \<Rightarrow> if signer_not_exist e then Inr () else Inl (AuthorizerError e)
      | Inr expected \<Rightarrow>
          if EqualFold ufold expected signer then Inr ()
          else if \<not> force then Inl (SignerMismatch signer expected)
          else if print then Inr () else Inl WarningFailed)"















text \<open>The lines of a file around its signature key.\<close>

lemma strip_lines_pre:
  "\<forall>l \<in> set ls. \<not> HasPrefix l k \<Longrightarrow> strip_lines k False (ls @ rest) = ls @ strip_lines k False rest"
  by (induction ls) auto

lemma strip_lines_skip:
  "\<forall>l \<in> set cs. continuation l \<Longrightarrow> strip_lines k True (cs @ rest) = strip_lines k True rest"
  by (induction cs) auto

lemma strip_lines_post:
  assumes "\<forall>l \<in> set ls. \<not> HasPrefix l k" "ls = [] \<or> \<not> continuation (hd ls)"
  shows "strip_lines k True ls = ls"
  using assms strip_lines_pre [of "tl ls" k "[]"] by (cases ls) auto

lemma strip_block:
  assumes "\<forall>l \<in> set (as @ ls). \<not> HasPrefix l k" "HasPrefix s k" "\<forall>l \<in> set cs. continuation l"
    "ls = [] \<or> \<not> continuation (hd ls)"
  shows "strip_lines k False (as @ s # cs @ ls) = as @ ls"
  using assms strip_lines_pre [of as k] strip_lines_skip [of cs k ls] strip_lines_post [of ls k] by simp

lemma strip_absent: "\<forall>l \<in> set ls. \<not> HasPrefix l k \<Longrightarrow> strip_lines k False ls = ls"
  using strip_lines_pre [of ls k "[]"] by simp

text \<open>What the YAML library writes for one key: the key's line, then blank or indented lines, the last one ended.\<close>

definition signature_block :: "string \<Rightarrow> bool" where
  "signature_block b \<longleftrightarrow>
     (\<exists>s cs. b = Join (s # cs) [NL] \<and> NL \<notin> set s \<and> HasPrefix s ''signature:'' \<and> cs \<noteq> [] \<and> last cs = []
        \<and> (\<forall>l \<in> set cs. NL \<notin> set l \<and> continuation l))"

definition ended :: "string \<Rightarrow> string" where
  "ended s = (if s \<noteq> [] \<and> last s \<noteq> NL then s @ [NL] else s)"

definition unsigned_lines :: "string list \<Rightarrow> bool" where
  "unsigned_lines ls \<longleftrightarrow> (\<forall>l \<in> set ls. NL \<notin> set l \<and> \<not> HasPrefix l ''signature:'')"

text \<open>The last line of a file is not blank: it ends in one line end at most.\<close>

definition no_blank_end :: "string \<Rightarrow> bool" where
  "no_blank_end s \<longleftrightarrow> s \<noteq> [NL] \<and> \<not> HasSuffix s [NL, NL]"

lemma ended_shape:
  assumes "no_blank_end s" "s \<noteq> []"
  obtains u where "ended s = u @ [NL]" "u \<noteq> []" "last u \<noteq> NL" "s = u \<or> s = u @ [NL]"
proof (cases "last s = NL")
  case True
  then obtain u where u: "s = u @ [NL]" using assms(2) by (metis append_butlast_last_id)
  then have "u \<noteq> []" using assms(1) by (auto simp: no_blank_end_def)
  moreover have "last u \<noteq> NL"
  proof
    assume "last u = NL"
    then obtain v where "u = v @ [NL]" using \<open>u \<noteq> []\<close> by (metis append_butlast_last_id)
    then show False using assms(1) u by (simp add: no_blank_end_def HasSuffix_iff)
  qed
  ultimately show ?thesis using that [of u] u by (simp add: ended_def)
next
  case False
  then show ?thesis using that [of s] assms(2) by (simp add: ended_def)
qed

lemma strip_spliced:
  assumes "unsigned_lines ls" "signature_block b" "no_blank_end (Join ls [NL])"
  shows "ended (stripTopLevelKey (ended (Join ls [NL]) @ b) ''signature'') = ended (Join ls [NL])"
proof -
  obtain s cs where b: "b = Join (s # cs) [NL]" "NL \<notin> set s" "HasPrefix s ''signature:''" "\<forall>l \<in> set cs. NL \<notin> set l \<and> continuation l"
    using assms(2) by (auto simp: signature_block_def)
  have bs: "Split b NL = s # cs" unfolding b(1) using b(2,4) by (intro Split_Join) auto
  show ?thesis
  proof (cases "Join ls [NL] = []")
    case True
    have "stripTopLevelKey b ''signature'' = []"
      using strip_block [of "[]" "[]" "''signature:''" s cs] b(3,4) bs by (simp add: stripTopLevelKey_def)
    with True show ?thesis by (simp add: ended_def)
  next
    case False
    then obtain u where u: "ended (Join ls [NL]) = u @ [NL]" "u \<noteq> []" "last u \<noteq> NL" "Join ls [NL] = u \<or> Join ls [NL] = u @ [NL]"
      using ended_shape [OF assms(3)] by blast
    have ne: "ls \<noteq> []" using False by auto
    have "Split (Join ls [NL]) NL = ls" using assms(1) ne by (intro Split_Join) (auto simp: unsigned_lines_def)
    moreover have "set (Split u NL) \<subseteq> set (Split (u @ [NL]) NL)" using Split_append_sep2 [of u NL "[]"] by auto
    ultimately have lines: "set (Split u NL) \<subseteq> set ls" using u(4) by auto
    have "Split ((u @ [NL]) @ b) NL = Split u NL @ s # cs" using Split_append_sep2 [of u NL b] bs by simp
    moreover have "\<forall>l \<in> set (Split u NL @ []). \<not> HasPrefix l ''signature:''" using lines assms(1) by (auto simp: unsigned_lines_def)
    ultimately have "strip_lines ''signature:'' False (Split ((u @ [NL]) @ b) NL) = Split u NL"
      using strip_block [of "Split u NL" "[]" "''signature:''" s cs] b(3,4) by simp
    then have "stripTopLevelKey ((u @ [NL]) @ b) ''signature'' = u" by (simp add: stripTopLevelKey_def)
    moreover have "ended u = u @ [NL]" using u(2,3) by (simp add: ended_def)
    ultimately show ?thesis using u(1) by simp
  qed
qed

text \<open>
  Signing again replaces the signature and nothing else: the lines outside the signature key are kept, and splicing a
  second signature into the result is the same as splicing it into the original.
\<close>

theorem splice_again:
  assumes "spliceSignature block original sig = Inr spliced" "block sig = Inr b" "signature_block b"
    and "unsigned_lines (strip_lines ''signature:'' False (Split original NL))"
    and "no_blank_end (stripTopLevelKey original ''signature'')"
  shows "spliced = ended (stripTopLevelKey original ''signature'') @ b
    \<and> spliceSignature block spliced sig' = spliceSignature block original sig'"
proof -
  have splice: "spliceSignature block t x = (case block x of Inl e \<Rightarrow> Inl e | Inr y \<Rightarrow> Inr (ended (stripTopLevelKey t ''signature'') @ y))" for t x
    by (auto simp: spliceSignature_def ended_def Let_def split: sum.splits)
  have s: "spliced = ended (stripTopLevelKey original ''signature'') @ b"
    using assms(1,2) by (simp add: splice)
  have j: "stripTopLevelKey original ''signature'' = Join (strip_lines ''signature:'' False (Split original NL)) [NL]"
    by (simp add: stripTopLevelKey_def)
  have e: "ended (stripTopLevelKey spliced ''signature'') = ended (stripTopLevelKey original ''signature'')"
    using strip_spliced [OF assms(4,3)] assms(5) unfolding s j by blast
  show ?thesis unfolding splice [of spliced] splice [of original] e using s by (rule conjI) (rule refl)
qed

theorem splice_again_witness:
  "spliceSignature (\<lambda>s. Inr (''signature: |'' @ [NL] @ ''  '' @ s @ [NL])) (''name: a'' @ [NL] @ ''signature: |'' @ [NL] @ ''  X'' @ [NL]) ''Y''
     = Inr (''name: a'' @ [NL] @ ''signature: |'' @ [NL] @ ''  Y'' @ [NL])"
proof -
  let ?block = "\<lambda>s. Inr (''signature: |'' @ [NL] @ ''  '' @ s @ [NL]) :: (string, string) result"
  let ?b = "''signature: |'' @ [NL] @ ''  X'' @ [NL]"
  have s: "spliceSignature ?block ''name: a'' ''X'' = Inr (''name: a'' @ [NL] @ ?b)" by code_simp
  have b: "?block ''X'' = Inr ?b" by simp
  have sb: "signature_block ?b"
    unfolding signature_block_def by (intro exI [of _ "''signature: |''"] exI [of _ "[''  X'', []]"]) (auto simp: continuation_def)
  have u: "unsigned_lines (strip_lines ''signature:'' False (Split ''name: a'' NL))"
    "no_blank_end (stripTopLevelKey ''name: a'' ''signature'')" by code_simp+
  have "spliceSignature ?block (''name: a'' @ [NL] @ ?b) ''Y'' = spliceSignature ?block ''name: a'' ''Y''"
    by (rule conjunct2 [OF splice_again [where block = ?block, OF s b sb u]])
  also have "\<dots> = Inr (''name: a'' @ [NL] @ ''signature: |'' @ [NL] @ ''  Y'' @ [NL])" by code_simp
  finally show ?thesis by simp
qed

text \<open>
  A daemon.json whose \<open>owner_handle\<close> names an identity that does not exist is taken for no daemon.json at all: the
  missing identity file is \<open>os.ErrNotExist\<close> too, at the end of the chain of wrapped errors. So any key signs, without
  \<open>--force\<close>, although the comment says that no resolution failure but an absent daemon.json is ever ignored.
\<close>

lemma dangling_owner_handle_signs_anyway:
  assumes "rd (Clean (JoinPath [dataDir, ''daemon.json''])) = Inr data"
    and "json data = Inr \<lparr>dc_OwnerHandle = ''ghost'', dc_OwnerGPGKeyID = []\<rparr>"
    and "rd (Clean (identity_path r ''ghost'')) = Inl ErrNotExist"
  shows "checkSignerMatchesAuthorizer ufold (resolveVerifySigner json ym rd r dataDir) print signer False = Inr ()"
proof -
  have "ValidateHandle ''ghost'' = Inr ()" by code_simp
  then show ?thesis
    using assms
    by (simp add: checkSignerMatchesAuthorizer_def resolveVerifySigner_def LoadConfig_daemon_def ResolveOwnerKeyID_def
        ResolveHandle_def fromEthos_def)
qed

subsection \<open>init\<close>

record init_io =
  ii_stat :: "string option"
  ii_marshal :: "daemon_config \<Rightarrow> (string, string) result"
  ii_mkdir :: bool
  ii_write :: "nat option"
  ii_rename :: bool
  ii_remove :: bool
  ii_print :: bool

datatype init_error =
    ExactlyOne
  | InvalidAuthorizer daemon_error
  | UnusableKey string check_error
  | AlreadyExists
  | InitStat string
  | InitMarshal string
  | InitMkdir
  | InitWrite
  | InitRename
  | InitOutput

text \<open>\<open>probe\<close> is \<open>pgp.CheckKeyExpiry\<close> on the ambient keyring.\<close>

definition runInit ::
    "yaml_lib \<Rightarrow> reader \<Rightarrow> Resolver \<Rightarrow> (string \<Rightarrow> (check_error, unit) result) \<Rightarrow> init_io \<Rightarrow> string \<Rightarrow> string \<Rightarrow> string
       \<Rightarrow> bool \<Rightarrow> bool \<Rightarrow> file_map \<Rightarrow> (init_error, unit) result \<times> file_map" where
  "runInit ym rd r probe io dataDir handle fingerprint force noVerifyKey fs =
     (if (handle = []) = (fingerprint = []) then (Inl ExactlyOne, fs)
      else let cfg = \<lparr>dc_OwnerHandle = handle, dc_OwnerGPGKeyID = fingerprint\<rparr> in
        case ResolveOwnerKeyID ym rd r cfg of
          Inl e \<Rightarrow> (Inl (InvalidAuthorizer e), fs)
        | Inr fpr \<Rightarrow>
           (case (if noVerifyKey then Inr () else probe fpr) of
              Inl e \<Rightarrow> (Inl (UnusableKey fpr e), fs)
            | Inr _ \<Rightarrow>
                let configPath = JoinPath [dataDir, ''daemon.json''] in
                (case (if force then Inr ()
                       else case ii_stat io of
                              Some e \<Rightarrow> Inl (InitStat e)
                            | None \<Rightarrow> if fs configPath \<noteq> None then Inl AlreadyExists else Inr ()) of
                   Inl e \<Rightarrow> (Inl e, fs)
                 | Inr _ \<Rightarrow>
                     (case ii_marshal io cfg of
                        Inl e \<Rightarrow> (Inl (InitMarshal e), fs)
                      | Inr out \<Rightarrow>
                          let data = out @ [NL]; tmp = configPath @ ''.tmp'' in
                          if \<not> ii_mkdir io then (Inl InitMkdir, fs)
                          else (case ii_write io of
                                  Some n \<Rightarrow> (Inl InitWrite, fs(tmp \<mapsto> take n data))
                                | None \<Rightarrow>
                                    let fs1 = fs(tmp \<mapsto> data) in
                                    if \<not> ii_rename io then (Inl InitRename, if ii_remove io then fs1(tmp := None) else fs1)
                                    else let fs2 = fs1(tmp := None, configPath \<mapsto> data) in
                                      if \<not> ii_print io then (Inl InitOutput, fs2) else (Inr (), fs2))))))"

lemma ResolveOwnerKeyID_cong:
  assumes "\<And>p. identity_file r p \<Longrightarrow> rd p = rd' p" "rs_ethosDir r \<noteq> []"
  shows "ResolveOwnerKeyID ym rd r c = ResolveOwnerKeyID ym rd' r c"
proof -
  have "ResolveHandle ym rd r h = ResolveHandle ym rd' r h" for h
  proof (cases "ValidateHandle h")
    case (Inr u)
    have "fromEthos ym rd r h = fromEthos ym rd' r h" by (rule fromEthos_cong [OF assms(1) ValidateHandle_ok [OF Inr] assms(2)])
    then show ?thesis by (simp add: ResolveHandle_def)
  qed (simp add: ResolveHandle_def)
  then show ?thesis by (simp add: ResolveOwnerKeyID_def)
qed

text \<open>
  C29. What \<open>init\<close> writes, the daemon accepts: after it succeeds, a daemon that starts loads commands for exactly the key
  that was validated and, unless told otherwise, probed. Without \<open>--force\<close> it never replaces a configuration, and when
  it fails before its last message the old configuration stands.
\<close>

theorem init_enables:
  assumes "runInit ym rd r probe io dataDir handle fingerprint force noVerifyKey fs = (res, fs')"
    and "configPath = JoinPath [dataDir, ''daemon.json'']" "\<not> identity_file r (Clean configPath)" "rs_ethosDir r \<noteq> []"
    and "\<forall>c out. ii_marshal io c = Inr out \<longrightarrow> json (out @ [NL]) = Inr c"
  shows "(res = Inr () \<longrightarrow> (\<exists>key data. fs' configPath = Some data \<and> (noVerifyKey \<or> probe key = Inr ())
        \<and> resolveDaemonOwnerKeyID json ym (rd(Clean configPath := Inr data)) r configPath = ((key, True), False)))
    \<and> (fs' configPath = fs configPath \<or> res = Inr () \<or> res = Inl InitOutput)
    \<and> (force \<or> fs configPath = None \<or> fs' = fs)"
proof -
  let ?cfg = "\<lparr>dc_OwnerHandle = handle, dc_OwnerGPGKeyID = fingerprint\<rparr>"
  have ne: "configPath @ ''.tmp'' \<noteq> configPath" by simp
  have ok: "\<exists>key out. ResolveOwnerKeyID ym rd r ?cfg = Inr key \<and> (noVerifyKey \<or> probe key = Inr ())
      \<and> ii_marshal io ?cfg = Inr out \<and> fs' configPath = Some (out @ [NL])" if "res = Inr ()"
    using assms(1) that unfolding runInit_def Let_def assms(2) [symmetric]
    by (auto split: if_splits sum.splits option.splits)
  have "fs' configPath = fs configPath \<or> res = Inr () \<or> res = Inl InitOutput"
    using assms(1) ne unfolding runInit_def Let_def assms(2) [symmetric]
    by (auto split: if_splits sum.splits option.splits)
  moreover have "force \<or> fs configPath = None \<or> fs' = fs"
    using assms(1) unfolding runInit_def Let_def assms(2) [symmetric]
    by (auto split: if_splits sum.splits option.splits)
  moreover have "\<exists>key data. fs' configPath = Some data \<and> (noVerifyKey \<or> probe key = Inr ())
        \<and> resolveDaemonOwnerKeyID json ym (rd(Clean configPath := Inr data)) r configPath = ((key, True), False)" if "res = Inr ()"
  proof -
    from ok [OF that] obtain key out where k: "ResolveOwnerKeyID ym rd r ?cfg = Inr key" "noVerifyKey \<or> probe key = Inr ()"
      "ii_marshal io ?cfg = Inr out" "fs' configPath = Some (out @ [NL])" by blast
    let ?rd = "rd(Clean configPath := Inr (out @ [NL]))"
    have "ResolveOwnerKeyID ym ?rd r ?cfg = Inr key"
      using k(1) ResolveOwnerKeyID_cong [of r rd ?rd ym ?cfg] assms(3,4) by (metis fun_upd_other)
    then have "resolveDaemonOwnerKeyID json ym ?rd r configPath = ((key, True), False)"
      using assms(5) k(3) by (simp add: resolveDaemonOwnerKeyID_def LoadConfig_daemon_def)
    with k show ?thesis by blast
  qed
  ultimately show ?thesis by blast
qed

definition sample_owner_json :: config_json where
  "sample_owner_json = (\<lambda>_. Inr \<lparr>dc_OwnerHandle = [], dc_OwnerGPGKeyID = sample_owner\<rparr>)"

lemma sample_owner_resolved:
  "resolveDaemonOwnerKeyID sample_owner_json sample_ym (\<lambda>_. Inr []) sample_rs ''d'' = ((sample_owner, True), False)"
  by code_simp

theorem daemon_commands_need_owner_witness:
  "fingerprintPattern sample_owner \<and> command_ok (\<lambda>_. None) (default_runner_mode (sample_command\<lparr>cmd_Signature := ''sig''\<rparr>))"
proof -
  have "map_of (loadDaemonCommands (\<lambda>owner. LoadCommands id sample_gpg (\<lambda>c. if cmd_Signature c = [] then Inr ''canon'' else Inr ''x'') 10
     (\<lambda>_. None) (\<lambda>p. if p = ''a.yaml'' then Inr (sample_command\<lparr>cmd_Signature := ''sig''\<rparr>) else Inl ''bad'')
     owner (Inr [\<lparr>de_Name = ''a.yaml'', de_IsDir = False\<rparr>, \<lparr>de_Name = ''b.yaml'', de_IsDir = False\<rparr>])) sample_owner True) ''lookup''
    = Some (default_runner_mode (sample_command\<lparr>cmd_Signature := ''sig''\<rparr>))"
    by (simp add: loadDaemonCommands_def sample_load)
  from daemon_commands_need_owner [OF sample_owner_resolved this] show ?thesis by simp
qed

theorem sweep_settles_witness:
  "\<exists>encode decode ops d. LoadRunning decode (Entries d) \<noteq> Inr []
     \<and> LoadRunning decode (Entries (sweepStalePipelines encode decode ops (Entries d) d)) = Inr []"
proof -
  let ?p = sample_pipeline
  define encode where "encode = (\<lambda>p. if p = ?p then Some ''live'' else if p = relabel ?p then Some ''dead'' else None)"
  define decode where "decode = (\<lambda>s :: string. if s = ''live'' then Some ?p else if s = ''dead'' then Some (relabel ?p) else None)"
  define ops where "ops = (\<lambda>_ :: string. \<lparr>so_mkdir = True, so_write = True, so_partial = None, so_rename = True, so_now = 1\<rparr>)"
  define d where "d = [(final_name (pl_ID ?p), file_of ''live'' 0)]"
  have id: "\<not> bad_id (pl_ID ?p)" "\<not> HasPrefix (pl_ID ?p) ''.tmp-''" "pl_Status ?p = ''running''" by code_simp+
  have rf: "record_file (final_name (pl_ID ?p), file_of ''live'' 0)" by code_simp
  have rr: "read_record decode (file_of ''live'' 0) = Some ?p" by (simp add: read_record_def file_of_def decode_def)
  have stale: "LoadRunning decode (Entries d) = Inr [?p]"
    using rf rr id(3) by (simp add: LoadRunning_def d_def List.map_filter_simps)
  have ok: "dir_ok d" by (simp add: dir_ok_def d_def)
  have sw: "\<forall>p \<in> set [?p]. sweepable encode ops d p"
    using id by (simp add: sweepable_def save_works_def ops_def encode_def d_def names_distinct(1))
  have names: "\<forall>(n, e) \<in> set d. \<forall>p. record_file (n, e) \<and> read_record decode e = Some p \<longrightarrow> n = final_name (pl_ID p)"
    using rr by (simp add: d_def)
  have rt: "\<forall>p data. encode p = Some data \<longrightarrow> decode data = Some p" by (simp add: encode_def decode_def)
  from sweep_settles [OF ok stale names sw rt] stale show ?thesis by (intro exI [of _ encode] exI [of _ decode] exI [of _ ops] exI [of _ d]) simp
qed




theorem init_enables_witness:
  "\<exists>fs' key data. runInit sample_ym (\<lambda>_. Inl ErrNotExist) sample_rs (\<lambda>_. Inr ())
       \<lparr>ii_stat = None, ii_marshal = (\<lambda>c. if c = \<lparr>dc_OwnerHandle = [], dc_OwnerGPGKeyID = sample_owner\<rparr> then Inr [] else Inl []),
         ii_mkdir = True, ii_write = None, ii_rename = True, ii_remove = True, ii_print = True\<rparr>
       ''/d'' [] sample_owner False False (\<lambda>_. None) = (Inr (), fs')
     \<and> fs' ''/d/daemon.json'' = Some data
     \<and> resolveDaemonOwnerKeyID sample_owner_json sample_ym ((\<lambda>_. Inl ErrNotExist)(''/d/daemon.json'' := Inr data)) sample_rs
         ''/d/daemon.json'' = ((key, True), False)"
proof -
  let ?io = "\<lparr>ii_stat = None, ii_marshal = (\<lambda>c. if c = \<lparr>dc_OwnerHandle = [], dc_OwnerGPGKeyID = sample_owner\<rparr> then Inr [] else Inl []),
         ii_mkdir = True, ii_write = None, ii_rename = True, ii_remove = True, ii_print = True\<rparr>"
  let ?run = "runInit sample_ym (\<lambda>_. Inl ErrNotExist) sample_rs (\<lambda>_. Inr ()) ?io ''/d'' [] sample_owner False False (\<lambda>_. None)"
  have "fst ?run = Inr ()" by code_simp
  then obtain fs' where r: "?run = (Inr (), fs')" by (metis prod.collapse)
  have p: "''/d/daemon.json'' = JoinPath [''/d'', ''daemon.json'']" "Clean ''/d/daemon.json'' = ''/d/daemon.json''" by code_simp+
  have e: "path_comps (rs_ethosDir sample_rs) = [''h'', ''ethos'']" "path_comps ''/d/daemon.json'' = [''d'', ''daemon.json'']"
    "Clean (repo_config sample_rs) = ''/w/.punt-labs/ethos.yaml''" "Clean (active_path sample_rs) = ''/h/ethos/active''"
    "Clean (default_path sample_rs) = ''/h/beadle/default-identity''" by code_simp+
  have n: "\<not> identity_file sample_rs (Clean ''/d/daemon.json'')" unfolding p(2) by (simp add: identity_file_def e)
  have ne: "rs_ethosDir sample_rs \<noteq> []" by (simp add: sample_rs_def)
  have rt: "\<forall>c out. ii_marshal ?io c = Inr out \<longrightarrow> sample_owner_json (out @ [NL]) = Inr c" by (auto simp: sample_owner_json_def split: if_splits)
  have "\<exists>key data. fs' ''/d/daemon.json'' = Some data \<and> (False \<or> (\<lambda>_. Inr () :: (check_error, unit) result) key = Inr ())
      \<and> resolveDaemonOwnerKeyID sample_owner_json sample_ym ((\<lambda>_. Inl ErrNotExist)(Clean ''/d/daemon.json'' := Inr data)) sample_rs
         ''/d/daemon.json'' = ((key, True), False)"
    by (rule init_enables [OF r p(1) n ne rt, THEN conjunct1, THEN mp]) (rule refl)
  then obtain key data where d: "fs' ''/d/daemon.json'' = Some data"
    "resolveDaemonOwnerKeyID sample_owner_json sample_ym ((\<lambda>_. Inl ErrNotExist)(''/d/daemon.json'' := Inr data)) sample_rs
         ''/d/daemon.json'' = ((key, True), False)" unfolding p(2) by (elim exE conjE)
  show ?thesis by (intro exI conjI) (rule r, rule d(1), rule d(2))
qed

end
