(* ===== verification/ReplyTag.thy ===== *)
theory ReplyTag
  imports GoSplit
begin

section \<open>Repository tags, threading headers and reply subjects\<close>

text \<open>
  Models \<open>internal/email/repotag.go\<close>, the \<open>Threading\<close> of \<open>compose.go\<close> and the text functions of \<open>reply.go\<close>. The
  output of \<open>git remote get-url origin\<close> is an argument, and so are the case folding of runes outside ASCII and the
  rendering of a date. The regular expressions are written out as the matches RE2 prefers.
\<close>

subsection \<open>The slug of a remote\<close>

record RepoTag =
  rt_Slug :: string
  rt_Agent :: string

definition no_tag :: RepoTag where "no_tag = \<lparr>rt_Slug = [], rt_Agent = []\<rparr>"

definition splitSlug :: "string \<Rightarrow> (string \<times> string) option" where
  "splitSlug s =
     (case Cut s (CHR ''/'') of
        None \<Rightarrow> None
      | Some (ownr, repo) \<Rightarrow>
          if ownr = [] \<or> repo = [] then None
          else if CHR ''/'' \<in> set repo then None
          else if has_space s \<or> has_control s then None
          else Some (ownr, repo))"

text \<open>\<open>(.+?)(?:\.git)?$\<close>: one line, not empty, without a final ".git" unless that is all of it.\<close>

definition match_path :: "string \<Rightarrow> string option" where
  "match_path s =
     (if s = [] \<or> NL \<in> set s then None
      else Some (if HasSuffix s ''.git'' \<and> 4 < length s then take (length s - 4) s else s))"

definition slugSCP :: "string \<Rightarrow> string option" where
  "slugSCP url =
     (case Cut url (CHR ''@'') of
        None \<Rightarrow> None
      | Some (user, rest) \<Rightarrow>
          (case Cut rest (CHR '':'') of
             None \<Rightarrow> None
           | Some (host, path) \<Rightarrow> if user = [] \<or> host = [] then None else match_path path))"

fun first_some :: "'a option list \<Rightarrow> 'a option" where
  "first_some [] = None"
| "first_some (Some x # xs) = Some x"
| "first_some (None # xs) = first_some xs"

definition slugURL :: "string \<Rightarrow> string option" where
  "slugURL url =
     (case first_some (map (CutPrefix url) [''https://'', ''http://'', ''ssh://'']) of
        None \<Rightarrow> None
      | Some rest \<Rightarrow>
          (case Cut rest (CHR ''/'') of
             None \<Rightarrow> None
           | Some (host, path) \<Rightarrow> if host = [] then None else match_path path))"

definition valid_slug :: "string option \<Rightarrow> string option" where
  "valid_slug m = (case m of None \<Rightarrow> None | Some s \<Rightarrow> if splitSlug s = None then None else Some s)"

definition parseRepoSlug :: "string \<Rightarrow> string" where
  "parseRepoSlug raw =
     (let url = TrimSpace raw in
      case first_some [valid_slug (slugSCP url), valid_slug (slugURL url)] of None \<Rightarrow> [] | Some s \<Rightarrow> s)"

text \<open>\<open>git\<close> is what the command printed, \<open>None\<close> when it failed or ran out of time.\<close>

definition ResolveRepoTag :: "string option \<Rightarrow> string \<Rightarrow> RepoTag" where
  "ResolveRepoTag git agent =
     (case git of
        None \<Rightarrow> no_tag
      | Some out \<Rightarrow>
          let slug = parseRepoSlug out in
          if slug = [] then no_tag
          else \<lparr>rt_Slug = slug, rt_Agent = if has_control agent then [] else agent\<rparr>)"

subsection \<open>The tag in a subject\<close>

definition tag_empty :: "RepoTag \<Rightarrow> bool" where
  "tag_empty t \<longleftrightarrow> rt_Slug t = []"

definition lower_ascii :: "char \<Rightarrow> char" where
  "lower_ascii c = (if 65 \<le> byte c \<and> byte c \<le> 90 then char_of (byte c + 32) else c)"

definition re_space :: "char \<Rightarrow> bool" where
  "re_space c \<longleftrightarrow> c \<in> {CHR '' '', TAB, NL, CR, CHR 0x0C}"

text \<open>The length of one marker \<open>word\s*:\<close>, white space after the colon not counted, for the word the text starts with.\<close>

definition after_word :: "string \<Rightarrow> string \<Rightarrow> string option" where
  "after_word word s =
     (if map lower_ascii (take (length word) s) = word
      then (case dropWhile re_space (drop (length word) s) of c # r \<Rightarrow> if c = CHR '':'' then Some r else None | [] \<Rightarrow> None)
      else None)"

definition after_marker :: "string \<Rightarrow> string option" where
  "after_marker s = map_option (dropWhile re_space) (first_some (map (\<lambda>w. after_word w s) [''re'', ''fwd'', ''fw'']))"

lemma after_word_shorter: "after_word w s = Some r \<Longrightarrow> length r < length s"
proof -
  assume a: "after_word w s = Some r"
  then obtain c where d: "dropWhile re_space (drop (length w) s) = c # r"
    by (auto simp: after_word_def split: if_splits list.splits)
  have "length (dropWhile re_space (drop (length w) s)) \<le> length (drop (length w) s)" by (rule length_dropWhile_le)
  then show ?thesis unfolding d by simp
qed

lemma first_some_in: "first_some xs = Some x \<Longrightarrow> Some x \<in> set xs"
  by (induction xs rule: first_some.induct) auto

lemma after_marker_shorter: "after_marker s = Some r \<Longrightarrow> length r < length s"
proof -
  assume "after_marker s = Some r"
  then obtain q where q: "first_some (map (\<lambda>w. after_word w s) [''re'', ''fwd'', ''fw'']) = Some q" and r: "r = dropWhile re_space q"
    unfolding after_marker_def by blast
  obtain w where "after_word w s = Some q" using first_some_in [OF q] unfolding set_map by (metis imageE)
  from after_word_shorter [OF this] show ?thesis unfolding r by (rule le_less_trans [OF length_dropWhile_le])
qed

text \<open>What follows the longest run of markers.\<close>

function after_markers :: "string \<Rightarrow> string" where
  "after_markers s = (case after_marker s of None \<Rightarrow> s | Some r \<Rightarrow> after_markers r)"
  by pat_completeness auto
termination
  by (relation "measure length") (auto dest: after_marker_shorter)

declare after_markers.simps [simp del]

definition bracketTagged :: "(nat \<Rightarrow> nat) \<Rightarrow> RepoTag \<Rightarrow> string \<Rightarrow> bool" where
  "bracketTagged ufold t s =
     (case splitSlug (rt_Slug t) of
        None \<Rightarrow> False
      | Some (curOwner, _) \<Rightarrow>
          if \<not> HasPrefix s ''['' then False
          else (case IndexByte s (CHR '']'') of
                  None \<Rightarrow> False
                | Some i \<Rightarrow>
                    (case splitSlug (drop 1 (take i s)) of
                       None \<Rightarrow> False
                     | Some (ownr, _) \<Rightarrow> EqualFold ufold ownr curOwner)))"

definition subject :: "(nat \<Rightarrow> nat) \<Rightarrow> RepoTag \<Rightarrow> string \<Rightarrow> string" where
  "subject ufold t s =
     (if tag_empty t then s
      else let rest = after_markers s; prefx = take (length s - length rest) s in
        if bracketTagged ufold t rest then s else prefx @ ''['' @ rt_Slug t @ ''] '' @ rest)"

definition reMarker :: "string \<Rightarrow> bool" where
  "reMarker s \<longleftrightarrow> after_word ''re'' (dropWhile re_space s) \<noteq> None"

definition ReplySubject :: "(nat \<Rightarrow> nat) \<Rightarrow> string \<Rightarrow> RepoTag \<Rightarrow> string" where
  "ReplySubject ufold original t = subject ufold t (if reMarker original then original else ''Re: '' @ original)"

subsection \<open>The headers of a tag and of a thread\<close>

definition contains_crlf :: "string \<Rightarrow> bool" where
  "contains_crlf s = ContainsAny s [CR, NL]"

datatype header_error = TagHasCRLF | ThreadingHasCRLF

definition header_line :: "string \<Rightarrow> string \<Rightarrow> string" where
  "header_line k v = k @ '': '' @ v @ CRLF"

definition HeaderRepo :: string where "HeaderRepo = ''X-Beadle-Repo''"
definition HeaderAgent :: string where "HeaderAgent = ''X-Beadle-Agent''"

definition tag_headers :: "RepoTag \<Rightarrow> (header_error, string \<rightharpoonup> string) result" where
  "tag_headers t =
     (if tag_empty t then Inr Map.empty
      else if contains_crlf (rt_Slug t) \<or> contains_crlf (rt_Agent t) then Inl TagHasCRLF
      else let h = [HeaderRepo \<mapsto> rt_Slug t] in
        if rt_Agent t \<noteq> [] then Inr (h(HeaderAgent \<mapsto> rt_Agent t)) else Inr h)"

definition tag_writeHeaders :: "RepoTag \<Rightarrow> (header_error, string) result" where
  "tag_writeHeaders t =
     (if tag_empty t then Inr []
      else if contains_crlf (rt_Slug t) \<or> contains_crlf (rt_Agent t) then Inl TagHasCRLF
      else Inr (header_line HeaderRepo (rt_Slug t)
        @ (if rt_Agent t \<noteq> [] then header_line HeaderAgent (rt_Agent t) else [])))"

record Threading =
  th_InReplyTo :: string
  th_References :: "string list"

definition no_thread :: Threading where "no_thread = \<lparr>th_InReplyTo = [], th_References = []\<rparr>"

definition thread_empty :: "Threading \<Rightarrow> bool" where
  "thread_empty t \<longleftrightarrow> th_InReplyTo t = [] \<and> th_References t = []"

definition thread_writeHeaders :: "Threading \<Rightarrow> (header_error, string) result" where
  "thread_writeHeaders t =
     (if thread_empty t then Inr []
      else let refs = Join (th_References t) '' '' in
        if contains_crlf (th_InReplyTo t) \<or> contains_crlf refs then Inl ThreadingHasCRLF
        else Inr ((if th_InReplyTo t \<noteq> [] then header_line ''In-Reply-To'' (th_InReplyTo t) else [])
          @ (if refs \<noteq> [] then header_line ''References'' refs else [])))"

definition thread_headers :: "Threading \<Rightarrow> (header_error, string \<rightharpoonup> string) result" where
  "thread_headers t =
     (if thread_empty t then Inr Map.empty
      else let refs = Join (th_References t) '' '' in
        if contains_crlf (th_InReplyTo t) \<or> contains_crlf refs then Inl ThreadingHasCRLF
        else let h = (if th_InReplyTo t \<noteq> [] then [''In-Reply-To'' \<mapsto> th_InReplyTo t] else Map.empty) in
          Inr (if refs \<noteq> [] then h(''References'' \<mapsto> refs) else h))"

definition mergeHeaders :: "(string \<rightharpoonup> string) \<Rightarrow> (string \<rightharpoonup> string) \<Rightarrow> string \<rightharpoonup> string" where
  "mergeHeaders a b = a ++ b"

subsection \<open>The body of a reply\<close>

definition buildReferences :: "string \<Rightarrow> string \<Rightarrow> string \<Rightarrow> string list" where
  "buildReferences references inReplyTo messageID =
     (let chain = (if TrimSpace references \<noteq> [] then Fields references
                   else if TrimSpace inReplyTo \<noteq> [] then Fields inReplyTo else []);
          i = TrimSpace messageID
      in if i \<noteq> [] then chain @ [i] else chain)"

text \<open>The date as it is rendered, \<open>None\<close> for the zero time.\<close>

definition attributionLine :: "string \<Rightarrow> string option \<Rightarrow> string" where
  "attributionLine sender date =
     (case (sender \<noteq> [], date) of
        (True, Some d) \<Rightarrow> ''On '' @ d @ '', '' @ sender @ '' wrote:''
      | (True, None) \<Rightarrow> sender @ '' wrote:''
      | (False, Some d) \<Rightarrow> ''On '' @ d @ '', the original message read:''
      | (False, None) \<Rightarrow> ''Quoting the original message:'')"

definition trim_right_nl :: "string \<Rightarrow> string" where
  "trim_right_nl s = rev (dropWhile (\<lambda>c. c = NL) (rev s))"

definition quote_line :: "string \<Rightarrow> string" where
  "quote_line l = (if l = [] then ''>'' else ''> '' @ l) @ [NL]"

definition QuoteBody :: "string \<Rightarrow> string \<Rightarrow> string option \<Rightarrow> string \<Rightarrow> string" where
  "QuoteBody newText sender date original =
     (let start = newText @ [NL, NL] @ attributionLine sender date @ [NL];
          body = trim_right_nl (crlf_to_lf original)
      in if body = [] then start else start @ concat (map quote_line (Split body NL)))"

subsection \<open>A subject is tagged once\<close>

lemma after_wordI:
  assumes "map lower_ascii w' = w" "\<forall>c \<in> set sp. re_space c"
  shows "after_word w (w' @ sp @ CHR '':'' # r) = Some r"
proof -
  have "length w' = length w" using assms(1) by auto
  moreover have "dropWhile re_space (sp @ CHR '':'' # r) = CHR '':'' # r"
    using assms(2) by (simp add: dropWhile_append1 re_space_def)
  ultimately show ?thesis using assms(1) by (simp add: after_word_def)
qed

lemma after_wordE:
  assumes "after_word w s = Some r"
  obtains w' sp where "s = w' @ sp @ CHR '':'' # r" "map lower_ascii w' = w" "\<forall>c \<in> set sp. re_space c"
proof -
  let ?d = "drop (length w) s"
  from assms have l: "map lower_ascii (take (length w) s) = w" and d: "dropWhile re_space ?d = CHR '':'' # r"
    by (auto simp: after_word_def split: if_splits list.splits)
  have e: "s = take (length w) s @ takeWhile re_space ?d @ CHR '':'' # r"
    unfolding d [symmetric] by simp
  have "\<forall>c \<in> set (takeWhile re_space ?d). re_space c" by (auto dest: set_takeWhileD)
  from that [OF e l this] show ?thesis .
qed

lemma after_word_other:
  assumes "map lower_ascii w' = w" "\<forall>c \<in> set sp. re_space c" "after_word v (w' @ sp @ CHR '':'' # r) \<noteq> None"
    "v \<in> {''re'', ''fwd'', ''fw''}" "w \<in> {''re'', ''fwd'', ''fw''}"
  shows "v = w"
proof -
  obtain q where q: "after_word v (w' @ sp @ CHR '':'' # r) = Some q" using assms(3) by blast
  obtain v' sp' where e: "w' @ sp @ CHR '':'' # r = v' @ sp' @ CHR '':'' # q" and v: "map lower_ascii v' = v"
    and sp': "\<forall>c \<in> set sp'. re_space c" by (rule after_wordE [OF q])
  have letter: "x \<noteq> CHR '':'' \<and> \<not> re_space x" if "x \<in> set u" "map lower_ascii u \<in> {''re'', ''fwd'', ''fw''}" for x u
  proof -
    have "lower_ascii x \<in> set (map lower_ascii u)" using that(1) by simp
    then have "lower_ascii x \<in> {CHR ''r'', CHR ''e'', CHR ''f'', CHR ''w'', CHR ''d''}" using that(2) by auto
    then show ?thesis by (auto simp: lower_ascii_def re_space_def byte_def split: if_splits)
  qed
  let ?P = "\<lambda>c. c \<noteq> CHR '':'' \<and> \<not> re_space c"
  have t: "takeWhile ?P (u @ s2 @ CHR '':'' # x) = u" if "map lower_ascii u \<in> {''re'', ''fwd'', ''fw''}" "\<forall>c \<in> set s2. re_space c" for u s2 x
    using letter [OF _ that(1)] that(2) by (cases s2) (simp_all add: takeWhile_append2)
  have "w' = v'" using t [of w' sp r] t [of v' sp' q] assms(1,2,4,5) v sp' e by simp
  with assms(1) v show ?thesis by simp
qed

lemma after_markerI:
  assumes "map lower_ascii w' \<in> {''re'', ''fwd'', ''fw''}" "\<forall>c \<in> set sp \<union> set sp2. re_space c" "r = [] \<or> \<not> re_space (hd r)"
  shows "after_marker (w' @ sp @ CHR '':'' # sp2 @ r) = Some r"
proof -
  let ?s = "w' @ sp @ CHR '':'' # sp2 @ r"
  have d: "dropWhile re_space (sp2 @ r) = r" using assms(2,3) by (cases r) (simp_all add: dropWhile_append2)
  have sp: "\<forall>c \<in> set sp. re_space c" using assms(2) by blast
  note self = after_wordI [OF refl sp, of w' "sp2 @ r"]
  have other: "after_word v ?s = None" if "v \<in> {''re'', ''fwd'', ''fw''}" "v \<noteq> map lower_ascii w'" for v
    using after_word_other [OF refl sp _ that(1) assms(1), of "sp2 @ r"] that(2) by blast
  consider "map lower_ascii w' = ''re''" | "map lower_ascii w' = ''fwd''" | "map lower_ascii w' = ''fw''" using assms(1) by blast
  then have "first_some (map (\<lambda>w. after_word w ?s) [''re'', ''fwd'', ''fw'']) = Some (sp2 @ r)"
  proof cases
    case 1
    then show ?thesis using self by simp
  next
    case 2
    then show ?thesis using self other [of "''re''"] by simp
  next
    case 3
    then show ?thesis using self other [of "''re''"] other [of "''fwd''"] by simp
  qed
  then show ?thesis by (simp add: after_marker_def d)
qed

lemma after_markerE:
  assumes "after_marker s = Some r"
  obtains w' sp sp2 where "s = w' @ sp @ CHR '':'' # sp2 @ r" "map lower_ascii w' \<in> {''re'', ''fwd'', ''fw''}"
    "\<forall>c \<in> set sp \<union> set sp2. re_space c" "r = [] \<or> \<not> re_space (hd r)"
proof -
  obtain q where q: "first_some (map (\<lambda>w. after_word w s) [''re'', ''fwd'', ''fw'']) = Some q" and r: "r = dropWhile re_space q"
    using assms unfolding after_marker_def by blast
  obtain w where w: "after_word w s = Some q" "w \<in> {''re'', ''fwd'', ''fw''}"
    using first_some_in [OF q] by (auto simp del: first_some.simps)
  obtain w' sp where s: "s = w' @ sp @ CHR '':'' # q" "map lower_ascii w' = w" "\<forall>c \<in> set sp. re_space c" by (rule after_wordE [OF w(1)])
  have "q = takeWhile re_space q @ r" unfolding r by simp
  then have e: "s = w' @ sp @ CHR '':'' # takeWhile re_space q @ r" using s(1) by simp
  have m: "map lower_ascii w' \<in> {''re'', ''fwd'', ''fw''}" using w(2) unfolding s(2) .
  have u: "\<forall>c \<in> set sp \<union> set (takeWhile re_space q). re_space c" using s(3) by (auto dest: set_takeWhileD)
  have "r = [] \<or> \<not> re_space (hd r)" unfolding r by (rule disj_imp [THEN iffD2], rule impI, rule hd_dropWhile)
  from that [OF e m u this] show ?thesis .
qed

lemma after_markers_suffix: "\<exists>p. s = p @ after_markers s"
proof (induction s rule: after_markers.induct)
  case (1 s)
  show ?case
  proof (cases "after_marker s")
    case (Some r)
    then obtain q where "s = q @ r" by (metis after_markerE append.assoc append_Cons)
    moreover have "after_markers s = after_markers r" by (subst after_markers.simps) (simp add: Some)
    ultimately show ?thesis using 1 [OF Some] by (metis append.assoc)
  qed (subst after_markers.simps, simp)
qed

lemma after_marker_bracket: "after_marker (CHR ''['' # x) = None"
proof (rule ccontr)
  assume "after_marker (CHR ''['' # x) \<noteq> None"
  then obtain r where "after_marker (CHR ''['' # x) = Some r" by blast
  then obtain w' rest where "CHR ''['' # x = w' @ rest" "map lower_ascii w' \<in> {''re'', ''fwd'', ''fw''}" by (rule after_markerE)
  then show False by (cases w') (auto simp: lower_ascii_def byte_def split: if_splits)
qed

text \<open>Text that starts with a bracket, put behind the markers of a subject, is what follows the markers.\<close>

lemma after_markers_insert:
  assumes "s = p @ after_markers s"
  shows "after_markers (p @ CHR ''['' # x) = CHR ''['' # x"
  using assms
proof (induction s arbitrary: p rule: after_markers.induct)
  case (1 s)
  show ?case
  proof (cases "after_marker s")
    case None
    then have "p = []" using 1(2) by (subst (asm) after_markers.simps) simp
    then show ?thesis by (subst after_markers.simps) (simp add: after_marker_bracket)
  next
    case (Some r)
    then obtain w' sp sp2 where s: "s = w' @ sp @ CHR '':'' # sp2 @ r" "map lower_ascii w' \<in> {''re'', ''fwd'', ''fw''}"
      "\<forall>c \<in> set sp \<union> set sp2. re_space c" "r = [] \<or> \<not> re_space (hd r)" by (rule after_markerE)
    have am: "after_markers s = after_markers r" by (subst after_markers.simps) (simp add: Some)
    obtain p' where p': "r = p' @ after_markers r" using after_markers_suffix by blast
    have "s = (w' @ sp @ CHR '':'' # sp2 @ p') @ after_markers r" using s(1) p' by simp
    then have p: "p = w' @ sp @ CHR '':'' # sp2 @ p'" using 1(2) am by (metis append_same_eq)
    have h: "\<not> re_space (hd (p' @ CHR ''['' # x))"
    proof (cases p')
      case Nil
      then show ?thesis by (simp add: re_space_def)
    next
      case (Cons c cs)
      then have "hd r = c" "r \<noteq> []" using p' by (metis append_Cons list.sel(1), metis append_Cons list.distinct(1))
      with s(4) show ?thesis by (simp add: Cons)
    qed
    have "after_marker (p @ CHR ''['' # x) = Some (p' @ CHR ''['' # x)"
      unfolding p using after_markerI [OF s(2,3), of "p' @ CHR ''['' # x"] h by simp
    then show ?thesis using 1(1) [OF Some p'] by (subst after_markers.simps) simp
  qed
qed

lemma bracketTagged_own:
  assumes "splitSlug (rt_Slug t) \<noteq> None" "CHR '']'' \<notin> set (rt_Slug t)"
  shows "bracketTagged ufold t (CHR ''['' # rt_Slug t @ CHR '']'' # r)"
proof -
  obtain ownr repo where o: "splitSlug (rt_Slug t) = Some (ownr, repo)" using assms(1) by auto
  have "IndexByte (CHR ''['' # rt_Slug t @ CHR '']'' # r) (CHR '']'') = Some (Suc (length (rt_Slug t)))"
    using IndexByte_append [of "CHR '']''" "CHR ''['' # rt_Slug t" r] assms(2) by simp
  then show ?thesis by (simp add: bracketTagged_def o)
qed

lemma subject_cases:
  obtains "subject ufold t s = s" "tag_empty t \<or> bracketTagged ufold t (after_markers s)"
  | p where "s = p @ after_markers s" "subject ufold t s = p @ CHR ''['' # rt_Slug t @ CHR '']'' # CHR '' '' # after_markers s"
      "\<not> tag_empty t"
proof -
  obtain p where p: "s = p @ after_markers s" using after_markers_suffix by blast
  then have t: "take (length s - length (after_markers s)) s = p"
    by (metis add_diff_cancel_right' append_eq_conv_conj length_append)
  show ?thesis
  proof (cases "tag_empty t \<or> bracketTagged ufold t (after_markers s)")
    case True
    then show ?thesis using that(1) by (auto simp: subject_def Let_def)
  next
    case False
    then show ?thesis using that(2) [OF p] by (simp add: subject_def Let_def t)
  qed
qed

lemma subject_again:
  assumes "splitSlug (rt_Slug t) \<noteq> None" "CHR '']'' \<notin> set (rt_Slug t)"
  shows "subject ufold t (subject ufold t s) = subject ufold t s"
proof (cases rule: subject_cases [of ufold t s])
  case (2 p)
  show ?thesis unfolding 2(2)
    by (simp add: subject_def Let_def after_markers_insert [OF 2(1)] bracketTagged_own [OF assms])
qed simp

lemma parseRepoSlug_valid: "parseRepoSlug raw = [] \<or> splitSlug (parseRepoSlug raw) \<noteq> None"
  by (auto simp: parseRepoSlug_def Let_def valid_slug_def split: option.splits if_splits)

lemma ResolveRepoTag_valid: "tag_empty (ResolveRepoTag git agent) \<or> splitSlug (rt_Slug (ResolveRepoTag git agent)) \<noteq> None"
  using parseRepoSlug_valid
  by (auto simp: ResolveRepoTag_def tag_empty_def no_tag_def Let_def split: option.splits)

lemma resolved_subject_again:
  assumes "t = ResolveRepoTag git agent" "CHR '']'' \<notin> set (rt_Slug t)"
  shows "subject ufold t (subject ufold t s) = subject ufold t s"
proof (cases "tag_empty t")
  case False
  then have "splitSlug (rt_Slug t) \<noteq> None" using ResolveRepoTag_valid [of git agent] unfolding assms(1) [symmetric] by blast
  then show ?thesis using subject_again assms(2) by blast
qed (simp add: subject_def)


lemma starts_with_marker:
  assumes "reMarker s" "s = [] \<or> \<not> re_space (hd s)"
  shows "\<exists>w' sp r. s = w' @ sp @ CHR '':'' # r \<and> map lower_ascii w' = ''re'' \<and> (\<forall>c \<in> set sp. re_space c)"
proof -
  have "dropWhile re_space s = s" using assms(2) by (cases s) auto
  then obtain r where "after_word ''re'' s = Some r" using assms(1) by (auto simp: reMarker_def)
  then obtain w' sp where "s = w' @ sp @ CHR '':'' # r" "map lower_ascii w' = ''re''" "\<forall>c \<in> set sp. re_space c"
    by (rule after_wordE)
  then show ?thesis by (intro exI conjI)
qed

lemma marker_starts:
  assumes "map lower_ascii w' = ''re''" "\<forall>c \<in> set sp. re_space c"
  shows "reMarker (w' @ sp @ CHR '':'' # r)"
proof -
  have "\<not> re_space (hd w')" "w' \<noteq> []"
    using assms(1) by (auto simp: map_eq_Cons_conv lower_ascii_def re_space_def byte_def split: if_splits)
  then have "dropWhile re_space (w' @ sp @ CHR '':'' # r) = w' @ sp @ CHR '':'' # r" by (cases w') auto
  then show ?thesis using after_wordI [OF assms, of r] by (simp add: reMarker_def)
qed

lemma subject_keeps_marker:
  assumes "reMarker s" "s = [] \<or> \<not> re_space (hd s)"
  shows "reMarker (subject ufold t s)"
proof (cases rule: subject_cases [of ufold t s])
  case 1
  with assms(1) show ?thesis by simp
next
  case (2 p)
  obtain w' sp r where s: "s = w' @ sp @ CHR '':'' # r" "map lower_ascii w' = ''re''" "\<forall>c \<in> set sp. re_space c"
    using starts_with_marker [OF assms] by (elim exE conjE)
  let ?r = "dropWhile re_space r"
  have "after_marker (w' @ sp @ CHR '':'' # takeWhile re_space r @ ?r) = Some ?r"
    by (rule after_markerI) (use s(2,3) hd_dropWhile [of re_space r] in \<open>auto dest: set_takeWhileD\<close>)
  then have m: "after_marker s = Some ?r" using s(1) by simp
  obtain q where q: "?r = q @ after_markers ?r" using after_markers_suffix by blast
  have "after_markers s = after_markers ?r" by (subst after_markers.simps) (simp add: m)
  moreover have "s = (w' @ sp @ CHR '':'' # takeWhile re_space r @ q) @ after_markers ?r"
    using s(1) takeWhile_dropWhile_id [of re_space r] q by (metis append.assoc append_Cons)
  ultimately have "p = w' @ sp @ CHR '':'' # takeWhile re_space r @ q" using 2(1) by (metis append_same_eq)
  then show ?thesis unfolding 2(2) using marker_starts [OF s(2,3)] by simp
qed

text \<open>
  Replying again adds nothing: a reply's subject, with a tag resolved from a remote, is its own reply subject, so a
  thread never piles up tags or markers. The owner and the name of the repository must be without a closing bracket, and
  the subject must not start with white space.
\<close>

theorem ReplySubject_idem:
  assumes "t = ResolveRepoTag git agent" "CHR '']'' \<notin> set (rt_Slug t)" "original = [] \<or> \<not> re_space (hd original)"
  shows "ReplySubject ufold (ReplySubject ufold original t) t = ReplySubject ufold original t"
proof -
  define s where "s = (if reMarker original then original else ''Re: '' @ original)"
  have "reMarker (''Re'' @ [] @ CHR '':'' # '' '' @ original)" 
    by (rule marker_starts) (code_simp, simp)
  then have "reMarker s" by (simp add: s_def)
  moreover have "s = [] \<or> \<not> re_space (hd s)" using assms(3) by (simp add: s_def re_space_def)
  ultimately have "reMarker (subject ufold t s)" by (rule subject_keeps_marker)
  moreover have "ReplySubject ufold original t = subject ufold t s" unfolding ReplySubject_def s_def ..
  ultimately show ?thesis using resolved_subject_again [OF assms(1,2)] by (simp add: ReplySubject_def)
qed

theorem ReplySubject_idem_witness:
  "ReplySubject (\<lambda>r. r) ''Re: [a/b] hello'' (ResolveRepoTag (Some ''git@h:a/b.git'') ''c'') = ''Re: [a/b] hello''"
proof -
  let ?t = "ResolveRepoTag (Some ''git@h:a/b.git'') ''c''"
  have b: "CHR '']'' \<notin> set (rt_Slug ?t)" by code_simp
  have h: "''hello'' = [] \<or> \<not> re_space (hd ''hello'')" by code_simp
  have r: "ReplySubject (\<lambda>r. r) ''hello'' ?t = ''Re: [a/b] hello''" by code_simp
  from ReplySubject_idem [OF refl b h, of "\<lambda>r. r"] show ?thesis unfolding r .
qed

text \<open>With white space in front the marker is found but the tag is put before it, and the next reply adds another marker.\<close>

lemma ReplySubject_leading_space:
  "let t = ResolveRepoTag (Some ''git@h:a/b.git'') ''c''; s = ReplySubject (\<lambda>r. r) '' Re: x'' t in
     s = ''[a/b]  Re: x'' \<and> ReplySubject (\<lambda>r. r) s t = ''Re: [a/b]  Re: x''"
  by code_simp

subsection \<open>Both transports carry the same headers\<close>

text \<open>The lines of a header map, in the order of the keys given.\<close>

definition map_lines :: "string list \<Rightarrow> (string \<rightharpoonup> string) \<Rightarrow> string" where
  "map_lines ks h = concat (map (\<lambda>k. case h k of None \<Rightarrow> [] | Some v \<Rightarrow> header_line k v) ks)"

definition reply_header_keys :: "string list" where
  "reply_header_keys = [HeaderRepo, HeaderAgent, ''In-Reply-To'', ''References'']"

lemma tag_headers_lines:
  "tag_writeHeaders t = and_then (tag_headers t) (\<lambda>h. Inr (map_lines [HeaderRepo, HeaderAgent] h))"
  by (auto simp: tag_writeHeaders_def tag_headers_def map_lines_def Let_def HeaderRepo_def HeaderAgent_def)

lemma thread_headers_lines:
  "thread_writeHeaders t = and_then (thread_headers t) (\<lambda>h. Inr (map_lines [''In-Reply-To'', ''References''] h))"
  by (auto simp: thread_writeHeaders_def thread_headers_def map_lines_def Let_def)

lemma tag_headers_dom: "tag_headers t = Inr h \<Longrightarrow> dom h \<subseteq> {HeaderRepo, HeaderAgent}"
  by (auto simp: tag_headers_def Let_def split: if_splits)

lemma thread_headers_dom: "thread_headers t = Inr h \<Longrightarrow> dom h \<subseteq> {''In-Reply-To'', ''References''}"
  unfolding thread_headers_def Let_def by (auto split: if_splits)

lemma map_lines_cong: "(\<And>k. k \<in> set ks \<Longrightarrow> h k = g k) \<Longrightarrow> map_lines ks h = map_lines ks g"
  unfolding map_lines_def by (rule arg_cong [where f = concat]) simp

lemma merged_lines:
  assumes "tag_headers t = Inr a" "thread_headers th = Inr b"
  shows "map_lines reply_header_keys (mergeHeaders a b)
    = map_lines [HeaderRepo, HeaderAgent] a @ map_lines [''In-Reply-To'', ''References''] b"
proof -
  have out: "h k = None" if "dom h \<subseteq> K" "k \<notin> K" for h :: "string \<rightharpoonup> string" and k K using that by blast
  have "b HeaderRepo = None" "b HeaderAgent = None"
    by (rule out [OF thread_headers_dom [OF assms(2)]], code_simp)+
  moreover have "a ''In-Reply-To'' = None" "a ''References'' = None"
    by (rule out [OF tag_headers_dom [OF assms(1)]], code_simp)+
  ultimately show ?thesis
    by (simp add: map_lines_def reply_header_keys_def mergeHeaders_def map_add_def split: option.splits)
qed

lemma transports_agree:
  "and_then (tag_writeHeaders t) (\<lambda>a. and_then (thread_writeHeaders th) (\<lambda>b. Inr (a @ b)))
   = and_then (tag_headers t) (\<lambda>a. and_then (thread_headers th) (\<lambda>b. Inr (map_lines reply_header_keys (mergeHeaders a b))))"
  using merged_lines
  by (cases "tag_headers t"; cases "thread_headers th") (simp_all add: tag_headers_lines thread_headers_lines)

subsection \<open>A quoted body is read back\<close>

definition unquote_line :: "string \<Rightarrow> string" where
  "unquote_line l = (if l = ''>'' then [] else drop 2 l)"

lemma Split_concat_lines:
  "\<forall>l \<in> set ls. NL \<notin> set l \<Longrightarrow> Split (concat (map (\<lambda>l. l @ [NL]) ls) @ r) NL = ls @ Split r NL"
  by (induction ls) (simp_all add: Split_append_sep)

text \<open>
  Every line of the original ends up behind a quote mark, so nothing of it can pass for the new text, and taking the
  marks off again gives back the original without its final line ends.
\<close>

theorem QuoteBody_quotes:
  assumes "trim_right_nl (crlf_to_lf original) \<noteq> []"
  shows "\<exists>quoted. Split (QuoteBody newText sender date original) NL
      = Split newText NL @ [] # Split (attributionLine sender date) NL @ quoted @ [[]]
    \<and> list_all (\<lambda>l. HasPrefix l ''>'') quoted
    \<and> Join (map unquote_line quoted) [NL] = trim_right_nl (crlf_to_lf original)"
proof -
  define body where "body = trim_right_nl (crlf_to_lf original)"
  define q where "q = map (\<lambda>l. if l = [] then ''>'' else ''> '' @ l) (Split body NL)"
  have c: "concat (map quote_line (Split body NL)) = concat (map (\<lambda>l. l @ [NL]) q)"
    by (simp add: q_def quote_line_def [abs_def] comp_def)
  have "\<forall>l \<in> set q. NL \<notin> set l" by (auto simp: q_def dest: Split_no_sep)
  then have s: "Split (concat (map (\<lambda>l. l @ [NL]) q)) NL = q @ [[]]" using Split_concat_lines [of q "[]"] by simp
  have b: "QuoteBody newText sender date original = newText @ NL # [] @ NL # attributionLine sender date @ NL
      # concat (map (\<lambda>l. l @ [NL]) q)"
    using assms c by (simp add: QuoteBody_def Let_def body_def)
  have "Split (QuoteBody newText sender date original) NL
      = Split newText NL @ [] # Split (attributionLine sender date) NL @ q @ [[]]"
    unfolding b Split_append_sep2 s by simp
  moreover have "list_all (\<lambda>l. HasPrefix l ''>'') q" by (auto simp: q_def list_all_iff)
  moreover have "map unquote_line q = Split body NL"
    by (auto simp: q_def unquote_line_def comp_def intro: map_idI)
  ultimately show ?thesis unfolding body_def [symmetric] by (metis Join_Split)
qed

theorem QuoteBody_quotes_witness:
  "\<exists>quoted. Join (map unquote_line quoted) [NL] = ''a'' @ [NL, NL] @ ''b'' \<and> list_all (\<lambda>l. HasPrefix l ''>'') quoted"
proof -
  have t: "trim_right_nl (crlf_to_lf (''a'' @ [NL, NL] @ ''b'' @ [CR, NL])) = ''a'' @ [NL, NL] @ ''b''" by code_simp
  have n: "trim_right_nl (crlf_to_lf (''a'' @ [NL, NL] @ ''b'' @ [CR, NL])) \<noteq> []" unfolding t by simp
  from QuoteBody_quotes [OF n, of "''hi''" "''me''" None] show ?thesis unfolding t by blast
qed

end
