(* ===== verification/Compose.thy ===== *)
theory Compose
  imports ReplyTag Pgp
begin

section \<open>Composing a message\<close>

text \<open>
  Models \<open>ComposeRaw\<close>, \<open>ComposeSignedRaw\<close>, \<open>ComposeEncryptedSignedRaw\<close> and \<open>buildMixedBodyPart\<close> of
  \<open>internal/email/send.go\<close>, and what they use of the standard library: base64, the multipart writer and
  \<open>mime.FormatMediaType\<close>. The random bytes of the boundaries and gpg are arguments.
\<close>

subsection \<open>Base64\<close>

definition b64_chars :: string where
  "b64_chars = ''ABCDEFGHIJKLMNOPQRSTUVWXYZabcdefghijklmnopqrstuvwxyz0123456789+/''"

definition b64_char :: "nat \<Rightarrow> char" where
  "b64_char n = b64_chars ! n"

fun base64 :: "string \<Rightarrow> string" where
  "base64 [] = []"
| "base64 [a] = [b64_char (byte a div 4), b64_char (byte a mod 4 * 16), CHR ''='', CHR ''='']"
| "base64 [a, b] = [b64_char (byte a div 4), b64_char (byte a mod 4 * 16 + byte b div 16), b64_char (byte b mod 16 * 4), CHR ''='']"
| "base64 (a # b # c # r) =
     [b64_char (byte a div 4), b64_char (byte a mod 4 * 16 + byte b div 16), b64_char (byte b mod 16 * 4 + byte c div 64),
      b64_char (byte c mod 64)] @ base64 r"

text \<open>The reader's side: the value of a digit, and the bytes of groups of four.\<close>

definition b64_value :: "char \<Rightarrow> nat option" where
  "b64_value c = IndexByte b64_chars c"

fun unbase64 :: "string \<Rightarrow> string option" where
  "unbase64 [] = Some []"
| "unbase64 (p # q # r # s # rest) =
     (case (b64_value p, b64_value q) of
        (Some w, Some x) \<Rightarrow>
          if r = CHR ''='' then
            (if s = CHR ''='' \<and> rest = [] \<and> x mod 16 = 0 then Some [char_of (w * 4 + x div 16)] else None)
          else (case b64_value r of
            None \<Rightarrow> None
          | Some y \<Rightarrow>
              if s = CHR ''='' then
                (if rest = [] \<and> y mod 4 = 0 then Some [char_of (w * 4 + x div 16), char_of (x mod 16 * 16 + y div 4)] else None)
              else (case b64_value s of
                None \<Rightarrow> None
              | Some z \<Rightarrow>
                  map_option (\<lambda>t. [char_of (w * 4 + x div 16), char_of (x mod 16 * 16 + y div 4), char_of (y mod 4 * 64 + z)] @ t)
                    (unbase64 rest)))
      | _ \<Rightarrow> None)"
| "unbase64 _ = None"

text \<open>The loop that writes an encoded attachment.\<close>

function wrap76 :: "string \<Rightarrow> string list" where
  "wrap76 s = (if s = [] then [] else take 76 s # wrap76 (drop 76 s))"
  by pat_completeness auto
termination
  by (relation "measure length") auto

declare wrap76.simps [simp del]

definition encoded_lines :: "string \<Rightarrow> string" where
  "encoded_lines d = concat (map (\<lambda>l. l @ CRLF) (wrap76 (base64 d)))"

lemma b64_value_char: "n < 64 \<Longrightarrow> b64_value (b64_char n) = Some n"
proof -
  have "list_all (\<lambda>n. b64_value (b64_char n) = Some n) [0..<64]" by code_simp
  then show "n < 64 \<Longrightarrow> b64_value (b64_char n) = Some n" by (simp add: list_all_iff)
qed

lemma b64_char_plain: "n < 64 \<Longrightarrow> b64_char n \<noteq> CHR ''='' \<and> b64_char n \<noteq> CR \<and> b64_char n \<noteq> NL \<and> b64_char n \<noteq> CHR ''-''"
proof -
  have "list_all (\<lambda>n. b64_char n \<noteq> CHR ''='' \<and> b64_char n \<noteq> CR \<and> b64_char n \<noteq> NL \<and> b64_char n \<noteq> CHR ''-'') [0..<64]" by code_simp
  then show "n < 64 \<Longrightarrow> b64_char n \<noteq> CHR ''='' \<and> b64_char n \<noteq> CR \<and> b64_char n \<noteq> NL \<and> b64_char n \<noteq> CHR ''-''" by (simp add: list_all_iff)
qed

lemma b64_digits:
  "byte a div 4 < 64" "byte b div 16 < 16" "byte c div 64 < 4" "byte c mod 64 < 64"
  "byte a mod 4 * 16 < 64" "byte a mod 4 * 16 + byte b div 16 < 64" "byte b mod 16 * 4 < 64" "byte b mod 16 * 4 + byte c div 64 < 64"
proof -
  have d: "byte a div 4 < 64" "byte b div 16 < 16" "byte c div 64 < 4" "byte c mod 64 < 64"
    using byte_less [of a] byte_less [of b] byte_less [of c] by (simp_all add: less_mult_imp_div_less)
  have m: "byte a mod 4 < 4" "byte b mod 16 < 16" by simp_all
  show "byte a div 4 < 64" "byte b div 16 < 16" "byte c div 64 < 4" "byte c mod 64 < 64" by (fact d)+
  show "byte a mod 4 * 16 < 64" "byte a mod 4 * 16 + byte b div 16 < 64" "byte b mod 16 * 4 < 64" "byte b mod 16 * 4 + byte c div 64 < 64"
    using d m by linarith+
qed

lemma unbase64_base64: "unbase64 (base64 d) = Some d"
proof (induction d rule: base64.induct)
  case (2 a)
  show ?case using b64_digits(1,5) [of a] by (simp add: b64_value_char b64_char_plain)
next
  case (3 a b)
  show ?case using b64_digits(1,5) [of a] b64_digits(2,7) [of b] b64_digits(6) [of a b] by (simp add: b64_value_char b64_char_plain)
next
  case (4 a b c r)
  show ?case using b64_digits(1,5) [of a] b64_digits(2,7) [of b] b64_digits(6) [of a b] b64_digits(3,4) [of c] b64_digits(8) [of b c] 4 by (simp add: b64_value_char b64_char_plain)
qed simp

lemma base64_plain: "x \<in> set (base64 d) \<Longrightarrow> x \<noteq> CR \<and> x \<noteq> NL \<and> x \<noteq> CHR ''-''"
proof (induction d rule: base64.induct)
  case (2 a)
  then show ?case using b64_char_plain b64_digits(1,5) [of a] by auto
next
  case (3 a b)
  then show ?case using b64_char_plain b64_digits(1,5) [of a] b64_digits(2,7) [of b] b64_digits(6) [of a b] by auto
next
  case (4 a b c r)
  then show ?case using b64_char_plain b64_digits(1,5) [of a] b64_digits(2,7) [of b] b64_digits(6) [of a b] b64_digits(3,4) [of c] b64_digits(8) [of b c] by auto
qed simp

lemma concat_wrap76: "concat (wrap76 s) = s"
  by (induction s rule: wrap76.induct) (subst wrap76.simps, simp)

lemma wrap76_length: "l \<in> set (wrap76 s) \<Longrightarrow> 0 < length l \<and> length l \<le> 76"
proof (induction s rule: wrap76.induct)
  case (1 s)
  show ?case using 1(2) 1(1) by (subst (asm) wrap76.simps) (auto split: if_splits)
qed

subsection \<open>Media types and parts\<close>

definition is_tspecial :: "char \<Rightarrow> bool" where
  "is_tspecial c \<longleftrightarrow> c \<in> set (''()<>@,;:'' @ [QUOTE, BACKSLASH] @ ''/[]?='')"

definition is_token :: "string \<Rightarrow> bool" where
  "is_token s \<longleftrightarrow> s \<noteq> [] \<and> list_all (\<lambda>c. 0x20 < byte c \<and> byte c < 0x7F \<and> \<not> is_tspecial c) s"

text \<open>A byte from 0x80 belongs to a rune above the printable range, or to an invalid one.\<close>

definition needsEncoding :: "string \<Rightarrow> bool" where
  "needsEncoding s \<longleftrightarrow> list_ex (\<lambda>c. (byte c < 0x20 \<or> 0x7E < byte c) \<and> c \<noteq> TAB) s"

definition hex_digit :: "string \<Rightarrow> nat \<Rightarrow> char" where
  "hex_digit digits n = digits ! n"

definition percent :: "char \<Rightarrow> string" where
  "percent c =
     (if byte c \<le> 0x20 \<or> 0x7F \<le> byte c \<or> c \<in> {CHR ''*'', CHR 0x27, CHR ''%''} \<or> is_tspecial c
      then [CHR ''%'', hex_digit ''0123456789ABCDEF'' (byte c div 16), hex_digit ''0123456789ABCDEF'' (byte c mod 16)]
      else [c])"

definition FormatMediaType :: "string \<Rightarrow> string \<Rightarrow> string \<Rightarrow> string" where
  "FormatMediaType t attr value =
     t @ ''; '' @ attr
     @ (if needsEncoding value then ''*=utf-8'' @ [CHR 0x27, CHR 0x27] @ concat (map percent value)
        else if is_token value then ''='' @ value
        else ''='' @ [QUOTE] @ concat (map (\<lambda>c. if c = QUOTE \<or> c = BACKSLASH then [BACKSLASH, c] else [c]) value) @ [QUOTE])"

record OutboundAttachment =
  oa_Filename :: string
  oa_ContentType :: string
  oa_Data :: string

definition attachments_ok :: "OutboundAttachment list \<Rightarrow> bool" where
  "attachments_ok atts \<longleftrightarrow> \<not> list_ex (\<lambda>a. contains_crlf (oa_ContentType a) \<or> contains_crlf (oa_Filename a)) atts"

text \<open>The boundary of a multipart writer: thirty random bytes in hexadecimal.\<close>

definition writer_boundary :: "nat list \<Rightarrow> string" where
  "writer_boundary ns =
     concat (map (\<lambda>n. [hex_digit ''0123456789abcdef'' (n div 16), hex_digit ''0123456789abcdef'' (n mod 16)]) ns)"

definition attachment_part :: "string \<Rightarrow> OutboundAttachment \<Rightarrow> string" where
  "attachment_part b a =
     CRLF @ ''--'' @ b @ CRLF
     @ header_line ''Content-Disposition'' (FormatMediaType ''attachment'' ''filename'' (oa_Filename a))
     @ header_line ''Content-Transfer-Encoding'' ''base64''
     @ header_line ''Content-Type'' (oa_ContentType a)
     @ CRLF @ encoded_lines (oa_Data a)"

definition mixed_body :: "string \<Rightarrow> string \<Rightarrow> OutboundAttachment list \<Rightarrow> string" where
  "mixed_body b body atts =
     ''--'' @ b @ CRLF @ header_line ''Content-Type'' ''text/plain; charset=utf-8'' @ CRLF @ body @ CRLF
     @ concat (map (attachment_part b) atts) @ CRLF @ ''--'' @ b @ ''--'' @ CRLF"

definition mixed_type :: "string \<Rightarrow> string" where
  "mixed_type b = header_line ''Content-Type'' (FormatMediaType ''multipart/mixed'' ''boundary'' b)"

definition canonical :: "string \<Rightarrow> string" where
  "canonical s = lf_to_crlf (crlf_to_lf s)"

datatype compose_error =
    HeaderFieldCRLF
  | HeaderLines header_error
  | AttachmentCRLF
  | SignFailed sign_error
  | BoundaryFailed
  | EncryptFailed encrypt_error

definition buildMixedBodyPart :: "nat list \<Rightarrow> string \<Rightarrow> OutboundAttachment list \<Rightarrow> (compose_error, string) result" where
  "buildMixedBodyPart ns textBody atts =
     (if \<not> attachments_ok atts then Inl AttachmentCRLF
      else Inr (mixed_type (writer_boundary ns) @ CRLF @ mixed_body (writer_boundary ns) (canonical textBody) atts))"

subsection \<open>The three messages\<close>

text \<open>The check and the headers every message starts with.\<close>

definition fields_ok :: "string \<Rightarrow> string list \<Rightarrow> string list \<Rightarrow> string \<Rightarrow> bool" where
  "fields_ok from to cc subj \<longleftrightarrow> \<not> list_ex contains_crlf ([from, subj] @ to @ cc)"

definition write_envelope ::
    "string \<Rightarrow> string list \<Rightarrow> string list \<Rightarrow> string \<Rightarrow> RepoTag \<Rightarrow> Threading \<Rightarrow> (compose_error, string) result" where
  "write_envelope from to cc subj tag th =
     (case tag_writeHeaders tag of
        Inl e \<Rightarrow> Inl (HeaderLines e)
      | Inr tagl \<Rightarrow>
          (case thread_writeHeaders th of
             Inl e \<Rightarrow> Inl (HeaderLines e)
           | Inr hl \<Rightarrow>
               Inr (header_line ''From'' from @ header_line ''To'' (Join to '', '')
                 @ (if cc \<noteq> [] then header_line ''Cc'' (Join cc '', '') else [])
                 @ header_line ''Subject'' subj @ tagl @ hl @ header_line ''MIME-Version'' ''1.0'')))"

definition ComposeRaw ::
    "nat list \<Rightarrow> string \<Rightarrow> string list \<Rightarrow> string list \<Rightarrow> string \<Rightarrow> string \<Rightarrow> OutboundAttachment list
       \<Rightarrow> RepoTag \<Rightarrow> Threading \<Rightarrow> (compose_error, string) result" where
  "ComposeRaw ns from to cc subj textBody atts tag th =
     (if \<not> fields_ok from to cc subj then Inl HeaderFieldCRLF
      else and_then (write_envelope from to cc subj tag th) (\<lambda>h.
        if atts = [] then Inr (h @ header_line ''Content-Type'' ''text/plain; charset=utf-8'' @ CRLF @ textBody @ CRLF)
        else if \<not> attachments_ok atts then Inl AttachmentCRLF
        else let b = writer_boundary ns in Inr (h @ mixed_type b @ CRLF @ mixed_body b textBody atts)))"

text \<open>gpg and the random numbers: the writer's boundary, the signature's and the envelope's.\<close>

record mail_gpg =
  mg_sign :: gpg_sign
  mg_writer :: "nat list"
  mg_sign_rnd :: "nat list option"
  mg_encrypt :: "string list \<Rightarrow> string \<Rightarrow> (string, string) result"
  mg_encrypt_rnd :: "nat list option"

definition body_part :: "nat list \<Rightarrow> string \<Rightarrow> OutboundAttachment list \<Rightarrow> (compose_error, string) result" where
  "body_part ns textBody atts =
     (let body = canonical textBody in
      if atts = [] then Inr (text_part body) else buildMixedBodyPart ns body atts)"

text \<open>Signing the part: its error, or the part, its signature and the boundary.\<close>

definition sign_part ::
    "mail_gpg \<Rightarrow> string \<Rightarrow> string \<Rightarrow> OutboundAttachment list \<Rightarrow> file_map
       \<Rightarrow> (compose_error, string \<times> string \<times> string) result \<times> file_map" where
  "sign_part g passphrase textBody atts fs =
     (case body_part (mg_writer g) textBody atts of
        Inl e \<Rightarrow> (Inl e, fs)
      | Inr part \<Rightarrow>
          (case DetachSignBody (mg_sign g) passphrase part fs of
             (Inl e, fs') \<Rightarrow> (Inl (SignFailed e), fs')
           | (Inr sig, fs') \<Rightarrow>
               (case RandomBoundary (mg_sign_rnd g) of
                  None \<Rightarrow> (Inl BoundaryFailed, fs')
                | Some b \<Rightarrow> (Inr (part, sig, b), fs'))))"

definition ComposeSignedRaw ::
    "mail_gpg \<Rightarrow> string \<Rightarrow> string \<Rightarrow> string list \<Rightarrow> string list \<Rightarrow> string \<Rightarrow> string \<Rightarrow> OutboundAttachment list
       \<Rightarrow> RepoTag \<Rightarrow> Threading \<Rightarrow> file_map \<Rightarrow> (compose_error, string) result \<times> file_map" where
  "ComposeSignedRaw g passphrase from to cc subj textBody atts tag th fs =
     (if \<not> fields_ok from to cc subj then (Inl HeaderFieldCRLF, fs)
      else case sign_part g passphrase textBody atts fs of
        (Inl e, fs') \<Rightarrow> (Inl e, fs')
      | (Inr (part, sig, b), fs') \<Rightarrow>
          (and_then (write_envelope from to cc subj tag th) (\<lambda>h. Inr (h @ signed_type b @ CRLF @ signed_body b part sig)), fs'))"

definition encrypted_type :: "string \<Rightarrow> string" where
  "encrypted_type b =
     ''Content-Type: multipart/encrypted; boundary='' @ quoted b @ ''; protocol='' @ quoted ''application/pgp-encrypted'' @ CRLF"

definition encrypted_body :: "string \<Rightarrow> string \<Rightarrow> string" where
  "encrypted_body b ciphertext =
     ''--'' @ b @ CRLF @ ''Content-Type: application/pgp-encrypted'' @ CRLF
     @ ''Content-Description: PGP/MIME version identification'' @ CRLF @ CRLF @ ''Version: 1'' @ CRLF @ CRLF
     @ ''--'' @ b @ CRLF @ ''Content-Type: application/octet-stream; name='' @ quoted ''encrypted.asc'' @ CRLF
     @ ''Content-Disposition: inline; filename='' @ quoted ''encrypted.asc'' @ CRLF @ CRLF
     @ TrimSpace ciphertext @ CRLF @ ''--'' @ b @ ''--'' @ CRLF"

definition ComposeEncryptedSignedRaw ::
    "mail_gpg \<Rightarrow> string \<Rightarrow> string \<Rightarrow> string list \<Rightarrow> string \<Rightarrow> string list \<Rightarrow> string list \<Rightarrow> string \<Rightarrow> string
       \<Rightarrow> OutboundAttachment list \<Rightarrow> RepoTag \<Rightarrow> Threading \<Rightarrow> file_map \<Rightarrow> (compose_error, string) result \<times> file_map" where
  "ComposeEncryptedSignedRaw g signer passphrase keys from to cc subj textBody atts tag th fs =
     (if \<not> fields_ok from to cc subj then (Inl HeaderFieldCRLF, fs)
      else case sign_part g passphrase textBody atts fs of
        (Inl e, fs') \<Rightarrow> (Inl e, fs')
      | (Inr (part, sig, b), fs') \<Rightarrow>
          (case Encrypt (mg_encrypt g) keys signer (signed_type b @ CRLF @ signed_body b part sig) of
             Inl e \<Rightarrow> (Inl (EncryptFailed e), fs')
           | Inr ciphertext \<Rightarrow>
               (case RandomBoundary (mg_encrypt_rnd g) of
                  None \<Rightarrow> (Inl BoundaryFailed, fs')
                | Some eb \<Rightarrow>
                    (and_then (write_envelope from to cc subj tag th)
                      (\<lambda>h. Inr (h @ encrypted_type eb @ CRLF @ encrypted_body eb ciphertext)), fs'))))"

subsection \<open>The headers of a message are the ones that were meant\<close>

text \<open>The header lines of a message, as far as its first empty line, without their line ends.\<close>

definition head_lines :: "string \<Rightarrow> string list" where
  "head_lines raw = map (\<lambda>l. TrimSuffix l [CR]) (takeWhile (\<lambda>l. l \<noteq> [CR] \<and> l \<noteq> []) (Split raw NL))"

definition clean_line :: "string \<Rightarrow> bool" where
  "clean_line l \<longleftrightarrow> l \<noteq> [] \<and> \<not> contains_crlf l"

lemma clean_line_iff: "clean_line l \<longleftrightarrow> l \<noteq> [] \<and> CR \<notin> set l \<and> NL \<notin> set l"
  by (auto simp: clean_line_def contains_crlf_def ContainsAny_iff)

lemma head_lines_lines:
  assumes "list_all clean_line ls"
  shows "head_lines (concat (map (\<lambda>l. l @ CRLF) ls) @ CRLF @ r) = ls"
proof -
  have "Split (concat (map (\<lambda>l. l @ CRLF) ls) @ CRLF @ r) NL = map (\<lambda>l. l @ [CR]) ls @ [CR] # Split r NL"
    using Split_concat_lines [of "map (\<lambda>l. l @ [CR]) ls" "CRLF @ r"] assms
    by (simp add: comp_def list_all_iff clean_line_iff ball_Un)
  moreover have "takeWhile (\<lambda>l. l \<noteq> [CR] \<and> l \<noteq> []) (map (\<lambda>l. l @ [CR]) ls @ [CR] # Split r NL) = map (\<lambda>l. l @ [CR]) ls"
    using assms by (subst takeWhile_append2) (auto simp: list_all_iff clean_line_iff)
  ultimately show ?thesis by (simp add: head_lines_def comp_def TrimSuffix_def)
qed

definition meant_headers :: "string \<Rightarrow> string list \<Rightarrow> string list \<Rightarrow> string \<Rightarrow> RepoTag \<Rightarrow> Threading \<Rightarrow> string list" where
  "meant_headers from to cc subj tag th =
     [''From: '' @ from, ''To: '' @ Join to '', '']
     @ (if cc = [] then [] else [''Cc: '' @ Join cc '', '']) @ [''Subject: '' @ subj]
     @ (if tag_empty tag then [] else (HeaderRepo @ '': '' @ rt_Slug tag)
          # (if rt_Agent tag = [] then [] else [HeaderAgent @ '': '' @ rt_Agent tag]))
     @ (if thread_empty th then []
        else (if th_InReplyTo th = [] then [] else [''In-Reply-To: '' @ th_InReplyTo th])
          @ (if Join (th_References th) '' '' = [] then [] else [''References: '' @ Join (th_References th) '' '']))
     @ [''MIME-Version: 1.0'']"

lemma set_Join: "set (Join xs sep) \<subseteq> \<Union> (set ` set xs) \<union> set sep"
  by (induction xs sep rule: Join.induct) auto

lemma contains_crlf_append: "contains_crlf (a @ b) \<longleftrightarrow> contains_crlf a \<or> contains_crlf b"
  by (auto simp: contains_crlf_def ContainsAny_iff)

lemma contains_crlf_Join: "\<not> contains_crlf sep \<Longrightarrow> \<forall>x \<in> set xs. \<not> contains_crlf x \<Longrightarrow> \<not> contains_crlf (Join xs sep)"
  using set_Join [of xs sep] unfolding contains_crlf_def ContainsAny_iff by blast

lemma contains_crlf_eval:
  "\<not> contains_crlf [CHR '','', CHR '' '']" "\<not> contains_crlf ''From: ''" "\<not> contains_crlf ''To: ''" "\<not> contains_crlf ''Cc: ''"
  "\<not> contains_crlf ''Subject: ''" "\<not> contains_crlf (HeaderRepo @ '': '')" "\<not> contains_crlf (HeaderAgent @ '': '')"
  "\<not> contains_crlf ''In-Reply-To: ''" "\<not> contains_crlf ''References: ''" "\<not> contains_crlf ''MIME-Version: 1.0''"
  by code_simp+

lemma clean_line_append: "clean_line (a @ b) \<longleftrightarrow> a @ b \<noteq> [] \<and> \<not> contains_crlf a \<and> \<not> contains_crlf b"
  by (auto simp: clean_line_def contains_crlf_append)

lemma write_envelope_lines:
  assumes "write_envelope from to cc subj tag th = Inr h"
  shows "h = concat (map (\<lambda>l. l @ CRLF) (meant_headers from to cc subj tag th))"
    and "\<not> tag_empty tag \<Longrightarrow> \<not> contains_crlf (rt_Slug tag) \<and> \<not> contains_crlf (rt_Agent tag)"
    and "\<not> thread_empty th \<Longrightarrow> \<not> contains_crlf (th_InReplyTo th) \<and> \<not> contains_crlf (Join (th_References th) '' '')"
proof -
  obtain a b where a: "tag_writeHeaders tag = Inr a" and b: "thread_writeHeaders th = Inr b"
    and h: "h = header_line ''From'' from @ header_line ''To'' (Join to '', '')
      @ (if cc \<noteq> [] then header_line ''Cc'' (Join cc '', '') else []) @ header_line ''Subject'' subj @ a @ b
      @ header_line ''MIME-Version'' ''1.0''"
    using assms by (auto simp: write_envelope_def split: sum.splits)
  show "\<not> tag_empty tag \<Longrightarrow> \<not> contains_crlf (rt_Slug tag) \<and> \<not> contains_crlf (rt_Agent tag)"
    using a by (auto simp: tag_writeHeaders_def split: if_splits)
  show "\<not> thread_empty th \<Longrightarrow> \<not> contains_crlf (th_InReplyTo th) \<and> \<not> contains_crlf (Join (th_References th) '' '')"
    using b by (auto simp: thread_writeHeaders_def Let_def split: if_splits)
  have a': "a = concat (map (\<lambda>l. l @ CRLF) (if tag_empty tag then [] else (HeaderRepo @ '': '' @ rt_Slug tag)
          # (if rt_Agent tag = [] then [] else [HeaderAgent @ '': '' @ rt_Agent tag])))"
    using a by (simp add: tag_writeHeaders_def header_line_def split: if_splits)
  have b': "b = concat (map (\<lambda>l. l @ CRLF) (if thread_empty th then []
        else (if th_InReplyTo th = [] then [] else [''In-Reply-To: '' @ th_InReplyTo th])
          @ (if Join (th_References th) '' '' = [] then [] else [''References: '' @ Join (th_References th) '' ''])))"
    using b by (simp add: thread_writeHeaders_def header_line_def Let_def split: if_splits)
  show "h = concat (map (\<lambda>l. l @ CRLF) (meant_headers from to cc subj tag th))"
    unfolding h a' b' meant_headers_def by (simp add: header_line_def)
qed

lemma meant_headers_clean:
  assumes "fields_ok from to cc subj" "write_envelope from to cc subj tag th = Inr h"
  shows "list_all clean_line (meant_headers from to cc subj tag th)"
proof -
  have f: "\<not> contains_crlf from" "\<not> contains_crlf subj" "\<not> contains_crlf (Join to '', '')" "\<not> contains_crlf (Join cc '', '')"
    using assms(1) contains_crlf_Join [OF contains_crlf_eval(1)] by (simp_all add: fields_ok_def list_ex_iff)
  note t = write_envelope_lines(2,3) [OF assms(2)]
  note e = contains_crlf_eval(2-)
  have c: "clean_line (k @ v)" if "k \<noteq> []" "\<not> contains_crlf k" "\<not> contains_crlf v" for k v
    using that by (simp add: clean_line_append)
  have r: "clean_line (HeaderRepo @ '': '' @ v)" "clean_line (HeaderAgent @ '': '' @ v)" if "\<not> contains_crlf v" for v
    using c [OF _ e(5) that] c [OF _ e(6) that] by (simp_all add: HeaderRepo_def HeaderAgent_def)
  have m: "clean_line ''MIME-Version: 1.0''" using e(9) by (simp add: clean_line_def)
  show ?thesis
    unfolding meant_headers_def list_all_append
    by (intro conjI) (simp_all add: c [OF _ e(1) f(1)] c [OF _ e(2) f(3)] c [OF _ e(3) f(4)] c [OF _ e(4) f(2)] r t c [OF _ e(7)]
        c [OF _ e(8)] m del: append.simps)
qed

definition starts_with_headers :: "string list \<Rightarrow> string \<Rightarrow> bool" where
  "starts_with_headers ls raw \<longleftrightarrow> (\<exists>t r. raw = concat (map (\<lambda>l. l @ CRLF) (ls @ [t])) @ CRLF @ r
     \<and> clean_line t \<and> HasPrefix t ''Content-Type: '')"

lemma starts_with_headers_lines:
  assumes "starts_with_headers ls raw" "list_all clean_line ls"
  shows "\<exists>t. head_lines raw = ls @ [''Content-Type: '' @ t]"
proof -
  obtain t r where t: "raw = concat (map (\<lambda>l. l @ CRLF) (ls @ [t])) @ CRLF @ r" "clean_line t" "HasPrefix t ''Content-Type: ''"
    using assms(1) unfolding starts_with_headers_def by blast
  obtain u where u: "t = ''Content-Type: '' @ u" using t(3) unfolding HasPrefix_iff by blast
  have "head_lines raw = ls @ [t]" unfolding t(1) by (rule head_lines_lines) (simp add: assms(2) t(2))
  then show ?thesis unfolding u by blast
qed

lemma starts_with_headersI:
  assumes "write_envelope from to cc subj tag th = Inr h" "\<not> contains_crlf t"
  shows "starts_with_headers (meant_headers from to cc subj tag th) (h @ (''Content-Type: '' @ t) @ CRLF @ CRLF @ r)"
proof -
  have "clean_line (''Content-Type: '' @ t)" unfolding clean_line_append using assms(2) by (simp, code_simp)
  then show ?thesis
    unfolding starts_with_headers_def write_envelope_lines(1) [OF assms(1)]
    by (intro exI [of _ "''Content-Type: '' @ t"] exI [of _ r] conjI) (simp_all add: HasPrefix_append)
qed

text \<open>A parameter is written without a line end, whatever its value.\<close>

lemma percent_plain: "\<not> contains_crlf (percent c)"
proof -
  have h: "list_all (\<lambda>k. \<not> contains_crlf [hex_digit ''0123456789ABCDEF'' k]) [0..<16]" by code_simp
  have "byte c div 16 < 16" "byte c mod 16 < 16" using byte_less [of c] by (simp_all add: less_mult_imp_div_less)
  with h have "\<not> contains_crlf [hex_digit ''0123456789ABCDEF'' (byte c div 16)]" "\<not> contains_crlf [hex_digit ''0123456789ABCDEF'' (byte c mod 16)]"
    by (simp_all add: list_all_iff)
  moreover have "c = CR \<or> c = NL \<Longrightarrow> byte c \<le> 0x20" by (auto simp: byte_def)
  ultimately show ?thesis by (auto simp: percent_def contains_crlf_def ContainsAny_iff)
qed

lemma contains_crlf_concat: "contains_crlf (concat xs) \<longleftrightarrow> list_ex contains_crlf xs"
  by (induction xs) (simp_all add: contains_crlf_append, simp add: contains_crlf_def ContainsAny_def)

lemma FormatMediaType_plain:
  assumes "\<not> contains_crlf t" "\<not> contains_crlf attr"
  shows "\<not> contains_crlf (FormatMediaType t attr value)"
proof (cases "needsEncoding value")
  case True
  moreover have "\<not> contains_crlf (concat (map percent value))"
    using percent_plain by (simp add: contains_crlf_concat list_ex_iff)
  moreover have "\<not> contains_crlf ''; ''" "\<not> contains_crlf (''*=utf-8'' @ [CHR 0x27, CHR 0x27])" by code_simp+
  ultimately show ?thesis using assms by (simp only: FormatMediaType_def if_True contains_crlf_append) simp
next
  case False
  then have "c \<noteq> CR \<and> c \<noteq> NL" if "c \<in> set value" for c
    using that by (auto simp: needsEncoding_def list_ex_iff byte_def)
  then show ?thesis using assms False
    by (auto simp: FormatMediaType_def contains_crlf_def ContainsAny_iff)
qed

definition random_ok :: "mail_gpg \<Rightarrow> bool" where
  "random_ok g \<longleftrightarrow> pred_option (list_all (\<lambda>n. n < 62)) (mg_sign_rnd g) \<and> pred_option (list_all (\<lambda>n. n < 62)) (mg_encrypt_rnd g)"

lemma boundary_plain:
  assumes "RandomBoundary rnd = Some b" "pred_option (list_all (\<lambda>n. n < 62)) rnd"
  shows "plain_boundary b"
proof -
  obtain ns where "rnd = Some ns" using assms(1) by (auto simp: RandomBoundary_def)
  with assms show ?thesis using RandomBoundary_plain by (simp add: list_all_iff)
qed

lemma plain_boundary_crlf: "plain_boundary b \<Longrightarrow> \<not> contains_crlf (quoted b)"
  using plain_boundary_notin(2,3) [of b] by (auto simp: contains_crlf_def ContainsAny_iff quoted_def)

lemma content_types:
  "header_line ''Content-Type'' ''text/plain; charset=utf-8'' = (''Content-Type: '' @ ''text/plain; charset=utf-8'') @ CRLF"
  "mixed_type b = (''Content-Type: '' @ FormatMediaType ''multipart/mixed'' ''boundary'' b) @ CRLF"
  "signed_type b = (''Content-Type: '' @ ''multipart/signed; boundary='' @ quoted b
     @ ''; micalg=pgp-sha256; protocol='' @ quoted ''application/pgp-signature'') @ CRLF"
  "encrypted_type b = (''Content-Type: '' @ ''multipart/encrypted; boundary='' @ quoted b
     @ ''; protocol='' @ quoted ''application/pgp-encrypted'') @ CRLF"
  by (simp_all add: header_line_def mixed_type_def signed_type_def encrypted_type_def)

lemma content_types_plain:
  "\<not> contains_crlf ''text/plain; charset=utf-8''" "\<not> contains_crlf (FormatMediaType ''multipart/mixed'' ''boundary'' b)"
  "plain_boundary b \<Longrightarrow> \<not> contains_crlf (''multipart/signed; boundary='' @ quoted b
     @ ''; micalg=pgp-sha256; protocol='' @ quoted ''application/pgp-signature'')"
  "plain_boundary b \<Longrightarrow> \<not> contains_crlf (''multipart/encrypted; boundary='' @ quoted b
     @ ''; protocol='' @ quoted ''application/pgp-encrypted'')"
proof -
  have e: "\<not> contains_crlf ''multipart/signed; boundary=''" "\<not> contains_crlf ''multipart/encrypted; boundary=''"
    "\<not> contains_crlf (''; micalg=pgp-sha256; protocol='' @ quoted ''application/pgp-signature'')"
    "\<not> contains_crlf (''; protocol='' @ quoted ''application/pgp-encrypted'')" by code_simp+
  show "\<not> contains_crlf ''text/plain; charset=utf-8''" by code_simp
  show "\<not> contains_crlf (FormatMediaType ''multipart/mixed'' ''boundary'' b)" by (rule FormatMediaType_plain) code_simp+
  show "plain_boundary b \<Longrightarrow> \<not> contains_crlf (''multipart/signed; boundary='' @ quoted b
     @ ''; micalg=pgp-sha256; protocol='' @ quoted ''application/pgp-signature'')"
    unfolding contains_crlf_append [of "''multipart/signed; boundary=''"] contains_crlf_append [of "quoted b"]
    using e plain_boundary_crlf by blast
  show "plain_boundary b \<Longrightarrow> \<not> contains_crlf (''multipart/encrypted; boundary='' @ quoted b
     @ ''; protocol='' @ quoted ''application/pgp-encrypted'')"
    unfolding contains_crlf_append [of "''multipart/encrypted; boundary=''"] contains_crlf_append [of "quoted b"]
    using e plain_boundary_crlf by blast
qed

lemma ComposeRaw_headers:
  assumes "ComposeRaw ns from to cc subj body atts tag th = Inr raw"
  shows "fields_ok from to cc subj" "\<exists>h. write_envelope from to cc subj tag th = Inr h"
    "starts_with_headers (meant_headers from to cc subj tag th) raw"
proof -
  obtain h where h: "write_envelope from to cc subj tag th = Inr h" and f: "fields_ok from to cc subj"
    using assms by (auto simp: ComposeRaw_def and_then_Inr_iff split: if_splits)
  then show "fields_ok from to cc subj" "\<exists>h. write_envelope from to cc subj tag th = Inr h" by blast+
  consider "raw = h @ header_line ''Content-Type'' ''text/plain; charset=utf-8'' @ CRLF @ body @ CRLF"
    | b where "raw = h @ mixed_type b @ CRLF @ mixed_body b body atts"
    using assms f h by (auto simp: ComposeRaw_def Let_def split: if_splits)
  then show "starts_with_headers (meant_headers from to cc subj tag th) raw"
  proof cases
    case 1
    show ?thesis unfolding 1 content_types(1) append.assoc [of _ CRLF, symmetric]
      using starts_with_headersI [OF h content_types_plain(1), of "body @ CRLF"] by simp
  next
    case 2
    show ?thesis unfolding 2 content_types(2)
      using starts_with_headersI [OF h content_types_plain(2), of b "mixed_body b body atts"] by simp
  qed
qed

lemma ComposeSignedRaw_cases:
  assumes "ComposeSignedRaw g pp from to cc subj body atts tag th fs = (Inr raw, fs')"
  obtains part sig b h where "fields_ok from to cc subj" "sign_part g pp body atts fs = (Inr (part, sig, b), fs')"
    "write_envelope from to cc subj tag th = Inr h" "raw = h @ signed_type b @ CRLF @ signed_body b part sig"
  using assms by (auto simp: ComposeSignedRaw_def and_then_Inr_iff split: if_splits sum.splits prod.splits)

lemma ComposeEncryptedSignedRaw_cases:
  assumes "ComposeEncryptedSignedRaw g signer pp keys from to cc subj body atts tag th fs = (Inr raw, fs')"
  obtains part sig b ciphertext eb h where "fields_ok from to cc subj" "sign_part g pp body atts fs = (Inr (part, sig, b), fs')"
    "Encrypt (mg_encrypt g) keys signer (signed_type b @ CRLF @ signed_body b part sig) = Inr ciphertext"
    "RandomBoundary (mg_encrypt_rnd g) = Some eb"
    "write_envelope from to cc subj tag th = Inr h" "raw = h @ encrypted_type eb @ CRLF @ encrypted_body eb ciphertext"
  using assms
  by (auto simp: ComposeEncryptedSignedRaw_def and_then_Inr_iff split: if_splits sum.splits prod.splits option.splits)

lemma sign_part_cases:
  assumes "sign_part g pp body atts fs = (Inr (part, sig, b), fs')"
  shows "body_part (mg_writer g) body atts = Inr part" "DetachSignBody (mg_sign g) pp part fs = (Inr sig, fs')"
    "RandomBoundary (mg_sign_rnd g) = Some b"
  using assms by (auto simp: sign_part_def split: sum.splits prod.splits option.splits)

lemma ComposeSignedRaw_headers:
  assumes "ComposeSignedRaw g pp from to cc subj body atts tag th fs = (Inr raw, fs')" "random_ok g"
  shows "starts_with_headers (meant_headers from to cc subj tag th) raw" "fields_ok from to cc subj"
    "\<exists>h. write_envelope from to cc subj tag th = Inr h"
proof -
  obtain part sig b h where s: "sign_part g pp body atts fs = (Inr (part, sig, b), fs')" "fields_ok from to cc subj"
    "write_envelope from to cc subj tag th = Inr h" "raw = h @ signed_type b @ CRLF @ signed_body b part sig"
    by (rule ComposeSignedRaw_cases [OF assms(1)])
  have "plain_boundary b" using boundary_plain [OF sign_part_cases(3) [OF s(1)]] assms(2) by (simp add: random_ok_def)
  from starts_with_headersI [OF s(3) content_types_plain(3) [OF this], of "signed_body b part sig"]
  show "starts_with_headers (meant_headers from to cc subj tag th) raw" unfolding s(4) content_types(3) by simp
qed (rule ComposeSignedRaw_cases [OF assms(1)], blast)+

lemma ComposeEncryptedSignedRaw_headers:
  assumes "ComposeEncryptedSignedRaw g signer pp keys from to cc subj body atts tag th fs = (Inr raw, fs')" "random_ok g"
  shows "starts_with_headers (meant_headers from to cc subj tag th) raw" "fields_ok from to cc subj"
    "\<exists>h. write_envelope from to cc subj tag th = Inr h"
proof -
  obtain ciphertext b h where s: "RandomBoundary (mg_encrypt_rnd g) = Some b" "fields_ok from to cc subj"
    "write_envelope from to cc subj tag th = Inr h" "raw = h @ encrypted_type b @ CRLF @ encrypted_body b ciphertext"
    by (rule ComposeEncryptedSignedRaw_cases [OF assms(1)])
  have "plain_boundary b" using boundary_plain [OF s(1)] assms(2) by (simp add: random_ok_def)
  from starts_with_headersI [OF s(3) content_types_plain(4) [OF this], of "encrypted_body b ciphertext"]
  show "starts_with_headers (meant_headers from to cc subj tag th) raw" unfolding s(4) content_types(4) by simp
qed (rule ComposeEncryptedSignedRaw_cases [OF assms(1)], blast)+

subsection \<open>What is sent signed or encrypted is read back\<close>

lemma clean_lines_concat:
  assumes "plain_boundary b" "\<forall>l \<in> set ls. clean_of b l"
  shows "clean_of b (concat (map (\<lambda>l. l @ CRLF) ls) @ x) = clean_of b x"
  using assms(2) by (induction ls) (simp_all add: clean_between [OF assms(1)])

lemma clean_signed_type:
  assumes "plain_boundary b" "clean_of b x"
  shows "clean_of b (signed_type x @ CRLF)" "clean_of b (encrypted_type x @ CRLF)"
  using assms(2) by (simp_all add: clean_between [OF assms(1)] signed_type_def encrypted_type_def quoted_def)

lemma clean_envelope:
  assumes "plain_boundary b" "write_envelope from to cc subj tag th = Inr h"
    "\<forall>l \<in> set (meant_headers from to cc subj tag th). clean_of b l"
  shows "clean_of b (h @ signed_type b @ CRLF)" "clean_of b (h @ encrypted_type b @ CRLF)"
  using clean_lines_concat [OF assms(1,3)] clean_signed_type [OF assms(1) clean_boundary [OF assms(1)]]
  unfolding write_envelope_lines(1) [OF assms(2)] by simp_all

text \<open>
  C14. A signed message is verified over exactly the part that was given to gpg: what the composer signed, with the
  attachments in it, is what \<open>Verify\<close> takes out, byte for byte, and the signature with it. The boundary drawn must not occur
  in the text, and \<open>net/mail\<close> must read the message's own Content-Type.
\<close>

theorem ComposeSigned_extract:
  assumes "ComposeSignedRaw g pp from to cc subj body atts tag th fs = (Inr raw, fs')" "random_ok g"
    and "RandomBoundary (mg_sign_rnd g) = Some b" "body_part (mg_writer g) body atts = Inr part"
    and "fst (DetachSignBody (mg_sign g) pp part fs) = Inr sig"
    and "\<forall>s \<in> set (part # sig # meant_headers from to cc subj tag th). \<not> Contains s (delimiter b)"
    and "ct raw = Inr (''multipart/signed'', b)"
  shows "extractSignedParts ct raw = Inr (part, TrimSpace sig, None)"
proof -
  obtain part' sig' b' h where s: "sign_part g pp body atts fs = (Inr (part', sig', b'), fs')"
    "write_envelope from to cc subj tag th = Inr h" "raw = h @ signed_type b' @ CRLF @ signed_body b' part' sig'"
    by (rule ComposeSignedRaw_cases [OF assms(1)])
  have eq: "part' = part" "sig' = sig" "b' = b" using sign_part_cases [OF s(1)] assms(3-5) by auto
  have pb: "plain_boundary b" using boundary_plain [OF assms(3)] assms(2) by (simp add: random_ok_def)
  have c: "clean_of b part" "clean_of b sig" "\<forall>l \<in> set (meant_headers from to cc subj tag th). clean_of b l"
    using assms(6) by (simp_all add: clean_of_def)
  show ?thesis
    using extract_signed_body [OF pb clean_envelope(1) [OF pb s(2) c(3)] c(1,2), of ct] assms(7) unfolding s(3) eq by simp
qed

definition encrypted_part :: "string \<Rightarrow> string" where
  "encrypted_part ciphertext =
     CRLF @ ''Content-Type: application/octet-stream; name='' @ quoted ''encrypted.asc'' @ CRLF
     @ ''Content-Disposition: inline; filename='' @ quoted ''encrypted.asc'' @ CRLF @ CRLF @ TrimSpace ciphertext @ CRLF"

lemma encrypted_parts:
  assumes b: "plain_boundary b" and "clean_of b h" "clean_of b ciphertext"
  shows "\<exists>v. SplitStr (h @ encrypted_body b ciphertext) (delimiter b) = [h, v, encrypted_part ciphertext, ''--'' @ CRLF]"
proof -
  note n = plain_boundary_notin [OF b]
  note cb = clean_between [OF b]
  define v where "v = CRLF @ ''Content-Type: application/pgp-encrypted'' @ CRLF
     @ ''Content-Description: PGP/MIME version identification'' @ CRLF @ CRLF @ ''Version: 1'' @ CRLF @ CRLF"
  have v: "clean_of b v" by (simp add: v_def)
  have p: "clean_of b (encrypted_part ciphertext)"
    using clean_TrimSpace [OF assms(3)] cb(1) [of "TrimSpace ciphertext" "[NL]"] by (simp add: encrypted_part_def quoted_def)
  have e: "clean_of b (''--'' @ CRLF)"
    by (auto simp: clean_of_def Contains_Cons delimiter_def n(5) n(2)) (metis HasPrefix_Cons list.exhaust n(2,5) list.set_intros(1))
  note sp = SplitStr_delimiter [OF n(1,5)]
  have eq: "h @ encrypted_body b ciphertext = h @ delimiter b @ v @ delimiter b @ encrypted_part ciphertext @ delimiter b @ (''--'' @ CRLF)"
    by (simp add: encrypted_body_def delimiter_def v_def encrypted_part_def)
  show ?thesis
    unfolding eq sp [OF assms(2) [unfolded clean_of_def]] sp [OF v [unfolded clean_of_def]] sp [OF p [unfolded clean_of_def]]
      SplitStr_none [OF e [unfolded clean_of_def]] by blast
qed

text \<open>What gpg's armor looks like: one block, from its first line to its last.\<close>

definition armored :: "string \<Rightarrow> bool" where
  "armored c \<longleftrightarrow> Index (TrimSpace c) pgp_begin = Some 0
     \<and> (\<exists>m. m \<noteq> [] \<and> TrimSpace c = m @ pgp_end \<and> Index (TrimSpace c) pgp_end = Some (length m))"

lemma encrypted_payload:
  assumes b: "plain_boundary b" and "clean_of b h" "clean_of b ciphertext" "armored ciphertext"
    "ct (h @ encrypted_body b ciphertext) = Inr (''multipart/encrypted'', b)"
  shows "extractEncryptedPayload ct mp (h @ encrypted_body b ciphertext) = Inr (TrimSpace ciphertext)"
proof -
  obtain v where v: "SplitStr (h @ encrypted_body b ciphertext) (delimiter b) = [h, v, encrypted_part ciphertext, ''--'' @ CRLF]"
    using encrypted_parts [OF assms(1-3)] by blast
  obtain m where m: "m \<noteq> []" "TrimSpace ciphertext = m @ pgp_end" "Index (TrimSpace ciphertext) pgp_end = Some (length m)"
    and i: "Index (TrimSpace ciphertext) pgp_begin = Some 0" using assms(4) unfolding armored_def by blast
  have p: "part_payload (encrypted_part ciphertext) = Some (TrimSpace ciphertext)"
  proof -
    define hd where "hd = CRLF @ ''Content-Type: application/octet-stream; name='' @ quoted ''encrypted.asc'' @ CRLF
     @ ''Content-Disposition: inline; filename='' @ quoted ''encrypted.asc''"
    have e: "encrypted_part ciphertext = hd @ CRLF @ CRLF @ TrimSpace ciphertext @ CRLF" by (simp add: encrypted_part_def hd_def)
    have "Index (hd @ CRLF @ CRLF @ TrimSpace ciphertext @ CRLF) (CRLF @ CRLF) = Some (length hd)"
      by (simp add: hd_def quoted_def)
    then show ?thesis unfolding e by (simp add: part_payload_def TrimSpace_crlf)
  qed
  have u: "until_boundary (delimiter b) (TrimSpace ciphertext) = TrimSpace ciphertext"
    by (rule until_clean [OF clean_TrimSpace [OF assms(3)]])
  have ne: "TrimSpace ciphertext \<noteq> []" unfolding m(2) using m(1) by simp
  have t: "take (length m + length pgp_end) (TrimSpace ciphertext) = TrimSpace ciphertext" unfolding m(2) by simp
  show ?thesis
    using assms(5) plain_boundary_notin(5) [OF b] i m(1,3) ne t
    by (simp add: extractEncryptedPayload_def Let_def v p u)
qed

lemma decrypt_line_plaintext: "dr_Plaintext (fold decrypt_line ls r) = dr_Plaintext r"
  by (induction ls arbitrary: r) (simp_all add: decrypt_line_def Let_def)

text \<open>
  What is sent encrypted and signed is read back: with gpg undoing its own encryption, decrypting the message gives the
  inner signed message, and its signature is over exactly the part that was composed and signed.
\<close>

theorem ComposeEncrypted_reads_back:
  assumes "ComposeEncryptedSignedRaw g signer pp keys from to cc subj body atts tag th fs = (Inr raw, fs')" "random_ok g"
    and "fst (sign_part g pp body atts fs) = Inr (part, sig, b)" "RandomBoundary (mg_encrypt_rnd g) = Some eb"
    and "mg_encrypt g (Encrypt_args keys signer) (signed_type b @ CRLF @ signed_body b part sig) = Inr c" "armored c"
    and "run (Some pp') (TrimSpace c) = (True, signed_type b @ CRLF @ signed_body b part sig, err)"
    and "\<forall>s \<in> set [part, sig]. \<not> Contains s (delimiter b)"
    and "\<forall>s \<in> set (c # meant_headers from to cc subj tag th). \<not> Contains s (delimiter eb)"
    and "ct raw = Inr (''multipart/encrypted'', eb)"
    and "ct (signed_type b @ CRLF @ signed_body b part sig) = Inr (''multipart/signed'', b)"
    and "gs_create d = Some f" "gs_write d" "gs_close d"
  shows "\<exists>r fs2. Decrypt ct mp d run pp' raw fs1 = (Inr r, fs2)
    \<and> extractSignedParts ct (dr_Plaintext r) = Inr (part, TrimSpace sig, None)"
proof -
  obtain part' sig' b' c' eb' h where s: "sign_part g pp body atts fs = (Inr (part', sig', b'), fs')"
    "Encrypt (mg_encrypt g) keys signer (signed_type b' @ CRLF @ signed_body b' part' sig') = Inr c'"
    "RandomBoundary (mg_encrypt_rnd g) = Some eb'" "write_envelope from to cc subj tag th = Inr h"
    "raw = h @ encrypted_type eb' @ CRLF @ encrypted_body eb' c'"
    by (rule ComposeEncryptedSignedRaw_cases [OF assms(1)])
  have eq: "part' = part" "sig' = sig" "b' = b" "eb' = eb" using s(1,3) assms(3,4) by auto
  have c': "c' = c" using s(2) assms(5) unfolding eq by (auto simp: Encrypt_def split: if_splits)
  have pb: "plain_boundary b" "plain_boundary eb"
    using boundary_plain [OF sign_part_cases(3) [OF s(1) [unfolded eq]]] boundary_plain [OF assms(4)] assms(2) by (simp_all add: random_ok_def)
  have cl: "clean_of b part" "clean_of b sig" "clean_of eb c" "\<forall>l \<in> set (meant_headers from to cc subj tag th). clean_of eb l"
    using assms(8,9) by (simp_all add: clean_of_def)
  have raw: "raw = (h @ encrypted_type eb @ CRLF) @ encrypted_body eb c" unfolding s(5) eq c' by simp
  have "extractEncryptedPayload ct mp raw = Inr (TrimSpace c)"
    unfolding raw by (rule encrypted_payload [OF pb(2) clean_envelope(2) [OF pb(2) s(4) cl(4)] cl(3) assms(6)])
      (use assms(10) raw in simp)
  then obtain r fs2 where r: "Decrypt ct mp d run pp' raw fs1 = (Inr r, fs2)"
    "dr_Plaintext r = signed_type b @ CRLF @ signed_body b part sig"
    using assms(7,12-14) by (simp add: Decrypt_def Let_def decrypt_line_plaintext)
  have "extractSignedParts ct (dr_Plaintext r) = Inr (part, TrimSpace sig, None)"
    unfolding r(2)
    using extract_signed_body [OF pb(1) _ cl(1,2), of "signed_type b @ CRLF" ct] clean_signed_type(1) [OF pb(1) clean_boundary [OF pb(1)]]
      assms(11) by simp
  with r(1) show ?thesis by blast
qed

subsection \<open>Attachments arrive whole\<close>

lemma Index_skip: "CR \<notin> set l \<Longrightarrow> Index (l @ s) (CR # t) = map_option (\<lambda>i. i + length l) (Index s (CR # t))"
  by (induction l) (auto simp: option.map_comp comp_def intro: option.map_cong option.map_ident [symmetric])

lemma Index_blank_line:
  assumes "list_all clean_line ls" "ls \<noteq> []"
  shows "Index (concat (map (\<lambda>l. l @ CRLF) ls) @ CRLF @ r) (CRLF @ CRLF) = Some (length (concat (map (\<lambda>l. l @ CRLF) ls)) - 2)"
  using assms
proof (induction ls)
  case (Cons l ls)
  have l: "CR \<notin> set l" using Cons.prems by (simp add: clean_line_iff)
  show ?case
  proof (cases ls)
    case Nil
    then show ?thesis using Index_skip [OF l, of "CRLF @ CRLF @ r" "[NL] @ CRLF"] by simp
  next
    case (Cons m ms)
    define rest where "rest = concat (map (\<lambda>l. l @ CRLF) ls) @ CRLF @ r"
    have ih: "Index rest (CRLF @ CRLF) = Some (length (concat (map (\<lambda>l. l @ CRLF) ls)) - 2)"
      using Cons.IH Cons Cons.prems unfolding rest_def by simp
    obtain x xs where x: "m = x # xs" "x \<noteq> CR" using Cons.prems Cons by (cases m) (auto simp: clean_line_iff)
    have "\<not> HasPrefix (CRLF @ rest) (CRLF @ CRLF)" "\<not> HasPrefix (NL # rest) (CRLF @ CRLF)" using x by (simp_all add: rest_def Cons)
    then have "Index (CRLF @ rest) (CRLF @ CRLF) = map_option (\<lambda>i. i + 2) (Index rest (CRLF @ CRLF))"
      by (simp add: option.map_comp comp_def)
    then have "Index ((l @ CRLF) @ rest) (CRLF @ CRLF) = Some (length l + length (concat (map (\<lambda>l. l @ CRLF) ls)))"
      using Index_skip [OF l, of "CRLF @ rest" "[NL] @ CRLF"] ih by (simp add: Cons)
    then show ?thesis by (simp add: rest_def)
  qed
qed simp

text \<open>
  A reader's side: what comes after the first empty line, the parts between the delimiters (each from the end of its delimiter's
  line to the line end before the next one) as header lines and content, and the bytes a base64 content stands for.
\<close>

definition body_of :: "string \<Rightarrow> string" where
  "body_of m = (case Index m (CRLF @ CRLF) of None \<Rightarrow> [] | Some i \<Rightarrow> drop (i + 4) m)"

definition cut_part :: "string \<Rightarrow> string list \<times> string" where
  "cut_part p = (let m = drop 2 p in (head_lines m, take (length (body_of m) - 2) (body_of m)))"

definition read_parts :: "string \<Rightarrow> string \<Rightarrow> (string list \<times> string) list" where
  "read_parts b body = map cut_part (butlast (drop 1 (SplitStr body (delimiter b))))"

definition decode64 :: "string \<Rightarrow> string option" where
  "decode64 s = unbase64 (filter (\<lambda>c. c \<noteq> CR \<and> c \<noteq> NL) s)"

lemma body_of_lines:
  assumes "list_all clean_line ls" "ls \<noteq> []"
  shows "body_of (concat (map (\<lambda>l. l @ CRLF) ls) @ CRLF @ r) = r"
proof -
  obtain l ls' where l: "ls = l # ls'" using assms(2) by (cases ls) simp_all
  define h where "h = concat (map (\<lambda>l. l @ CRLF) ls)"
  have "2 \<le> length h" by (simp add: h_def l)
  moreover have "body_of (h @ CRLF @ r) = drop (length h - 2 + 4) (h @ CRLF @ r)"
    unfolding body_of_def h_def Index_blank_line [OF assms] option.case ..
  ultimately show ?thesis unfolding h_def [symmetric] by simp
qed

lemma cut_part_lines:
  assumes "list_all clean_line ls" "ls \<noteq> []"
  shows "cut_part (CRLF @ concat (map (\<lambda>l. l @ CRLF) ls) @ CRLF @ content @ CRLF) = (ls, content)"
  using body_of_lines [OF assms, of "content @ CRLF"] head_lines_lines [OF assms(1), of "content @ CRLF"]
  by (simp add: cut_part_def Let_def)

lemma filter_encoded: "filter (\<lambda>c. c \<noteq> CR \<and> c \<noteq> NL) (encoded_lines d) = base64 d"
proof -
  have "filter (\<lambda>c. c \<noteq> CR \<and> c \<noteq> NL) (concat (map (\<lambda>l. l @ CRLF) ls)) = filter (\<lambda>c. c \<noteq> CR \<and> c \<noteq> NL) (concat ls)" for ls
    by (induction ls) simp_all
  moreover have "filter (\<lambda>c. c \<noteq> CR \<and> c \<noteq> NL) (base64 d) = base64 d" using base64_plain by (simp add: filter_id_conv)
  ultimately show ?thesis by (simp add: encoded_lines_def concat_wrap76)
qed

lemma encoded_lines_bounded: "list_all (\<lambda>l. 0 < length l \<and> length l \<le> 76 \<and> clean_line l) (wrap76 (base64 d))"
proof -
  have "clean_line l" if "l \<in> set (wrap76 (base64 d))" for l
  proof -
    have "set l \<subseteq> set (base64 d)" using concat_wrap76 [of "base64 d"] that by (metis Union_upper image_eqI set_concat)
    then show ?thesis using base64_plain [of _ d] wrap76_length [OF that] by (auto simp: clean_line_iff)
  qed
  then show ?thesis using wrap76_length by (auto simp: list_all_iff)
qed

definition part_headers :: "OutboundAttachment \<Rightarrow> string list" where
  "part_headers a =
     [''Content-Disposition: '' @ FormatMediaType ''attachment'' ''filename'' (oa_Filename a),
      ''Content-Transfer-Encoding: base64'', ''Content-Type: '' @ oa_ContentType a]"

lemma attachment_part_lines:
  "attachment_part b a = CRLF @ delimiter b @ CRLF @ concat (map (\<lambda>l. l @ CRLF) (part_headers a)) @ CRLF @ encoded_lines (oa_Data a)"
  by (simp add: attachment_part_def delimiter_def header_line_def part_headers_def)

lemma part_headers_clean:
  assumes "\<not> contains_crlf (oa_ContentType a)"
  shows "list_all clean_line (part_headers a)"
proof -
  have e: "\<not> contains_crlf ''Content-Disposition: ''" "\<not> contains_crlf ''Content-Type: ''" "clean_line ''Content-Transfer-Encoding: base64''"
    "\<not> contains_crlf ''attachment''" "\<not> contains_crlf ''filename''"
    by code_simp+
  show ?thesis
    using FormatMediaType_plain [OF e(4,5)] e assms by (simp add: part_headers_def clean_line_append del: append.simps)
qed

lemma decode64_encoded: "decode64 (encoded_lines d) = Some d"
  by (simp add: decode64_def filter_encoded unbase64_base64)

lemma writer_boundary_ok:
  assumes "list_all (\<lambda>n. n < 256) ns" "ns \<noteq> []"
  shows "plain_boundary (writer_boundary ns)"
proof -
  have h: "list_all (\<lambda>k. hex_digit ''0123456789abcdef'' k \<in> set boundary_chars) [0..<16]" by code_simp
  have "hex_digit ''0123456789abcdef'' (n div 16) \<in> set boundary_chars \<and> hex_digit ''0123456789abcdef'' (n mod 16) \<in> set boundary_chars"
    if "n < 256" for n
  proof -
    have "n div 16 < 16" "n mod 16 < 16" using that by (simp_all add: less_mult_imp_div_less)
    with h show ?thesis by (simp add: list_all_iff)
  qed
  then show ?thesis using assms by (auto simp: plain_boundary_def writer_boundary_def list_all_iff)
qed

lemma clean_encoded: assumes "plain_boundary b" shows "clean_of b (encoded_lines d)"
proof -
  have "set l \<subseteq> set (base64 d)" if "l \<in> set (wrap76 (base64 d))" for l
    using concat_wrap76 [of "base64 d"] that by (metis Union_upper image_eqI set_concat)
  then have "CHR ''-'' \<notin> set l" if "l \<in> set (wrap76 (base64 d))" for l using base64_plain that by blast
  moreover have "clean_of b l" if "CHR ''-'' \<notin> set l" for l
    using that by (auto simp: clean_of_def Contains_iff_infix delimiter_def)
  ultimately have "\<forall>l \<in> set (wrap76 (base64 d)). clean_of b l" by blast
  then show ?thesis using clean_lines_concat [OF assms, of "wrap76 (base64 d)" "[]"] by (simp add: encoded_lines_def)
qed

lemma mixed_split:
  assumes b: "plain_boundary b" and "clean_of b body" "\<forall>a \<in> set atts. \<forall>l \<in> set (part_headers a). clean_of b l"
  shows "SplitStr (mixed_body b body atts) (delimiter b) =
    [] # (CRLF @ header_line ''Content-Type'' ''text/plain; charset=utf-8'' @ CRLF @ body @ CRLF @ CRLF)
      # map (\<lambda>a. CRLF @ concat (map (\<lambda>l. l @ CRLF) (part_headers a)) @ CRLF @ encoded_lines (oa_Data a) @ CRLF) atts @ [''--'' @ CRLF]"
proof -
  note n = plain_boundary_notin [OF b]
  note sp = SplitStr_delimiter [OF n(1,5)]
  define Q where "Q a = CRLF @ concat (map (\<lambda>l. l @ CRLF) (part_headers a)) @ CRLF @ encoded_lines (oa_Data a)" for a
  have q: "clean_of b (Q a @ CRLF)" if "a \<in> set atts" for a
  proof -
    have e: "clean_of b (CRLF @ encoded_lines (oa_Data a) @ CRLF)"
      using clean_encoded [OF b] clean_between(1) [OF b, of "encoded_lines (oa_Data a)" "[NL]"] by simp
    show ?thesis using clean_lines_concat [OF b, of "part_headers a" "CRLF @ encoded_lines (oa_Data a) @ CRLF"] assms(3) that e
      by (simp add: Q_def)
  qed
  have e: "clean_of b (''--'' @ CRLF)"
    by (auto simp: clean_of_def Contains_Cons delimiter_def n(5) n(2)) (metis HasPrefix_Cons list.exhaust n(2,5) list.set_intros(1))
  have rest: "SplitStr (x @ concat (map (\<lambda>a. CRLF @ delimiter b @ Q a) as) @ CRLF @ delimiter b @ ''--'' @ CRLF) (delimiter b)
      = (x @ CRLF) # map (\<lambda>a. Q a @ CRLF) as @ [''--'' @ CRLF]" if "clean_of b (x @ CRLF)" "set as \<subseteq> set atts" for x as
    using that
  proof (induction as arbitrary: x)
    case Nil
    then show ?case using sp [of "x @ CRLF" "''--'' @ CRLF"] SplitStr_none [OF e [unfolded clean_of_def]]
      by (simp add: clean_of_def)
  next
    case (Cons a as)
    then show ?case using Cons.IH [OF q] sp [of "x @ CRLF"] by (simp add: clean_of_def)
  qed
  define x where "x = CRLF @ header_line ''Content-Type'' ''text/plain; charset=utf-8'' @ CRLF @ body @ CRLF"
  have x: "clean_of b (x @ CRLF)"
    using assms(2) clean_between(1) [OF b, of body "NL # CRLF"] clean_between(1) [OF b, of "''Content-Type: text/plain; charset=utf-8''"]
    by (simp add: x_def header_line_def)
  have m: "mixed_body b body atts = [] @ delimiter b @ x @ concat (map (\<lambda>a. CRLF @ delimiter b @ Q a) atts) @ CRLF @ delimiter b @ ''--'' @ CRLF"
    unfolding mixed_body_def attachment_part_lines by (simp add: x_def Q_def delimiter_def)
  have z: "\<not> Contains [] (delimiter b)" by (simp add: delimiter_def)
  show ?thesis unfolding m sp [OF z] rest [OF x subset_refl] by (simp add: Q_def x_def)
qed

lemma ComposeRaw_shape:
  assumes "ComposeRaw ns from to cc subj body atts tag th = Inr raw"
  obtains t where "list_all clean_line (meant_headers from to cc subj tag th @ [''Content-Type: '' @ t])"
    "raw = concat (map (\<lambda>l. l @ CRLF) (meant_headers from to cc subj tag th @ [''Content-Type: '' @ t])) @ CRLF
      @ (if atts = [] then body @ CRLF else mixed_body (writer_boundary ns) body atts)"
    "t = (if atts = [] then ''text/plain; charset=utf-8'' else FormatMediaType ''multipart/mixed'' ''boundary'' (writer_boundary ns))"
    "atts \<noteq> [] \<Longrightarrow> attachments_ok atts"
proof -
  let ?t = "if atts = [] then ''text/plain; charset=utf-8'' else FormatMediaType ''multipart/mixed'' ''boundary'' (writer_boundary ns)"
  obtain h where h: "write_envelope from to cc subj tag th = Inr h" and f: "fields_ok from to cc subj"
    and ok: "atts \<noteq> [] \<longrightarrow> attachments_ok atts"
    and raw: "raw = h @ ((''Content-Type: '' @ ?t) @ CRLF) @ CRLF @ (if atts = [] then body @ CRLF else mixed_body (writer_boundary ns) body atts)"
    using assms by (auto simp: ComposeRaw_def and_then_Inr_iff Let_def content_types split: if_splits)
  have "\<not> contains_crlf ?t" using content_types_plain(1,2) by (cases "atts = []") simp_all
  moreover have "\<not> contains_crlf ''Content-Type: ''" by code_simp
  ultimately have "clean_line (''Content-Type: '' @ ?t)" unfolding clean_line_append by simp
  then have c: "list_all clean_line (meant_headers from to cc subj tag th @ [''Content-Type: '' @ ?t])"
    using meant_headers_clean [OF f h] by simp
  show ?thesis by (rule that [OF c _ refl]) (use raw ok write_envelope_lines(1) [OF h] in simp_all)
qed

lemma mixed_parts:
  assumes "plain_boundary b" "attachments_ok atts" "\<not> Contains body (delimiter b)"
    and "\<forall>a \<in> set atts. \<forall>l \<in> set (part_headers a). \<not> Contains l (delimiter b)"
  shows "read_parts b (mixed_body b body atts) = ([''Content-Type: text/plain; charset=utf-8''], body @ CRLF)
    # map (\<lambda>a. (part_headers a, encoded_lines (oa_Data a))) atts"
proof -
  let ?P = "\<lambda>a. CRLF @ concat (map (\<lambda>l. l @ CRLF) (part_headers a)) @ CRLF @ encoded_lines (oa_Data a) @ CRLF"
  let ?T = "CRLF @ header_line ''Content-Type'' ''text/plain; charset=utf-8'' @ CRLF @ body @ CRLF @ CRLF"
  have s: "SplitStr (mixed_body b body atts) (delimiter b) = [] # ?T # map ?P atts @ [''--'' @ CRLF]"
    by (rule mixed_split [OF assms(1)]) (use assms(3,4) in \<open>simp_all add: clean_of_def\<close>)
  have e: "butlast (drop 1 (x # y # xs @ [z])) = y # xs" for x y z :: string and xs by (simp add: butlast_append)
  have r: "read_parts b (mixed_body b body atts) = cut_part ?T # map (cut_part \<circ> ?P) atts"
    unfolding read_parts_def s e by (simp only: list.map map_map)
  have p: "cut_part (?P a) = (part_headers a, encoded_lines (oa_Data a))" if "a \<in> set atts" for a
    by (rule cut_part_lines [OF part_headers_clean])
      (use assms(2) that in \<open>auto simp: attachments_ok_def list_ex_iff part_headers_def\<close>)
  have "list_all clean_line [''Content-Type: text/plain; charset=utf-8'']" by code_simp
  from cut_part_lines [OF this, of "body @ CRLF"]
  have "cut_part ?T = ([''Content-Type: text/plain; charset=utf-8''], body @ CRLF)" by (simp add: header_line_def)
  with p show ?thesis unfolding r by simp
qed

text \<open>
  C15. A composed message is read back whole: its header lines are the ones that were meant and the content type; without
  attachments what follows them is the text with a line end; with attachments the multipart body splits at its boundary into
  the text part, holding exactly the text and a line end, and one part for each attachment in order, with its headers and a
  content that decodes to exactly the bytes attached; provided the boundary's random bytes do not occur in the message.
\<close>

theorem ComposeRaw_read_back:
  assumes "ComposeRaw ns from to cc subj body atts tag th = Inr raw"
    and "list_all (\<lambda>n. n < 256) ns" "ns \<noteq> []" "\<not> Contains body (delimiter (writer_boundary ns))"
    and "\<forall>a \<in> set atts. \<forall>l \<in> set (part_headers a). \<not> Contains l (delimiter (writer_boundary ns))"
  shows "if atts = []
    then head_lines raw = meant_headers from to cc subj tag th @ [''Content-Type: text/plain; charset=utf-8''] \<and> body_of raw = body @ CRLF
    else head_lines raw = meant_headers from to cc subj tag th
        @ [''Content-Type: '' @ FormatMediaType ''multipart/mixed'' ''boundary'' (writer_boundary ns)]
      \<and> (\<exists>parts. read_parts (writer_boundary ns) (body_of raw) = ([''Content-Type: text/plain; charset=utf-8''], body @ CRLF) # parts
          \<and> map fst parts = map part_headers atts \<and> map (\<lambda>p. decode64 (snd p)) parts = map (\<lambda>a. Some (oa_Data a)) atts)"
proof (cases rule: ComposeRaw_shape [OF assms(1)])
  case (1 t)
  have ne: "meant_headers from to cc subj tag th @ [''Content-Type: '' @ t] \<noteq> []" by simp
  have h: "head_lines raw = meant_headers from to cc subj tag th @ [''Content-Type: '' @ t]"
    unfolding 1(2) by (rule head_lines_lines [OF 1(1)])
  have b: "body_of raw = (if atts = [] then body @ CRLF else mixed_body (writer_boundary ns) body atts)"
    unfolding 1(2) by (rule body_of_lines [OF 1(1) ne])
  show ?thesis
  proof (cases "atts = []")
    case True
    then show ?thesis using h b 1(3) by simp
  next
    case False
    have "map (\<lambda>p. decode64 (snd p)) (map (\<lambda>a. (part_headers a, encoded_lines (oa_Data a))) atts) = map (\<lambda>a. Some (oa_Data a)) atts"
      by (simp add: decode64_encoded)
    moreover have "map fst (map (\<lambda>a. (part_headers a, encoded_lines (oa_Data a))) atts) = map part_headers atts" by simp
    ultimately show ?thesis
      unfolding if_not_P [OF False] h b 1(3) mixed_parts [OF writer_boundary_ok [OF assms(2,3)] 1(4) [OF False] assms(4,5)]
      by blast
  qed
qed

definition sample_attachment :: OutboundAttachment where
  "sample_attachment = \<lparr>oa_Filename = ''a b.txt'', oa_ContentType = ''text/plain'', oa_Data = ''hello''\<rparr>"

theorem ComposeRaw_read_back_witness:
  "\<exists>raw parts. ComposeRaw [1, 2] ''me'' [''you''] [] ''hi'' ''x'' [sample_attachment] no_tag no_thread = Inr raw
    \<and> read_parts (writer_boundary [1, 2]) (body_of raw) = ([''Content-Type: text/plain; charset=utf-8''], ''x'' @ CRLF) # parts
    \<and> map (\<lambda>p. decode64 (snd p)) parts = [Some ''hello'']"
proof -
  have "is_ok (ComposeRaw [1, 2] ''me'' [''you''] [] ''hi'' ''x'' [sample_attachment] no_tag no_thread)" by code_simp
  then obtain raw where r: "ComposeRaw [1, 2] ''me'' [''you''] [] ''hi'' ''x'' [sample_attachment] no_tag no_thread = Inr raw"
    unfolding is_ok_iff by blast
  have b: "\<not> Contains ''x'' (delimiter (writer_boundary [1, 2]))" by code_simp
  have c: "\<forall>a \<in> set [sample_attachment]. \<forall>l \<in> set (part_headers a). \<not> Contains l (delimiter (writer_boundary [1, 2]))" by code_simp
  have n: "list_all (\<lambda>n. n < 256) [1, 2 :: nat]" "[1, 2 :: nat] \<noteq> []" by simp_all
  have d: "map (\<lambda>a. Some (oa_Data a)) [sample_attachment] = [Some ''hello'']" by (simp add: sample_attachment_def)
  have ne: "[sample_attachment] \<noteq> []" by simp
  show ?thesis
    using ComposeRaw_read_back [OF r n b c, unfolded if_not_P [OF ne] d] r by (elim conjE exE) (intro exI conjI)
qed

definition sample_mail :: mail_gpg where
  "sample_mail = \<lparr>mg_sign = sample_sign, mg_writer = [1, 2], mg_sign_rnd = Some (replicate 16 5),
     mg_encrypt = (\<lambda>_ _. Inr (pgp_begin @ ''x'' @ pgp_end)), mg_encrypt_rnd = Some (replicate 16 7)\<rparr>"

lemma sample_mail_ok: "random_ok sample_mail"
  by (simp add: random_ok_def sample_mail_def list_all_iff)

theorem ComposeSigned_extract_witness:
  "\<exists>raw. fst (ComposeSignedRaw sample_mail ''pw'' ''me'' [''you''] [] ''hi'' ''text'' [sample_attachment] no_tag no_thread (\<lambda>_. None)) = Inr raw
    \<and> extractSignedParts (\<lambda>_. Inr (''multipart/signed'', ''Beadleffffffffffffffff'')) raw
      = Inr (mixed_type (writer_boundary [1, 2]) @ CRLF @ mixed_body (writer_boundary [1, 2]) ''text'' [sample_attachment], ''SIG'', None)"
proof -
  let ?run = "ComposeSignedRaw sample_mail ''pw'' ''me'' [''you''] [] ''hi'' ''text'' [sample_attachment] no_tag no_thread (\<lambda>_. None)"
  let ?part = "mixed_type (writer_boundary [1, 2]) @ CRLF @ mixed_body (writer_boundary [1, 2]) ''text'' [sample_attachment]"
  have "is_ok (fst ?run)" by code_simp
  then obtain raw where f: "fst ?run = Inr raw" unfolding is_ok_iff by blast
  then have r: "?run = (Inr raw, snd ?run)" by (metis prod.collapse)
  have b: "RandomBoundary (mg_sign_rnd sample_mail) = Some ''Beadleffffffffffffffff''" by code_simp
  have p: "body_part (mg_writer sample_mail) ''text'' [sample_attachment] = Inr ?part" by code_simp
  have s: "fst (DetachSignBody (mg_sign sample_mail) ''pw'' ?part (\<lambda>_. None)) = Inr ''SIG''" by code_simp
  have c: "\<forall>s \<in> set (?part # ''SIG'' # meant_headers ''me'' [''you''] [] ''hi'' no_tag no_thread).
    \<not> Contains s (delimiter ''Beadleffffffffffffffff'')" by code_simp
  have t: "TrimSpace ''SIG'' = ''SIG''" by code_simp
  have "extractSignedParts (\<lambda>_. Inr (''multipart/signed'', ''Beadleffffffffffffffff'')) raw = Inr (?part, TrimSpace ''SIG'', None)"
    by (rule ComposeSigned_extract [OF r sample_mail_ok b p s c refl])
  with f show ?thesis unfolding t by blast
qed

theorem ComposeEncrypted_reads_back_witness:
  "\<exists>raw (r :: DecryptResult). fst (ComposeEncryptedSignedRaw sample_mail ''me'' ''pw'' [''K''] ''me'' [''you''] [] ''hi'' ''text'' [] no_tag no_thread (\<lambda>_. None)) = Inr raw
    \<and> extractSignedParts (\<lambda>m. if HasPrefix m ''From'' then Inr (''multipart/encrypted'', ''Beadlehhhhhhhhhhhhhhhh'')
        else Inr (''multipart/signed'', ''Beadleffffffffffffffff'')) (dr_Plaintext r) = Inr (text_part ''text'', ''SIG'', None)"
proof -
  let ?run = "ComposeEncryptedSignedRaw sample_mail ''me'' ''pw'' [''K''] ''me'' [''you''] [] ''hi'' ''text'' [] no_tag no_thread (\<lambda>_. None)"
  let ?ct = "\<lambda>m. if HasPrefix m ''From'' then Inr (''multipart/encrypted'', ''Beadlehhhhhhhhhhhhhhhh'')
        else Inr (''multipart/signed'', ''Beadleffffffffffffffff'') :: (string, string \<times> string) result"
  define d where "d = signed_type ''Beadleffffffffffffffff'' @ CRLF @ signed_body ''Beadleffffffffffffffff'' (text_part ''text'') ''SIG''"
  let ?decrypt = "\<lambda>(_ :: string option) (_ :: string). (True, d, [] :: string)"
  have "is_ok (fst ?run)" by code_simp
  then obtain raw where f: "fst ?run = Inr raw" unfolding is_ok_iff by blast
  then have r: "?run = (Inr raw, snd ?run)" by (metis prod.collapse)
  have "map_sum id (\<lambda>m. HasPrefix m ''From'') (fst ?run) = Inr True" by code_simp
  then have hf: "HasPrefix raw ''From''" by (simp only: f map_sum.simps sum.inject)
  have s: "fst (sign_part sample_mail ''pw'' ''text'' [] (\<lambda>_. None)) = Inr (text_part ''text'', ''SIG'', ''Beadleffffffffffffffff'')" by code_simp
  have b: "RandomBoundary (mg_encrypt_rnd sample_mail) = Some ''Beadlehhhhhhhhhhhhhhhh''" by code_simp
  have e: "mg_encrypt sample_mail (Encrypt_args [''K''] ''me'')
      (signed_type ''Beadleffffffffffffffff'' @ CRLF @ signed_body ''Beadleffffffffffffffff'' (text_part ''text'') ''SIG'')
    = Inr (pgp_begin @ ''x'' @ pgp_end)" by (simp add: sample_mail_def)
  have ts: "TrimSpace (pgp_begin @ ''x'' @ pgp_end) = pgp_begin @ ''x'' @ pgp_end" by code_simp
  have "Index (pgp_begin @ ''x'' @ pgp_end) pgp_begin = Some 0" "Index (pgp_begin @ ''x'' @ pgp_end) pgp_end = Some (length (pgp_begin @ ''x''))"
    by code_simp+
  then have a: "armored (pgp_begin @ ''x'' @ pgp_end)"
    unfolding armored_def ts by (intro conjI exI [of _ "pgp_begin @ ''x''"]) simp_all
  have c1: "\<forall>s \<in> set [text_part ''text'', ''SIG'']. \<not> Contains s (delimiter ''Beadleffffffffffffffff'')" by code_simp
  have c2: "\<forall>s \<in> set ((pgp_begin @ ''x'' @ pgp_end) # meant_headers ''me'' [''you''] [] ''hi'' no_tag no_thread).
    \<not> Contains s (delimiter ''Beadlehhhhhhhhhhhhhhhh'')" by code_simp
  have t1: "?ct raw = Inr (''multipart/encrypted'', ''Beadlehhhhhhhhhhhhhhhh'')" using hf by (simp only: if_True)
  have "\<not> HasPrefix (signed_type ''Beadleffffffffffffffff'' @ CRLF @ signed_body ''Beadleffffffffffffffff'' (text_part ''text'') ''SIG'') ''From''"
    by code_simp
  then have t2: "?ct (signed_type ''Beadleffffffffffffffff'' @ CRLF @ signed_body ''Beadleffffffffffffffff'' (text_part ''text'') ''SIG'')
    = Inr (''multipart/signed'', ''Beadleffffffffffffffff'')" by (simp only: if_False)
  have g: "gs_create sample_sign = Some ''/tmp/pp''" "gs_write sample_sign" "gs_close sample_sign" by (simp_all add: sample_sign_def)
  have dec: "?decrypt (Some ''pw'') (TrimSpace (pgp_begin @ ''x'' @ pgp_end))
    = (True, signed_type ''Beadleffffffffffffffff'' @ CRLF @ signed_body ''Beadleffffffffffffffff'' (text_part ''text'') ''SIG'', [])"
    by (simp only: d_def)
  obtain q fs2 where "Decrypt ?ct (\<lambda>_. []) sample_sign ?decrypt ''pw'' raw (\<lambda>_. None) = (Inr q, fs2)"
    and x: "extractSignedParts ?ct (dr_Plaintext q) = Inr (text_part ''text'', TrimSpace ''SIG'', None)"
    using ComposeEncrypted_reads_back [OF r sample_mail_ok s b e a dec c1 c2 t1 t2 g, where mp = "\<lambda>_. []" and ?fs1.0 = "\<lambda>_. None" and pp' = "''pw''"]
    by (elim exE conjE)
  have t: "TrimSpace ''SIG'' = ''SIG''" by code_simp
  have "extractSignedParts ?ct (dr_Plaintext q) = Inr (text_part ''text'', ''SIG'', None)" using x unfolding t .
  with f show ?thesis by (intro exI conjI)
qed

end
