(* ===== verification/Transport.thy ===== *)
theory Transport
  imports Compose MailConfig
begin

section \<open>Sending a message\<close>

text \<open>
  Models \<open>internal/email/smtp.go\<close>, \<open>chain.go\<close> and the Resend side of \<open>send.go\<close>. A connection to the mail
  server is the list of what was done on it, newest last; the server answers each step, from what was done so far, with an
  error or nothing. The HTTP client, the parser of Resend's answer, \<open>net.ParseIP\<close> and gpg are arguments.
\<close>

subsection \<open>SMTP\<close>

datatype smtp_step =
    DialTLS string string bool
  | DialPlain string
  | NewClient string
  | StartTLS string bool
  | Auth string string
  | MailFrom string
  | RcptTo string
  | DataCommand
  | WriteBody string
  | CloseBody
  | QuitCommand

datatype smtp_error =
    SmtpPasswordError get_error
  | SmtpDialError string
  | SmtpClientError string
  | StartTLSError string
  | AuthError string
  | MailFromError string
  | RcptError nat nat string
  | DataError string
  | WriteError string
  | CloseError string
  | QuitError string

type_synonym smtp_trace = "smtp_step list"
type_synonym smtp_server = "smtp_trace \<Rightarrow> string option"
type_synonym smtp_run = "smtp_trace \<Rightarrow> (smtp_error, unit) result \<times> smtp_trace"

definition step :: "smtp_server \<Rightarrow> smtp_step \<Rightarrow> (string \<Rightarrow> smtp_error) \<Rightarrow> smtp_run" where
  "step srv s mk tr = (let tr' = tr @ [s] in case srv tr' of None \<Rightarrow> (Inr (), tr') | Some e \<Rightarrow> (Inl (mk e), tr'))"

definition then_step :: "smtp_run \<Rightarrow> smtp_run \<Rightarrow> smtp_run" where
  "then_step a b tr = (case a tr of (Inl e, tr') \<Rightarrow> (Inl e, tr') | (Inr _, tr') \<Rightarrow> b tr')"

fun in_order :: "smtp_run list \<Rightarrow> smtp_run" where
  "in_order [] = (\<lambda>tr. (Inr (), tr))"
| "in_order (a # as) = then_step a (in_order as)"

text \<open>\<open>ip\<close> is what \<open>net.ParseIP\<close> says: not an address, or whether it is a loopback one.\<close>

definition isLoopback :: "(string \<Rightarrow> bool option) \<Rightarrow> string \<Rightarrow> bool" where
  "isLoopback ip host = (case ip host of Some l \<Rightarrow> l | None \<Rightarrow> host = ''localhost'')"

definition JoinHostPort :: "string \<Rightarrow> int \<Rightarrow> string" where
  "JoinHostPort host port =
     (if CHR '':'' \<in> set host then ''['' @ host @ '']:'' @ Itoa port else host @ '':'' @ Itoa port)"

definition recipient_steps :: "smtp_server \<Rightarrow> string list \<Rightarrow> smtp_run list" where
  "recipient_steps srv rcpts =
     map (\<lambda>(i, r). step srv (RcptTo r) (RcptError (i + 1) (length rcpts))) (enumerate 0 rcpts)"

definition SMTPSend ::
    "smtp_server \<Rightarrow> secret_world \<Rightarrow> (string \<Rightarrow> bool option) \<Rightarrow> mail_config \<Rightarrow> string \<Rightarrow> string list \<Rightarrow> string \<Rightarrow> smtp_run" where
  "SMTPSend srv w ip cfg from recipients raw tr =
     (let host = SMTPEffectiveHost cfg; addr = JoinHostPort host (mc_SMTPPort cfg) in
      case SMTPPassword w (mc_TestPassword cfg) of
        Inl e \<Rightarrow> (Inl (SmtpPasswordError e), tr)
      | Inr password \<Rightarrow>
          let skip = (mc_TLSSkipVerify cfg \<or> isLoopback ip host);
              connect = (if mc_SMTPPort cfg = 465
                then [step srv (DialTLS addr host skip) SmtpDialError, step srv (NewClient host) SmtpClientError]
                else [step srv (DialPlain addr) SmtpDialError, step srv (NewClient host) SmtpClientError,
                      step srv (StartTLS host skip) StartTLSError]) in
          in_order (connect
            @ [step srv (Auth (SMTPEffectiveUser cfg) password) AuthError, step srv (MailFrom from) MailFromError]
            @ recipient_steps srv recipients
            @ [step srv DataCommand DataError, step srv (WriteBody raw) WriteError, step srv CloseBody CloseError,
               step srv QuitCommand QuitError]) tr)"

text \<open>The steps of a run that meets no error.\<close>

definition smtp_steps :: "(string \<Rightarrow> bool option) \<Rightarrow> mail_config \<Rightarrow> string \<Rightarrow> string \<Rightarrow> string list \<Rightarrow> string \<Rightarrow> smtp_step list" where
  "smtp_steps ip cfg password from recipients raw =
     (let host = SMTPEffectiveHost cfg; addr = JoinHostPort host (mc_SMTPPort cfg);
          skip = (mc_TLSSkipVerify cfg \<or> isLoopback ip host) in
      (if mc_SMTPPort cfg = 465 then [DialTLS addr host skip, NewClient host]
       else [DialPlain addr, NewClient host, StartTLS host skip])
      @ [Auth (SMTPEffectiveUser cfg) password, MailFrom from] @ map RcptTo recipients
      @ [DataCommand, WriteBody raw, CloseBody, QuitCommand])"

definition run_steps :: "smtp_server \<Rightarrow> (smtp_step \<times> (string \<Rightarrow> smtp_error)) list \<Rightarrow> smtp_run" where
  "run_steps srv ss = in_order (map (\<lambda>(s, mk). step srv s mk) ss)"

text \<open>A run does a prefix of its steps: all of them when nothing failed, else up to the first that the server refused.\<close>

lemma run_steps_cases:
  assumes "run_steps srv ss tr = (r, tr')"
  shows "(r = Inr () \<and> tr' = tr @ map fst ss \<and> (\<forall>n < length ss. srv (tr @ map fst (take (Suc n) ss)) = None))
    \<or> (\<exists>n e. n < length ss \<and> tr' = tr @ map fst (take (Suc n) ss) \<and> r = Inl (snd (ss ! n) e) \<and> srv tr' = Some e
         \<and> (\<forall>k < n. srv (tr @ map fst (take (Suc k) ss)) = None))"
  using assms
proof (induction ss arbitrary: tr)
  case Nil
  then show ?case by (simp add: run_steps_def)
next
  case (Cons s ss)
  obtain st mk where s: "s = (st, mk)" by (cases s)
  show ?case
  proof (cases "srv (tr @ [st])")
    case (Some e)
    then have "r = Inl (mk e)" "tr' = tr @ [st]"
      using Cons.prems by (simp_all add: run_steps_def s then_step_def step_def Let_def)
    then show ?thesis using Some s by (intro disjI2 exI [of _ 0] exI [of _ e]) simp
  next
    case None
    then have "run_steps srv ss (tr @ [st]) = (r, tr')"
      using Cons.prems by (simp add: run_steps_def s then_step_def step_def Let_def)
    note ih = Cons.IH [OF this]
    show ?thesis
    proof (rule disjE [OF ih])
      assume a: "r = Inr () \<and> tr' = (tr @ [st]) @ map fst ss \<and> (\<forall>n<length ss. srv ((tr @ [st]) @ map fst (take (Suc n) ss)) = None)"
      have "srv (tr @ map fst (take (Suc n) (s # ss))) = None" if "n < length (s # ss)" for n
        using that None a s by (cases n) auto
      then show ?thesis using a s by auto
    next
      assume "\<exists>n e. n < length ss \<and> tr' = (tr @ [st]) @ map fst (take (Suc n) ss) \<and> r = Inl (snd (ss ! n) e) \<and> srv tr' = Some e
         \<and> (\<forall>k < n. srv ((tr @ [st]) @ map fst (take (Suc k) ss)) = None)"
      then obtain n e where a: "n < length ss" "tr' = (tr @ [st]) @ map fst (take (Suc n) ss)" "r = Inl (snd (ss ! n) e)"
        "srv tr' = Some e" "\<forall>k < n. srv ((tr @ [st]) @ map fst (take (Suc k) ss)) = None" by blast
      have "srv (tr @ map fst (take (Suc k) (s # ss))) = None" if "k < Suc n" for k
        using that None a(5) s by (cases k) auto
      then show ?thesis using a(1-4) s by (intro disjI2 exI [of _ "Suc n"] exI [of _ e]) auto
    qed
  qed
qed

definition smtp_plan :: "(string \<Rightarrow> bool option) \<Rightarrow> mail_config \<Rightarrow> string \<Rightarrow> string \<Rightarrow> string list \<Rightarrow> string \<Rightarrow> (smtp_step \<times> (string \<Rightarrow> smtp_error)) list" where
  "smtp_plan ip cfg password from recipients raw =
     (let host = SMTPEffectiveHost cfg; addr = JoinHostPort host (mc_SMTPPort cfg);
          skip = (mc_TLSSkipVerify cfg \<or> isLoopback ip host) in
      (if mc_SMTPPort cfg = 465 then [(DialTLS addr host skip, SmtpDialError), (NewClient host, SmtpClientError)]
       else [(DialPlain addr, SmtpDialError), (NewClient host, SmtpClientError), (StartTLS host skip, StartTLSError)])
      @ [(Auth (SMTPEffectiveUser cfg) password, AuthError), (MailFrom from, MailFromError)]
      @ map (\<lambda>(i, r). (RcptTo r, RcptError (i + 1) (length recipients))) (enumerate 0 recipients)
      @ [(DataCommand, DataError), (WriteBody raw, WriteError), (CloseBody, CloseError), (QuitCommand, QuitError)])"

lemma plan_steps: "map fst (smtp_plan ip cfg password from recipients raw) = smtp_steps ip cfg password from recipients raw"
proof -
  have "map (fst \<circ> (\<lambda>(i, r). (RcptTo r, RcptError (i + 1) n))) (enumerate m recipients) = map RcptTo recipients" for m n
    by (induction recipients arbitrary: m) simp_all
  then show ?thesis by (simp add: smtp_plan_def smtp_steps_def Let_def)
qed

lemma SMTPSend_plan:
  assumes "SMTPPassword w (mc_TestPassword cfg) = Inr password"
  shows "SMTPSend srv w ip cfg from recipients raw = run_steps srv (smtp_plan ip cfg password from recipients raw)"
proof
  fix tr
  have "map (\<lambda>(s, mk). step srv s mk) (map (\<lambda>(i, r). (RcptTo r, RcptError (i + 1) n)) xs)
      = map (\<lambda>(i, r). step srv (RcptTo r) (RcptError (i + 1) n)) xs" for n xs
    by (induction xs) auto
  then show "SMTPSend srv w ip cfg from recipients raw tr = run_steps srv (smtp_plan ip cfg password from recipients raw) tr"
    using assms by (simp add: SMTPSend_def run_steps_def smtp_plan_def recipient_steps_def Let_def del: map_map)
qed

lemma SMTPSend_prefix:
  assumes "SMTPSend srv w ip cfg from recipients raw [] = (r, tr)" "SMTPPassword w (mc_TestPassword cfg) = Inr password"
  shows "\<exists>n. tr = take n (smtp_steps ip cfg password from recipients raw) \<and> 0 < n
      \<and> n \<le> length (smtp_steps ip cfg password from recipients raw)
      \<and> (\<forall>k. 0 < k \<longrightarrow> k < n \<longrightarrow> srv (take k tr) = None)
      \<and> (if r = Inr () then n = length (smtp_steps ip cfg password from recipients raw) \<and> srv tr = None else srv tr \<noteq> None)"
proof -
  let ?p = "smtp_plan ip cfg password from recipients raw" and ?s = "smtp_steps ip cfg password from recipients raw"
  have l: "length ?p = length ?s" using plan_steps by (metis length_map)
  have t: "map fst (take k ?p) = take k ?s" for k unfolding plan_steps [symmetric] take_map ..
  have "run_steps srv ?p [] = (r, tr)" using assms by (simp add: SMTPSend_plan)
  then consider "r = Inr ()" "tr = ?s" "\<forall>n < length ?s. srv (take (Suc n) ?s) = None"
    | n e where "n < length ?s" "tr = take (Suc n) ?s" "r = Inl (snd (?p ! n) e)" "srv tr = Some e" "\<forall>k < n. srv (take (Suc k) ?s) = None"
    using run_steps_cases [of srv ?p "[]" r tr] unfolding l t plan_steps by auto
  then show ?thesis
  proof cases
    case 1
    have ne: "0 < length ?s" by (simp add: smtp_steps_def Let_def)
    have a: "srv (take k ?s) = None" if "0 < k" "k \<le> length ?s" for k
      using 1(3) that by (cases k) auto
    show ?thesis using 1 ne a [of "length ?s"] a by (intro exI [of _ "length ?s"]) auto
  next
    case (2 n e)
    have a: "srv (take k tr) = None" if "0 < k" "k < Suc n" for k
      using 2(5) that unfolding 2(2) by (cases k) (auto simp: min_def)
    show ?thesis using 2(1-4) a by (intro exI [of _ "Suc n"]) auto
  qed
qed

definition secured :: "(string \<Rightarrow> bool option) \<Rightarrow> mail_config \<Rightarrow> smtp_step \<Rightarrow> bool" where
  "secured ip cfg s =
     (case s of
        DialTLS addr host skip \<Rightarrow> host = SMTPEffectiveHost cfg \<and> (skip \<longrightarrow> mc_TLSSkipVerify cfg \<or> isLoopback ip host)
      | StartTLS host skip \<Rightarrow> host = SMTPEffectiveHost cfg \<and> (skip \<longrightarrow> mc_TLSSkipVerify cfg \<or> isLoopback ip host)
      | _ \<Rightarrow> False)"


text \<open>
  C11. The password goes out over TLS or not at all: when a session gets as far as authenticating, a TLS handshake with the
  configured host came before and succeeded, with the certificate checked unless the host is this machine or the
  configuration waives it.
\<close>

theorem credentials_need_tls:
  assumes "SMTPSend srv w ip cfg from recipients raw [] = (r, tr)" "Auth u pw \<in> set tr"
  shows "\<exists>pre s post. tr = pre @ s # post \<and> secured ip cfg s \<and> srv (pre @ [s]) = None \<and> Auth u pw \<in> set post"
proof -
  have "\<exists>password. SMTPPassword w (mc_TestPassword cfg) = Inr password"
  proof (cases "SMTPPassword w (mc_TestPassword cfg)")
    case (Inl e)
    then have "tr = []" using assms(1) by (simp add: SMTPSend_def Let_def)
    then show ?thesis using assms(2) by simp
  qed blast
  then obtain password where p: "SMTPPassword w (mc_TestPassword cfg) = Inr password" by blast
  define rest where "rest = MailFrom from # map RcptTo recipients @ [DataCommand, WriteBody raw, CloseBody, QuitCommand]"
  have nr: "Auth u pw \<notin> set rest" by (auto simp: rest_def)
  obtain n where n: "tr = take n (smtp_steps ip cfg password from recipients raw)" "\<forall>k. 0 < k \<longrightarrow> k < n \<longrightarrow> srv (take k tr) = None"
    using SMTPSend_prefix [OF assms(1) p] by blast
  let ?host = "SMTPEffectiveHost cfg" and ?addr = "JoinHostPort (SMTPEffectiveHost cfg) (mc_SMTPPort cfg)"
    and ?a = "Auth (SMTPEffectiveUser cfg) password"
  let ?skip = "mc_TLSSkipVerify cfg \<or> isLoopback ip ?host"
  show ?thesis
  proof (cases "mc_SMTPPort cfg = 465")
    case True
    then have t: "tr = take n (DialTLS ?addr ?host ?skip # NewClient ?host # ?a # rest)"
      using n(1) by (simp add: smtp_steps_def Let_def rest_def)
    have l: "2 < n" using assms(2) unfolding t by (auto simp: take_Cons' split: if_splits)
    then have "tr = [] @ DialTLS ?addr ?host ?skip # NewClient ?host # ?a # take (n - 3) rest" unfolding t by (simp add: take_Cons' numeral_eq_Suc)
    moreover have "srv ([] @ [DialTLS ?addr ?host ?skip]) = None"
    proof -
      have "take 1 tr = [] @ [DialTLS ?addr ?host ?skip]" unfolding calculation by simp
      moreover have "1 < n" using l by simp
      ultimately show ?thesis using n(2) by (metis zero_less_one)
    qed
    moreover have "Auth u pw \<in> set (NewClient ?host # ?a # take (n - 3) rest)" using assms(2) calculation(1) by auto
    moreover have "secured ip cfg (DialTLS ?addr ?host ?skip)" by (simp add: secured_def)
    ultimately show ?thesis by blast
  next
    case False
    then have t: "tr = take n (DialPlain ?addr # NewClient ?host # StartTLS ?host ?skip # ?a # rest)"
      using n(1) by (simp add: smtp_steps_def Let_def rest_def)
    have l: "3 < n" using assms(2) unfolding t by (auto simp: take_Cons' split: if_splits)
    then have e: "tr = [DialPlain ?addr, NewClient ?host] @ StartTLS ?host ?skip # ?a # take (n - 4) rest" unfolding t by (simp add: take_Cons' numeral_eq_Suc)
    moreover have "srv ([DialPlain ?addr, NewClient ?host] @ [StartTLS ?host ?skip]) = None"
    proof -
      have "take 3 tr = [DialPlain ?addr, NewClient ?host] @ [StartTLS ?host ?skip]" unfolding e by simp
      then show ?thesis using n(2) l by (metis zero_less_numeral)
    qed
    moreover have "Auth u pw \<in> set (?a # take (n - 4) rest)" using assms(2) calculation(1) by auto
    moreover have "secured ip cfg (StartTLS ?host ?skip)" by (simp add: secured_def)
    ultimately show ?thesis by blast
  qed
qed

definition sample_config :: mail_config where
  "sample_config = \<lparr>mc_IMAPHost = ''mail'', mc_IMAPPort = 993, mc_IMAPUser = ''u'', mc_SMTPHost = [], mc_SMTPPort = 25, mc_SMTPUser = [],
     mc_FromAddress = ''me@x'', mc_GPGBinary = ''gpg'', mc_GPGSigner = [], mc_PollInterval = [], mc_TLSSkipVerify = False,
     mc_TestPassword = ''pw''\<rparr>"

theorem credentials_need_tls_witness:
  "\<exists>pre s post. snd (SMTPSend (\<lambda>_. None) sample_secrets (\<lambda>_. None) sample_config ''me@x'' [''a@b''] ''raw'' []) = pre @ s # post
    \<and> secured (\<lambda>_. None) sample_config s \<and> Auth ''u'' ''pw'' \<in> set post"
proof -
  let ?run = "SMTPSend (\<lambda>_. None) sample_secrets (\<lambda>_. None) sample_config ''me@x'' [''a@b''] ''raw'' []"
  have r: "?run = (fst ?run, snd ?run)" by (rule prod.collapse [symmetric])
  have "list_ex (\<lambda>s. s = Auth ''u'' ''pw'') (snd ?run)" by code_simp
  then have a: "Auth ''u'' ''pw'' \<in> set (snd ?run)" by (simp only: list_ex_iff) blast
  from credentials_need_tls [OF r a] show ?thesis by blast
qed

subsection \<open>Resend\<close>

record SendRequest =
  sr_To :: "string list"
  sr_Cc :: "string list"
  sr_Bcc :: "string list"
  sr_Subject :: string
  sr_Text :: string
  sr_HTML :: string
  sr_Attachments :: "(string \<times> string) list"
  sr_Headers :: "string \<rightharpoonup> string"

record resend_post =
  rp_From :: string
  rp_Request :: SendRequest
  rp_Authorization :: string

datatype send_error =
    ReadAPIKey get_error
  | RequestFailed string
  | ResponseUnread string
  | ResendAPIError int string
  | ResponseParse string

text \<open>\<open>post\<close> sends the request: its error, or the status with the body or the error of reading it. \<open>parse\<close> gives the id.\<close>

record resend_io =
  ri_post :: "resend_post \<Rightarrow> (string, int \<times> (string, string) result) result"
  ri_parse :: "string \<Rightarrow> (string, string) result"

definition resendRequest ::
    "string list \<Rightarrow> string list \<Rightarrow> string list \<Rightarrow> string \<Rightarrow> string \<Rightarrow> string \<Rightarrow> OutboundAttachment list \<Rightarrow> RepoTag \<Rightarrow> Threading
       \<Rightarrow> (header_error, SendRequest) result" where
  "resendRequest to cc bcc subj body html atts tag th =
     and_then (tag_headers tag) (\<lambda>tagHeaders.
     and_then (thread_headers th) (\<lambda>threadHeaders.
       Inr \<lparr>sr_To = to, sr_Cc = cc, sr_Bcc = bcc, sr_Subject = subj, sr_Text = body, sr_HTML = html,
         sr_Attachments = map (\<lambda>a. (oa_Filename a, base64 (oa_Data a))) atts,
         sr_Headers = mergeHeaders tagHeaders threadHeaders\<rparr>))"

text \<open>The result and the requests that were made.\<close>

definition Send :: "resend_io \<Rightarrow> secret_world \<Rightarrow> mail_config \<Rightarrow> SendRequest \<Rightarrow> (send_error, string) result \<times> resend_post list" where
  "Send io w cfg req =
     (case ResendAPIKey w of
        Inl e \<Rightarrow> (Inl (ReadAPIKey e), [])
      | Inr apiKey \<Rightarrow>
          let p = \<lparr>rp_From = mc_FromAddress cfg, rp_Request = req, rp_Authorization = ''Bearer '' @ apiKey\<rparr> in
          (case ri_post io p of
             Inl e \<Rightarrow> (Inl (RequestFailed e), [p])
           | Inr (status, Inl e) \<Rightarrow> (Inl (ResponseUnread e), [p])
           | Inr (status, Inr body) \<Rightarrow>
               if status < 200 \<or> 300 \<le> status then (Inl (ResendAPIError status body), [p])
               else (case ri_parse io body of Inl e \<Rightarrow> (Inl (ResponseParse e), [p]) | Inr i \<Rightarrow> (Inr i, [p]))))"

subsection \<open>The chain\<close>

record SendResult =
  sd_Method :: string
  sd_Signed :: bool
  sd_Encrypted :: bool
  sd_ID :: string
  sd_From :: string
  sd_To :: string
  sd_Cc :: string
  sd_BccCount :: nat
  sd_Subject :: string
  sd_Attachments :: nat

datatype chain_error =
    BccCRLF
  | EncryptionNeedsSigning
  | PassphraseUnreadable get_error
  | NotComposed compose_error
  | SmtpFailedBlocked smtp_error
  | SignedNeedsSMTP
  | ResendHeaders header_error
  | ResendFailed send_error

text \<open>Everything outside: whether the server's port answers, the server, gpg, the secrets, Resend; and the case folding.\<close>

record chain_io =
  ch_available :: bool
  ch_server :: smtp_server
  ch_ip :: "string \<Rightarrow> bool option"
  ch_gpg :: mail_gpg
  ch_secrets :: secret_world
  ch_resend :: resend_io
  ch_fold :: "nat \<Rightarrow> nat"

text \<open>What a message asks for.\<close>

record outgoing =
  og_to :: "string list"
  og_cc :: "string list"
  og_bcc :: "string list"
  og_subject :: string
  og_body :: string
  og_html :: string
  og_attachments :: "OutboundAttachment list"
  og_keys :: "string list"
  og_tag :: RepoTag
  og_thread :: Threading

text \<open>The steps taken with the mail server and the requests made of Resend, and the files.\<close>

record sent =
  st_smtp :: smtp_trace
  st_posts :: "resend_post list"
  st_files :: file_map

definition compose_for ::
    "mail_gpg \<Rightarrow> mail_config \<Rightarrow> string \<Rightarrow> outgoing \<Rightarrow> string \<Rightarrow> file_map \<Rightarrow> (compose_error, string) result \<times> file_map" where
  "compose_for g cfg passphrase m subj fs =
     (if og_keys m \<noteq> [] then
        ComposeEncryptedSignedRaw g (mc_GPGSigner cfg) passphrase (og_keys m) (mc_FromAddress cfg) (og_to m) (og_cc m) subj (og_body m)
          (og_attachments m) (og_tag m) (og_thread m) fs
      else if mc_GPGSigner cfg \<noteq> [] then
        ComposeSignedRaw g passphrase (mc_FromAddress cfg) (og_to m) (og_cc m) subj (og_body m) (og_attachments m) (og_tag m) (og_thread m) fs
      else (ComposeRaw (mg_writer g) (mc_FromAddress cfg) (og_to m) (og_cc m) subj (og_body m) (og_attachments m) (og_tag m) (og_thread m), fs))"

definition send_result :: "mail_config \<Rightarrow> outgoing \<Rightarrow> string \<Rightarrow> string \<Rightarrow> bool \<Rightarrow> bool \<Rightarrow> string \<Rightarrow> SendResult" where
  "send_result cfg m subj meth sig enc i =
     \<lparr>sd_Method = meth, sd_Signed = sig, sd_Encrypted = enc, sd_ID = i, sd_From = mc_FromAddress cfg,
      sd_To = Join (og_to m) '', '', sd_Cc = Join (og_cc m) '', '', sd_BccCount = length (og_bcc m), sd_Subject = subj,
      sd_Attachments = length (og_attachments m)\<rparr>"

definition resend_fallback ::
    "chain_io \<Rightarrow> mail_config \<Rightarrow> outgoing \<Rightarrow> string \<Rightarrow> (chain_error, SendResult) result \<times> resend_post list" where
  "resend_fallback io cfg m subj =
     (if mc_GPGSigner cfg \<noteq> [] then (Inl SignedNeedsSMTP, [])
      else case resendRequest (og_to m) (og_cc m) (og_bcc m) subj (og_body m) (og_html m) (og_attachments m) (og_tag m) (og_thread m) of
        Inl e \<Rightarrow> (Inl (ResendHeaders e), [])
      | Inr req \<Rightarrow>
          (case Send (ch_resend io) (ch_secrets io) cfg req of
             (Inl e, ps) \<Rightarrow> (Inl (ResendFailed e), ps)
           | (Inr i, ps) \<Rightarrow> (Inr (send_result cfg m subj ''resend'' False False i), ps)))"

definition TrySendChain :: "chain_io \<Rightarrow> mail_config \<Rightarrow> outgoing \<Rightarrow> file_map \<Rightarrow> (chain_error, SendResult) result \<times> sent" where
  "TrySendChain io cfg m fs =
     (let nothing = \<lparr>st_smtp = [], st_posts = [], st_files = fs\<rparr> in
      if list_ex contains_crlf (og_bcc m) then (Inl BccCRLF, nothing)
      else let subj = subject (ch_fold io) (og_tag m) (og_subject m);
               everyone = og_to m @ og_cc m @ og_bcc m;
               signing = (mc_GPGSigner cfg \<noteq> []); encrypting = (og_keys m \<noteq> []) in
      if encrypting \<and> \<not> signing then (Inl EncryptionNeedsSigning, nothing)
      else case (if signing then (case GPGPassphrase (ch_secrets io) of Inr pp \<Rightarrow> Inr pp | Inl e \<Rightarrow> if not_found e then Inr [] else Inl e) else Inr []) of
        Inl e \<Rightarrow> (Inl (PassphraseUnreadable e), nothing)
      | Inr passphrase \<Rightarrow>
          let fallback = (\<lambda>tr fs'. (case resend_fallback io cfg m subj of
                (r, ps) \<Rightarrow> (r, \<lparr>st_smtp = tr, st_posts = ps, st_files = fs'\<rparr>))) in
          if \<not> ch_available io then fallback [] fs
          else (case compose_for (ch_gpg io) cfg passphrase m subj fs of
                  (Inl e, fs') \<Rightarrow> (Inl (NotComposed e), \<lparr>st_smtp = [], st_posts = [], st_files = fs'\<rparr>)
                | (Inr raw, fs') \<Rightarrow>
                    (case SMTPSend (ch_server io) (ch_secrets io) (ch_ip io) cfg (mc_FromAddress cfg) everyone raw [] of
                       (Inr _, tr) \<Rightarrow> (Inr (send_result cfg m subj ''smtp'' signing encrypting []),
                          \<lparr>st_smtp = tr, st_posts = [], st_files = fs'\<rparr>)
                     | (Inl e, tr) \<Rightarrow>
                         if signing \<or> encrypting
                         then (Inl (SmtpFailedBlocked e), \<lparr>st_smtp = tr, st_posts = [], st_files = fs'\<rparr>)
                         else fallback tr fs')))"

subsection \<open>What the chain promises\<close>

lemma compose_for_headers:
  assumes "compose_for g cfg pp m subj fs = (Inr raw, fs')" "random_ok g"
  shows "\<exists>t. head_lines raw = meant_headers (mc_FromAddress cfg) (og_to m) (og_cc m) subj (og_tag m) (og_thread m)
    @ [''Content-Type: '' @ t]"
proof -
  let ?m = "meant_headers (mc_FromAddress cfg) (og_to m) (og_cc m) subj (og_tag m) (og_thread m)"
  consider "ComposeEncryptedSignedRaw g (mc_GPGSigner cfg) pp (og_keys m) (mc_FromAddress cfg) (og_to m) (og_cc m) subj (og_body m)
        (og_attachments m) (og_tag m) (og_thread m) fs = (Inr raw, fs')"
    | "ComposeSignedRaw g pp (mc_FromAddress cfg) (og_to m) (og_cc m) subj (og_body m) (og_attachments m) (og_tag m) (og_thread m) fs
        = (Inr raw, fs')"
    | "ComposeRaw (mg_writer g) (mc_FromAddress cfg) (og_to m) (og_cc m) subj (og_body m) (og_attachments m) (og_tag m) (og_thread m) = Inr raw"
    using assms(1) by (auto simp: compose_for_def split: if_splits)
  then have "starts_with_headers ?m raw \<and> list_all clean_line ?m"
  proof cases
    case 1
    note h = ComposeEncryptedSignedRaw_headers [OF 1 assms(2)]
    then show ?thesis using meant_headers_clean by blast
  next
    case 2
    note h = ComposeSignedRaw_headers [OF 2 assms(2)]
    then show ?thesis using meant_headers_clean by blast
  next
    case 3
    note h = ComposeRaw_headers [OF 3]
    then show ?thesis using meant_headers_clean by blast
  qed
  then show ?thesis using starts_with_headers_lines by blast
qed


text \<open>A chain that got to a server sent what was composed, to everyone.\<close>

lemma chain_cases:
  assumes "TrySendChain io cfg m fs = (r, s)"
  obtains (rejected) e where "r = Inl e" "st_smtp s = []" "st_posts s = []"
    | (smtp) pp raw fs' res where "\<not> list_ex contains_crlf (og_bcc m)" "og_keys m \<noteq> [] \<longrightarrow> mc_GPGSigner cfg \<noteq> []"
        "compose_for (ch_gpg io) cfg pp m (subject (ch_fold io) (og_tag m) (og_subject m)) fs = (Inr raw, fs')"
        "SMTPSend (ch_server io) (ch_secrets io) (ch_ip io) cfg (mc_FromAddress cfg) (og_to m @ og_cc m @ og_bcc m) raw [] = (res, st_smtp s)"
        "res = Inr () \<Longrightarrow> st_posts s = [] \<and> (\<exists>i. r = Inr (send_result cfg m (subject (ch_fold io) (og_tag m) (og_subject m)) ''smtp''
           (mc_GPGSigner cfg \<noteq> []) (og_keys m \<noteq> []) i))"
        "mc_GPGSigner cfg \<noteq> [] \<Longrightarrow> st_posts s = []"
        "\<not> is_ok res \<Longrightarrow> mc_GPGSigner cfg \<noteq> [] \<Longrightarrow> \<not> is_ok r"
        "\<not> is_ok res \<Longrightarrow> mc_GPGSigner cfg = [] \<Longrightarrow>
           (r, st_posts s) = resend_fallback io cfg m (subject (ch_fold io) (og_tag m) (og_subject m))"
    | (resend) "\<not> ch_available io" "st_smtp s = []" "\<not> list_ex contains_crlf (og_bcc m)" "og_keys m \<noteq> [] \<longrightarrow> mc_GPGSigner cfg \<noteq> []"
        "(r, st_posts s) = resend_fallback io cfg m (subject (ch_fold io) (og_tag m) (og_subject m))"
proof -
  let ?subj = "subject (ch_fold io) (og_tag m) (og_subject m)"
  let ?pp = "if mc_GPGSigner cfg \<noteq> [] then (case GPGPassphrase (ch_secrets io) of Inr pp \<Rightarrow> Inr pp | Inl e \<Rightarrow> if not_found e then Inr [] else Inl e) else Inr []"
  show ?thesis
  proof (cases "list_ex contains_crlf (og_bcc m) \<or> (og_keys m \<noteq> [] \<and> mc_GPGSigner cfg = []) \<or> (\<exists>e. ?pp = Inl e)")
    case True
    then have "\<exists>e. r = Inl e \<and> st_smtp s = [] \<and> st_posts s = []"
      using assms by (auto simp: TrySendChain_def Let_def split: if_splits sum.splits)
    then show ?thesis using rejected by blast
  next
    case False
    then obtain pp where pp: "?pp = Inr pp" and ok: "\<not> list_ex contains_crlf (og_bcc m)" "og_keys m \<noteq> [] \<longrightarrow> mc_GPGSigner cfg \<noteq> []"
      by (meson sum.exhaust)
    let ?fb = "\<lambda>tr fs'. (case resend_fallback io cfg m ?subj of (r, ps) \<Rightarrow> (r, \<lparr>st_smtp = tr, st_posts = ps, st_files = fs'\<rparr>))"
    have c: "(if \<not> ch_available io then ?fb [] fs
          else (case compose_for (ch_gpg io) cfg pp m ?subj fs of
                  (Inl e, fs') \<Rightarrow> (Inl (NotComposed e), \<lparr>st_smtp = [], st_posts = [], st_files = fs'\<rparr>)
                | (Inr raw, fs') \<Rightarrow>
                    (case SMTPSend (ch_server io) (ch_secrets io) (ch_ip io) cfg (mc_FromAddress cfg) (og_to m @ og_cc m @ og_bcc m) raw [] of
                       (Inr _, tr) \<Rightarrow> (Inr (send_result cfg m ?subj ''smtp'' (mc_GPGSigner cfg \<noteq> []) (og_keys m \<noteq> []) []),
                          \<lparr>st_smtp = tr, st_posts = [], st_files = fs'\<rparr>)
                     | (Inl e, tr) \<Rightarrow>
                         if mc_GPGSigner cfg \<noteq> [] \<or> og_keys m \<noteq> []
                         then (Inl (SmtpFailedBlocked e), \<lparr>st_smtp = tr, st_posts = [], st_files = fs'\<rparr>)
                         else ?fb tr fs'))) = (r, s)"
    proof -
      have g: "\<not> (og_keys m \<noteq> [] \<and> \<not> mc_GPGSigner cfg \<noteq> [])" using ok(2) by blast
      show ?thesis using assms unfolding TrySendChain_def Let_def if_not_P [OF ok(1)] if_not_P [OF g] pp sum.case .
    qed
    show ?thesis
    proof (cases "ch_available io")
      case False
      then show ?thesis using c ok by (intro resend) (auto split: prod.splits)
    next
      case av: True
      obtain cr fs' where cr: "compose_for (ch_gpg io) cfg pp m ?subj fs = (cr, fs')" by force
      show ?thesis
      proof (cases cr)
        case (Inl e)
        then show ?thesis using c av cr by (intro rejected [of "NotComposed e"]) auto
      next
        case raw: (Inr raw)
        obtain res tr where sm: "SMTPSend (ch_server io) (ch_secrets io) (ch_ip io) cfg (mc_FromAddress cfg)
          (og_to m @ og_cc m @ og_bcc m) raw [] = (res, tr)" by force
        have c': "(case (res, tr) of (Inr _, tr) \<Rightarrow> (Inr (send_result cfg m ?subj ''smtp'' (mc_GPGSigner cfg \<noteq> []) (og_keys m \<noteq> []) []),
                          \<lparr>st_smtp = tr, st_posts = [], st_files = fs'\<rparr>)
                     | (Inl e, tr) \<Rightarrow>
                         if mc_GPGSigner cfg \<noteq> [] \<or> og_keys m \<noteq> []
                         then (Inl (SmtpFailedBlocked e), \<lparr>st_smtp = tr, st_posts = [], st_files = fs'\<rparr>)
                         else ?fb tr fs') = (r, s)"
          using c av cr raw sm by simp
        have "st_smtp s = tr" using c' by (auto split: sum.splits if_splits prod.splits)
        then show ?thesis using c' [symmetric] sm cr raw ok
          by (intro smtp [of pp raw fs' res]) (auto split: sum.splits if_splits prod.splits)
      qed
    qed
  qed
qed

lemma password_needed:
  assumes "SMTPSend srv w ip cfg from recipients raw [] = (r, tr)" "tr \<noteq> [] \<or> is_ok r"
  shows "\<exists>password. SMTPPassword w (mc_TestPassword cfg) = Inr password"
  using assms by (cases "SMTPPassword w (mc_TestPassword cfg)") (auto simp: SMTPSend_def Let_def)

lemma SMTPSend_body:
  assumes "SMTPSend srv w ip cfg from recipients raw [] = (r, tr)" "WriteBody x \<in> set tr"
  shows "x = raw"
proof -
  obtain password where "SMTPPassword w (mc_TestPassword cfg) = Inr password" using password_needed [OF assms(1)] assms(2)
    by (metis empty_iff list.set(1))
  then obtain n where "tr = take n (smtp_steps ip cfg password from recipients raw)" using SMTPSend_prefix [OF assms(1)] by blast
  then have "WriteBody x \<in> set (smtp_steps ip cfg password from recipients raw)" using assms(2) by (metis in_set_takeD)
  then show ?thesis by (auto simp: smtp_steps_def Let_def split: if_splits)
qed

text \<open>
  C12. Protection is never dropped: with a signing key configured, or recipients to encrypt to, nothing goes to Resend, whatever
  fails, and a body that is written to the mail server is the signed one, and the encrypted one when there are keys.
\<close>

theorem chain_protects:
  assumes "TrySendChain io cfg m fs = (r, s)" "mc_GPGSigner cfg \<noteq> [] \<or> og_keys m \<noteq> []"
  shows "st_posts s = []
    \<and> (WriteBody raw \<in> set (st_smtp s) \<longrightarrow> mc_GPGSigner cfg \<noteq> [] \<and> (\<exists>pp.
        if og_keys m \<noteq> []
        then fst (ComposeEncryptedSignedRaw (ch_gpg io) (mc_GPGSigner cfg) pp (og_keys m) (mc_FromAddress cfg) (og_to m) (og_cc m)
            (subject (ch_fold io) (og_tag m) (og_subject m)) (og_body m) (og_attachments m) (og_tag m) (og_thread m) fs) = Inr raw
        else fst (ComposeSignedRaw (ch_gpg io) pp (mc_FromAddress cfg) (og_to m) (og_cc m)
            (subject (ch_fold io) (og_tag m) (og_subject m)) (og_body m) (og_attachments m) (og_tag m) (og_thread m) fs) = Inr raw))"
  using assms(1)
proof (cases rule: chain_cases)
  case (smtp pp raw' fs' res)
  have sg: "mc_GPGSigner cfg \<noteq> []" using smtp(2) assms(2) by blast
  have "raw' = raw" if "WriteBody raw \<in> set (st_smtp s)" using SMTPSend_body [OF smtp(4) that] by simp
  then show ?thesis using smtp(3,6) sg by (auto simp: compose_for_def split: if_splits intro!: exI [of _ pp])
next
  case resend
  then have "mc_GPGSigner cfg \<noteq> []" using assms(2) by blast
  then show ?thesis using resend(2,5) by (simp add: resend_fallback_def)
qed simp

definition sample_io :: chain_io where
  "sample_io = \<lparr>ch_available = True, ch_server = (\<lambda>_. None), ch_ip = (\<lambda>_. None), ch_gpg = sample_mail, ch_secrets = sample_secrets,
     ch_resend = \<lparr>ri_post = (\<lambda>_. Inr (200, Inr ''{}'')), ri_parse = (\<lambda>_. Inr ''i'')\<rparr>, ch_fold = (\<lambda>r. r)\<rparr>"

definition sample_outgoing :: outgoing where
  "sample_outgoing = \<lparr>og_to = [''a@b''], og_cc = [''c@d''], og_bcc = [''e@f''], og_subject = ''hi'', og_body = ''text'', og_html = [],
     og_attachments = [], og_keys = [], og_tag = no_tag, og_thread = no_thread\<rparr>"

theorem chain_protects_witness:
  "st_posts (snd (TrySendChain (sample_io\<lparr>ch_server := (\<lambda>tr. if last tr = QuitCommand then Some ''bye'' else None)\<rparr>)
     (sample_config\<lparr>mc_GPGSigner := ''me''\<rparr>) sample_outgoing (\<lambda>_. None))) = []"
proof -
  let ?run = "TrySendChain (sample_io\<lparr>ch_server := (\<lambda>tr. if last tr = QuitCommand then Some ''bye'' else None)\<rparr>)
     (sample_config\<lparr>mc_GPGSigner := ''me''\<rparr>) sample_outgoing (\<lambda>_. None)"
  have "mc_GPGSigner (sample_config\<lparr>mc_GPGSigner := ''me''\<rparr>) \<noteq> [] \<or> og_keys sample_outgoing \<noteq> []" by simp
  from chain_protects [OF prod.collapse [symmetric] this] show ?thesis by blast
qed

text \<open>Whether the server took the message: it answered the end of the data without an error.\<close>

definition accepted :: "smtp_server \<Rightarrow> smtp_trace \<Rightarrow> bool" where
  "accepted srv tr \<longleftrightarrow> list_ex (\<lambda>p. p \<noteq> [] \<and> last p = CloseBody \<and> srv p = None) (prefixes tr)"

definition accepted_post :: "resend_io \<Rightarrow> resend_post \<Rightarrow> bool" where
  "accepted_post io p = (case ri_post io p of Inr (status, Inr body) \<Rightarrow> 200 \<le> status \<and> status < 300 | _ \<Rightarrow> False)"

lemma SMTPSend_ok:
  assumes "SMTPSend srv w ip cfg from recipients raw [] = (Inr (), tr)"
  shows "\<exists>password. tr = smtp_steps ip cfg password from recipients raw \<and> accepted srv tr"
proof -
  obtain password where p: "SMTPPassword w (mc_TestPassword cfg) = Inr password" using password_needed [OF assms] by auto
  obtain n where n: "tr = take n (smtp_steps ip cfg password from recipients raw)" "n = length (smtp_steps ip cfg password from recipients raw)"
    "\<forall>k. 0 < k \<longrightarrow> k < n \<longrightarrow> srv (take k tr) = None" using SMTPSend_prefix [OF assms p] by auto
  then have t: "tr = smtp_steps ip cfg password from recipients raw" by simp
  have "\<exists>pre. tr = (pre @ [CloseBody]) @ [QuitCommand] \<and> pre \<noteq> []" unfolding t by (auto simp: smtp_steps_def Let_def)
  then obtain pre where pre: "tr = (pre @ [CloseBody]) @ [QuitCommand]" by blast
  have "take (Suc (length pre)) tr = pre @ [CloseBody]" unfolding pre by simp
  moreover have "Suc (length pre) < n" using pre n(2) t by simp
  ultimately have "srv (pre @ [CloseBody]) = None" using n(3) by (metis zero_less_Suc)
  moreover have "pre @ [CloseBody] \<in> set (prefixes tr)" unfolding in_set_prefixes pre by (rule prefixI) (rule refl)
  ultimately have "accepted srv tr" unfolding accepted_def list_ex_iff by (intro bexI [of _ "pre @ [CloseBody]"]) simp_all
  with t show ?thesis by blast
qed

lemma Send_ok:
  "Send io w cfg req = (Inr i, ps) \<Longrightarrow> \<exists>p. ps = [p] \<and> accepted_post io p \<and> rp_Request p = req \<and> rp_From p = mc_FromAddress cfg"
  by (cases "ResendAPIKey w")
    (force simp: Send_def Let_def accepted_post_def split: if_splits sum.splits prod.splits)+

text \<open>
  The header lines a message owes to its tag and its thread, and the request that carries a message to Resend: the fields
  as they were meant, the attachments in base64, and those lines as its headers, with no others.
\<close>

definition extra_headers :: "outgoing \<Rightarrow> string list" where
  "extra_headers m =
     (if tag_empty (og_tag m) then [] else (HeaderRepo @ '': '' @ rt_Slug (og_tag m))
        # (if rt_Agent (og_tag m) = [] then [] else [HeaderAgent @ '': '' @ rt_Agent (og_tag m)]))
     @ (if thread_empty (og_thread m) then []
        else (if th_InReplyTo (og_thread m) = [] then [] else [''In-Reply-To: '' @ th_InReplyTo (og_thread m)])
          @ (if Join (th_References (og_thread m)) '' '' = [] then [] else [''References: '' @ Join (th_References (og_thread m)) '' '']))"

lemma meant_extra:
  "meant_headers from (og_to m) (og_cc m) subj (og_tag m) (og_thread m) =
     [''From: '' @ from, ''To: '' @ Join (og_to m) '', ''] @ (if og_cc m = [] then [] else [''Cc: '' @ Join (og_cc m) '', ''])
     @ [''Subject: '' @ subj] @ extra_headers m @ [''MIME-Version: 1.0'']"
  by (simp add: meant_headers_def extra_headers_def)

definition carries :: "SendRequest \<Rightarrow> outgoing \<Rightarrow> string \<Rightarrow> bool" where
  "carries req m subj \<longleftrightarrow> sr_To req = og_to m \<and> sr_Cc req = og_cc m \<and> sr_Bcc req = og_bcc m \<and> sr_Subject req = subj
    \<and> sr_Text req = og_body m \<and> sr_HTML req = og_html m
    \<and> map fst (sr_Attachments req) = map oa_Filename (og_attachments m)
    \<and> map (\<lambda>a. unbase64 (snd a)) (sr_Attachments req) = map (\<lambda>a. Some (oa_Data a)) (og_attachments m)
    \<and> dom (sr_Headers req) \<subseteq> set reply_header_keys
    \<and> map_lines reply_header_keys (sr_Headers req) = concat (map (\<lambda>l. l @ CRLF) (extra_headers m))"

lemma resendRequest_carries:
  assumes "resendRequest (og_to m) (og_cc m) (og_bcc m) subj (og_body m) (og_html m) (og_attachments m) (og_tag m) (og_thread m) = Inr req"
  shows "carries req m subj"
proof -
  obtain a b where h: "tag_headers (og_tag m) = Inr a" "thread_headers (og_thread m) = Inr b"
    and req: "req = \<lparr>sr_To = og_to m, sr_Cc = og_cc m, sr_Bcc = og_bcc m, sr_Subject = subj, sr_Text = og_body m, sr_HTML = og_html m,
      sr_Attachments = map (\<lambda>a. (oa_Filename a, base64 (oa_Data a))) (og_attachments m), sr_Headers = mergeHeaders a b\<rparr>"
    using assms by (auto simp: resendRequest_def and_then_Inr_iff)
  have "dom (mergeHeaders a b) \<subseteq> set reply_header_keys"
    using tag_headers_dom [OF h(1)] thread_headers_dom [OF h(2)] by (auto simp: mergeHeaders_def reply_header_keys_def)
  moreover have "tag_writeHeaders (og_tag m) = Inr (map_lines [HeaderRepo, HeaderAgent] a)"
    "thread_writeHeaders (og_thread m) = Inr (map_lines [''In-Reply-To'', ''References''] b)"
    unfolding tag_headers_lines thread_headers_lines h by simp_all
  then have "map_lines [HeaderRepo, HeaderAgent] a @ map_lines [''In-Reply-To'', ''References''] b = concat (map (\<lambda>l. l @ CRLF) (extra_headers m))"
    by (simp add: extra_headers_def tag_writeHeaders_def thread_writeHeaders_def header_line_def Let_def split: if_splits)
  ultimately show ?thesis
    unfolding req carries_def by (simp add: merged_lines [OF h] comp_def unbase64_base64)
qed

lemma resend_fallback_ok:
  assumes "resend_fallback io cfg m subj = (Inr res, ps)"
  shows "\<exists>p. ps = [p] \<and> accepted_post (ch_resend io) p \<and> rp_From p = mc_FromAddress cfg \<and> carries (rp_Request p) m subj
    \<and> sd_Method res = ''resend''"
proof -
  obtain req i where req: "resendRequest (og_to m) (og_cc m) (og_bcc m) subj (og_body m) (og_html m) (og_attachments m) (og_tag m) (og_thread m)
      = Inr req" "Send (ch_resend io) (ch_secrets io) cfg req = (Inr i, ps)" "res = send_result cfg m subj ''resend'' False False i"
    using assms by (auto simp: resend_fallback_def split: if_splits sum.splits prod.splits)
  have "sd_Method res = ''resend''" unfolding req(3) by (simp add: send_result_def)
  then show ?thesis using Send_ok [OF req(2)] resendRequest_carries [OF req(1)] by auto
qed

text \<open>
  C13. A success of the chain names the transport that took the message, and that transport was given the message asked for:
  over SMTP the server accepted the message composed for it, after being told everyone named in To, Cc and Bcc in that
  order, the message's headers being the meant ones with no trace of Bcc; Resend accepted the one request made of it, which names the sender and the
  same recipients and carries the subject, the texts, the attachments byte for byte and exactly the header lines for the tag
  and the thread that the SMTP message has.
\<close>

theorem chain_delivers:
  assumes "TrySendChain io cfg m fs = (Inr res, s)" "random_ok (ch_gpg io)"
  shows "(sd_Method res = ''smtp'' \<and> st_posts s = [] \<and> accepted (ch_server io) (st_smtp s) \<and> (\<exists>pre raw t pp.
        st_smtp s = pre @ MailFrom (mc_FromAddress cfg) # map RcptTo (og_to m @ og_cc m @ og_bcc m)
          @ [DataCommand, WriteBody raw, CloseBody, QuitCommand]
        \<and> fst (compose_for (ch_gpg io) cfg pp m (subject (ch_fold io) (og_tag m) (og_subject m)) fs) = Inr raw
        \<and> head_lines raw = [''From: '' @ mc_FromAddress cfg, ''To: '' @ Join (og_to m) '', '']
            @ (if og_cc m = [] then [] else [''Cc: '' @ Join (og_cc m) '', ''])
            @ [''Subject: '' @ subject (ch_fold io) (og_tag m) (og_subject m)] @ extra_headers m
            @ [''MIME-Version: 1.0'', ''Content-Type: '' @ t]))
    \<or> (sd_Method res = ''resend'' \<and> mc_GPGSigner cfg = [] \<and> (\<exists>p. st_posts s = [p] \<and> accepted_post (ch_resend io) p
        \<and> rp_From p = mc_FromAddress cfg \<and> carries (rp_Request p) m (subject (ch_fold io) (og_tag m) (og_subject m))))"
  using assms(1)
proof (cases rule: chain_cases)
  case (rejected e)
  then show ?thesis by simp
next
  case (smtp pp raw fs' sres)
  show ?thesis
  proof (cases sres)
    case (Inr u)
    then have "SMTPSend (ch_server io) (ch_secrets io) (ch_ip io) cfg (mc_FromAddress cfg) (og_to m @ og_cc m @ og_bcc m) raw []
      = (Inr (), st_smtp s)" using smtp(4) by simp
    from SMTPSend_ok [OF this] obtain password where
      t: "st_smtp s = smtp_steps (ch_ip io) cfg password (mc_FromAddress cfg) (og_to m @ og_cc m @ og_bcc m) raw" "accepted (ch_server io) (st_smtp s)"
      by blast
    have "\<exists>pre. st_smtp s = pre @ MailFrom (mc_FromAddress cfg) # map RcptTo (og_to m @ og_cc m @ og_bcc m)
          @ [DataCommand, WriteBody raw, CloseBody, QuitCommand]"
      unfolding t(1) smtp_steps_def Let_def
      by (rule exI [of _ "(if mc_SMTPPort cfg = 465 then _ else _) @ [_]"]) (simp add: append_assoc)
    then obtain pre where "st_smtp s = pre @ MailFrom (mc_FromAddress cfg) # map RcptTo (og_to m @ og_cc m @ og_bcc m)
          @ [DataCommand, WriteBody raw, CloseBody, QuitCommand]" by (elim exE)
    moreover obtain t where "head_lines raw = [''From: '' @ mc_FromAddress cfg, ''To: '' @ Join (og_to m) '', '']
            @ (if og_cc m = [] then [] else [''Cc: '' @ Join (og_cc m) '', ''])
            @ [''Subject: '' @ subject (ch_fold io) (og_tag m) (og_subject m)] @ extra_headers m
            @ [''MIME-Version: 1.0'', ''Content-Type: '' @ t]"
      using compose_for_headers [OF smtp(3) assms(2)] unfolding meant_extra by auto
    moreover have "fst (compose_for (ch_gpg io) cfg pp m (subject (ch_fold io) (og_tag m) (og_subject m)) fs) = Inr raw"
      using smtp(3) by simp
    moreover have "sd_Method res = ''smtp''" "st_posts s = []" using smtp(5) Inr by (auto simp: send_result_def)
    ultimately show ?thesis using t(2) by (intro disjI1 conjI exI)
  next
    case (Inl e)
    then have sg: "mc_GPGSigner cfg = []" using smtp(7) by auto
    have "resend_fallback io cfg m (subject (ch_fold io) (og_tag m) (og_subject m)) = (Inr res, st_posts s)" using smtp(8) Inl sg by simp
    from resend_fallback_ok [OF this] sg show ?thesis by (intro disjI2 conjI) (elim exE conjE, (intro exI conjI)?, assumption)+
  qed
next
  case resend
  then have "resend_fallback io cfg m (subject (ch_fold io) (og_tag m) (og_subject m)) = (Inr res, st_posts s)" by simp
  moreover have "mc_GPGSigner cfg = []" using calculation by (auto simp: resend_fallback_def split: if_splits)
  ultimately show ?thesis using resend_fallback_ok by (intro disjI2) blast
qed

lemma smtp_steps_close:
  "\<exists>pre. smtp_steps ip cfg password from recipients raw = pre @ [CloseBody, QuitCommand] \<and> CloseBody \<notin> set pre"
  by (rule exI [of _ "butlast (butlast (smtp_steps ip cfg password from recipients raw))"])
    (auto simp: smtp_steps_def Let_def butlast_append)

text \<open>
  At most one copy: a message that a server has accepted is handed to Resend as well only when the very last thing,
  the goodbye, failed.
\<close>

theorem chain_sends_once:
  assumes "TrySendChain io cfg m fs = (r, s)" "accepted (ch_server io) (st_smtp s)" "st_posts s \<noteq> []"
  shows "mc_GPGSigner cfg = [] \<and> last (st_smtp s) = QuitCommand \<and> ch_server io (st_smtp s) \<noteq> None"
  using assms(1)
proof (cases rule: chain_cases)
  case (smtp pp raw fs' res)
  have sg: "mc_GPGSigner cfg = []" using smtp(6) assms(3) by blast
  have nok: "res \<noteq> Inr ()" using smtp(5) assms(3) by auto
  have ne: "st_smtp s \<noteq> []" using assms(2) by (auto simp: accepted_def)
  obtain password where p: "SMTPPassword (ch_secrets io) (mc_TestPassword cfg) = Inr password"
    using password_needed [OF smtp(4)] ne by blast
  let ?s = "smtp_steps (ch_ip io) cfg password (mc_FromAddress cfg) (og_to m @ og_cc m @ og_bcc m) raw"
  obtain n where n: "st_smtp s = take n ?s" "0 < n" "n \<le> length ?s" "\<forall>k. 0 < k \<longrightarrow> k < n \<longrightarrow> ch_server io (take k (st_smtp s)) = None"
    "ch_server io (st_smtp s) \<noteq> None" using SMTPSend_prefix [OF smtp(4) p] nok by auto
  obtain pre where pre: "?s = pre @ [CloseBody, QuitCommand]" "CloseBody \<notin> set pre" using smtp_steps_close by blast
  obtain q where q: "q \<in> set (prefixes (st_smtp s))" "q \<noteq> []" "last q = CloseBody" "ch_server io q = None"
    using assms(2) unfolding accepted_def list_ex_iff by blast
  have "CloseBody \<in> set (st_smtp s)" using q(1-3) unfolding in_set_prefixes by (metis last_in_set set_mono_prefix subsetD)
  then have "length pre < n" using pre n(1) by (cases "n \<le> length pre") (auto dest: in_set_takeD)
  then consider "n = length ?s" | "n = Suc (length pre)" using n(3) pre(1) by fastforce
  then show ?thesis
  proof cases
    case 1
    then show ?thesis using sg n(1,5) pre(1) by simp
  next
    case 2
    then have t: "st_smtp s = pre @ [CloseBody]" using n(1) pre(1) by simp
    have "q = pre @ [CloseBody] \<or> prefix q pre" using q(1) unfolding in_set_prefixes t prefix_snoc .
    moreover have "\<not> prefix q pre"
    proof
      assume "prefix q pre"
      then have "set q \<subseteq> set pre" by (rule set_mono_prefix)
      then show False using q(2,3) pre(2) last_in_set [of q] by auto
    qed
    ultimately have "q = pre @ [CloseBody]" by blast
    then have ok: "ch_server io (st_smtp s) = None" using q(4) t by simp
    with n(5) show ?thesis by simp
  qed
qed (use assms in \<open>auto simp: accepted_def\<close>)

theorem chain_delivers_witness:
  "\<exists>res s. TrySendChain sample_io sample_config sample_outgoing (\<lambda>_. None) = (Inr res, s) \<and> sd_Method res = ''smtp''
    \<and> accepted (\<lambda>_. None) (st_smtp s)"
proof -
  let ?run = "TrySendChain sample_io sample_config sample_outgoing (\<lambda>_. None)"
  have "map_sum (\<lambda>_. ()) sd_Method (fst ?run) = Inr ''smtp''" by code_simp
  then obtain res where f: "fst ?run = Inr res" "sd_Method res = ''smtp''" by (cases "fst ?run") simp_all
  then have r: "?run = (Inr res, snd ?run)" by (metis prod.collapse)
  have g: "random_ok (ch_gpg sample_io)" "ch_server sample_io = (\<lambda>_. None)" using sample_mail_ok by (simp_all add: sample_io_def)
  have n: "sd_Method res \<noteq> ''resend''" unfolding f(2) by simp
  have "accepted (ch_server sample_io) (st_smtp (snd ?run))"
    by (rule disjE [OF chain_delivers [OF r g(1)]]) (elim conjE, assumption, use n in \<open>elim conjE notE\<close>)
  with r f(2) show ?thesis unfolding g(2) by blast
qed

text \<open>The goodbye refused: the run of the property, and both transports have the message.\<close>

definition quit_refused :: chain_io where
  "quit_refused = sample_io\<lparr>ch_server := (\<lambda>tr. if last tr = QuitCommand then Some ''bye'' else None),
     ch_secrets := sample_secrets\<lparr>sw_pass := (\<lambda>_. Output ''key'')\<rparr>\<rparr>"

lemma quit_refused_twice:
  "let run = TrySendChain quit_refused sample_config sample_outgoing (\<lambda>_. None) in
     is_ok (fst run) \<and> accepted (ch_server quit_refused) (st_smtp (snd run)) \<and> length (st_posts (snd run)) = 1
     \<and> list_all (accepted_post (ch_resend quit_refused)) (st_posts (snd run))"
  by code_simp

theorem chain_sends_once_witness:
  "last (st_smtp (snd (TrySendChain quit_refused sample_config sample_outgoing (\<lambda>_. None)))) = QuitCommand"
proof -
  let ?run = "TrySendChain quit_refused sample_config sample_outgoing (\<lambda>_. None)"
  have a: "accepted (ch_server quit_refused) (st_smtp (snd ?run))" "length (st_posts (snd ?run)) = 1"
    using quit_refused_twice unfolding Let_def by blast+
  then have n: "st_posts (snd ?run) \<noteq> []" by auto
  from chain_sends_once [OF prod.collapse [symmetric] a(1) n] show ?thesis by blast
qed

end
