(* ===== verification/Mime.thy ===== *)
theory Mime
  imports Handler
begin

section \<open>Reading a MIME message (email/mime.go)\<close>

text \<open>
  Models \<open>internal/email/mime.go\<close>. The parsers are arguments: what \<open>net/mail\<close> and \<open>go-message\<close> make of the
  bytes. A part is its media type, its disposition and file name, what reading its body gives, and, when it is a multipart,
  its own parts; reading the next part gives a part, an error, or the end.
\<close>

datatype mpart =
    Leaf (mp_type: string) (mp_disposition: string) (mp_filename: string) (mp_body: "(string, string) result")
  | Nested (mp_type: string) (mp_disposition: string) (mp_filename: string) (mp_body: "(string, string) result") mparts
and mparts = NoMore | NextError string | NextPart mpart mparts

text \<open>A message read as an entity: a single part with its type, or a multipart.\<close>

datatype entity = Single string "(string, string) result" | Multi mparts

text \<open>\<open>ml_read\<close> is \<open>mail.ReadMessage\<close>: the headers by name and what reading the body gives.\<close>

record mime_lib =
  ml_read :: "string \<Rightarrow> ((string \<Rightarrow> string) \<times> (string, string) result) option"
  ml_media :: "string \<Rightarrow> string"
  ml_entity :: "string \<Rightarrow> (string, entity) result"

subsection \<open>The body and the attachments\<close>

record Attachment =
  at_Filename :: string
  at_ContentType :: string
  at_Size :: nat

text \<open>The two bodies and the attachments found so far.\<close>

record walk =
  wk_plain :: string
  wk_html :: string
  wk_attachments :: "Attachment list"

definition walk_leaf :: "string \<Rightarrow> string \<Rightarrow> string \<Rightarrow> (string, string) result \<Rightarrow> walk \<Rightarrow> walk" where
  "walk_leaf ct disp filename body w =
     (case body of
        Inl e \<Rightarrow> w\<lparr>wk_attachments := wk_attachments w @ [\<lparr>at_Filename = filename, at_ContentType = ct @ '' (read error)'', at_Size = 0\<rparr>]\<rparr>
      | Inr data \<Rightarrow>
          if disp = ''attachment'' then
            w\<lparr>wk_attachments := wk_attachments w @ [\<lparr>at_Filename = filename, at_ContentType = ct, at_Size = length data\<rparr>]\<rparr>
          else if ct = ''text/plain'' \<and> wk_plain w = [] then w\<lparr>wk_plain := data\<rparr>
          else if ct = ''text/html'' \<and> wk_html w = [] then w\<lparr>wk_html := data\<rparr>
          else w)"

fun walkParts :: "mparts \<Rightarrow> walk \<Rightarrow> walk" where
  "walkParts NoMore w = w"
| "walkParts (NextError e) w = w"
| "walkParts (NextPart (Nested ct disp fn body inner) rest) w = walkParts rest (walkParts inner w)"
| "walkParts (NextPart (Leaf ct disp fn body) rest) w = walkParts rest (walk_leaf ct disp fn body w)"

definition selected_headers :: "string list" where
  "selected_headers = [''From'', ''To'', ''Date'', ''Subject'', ''X-Pm-Content-Encryption'', ''X-Pm-Origin'', ''Content-Type'']"

definition select_headers :: "(string \<Rightarrow> string) \<Rightarrow> headers" where
  "select_headers h k = (if k \<in> set selected_headers \<and> h k \<noteq> [] then Some (h k) else None)"

definition no_walk :: walk where "no_walk = \<lparr>wk_plain = [], wk_html = [], wk_attachments = []\<rparr>"

definition ParseMIME :: "mime_lib \<Rightarrow> string \<Rightarrow> string \<times> Attachment list \<times> headers" where
  "ParseMIME lib raw =
     (case ml_read lib raw of
        None \<Rightarrow> (''(parse error)'', [], Map.empty)
      | Some (h, msgBody) \<Rightarrow>
          let hs = select_headers h;
              ct = (if h ''Content-Type'' = [] then ''text/plain'' else h ''Content-Type'') in
          if \<not> HasPrefix (ml_media lib ct) ''multipart/'' then
            (case msgBody of Inl e \<Rightarrow> (''(read error)'', [], hs) | Inr data \<Rightarrow> (data, [], hs))
          else (case ml_entity lib raw of
             Inl e \<Rightarrow> (''(mime parse error)'', [], hs)
           | Inr (Single t b) \<Rightarrow> (''(not multipart)'', [], hs)
           | Inr (Multi ps) \<Rightarrow>
               let w = walkParts ps no_walk in
               ((if wk_plain w \<noteq> [] then wk_plain w else if wk_html w \<noteq> [] then wk_html w else ''(no text body)''),
                wk_attachments w, hs)))"

definition extractionFailed :: "string \<Rightarrow> bool" where
  "extractionFailed body \<longleftrightarrow>
     body \<in> {''(parse error)'', ''(read error)'', ''(mime parse error)'', ''(not multipart)'', ''(no text body)''}"

subsection \<open>The structure, and one part of it\<close>

record MIMEPart =
  pt_Index :: nat
  pt_ContentType :: string
  pt_Filename :: string
  pt_Disposition :: string
  pt_Size :: nat
  pt_Content :: string

datatype mime_error =
    ParseMIMEError string
  | ReadSingle string
  | ReadPart nat string
  | NextPartError nat string
  | OutOfRangeSingle int
  | OutOfRange int nat

definition truncate_runes :: "string \<Rightarrow> nat \<Rightarrow> string" where
  "truncate_runes s limit = (let rs = runes s in if length rs \<le> limit then s else of_runes (take limit rs) @ ''...'')"

definition content_of :: "string \<Rightarrow> string \<Rightarrow> string" where
  "content_of ct data = (if HasPrefix ct ''text/'' \<or> Contains ct ''pgp'' then truncate_runes data 4000 else [])"

definition type_or :: "string \<Rightarrow> string \<Rightarrow> string" where
  "type_or d ct = (if ct = [] then d else ct)"

fun part_structure :: "nat \<Rightarrow> mparts \<Rightarrow> (mime_error, MIMEPart list) result" where
  "part_structure idx NoMore = Inr []"
| "part_structure idx (NextError e) = Inr []"
| "part_structure idx (NextPart p rest) =
     (case mp_body p of
        Inl e \<Rightarrow> Inl (ReadPart idx e)
      | Inr data \<Rightarrow>
          let ct = type_or ''application/octet-stream'' (mp_type p) in
          and_then (part_structure (Suc idx) rest) (\<lambda>ps.
            Inr (\<lparr>pt_Index = idx, pt_ContentType = ct, pt_Filename = mp_filename p, pt_Disposition = mp_disposition p,
                   pt_Size = length data, pt_Content = content_of ct data\<rparr> # ps)))"

definition ParseMIMEStructure :: "mime_lib \<Rightarrow> string \<Rightarrow> (mime_error, MIMEPart list) result" where
  "ParseMIMEStructure lib raw =
     (case ml_entity lib raw of
        Inl e \<Rightarrow> Inl (ParseMIMEError e)
      | Inr (Single t (Inl e)) \<Rightarrow> Inl (ReadSingle e)
      | Inr (Single t (Inr data)) \<Rightarrow>
          let ct = type_or ''text/plain'' t in
          Inr [\<lparr>pt_Index = 0, pt_ContentType = ct, pt_Filename = [], pt_Disposition = [], pt_Size = length data,
                pt_Content = content_of ct data\<rparr>]
      | Inr (Multi ps) \<Rightarrow> part_structure 0 ps)"

fun extract_from :: "int \<Rightarrow> nat \<Rightarrow> mparts \<Rightarrow> (mime_error, MIMEPart \<times> string) result" where
  "extract_from i idx NoMore = Inl (OutOfRange i idx)"
| "extract_from i idx (NextError e) = Inl (NextPartError idx e)"
| "extract_from i idx (NextPart p rest) =
     (if int idx = i then
        (case mp_body p of
           Inl e \<Rightarrow> Inl (ReadPart idx e)
         | Inr data \<Rightarrow>
             Inr (\<lparr>pt_Index = idx, pt_ContentType = type_or ''application/octet-stream'' (mp_type p), pt_Filename = mp_filename p,
                   pt_Disposition = mp_disposition p, pt_Size = length data, pt_Content = []\<rparr>, data))
      else extract_from i (Suc idx) rest)"

definition ExtractPart :: "mime_lib \<Rightarrow> string \<Rightarrow> int \<Rightarrow> (mime_error, MIMEPart \<times> string) result" where
  "ExtractPart lib raw i =
     (case ml_entity lib raw of
        Inl e \<Rightarrow> Inl (ParseMIMEError e)
      | Inr (Single t b) \<Rightarrow>
          if i \<noteq> 0 then Inl (OutOfRangeSingle i)
          else (case b of
             Inl e \<Rightarrow> Inl (ReadSingle e)
           | Inr data \<Rightarrow> Inr (\<lparr>pt_Index = 0, pt_ContentType = type_or ''text/plain'' t, pt_Filename = [], pt_Disposition = [],
               pt_Size = length data, pt_Content = []\<rparr>, data))
      | Inr (Multi ps) \<Rightarrow> extract_from i 0 ps)"

subsection \<open>Walking is a fold over the leaves\<close>

type_synonym leaf = "string \<times> string \<times> string \<times> (string, string) result"

fun leaves :: "mparts \<Rightarrow> leaf list" where
  "leaves NoMore = []"
| "leaves (NextError e) = []"
| "leaves (NextPart (Nested ct disp fn body inner) rest) = leaves inner @ leaves rest"
| "leaves (NextPart (Leaf ct disp fn body) rest) = (ct, disp, fn, body) # leaves rest"

lemma walk_leaves: "walkParts ps w = fold (\<lambda>(ct, disp, fn, body). walk_leaf ct disp fn body) (leaves ps) w"
  by (induction ps w rule: walkParts.induct) simp_all

fun leaf_attachment :: "leaf \<Rightarrow> Attachment option" where
  "leaf_attachment (ct, disp, fn, Inl e) = Some \<lparr>at_Filename = fn, at_ContentType = ct @ '' (read error)'', at_Size = 0\<rparr>"
| "leaf_attachment (ct, disp, fn, Inr data) =
     (if disp = ''attachment'' then Some \<lparr>at_Filename = fn, at_ContentType = ct, at_Size = length data\<rparr> else None)"

fun leaf_text :: "string \<Rightarrow> leaf \<Rightarrow> string option" where
  "leaf_text t (ct, disp, fn, Inr data) = (if disp \<noteq> ''attachment'' \<and> ct = t \<and> data \<noteq> [] then Some data else None)"
| "leaf_text t (ct, disp, fn, Inl e) = None"

definition first_text :: "string \<Rightarrow> leaf list \<Rightarrow> string" where
  "first_text t ls = (case List.map_filter (leaf_text t) ls of [] \<Rightarrow> [] | d # _ \<Rightarrow> d)"

lemma walk_leaf_fold:
  "wk_attachments (fold (\<lambda>(ct, disp, fn, body). walk_leaf ct disp fn body) ls w) = wk_attachments w @ List.map_filter leaf_attachment ls"
  "wk_plain (fold (\<lambda>(ct, disp, fn, body). walk_leaf ct disp fn body) ls w) = (if wk_plain w \<noteq> [] then wk_plain w else first_text ''text/plain'' ls)"
  "wk_html (fold (\<lambda>(ct, disp, fn, body). walk_leaf ct disp fn body) ls w) = (if wk_html w \<noteq> [] then wk_html w else first_text ''text/html'' ls)"
proof (induction ls arbitrary: w)
  case Nil
  {
    case 1 show ?case by (simp add: List.map_filter_simps)
  next
    case 2 show ?case by (simp add: first_text_def List.map_filter_simps)
  next
    case 3 show ?case by (simp add: first_text_def List.map_filter_simps)
  }
next
  case (Cons l ls)
  obtain ct disp fn body where l: "l = (ct, disp, fn, body)" by (cases l) auto
  {
    case 1 show ?case using Cons(1) by (cases body) (auto simp: l walk_leaf_def List.map_filter_simps)
  next
    case 2 show ?case using Cons(2) by (cases body) (auto simp: l walk_leaf_def List.map_filter_simps first_text_def)
  next
    case 3 show ?case using Cons(3) by (cases body) (auto simp: l walk_leaf_def List.map_filter_simps first_text_def)
  }
qed

text \<open>
  C16. However the parts nest, the walk reads the message as the flat list of its leaves, in order: its attachments are the
  leaves marked so and those that could not be read, and its body the first text/plain leaf that has text, or else the first
  text/html one, or a placeholder.
\<close>

theorem ParseMIME_leaves:
  assumes "ml_read lib raw = Some (h, b)" "HasPrefix (ml_media lib (h ''Content-Type'')) ''multipart/''" "h ''Content-Type'' \<noteq> []"
    and "ml_entity lib raw = Inr (Multi ps)"
  shows "ParseMIME lib raw =
    ((if first_text ''text/plain'' (leaves ps) \<noteq> [] then first_text ''text/plain'' (leaves ps)
      else if first_text ''text/html'' (leaves ps) \<noteq> [] then first_text ''text/html'' (leaves ps) else ''(no text body)''),
     List.map_filter leaf_attachment (leaves ps), select_headers h)"
  unfolding ParseMIME_def Let_def assms(1,4) option.case sum.case prod.case entity.case if_not_P [OF assms(3)]
  using assms(2) by (simp add: walk_leaves walk_leaf_fold no_walk_def)

definition sample_parts :: mparts where
  "sample_parts = NextPart (Nested ''multipart/alternative'' [] [] (Inr ''..'')
       (NextPart (Leaf ''text/html'' [] [] (Inr ''<b>'')) (NextPart (Leaf ''text/plain'' [] [] (Inr ''b'')) NoMore)))
     (NextPart (Leaf ''text/plain'' ''attachment'' ''f'' (Inr ''data'')) (NextPart (Leaf ''image/png'' [] ''g'' (Inl ''cut'')) (NextError ''bad'')))"

definition sample_lib :: mime_lib where
  "sample_lib = \<lparr>ml_read = (\<lambda>_. Some (\<lambda>k. if k = ''Content-Type'' then ''multipart/mixed'' else [], Inr ''raw'')),
     ml_media = (\<lambda>s. s), ml_entity = (\<lambda>_. Inr (Multi sample_parts))\<rparr>"

theorem ParseMIME_leaves_witness:
  "fst (ParseMIME sample_lib ''m'') = ''b'' \<and> map at_Filename (fst (snd (ParseMIME sample_lib ''m''))) = [''f'', ''g'']"
proof -
  let ?h = "\<lambda>k. if k = ''Content-Type'' then ''multipart/mixed'' else []"
  have r: "ml_read sample_lib ''m'' = Some (?h, Inr ''raw'')" by (simp add: sample_lib_def)
  have p: "HasPrefix (ml_media sample_lib (?h ''Content-Type'')) ''multipart/''" by (simp add: sample_lib_def)
  have n: "?h ''Content-Type'' \<noteq> []" by simp
  have e: "ml_entity sample_lib ''m'' = Inr (Multi sample_parts)" by (simp add: sample_lib_def)
  have t: "first_text ''text/plain'' (leaves sample_parts) = ''b''" by code_simp
  have a: "map at_Filename (List.map_filter leaf_attachment (leaves sample_parts)) = [''f'', ''g'']" by code_simp
  show ?thesis unfolding ParseMIME_leaves [OF r p n e] fst_conv snd_conv t a by simp
qed

lemma part_structure_length:
  "part_structure k mps = Inr ps \<Longrightarrow>
    (if int k \<le> i \<and> i < int (k + length ps)
     then \<exists>d. extract_from i k mps = Inr ((ps ! (nat i - k))\<lparr>pt_Content := []\<rparr>, d) \<and> length d = pt_Size (ps ! (nat i - k))
       \<and> int (pt_Index (ps ! (nat i - k))) = i \<and> pt_Content (ps ! (nat i - k)) = content_of (pt_ContentType (ps ! (nat i - k))) d
     else \<not> is_ok (extract_from i k mps))"
proof (induction k mps arbitrary: ps rule: part_structure.induct)
  case (3 k p rest)
  obtain data qs where d: "mp_body p = Inr data" "part_structure (Suc k) rest = Inr qs"
    and ps: "ps = \<lparr>pt_Index = k, pt_ContentType = type_or ''application/octet-stream'' (mp_type p), pt_Filename = mp_filename p,
      pt_Disposition = mp_disposition p, pt_Size = length data, pt_Content = content_of (type_or ''application/octet-stream'' (mp_type p)) data\<rparr> # qs"
    using 3(2) by (auto simp: Let_def and_then_Inr_iff split: sum.splits)
  note ih = 3(1) [OF d(1) refl d(2)]
  show ?case
  proof (cases "int k = i")
    case True
    then show ?thesis using d(1) by (simp add: ps)
  next
    case False
    have "nat i - k = Suc (nat i - Suc k)" if "int (Suc k) \<le> i" using that by simp
    then have "ps ! (nat i - k) = qs ! (nat i - Suc k)" if "int (Suc k) \<le> i" using that by (simp add: ps)
    moreover have "int k \<le> i \<and> i < int (k + length ps) \<longleftrightarrow> int (Suc k) \<le> i \<and> i < int (Suc k + length qs)"
      using False by (auto simp: ps)
    ultimately show ?thesis using ih False by (cases "int (Suc k) \<le> i") simp_all
  qed
qed simp_all

lemma part_agrees:
  assumes "ParseMIMEStructure lib raw = Inr ps"
  shows "if 0 \<le> i \<and> i < int (length ps)
    then \<exists>d. ExtractPart lib raw i = Inr ((ps ! nat i)\<lparr>pt_Content := []\<rparr>, d) \<and> length d = pt_Size (ps ! nat i)
      \<and> int (pt_Index (ps ! nat i)) = i \<and> pt_Content (ps ! nat i) = content_of (pt_ContentType (ps ! nat i)) d
    else \<not> is_ok (ExtractPart lib raw i)"
proof (cases "ml_entity lib raw")
  case (Inl e)
  then show ?thesis using assms by (simp add: ParseMIMEStructure_def)
next
  case (Inr e)
  show ?thesis
  proof (cases e)
    case (Single t b)
    then obtain data where "b = Inr data" using assms Inr by (cases b) (simp_all add: ParseMIMEStructure_def)
    then show ?thesis using assms Inr Single by (auto simp: ParseMIMEStructure_def ExtractPart_def Let_def)
  next
    case (Multi mps)
    then have "part_structure 0 mps = Inr ps" using assms Inr by (simp add: ParseMIMEStructure_def)
    from part_structure_length [OF this, of i] have
      "if 0 \<le> i \<and> i < int (length ps)
       then \<exists>d. extract_from i 0 mps = Inr ((ps ! nat i)\<lparr>pt_Content := []\<rparr>, d) \<and> length d = pt_Size (ps ! nat i)
         \<and> int (pt_Index (ps ! nat i)) = i \<and> pt_Content (ps ! nat i) = content_of (pt_ContentType (ps ! nat i)) d
       else \<not> is_ok (extract_from i 0 mps)" by (simp only: of_nat_0 add_0 diff_zero)
    then show ?thesis using Inr Multi unfolding ExtractPart_def by (simp only: sum.case entity.case)
  qed
qed

subsection \<open>What is shown of a part\<close>

lemma scalar_decode: "scalar (fst (decode_rune bs))" if "\<forall>b \<in> set bs. b < 256"
proof (cases bs)
  case (Cons b rest)
  show ?thesis
  proof (cases "snd (decode_rune bs) = 1 \<and> 0x80 \<le> b")
    case True
    have "decode2 b rest = (RuneError, 1) \<or> snd (decode2 b rest) = 2" by (cases "(b, rest)" rule: decode2.cases) auto
    moreover have "decode3 b rest = (RuneError, 1) \<or> snd (decode3 b rest) = 3" by (cases "(b, rest)" rule: decode3.cases) auto
    moreover have "decode4 b rest = (RuneError, 1) \<or> snd (decode4 b rest) = 4" by (cases "(b, rest)" rule: decode4.cases) auto
    ultimately have "fst (decode_rune bs) = RuneError" using True Cons by (auto simp: decode_rune.simps split: if_splits)
    then show ?thesis by simp
  next
    case False
    obtain r w where d: "decode_rune (b # rest) = (r, w)" by force
    have "w \<noteq> 1 \<or> b < 0x80" using False d Cons by auto
    then have "1 \<le> w \<and> scalar r \<and> bytes (encode_rune r) = take w (b # rest)"
      using decode_rune_encode [of b rest r w] d that Cons by simp
    then show ?thesis using d Cons by simp
  qed
qed (simp add: decode_rune.simps)

lemma runes_scalar: "list_all scalar (runes s)"
proof (induction s rule: rune_induct)
  case (Cons s)
  have "scalar (fst (decode_rune (bytes s)))" by (rule scalar_decode) (auto simp: bytes_def)
  then show ?case using Cons by (simp add: runes_def rune_chunks_Cons list_all_iff)
qed (simp add: runes_def)

lemma runes_truncate:
  "runes (truncate_runes s limit) = (if length (runes s) \<le> limit then runes s else take limit (runes s) @ map byte ''...'')"
proof (cases "length (runes s) \<le> limit")
  case False
  have "list_all scalar (take limit (runes s))" using runes_scalar [of s] by (auto simp: list_all_iff dest: in_set_takeD)
  moreover have "list_all scalar (map byte ''...'')" by (simp add: scalar_def cont_def byte_def)
  ultimately have a: "list_all scalar (take limit (runes s) @ map byte ''...'')" by (simp only: list_all_append simp_thms)
  have "of_runes (map byte ''...'') = ''...''" by code_simp
  then have "of_runes (take limit (runes s) @ map byte ''...'') = of_runes (take limit (runes s)) @ ''...''"
    by (simp only: of_runes_def map_append concat_append)
  then show ?thesis using runes_of_runes [OF a] False by (simp only: truncate_runes_def Let_def if_False)
qed (simp add: truncate_runes_def Let_def)

definition shown_text :: "string \<Rightarrow> bool" where
  "shown_text ct \<longleftrightarrow> HasPrefix ct ''text/'' \<or> Contains ct ''pgp''"

text \<open>
  C17. What \<open>show_mime\<close> lists of a message agrees with what a download hands on, and is bounded whatever the message holds:
  entry \<open>i\<close> has index \<open>i\<close>, and extracting part \<open>i\<close> gives that entry and bytes of the listed size; the entry's content is all
  of those bytes when they are text (or PGP) of at most 4,000 characters, the first 4,000 characters and three dots when they
  are longer, and nothing when they are no text; every index outside the list is refused.
\<close>

theorem listed_parts_bounded:
  assumes "ParseMIMEStructure lib raw = Inr ps"
  shows "(\<forall>i < length ps. \<exists>d. ExtractPart lib raw (int i) = Inr ((ps ! i)\<lparr>pt_Content := []\<rparr>, d)
      \<and> pt_Index (ps ! i) = i \<and> pt_Size (ps ! i) = length d
      \<and> RuneCount (pt_Content (ps ! i)) \<le> 4003
      \<and> (if \<not> shown_text (pt_ContentType (ps ! i)) then pt_Content (ps ! i) = []
         else if RuneCount d \<le> 4000 then pt_Content (ps ! i) = d
         else runes (pt_Content (ps ! i)) = take 4000 (runes d) @ map byte ''...''))
    \<and> (\<forall>i. i < 0 \<or> int (length ps) \<le> i \<longrightarrow> \<not> is_ok (ExtractPart lib raw i))"
proof (intro conjI allI impI)
  fix i assume i: "i < length ps"
  then have "0 \<le> int i \<and> int i < int (length ps)" by simp
  from part_agrees [OF assms, of "int i", unfolded if_P [OF this] nat_int] obtain d where
    d: "ExtractPart lib raw (int i) = Inr ((ps ! i)\<lparr>pt_Content := []\<rparr>, d)" "length d = pt_Size (ps ! i)" "pt_Index (ps ! i) = i"
      "pt_Content (ps ! i) = content_of (pt_ContentType (ps ! i)) d" by auto
  have t: "RuneCount d \<le> 4000 \<Longrightarrow> truncate_runes d 4000 = d"
    "\<not> RuneCount d \<le> 4000 \<Longrightarrow> runes (truncate_runes d 4000) = take 4000 (runes d) @ map byte ''...''"
    unfolding runes_truncate RuneCount_runes by (simp_all only: truncate_runes_def Let_def if_True if_False)
  have c: "if \<not> shown_text ct then content_of ct d = [] else if RuneCount d \<le> 4000 then content_of ct d = d
      else runes (content_of ct d) = take 4000 (runes d) @ map byte ''...''" for ct
    using t by (simp add: shown_text_def content_of_def del: list.map)
  have "RuneCount (content_of ct d) \<le> 4003" for ct
  proof (cases "shown_text ct \<and> \<not> RuneCount d \<le> 4000")
    case True
    then have "runes (content_of ct d) = take 4000 (runes d) @ map byte ''...''" using c [of ct] by simp
    then show ?thesis by (simp add: RuneCount_runes del: list.map)
  next
    case False
    then have "content_of ct d = [] \<or> content_of ct d = d \<and> RuneCount d \<le> 4000" using c [of ct] by (auto split: if_splits)
    moreover have "runes [] = []" by (simp add: runes_def)
    ultimately show ?thesis by (auto simp: RuneCount_runes)
  qed
  with d c show "\<exists>d. ExtractPart lib raw (int i) = Inr ((ps ! i)\<lparr>pt_Content := []\<rparr>, d)
      \<and> pt_Index (ps ! i) = i \<and> pt_Size (ps ! i) = length d
      \<and> RuneCount (pt_Content (ps ! i)) \<le> 4003
      \<and> (if \<not> shown_text (pt_ContentType (ps ! i)) then pt_Content (ps ! i) = []
         else if RuneCount d \<le> 4000 then pt_Content (ps ! i) = d
         else runes (pt_Content (ps ! i)) = take 4000 (runes d) @ map byte ''...'')"
    by (intro exI [of _ d] conjI) simp_all
next
  fix i assume "i < 0 \<or> int (length ps) \<le> i"
  then have "\<not> (0 \<le> i \<and> i < int (length ps))" by arith
  from part_agrees [OF assms, of i, unfolded if_not_P [OF this]] show "\<not> is_ok (ExtractPart lib raw i)" .
qed

theorem listed_parts_bounded_witness:
  "\<exists>d. ExtractPart (sample_lib\<lparr>ml_entity := (\<lambda>_. Inr (Multi (NextPart (Leaf ''text/plain'' ''attachment'' ''f'' (Inr ''data'')) NoMore)))\<rparr>) ''m'' 0
    = Inr (\<lparr>pt_Index = 0, pt_ContentType = ''text/plain'', pt_Filename = ''f'', pt_Disposition = ''attachment'', pt_Size = 4, pt_Content = []\<rparr>, d)
    \<and> length d = 4"
proof -
  let ?lib = "sample_lib\<lparr>ml_entity := (\<lambda>_. Inr (Multi (NextPart (Leaf ''text/plain'' ''attachment'' ''f'' (Inr ''data'')) NoMore)))\<rparr>"
  let ?p = "\<lparr>pt_Index = 0, pt_ContentType = ''text/plain'', pt_Filename = ''f'', pt_Disposition = ''attachment'', pt_Size = 4, pt_Content = ''data''\<rparr>"
  have "truncate_runes ''data'' 4000 = ''data''" by code_simp
  then have s: "ParseMIMEStructure ?lib ''m'' = Inr [?p]" by (simp add: ParseMIMEStructure_def Let_def type_or_def content_of_def)
  have "0 < length [?p]" by simp
  from listed_parts_bounded [OF s, THEN conjunct1, rule_format, OF this] show ?thesis by auto
qed

end
