(* ===== verification/Mailbox.thy ===== *)
theory Mailbox
  imports Mime Transport "HOL-Library.Word"
begin

section \<open>The mailbox (email/imap.go, the fetching side of reply.go)\<close>

text \<open>
  Models \<open>internal/email/imap.go\<close> and \<open>FetchThread\<close>. A session with the IMAP server is the list of the commands sent,
  newest last; the server answers each from what was sent so far. The go-imap client, the MIME parsers and gpg are
  arguments. Counts and sequence numbers are 32 bits wide, as in the code.
\<close>

subsection \<open>Criteria, sets and commands\<close>

record SearchQuery =
  sq_From :: string
  sq_Subject :: string
  sq_Since :: "int option"
  sq_Text :: string
  sq_RepoSlug :: string
  sq_UnreadOnly :: bool

type_synonym field = "string \<times> string"

record criteria =
  cr_NotFlag :: "string list"
  cr_Or :: "(field list \<times> field list) list"
  cr_Header :: "field list"
  cr_SentSince :: "int option"
  cr_Text :: "string list"

definition no_criteria :: criteria where
  "no_criteria = \<lparr>cr_NotFlag = [], cr_Or = [], cr_Header = [], cr_SentSince = None, cr_Text = []\<rparr>"

definition FlagSeen :: string where "FlagSeen = BACKSLASH # ''Seen''"

definition empty_query :: "SearchQuery \<Rightarrow> bool" where
  "empty_query q \<longleftrightarrow> sq_RepoSlug q = [] \<and> \<not> sq_UnreadOnly q \<and> sq_From q = [] \<and> sq_Subject q = [] \<and> sq_Since q = None \<and> sq_Text q = []"

definition searchCriteria :: "SearchQuery \<Rightarrow> criteria option" where
  "searchCriteria q =
     (if empty_query q then None
      else Some \<lparr>cr_NotFlag = (if sq_UnreadOnly q then [FlagSeen] else []),
        cr_Or = (if sq_RepoSlug q \<noteq> [] then [([(HeaderRepo, sq_RepoSlug q)], [(''Subject'', ''['' @ sq_RepoSlug q @ '']'')])] else []),
        cr_Header = (if sq_From q \<noteq> [] then [(''From'', sq_From q)] else []) @ (if sq_Subject q \<noteq> [] then [(''Subject'', sq_Subject q)] else []),
        cr_SentSince = sq_Since q,
        cr_Text = (if sq_Text q \<noteq> [] then [sq_Text q] else [])\<rparr>)"

definition scope_query :: "string \<Rightarrow> bool \<Rightarrow> SearchQuery" where
  "scope_query slug unreadOnly =
     \<lparr>sq_From = [], sq_Subject = [], sq_Since = None, sq_Text = [], sq_RepoSlug = slug, sq_UnreadOnly = unreadOnly\<rparr>"

definition repoSearchCriteria :: "string \<Rightarrow> bool \<Rightarrow> criteria option" where
  "repoSearchCriteria slug unreadOnly = searchCriteria (scope_query slug unreadOnly)"

datatype num_set = SeqRange "32 word" "32 word" | UidSet "32 word list"

text \<open>A fetch of summaries, or of whole messages with or without their envelope; \<open>peek\<close> leaves the read state alone.\<close>

datatype imap_command =
    Status string
  | Select string bool
  | Search criteria
  | FetchSummaries num_set bool
  | FetchFull "32 word" bool
  | FetchBody "32 word" bool
  | ListFolders
  | Move "32 word list" string
  | StoreSeen "32 word list" bool

type_synonym imap_trace = "imap_command list"

record Envelope =
  en_From :: "(string \<times> string \<times> string) list"
  en_To :: "(string \<times> string \<times> string) list"
  en_Date :: "int option"
  en_Subject :: string

record fetched =
  fe_UID :: "32 word"
  fe_Envelope :: "Envelope option"
  fe_Flags :: "string list"
  fe_Header :: string
  fe_Body :: "string option"

record imap_server =
  is_status :: "imap_trace \<Rightarrow> (string, 32 word option) result"
  is_select :: "imap_trace \<Rightarrow> (string, 32 word) result"
  is_search :: "imap_trace \<Rightarrow> (string, 32 word list) result"
  is_fetch :: "imap_trace \<Rightarrow> (string, fetched list) result"
  is_list :: "imap_trace \<Rightarrow> (string, string list) result"
  is_move :: "imap_trace \<Rightarrow> (string, 32 word list option) result"
  is_store :: "imap_trace \<Rightarrow> (string, 32 word list) result"

datatype imap_error =
    StatusFailed string string
  | SelectFailed string string
  | SearchUnread string
  | FetchList string
  | FetchFailed "32 word" string
  | NotFound "32 word"
  | EmptyBody "32 word"
  | ListFailed string
  | MoveFailed nat string string
  | StoreFailed nat string
  | NegativeOffset
  | ParseReply "32 word"

text \<open>An operation on a session: its result and the commands sent.\<close>

type_synonym 'a imap = "imap_trace \<Rightarrow> (imap_error, 'a) result \<times> imap_trace"

definition give :: "'a \<Rightarrow> 'a imap" where "give x tr = (Inr x, tr)"

definition fail :: "imap_error \<Rightarrow> 'a imap" where "fail e tr = (Inl e, tr)"

definition issue :: "imap_command \<Rightarrow> (imap_trace \<Rightarrow> (string, 'a) result) \<Rightarrow> (string \<Rightarrow> imap_error) \<Rightarrow> 'a imap" where
  "issue c answer mk tr =
     (let tr' = tr @ [c] in case answer tr' of Inl e \<Rightarrow> (Inl (mk e), tr') | Inr x \<Rightarrow> (Inr x, tr'))"

definition next_do :: "'a imap \<Rightarrow> ('a \<Rightarrow> 'b imap) \<Rightarrow> 'b imap" where
  "next_do m f tr = (case m tr of (Inl e, tr') \<Rightarrow> (Inl e, tr') | (Inr x, tr') \<Rightarrow> f x tr')"

subsection \<open>Which messages to list\<close>

definition clampCount :: "int \<Rightarrow> 32 word \<Rightarrow> int" where
  "clampCount cnt n = (if cnt > uint n then uint n else cnt)"

definition recencySet :: "32 word \<Rightarrow> int \<Rightarrow> num_set" where
  "recencySet n cnt =
     (let cnt = (if cnt > 2147483647 then 2147483647 else cnt);
          width = (word_of_int cnt :: 32 word);
          start = (if n > width then n - width + 1 else 1)
      in SeqRange start n)"

definition window :: "'a list \<Rightarrow> int \<Rightarrow> int \<Rightarrow> 'a list" where
  "window uids cnt offset =
     (let stop = int (length uids) - offset in
      if stop \<le> 0 \<or> cnt \<le> 0 then []
      else let start = (if stop - cnt < 0 then 0 else stop - cnt) in
        take (nat stop - nat start) (drop (nat start) uids))"

definition selectUIDs :: "32 word list \<Rightarrow> int \<Rightarrow> int \<Rightarrow> num_set option \<times> nat" where
  "selectUIDs uids cnt offset =
     (let page = window uids cnt offset in
      ((if page = [] then None else Some (UidSet page)), length uids))"

definition degradedListing :: string where
  "degradedListing = ''search unavailable; showing recent mail instead''"

text \<open>The set to fetch, how many match, and the reason a listing is degraded.\<close>

type_synonym listing = "num_set option \<times> nat \<times> string"

definition page_of :: "32 word list \<Rightarrow> int \<Rightarrow> int \<Rightarrow> listing" where
  "page_of uids cnt offset = (fst (selectUIDs uids cnt offset), snd (selectUIDs uids cnt offset), [])"

definition search_all :: "criteria option \<Rightarrow> criteria" where
  "search_all c = (case c of None \<Rightarrow> no_criteria | Some c \<Rightarrow> c)"

definition searchFallback :: "imap_server \<Rightarrow> 32 word \<Rightarrow> SearchQuery \<Rightarrow> int \<Rightarrow> int \<Rightarrow> string \<Rightarrow> listing imap" where
  "searchFallback srv n q cnt offset cause tr =
     (if sq_UnreadOnly q then
        (if sq_RepoSlug q \<noteq> [] then
           (let tr' = tr @ [Search (search_all (searchCriteria (q\<lparr>sq_RepoSlug := []\<rparr>)))] in
            case is_search srv tr' of
              Inr uids \<Rightarrow> (Inr (page_of uids cnt offset), tr')
            | Inl e \<Rightarrow> (Inl (SearchUnread cause), tr'))
         else (Inl (SearchUnread cause), tr))
      else (Inr (Some (recencySet n (clampCount cnt n)), unat n, degradedListing), tr))"

definition listSet :: "imap_server \<Rightarrow> 32 word \<Rightarrow> SearchQuery \<Rightarrow> int \<Rightarrow> int \<Rightarrow> listing imap" where
  "listSet srv n q cnt offset tr =
     (let crit = searchCriteria q in
      if crit = None \<and> offset = 0 then (Inr (Some (recencySet n (clampCount cnt n)), unat n, []), tr)
      else let tr' = tr @ [Search (search_all crit)] in
        case is_search srv tr' of
          Inl e \<Rightarrow> searchFallback srv n q cnt offset e tr'
        | Inr uids \<Rightarrow> (Inr (page_of uids cnt offset), tr'))"

subsection \<open>Listing\<close>

record ListResult =
  lr_Messages :: "MessageSummary list"
  lr_Total :: nat
  lr_Degraded :: bool
  lr_DegradedReason :: string

definition formatAddress :: "string \<times> string \<times> string \<Rightarrow> string" where
  "formatAddress a =
     (case a of (name, mailbox, host) \<Rightarrow>
        if name \<noteq> [] then name @ '' <'' @ mailbox @ ''@'' @ host @ ''>'' else mailbox @ ''@'' @ host)"

definition first_address :: "(string \<times> string \<times> string) list \<Rightarrow> string" where
  "first_address as = (case as of [] \<Rightarrow> [] | a # _ \<Rightarrow> formatAddress a)"

definition classifyFromHeaders :: "(nat \<Rightarrow> nat) \<Rightarrow> string \<Rightarrow> TrustLevel \<times> bool" where
  "classifyFromHeaders ulow block =
     (let lower = ToLower ulow block in
      if Contains lower ''x-pm-content-encryption: end-to-end'' \<and> Contains lower ''x-pm-origin: internal'' then (Trusted, False)
      else if Contains lower ''multipart/signed'' then (Unverified, True)
      else (Unverified, False))"

definition is_unread :: "fetched \<Rightarrow> bool" where
  "is_unread m \<longleftrightarrow> FlagSeen \<notin> set (fe_Flags m)"

definition UintString :: "32 word \<Rightarrow> string" where
  "UintString u = Itoa (uint u)"

text \<open>The summary of a message; none without an envelope.\<close>

definition summary_of :: "(nat \<Rightarrow> nat) \<Rightarrow> fetched \<Rightarrow> MessageSummary option" where
  "summary_of ulow m =
     (case fe_Envelope m of
        None \<Rightarrow> None
      | Some env \<Rightarrow>
          let t = classifyFromHeaders ulow (fe_Header m) in
          Some \<lparr>ms_ID = UintString (fe_UID m), ms_From = first_address (en_From env), ms_Subject = en_Subject env,
            ms_TrustLevel = fst t, ms_HasSig = snd t, ms_Date = en_Date env, ms_Unread = is_unread m\<rparr>)"

definition fetchSummaries :: "imap_server \<Rightarrow> (nat \<Rightarrow> nat) \<Rightarrow> num_set \<Rightarrow> MessageSummary list imap" where
  "fetchSummaries srv ulow s =
     next_do (issue (FetchSummaries s True) (is_fetch srv) FetchList) (\<lambda>ms. give (List.map_filter (summary_of ulow) ms))"

definition SearchMessages ::
    "imap_server \<Rightarrow> (nat \<Rightarrow> nat) \<Rightarrow> string \<Rightarrow> SearchQuery \<Rightarrow> int \<Rightarrow> int \<Rightarrow> ListResult imap" where
  "SearchMessages srv ulow folder q cnt offset =
     (if offset < 0 then fail NegativeOffset
      else next_do (issue (Select folder True) (is_select srv) (SelectFailed folder)) (\<lambda>n.
        if n = 0 \<or> cnt \<le> 0 then give \<lparr>lr_Messages = [], lr_Total = 0, lr_Degraded = False, lr_DegradedReason = []\<rparr>
        else next_do (listSet srv n q cnt offset) (\<lambda>(s, tot, degraded).
          case s of
            None \<Rightarrow> give \<lparr>lr_Messages = [], lr_Total = tot, lr_Degraded = (degraded \<noteq> []), lr_DegradedReason = degraded\<rparr>
          | Some s \<Rightarrow> next_do (fetchSummaries srv ulow s) (\<lambda>ms.
              give \<lparr>lr_Messages = ms, lr_Total = tot, lr_Degraded = (degraded \<noteq> []), lr_DegradedReason = degraded\<rparr>))))"

definition ListMessages :: "imap_server \<Rightarrow> (nat \<Rightarrow> nat) \<Rightarrow> string \<Rightarrow> int \<Rightarrow> bool \<Rightarrow> string \<Rightarrow> ListResult imap" where
  "ListMessages srv ulow folder cnt unreadOnly slug = SearchMessages srv ulow folder (scope_query slug unreadOnly) cnt 0"

definition StatusLine :: "ListResult \<Rightarrow> string" where
  "StatusLine lr =
     (if lr_Messages lr = [] \<and> 0 < lr_Total lr
      then ''showing 0 of '' @ Itoa_nat (lr_Total lr) @ '' messages (page past end '' @ encode_rune 0x2014 @ '' reduce offset)''
      else ''showing '' @ Itoa_nat (length (lr_Messages lr)) @ '' of '' @ Itoa_nat (lr_Total lr) @ '' messages'')"

subsection \<open>Counting, folders\<close>

definition StatusUnseen :: "imap_server \<Rightarrow> string \<Rightarrow> 32 word imap" where
  "StatusUnseen srv folder =
     next_do (issue (Status folder) (is_status srv) (StatusFailed folder))
       (\<lambda>r. give (case r of None \<Rightarrow> 0 | Some n \<Rightarrow> n))"

definition UnreadCount :: "imap_server \<Rightarrow> string \<Rightarrow> string \<Rightarrow> 32 word imap" where
  "UnreadCount srv folder slug =
     (if slug = [] then StatusUnseen srv folder
      else next_do (issue (Select folder True) (is_select srv) (SelectFailed folder)) (\<lambda>_ tr.
        let tr' = tr @ [Search (search_all (repoSearchCriteria slug True))] in
        case is_search srv tr' of
          Inl e \<Rightarrow> StatusUnseen srv folder tr'
        | Inr uids \<Rightarrow> (Inr (of_nat (min (length uids) 2147483647)), tr')))"

definition Folders :: "imap_server \<Rightarrow> string list imap" where
  "Folders srv = issue ListFolders (is_list srv) ListFailed"

subsection \<open>Fetching\<close>

definition first_fetched :: "32 word \<Rightarrow> fetched list \<Rightarrow> (fetched \<times> string) imap" where
  "first_fetched uid ms =
     (case ms of
        [] \<Rightarrow> fail (NotFound uid)
      | m # _ \<Rightarrow> (case fe_Body m of None \<Rightarrow> fail (EmptyBody uid) | Some raw \<Rightarrow> give (m, raw)))"

definition FetchRaw :: "imap_server \<Rightarrow> string \<Rightarrow> 32 word \<Rightarrow> string imap" where
  "FetchRaw srv folder uid =
     next_do (issue (Select folder True) (is_select srv) (SelectFailed folder)) (\<lambda>_.
     next_do (issue (FetchBody uid True) (is_fetch srv) (FetchFailed uid)) (\<lambda>ms.
     next_do (first_fetched uid ms) (\<lambda>(m, raw). give raw)))"

record Message =
  me_ID :: string
  me_From :: string
  me_To :: string
  me_Date :: "int option"
  me_Subject :: string
  me_Body :: string
  me_TrustLevel :: TrustLevel
  me_Encryption :: string
  me_Attachments :: "Attachment list"
  me_RawHeaders :: headers

text \<open>
  What reading needs: the MIME parsers, the case mapping, the media type and the protocol parameter of a message that has a
  Content-Type, the signer configured, the passphrase, and \<open>pgp.Decrypt\<close> as the plaintext or nothing.
\<close>

record read_io =
  ro_lib :: mime_lib
  ro_ulow :: "nat \<Rightarrow> nat"
  ro_protocol :: "string \<Rightarrow> (string \<times> string) option"
  ro_signer :: string
  ro_secrets :: secret_world
  ro_decrypt :: "string \<Rightarrow> string \<Rightarrow> string option"

definition IsEncrypted :: "(string \<Rightarrow> (string \<times> string) option) \<Rightarrow> string \<Rightarrow> bool" where
  "IsEncrypted protocol raw =
     (case protocol raw of
        None \<Rightarrow> False
      | Some (mediaType, prot) \<Rightarrow> mediaType = ''multipart/encrypted'' \<and> Contains prot ''pgp-encrypted'')"

definition plaintext_of :: "read_io \<Rightarrow> string \<Rightarrow> string" where
  "plaintext_of io raw =
     (if IsEncrypted (ro_protocol io) raw \<and> ro_signer io \<noteq> []
      then let passphrase = (case GPGPassphrase (ro_secrets io) of Inr pp \<Rightarrow> pp | Inl e \<Rightarrow> []) in
        (case ro_decrypt io passphrase raw of Some p \<Rightarrow> p | None \<Rightarrow> raw)
      else raw)"

definition parseMessage :: "read_io \<Rightarrow> fetched \<Rightarrow> Envelope \<Rightarrow> string \<Rightarrow> Message" where
  "parseMessage io m env raw0 =
     (let raw = plaintext_of io raw0;
          parsed = ParseMIME (ro_lib io) raw;
          hs = snd (snd parsed);
          trust = ClassifyTrust (ro_ulow io) (ml_media (ro_lib io)) hs raw;
          enc = (case hs ''X-Pm-Content-Encryption'' of
            Some e \<Rightarrow> if Contains (ToLower (ro_ulow io) e) ''end-to-end'' then ''end-to-end'' else ''tls''
          | None \<Rightarrow> ''tls'')
      in \<lparr>me_ID = UintString (fe_UID m), me_From = first_address (en_From env), me_To = first_address (en_To env),
          me_Date = en_Date env, me_Subject = en_Subject env, me_Body = fst parsed, me_TrustLevel = trust,
          me_Encryption = enc, me_Attachments = fst (snd parsed), me_RawHeaders = hs\<rparr>)"

text \<open>The server sends the envelope that was asked for, as the code takes for granted.\<close>

definition FetchMessage :: "imap_server \<Rightarrow> read_io \<Rightarrow> string \<Rightarrow> 32 word \<Rightarrow> Message option imap" where
  "FetchMessage srv io folder uid =
     next_do (issue (Select folder True) (is_select srv) (SelectFailed folder)) (\<lambda>_.
     next_do (issue (FetchFull uid True) (is_fetch srv) (FetchFailed uid)) (\<lambda>ms.
     next_do (first_fetched uid ms) (\<lambda>(m, raw).
       give (map_option (\<lambda>env. parseMessage io m env raw) (fe_Envelope m)))))"

record ReplyContext =
  rc_MessageID :: string
  rc_References :: "string list"
  rc_ReplyTo :: string
  rc_From :: string
  rc_Subject :: string
  rc_Date :: "string option"
  rc_Body :: string
  rc_Quotable :: bool

text \<open>\<open>date\<close> renders the Date header, \<open>None\<close> when it is absent or unreadable; \<open>parse\<close> is \<open>mail.ParseAddress\<close>.\<close>

definition reply_context ::
    "mime_lib \<Rightarrow> (string \<Rightarrow> (string \<times> string) option) \<Rightarrow> ((string \<Rightarrow> string) \<Rightarrow> string option) \<Rightarrow> string \<Rightarrow> ReplyContext option" where
  "reply_context lib parse date raw =
     (case ml_read lib raw of
        None \<Rightarrow> None
      | Some (h, b) \<Rightarrow>
          let messageID = TrimSpace (h ''Message-ID'');
              replyTo0 = ExtractEmailAddress parse (h ''Reply-To'');
              replyTo = (if replyTo0 = [] then ExtractEmailAddress parse (h ''From'') else replyTo0);
              body0 = fst (ParseMIME lib raw);
              quotable = (\<not> extractionFailed body0)
          in Some \<lparr>rc_MessageID = messageID,
              rc_References = buildReferences (h ''References'') (h ''In-Reply-To'') messageID,
              rc_ReplyTo = replyTo, rc_From = TrimSpace (h ''From''), rc_Subject = h ''Subject'', rc_Date = date h,
              rc_Body = (if quotable then body0 else []), rc_Quotable = quotable\<rparr>)"

definition FetchThread ::
    "imap_server \<Rightarrow> mime_lib \<Rightarrow> (string \<Rightarrow> (string \<times> string) option) \<Rightarrow> ((string \<Rightarrow> string) \<Rightarrow> string option)
       \<Rightarrow> string \<Rightarrow> 32 word \<Rightarrow> ReplyContext imap" where
  "FetchThread srv lib parse date folder uid =
     next_do (FetchRaw srv folder uid) (\<lambda>raw.
       case reply_context lib parse date raw of None \<Rightarrow> fail (ParseReply uid) | Some rc \<Rightarrow> give rc)"

subsection \<open>Changing\<close>

text \<open>The server names the messages it moved, or says nothing that can be counted.\<close>

definition numSetLen :: "32 word list option \<Rightarrow> nat" where
  "numSetLen s = (case s of None \<Rightarrow> 0 | Some us \<Rightarrow> length us)"

definition MoveMessages :: "imap_server \<Rightarrow> string \<Rightarrow> 32 word list \<Rightarrow> string \<Rightarrow> nat imap" where
  "MoveMessages srv src uids dst =
     (if uids = [] then give 0
      else next_do (issue (Select src False) (is_select srv) (SelectFailed src)) (\<lambda>_.
        next_do (issue (Move uids dst) (is_move srv) (MoveFailed (length uids) dst)) (\<lambda>moved. give (numSetLen moved))))"

definition MoveMessage :: "imap_server \<Rightarrow> string \<Rightarrow> 32 word \<Rightarrow> string \<Rightarrow> nat imap" where
  "MoveMessage srv src uid dst = MoveMessages srv src [uid] dst"

definition SetSeenBatch :: "imap_server \<Rightarrow> string \<Rightarrow> 32 word list \<Rightarrow> bool \<Rightarrow> nat imap" where
  "SetSeenBatch srv folder uids seen =
     (if uids = [] then give 0
      else next_do (issue (Select folder False) (is_select srv) (SelectFailed folder)) (\<lambda>_.
        next_do (issue (StoreSeen uids seen) (is_store srv) (StoreFailed (length uids))) (\<lambda>ms. give (length ms))))"

definition SetSeen :: "imap_server \<Rightarrow> string \<Rightarrow> 32 word \<Rightarrow> bool \<Rightarrow> nat imap" where
  "SetSeen srv folder uid seen = SetSeenBatch srv folder [uid] seen"

fun dedup :: "'a list \<Rightarrow> 'a set \<Rightarrow> 'a list" where
  "dedup [] seen = []"
| "dedup (u # us) seen = (if u \<in> seen then dedup us seen else u # dedup us (insert u seen))"

definition DedupUIDs :: "32 word list \<Rightarrow> 32 word list" where
  "DedupUIDs uids = dedup uids {}"

subsection \<open>Pages\<close>

lemma rev_window:
  assumes "0 < c"
  shows "rev (window uids (int c) (int off)) = take c (drop off (rev uids))"
proof (cases "length uids \<le> off")
  case True
  then show ?thesis by (simp add: window_def Let_def)
next
  case False
  define stop where "stop = length uids - off"
  have s: "int (length uids) - int off = int stop" "0 < stop" using False by (simp_all add: stop_def of_nat_diff)
  have st: "nat (if int stop - int c < 0 then 0 else int stop - int c) = stop - c" by (simp add: nat_diff_distrib')
  have w: "window uids (int c) (int off) = take (stop - (stop - c)) (drop (stop - c) uids)"
    using s(2) assms unfolding window_def Let_def s(1) st nat_int by simp
  have d: "drop off (rev uids) = rev (take stop uids)" by (simp add: drop_rev stop_def)
  have "take c (rev (take stop uids)) = rev (drop (stop - c) (take stop uids))"
  proof -
    have "length (take stop uids) = stop" by (simp add: stop_def)
    then show ?thesis by (simp add: take_rev)
  qed
  then show ?thesis unfolding w d by (simp add: drop_take)
qed

text \<open>
  C18. Paging loses nothing and repeats nothing: the pages of one size, from the newest on, each read from its newest message
  back, are together the whole result from its newest message back.
\<close>

theorem pages_cover:
  assumes "0 < c" "length uids \<le> m * c"
  shows "concat (map (\<lambda>k. rev (window uids (int c) (int (k * c)))) [0..<m]) = rev uids"
proof -
  have "concat (map (\<lambda>k. take c (drop (k * c) xs)) [0..<m]) = take (m * c) xs" for xs :: "'a list"
  proof (induction m)
    case (Suc m)
    have "take (Suc m * c) xs = take (m * c) xs @ take c (drop (m * c) xs)" by (simp only: mult_Suc add.commute [of c] take_add)
    then show ?case using Suc by simp
  qed simp
  then have "concat (map (\<lambda>k. rev (window uids (int c) (int (k * c)))) [0..<m]) = take (m * c) (rev uids)"
    unfolding rev_window [OF assms(1)] .
  then show ?thesis using assms(2) by simp
qed

theorem pages_cover_witness:
  "concat (map (\<lambda>k. rev (window [1, 2, 3, 4, 5 :: nat] (int 2) (int (k * 2)))) [0..<3]) = [5, 4, 3, 2, 1]"
proof -
  have "0 < (2 :: nat)" "length [1, 2, 3, 4, 5 :: nat] \<le> 3 * 2" by simp_all
  from pages_cover [OF this] show ?thesis by simp
qed

text \<open>
  The window by recency stays within the mailbox on every 32-bit count: it ends at the newest message, starts at 1 or
  later, and holds as many messages as were asked for, or all of them when there are fewer.
\<close>

theorem recencySet_bounds:
  assumes "0 < cnt" "0 < n"
  shows "\<exists>s. recencySet n (clampCount cnt n) = SeqRange s n \<and> 1 \<le> s \<and> s \<le> n
    \<and> int (unat n - unat s + 1) = min cnt (min (uint n) 2147483647)"
proof -
  define k where "k = min cnt (min (uint n) 2147483647)"
  have kc: "(if clampCount cnt n > 2147483647 then 2147483647 else clampCount cnt n) = k"
    by (auto simp: k_def clampCount_def)
  have u: "0 < uint n" using assms(2) by (simp add: word_less_def)
  then have k: "0 < k" "k \<le> uint n" "k < 2 ^ 32" using assms(1) by (auto simp: k_def)
  then have w: "uint (word_of_int k :: 32 word) = k" by (simp add: uint_word_of_int_eq take_bit_int_eq_self)
  define s where "s = (if n > word_of_int k then n - word_of_int k + 1 else 1)"
  have r: "recencySet n (clampCount cnt n) = SeqRange s n"
    unfolding recencySet_def Let_def kc s_def ..
  have lt: "n > word_of_int k \<longleftrightarrow> k < uint n" by (simp add: word_less_def w)
  have us: "uint s = uint n - k + 1"
  proof (cases "k < uint n")
    case True
    have "uint (n - word_of_int k) = uint n - k" using True by (subst uint_sub_if') (simp add: w)
    moreover have "uint n - k + 1 < 2 ^ 32" using k(1) uint_lt2p [of n] by simp
    ultimately have "uint (n - word_of_int k + 1) = uint n - k + 1"
      by (subst uint_add_lem [THEN iffD1]) simp_all
    then show ?thesis using True lt by (simp add: s_def)
  next
    case False
    then have "k = uint n" using k(2) by simp
    then show ?thesis using False lt by (simp add: s_def)
  qed
  have "1 \<le> s" "s \<le> n" using us k(1,2) by (simp_all add: word_le_def)
  moreover have "int (unat n - unat s + 1) = k"
  proof -
    have "uint s \<le> uint n" using us k(1) by simp
    then have "unat s \<le> unat n" unfolding word_le_nat_alt [symmetric] word_le_def .
    then have "int (unat n - unat s + 1) = int (unat n) - int (unat s) + 1" by (simp add: of_nat_diff)
    moreover have "int (unat x) = uint x" for x :: "32 word" by simp
    ultimately show ?thesis using us by simp
  qed
  ultimately show ?thesis using r unfolding k_def by blast
qed

theorem recencySet_bounds_witness:
  "\<exists>s. recencySet 5 (clampCount 3 5) = SeqRange s 5 \<and> int (unat (5 :: 32 word) - unat s + 1) = 3"
proof -
  have "0 < (3 :: int)" "0 < (5 :: 32 word)" by simp_all
  then obtain s where s: "recencySet 5 (clampCount 3 5) = SeqRange s 5"
    "int (unat (5 :: 32 word) - unat s + 1) = min 3 (min (uint (5 :: 32 word)) 2147483647)"
    using recencySet_bounds by blast
  have "min 3 (min (uint (5 :: 32 word)) 2147483647) = 3" by simp
  with s show ?thesis by (simp only:) blast
qed

lemma DedupUIDs_set: "set (dedup us seen) = set us - seen"
  by (induction us seen rule: dedup.induct) auto

lemma DedupUIDs_distinct: "distinct (dedup us seen)"
  by (induction us seen rule: dedup.induct) (auto simp: DedupUIDs_set)

subsection \<open>Reading changes nothing\<close>

definition harmless :: "imap_command \<Rightarrow> bool" where
  "harmless c = (case c of Select f readOnly \<Rightarrow> readOnly | FetchSummaries s peek \<Rightarrow> peek | FetchFull u peek \<Rightarrow> peek
     | FetchBody u peek \<Rightarrow> peek | Move us d \<Rightarrow> False | StoreSeen us b \<Rightarrow> False | _ \<Rightarrow> True)"

definition reads :: "'a imap \<Rightarrow> bool" where
  "reads m \<longleftrightarrow> (\<forall>tr. \<exists>cs. snd (m tr) = tr @ cs \<and> list_all harmless cs)"

named_theorems reads_intros

lemma readsD: "reads m \<Longrightarrow> m tr = (r, tr') \<Longrightarrow> \<exists>cs. tr' = tr @ cs \<and> list_all harmless cs"
  unfolding reads_def by (metis snd_conv)

lemma reads_give [reads_intros]: "reads (give x)" "reads (fail e)"
  by (simp_all add: reads_def give_def fail_def)

lemma reads_issue [reads_intros]: "harmless c \<Longrightarrow> reads (issue c answer mk)"
  by (auto simp: reads_def issue_def Let_def split: sum.splits)

lemma reads_next [reads_intros]:
  assumes "reads m" "\<And>x. reads (f x)"
  shows "reads (next_do m f)"
  unfolding reads_def
proof
  fix tr
  obtain r tr1 where m: "m tr = (r, tr1)" by force
  obtain cs where cs: "tr1 = tr @ cs" "list_all harmless cs" using readsD [OF assms(1) m] by blast
  show "\<exists>cs. snd (next_do m f tr) = tr @ cs \<and> list_all harmless cs"
  proof (cases r)
    case (Inr x)
    obtain r2 tr2 where f: "f x tr1 = (r2, tr2)" by force
    obtain ds where "tr2 = tr1 @ ds" "list_all harmless ds" using readsD [OF assms(2) f] by blast
    then show ?thesis using m f Inr cs by (intro exI [of _ "cs @ ds"]) (simp add: next_do_def)
  qed (use m cs in \<open>simp add: next_do_def\<close>)
qed

lemma harmless_reading [simp]:
  "harmless (Select f True)" "harmless (FetchSummaries s True)" "harmless (FetchFull u True)" "harmless (FetchBody u True)"
  "harmless (Search c)" "harmless (Status f)" "harmless ListFolders"
  by (simp_all add: harmless_def)

lemma reads_listSet [reads_intros]: "reads (listSet srv n q cnt offset)"
  by (auto simp: reads_def listSet_def searchFallback_def Let_def split: sum.splits)

lemma reads_first [reads_intros]: "reads (first_fetched uid ms)"
  by (auto simp: first_fetched_def reads_intros split: list.splits option.splits)

lemma reads_fetchSummaries [reads_intros]: "reads (fetchSummaries srv ulow s)"
  unfolding fetchSummaries_def by (intro reads_intros) simp

lemma reads_SearchMessages: "reads (SearchMessages srv ulow folder q cnt offset)"
  unfolding SearchMessages_def
  by (auto intro!: reads_intros split: option.splits)

lemma reads_Status [reads_intros]: "reads (StatusUnseen srv folder)"
  unfolding StatusUnseen_def by (intro reads_intros) simp

lemma reads_UnreadCount: "reads (UnreadCount srv folder slug)"
proof (cases "slug = []")
  case False
  define s where "s = Search (search_all (repoSearchCriteria slug True))"
  have "reads (\<lambda>tr. let tr' = tr @ [s] in case is_search srv tr' of Inl e \<Rightarrow> StatusUnseen srv folder tr'
      | Inr uids \<Rightarrow> (Inr (of_nat (min (length uids) 2147483647)), tr'))"
    unfolding reads_def
  proof
    fix tr
    obtain cs where "snd (StatusUnseen srv folder (tr @ [s])) = (tr @ [s]) @ cs" "list_all harmless cs"
      using reads_Status unfolding reads_def by blast
    moreover have "harmless s" by (simp add: s_def)
    ultimately show "\<exists>cs. snd (let tr' = tr @ [s] in case is_search srv tr' of Inl e \<Rightarrow> StatusUnseen srv folder tr'
      | Inr uids \<Rightarrow> (Inr (of_nat (min (length uids) 2147483647)), tr')) = tr @ cs \<and> list_all harmless cs"
      by (cases "is_search srv (tr @ [s])") (auto simp: Let_def)
  qed
  then show ?thesis using False unfolding UnreadCount_def s_def by (auto intro!: reads_intros)
qed (simp add: UnreadCount_def reads_Status)

lemma reads_FetchRaw [reads_intros]: "reads (FetchRaw srv folder uid)"
  unfolding FetchRaw_def by (auto intro!: reads_intros)

lemma reads_Folders [reads_intros]: "reads (Folders srv)"
  unfolding Folders_def by (intro reads_intros) simp

lemma reads_FetchMessage [reads_intros]: "reads (FetchMessage srv io folder uid)"
  unfolding FetchMessage_def by (auto intro!: reads_intros)

lemma reads_FetchThread [reads_intros]: "reads (FetchThread srv lib parse date folder uid)"
  unfolding FetchThread_def by (auto intro!: reads_intros split: option.splits)

declare reads_SearchMessages [reads_intros] reads_UnreadCount [reads_intros]

subsection \<open>A search for unread mail fails closed\<close>

text \<open>A set of messages that answers a search which excluded read ones.\<close>

definition unread_page :: "imap_server \<Rightarrow> imap_trace \<Rightarrow> num_set \<Rightarrow> bool" where
  "unread_page srv tr s \<longleftrightarrow> (\<exists>pre crit post uids page. tr = pre @ Search crit # post \<and> FlagSeen \<in> set (cr_NotFlag crit)
     \<and> is_search srv (pre @ [Search crit]) = Inr uids \<and> s = UidSet page \<and> set page \<subseteq> set uids)"

lemma searchCriteria_unread:
  assumes "sq_UnreadOnly q"
  shows "searchCriteria q \<noteq> None" "FlagSeen \<in> set (cr_NotFlag (search_all (searchCriteria q)))"
  using assms by (simp_all add: searchCriteria_def empty_query_def search_all_def)

lemma window_subset: "set (window uids cnt offset) \<subseteq> set uids"
  by (auto simp: window_def Let_def dest: in_set_takeD in_set_dropD)

lemma page_of_subset: "fst (page_of uids cnt offset) = Some s \<Longrightarrow> \<exists>page. s = UidSet page \<and> set page \<subseteq> set uids"
  using window_subset [of uids cnt offset] by (auto simp: page_of_def selectUIDs_def Let_def split: if_splits)

lemma unread_pageI:
  assumes "is_search srv (tr @ [Search crit]) = Inr uids" "FlagSeen \<in> set (cr_NotFlag crit)" "fst (page_of uids cnt offset) = Some s"
  shows "unread_page srv (tr @ [Search crit]) s"
proof -
  obtain page where "s = UidSet page" "set page \<subseteq> set uids" using page_of_subset [OF assms(3)] by blast
  then show ?thesis unfolding unread_page_def using assms(1,2)
    by (intro exI [of _ tr] exI [of _ crit] exI [of _ "[]"] exI [of _ uids] exI [of _ page]) simp
qed

lemma listSet_unread:
  assumes "listSet srv n q cnt offset tr = (Inr (Some s, tot, d), tr')" "sq_UnreadOnly q"
  shows "unread_page srv tr' s"
proof -
  let ?c = "search_all (searchCriteria q)" and ?w = "q\<lparr>sq_RepoSlug := []\<rparr>"
  note c = searchCriteria_unread [OF assms(2)]
  have w: "FlagSeen \<in> set (cr_NotFlag (search_all (searchCriteria ?w)))" using searchCriteria_unread(2) [of ?w] assms(2) by simp
  show ?thesis
  proof (cases "is_search srv (tr @ [Search ?c])")
    case (Inr uids)
    then have r: "page_of uids cnt offset = (Some s, tot, d)" "tr' = tr @ [Search ?c]"
      using assms(1) c(1) by (auto simp: listSet_def Let_def)
    show ?thesis unfolding r(2) by (rule unread_pageI [OF Inr c(2), of cnt offset]) (simp add: r(1))
  next
    case (Inl e)
    then have f: "searchFallback srv n q cnt offset e (tr @ [Search ?c]) = (Inr (Some s, tot, d), tr')"
      using assms(1) c(1) by (simp add: listSet_def Let_def)
    let ?t = "tr @ [Search ?c]"
    obtain uids where u: "is_search srv (?t @ [Search (search_all (searchCriteria ?w))]) = Inr uids"
      "page_of uids cnt offset = (Some s, tot, d)" "tr' = ?t @ [Search (search_all (searchCriteria ?w))]"
      using f assms(2) by (auto simp: searchFallback_def Let_def split: if_splits sum.splits)
    show ?thesis unfolding u(3) by (rule unread_pageI [OF u(1) w, of cnt offset]) (simp add: u(2))
  qed
qed

lemma fetch_added:
  assumes "reads m" "m tr = (r, tr')" "FetchSummaries s p \<notin> set tr" "FetchSummaries s p \<in> set tr'"
  shows "\<exists>cs. tr' = tr @ cs \<and> FetchSummaries s p \<in> set cs"
  using readsD [OF assms(1,2)] assms(3,4) by auto

lemma listSet_no_fetch: "listSet srv n q cnt offset tr = (r, tr') \<Longrightarrow> \<exists>cs. tr' = tr @ cs \<and> (\<forall>c \<in> set cs. \<exists>k. c = Search k)"
  by (auto simp: listSet_def searchFallback_def Let_def split: if_splits sum.splits)

lemma unread_page_mono: "unread_page srv tr s \<Longrightarrow> unread_page srv (tr @ post) s"
  unfolding unread_page_def by (metis append.assoc append_Cons)

text \<open>
  A search for unread mail fails closed: whatever the server answers, a listing asked for unread messages only fetches
  messages named in the answer to a search that excluded the read ones. No error widens it to the recent mail.
\<close>

theorem unread_search_fails_closed:
  assumes "SearchMessages srv ulow folder q cnt offset [] = (r, tr)" "sq_UnreadOnly q" "FetchSummaries s p \<in> set tr"
  shows "unread_page srv tr s"
proof -
  have off: "\<not> offset < 0"
    using assms(1,3) by (auto simp: SearchMessages_def fail_def)
  let ?sel = "[Select folder True]"
  obtain n where n: "is_select srv ?sel = Inr n" "\<not> (n = 0 \<or> cnt \<le> 0)"
    using assms(1,3) off by (auto simp: SearchMessages_def next_do_def issue_def give_def Let_def split: sum.splits if_splits)
  obtain lr tr1 where l: "listSet srv n q cnt offset ?sel = (lr, tr1)" by force
  obtain cs where cs: "tr1 = ?sel @ cs" "\<forall>c \<in> set cs. \<exists>k. c = Search k" using listSet_no_fetch [OF l] by blast
  have nf: "FetchSummaries s p \<notin> set tr1" using cs by auto
  obtain s' tot d where lr: "lr = Inr (Some s', tot, d)"
    using assms(1,3) off n l nf
    by (auto simp: SearchMessages_def next_do_def issue_def give_def Let_def split: sum.splits if_splits option.splits prod.splits)
  have "(r, tr) = next_do (fetchSummaries srv ulow s') (\<lambda>ms.
      give \<lparr>lr_Messages = ms, lr_Total = tot, lr_Degraded = (d \<noteq> []), lr_DegradedReason = d\<rparr>) tr1"
    using assms(1) off n l lr by (simp add: SearchMessages_def next_do_def issue_def Let_def)
  then have tr: "tr = tr1 @ [FetchSummaries s' True]"
    by (auto simp: next_do_def fetchSummaries_def issue_def give_def Let_def split: sum.splits)
  then have "s = s'" using nf assms(3) by auto
  then show ?thesis using unread_page_mono [OF listSet_unread [OF l [unfolded lr] assms(2)]] tr by simp
qed

definition sample_server :: imap_server where
  "sample_server = \<lparr>is_status = (\<lambda>_. Inr (Some 2)), is_select = (\<lambda>_. Inr 9),
     is_search = (\<lambda>tr. if length tr = 2 then Inl ''no'' else Inr [4, 7]), is_fetch = (\<lambda>_. Inr []),
     is_list = (\<lambda>_. Inr []), is_move = (\<lambda>_. Inr None), is_store = (\<lambda>_. Inr [])\<rparr>"

theorem unread_search_fails_closed_witness:
  "unread_page sample_server (snd (SearchMessages sample_server (\<lambda>r. r) ''INBOX'' (scope_query ''a/b'' True) 10 0 [])) (UidSet [4, 7])"
proof -
  let ?run = "SearchMessages sample_server (\<lambda>r. r) ''INBOX'' (scope_query ''a/b'' True) 10 0 []"
  have r: "?run = (fst ?run, snd ?run)" by (rule prod.collapse [symmetric])
  have u: "sq_UnreadOnly (scope_query ''a/b'' True)" by (simp add: scope_query_def)
  have f: "FetchSummaries (UidSet [4, 7]) True \<in> set (snd ?run)"
    by (simp add: SearchMessages_def next_do_def issue_def sample_server_def listSet_def searchFallback_def scope_query_def
        searchCriteria_def empty_query_def page_of_def selectUIDs_def window_def fetchSummaries_def give_def Let_def)
  show ?thesis by (rule unread_search_fails_closed [OF r u f])
qed

text \<open>A repository scope that cannot be searched counts all the unread mail rather than none of it.\<close>

lemma UnreadCount_never_hides:
  assumes "is_select srv (tr @ [Select folder True]) = Inr n"
    "is_search srv (tr @ [Select folder True, Search (search_all (repoSearchCriteria slug True))]) = Inl e" "slug \<noteq> []"
  shows "UnreadCount srv folder slug tr
    = StatusUnseen srv folder (tr @ [Select folder True, Search (search_all (repoSearchCriteria slug True))])"
  using assms by (simp add: UnreadCount_def next_do_def issue_def Let_def)

subsection \<open>Trust headers inside an encrypted message\<close>

text \<open>
  The trust of a fetched message is classified from the headers of its plaintext: whoever can encrypt to the reader writes
  those headers, and so writes the level Proton's own headers stand for.
\<close>

lemma encrypted_headers_decide_trust:
  assumes "IsEncrypted (ro_protocol io) raw" "ro_signer io \<noteq> []" "GPGPassphrase (ro_secrets io) = Inr pp"
    and "ro_decrypt io pp raw = Some inner" "ml_read (ro_lib io) inner = Some (h, b)"
    and "ToLower (ro_ulow io) (h ''X-Pm-Content-Encryption'') = ''end-to-end'' \<and> h ''X-Pm-Content-Encryption'' \<noteq> []"
    and "ToLower (ro_ulow io) (h ''X-Pm-Origin'') = ''internal'' \<and> h ''X-Pm-Origin'' \<noteq> []"
  shows "me_TrustLevel (parseMessage io m env raw) = Trusted"
proof -
  have p: "plaintext_of io raw = inner" using assms(1-4) by (simp add: plaintext_of_def)
  have hs: "snd (snd (ParseMIME (ro_lib io) inner)) = select_headers h"
    using assms(5) by (auto simp: ParseMIME_def Let_def split: sum.splits entity.splits)
  have "''X-Pm-Content-Encryption'' \<in> set selected_headers" "''X-Pm-Origin'' \<in> set selected_headers" by code_simp+
  then have k: "header (select_headers h) ''X-Pm-Content-Encryption'' = h ''X-Pm-Content-Encryption''"
    "header (select_headers h) ''X-Pm-Origin'' = h ''X-Pm-Origin''"
    using assms(6,7) by (simp_all only: header_def select_headers_def simp_thms if_True option.case)
  have "ClassifyTrust (ro_ulow io) (ml_media (ro_lib io)) (select_headers h) inner = Trusted"
    unfolding ClassifyTrust_def ClassifyTrustDetailed_def Let_def k using assms(6,7) by simp
  then show ?thesis by (simp only: parseMessage_def Let_def p hs Message.simps)
qed

end
