(* ===== verification/Tables.thy ===== *)
theory Tables
  imports Mailbox Poller
begin

section \<open>Tables and tool texts (internal/mcp/table.go, format.go)\<close>

text \<open>
  The columns and rows of the tables, cut and padded by runes, and the texts the tools answer with, byte for byte. The
  formatting of times is a parameter. Rows are proved exactly as wide as the layout allots; a sender's display name can
  still break one (\<open>sender_name_breaks_rows\<close>).
\<close>

subsection \<open>Counting runes\<close>

text \<open>A byte that does not continue an encoding starts a new rune, whatever stands before it.\<close>

definition starts_rune :: "string \<Rightarrow> bool" where
  "starts_rune t \<longleftrightarrow> (case t of [] \<Rightarrow> True | c # _ \<Rightarrow> byte c < 0x80 \<or> 0xBF < byte c)"

lemma decode_append:
  assumes "s \<noteq> []" "starts_rune t"
  shows "decode_rune (bytes (s @ t)) = decode_rune (bytes s)"
proof -
  obtain c cs where s: "s = c # cs" using assms(1) by (cases s) auto
  have n: "\<not> cont lo hi (byte d)" if "t = d # ds" "0x80 \<le> lo" "hi \<le> 0xBF" for d ds lo hi
    using assms(2) that by (auto simp: starts_rune_def cont_def)
  have d2: "decode2 a (bytes (cs @ t)) = decode2 a (bytes cs)" for a
    using n by (cases cs; cases t) (auto simp: bytes_def)
  have d3: "decode3 a (bytes (cs @ t)) = decode3 a (bytes cs)" for a
  proof (cases cs)
    case Nil
    show ?thesis
    proof (cases t)
      case (Cons d ds)
      then show ?thesis using Nil n [OF Cons] by (cases ds) (auto simp: bytes_def)
    qed (simp add: Nil)
  next
    case cs: (Cons x xs)
    show ?thesis
    proof (cases xs)
      case Nil
      then show ?thesis using cs n by (cases t) (auto simp: bytes_def)
    qed (simp add: cs bytes_def)
  qed
  have d4: "decode4 a (bytes (cs @ t)) = decode4 a (bytes cs)" for a
  proof (cases cs)
    case Nil
    show ?thesis
    proof (cases t)
      case (Cons d ds)
      then show ?thesis using Nil n [OF Cons] by (cases ds; cases "tl ds") (auto simp: bytes_def)
    qed (simp add: Nil)
  next
    case cs: (Cons x xs)
    show ?thesis
    proof (cases xs)
      case Nil
      show ?thesis
      proof (cases t)
        case (Cons d ds)
        then show ?thesis using Nil cs n [OF Cons] by (cases ds) (auto simp: bytes_def)
      qed (simp add: Nil cs)
    next
      case xs: (Cons y ys)
      show ?thesis
      proof (cases ys)
        case Nil
        then show ?thesis using cs xs n by (cases t) (auto simp: bytes_def)
      qed (simp add: cs xs bytes_def)
    qed
  qed
  show ?thesis using d2 d3 d4 by (simp add: s decode_rune.simps bytes_def)
qed

lemma decode_width: "snd (decode_rune (bytes s)) \<le> length s"
proof (cases s)
  case (Cons c cs)
  have "snd (decode2 a (bytes cs)) \<le> Suc (length cs)" for a by (cases "(a, bytes cs)" rule: decode2.cases) (auto simp: bytes_def)
  moreover have "snd (decode3 a (bytes cs)) \<le> Suc (length cs)" for a by (cases "(a, bytes cs)" rule: decode3.cases) (auto simp: bytes_def)
  moreover have "snd (decode4 a (bytes cs)) \<le> Suc (length cs)" for a by (cases "(a, bytes cs)" rule: decode4.cases) (auto simp: bytes_def)
  ultimately show ?thesis by (simp add: Cons decode_rune.simps bytes_def)
qed (simp add: bytes_def decode_rune.simps)

lemma runes_append:
  assumes "starts_rune t"
  shows "runes (s @ t) = runes s @ runes t"
proof (induction s rule: rune_induct)
  case (Cons s)
  have d: "decode_rune (bytes (s @ t)) = decode_rune (bytes s)" by (rule decode_append [OF Cons(1) assms])
  then have w: "rune_width (s @ t) = rune_width s" by (simp add: rune_width_def)
  have "rune_width s \<le> length s" using decode_width [of s] Cons(1) by (cases s) (auto simp: rune_width_def)
  then have "drop (rune_width s) (s @ t) = drop (rune_width s) s @ t" by simp
  then show ?case using Cons d w by (simp add: runes_def rune_chunks_Cons)
qed (simp add: runes_def)

lemma RuneCount_append: "starts_rune t \<Longrightarrow> RuneCount (s @ t) = RuneCount s + RuneCount t"
  by (simp add: RuneCount_runes runes_append)

lemma RuneCount_ascii_Cons: "byte c < 0x80 \<Longrightarrow> RuneCount (c # s) = Suc (RuneCount s)"
  using rune_chunks_encode [of "byte c" s] by (simp add: RuneCount_def encode_rune_def of_bytes_def scalar_def cont_def)

lemma RuneCount_Nil [simp]: "RuneCount [] = 0" by (simp add: RuneCount_def)

lemma RuneCount_spaces: "RuneCount (s @ replicate n (CHR '' '')) = RuneCount s + n"
proof -
  have "RuneCount (replicate n (CHR '' '')) = n" by (induction n) (simp_all add: RuneCount_ascii_Cons byte_def)
  moreover have "starts_rune (replicate n (CHR '' ''))" by (cases n) (simp_all add: starts_rune_def byte_def)
  ultimately show ?thesis by (simp add: RuneCount_append)
qed

lemma starts_encode: "scalar r \<Longrightarrow> starts_rune (encode_rune r @ s)"
  by (auto simp: starts_rune_def encode_rune_def of_bytes_def byte_def scalar_def cont_def split: if_splits list.splits)

lemma RuneCount_encode: "scalar r \<Longrightarrow> RuneCount (encode_rune r @ s) = Suc (RuneCount s)"
  by (simp add: RuneCount_def rune_chunks_encode)

subsection \<open>Cells\<close>

definition ELLIPSIS :: string where "ELLIPSIS = encode_rune 0x2026"
definition POINTER :: string where "POINTER = encode_rune 0x25B6"
definition BULLET :: string where "BULLET = encode_rune 0x25CF"
definition TICK :: string where "TICK = encode_rune 0x2713"
definition CROSS :: string where "CROSS = encode_rune 0x2717"
definition MIDDOT :: string where "MIDDOT = encode_rune 0xB7"
definition ARROW :: string where "ARROW = encode_rune 0x2192"
definition DASH :: string where "DASH = encode_rune 0x2014"

definition spaces :: "nat \<Rightarrow> string" where "spaces n = replicate n (CHR '' '')"

definition pad :: "string \<Rightarrow> nat \<Rightarrow> string" where
  "pad s w = s @ spaces (w - RuneCount s)"

definition leftPadRunes :: "string \<Rightarrow> nat \<Rightarrow> string" where
  "leftPadRunes s w = spaces (w - RuneCount s) @ s"

definition truncateRunes :: "string \<Rightarrow> int \<Rightarrow> string" where
  "truncateRunes s maxRunes =
     (if maxRunes \<le> 0 then []
      else let rs = runes s in
        if int (length rs) \<le> maxRunes then s else of_runes (take (nat (maxRunes - 1)) rs) @ ELLIPSIS)"

subsection \<open>Tables\<close>

record column =
  cl_header :: string
  cl_minWidth :: nat
  cl_variable :: bool

definition col :: "string \<Rightarrow> nat \<Rightarrow> column" where
  "col h w = \<lparr>cl_header = h, cl_minWidth = w, cl_variable = False\<rparr>"

definition var_col :: "string \<Rightarrow> nat \<Rightarrow> column" where
  "var_col h w = \<lparr>cl_header = h, cl_minWidth = w, cl_variable = True\<rparr>"

definition cell :: "string list \<Rightarrow> nat \<Rightarrow> string" where
  "cell row i = (if i < length row then row ! i else [])"

definition content_width :: "string list list \<Rightarrow> nat \<Rightarrow> column \<Rightarrow> nat" where
  "content_width rows i c =
     fold (\<lambda>row w. max (RuneCount (cell row i)) w) rows (max (cl_minWidth c) (RuneCount (cl_header c)))"

definition content_widths :: "column list \<Rightarrow> string list list \<Rightarrow> nat list" where
  "content_widths cols rows = map (\<lambda>(i, c). content_width rows i c) (enumerate 0 cols)"

fun var_index :: "nat \<Rightarrow> column list \<Rightarrow> nat option" where
  "var_index i [] = None"
| "var_index i (c # cs) = (if cl_variable c then Some i else var_index (Suc i) cs)"

definition fixed_total :: "nat list \<Rightarrow> nat \<Rightarrow> nat" where
  "fixed_total ws v = sum_list (map snd (filter (\<lambda>(i, w). i \<noteq> v) (enumerate 0 ws)))"

text \<open>What is left of the 80 columns, but never less than the variable column's own minimum.\<close>

definition budget :: "nat \<Rightarrow> nat \<Rightarrow> nat list \<Rightarrow> nat \<Rightarrow> nat \<Rightarrow> nat" where
  "budget prefixLen sepTotal ws v minWidth =
     nat (max (int minWidth) (80 - int prefixLen - int (fixed_total ws v) - int sepTotal))"

definition colSep :: string where "colSep = ''  ''"

definition row_text :: "nat option \<Rightarrow> nat list \<Rightarrow> string list \<Rightarrow> string" where
  "row_text v ws row =
     Join (map (\<lambda>(i, w). pad (if v = Some i then truncateRunes (cell row i) (int w) else cell row i) w) (enumerate 0 ws)) colSep"

definition header_text :: "column list \<Rightarrow> nat list \<Rightarrow> string" where
  "header_text cols ws = Join (map (\<lambda>(c, w). pad (cl_header c) w) (zip cols ws)) colSep"

definition formatTable :: "column list \<Rightarrow> string list list \<Rightarrow> string" where
  "formatTable cols rows =
     (if rows = [] then []
      else let ws0 = content_widths cols rows; v = var_index 0 cols;
               ws = (case v of None \<Rightarrow> ws0
                 | Some i \<Rightarrow> ws0[i := min (ws0 ! i) (budget 3 (2 * (length cols - 1)) ws0 i (cl_minWidth (cols ! i)))]) in
        POINTER @ ''  '' @ header_text cols ws @ concat (map (\<lambda>row. NL # ''   '' @ row_text v ws row) rows))"

definition prefixed_widths :: "column list \<Rightarrow> string list list \<Rightarrow> nat \<Rightarrow> nat list" where
  "prefixed_widths cols rows prefixWidth =
     (let ws0 = content_widths cols rows in
      case var_index 0 cols of None \<Rightarrow> ws0
      | Some i \<Rightarrow> ws0[i := budget prefixWidth (2 * length cols) ws0 i (cl_minWidth (cols ! i))])"

text \<open>\<open>None\<close> is the panic on prefixes and rows of different lengths.\<close>

definition formatTableWithPrefixes :: "column list \<Rightarrow> string list list \<Rightarrow> string list \<Rightarrow> nat \<Rightarrow> string option" where
  "formatTableWithPrefixes cols rows pfxs prefixWidth =
     (if rows = [] then Some []
      else if length pfxs \<noteq> length rows then None
      else let ws = prefixed_widths cols rows prefixWidth in
        Some (POINTER @ spaces (prefixWidth - 1) @ colSep @ header_text cols ws
          @ concat (map (\<lambda>(p, row). NL # p @ colSep @ row_text (var_index 0 cols) ws row) (zip pfxs rows))))"

text \<open>\<open>%-*s\<close> counts the key's width in runes, the code its length in bytes.\<close>

definition fmtKV :: "(string \<times> string) list \<Rightarrow> string" where
  "fmtKV pairs =
     (let maxKey = fold (\<lambda>(k, v) w. max (length k + 1) w) pairs 0 in
      Join (map (\<lambda>(k, v). ''   '' @ pad (k @ '':'') maxKey @ ''  '' @ v) pairs) [NL])"

subsection \<open>The message list\<close>

text \<open>Rendering times is a parameter: the day of a message, a full date, and the clock.\<close>

record time_text =
  tt_day :: "int \<Rightarrow> string"
  tt_full :: "int option \<Rightarrow> string"
  tt_clock :: "nat \<Rightarrow> string"

definition fromColWidth :: nat where "fromColWidth = 37"
definition dateColWidth :: nat where "dateColWidth = 6"
definition idMinSlot :: nat where "idMinSlot = 3"

definition splitSender :: "(string \<Rightarrow> (string \<times> string) option) \<Rightarrow> string \<Rightarrow> string \<times> string" where
  "splitSender parse frm =
     (let addr = ExtractEmailAddress parse frm; name = TrimSpace (ExtractDisplayName parse frm) in
      (if name = addr then [] else name, addr))"

definition formatFromCell :: "string \<Rightarrow> string \<Rightarrow> nat \<Rightarrow> string" where
  "formatFromCell name addr maxWidth =
     (if addr = [] \<and> name = [] then []
      else if addr = [] then truncateRunes name (int maxWidth)
      else if name = [] then addr
      else let nameCap = int maxWidth - int (RuneCount addr + 3) in
        if nameCap \<le> 0 then addr else truncateRunes name nameCap @ '' <'' @ addr @ ''>'')"

definition formatDateCell :: "time_text \<Rightarrow> int option \<Rightarrow> string" where
  "formatDateCell tt d = (case d of None \<Rightarrow> spaces dateColWidth | Some t \<Rightarrow> tt_day tt t)"

definition sanitizeSubject :: "string \<Rightarrow> string" where
  "sanitizeSubject s = of_runes (map (\<lambda>r. if r = 10 \<or> r = 13 \<or> r = 9 then 32 else r) (runes s))"

definition trustIcon :: "TrustLevel \<Rightarrow> string" where
  "trustIcon l = (case l of Trusted \<Rightarrow> TICK | Verified \<Rightarrow> ''+'' | Untrusted \<Rightarrow> CROSS | Unverified \<Rightarrow> ''?'')"

definition trust_string :: "TrustLevel \<Rightarrow> string" where
  "trust_string l = (case l of Trusted \<Rightarrow> ''trusted'' | Verified \<Rightarrow> ''verified'' | Untrusted \<Rightarrow> ''untrusted'' | Unverified \<Rightarrow> ''unverified'')"

definition message_row :: "(string \<Rightarrow> (string \<times> string) option) \<Rightarrow> time_text \<Rightarrow> MessageSummary \<Rightarrow> string list" where
  "message_row parse tt m =
     (let (name, addr) = splitSender parse (ms_From m) in
      [if ms_Unread m then BULLET else '' '', formatFromCell name addr fromColWidth, formatDateCell tt (ms_Date m),
       trustIcon (ms_TrustLevel m), sanitizeSubject (ms_Subject m)])"

definition message_columns :: "column list" where
  "message_columns = [col ''R'' 1, col ''FROM'' fromColWidth, col ''DATE'' dateColWidth, col ''T'' 1, var_col ''SUBJECT'' 10]"

definition id_slot :: "MessageSummary list \<Rightarrow> nat" where
  "id_slot msgs = fold (\<lambda>m n. max (RuneCount (ms_ID m)) n) msgs idMinSlot"

definition formatMessages :: "(string \<Rightarrow> (string \<times> string) option) \<Rightarrow> time_text \<Rightarrow> MessageSummary list \<Rightarrow> nat \<Rightarrow> string option" where
  "formatMessages parse tt msgs tot =
     (if msgs = [] then Some ''No messages.''
      else map_option (\<lambda>table. ''showing '' @ Itoa_nat (length msgs) @ '' of '' @ Itoa_nat tot @ '' messages'' @ [NL] @ table)
        (formatTableWithPrefixes message_columns (map (message_row parse tt) msgs)
          (map (\<lambda>m. leftPadRunes (ms_ID m) (id_slot msgs)) msgs) (id_slot msgs)))"

definition formatMessagesResult :: "(string \<Rightarrow> (string \<times> string) option) \<Rightarrow> time_text \<Rightarrow> ListResult \<Rightarrow> string option" where
  "formatMessagesResult parse tt lr =
     map_option (\<lambda>body. if lr_Degraded lr
         then (if lr_DegradedReason lr = [] then ''results degraded'' else lr_DegradedReason lr) @ [NL] @ body else body)
       (if lr_Messages lr = [] then Some (if 0 < lr_Total lr then StatusLine lr else ''No messages.'')
        else formatMessages parse tt (lr_Messages lr) (lr_Total lr))"

subsection \<open>The other results\<close>

definition formatMessage :: "time_text \<Rightarrow> Message \<Rightarrow> string" where
  "formatMessage tt msg =
     (let atts = me_Attachments msg;
          pairs = [(''From'', me_From msg), (''To'', me_To msg), (''Date'', tt_full tt (me_Date msg)),
              (''Subject'', me_Subject msg), (''Trust'', trust_string (me_TrustLevel msg))]
            @ (if me_Encryption msg \<noteq> [] then [(''Crypto'', me_Encryption msg)] else [])
            @ (if atts \<noteq> [] then [(''Attach'', Itoa_nat (length atts) @ '' file(s)'')] else [])
      in fmtKV pairs
        @ concat (map (\<lambda>(i, a). NL # ''   ['' @ Itoa_nat i @ ''] '' @ at_Filename a @ '' ('' @ at_ContentType a @ '', ''
            @ Itoa_nat (at_Size a) @ '' bytes)'') (enumerate 0 atts))
        @ [NL, NL] @ me_Body msg)"

definition formatFolders :: "string list \<Rightarrow> string" where
  "formatFolders folders =
     (if folders = [] then ''No folders.'' else formatTable [var_col ''FOLDER'' 10] (map (\<lambda>f. [f]) folders))"

definition formatSendResult :: "SendResult \<Rightarrow> string" where
  "formatSendResult r =
     ''sent to '' @ sd_To r @ '' via '' @ sd_Method r @ (if sd_Cc r \<noteq> [] then '' cc:'' @ sd_Cc r else [])
     @ (if sd_Encrypted r then '' [encrypted+signed]'' else if sd_Signed r then '' [signed]'' else [])"

definition dotted :: "string \<Rightarrow> string" where "dotted s = '' '' @ MIDDOT @ '' '' @ s"

definition formatVerifyResult :: "VerifyResult \<Rightarrow> string" where
  "formatVerifyResult r =
     (if vf_Valid r
      then ''verified'' @ (if vf_KeyID r \<noteq> [] then dotted (''key '' @ vf_KeyID r) else [])
        @ (if vf_Signer r \<noteq> [] then dotted (vf_Signer r) else [])
      else ''invalid signature'' @ dotted (vf_Output r))"

definition formatMIME :: "MIMEPart list \<Rightarrow> string" where
  "formatMIME parts =
     (if parts = [] then ''No MIME parts.''
      else formatTable [col ''#'' 1, var_col ''TYPE'' 10, col ''FILE'' 4, col ''SIZE'' 4]
        (map (\<lambda>p. [Itoa_nat (pt_Index p), pt_ContentType p, pt_Filename p,
            if 0 < pt_Size p then Itoa_nat (pt_Size p) @ '' B'' else []]) parts))"

definition formatTrustResult :: "TrustResult \<Rightarrow> string" where
  "formatTrustResult r =
     trust_string (tr_Level r) @ (if tr_Encryption r \<noteq> [] then dotted (tr_Encryption r) else [])
     @ (if tr_Reason r \<noteq> [] then NL # tr_Reason r else [])"

definition formatTrustResultWithPerm :: "TrustResult \<Rightarrow> string \<Rightarrow> string" where
  "formatTrustResultWithPerm r perm = formatTrustResult r @ dotted (''perm:'' @ perm)"

definition formatMoveResult :: "string \<Rightarrow> string \<Rightarrow> nat \<Rightarrow> string" where
  "formatMoveResult msgID destination moved =
     (if moved = 0 then ''#'' @ msgID @ '' not found '' @ DASH @ '' not moved''
      else ''moved #'' @ msgID @ '' '' @ ARROW @ '' '' @ destination)"

definition formatBatchMoveResult :: "nat \<Rightarrow> nat \<Rightarrow> string \<Rightarrow> string" where
  "formatBatchMoveResult moved requested destination =
     (if moved < requested
      then ''moved '' @ Itoa_nat moved @ '' of '' @ Itoa_nat requested @ '' messages to '' @ destination
        @ '' ('' @ Itoa_nat (requested - moved) @ '' not found)''
      else ''moved '' @ Itoa_nat moved @ '' messages to '' @ destination)"

definition markStatus :: "bool \<Rightarrow> string" where
  "markStatus seen = (if seen then ''read'' else ''unread'')"

definition formatMarkResult :: "string \<Rightarrow> bool \<Rightarrow> nat \<Rightarrow> string" where
  "formatMarkResult msgID seen modified =
     (if modified = 0 then ''#'' @ msgID @ '' not found '' @ DASH @ '' not marked''
      else ''marked #'' @ msgID @ '' '' @ markStatus seen)"

definition formatBatchMarkResult :: "nat \<Rightarrow> nat \<Rightarrow> bool \<Rightarrow> string" where
  "formatBatchMarkResult modified requested seen =
     (if modified < requested
      then ''marked '' @ Itoa_nat modified @ '' of '' @ Itoa_nat requested @ '' messages '' @ markStatus seen
        @ '' ('' @ Itoa_nat (requested - modified) @ '' not found)''
      else ''marked '' @ Itoa_nat modified @ '' messages '' @ markStatus seen)"

record downloadResult =
  dl_Status :: string
  dl_Path :: string
  dl_Filename :: string
  dl_ContentType :: string
  dl_Size :: nat

definition formatDownloadResult :: "downloadResult \<Rightarrow> string" where
  "formatDownloadResult r =
     dl_Status r @ '': '' @ dl_Filename r @ '' ('' @ Itoa_nat (dl_Size r) @ '' bytes)'' @ [NL] @ dl_Path r"

record contactResult =
  ct_Name :: string
  ct_Email :: string
  ct_Aliases :: "string list"
  ct_GPGKeyID :: string
  ct_Notes :: string
  ct_Permissions :: string

definition contactToResult :: "Contact \<Rightarrow> contactResult" where
  "contactToResult c =
     \<lparr>ct_Name = co_Name c, ct_Email = co_Email c, ct_Aliases = co_Aliases c, ct_GPGKeyID = co_GPGKeyID c,
      ct_Notes = co_Notes c, ct_Permissions = []\<rparr>"

definition contactToResultWithPerms :: "(nat \<Rightarrow> nat) \<Rightarrow> Contact \<Rightarrow> string \<Rightarrow> contactResult" where
  "contactToResultWithPerms ulow c identityEmail =
     (contactToResult c)\<lparr>ct_Permissions := perm_String (CheckPermission ulow c identityEmail)\<rparr>"

definition contactsToResultsWithPerms :: "(nat \<Rightarrow> nat) \<Rightarrow> Contact list \<Rightarrow> string \<Rightarrow> contactResult list" where
  "contactsToResultsWithPerms ulow cs identityEmail = map (\<lambda>c. contactToResultWithPerms ulow c identityEmail) cs"

definition formatContacts :: "contactResult list \<Rightarrow> string" where
  "formatContacts cs =
     (if cs = [] then ''No contacts.''
      else formatTable [col ''NAME'' 6, var_col ''EMAIL'' 10, col ''PERM'' 3, col ''ALIASES'' 4]
        (map (\<lambda>c. [ct_Name c, ct_Email c, ct_Permissions c, Join (ct_Aliases c) '', '']) cs))"

definition formatContactAdded :: "contactResult \<Rightarrow> string" where
  "formatContactAdded c = ''added '' @ ct_Name c @ '' <'' @ ct_Email c @ ''>''"

definition formatContactRemoved :: "string \<Rightarrow> string" where
  "formatContactRemoved name = ''removed '' @ name"

definition formatPollStatus :: "time_text \<Rightarrow> poll_status \<Rightarrow> string" where
  "formatPollStatus tt st =
     fmtKV ([(''Interval'', if st_interval st = [] \<or> st_interval st = ''n'' then ''disabled'' else st_interval st),
        (''Active'', if st_active st then ''yes'' else ''no''), (''Unseen'', Itoa (uint (st_unseen st)))]
      @ (case st_lastCheck st of None \<Rightarrow> [] | Some t \<Rightarrow> [(''Last check'', tt_clock tt t)])
      @ (if 0 < uint (st_fails st) then [(''Failures'', Itoa (uint (st_fails st)))] else [])
      @ (if st_error st \<noteq> [] then [(''Last error'', st_error st)] else []))"

subsection \<open>Widths\<close>

lemma pad_count [simp]: "RuneCount (pad s w) = max (RuneCount s) w"
  by (simp add: pad_def spaces_def RuneCount_spaces)

lemma spaces_count [simp]: "RuneCount (spaces n) = n"
  using RuneCount_spaces [of "[]" n] by (simp add: spaces_def)

lemma starts_spaces [simp]: "starts_rune (spaces n @ s) \<longleftrightarrow> 0 < n \<or> starts_rune s"
  by (cases n) (simp_all add: starts_rune_def spaces_def byte_def)

lemma scalars [simp]: "scalar 0x2026" "scalar 0x25B6" "scalar 0x25CF" "scalar 0x2713" "scalar 0x2717"
  by (simp_all add: scalar_def cont_def)

lemma truncateRunes_count: "0 < m \<Longrightarrow> RuneCount (truncateRunes s m) = min (RuneCount s) (nat m)"
proof -
  assume m: "0 < m"
  show ?thesis
  proof (cases "int (length (runes s)) \<le> m")
    case False
    have "list_all scalar (take (nat (m - 1)) (runes s) @ [0x2026])"
      using runes_scalar [of s] by (auto simp: list_all_iff dest: in_set_takeD)
    then have "runes (of_runes (take (nat (m - 1)) (runes s) @ [0x2026])) = take (nat (m - 1)) (runes s) @ [0x2026]"
      by (rule runes_of_runes)
    moreover have "of_runes (take (nat (m - 1)) (runes s)) @ ELLIPSIS = of_runes (take (nat (m - 1)) (runes s) @ [0x2026])"
      by (simp add: of_runes_def ELLIPSIS_def)
    ultimately have "RuneCount (truncateRunes s m) = length (take (nat (m - 1)) (runes s) @ [0x2026 :: nat])"
      using m False by (simp add: truncateRunes_def Let_def RuneCount_runes)
    then show ?thesis using m False by (simp add: RuneCount_runes)
  qed (use m in \<open>simp add: truncateRunes_def RuneCount_runes Let_def\<close>)
qed

text \<open>The sender's cell is too wide only when the address alone is.\<close>

lemma formatFromCell_count:
  assumes "RuneCount addr \<le> w" "0 < w"
  shows "RuneCount (formatFromCell name addr w) \<le> w"
proof -
  define k where "k = int w - int (RuneCount addr + 3)"
  have s: "starts_rune ('' <'' @ addr @ ''>'')" by (simp add: starts_rune_def byte_def)
  have e: "starts_rune ''>''" by (simp add: starts_rune_def byte_def)
  have "RuneCount ('' <'' @ addr @ ''>'') = RuneCount addr + 3"
    by (simp add: RuneCount_ascii_Cons RuneCount_append [OF e] byte_def)
  then have t: "RuneCount (truncateRunes name k @ '' <'' @ addr @ ''>'') \<le> w" if "0 < k"
    using truncateRunes_count [OF that, of name] that unfolding RuneCount_append [OF s] k_def by simp
  have m: "RuneCount (truncateRunes name (int w)) \<le> w" using truncateRunes_count [of "int w" name] assms(2) by simp
  consider "addr = []" "name = []" | "addr = []" "name \<noteq> []" | "addr \<noteq> []" "name = []"
    | "addr \<noteq> []" "name \<noteq> []" "k \<le> 0" | "addr \<noteq> []" "name \<noteq> []" "0 < k" by linarith
  then show ?thesis
  proof cases
    case 5
    then have "formatFromCell name addr w = truncateRunes name k @ '' <'' @ addr @ ''>''"
      unfolding formatFromCell_def k_def [symmetric] Let_def by simp
    then show ?thesis using t [OF 5(3)] by simp
  next
    case 4
    then have "formatFromCell name addr w = addr" by (simp add: formatFromCell_def k_def Let_def)
    then show ?thesis using assms(1) by simp
  qed (use m assms(1) in \<open>simp_all add: formatFromCell_def\<close>)
qed

text \<open>Cells that fit their columns, joined.\<close>

lemma pads_count:
  assumes "list_all (\<lambda>(s, w). RuneCount s \<le> w) cs" "cs \<noteq> []"
  shows "RuneCount (Join (map (\<lambda>(s, w). pad s w) cs) colSep) = sum_list (map snd cs) + 2 * (length cs - 1)"
  using assms
proof (induction cs)
  case (Cons c cs)
  obtain s w where c: "c = (s, w)" by (cases c)
  show ?case
  proof (cases "cs = []")
    case False
    let ?j = "Join (map (\<lambda>(s, w). pad s w) cs) colSep"
    have "Join (map (\<lambda>(s, w). pad s w) (c # cs)) colSep = pad s w @ colSep @ ?j"
      using False by (cases cs) (simp_all add: c)
    moreover have "RuneCount (pad s w @ colSep @ ?j) = RuneCount (pad s w) + (2 + RuneCount ?j)"
      by (subst RuneCount_append) (simp_all add: starts_rune_def colSep_def byte_def RuneCount_ascii_Cons)
    ultimately show ?thesis using Cons False by (cases cs) (simp_all add: c)
  qed (use Cons.prems in \<open>simp add: c\<close>)
qed simp

lemma row_text_count:
  assumes "list_all (\<lambda>(i, w). RuneCount (if v = Some i then truncateRunes (cell row i) (int w) else cell row i) \<le> w) (enumerate 0 ws)"
    "ws \<noteq> []"
  shows "RuneCount (row_text v ws row) = sum_list ws + 2 * (length ws - 1)"
proof -
  let ?f = "\<lambda>(i, w). (if v = Some i then truncateRunes (cell row i) (int w) else cell row i, w)"
  let ?cs = "map ?f (enumerate 0 ws)"
  have r: "row_text v ws row = Join (map (\<lambda>(s, w). pad s w) ?cs) colSep"
    unfolding row_text_def map_map comp_def case_prod_unfold fst_conv snd_conv by (rule refl)
  have f: "list_all (\<lambda>(s, w). RuneCount s \<le> w) ?cs"
    using assms(1) unfolding list.pred_map comp_def case_prod_unfold fst_conv snd_conv .
  have n: "?cs \<noteq> []" using assms(2) by (cases ws) simp_all
  have m: "map snd ?cs = ws" by (simp add: comp_def case_prod_unfold)
  show ?thesis using pads_count [OF f n] unfolding r m length_map length_enumerate .
qed

lemma fold_max:
  "list_all (\<lambda>r. f r \<le> n) rs \<Longrightarrow> fold (\<lambda>r w. max (f r) w) rs (n :: nat) = n"
  by (induction rs) (simp_all add: max_def)

text \<open>A summary whose cells fit their columns; the day is six characters wide.\<close>

definition row_fits :: "(string \<Rightarrow> (string \<times> string) option) \<Rightarrow> time_text \<Rightarrow> MessageSummary \<Rightarrow> bool" where
  "row_fits parse tt m \<longleftrightarrow> RuneCount (snd (splitSender parse (ms_From m))) \<le> 37 \<and> RuneCount (ms_ID m) \<le> 15
     \<and> (case ms_Date m of None \<Rightarrow> True | Some t \<Rightarrow> RuneCount (tt_day tt t) = 6)"

lemma message_row_fits:
  assumes "row_fits parse tt m"
  shows "\<exists>a b c d e. message_row parse tt m = [a, b, c, d, e] \<and> RuneCount a = 1 \<and> RuneCount b \<le> 37 \<and> RuneCount c = 6 \<and> RuneCount d = 1"
proof -
  obtain name addr where s: "splitSender parse (ms_From m) = (name, addr)" by (cases "splitSender parse (ms_From m)")
  have "RuneCount BULLET = 1" "RuneCount TICK = 1" "RuneCount CROSS = 1"
    using RuneCount_encode [of _ "[]"] by (simp_all add: BULLET_def TICK_def CROSS_def)
  moreover from this have "RuneCount (trustIcon t) = 1" for t by (cases t) (simp_all add: trustIcon_def RuneCount_ascii_Cons byte_def)
  moreover have "RuneCount (formatFromCell name addr 37) \<le> 37"
    using assms formatFromCell_count [of addr 37] by (simp add: row_fits_def s)
  moreover have "RuneCount (formatDateCell tt (ms_Date m)) = 6"
    using assms by (auto simp: row_fits_def formatDateCell_def dateColWidth_def split: option.splits)
  ultimately show ?thesis by (simp add: message_row_def s fromColWidth_def RuneCount_ascii_Cons byte_def)
qed

lemma message_widths:
  assumes "list_all (row_fits parse tt) msgs" "i \<le> 15"
  shows "prefixed_widths message_columns (map (message_row parse tt) msgs) i = [1, 37, 6, 1, 25 - i]"
proof -
  let ?rows = "map (message_row parse tt) msgs"
  have f: "list_all (\<lambda>row. RuneCount (cell row 0) \<le> 1 \<and> RuneCount (cell row 1) \<le> 37 \<and> RuneCount (cell row 2) \<le> 6
      \<and> RuneCount (cell row 3) \<le> 1) ?rows"
    using assms(1) message_row_fits [of parse tt] by (fastforce simp: list_all_iff cell_def numeral_eq_Suc)
  have c: "RuneCount ''R'' = 1" "RuneCount ''FROM'' = 4" "RuneCount ''DATE'' = 4" "RuneCount ''T'' = 1" "RuneCount ''SUBJECT'' = 7"
    by (simp_all add: RuneCount_ascii_Cons byte_def)
  have w: "content_width ?rows 0 (col ''R'' 1) = 1" "content_width ?rows 1 (col ''FROM'' fromColWidth) = 37"
    "content_width ?rows 2 (col ''DATE'' dateColWidth) = 6" "content_width ?rows 3 (col ''T'' 1) = 1"
    unfolding content_width_def col_def using f
    by (subst fold_max; simp add: c fromColWidth_def dateColWidth_def list_all_iff)+
  have "content_widths message_columns ?rows = [1, 37, 6, 1, content_width ?rows 4 (var_col ''SUBJECT'' 10)]"
    unfolding content_widths_def message_columns_def using w by (simp add: numeral_eq_Suc)
  moreover have "var_index 0 message_columns = Some 4" by (simp add: message_columns_def col_def var_col_def)
  ultimately show ?thesis using assms(2)
    by (simp add: prefixed_widths_def Let_def budget_def fixed_total_def message_columns_def var_col_def)
qed

definition list_line :: "(string \<Rightarrow> (string \<times> string) option) \<Rightarrow> time_text \<Rightarrow> nat \<Rightarrow> MessageSummary \<Rightarrow> string" where
  "list_line parse tt slot m = leftPadRunes (ms_ID m) slot @ colSep @ row_text (Some 4) [1, 37, 6, 1, 25 - slot] (message_row parse tt m)"

lemma list_line_count:
  assumes "row_fits parse tt m" "RuneCount (ms_ID m) \<le> slot" "slot \<le> 15"
  shows "RuneCount (list_line parse tt slot m) = 80"
proof -
  obtain a b c d e where r: "message_row parse tt m = [a, b, c, d, e]" "RuneCount a = 1" "RuneCount b \<le> 37" "RuneCount c = 6" "RuneCount d = 1"
    using message_row_fits [OF assms(1)] by blast
  have "RuneCount (truncateRunes e (int (25 - slot))) \<le> 25 - slot" using truncateRunes_count [of "int (25 - slot)" e] assms(3) by simp
  then have t: "RuneCount (row_text (Some 4) [1, 37, 6, 1, 25 - slot] [a, b, c, d, e]) = 78 - slot"
    by (subst row_text_count) (use r assms(3) in \<open>simp_all add: cell_def numeral_eq_Suc\<close>)
  have l: "RuneCount (leftPadRunes (ms_ID m) slot) = slot"
  proof -
    have "RuneCount (spaces n @ s) = n + RuneCount s" for n s
      by (induction n) (simp_all add: spaces_def RuneCount_ascii_Cons byte_def)
    then show ?thesis using assms(2) by (simp add: leftPadRunes_def)
  qed
  have "starts_rune (colSep @ row_text (Some 4) [1, 37, 6, 1, 25 - slot] [a, b, c, d, e])" by (simp add: starts_rune_def colSep_def byte_def)
  moreover have "RuneCount (colSep @ row_text (Some 4) [1, 37, 6, 1, 25 - slot] [a, b, c, d, e]) = 80 - slot"
    using t assms(3) by (simp add: colSep_def RuneCount_ascii_Cons byte_def)
  ultimately show ?thesis using l assms(3) by (simp add: list_line_def r(1) RuneCount_append)
qed

lemma id_slot_bounds:
  "list_all (row_fits parse tt) msgs \<Longrightarrow> id_slot msgs \<le> 15 \<and> list_all (\<lambda>m. RuneCount (ms_ID m) \<le> id_slot msgs) msgs"
proof -
  have "n \<le> 15 \<Longrightarrow> list_all (row_fits parse tt) ms \<Longrightarrow> fold (\<lambda>m n. max (RuneCount (ms_ID m)) n) ms n \<le> 15
      \<and> n \<le> fold (\<lambda>m n. max (RuneCount (ms_ID m)) n) ms n
      \<and> list_all (\<lambda>m. RuneCount (ms_ID m) \<le> fold (\<lambda>m n. max (RuneCount (ms_ID m)) n) ms n) ms" for n ms
  proof (induction ms arbitrary: n)
    case (Cons m ms)
    have "max (RuneCount (ms_ID m)) n \<le> 15" using Cons.prems by (simp add: row_fits_def)
    then show ?case using Cons.IH [of "max (RuneCount (ms_ID m)) n"] Cons.prems(2) by simp
  qed simp
  then show "list_all (row_fits parse tt) msgs \<Longrightarrow> id_slot msgs \<le> 15 \<and> list_all (\<lambda>m. RuneCount (ms_ID m) \<le> id_slot msgs) msgs"
    by (simp add: id_slot_def idMinSlot_def)
qed

text \<open>
  The message list never panics and every message line is exactly 80 characters, whatever the subjects, names and the
  bytes in them, unless a sender's address alone is wider than its column.
\<close>

theorem list_rows_exact:
  assumes "list_all (row_fits parse tt) msgs" "msgs \<noteq> []"
  shows "\<exists>head lines. formatMessages parse tt msgs tot = Some (head @ concat (map (Cons NL) lines)) \<and> length lines = length msgs
    \<and> list_all (\<lambda>l. RuneCount l = 80) lines"
proof -
  note slot = id_slot_bounds [OF assms(1)]
  let ?s = "id_slot msgs" and ?rows = "map (message_row parse tt) msgs" and ?ids = "map (\<lambda>m. leftPadRunes (ms_ID m) (id_slot msgs)) msgs"
  let ?lines = "map (list_line parse tt ?s) msgs"
  have w: "prefixed_widths message_columns ?rows ?s = [1, 37, 6, 1, 25 - ?s]" using message_widths [OF assms(1)] slot by blast
  have v: "var_index 0 message_columns = Some 4" by (simp add: message_columns_def col_def var_col_def)
  have "zip (map f xs) (map g xs) = map (\<lambda>x. (f x, g x)) xs" for f :: "MessageSummary \<Rightarrow> string" and g :: "MessageSummary \<Rightarrow> string list" and xs
    by (induction xs) simp_all
  then have z: "zip ?ids ?rows = map (\<lambda>m. (leftPadRunes (ms_ID m) ?s, message_row parse tt m)) msgs" .
  have "map (\<lambda>(p, row). NL # p @ colSep @ row_text (Some 4) [1, 37, 6, 1, 25 - ?s] row) (zip ?ids ?rows) = map (Cons NL) ?lines"
    unfolding z by (simp add: list_line_def)
  then have "\<exists>head. formatMessages parse tt msgs tot = Some (head @ concat (map (Cons NL) ?lines))"
    using assms(2) by (simp add: formatMessages_def formatTableWithPrefixes_def Let_def w v)
  moreover have "list_all (\<lambda>l. RuneCount l = 80) ?lines"
    using assms(1) slot list_line_count [of parse tt _ ?s] by (auto simp: list_all_iff)
  moreover have "length ?lines = length msgs" by simp
  ultimately show ?thesis by blast
qed

definition sample_times :: time_text where
  "sample_times = \<lparr>tt_day = (\<lambda>_. ''Jan 02''), tt_full = (\<lambda>_. ''Mon, 02 Jan 2006 15:04:05 +0000''), tt_clock = (\<lambda>_. ''15:04:05'')\<rparr>"

definition sample_summary :: MessageSummary where
  "sample_summary = \<lparr>ms_ID = ''42'', ms_From = ''Anna <a@b>'', ms_Subject = ''hello'' @ [NL] @ ''you'', ms_TrustLevel = Verified,
     ms_HasSig = True, ms_Date = Some 5, ms_Unread = True\<rparr>"

theorem list_rows_exact_witness:
  "\<exists>head lines. formatMessages (\<lambda>_. None) sample_times [sample_summary] 9 = Some (head @ concat (map (Cons NL) lines))
    \<and> length lines = 1 \<and> list_all (\<lambda>l. RuneCount l = 80) lines"
proof -
  have a: "list_all (row_fits (\<lambda>_. None) sample_times) [sample_summary]" by code_simp
  have "[sample_summary] \<noteq> []" by simp
  from list_rows_exact [OF a this, of 9] show ?thesis by (simp only: list.size) simp
qed

text \<open>
  Subjects are cleaned of line ends so that a sender cannot break the rows; display names are not: one with a line end in
  it puts a line of the sender's making into the table.
\<close>

lemma sender_name_breaks_rows:
  "NL \<in> set (formatFromCell (fst (splitSender (\<lambda>_. None) (''x'' @ [NL] @ '' 7  fake row <a@b>'')))
     (snd (splitSender (\<lambda>_. None) (''x'' @ [NL] @ '' 7  fake row <a@b>''))) fromColWidth)"
proof -
  have "list_ex (\<lambda>c. c = NL) (formatFromCell (fst (splitSender (\<lambda>_. None) (''x'' @ [NL] @ '' 7  fake row <a@b>'')))
     (snd (splitSender (\<lambda>_. None) (''x'' @ [NL] @ '' 7  fake row <a@b>''))) fromColWidth)" by code_simp
  then show ?thesis by (simp only: list_ex_iff) blast
qed

lemma sanitizeSubject_one_line: "NL \<notin> set (sanitizeSubject s)"
proof -
  have "byte NL < 0x80" by (simp add: byte_def)
  from ascii_of_runes [OF this] show ?thesis by (auto simp: sanitizeSubject_def byte_def split: if_splits)
qed

end
