(* ===== verification/ToolArgs.thy ===== *)
theory ToolArgs
  imports Tables MailConfig Transport
begin

section \<open>Tool arguments and permission gates (internal/mcp/tools.go)\<close>

text \<open>
  The readers of a tool call's arguments, message ids, the attachments a caller names, and the gates the handlers share:
  who may be read, who may be written to, and when a message is encrypted.
\<close>

subsection \<open>Arguments\<close>

text \<open>
  An argument as the JSON decoder left it; a finite \<open>float64\<close> is \<open>m / 2^k\<close>. \<open>rq_require\<close> is the library's
  \<open>RequireString\<close>: the string under a key, or nothing.
\<close>

datatype arg = StringArg string | FloatArg int nat | IntArg int | BoolArg bool | ArrayArg "arg list" | OtherArg

record request =
  rq_args :: "string \<rightharpoonup> arg"
  rq_require :: "string \<Rightarrow> string option"

datatype param_error =
    NotArray string
  | NotStringItem string nat
  | NotWhole string
  | OutOfInt32 string
  | NotNumber string

fun string_items :: "string \<Rightarrow> nat \<Rightarrow> arg list \<Rightarrow> (param_error, string list) result" where
  "string_items key i [] = Inr []"
| "string_items key i (StringArg s # as) = and_then (string_items key (Suc i) as) (\<lambda>ss. Inr (s # ss))"
| "string_items key i (_ # as) = Inl (NotStringItem key i)"

definition stringSliceParam :: "request \<Rightarrow> string \<Rightarrow> (param_error, string list option) result" where
  "stringSliceParam rq key =
     (case rq_args rq key of
        None \<Rightarrow> Inr None
      | Some (ArrayArg as) \<Rightarrow> and_then (string_items key 0 as) (\<lambda>ss. Inr (Some ss))
      | Some _ \<Rightarrow> Inl (NotArray key))"

definition stringParam :: "request \<Rightarrow> string \<Rightarrow> string \<Rightarrow> string" where
  "stringParam rq key fallback =
     (case rq_args rq key of Some (StringArg s) \<Rightarrow> if s \<noteq> [] then s else fallback | _ \<Rightarrow> fallback)"

definition intParam :: "request \<Rightarrow> string \<Rightarrow> int \<Rightarrow> (param_error, int) result" where
  "intParam rq key fallback =
     (case rq_args rq key of
        None \<Rightarrow> Inr fallback
      | Some (FloatArg m k) \<Rightarrow>
          if m mod 2 ^ k \<noteq> 0 then Inl (NotWhole key)
          else let n = m div 2 ^ k in
            if n < - 2147483648 \<or> 2147483647 < n then Inl (OutOfInt32 key) else Inr n
      | Some (IntArg n) \<Rightarrow> Inr n
      | Some _ \<Rightarrow> Inl (NotNumber key))"

definition boolParamDefault :: "request \<Rightarrow> string \<Rightarrow> bool \<Rightarrow> bool" where
  "boolParamDefault rq key fallback = (case rq_args rq key of Some (BoolArg b) \<Rightarrow> b | _ \<Rightarrow> fallback)"

definition boolParam :: "request \<Rightarrow> string \<Rightarrow> bool" where
  "boolParam rq key = boolParamDefault rq key False"

definition splitAddresses :: "string \<Rightarrow> string list" where
  "splitAddresses s = (if s = [] then [] else filter (\<lambda>p. p \<noteq> []) (map TrimSpace (Split s (CHR '',''))))"

text \<open>One id of a single-message tool; the ids of a batch, with every invalid one in the error.\<close>

definition parse_uid :: "string \<Rightarrow> 32 word option" where
  "parse_uid s = map_option word_of_int (ParseUint32 s)"

definition invalid_id :: "string \<Rightarrow> bool" where
  "invalid_id s \<longleftrightarrow> ParseUint32 s = None \<or> ParseUint32 s = Some 0"

definition parseUIDs :: "string list \<Rightarrow> (string, 32 word list) result" where
  "parseUIDs ids =
     (let bad = filter invalid_id ids in
      if bad \<noteq> [] then Inl (''invalid message_ids: '' @ Join (map (\<lambda>i. ''#'' @ i @ '': invalid id'') bad) '', '')
      else Inr (DedupUIDs (List.map_filter parse_uid ids)))"

lemma ParseUint32_bounds: "ParseUint32 s = Some n \<Longrightarrow> 0 \<le> n \<and> n < 2 ^ 32"
proof -
  have "list_all is_digit t \<Longrightarrow> 0 \<le> a \<Longrightarrow> 0 \<le> foldl (\<lambda>n c. n * 10 + (int (byte c) - 48)) a t" for t a
    by (induction t arbitrary: a) (auto simp: is_digit_def)
  then have "ParseDigits t = Some m \<Longrightarrow> 0 \<le> m" for t m
    by (auto simp: ParseDigits_def digits_value_def split: if_splits)
  then show "ParseUint32 s = Some n \<Longrightarrow> 0 \<le> n \<and> n < 2 ^ 32"
    by (auto simp: ParseUint32_def split: option.splits if_splits)
qed

lemma set_map_filter: "set (List.map_filter f xs) = {y. \<exists>x \<in> set xs. f x = Some y}"
  by (induction xs) (auto simp: map_filter_simps split: option.splits)

text \<open>A batch names no message twice and never UID 0, which the protocol would read as the last message of the folder.\<close>

lemma parseUIDs_exact:
  assumes "parseUIDs ids = Inr uids"
  shows "distinct uids \<and> 0 \<notin> set uids \<and> set uids = {u. \<exists>i \<in> set ids. parse_uid i = Some u}"
proof -
  have v: "\<not> invalid_id i" if "i \<in> set ids" for i
    using assms that by (auto simp: parseUIDs_def Let_def filter_empty_conv split: if_splits)
  have u: "uids = DedupUIDs (List.map_filter parse_uid ids)" using assms by (simp add: parseUIDs_def Let_def split: if_splits)
  have s: "set uids = {u. \<exists>i \<in> set ids. parse_uid i = Some u}"
    by (simp add: u DedupUIDs_def DedupUIDs_set set_map_filter)
  have "parse_uid i \<noteq> Some 0" if "i \<in> set ids" for i
  proof
    assume "parse_uid i = Some 0"
    then obtain n where n: "ParseUint32 i = Some n" "(word_of_int n :: 32 word) = 0" by (auto simp: parse_uid_def)
    have "n mod 2 ^ 32 = uint (word_of_int n :: 32 word)" by (simp add: uint_word_of_int)
    also have "\<dots> = 0" using n(2) by simp
    finally have "n = 0" using ParseUint32_bounds [OF n(1)] by (simp add: mod_pos_pos_trivial)
    then show False using n v [OF that] by (simp add: invalid_id_def)
  qed
  then show ?thesis using s by (auto simp: u DedupUIDs_def DedupUIDs_distinct)
qed

text \<open>The tools for one message accept the id 0 that the batch tools reject.\<close>

lemma single_id_zero: "parse_uid ''0'' = Some 0" "parseUIDs [''0''] = Inl ''invalid message_ids: #0: invalid id''"
  by code_simp+

subsection \<open>Attachments\<close>

text \<open>What the system answers about a path: the error of opening it, or its size and its bytes or the errors of asking.\<close>

record attach_file =
  af_size :: "(string, int) result"
  af_data :: "(string, string) result"

datatype attach_error =
    AttachParam param_error
  | AttachNotAbsolute string
  | AttachOpen string string
  | AttachStat string string
  | AttachTooLarge string
  | AttachRead string string
  | AttachTotal int

definition maxAttachmentSize :: nat where "maxAttachmentSize = 25 * 1024 * 1024"

definition Ext :: "string \<Rightarrow> string" where
  "Ext p =
     (let b = (case LastIndexByte p SLASH of None \<Rightarrow> p | Some i \<Rightarrow> drop (Suc i) p)
      in case LastIndexByte b (CHR ''.'') of None \<Rightarrow> [] | Some j \<Rightarrow> drop j b)"

definition read_attachment :: "(string \<Rightarrow> (string, attach_file) result) \<Rightarrow> string \<Rightarrow> (attach_error, string) result" where
  "read_attachment op path =
     (let b = Base path in
      if \<not> IsAbs path then Inl (AttachNotAbsolute path)
      else case op (Clean path) of
        Inl e \<Rightarrow> Inl (AttachOpen b e)
      | Inr f \<Rightarrow>
          (case af_size f of
             Inl e \<Rightarrow> Inl (AttachStat b e)
           | Inr n \<Rightarrow>
               if int maxAttachmentSize < n then Inl (AttachTooLarge b)
               else (case af_data f of
                 Inl e \<Rightarrow> Inl (AttachRead b e)
               | Inr all \<Rightarrow>
                   let data = take (maxAttachmentSize + 1) all in
                   if maxAttachmentSize < length data then Inl (AttachTooLarge b) else Inr data)))"

fun read_each ::
    "(string \<Rightarrow> (string, attach_file) result) \<Rightarrow> (string \<Rightarrow> string) \<Rightarrow> nat \<Rightarrow> string list \<Rightarrow> (attach_error, OutboundAttachment list) result" where
  "read_each op types sofar [] = Inr []"
| "read_each op types sofar (path # paths) =
     and_then (read_attachment op path) (\<lambda>data.
       let sofar' = sofar + length data in
       if maxAttachmentSize < sofar' then Inl (AttachTotal (int sofar'))
       else let t = types (Ext path) in
         and_then (read_each op types sofar' paths) (\<lambda>as.
           Inr (\<lparr>oa_Filename = Base path, oa_ContentType = (if t = [] then ''application/octet-stream'' else t), oa_Data = data\<rparr> # as)))"

definition readAttachments ::
    "(string \<Rightarrow> (string, attach_file) result) \<Rightarrow> (string \<Rightarrow> string) \<Rightarrow> request \<Rightarrow> (attach_error, OutboundAttachment list) result" where
  "readAttachments op types rq =
     (case stringSliceParam rq ''attachments'' of
        Inl e \<Rightarrow> Inl (AttachParam e)
      | Inr None \<Rightarrow> Inr []
      | Inr (Some paths) \<Rightarrow> read_each op types 0 paths)"

lemma read_each_total:
  "read_each op types sofar paths = Inr as \<Longrightarrow> sofar \<le> maxAttachmentSize
    \<Longrightarrow> sofar + sum_list (map (length \<circ> oa_Data) as) \<le> maxAttachmentSize"
proof (induction paths arbitrary: sofar as)
  case (Cons path paths)
  obtain data where d: "read_attachment op path = Inr data" "sofar + length data \<le> maxAttachmentSize"
    using Cons.prems(1) by (cases "read_attachment op path") (auto simp: Let_def split: if_splits)
  obtain as' where r: "read_each op types (sofar + length data) paths = Inr as'"
    using Cons.prems(1) d by (cases "read_each op types (sofar + length data) paths") (auto simp: Let_def)
  have "sum_list (map (length \<circ> oa_Data) as) = length data + sum_list (map (length \<circ> oa_Data) as')"
    using Cons.prems(1) d r by (auto simp: Let_def)
  then show ?case using Cons.IH [OF r d(2)] by (simp add: comp_def)
qed simp

text \<open>
  However the files change while they are read and whatever size the system reports, the attachments of a message
  never exceed 25 MB together.
\<close>

theorem attachments_bounded:
  assumes "readAttachments op types rq = Inr as"
  shows "sum_list (map (length \<circ> oa_Data) as) \<le> 26214400"
proof -
  have "sum_list (map (length \<circ> oa_Data) as) \<le> maxAttachmentSize"
    using assms read_each_total [of op types 0 _ as] by (auto simp: readAttachments_def split: sum.splits option.splits)
  then show ?thesis by (simp add: maxAttachmentSize_def)
qed

definition sample_request :: request where
  "sample_request = \<lparr>rq_args = [''attachments'' \<mapsto> ArrayArg [StringArg ''/tmp/a.txt'']], rq_require = (\<lambda>_. None)\<rparr>"

theorem attachments_bounded_witness:
  "\<exists>as. readAttachments (\<lambda>_. Inr \<lparr>af_size = Inr 3, af_data = Inr ''abc''\<rparr>) (\<lambda>_. []) sample_request = Inr as
    \<and> length as = 1 \<and> sum_list (map (length \<circ> oa_Data) as) \<le> 26214400"
proof -
  have "\<exists>as. readAttachments (\<lambda>_. Inr \<lparr>af_size = Inr 3, af_data = Inr ''abc''\<rparr>) (\<lambda>_. []) sample_request = Inr as \<and> length as = 1"
    by (simp add: readAttachments_def stringSliceParam_def sample_request_def read_attachment_def IsAbs_def HasPrefix_def
        maxAttachmentSize_def Let_def and_then_def)
  then obtain as where a: "readAttachments (\<lambda>_. Inr \<lparr>af_size = Inr 3, af_data = Inr ''abc''\<rparr>) (\<lambda>_. []) sample_request = Inr as" "length as = 1"
    by blast
  from attachments_bounded [OF a(1)] a show ?thesis by blast
qed

subsection \<open>The gates\<close>

type_synonym address_parser = "string \<Rightarrow> (string \<times> string) option"

definition senderPermission :: "address_parser \<Rightarrow> (nat \<Rightarrow> nat) \<Rightarrow> Store \<Rightarrow> string \<Rightarrow> string \<Rightarrow> Permission \<times> string" where
  "senderPermission parse ulow store ident frm =
     (let addr = ExtractEmailAddress parse frm in
      if addr = [] then (no_permission, [])
      else case FindByAddress ulow store addr of
        None \<Rightarrow> (no_permission, addr)
      | Some c \<Rightarrow> (CheckPermission ulow c ident, addr))"

definition enforceWritePermission :: "address_parser \<Rightarrow> (nat \<Rightarrow> nat) \<Rightarrow> Store \<Rightarrow> string \<Rightarrow> string list \<Rightarrow> string list" where
  "enforceWritePermission parse ulow store ident recipients =
     concat (map (\<lambda>r.
       let addr = ExtractEmailAddress parse r in
       if addr = [] then [r @ '' (invalid address)'']
       else case FindByAddress ulow store addr of
         None \<Rightarrow> [addr @ '' (unknown contact)'']
       | Some c \<Rightarrow> if \<not> pm_Write (CheckPermission ulow c ident) then [addr @ '' (no write permission)''] else []) recipients)"

definition key_of :: "address_parser \<Rightarrow> (nat \<Rightarrow> nat) \<Rightarrow> Store \<Rightarrow> string \<Rightarrow> string option" where
  "key_of parse ulow store r =
     (case FindByAddress ulow store (ExtractEmailAddress parse r) of
        None \<Rightarrow> None | Some c \<Rightarrow> if co_GPGKeyID c \<noteq> [] then Some (co_GPGKeyID c) else None)"

definition encryptKeysFor :: "address_parser \<Rightarrow> (nat \<Rightarrow> nat) \<Rightarrow> Store \<Rightarrow> string list \<Rightarrow> string list \<times> string" where
  "encryptKeysFor parse ulow store recipients =
     (let rs = filter (\<lambda>r. ExtractEmailAddress parse r \<noteq> []) recipients;
          have_keys = List.map_filter (key_of parse ulow store) rs;
          missing = map (ExtractEmailAddress parse) (filter (\<lambda>r. key_of parse ulow store r = None) rs)
      in if have_keys \<noteq> [] \<and> missing = [] then (have_keys, [])
         else if have_keys \<noteq> []
         then ([], ''encryption skipped: not all recipients have GPG keys (missing: '' @ Join missing '', '' @ '')'')
         else ([], []))"

text \<open>A recipient the operator lets the identity write to; a sender it may read.\<close>

definition writable :: "address_parser \<Rightarrow> (nat \<Rightarrow> nat) \<Rightarrow> Store \<Rightarrow> string \<Rightarrow> string \<Rightarrow> bool" where
  "writable parse ulow store ident r \<longleftrightarrow>
     (\<exists>c. FindByAddress ulow store (ExtractEmailAddress parse r) = Some c \<and> pm_Write (CheckPermission ulow c ident))"

definition readable :: "address_parser \<Rightarrow> (nat \<Rightarrow> nat) \<Rightarrow> Store \<Rightarrow> string \<Rightarrow> string \<Rightarrow> bool" where
  "readable parse ulow store ident r \<longleftrightarrow>
     (\<exists>c. FindByAddress ulow store (ExtractEmailAddress parse r) = Some c \<and> pm_Read (CheckPermission ulow c ident))"

lemma FindByAddress_Nil: "FindByAddress ulow s [] = None"
proof -
  have "TrimSpace [] = []" by code_simp
  then have "ToLower ulow (TrimSpace []) = []" by (simp add: ToLower_def runes_def of_runes_def)
  then show ?thesis by (simp only: FindByAddress_def Let_def simp_thms if_True)
qed

lemma enforce_writable: "enforceWritePermission parse ulow store ident rs = [] \<longleftrightarrow> (\<forall>r \<in> set rs. writable parse ulow store ident r)"
  by (induction rs) (auto simp: enforceWritePermission_def writable_def FindByAddress_Nil Let_def split: option.splits)

lemma senderPermission_readable: "pm_Read (fst (senderPermission parse ulow store ident frm)) \<longleftrightarrow> readable parse ulow store ident frm"
  by (auto simp: senderPermission_def readable_def FindByAddress_Nil no_permission_def Let_def split: option.splits)

text \<open>A message is encrypted to all of its recipients or to none.\<close>

lemma encryptKeysFor_all:
  assumes "encryptKeysFor parse ulow store rs = (keys, warn)" "keys \<noteq> []" "\<forall>r \<in> set rs. writable parse ulow store ident r"
  shows "map Some keys = map (key_of parse ulow store) rs"
proof -
  have f: "filter (\<lambda>r. ExtractEmailAddress parse r \<noteq> []) rs = rs"
    using assms(3) FindByAddress_Nil by (auto simp: filter_id_conv writable_def)
  have k: "keys = List.map_filter (key_of parse ulow store) rs" "filter (\<lambda>r. key_of parse ulow store r = None) rs = []"
    using assms(1,2) by (auto simp: encryptKeysFor_def Let_def f split: if_splits)
  then have "\<forall>r \<in> set rs. key_of parse ulow store r \<noteq> None" by (auto simp: filter_empty_conv)
  then show ?thesis unfolding k(1) by (induction rs) (auto simp: map_filter_def)
qed

end
