(* ===== verification/Tools.thy ===== *)
theory Tools
  imports ToolArgs "HOL-Library.List_Lexorder"
begin

section \<open>The tool handlers (internal/mcp/tools.go)\<close>

text \<open>
  One definition per tool: it resolves the identity, its configuration and its contacts, reads its arguments in the code's
  order, opens a session, and answers with a text or an error. What it did is recorded: the commands sent to the IMAP
  server, the steps taken with the mail server, the requests made of Resend, the files, and the contact store.
\<close>

subsection \<open>The world and the effects\<close>

text \<open>
  Everything outside: the resolver's files and parsers, the home directory, the migration's system calls, the JSON and MIME
  parsers, case mapping, dialling, git, gpg's verdict on a raw message, the sending chain, attachments, clocks, and the
  system calls of the attachment download (the last: the error of writing with what it left in the file).
\<close>

record 'v tool_world =
  tw_resolver :: Resolver
  tw_yaml :: yaml_lib
  tw_reader :: "file_map \<Rightarrow> reader"
  tw_home :: "(string, string) result"
  tw_mkdir :: bool
  tw_copy :: "string \<Rightarrow> copy_io"
  tw_json :: "'v json_lib"
  tw_contacts :: "string \<Rightarrow> (string, Contact list) result"
  tw_parse :: address_parser
  tw_ulow :: "nat \<Rightarrow> nat"
  tw_ufold :: "nat \<Rightarrow> nat"
  tw_dial :: "mail_config \<Rightarrow> (string, imap_server) result"
  tw_git :: "string option"
  tw_since :: "string \<Rightarrow> (string, int option) result"
  tw_verify :: "string \<Rightarrow> string \<Rightarrow> (verify_failure, VerifyResult) result"
  tw_read :: read_io
  tw_chain :: chain_io
  tw_date :: "(string \<Rightarrow> string) \<Rightarrow> string option"
  tw_open :: "string \<Rightarrow> (string, attach_file) result"
  tw_types :: "string \<Rightarrow> string"
  tw_times :: time_text
  tw_store :: write_ops
  tw_attach_mkdir :: bool
  tw_attach_write :: "(string \<times> string option) option"
  tw_cwd :: "(string, string) result"

datatype tool_fail =
    ResolveFailed id_error
  | NoDataDir string
  | IdentityDirFailed migrate_error
  | ConfigFailed config_error
  | ContactsFailed string
  | ParamFailed param_error
  | MissingParam string
  | BadParam string
  | BadMessageID string
  | BadMessageIDs string
  | SinceFailed string
  | SearchNeedsCriteria
  | DialFailed string
  | ImapFailed imap_error
  | UnparseableSender string
  | ReadDenied string
  | RecipientFailed string "string resolve_error"
  | NoRecipient
  | WriteDenied "string list"
  | AttachFailed attach_error
  | SendFailed chain_error
  | NoReplyAddress
  | VerifyFailed verify_failure
  | MimeFailed mime_error
  | AttachmentDir string
  | AttachmentMkdir
  | AttachmentWrite string
  | AttachmentPath string
  | BadPermissions string perm_error
  | ContactFailed contact_error
  | ContactUnknown string
  | Panics

record effects =
  ef_imap :: imap_trace
  ef_smtp :: smtp_trace
  ef_posts :: "resend_post list"
  ef_files :: file_map
  ef_store :: "Store option"

type_synonym 'a outcome = "(tool_fail, 'a) result \<times> effects"

definition quiet :: "file_map \<Rightarrow> effects" where
  "quiet fs = \<lparr>ef_imap = [], ef_smtp = [], ef_posts = [], ef_files = fs, ef_store = None\<rparr>"

definition stop :: "tool_fail \<Rightarrow> file_map \<Rightarrow> 'a outcome" where
  "stop e fs = (Inl e, quiet fs)"

definition given :: "(tool_fail, 'a) result \<Rightarrow> file_map \<Rightarrow> ('a \<Rightarrow> 'b outcome) \<Rightarrow> 'b outcome" where
  "given r fs f = (case r of Inl e \<Rightarrow> stop e fs | Inr x \<Rightarrow> f x)"

subsection \<open>Identity, configuration, contacts\<close>

definition resolveIdentityAndConfig ::
    "'v tool_world \<Rightarrow> identity option \<Rightarrow> file_map \<Rightarrow> (tool_fail, identity \<times> mail_config \<times> string) result \<times> file_map" where
  "resolveIdentityAndConfig w ov fs =
     (case (case ov of Some i \<Rightarrow> Inr i
            | None \<Rightarrow> (case Resolve (tw_yaml w) (tw_reader w fs) (tw_resolver w) of Inl e \<Rightarrow> Inl (ResolveFailed e) | Inr i \<Rightarrow> Inr i)) of
        Inl e \<Rightarrow> (Inl e, fs)
      | Inr i \<Rightarrow>
          (case DataDir (tw_home w) of
             Inl e \<Rightarrow> (Inl (NoDataDir e), fs)
           | Inr beadleDir \<Rightarrow>
               (case EnsureIdentityDir (tw_copy w) (tw_mkdir w) beadleDir (id_Email i) fs of
                  (Inl e, fs') \<Rightarrow> (Inl (IdentityDirFailed e), fs')
                | (Inr idDir, fs') \<Rightarrow>
                    (case fst (LoadIdentityConfig (tw_json w) (tw_reader w fs') (tw_home w) (Some i) (JoinPath [beadleDir, ''email.json''])) of
                       Inl e \<Rightarrow> (Inl (ConfigFailed e), fs')
                     | Inr cfg \<Rightarrow> (Inr (i, cfg, idDir), fs')))))"

definition load_store :: "(string \<Rightarrow> (string, Contact list) result) \<Rightarrow> reader \<Rightarrow> string \<Rightarrow> (string, Store) result" where
  "load_store decode rd path =
     (case rd path of
        Inl ErrNotExist \<Rightarrow> Inr \<lparr>s_contacts = [], s_file = None\<rparr>
      | Inl (OsError e) \<Rightarrow> Inl e
      | Inr data \<Rightarrow> and_then (decode data) (\<lambda>cs. Inr \<lparr>s_contacts = cs, s_file = Some cs\<rparr>))"

definition resolveContext ::
    "'v tool_world \<Rightarrow> identity option \<Rightarrow> file_map \<Rightarrow> (tool_fail, identity \<times> mail_config \<times> Store) result \<times> file_map" where
  "resolveContext w ov fs =
     (case resolveIdentityAndConfig w ov fs of
        (Inl e, fs') \<Rightarrow> (Inl e, fs')
      | (Inr (i, cfg, idDir), fs') \<Rightarrow>
          (case load_store (tw_contacts w) (tw_reader w fs') (JoinPath [idDir, ''contacts.json'']) of
             Inl e \<Rightarrow> (Inl (ContactsFailed e), fs')
           | Inr store \<Rightarrow> (Inr (i, cfg, store), fs')))"

definition in_context ::
    "'v tool_world \<Rightarrow> identity option \<Rightarrow> file_map \<Rightarrow> (identity \<Rightarrow> mail_config \<Rightarrow> Store \<Rightarrow> file_map \<Rightarrow> 'a outcome) \<Rightarrow> 'a outcome" where
  "in_context w ov fs f = (case resolveContext w ov fs of (Inl e, fs') \<Rightarrow> stop e fs' | (Inr (i, cfg, store), fs') \<Rightarrow> f i cfg store fs')"

definition in_config :: "'v tool_world \<Rightarrow> identity option \<Rightarrow> file_map \<Rightarrow> (mail_config \<Rightarrow> file_map \<Rightarrow> 'a outcome) \<Rightarrow> 'a outcome" where
  "in_config w ov fs f = (case resolveIdentityAndConfig w ov fs of (Inl e, fs') \<Rightarrow> stop e fs' | (Inr (i, cfg, d), fs') \<Rightarrow> f cfg fs')"

subsection \<open>Sessions\<close>

type_synonym 'a session = "imap_trace \<Rightarrow> (tool_fail, 'a) result \<times> imap_trace"

definition ask :: "'a imap \<Rightarrow> 'a session" where
  "ask m tr = (case m tr of (Inl e, tr') \<Rightarrow> (Inl (ImapFailed e), tr') | (Inr x, tr') \<Rightarrow> (Inr x, tr'))"

definition answer :: "(tool_fail, 'a) result \<Rightarrow> 'a session" where
  "answer r tr = (r, tr)"

definition and_ask :: "'a session \<Rightarrow> ('a \<Rightarrow> 'b session) \<Rightarrow> 'b session" where
  "and_ask m f tr = (case m tr of (Inl e, tr') \<Rightarrow> (Inl e, tr') | (Inr x, tr') \<Rightarrow> f x tr')"

definition withClient :: "'v tool_world \<Rightarrow> mail_config \<Rightarrow> file_map \<Rightarrow> (imap_server \<Rightarrow> 'a session) \<Rightarrow> 'a outcome" where
  "withClient w cfg fs f =
     (case tw_dial w cfg of
        Inl e \<Rightarrow> stop (DialFailed e) fs
      | Inr srv \<Rightarrow> (case f srv [] of (r, tr) \<Rightarrow> (r, (quiet fs)\<lparr>ef_imap := tr\<rparr>)))"

subsection \<open>Arguments the handlers share\<close>

definition param :: "(param_error, 'a) result \<Rightarrow> (tool_fail, 'a) result" where
  "param r = (case r of Inl e \<Rightarrow> Inl (ParamFailed e) | Inr x \<Rightarrow> Inr x)"

definition required :: "request \<Rightarrow> string \<Rightarrow> (tool_fail, string) result" where
  "required rq key = (case rq_require rq key of None \<Rightarrow> Inl (MissingParam key) | Some s \<Rightarrow> Inr s)"

definition uid_of :: "string \<Rightarrow> (tool_fail, 32 word) result" where
  "uid_of s = (case parse_uid s of None \<Rightarrow> Inl (BadMessageID s) | Some u \<Rightarrow> Inr u)"

definition message_id :: "request \<Rightarrow> (tool_fail, string \<times> 32 word) result" where
  "message_id rq = and_then (required rq ''message_id'') (\<lambda>s. and_then (uid_of s) (\<lambda>u. Inr (s, u)))"

definition folder_of :: "request \<Rightarrow> string" where
  "folder_of rq = stringParam rq ''folder'' ''INBOX''"

definition page_args :: "request \<Rightarrow> (tool_fail, int \<times> int) result" where
  "page_args rq =
     and_then (param (intParam rq ''count'' 10)) (\<lambda>n.
       if n \<le> 0 then Inl (BadParam ''count must be positive'')
       else and_then (param (intParam rq ''offset'' 0)) (\<lambda>off.
         if off < 0 then Inl (BadParam ''offset must be non-negative'') else Inr (n, off)))"

definition repo_scope :: "'v tool_world \<Rightarrow> identity \<Rightarrow> request \<Rightarrow> string" where
  "repo_scope w i rq = (if boolParam rq ''all_repos'' then [] else rt_Slug (ResolveRepoTag (tw_git w) (id_Handle i)))"

definition perm_of :: "'v tool_world \<Rightarrow> identity \<Rightarrow> Store \<Rightarrow> string \<Rightarrow> Permission \<times> string" where
  "perm_of w i store frm = senderPermission (tw_parse w) (tw_ulow w) store (id_Email i) frm"

text \<open>The refusal of a sender that may not be read.\<close>

definition read_gate :: "'v tool_world \<Rightarrow> identity \<Rightarrow> Store \<Rightarrow> string \<Rightarrow> (tool_fail, unit) result" where
  "read_gate w i store frm =
     (let (perm, addr) = perm_of w i store frm in
      if pm_Read perm then Inr () else Inl (if addr = [] then UnparseableSender frm else ReadDenied addr))"

subsection \<open>Listing and searching\<close>

definition redacted :: string where "redacted = ''[redacted '' @ DASH @ '' no read permission]''"

fun verify_listed ::
    "'v tool_world \<Rightarrow> mail_config \<Rightarrow> imap_server \<Rightarrow> string \<Rightarrow> MessageSummary list \<Rightarrow> MessageSummary list session" where
  "verify_listed w cfg srv folder [] tr = (Inr [], tr)"
| "verify_listed w cfg srv folder (m # ms) tr =
     (let (m', tr') = (if \<not> ms_HasSig m then (m, tr) else case parse_uid (ms_ID m) of
            None \<Rightarrow> (m, tr)
          | Some u \<Rightarrow> (case FetchRaw srv folder u tr of
              (Inl e, tr1) \<Rightarrow> (m, tr1)
            | (Inr raw, tr1) \<Rightarrow> (case tw_verify w (mc_GPGBinary cfg) raw of
                Inl e \<Rightarrow> (m, tr1)
              | Inr r \<Rightarrow> (m\<lparr>ms_TrustLevel := if vf_Valid r then Verified else Untrusted\<rparr>, tr1))))
      in and_ask (verify_listed w cfg srv folder ms) (\<lambda>ms'. answer (Inr (m' # ms'))) tr')"

definition redact :: "'v tool_world \<Rightarrow> identity \<Rightarrow> Store \<Rightarrow> MessageSummary \<Rightarrow> MessageSummary" where
  "redact w i store m = (if pm_Read (fst (perm_of w i store (ms_From m))) then m else m\<lparr>ms_Subject := redacted\<rparr>)"

definition renderMessages ::
    "'v tool_world \<Rightarrow> mail_config \<Rightarrow> identity \<Rightarrow> Store \<Rightarrow> imap_server \<Rightarrow> string \<Rightarrow> ListResult \<Rightarrow> string session" where
  "renderMessages w cfg i store srv folder lr =
     and_ask (verify_listed w cfg srv folder (lr_Messages lr)) (\<lambda>ms.
       answer (case formatMessagesResult (tw_parse w) (tw_times w) (lr\<lparr>lr_Messages := map (redact w i store) ms\<rparr>) of
         None \<Rightarrow> Inl Panics | Some text \<Rightarrow> Inr text))"

definition listMessages :: "'v tool_world \<Rightarrow> identity option \<Rightarrow> request \<Rightarrow> file_map \<Rightarrow> string outcome" where
  "listMessages w ov rq fs = in_context w ov fs (\<lambda>i cfg store fs.
     given (page_args rq) fs (\<lambda>(n, off).
       withClient w cfg fs (\<lambda>srv.
         and_ask (ask (SearchMessages srv (tw_ulow w) (folder_of rq) (scope_query (repo_scope w i rq) (boolParam rq ''unread_only'')) n off))
           (renderMessages w cfg i store srv (folder_of rq)))))"

definition search_args :: "'v tool_world \<Rightarrow> request \<Rightarrow> (tool_fail, SearchQuery \<times> int \<times> int) result" where
  "search_args w rq =
     (let since = stringParam rq ''since'' [] in
      and_then (if since = [] then Inr None
          else (case tw_since w since of Inl e \<Rightarrow> Inl (SinceFailed e) | Inr t \<Rightarrow> Inr t)) (\<lambda>t.
        let q = \<lparr>sq_From = stringParam rq ''from'' [], sq_Subject = stringParam rq ''subject'' [], sq_Since = t,
              sq_Text = stringParam rq ''text'' [], sq_RepoSlug = [], sq_UnreadOnly = boolParam rq ''unread_only''\<rparr> in
        if sq_From q = [] \<and> sq_Subject q = [] \<and> sq_Text q = [] \<and> sq_Since q = None then Inl SearchNeedsCriteria
        else and_then (page_args rq) (\<lambda>(n, off). Inr (q, n, off))))"

definition searchMessages :: "'v tool_world \<Rightarrow> identity option \<Rightarrow> request \<Rightarrow> file_map \<Rightarrow> string outcome" where
  "searchMessages w ov rq fs = in_context w ov fs (\<lambda>i cfg store fs.
     given (search_args w rq) fs (\<lambda>(q, n, off).
       withClient w cfg fs (\<lambda>srv.
         and_ask (ask (SearchMessages srv (tw_ulow w) (folder_of rq) (q\<lparr>sq_RepoSlug := repo_scope w i rq\<rparr>) n off))
           (renderMessages w cfg i store srv (folder_of rq)))))"

subsection \<open>Reading\<close>

definition truncate_body :: "int \<Rightarrow> string \<Rightarrow> string" where
  "truncate_body maxBody body =
     (let rs = runes body in
      if 0 < maxBody \<and> maxBody < int (length rs)
      then of_runes (take (nat maxBody) rs) @ [NL] @ ''[truncated '' @ DASH @ '' '' @ Itoa_nat (length rs) @ '' chars total]''
      else body)"

definition verify_read :: "'v tool_world \<Rightarrow> mail_config \<Rightarrow> imap_server \<Rightarrow> string \<Rightarrow> 32 word \<Rightarrow> Message \<Rightarrow> Message session" where
  "verify_read w cfg srv folder uid msg tr =
     (if me_TrustLevel msg = Unverified \<and> HasPGPSignature (ml_media (ro_lib (tw_read w))) (header (me_RawHeaders msg) ''Content-Type'') []
      then (case FetchRaw srv folder uid tr of
          (Inl e, tr') \<Rightarrow> (Inr msg, tr')
        | (Inr raw, tr') \<Rightarrow> (case tw_verify w (mc_GPGBinary cfg) raw of
            Inl e \<Rightarrow> (Inr msg, tr')
          | Inr r \<Rightarrow> (Inr (msg\<lparr>me_TrustLevel := if vf_Valid r then Verified else Untrusted\<rparr>), tr')))
      else (Inr msg, tr))"

definition read_args :: "request \<Rightarrow> (tool_fail, 32 word \<times> int) result" where
  "read_args rq =
     and_then (message_id rq) (\<lambda>(s, u).
     and_then (param (intParam rq ''max_body_length'' 0)) (\<lambda>n.
       if n < 0 then Inl (BadParam ''max_body_length must be non-negative'') else Inr (u, n)))"

definition reader_for :: "'v tool_world \<Rightarrow> mail_config \<Rightarrow> read_io" where
  "reader_for w cfg = (tw_read w)\<lparr>ro_signer := mc_GPGSigner cfg\<rparr>"

definition readMessage :: "'v tool_world \<Rightarrow> identity option \<Rightarrow> request \<Rightarrow> file_map \<Rightarrow> string outcome" where
  "readMessage w ov rq fs = in_context w ov fs (\<lambda>i cfg store fs.
     given (read_args rq) fs (\<lambda>(uid, maxBody).
       withClient w cfg fs (\<lambda>srv.
         and_ask (ask (FetchMessage srv (reader_for w cfg) (folder_of rq) uid)) (\<lambda>m.
           case m of
             None \<Rightarrow> answer (Inl Panics)
           | Some msg \<Rightarrow>
               and_ask (answer (read_gate w i store (me_From msg))) (\<lambda>_.
               and_ask (verify_read w cfg srv (folder_of rq) uid msg) (\<lambda>msg.
                 answer (Inr (formatMessage (tw_times w) (msg\<lparr>me_Body := truncate_body maxBody (me_Body msg)\<rparr>)))))))))"

definition listFolders :: "'v tool_world \<Rightarrow> identity option \<Rightarrow> file_map \<Rightarrow> string outcome" where
  "listFolders w ov fs = in_config w ov fs (\<lambda>cfg fs.
     withClient w cfg fs (\<lambda>srv. and_ask (ask (Folders srv)) (\<lambda>fo. answer (Inr (formatFolders fo)))))"

definition with_raw :: "'v tool_world \<Rightarrow> mail_config \<Rightarrow> request \<Rightarrow> file_map \<Rightarrow> (string \<Rightarrow> (tool_fail, 'a) result) \<Rightarrow> 'a outcome" where
  "with_raw w cfg rq fs f =
     given (message_id rq) fs (\<lambda>(s, uid).
       withClient w cfg fs (\<lambda>srv. and_ask (ask (FetchRaw srv (folder_of rq) uid)) (\<lambda>raw. answer (f raw))))"

definition verifySignature :: "'v tool_world \<Rightarrow> identity option \<Rightarrow> request \<Rightarrow> file_map \<Rightarrow> string outcome" where
  "verifySignature w ov rq fs = in_config w ov fs (\<lambda>cfg fs.
     with_raw w cfg rq fs (\<lambda>raw.
       case tw_verify w (mc_GPGBinary cfg) raw of Inl e \<Rightarrow> Inl (VerifyFailed e) | Inr r \<Rightarrow> Inr (formatVerifyResult r)))"

definition showMIME :: "'v tool_world \<Rightarrow> identity option \<Rightarrow> request \<Rightarrow> file_map \<Rightarrow> string outcome" where
  "showMIME w ov rq fs = in_config w ov fs (\<lambda>cfg fs.
     with_raw w cfg rq fs (\<lambda>raw.
       case ParseMIMEStructure (ro_lib (tw_read w)) raw of Inl e \<Rightarrow> Inl (MimeFailed e) | Inr ps \<Rightarrow> Inr (formatMIME ps)))"

definition checkTrust :: "'v tool_world \<Rightarrow> identity option \<Rightarrow> request \<Rightarrow> file_map \<Rightarrow> string outcome" where
  "checkTrust w ov rq fs = in_context w ov fs (\<lambda>i cfg store fs.
     with_raw w cfg rq fs (\<lambda>raw.
       let h = snd (snd (ParseMIME (ro_lib (tw_read w)) raw)) in
       Inr (formatTrustResultWithPerm (ClassifyTrustDetailed (tw_ulow w) (ml_media (ro_lib (tw_read w))) h raw)
         (perm_String (fst (perm_of w i store (header h ''From'')))))))"

subsection \<open>Sending\<close>

definition resolved :: "'v tool_world \<Rightarrow> Store \<Rightarrow> string \<Rightarrow> string \<Rightarrow> (tool_fail, string) result" where
  "resolved w store key raw =
     (case ResolveField (tw_ulow w) (Inr (Some (s_contacts store))) raw of Inl e \<Rightarrow> Inl (RecipientFailed key e) | Inr s \<Rightarrow> Inr s)"

definition attachments_of :: "'v tool_world \<Rightarrow> request \<Rightarrow> (tool_fail, OutboundAttachment list) result" where
  "attachments_of w rq = (case readAttachments (tw_open w) (tw_types w) rq of Inl e \<Rightarrow> Inl (AttachFailed e) | Inr as \<Rightarrow> Inr as)"

definition write_gate :: "'v tool_world \<Rightarrow> identity \<Rightarrow> Store \<Rightarrow> string list \<Rightarrow> (tool_fail, unit) result" where
  "write_gate w i store rs =
     (let denied = enforceWritePermission (tw_parse w) (tw_ulow w) store (id_Email i) rs in
      if denied \<noteq> [] then Inl (WriteDenied denied) else Inr ())"

text \<open>What goes to the chain, and the lines appended to its result.\<close>

definition send_args ::
    "'v tool_world \<Rightarrow> identity \<Rightarrow> Store \<Rightarrow> request \<Rightarrow> (tool_fail, outgoing \<times> string list) result" where
  "send_args w i store rq =
     and_then (required rq ''to'') (\<lambda>toRaw.
     and_then (required rq ''subject'') (\<lambda>subj.
     and_then (required rq ''body'') (\<lambda>body.
     and_then (resolved w store ''to'' toRaw) (\<lambda>toResolved.
     and_then (resolved w store ''cc'' (stringParam rq ''cc'' [])) (\<lambda>ccResolved.
     and_then (resolved w store ''bcc'' (stringParam rq ''bcc'' [])) (\<lambda>bccResolved.
       let to = splitAddresses toResolved; cc = splitAddresses ccResolved; bcc = splitAddresses bccResolved;
           everyone = to @ cc @ bcc in
       if to = [] then Inl NoRecipient
       else and_then (write_gate w i store everyone) (\<lambda>_.
         and_then (attachments_of w rq) (\<lambda>atts.
           let (keys, warn) = encryptKeysFor (tw_parse w) (tw_ulow w) store everyone in
           Inr (\<lparr>og_to = to, og_cc = cc, og_bcc = bcc, og_subject = subj, og_body = body, og_html = stringParam rq ''html'' [],
               og_attachments = atts, og_keys = keys, og_tag = ResolveRepoTag (tw_git w) (id_Handle i), og_thread = no_thread\<rparr>,
             (if warn \<noteq> [] then [warn] else []))))))))))"

text \<open>The chain, after whatever was asked of the IMAP server.\<close>

definition dispatch ::
    "'v tool_world \<Rightarrow> mail_config \<Rightarrow> imap_trace \<Rightarrow> file_map \<Rightarrow> outgoing \<times> string list \<Rightarrow> string outcome" where
  "dispatch w cfg tr fs msg =
     (case msg of (m, warnings) \<Rightarrow>
        case TrySendChain (tw_chain w) cfg m fs of
          (r, s) \<Rightarrow>
            ((case r of Inl e \<Rightarrow> Inl (SendFailed e) | Inr res \<Rightarrow> Inr (formatSendResult res @ concat (map (Cons NL) warnings))),
             \<lparr>ef_imap = tr, ef_smtp = st_smtp s, ef_posts = st_posts s, ef_files = st_files s, ef_store = None\<rparr>))"

definition sendEmail :: "'v tool_world \<Rightarrow> identity option \<Rightarrow> request \<Rightarrow> file_map \<Rightarrow> string outcome" where
  "sendEmail w ov rq fs = in_context w ov fs (\<lambda>i cfg store fs. given (send_args w i store rq) fs (dispatch w cfg [] fs))"

definition reply_args ::
    "'v tool_world \<Rightarrow> Store \<Rightarrow> request
       \<Rightarrow> (tool_fail, 32 word \<times> string \<times> string list \<times> string list \<times> OutboundAttachment list) result" where
  "reply_args w store rq =
     and_then (message_id rq) (\<lambda>(s, uid).
     and_then (required rq ''body'') (\<lambda>body.
     and_then (resolved w store ''cc'' (stringParam rq ''cc'' [])) (\<lambda>ccResolved.
     and_then (resolved w store ''bcc'' (stringParam rq ''bcc'' [])) (\<lambda>bccResolved.
     and_then (attachments_of w rq) (\<lambda>atts. Inr (uid, body, splitAddresses ccResolved, splitAddresses bccResolved, atts))))))"

definition no_thread_warning :: string where "no_thread_warning = ''reply sent without threading headers: original has no Message-ID''"
definition no_quote_warning :: string where "no_quote_warning = ''original body could not be extracted; reply sent without a quote''"

definition reply_plan ::
    "'v tool_world \<Rightarrow> identity \<Rightarrow> Store \<Rightarrow> request \<Rightarrow> string \<Rightarrow> string list \<Rightarrow> string list \<Rightarrow> OutboundAttachment list \<Rightarrow> ReplyContext
       \<Rightarrow> (tool_fail, outgoing \<times> string list) result" where
  "reply_plan w i store rq replyText cc bcc atts rc =
     (if rc_ReplyTo rc = [] then Inl NoReplyAddress
      else let to = [rc_ReplyTo rc]; everyone = to @ cc @ bcc in
        and_then (write_gate w i store everyone) (\<lambda>_.
          let (keys, warn) = encryptKeysFor (tw_parse w) (tw_ulow w) store everyone;
              tag = ResolveRepoTag (tw_git w) (id_Handle i);
              threaded = (rc_MessageID rc \<noteq> []);
              th = (if threaded then \<lparr>th_InReplyTo = rc_MessageID rc, th_References = rc_References rc\<rparr> else no_thread);
              body = (if rc_Quotable rc then QuoteBody replyText (rc_From rc) (rc_Date rc) (rc_Body rc) else replyText)
          in Inr (\<lparr>og_to = to, og_cc = cc, og_bcc = bcc, og_subject = ReplySubject (ch_fold (tw_chain w)) (rc_Subject rc) tag,
                og_body = body, og_html = stringParam rq ''html'' [], og_attachments = atts, og_keys = keys, og_tag = tag,
                og_thread = th\<rparr>,
              (if threaded then [] else [no_thread_warning]) @ (if rc_Quotable rc then [] else [no_quote_warning])
                @ (if warn \<noteq> [] then [warn] else []))))"

definition replyMessage :: "'v tool_world \<Rightarrow> identity option \<Rightarrow> request \<Rightarrow> file_map \<Rightarrow> string outcome" where
  "replyMessage w ov rq fs = in_context w ov fs (\<lambda>i cfg store fs.
     given (reply_args w store rq) fs (\<lambda>(uid, replyText, cc, bcc, atts).
       case withClient w cfg fs (\<lambda>srv.
           and_ask (ask (FetchThread srv (ro_lib (tw_read w)) (tw_parse w) (tw_date w) (folder_of rq) uid)) (\<lambda>rc.
             answer (reply_plan w i store rq replyText cc bcc atts rc))) of
         (Inl e, ef) \<Rightarrow> (Inl e, ef)
       | (Inr plan, ef) \<Rightarrow> dispatch w cfg (ef_imap ef) fs plan))"

subsection \<open>Moving and marking\<close>

definition moveMessage :: "'v tool_world \<Rightarrow> identity option \<Rightarrow> request \<Rightarrow> file_map \<Rightarrow> string outcome" where
  "moveMessage w ov rq fs = in_config w ov fs (\<lambda>cfg fs.
     let dst = stringParam rq ''destination'' ''Archive'' in
     given (message_id rq) fs (\<lambda>(s, uid).
       withClient w cfg fs (\<lambda>srv. and_ask (ask (MoveMessage srv (folder_of rq) uid dst)) (\<lambda>n.
         answer (Inr (formatMoveResult s dst n))))))"

definition markMessage :: "'v tool_world \<Rightarrow> identity option \<Rightarrow> request \<Rightarrow> file_map \<Rightarrow> string outcome" where
  "markMessage w ov rq fs = in_config w ov fs (\<lambda>cfg fs.
     let seen = boolParamDefault rq ''seen'' True in
     given (message_id rq) fs (\<lambda>(s, uid).
       withClient w cfg fs (\<lambda>srv. and_ask (ask (SetSeen srv (folder_of rq) uid seen)) (\<lambda>n.
         answer (Inr (formatMarkResult s seen n))))))"

definition batch_ids :: "request \<Rightarrow> (tool_fail, string list) result" where
  "batch_ids rq =
     and_then (param (stringSliceParam rq ''message_ids'')) (\<lambda>ids.
       case ids of None \<Rightarrow> Inl (MissingParam ''message_ids'') | Some ss \<Rightarrow> Inr ss)"

definition batch_uids :: "string list \<Rightarrow> (tool_fail, 32 word list) result" where
  "batch_uids ids = (case parseUIDs ids of Inl e \<Rightarrow> Inl (BadMessageIDs e) | Inr us \<Rightarrow> Inr us)"

definition batchMoveMessages :: "'v tool_world \<Rightarrow> identity option \<Rightarrow> request \<Rightarrow> file_map \<Rightarrow> string outcome" where
  "batchMoveMessages w ov rq fs = in_config w ov fs (\<lambda>cfg fs.
     given (batch_ids rq) fs (\<lambda>ids.
       let dst = stringParam rq ''destination'' ''Archive'' in
       if ids = [] then (Inr (formatBatchMoveResult 0 0 dst), quiet fs)
       else given (batch_uids ids) fs (\<lambda>uids.
         withClient w cfg fs (\<lambda>srv. and_ask (ask (MoveMessages srv (folder_of rq) uids dst)) (\<lambda>n.
           answer (Inr (formatBatchMoveResult n (length uids) dst)))))))"

definition batchMarkMessages :: "'v tool_world \<Rightarrow> identity option \<Rightarrow> request \<Rightarrow> file_map \<Rightarrow> string outcome" where
  "batchMarkMessages w ov rq fs = in_config w ov fs (\<lambda>cfg fs.
     given (batch_ids rq) fs (\<lambda>ids.
       let seen = boolParamDefault rq ''seen'' True in
       if ids = [] then (Inr (formatBatchMarkResult 0 0 seen), quiet fs)
       else given (batch_uids ids) fs (\<lambda>uids.
         withClient w cfg fs (\<lambda>srv. and_ask (ask (SetSeenBatch srv (folder_of rq) uids seen)) (\<lambda>n.
           answer (Inr (formatBatchMarkResult n (length uids) seen)))))))"

subsection \<open>Downloading\<close>

definition download_args :: "request \<Rightarrow> (tool_fail, string \<times> int \<times> 32 word) result" where
  "download_args rq =
     and_then (required rq ''message_id'') (\<lambda>s.
     and_then (param (intParam rq ''part_index'' (- 1))) (\<lambda>n.
       if n < 0 then Inl (BadParam ''part_index is required'')
       else and_then (uid_of s) (\<lambda>u. Inr (s, n, u))))"

definition download_part ::
    "'v tool_world \<Rightarrow> identity \<Rightarrow> Store \<Rightarrow> int \<Rightarrow> string \<Rightarrow> (tool_fail, MIMEPart \<times> string) result" where
  "download_part w i store n raw =
     (let h = snd (snd (ParseMIME (ro_lib (tw_read w)) raw)) in
      and_then (read_gate w i store (header h ''From'')) (\<lambda>_.
        case ExtractPart (ro_lib (tw_read w)) raw n of Inl e \<Rightarrow> Inl (MimeFailed e) | Inr pd \<Rightarrow> Inr pd))"

definition attachment_name :: "string \<Rightarrow> int \<Rightarrow> MIMEPart \<Rightarrow> string" where
  "attachment_name s n part =
     (let b = Base (pt_Filename part) in if b = [] \<or> b = dot then ''part_'' @ Itoa n else b)"

definition attach_dir :: "string \<Rightarrow> mail_config \<Rightarrow> string" where
  "attach_dir idDir cfg = JoinPath [idDir, ''attachments'', Base (mc_IMAPUser cfg)]"

definition AbsPath :: "(string, string) result \<Rightarrow> string \<Rightarrow> (string, string) result" where
  "AbsPath cwd p = (if IsAbs p then Inr (Clean p) else and_then cwd (\<lambda>d. Inr (JoinPath [d, p])))"

definition save_attachment ::
    "'v tool_world \<Rightarrow> identity \<Rightarrow> mail_config \<Rightarrow> string \<Rightarrow> int \<Rightarrow> MIMEPart \<Rightarrow> string \<Rightarrow> file_map \<Rightarrow> (tool_fail, string) result \<times> file_map" where
  "save_attachment w i cfg s n part data fs =
     (let filename = attachment_name s n part in
      case IdentityDir (tw_home w) (id_Email i) of
        Inl e \<Rightarrow> (Inl (AttachmentDir e), fs)
      | Inr idDir \<Rightarrow>
          if \<not> tw_attach_mkdir w then (Inl AttachmentMkdir, fs)
          else let outPath = JoinPath [attach_dir idDir cfg, s @ ''_'' @ filename] in
            (case tw_attach_write w of
               Some (e, left) \<Rightarrow> (Inl (AttachmentWrite e), (case left of None \<Rightarrow> fs | Some l \<Rightarrow> fs(outPath \<mapsto> l)))
             | None \<Rightarrow>
                 ((case AbsPath (tw_cwd w) outPath of
                    Inl e \<Rightarrow> Inl (AttachmentPath e)
                  | Inr p \<Rightarrow> Inr (formatDownloadResult \<lparr>dl_Status = ''saved'', dl_Path = p, dl_Filename = filename,
                      dl_ContentType = pt_ContentType part, dl_Size = pt_Size part\<rparr>)),
                  fs(outPath \<mapsto> data))))"

definition downloadAttachment :: "'v tool_world \<Rightarrow> identity option \<Rightarrow> request \<Rightarrow> file_map \<Rightarrow> string outcome" where
  "downloadAttachment w ov rq fs = in_context w ov fs (\<lambda>i cfg store fs.
     given (download_args rq) fs (\<lambda>(s, n, uid).
       case withClient w cfg fs (\<lambda>srv.
           and_ask (ask (FetchRaw srv (folder_of rq) uid)) (\<lambda>raw. answer (download_part w i store n raw))) of
         (Inl e, ef) \<Rightarrow> (Inl e, ef)
       | (Inr (part, data), ef) \<Rightarrow>
           (case save_attachment w i cfg s n part data fs of (r, fs') \<Rightarrow> (r, ef\<lparr>ef_files := fs'\<rparr>))))"

subsection \<open>Contacts\<close>

text \<open>Sorted by lower-cased name; Go's sort may reorder contacts whose names differ in case only.\<close>

definition sorted_contacts :: "(nat \<Rightarrow> nat) \<Rightarrow> Contact list \<Rightarrow> Contact list" where
  "sorted_contacts ulow cs = sort_key (\<lambda>c. bytes (ToLower ulow (co_Name c))) cs"

definition listContacts :: "'v tool_world \<Rightarrow> identity option \<Rightarrow> file_map \<Rightarrow> string outcome" where
  "listContacts w ov fs = in_context w ov fs (\<lambda>i cfg store fs.
     (Inr (formatContacts (contactsToResultsWithPerms (tw_ulow w) (sorted_contacts (tw_ulow w) (s_contacts store)) (id_Email i))),
      quiet fs))"

definition findContact :: "'v tool_world \<Rightarrow> identity option \<Rightarrow> request \<Rightarrow> file_map \<Rightarrow> string outcome" where
  "findContact w ov rq fs = in_context w ov fs (\<lambda>i cfg store fs.
     given (required rq ''query'') fs (\<lambda>q.
       (Inr (formatContacts (contactsToResultsWithPerms (tw_ulow w) (Find_contacts (tw_ulow w) (s_contacts store) q) (id_Email i))),
        quiet fs)))"

definition contact_args :: "'v tool_world \<Rightarrow> identity \<Rightarrow> request \<Rightarrow> (tool_fail, Contact) result" where
  "contact_args w i rq =
     and_then (required rq ''name'') (\<lambda>name.
     and_then (required rq ''email'') (\<lambda>addr.
     and_then (param (stringSliceParam rq ''aliases'')) (\<lambda>aliases.
       let perm = stringParam rq ''permissions'' [] in
       and_then (if perm = [] then Inr []
           else (case ParsePermission (tw_ulow w) perm of
             Inl e \<Rightarrow> Inl (BadPermissions perm e) | Inr p \<Rightarrow> Inr [(ToLower (tw_ulow w) (id_Email i), perm)])) (\<lambda>perms.
         let c = \<lparr>co_Name = name, co_Email = addr, co_Aliases = (case aliases of None \<Rightarrow> [] | Some as \<Rightarrow> as),
               co_GPGKeyID = stringParam rq ''gpg_key_id'' [], co_Notes = stringParam rq ''notes'' [], co_Permissions = perms\<rparr> in
         case Validate_contact c of Inl e \<Rightarrow> Inl (ContactFailed e) | Inr _ \<Rightarrow> Inr c))))"

definition addContact :: "'v tool_world \<Rightarrow> identity option \<Rightarrow> request \<Rightarrow> file_map \<Rightarrow> string outcome" where
  "addContact w ov rq fs = in_context w ov fs (\<lambda>i cfg store fs.
     given (contact_args w i rq) fs (\<lambda>c.
       case Add (tw_ulow w) (tw_store w) c store of
         ((c', Some e), store') \<Rightarrow> (Inl (ContactFailed e), (quiet fs)\<lparr>ef_store := Some store'\<rparr>)
       | ((c', None), store') \<Rightarrow>
           (Inr (formatContactAdded (contactToResultWithPerms (tw_ulow w) c' (id_Email i))), (quiet fs)\<lparr>ef_store := Some store'\<rparr>)))"

definition removeContact :: "'v tool_world \<Rightarrow> identity option \<Rightarrow> request \<Rightarrow> file_map \<Rightarrow> string outcome" where
  "removeContact w ov rq fs = in_context w ov fs (\<lambda>i cfg store fs.
     given (required rq ''name'') fs (\<lambda>name.
       case Find_contacts (tw_ulow w) (s_contacts store) name of
         [] \<Rightarrow> stop (ContactUnknown name) fs
       | m # _ \<Rightarrow>
           (case Remove (tw_ufold w) (tw_store w) (co_Name m) store of
              (Some e, store') \<Rightarrow> (Inl (ContactFailed e), (quiet fs)\<lparr>ef_store := Some store'\<rparr>)
            | (None, store') \<Rightarrow> (Inr (formatContactRemoved (co_Name m)), (quiet fs)\<lparr>ef_store := Some store'\<rparr>))))"

subsection \<open>How handlers end\<close>

lemma in_context_cases:
  assumes "in_context w ov fs f = (r, ef)"
  obtains (failed) e fs' where "r = Inl e" "ef = quiet fs'" "resolveContext w ov fs = (Inl e, fs')"
    | (ran) i cfg store fs' where "resolveContext w ov fs = (Inr (i, cfg, store), fs')" "f i cfg store fs' = (r, ef)"
  using assms by (auto simp: in_context_def stop_def split: prod.splits sum.splits)

lemma given_cases:
  assumes "given a fs f = (r, ef)"
  obtains (failed) e where "r = Inl e" "ef = quiet fs" "a = Inl e" | (ran) x where "a = Inr x" "f x = (r, ef)"
  using assms by (auto simp: given_def stop_def split: sum.splits)

lemma withClient_cases:
  assumes "withClient w cfg fs f = (r, ef)"
  obtains (failed) e where "r = Inl e" "ef = quiet fs"
    | (ran) srv tr where "tw_dial w cfg = Inr srv" "f srv [] = (r, tr)" "ef = (quiet fs)\<lparr>ef_imap := tr\<rparr>"
  using assms by (auto simp: withClient_def stop_def split: sum.splits prod.splits)

lemma and_ask_Inr: "and_ask m f tr = (Inr y, tr') \<longleftrightarrow> (\<exists>x tr1. m tr = (Inr x, tr1) \<and> f x tr1 = (Inr y, tr'))"
  by (auto simp: and_ask_def split: prod.splits sum.splits)

lemma answer_Inr: "answer r tr = (Inr y, tr') \<longleftrightarrow> r = Inr y \<and> tr' = tr"
  by (auto simp: answer_def)

lemmas session_simps = and_ask_Inr answer_Inr

subsection \<open>Nobody is written to without the operator's permission\<close>

definition addressed :: "effects \<Rightarrow> string list" where
  "addressed ef =
     List.map_filter (\<lambda>s. case s of RcptTo r \<Rightarrow> Some r | _ \<Rightarrow> None) (ef_smtp ef)
     @ concat (map (\<lambda>p. sr_To (rp_Request p) @ sr_Cc (rp_Request p) @ sr_Bcc (rp_Request p)) (ef_posts ef))"

lemma SMTPSend_recipients:
  assumes "SMTPSend srv w ip cfg from recipients raw [] = (r, tr)" "RcptTo a \<in> set tr"
  shows "a \<in> set recipients"
proof -
  obtain password where "SMTPPassword w (mc_TestPassword cfg) = Inr password" using password_needed [OF assms(1)] assms(2)
    by (metis empty_iff list.set(1))
  then obtain n where "tr = take n (smtp_steps ip cfg password from recipients raw)" using SMTPSend_prefix [OF assms(1)] by blast
  then have "RcptTo a \<in> set (smtp_steps ip cfg password from recipients raw)" using assms(2) by (metis in_set_takeD)
  then show ?thesis by (auto simp: smtp_steps_def Let_def split: if_splits)
qed

lemma Send_posts: "Send io w cfg req = (r, ps) \<Longrightarrow> p \<in> set ps \<Longrightarrow> rp_Request p = req"
  by (auto simp: Send_def Let_def split: sum.splits prod.splits if_splits)

lemma fallback_recipients:
  assumes "resend_fallback io cfg m subj = (r, ps)" "p \<in> set ps"
  shows "sr_To (rp_Request p) = og_to m \<and> sr_Cc (rp_Request p) = og_cc m \<and> sr_Bcc (rp_Request p) = og_bcc m"
proof -
  obtain req r' where req: "resendRequest (og_to m) (og_cc m) (og_bcc m) subj (og_body m) (og_html m) (og_attachments m) (og_tag m) (og_thread m)
      = Inr req" "Send (ch_resend io) (ch_secrets io) cfg req = (r', ps)"
    using assms by (auto simp: resend_fallback_def split: if_splits sum.splits prod.splits)
  have "sr_To req = og_to m \<and> sr_Cc req = og_cc m \<and> sr_Bcc req = og_bcc m"
    using req(1) by (auto simp: resendRequest_def and_then_Inr_iff)
  then show ?thesis using Send_posts [OF req(2) assms(2)] by simp
qed

lemma chain_recipients:
  assumes "TrySendChain io cfg m fs = (r, s)"
  shows "(RcptTo a \<in> set (st_smtp s) \<longrightarrow> a \<in> set (og_to m @ og_cc m @ og_bcc m))
    \<and> (p \<in> set (st_posts s) \<longrightarrow> set (sr_To (rp_Request p) @ sr_Cc (rp_Request p) @ sr_Bcc (rp_Request p)) \<subseteq> set (og_to m @ og_cc m @ og_bcc m))"
  using assms
proof (cases rule: chain_cases)
  case (smtp pp raw fs' res)
  have "p \<in> set (st_posts s) \<Longrightarrow> resend_fallback io cfg m (subject (ch_fold io) (og_tag m) (og_subject m)) = (r, st_posts s)"
    using smtp(5,6) smtp(8) [symmetric] by (cases res; cases "mc_GPGSigner cfg = []") (auto simp: is_ok_def)
  then show ?thesis using SMTPSend_recipients [OF smtp(4)] fallback_recipients by fastforce
next
  case resend
  then show ?thesis using fallback_recipients [OF resend(5) [symmetric]] by simp
qed simp

lemma rcpt_Some: "(case x of RcptTo r \<Rightarrow> Some r | _ \<Rightarrow> None) = Some a \<longleftrightarrow> x = RcptTo a"
  by (cases x) auto

lemma dispatch_addressed:
  assumes "dispatch w cfg tr fs (m, ws) = (r, ef)" "a \<in> set (addressed ef)"
  shows "a \<in> set (og_to m @ og_cc m @ og_bcc m)"
proof -
  obtain r' s where c: "TrySendChain (tw_chain w) cfg m fs = (r', s)" by force
  then have e: "ef_smtp ef = st_smtp s" "ef_posts ef = st_posts s" using assms(1) by (auto simp: dispatch_def)
  consider "RcptTo a \<in> set (st_smtp s)"
    | p where "p \<in> set (st_posts s)" "a \<in> set (sr_To (rp_Request p) @ sr_Cc (rp_Request p) @ sr_Bcc (rp_Request p))"
    using assms(2) unfolding addressed_def e by (auto simp: set_map_filter rcpt_Some)
  then show ?thesis
  proof cases
    case 1
    then show ?thesis using chain_recipients [OF c] by blast
  next
    case 2
    then show ?thesis using chain_recipients [OF c, of a p] by blast
  qed
qed

lemma quiet_addressed [simp]: "addressed (quiet fs) = []" "addressed ((quiet fs)\<lparr>ef_imap := tr\<rparr>) = []"
  by (simp_all add: addressed_def quiet_def map_filter_def)

lemma write_gate_Inr: "write_gate w i store rs = Inr u \<longleftrightarrow> (\<forall>r \<in> set rs. writable (tw_parse w) (tw_ulow w) store (id_Email i) r)"
  by (auto simp: write_gate_def Let_def enforce_writable [symmetric])

lemma send_args_writable:
  assumes "send_args w i store rq = Inr (m, ws)" "a \<in> set (og_to m @ og_cc m @ og_bcc m)"
  shows "writable (tw_parse w) (tw_ulow w) store (id_Email i) a"
proof -
  have "\<exists>u. write_gate w i store (og_to m @ og_cc m @ og_bcc m) = Inr u"
    using assms(1) unfolding send_args_def
    by (auto simp: and_then_Inr_iff Let_def case_prod_unfold split: if_splits)
  then show ?thesis using assms(2) unfolding write_gate_Inr by blast
qed

lemma reply_plan_writable:
  assumes "reply_plan w i store rq t cc bcc atts rc = Inr (m, ws)" "a \<in> set (og_to m @ og_cc m @ og_bcc m)"
  shows "writable (tw_parse w) (tw_ulow w) store (id_Email i) a"
proof -
  have "\<exists>u. write_gate w i store (og_to m @ og_cc m @ og_bcc m) = Inr u"
    using assms(1) unfolding reply_plan_def
    by (auto simp: and_then_Inr_iff Let_def case_prod_unfold split: if_splits)
  then show ?thesis using assms(2) unfolding write_gate_Inr by blast
qed

lemma sendEmail_gated:
  assumes "sendEmail w ov rq fs = (r, ef)" "a \<in> set (addressed ef)"
  shows "\<exists>i cfg store fs'. resolveContext w ov fs = (Inr (i, cfg, store), fs') \<and> writable (tw_parse w) (tw_ulow w) store (id_Email i) a"
  using assms(1) unfolding sendEmail_def
proof (cases rule: in_context_cases)
  case (ran i cfg store fs')
  from ran(2) show ?thesis
  proof (cases rule: given_cases)
    case (ran msg)
    obtain m ws where m: "msg = (m, ws)" by (cases msg)
    show ?thesis using \<open>resolveContext w ov fs = _\<close> send_args_writable [OF ran(1) [unfolded m]]
        dispatch_addressed [OF ran(2) [unfolded m] assms(2)] by blast
  qed (use assms(2) in simp)
qed (use assms(2) in simp)

lemma replyMessage_gated:
  assumes "replyMessage w ov rq fs = (r, ef)" "a \<in> set (addressed ef)"
  shows "\<exists>i cfg store fs'. resolveContext w ov fs = (Inr (i, cfg, store), fs') \<and> writable (tw_parse w) (tw_ulow w) store (id_Email i) a"
  using assms(1) unfolding replyMessage_def
proof (cases rule: in_context_cases)
  case (ran i cfg store fs')
  note ctx = ran(1)
  from ran(2) show ?thesis
  proof (cases rule: given_cases)
    case (ran x)
    obtain uid t cc bcc atts where x: "x = (uid, t, cc, bcc, atts)" by (cases x)
    define s where "s = (\<lambda>srv. and_ask (ask (FetchThread srv (ro_lib (tw_read w)) (tw_parse w) (tw_date w) (folder_of rq) uid))
        (\<lambda>rc. answer (reply_plan w i store rq t cc bcc atts rc)))"
    obtain r1 ef1 where c: "withClient w cfg fs' s = (r1, ef1)" by force
    show ?thesis
    proof (cases r1)
      case (Inl e)
      then have "ef = ef1" using ran(2) c by (simp add: x s_def)
      moreover from c have "addressed ef1 = []" by (cases rule: withClient_cases) simp_all
      ultimately show ?thesis using assms(2) by simp
    next
      case (Inr plan)
      obtain m ws where m: "plan = (m, ws)" by (cases plan)
      have d: "dispatch w cfg (ef_imap ef1) fs' (m, ws) = (r, ef)" using ran(2) c Inr by (simp add: x s_def m)
      from c obtain srv tr where "s srv [] = (Inr (m, ws), tr)" unfolding Inr m by (cases rule: withClient_cases) auto
      then obtain rc where "reply_plan w i store rq t cc bcc atts rc = Inr (m, ws)" by (auto simp: s_def session_simps)
      then show ?thesis using ctx reply_plan_writable dispatch_addressed [OF d assms(2)] by blast
    qed
  qed (use assms(2) in simp)
qed (use assms(2) in simp)

text \<open>
  C6. Whoever is named to a mail server or to Resend when a message or a reply is sent, in To, Cc or Bcc, is a contact with
  the write permission for the active identity in the contacts that were loaded for the call.
\<close>

theorem send_tools_gated:
  assumes "(r, ef) \<in> {sendEmail w ov rq fs, replyMessage w ov rq fs}" "a \<in> set (addressed ef)"
  shows "\<exists>i cfg store fs'. resolveContext w ov fs = (Inr (i, cfg, store), fs') \<and> writable (tw_parse w) (tw_ulow w) store (id_Email i) a"
  using assms(1)
proof (elim insertE)
  assume "(r, ef) = sendEmail w ov rq fs"
  from sendEmail_gated [OF this [symmetric] assms(2)] show ?thesis .
next
  assume "(r, ef) = replyMessage w ov rq fs"
  from replyMessage_gated [OF this [symmetric] assms(2)] show ?thesis .
qed simp

subsection \<open>A sample world\<close>

definition sample_ident :: identity where
  "sample_ident = \<lparr>id_Handle = ''me'', id_Name = [], id_Email = ''me'', id_GPGKeyID = [], id_Source = ''ethos''\<rparr>"

definition sample_files :: file_map where
  "sample_files = [''/h/.punt-labs/beadle/identities/me/email.json'' \<mapsto> ''{}'',
     ''/h/.punt-labs/beadle/identities/me/contacts.json'' \<mapsto> ''[]'']"

definition sample_world :: "string tool_world" where
  "sample_world = \<lparr>tw_resolver = \<lparr>rs_ethosDir = ''/e'', rs_beadleDir = ''/b'', rs_repoDir = []\<rparr>,
     tw_yaml = \<lparr>ym_identity = (\<lambda>_. Inl []), ym_extension = (\<lambda>_. Inl []), ym_repo = (\<lambda>_. Inl [])\<rparr>,
     tw_reader = reader_of, tw_home = Inr ''/h'', tw_mkdir = True,
     tw_copy = (\<lambda>_. \<lparr>ci_stat = True, ci_open = True, ci_fstat = True, ci_create = True, ci_copy = None, ci_close = True, ci_remove = True\<rparr>),
     tw_json = MailConfig.sample_json\<lparr>js_config := (\<lambda>_. Inr sample_config)\<rparr>,
     tw_contacts = (\<lambda>_. Inr [sample_alice, sample_domain]), tw_parse = (\<lambda>_. None), tw_ulow = (\<lambda>r. r), tw_ufold = (\<lambda>r. r),
     tw_dial = (\<lambda>_. Inr sample_server), tw_git = None, tw_since = (\<lambda>_. Inl []), tw_verify = (\<lambda>_ _. Inl NoTempDir),
     tw_read = \<lparr>ro_lib = sample_lib, ro_ulow = (\<lambda>r. r), ro_protocol = (\<lambda>_. None), ro_signer = [], ro_secrets = sample_secrets,
       ro_decrypt = (\<lambda>_ _. None)\<rparr>,
     tw_chain = sample_io, tw_date = (\<lambda>_. None), tw_open = (\<lambda>_. Inl []), tw_types = (\<lambda>_. []), tw_times = sample_times,
     tw_store = all_writes, tw_attach_mkdir = True, tw_attach_write = None, tw_cwd = Inl []\<rparr>"

definition args_request :: "(string \<times> string) list \<Rightarrow> request" where
  "args_request ps = \<lparr>rq_args = map_option StringArg \<circ> map_of ps, rq_require = map_of ps\<rparr>"

definition send_request :: request where
  "send_request = args_request [(''to'', ''alice''), (''subject'', ''hi''), (''body'', ''text'')]"

theorem send_tools_gated_witness:
  "\<exists>i cfg store fs'. resolveContext sample_world (Some sample_ident) sample_files = (Inr (i, cfg, store), fs')
    \<and> writable (tw_parse sample_world) (tw_ulow sample_world) store (id_Email i) ''a@b''"
proof -
  let ?run = "sendEmail sample_world (Some sample_ident) send_request sample_files"
  have r: "(fst ?run, snd ?run) \<in> {?run, replyMessage sample_world (Some sample_ident) send_request sample_files}" by simp
  have "list_ex (\<lambda>a. a = ''a@b'') (addressed (snd ?run))" by code_simp
  then have a: "''a@b'' \<in> set (addressed (snd ?run))" by (simp only: list_ex_iff) blast
  from send_tools_gated [OF r a] show ?thesis .
qed

subsection \<open>Nobody is shown mail the operator does not let the identity read\<close>

lemma read_gate_Inr: "read_gate w i store frm = Inr u \<longleftrightarrow> readable (tw_parse w) (tw_ulow w) store (id_Email i) frm"
  unfolding read_gate_def perm_of_def senderPermission_readable [symmetric] by (simp add: case_prod_unfold Let_def)

lemma ask_Inr: "ask m tr = (Inr x, tr') \<longleftrightarrow> m tr = (Inr x, tr')"
  by (auto simp: ask_def split: prod.splits sum.splits)

lemma verify_read_from: "verify_read w cfg srv folder uid msg tr = (Inr m, tr') \<Longrightarrow> me_From m = me_From msg"
  by (auto simp: verify_read_def split: prod.splits sum.splits if_splits)

lemma readMessage_gated:
  assumes "readMessage w ov rq fs = (Inr text, ef)"
  shows "\<exists>i cfg store fs' m. resolveContext w ov fs = (Inr (i, cfg, store), fs') \<and> text = formatMessage (tw_times w) m
    \<and> readable (tw_parse w) (tw_ulow w) store (id_Email i) (me_From m)"
  using assms unfolding readMessage_def
proof (cases rule: in_context_cases)
  case (ran i cfg store fs')
  note ctx = ran(1)
  from ran(2) show ?thesis
  proof (cases rule: given_cases)
    case (ran x)
    obtain uid n where x: "x = (uid, n)" by (cases x)
    from ran(2) [unfolded x prod.case] show ?thesis
    proof (cases rule: withClient_cases)
      case (ran srv tr)
      from ran(2) obtain mo tr1 where mo: "ask (FetchMessage srv (reader_for w cfg) (folder_of rq) uid) [] = (Inr mo, tr1)"
          "(case mo of None \<Rightarrow> answer (Inl Panics) | Some msg \<Rightarrow>
             and_ask (answer (read_gate w i store (me_From msg))) (\<lambda>_.
             and_ask (verify_read w cfg srv (folder_of rq) uid msg) (\<lambda>msg.
               answer (Inr (formatMessage (tw_times w) (msg\<lparr>me_Body := truncate_body n (me_Body msg)\<rparr>)))))) tr1 = (Inr text, tr)"
        unfolding and_ask_Inr by blast
      obtain msg where msg: "mo = Some msg" using mo(2) by (cases mo) (simp_all add: answer_def)
      obtain m tr2 where m: "read_gate w i store (me_From msg) = Inr ()" "verify_read w cfg srv (folder_of rq) uid msg tr1 = (Inr m, tr2)"
          "text = formatMessage (tw_times w) (m\<lparr>me_Body := truncate_body n (me_Body m)\<rparr>)"
        using mo(2) by (auto simp: msg session_simps)
      have "readable (tw_parse w) (tw_ulow w) store (id_Email i) (me_From (m\<lparr>me_Body := truncate_body n (me_Body m)\<rparr>))"
        using m(1) verify_read_from [OF m(2)] by (simp add: read_gate_Inr)
      then show ?thesis using ctx m(3) by blast
    qed simp
  qed simp
qed simp

lemma redact_shown: "readable (tw_parse w) (tw_ulow w) store (id_Email i) (ms_From (redact w i store m))
    \<or> ms_Subject (redact w i store m) = redacted"
  by (simp add: redact_def perm_of_def senderPermission_readable)

lemma render_redacted:
  assumes "renderMessages w cfg i store srv folder lr tr = (Inr text, tr')"
  shows "\<exists>lr'. formatMessagesResult (tw_parse w) (tw_times w) lr' = Some text
    \<and> list_all (\<lambda>m. readable (tw_parse w) (tw_ulow w) store (id_Email i) (ms_From m) \<or> ms_Subject m = redacted) (lr_Messages lr')"
proof -
  obtain ms where "formatMessagesResult (tw_parse w) (tw_times w) (lr\<lparr>lr_Messages := map (redact w i store) ms\<rparr>) = Some text"
    using assms by (auto simp: renderMessages_def session_simps split: option.splits)
  moreover have "list_all (\<lambda>m. readable (tw_parse w) (tw_ulow w) store (id_Email i) (ms_From m) \<or> ms_Subject m = redacted)
      (lr_Messages (lr\<lparr>lr_Messages := map (redact w i store) ms\<rparr>))"
    using redact_shown by (auto simp: list_all_iff)
  ultimately show ?thesis by blast
qed

lemma listMessages_redacted:
  assumes "listMessages w ov rq fs = (Inr text, ef)"
  shows "\<exists>i cfg store fs' lr. resolveContext w ov fs = (Inr (i, cfg, store), fs')
    \<and> formatMessagesResult (tw_parse w) (tw_times w) lr = Some text
    \<and> list_all (\<lambda>m. readable (tw_parse w) (tw_ulow w) store (id_Email i) (ms_From m) \<or> ms_Subject m = redacted) (lr_Messages lr)"
  using assms unfolding listMessages_def
proof (cases rule: in_context_cases)
  case (ran i cfg store fs')
  note ctx = ran(1)
  from ran(2) show ?thesis
  proof (cases rule: given_cases)
    case (ran x)
    obtain n off where x: "x = (n, off)" by (cases x)
    from ran(2) [unfolded x prod.case] show ?thesis
    proof (cases rule: withClient_cases)
      case (ran srv tr)
      then show ?thesis using ctx render_redacted unfolding and_ask_Inr by blast
    qed simp
  qed simp
qed simp

lemma searchMessages_redacted:
  assumes "searchMessages w ov rq fs = (Inr text, ef)"
  shows "\<exists>i cfg store fs' lr. resolveContext w ov fs = (Inr (i, cfg, store), fs')
    \<and> formatMessagesResult (tw_parse w) (tw_times w) lr = Some text
    \<and> list_all (\<lambda>m. readable (tw_parse w) (tw_ulow w) store (id_Email i) (ms_From m) \<or> ms_Subject m = redacted) (lr_Messages lr)"
  using assms unfolding searchMessages_def
proof (cases rule: in_context_cases)
  case (ran i cfg store fs')
  note ctx = ran(1)
  from ran(2) show ?thesis
  proof (cases rule: given_cases)
    case (ran x)
    obtain q n off where x: "x = (q, n, off)" by (cases x)
    from ran(2) [unfolded x prod.case] show ?thesis
    proof (cases rule: withClient_cases)
      case (ran srv tr)
      then show ?thesis using ctx render_redacted unfolding and_ask_Inr by blast
    qed simp
  qed simp
qed simp

text \<open>
  C7. The three tools that are for reading mail respect the read permission: \<open>read_message\<close> shows a message only when its
  sender is a contact with the permission for the active identity; and of everyone else's mail \<open>list_messages\<close> and
  \<open>search_messages\<close> show no subject, only the rest of the row (sender, date, number, trust and unread state). The tools that
  diagnose one message have no such gate: see \<open>diagnosis_ignores_contacts\<close>.
\<close>

theorem shown_is_readable:
  "(case fst (readMessage w ov rq fs) of Inl _ \<Rightarrow> True
    | Inr text \<Rightarrow> \<exists>i cfg store fs' m. resolveContext w ov fs = (Inr (i, cfg, store), fs') \<and> text = formatMessage (tw_times w) m
        \<and> readable (tw_parse w) (tw_ulow w) store (id_Email i) (me_From m))
   \<and> list_all (\<lambda>f. case fst (f w ov rq fs) of Inl _ \<Rightarrow> True
    | Inr text \<Rightarrow> \<exists>i cfg store fs' lr. resolveContext w ov fs = (Inr (i, cfg, store), fs')
        \<and> formatMessagesResult (tw_parse w) (tw_times w) lr = Some text
        \<and> list_all (\<lambda>m. readable (tw_parse w) (tw_ulow w) store (id_Email i) (ms_From m) \<or> ms_Subject m = redacted) (lr_Messages lr))
      [listMessages, searchMessages]"
proof -
  define sh where "sh t = (\<exists>i cfg store fs' m. resolveContext w ov fs = (Inr (i, cfg, store), fs')
      \<and> t = formatMessage (tw_times w) m \<and> readable (tw_parse w) (tw_ulow w) store (id_Email i) (me_From m))" for t
  define li where "li t = (\<exists>i cfg store fs' lr. resolveContext w ov fs = (Inr (i, cfg, store), fs')
        \<and> formatMessagesResult (tw_parse w) (tw_times w) lr = Some t
        \<and> list_all (\<lambda>m. readable (tw_parse w) (tw_ulow w) store (id_Email i) (ms_From m) \<or> ms_Subject m = redacted) (lr_Messages lr))" for t
  have a: "sh t" if "fst (readMessage w ov rq fs) = Inr t" for t
    unfolding sh_def by (rule readMessage_gated [OF prod_eqI]) (use that in simp_all)
  have b: "li t" if "fst (listMessages w ov rq fs) = Inr t" for t
    unfolding li_def by (rule listMessages_redacted [OF prod_eqI]) (use that in simp_all)
  have c: "li t" if "fst (searchMessages w ov rq fs) = Inr t" for t
    unfolding li_def by (rule searchMessages_redacted [OF prod_eqI]) (use that in simp_all)
  show ?thesis unfolding sh_def [symmetric] li_def [symmetric]
    using a b c by (simp split: sum.splits)
qed

end
