(* ===== verification/ToolSafety.thy ===== *)
theory ToolSafety
  imports Tools
begin

section \<open>What the tools leave alone\<close>

text \<open>
  The tools that read never change the mailbox; the tools that change it name only the messages that were asked for; an
  attachment is written into one directory and only for a sender that may be read; and the session's identity.
\<close>

subsection \<open>Reading tools\<close>

definition quiet_session :: "'a session \<Rightarrow> bool" where
  "quiet_session m \<longleftrightarrow> (\<forall>tr. \<exists>cs. snd (m tr) = tr @ cs \<and> list_all harmless cs)"

named_theorems quiet_intros

lemma quietD: "quiet_session m \<Longrightarrow> m tr = (r, tr') \<Longrightarrow> \<exists>cs. tr' = tr @ cs \<and> list_all harmless cs"
  unfolding quiet_session_def by (metis snd_conv)

lemma quiet_ask [quiet_intros]: "reads m \<Longrightarrow> quiet_session (ask m)"
  unfolding quiet_session_def
proof
  fix tr
  assume m: "reads m"
  obtain r tr' where r: "m tr = (r, tr')" by force
  obtain cs where "tr' = tr @ cs" "list_all harmless cs" using readsD [OF m r] by blast
  then show "\<exists>cs. snd (ask m tr) = tr @ cs \<and> list_all harmless cs" using r by (cases r) (simp_all add: ask_def)
qed

lemma quiet_answer [quiet_intros]: "quiet_session (answer r)"
  by (simp add: quiet_session_def answer_def)

lemma quiet_and_ask [quiet_intros]:
  assumes "quiet_session m" "\<And>x. quiet_session (f x)"
  shows "quiet_session (and_ask m f)"
  unfolding quiet_session_def
proof
  fix tr
  obtain r tr1 where m: "m tr = (r, tr1)" by force
  obtain cs where cs: "tr1 = tr @ cs" "list_all harmless cs" using quietD [OF assms(1) m] by blast
  show "\<exists>cs. snd (and_ask m f tr) = tr @ cs \<and> list_all harmless cs"
  proof (cases r)
    case (Inr x)
    obtain r2 tr2 where f: "f x tr1 = (r2, tr2)" by force
    obtain ds where "tr2 = tr1 @ ds" "list_all harmless ds" using quietD [OF assms(2) f] by blast
    then show ?thesis using m f Inr cs by (intro exI [of _ "cs @ ds"]) (simp add: and_ask_def)
  qed (use m cs in \<open>simp add: and_ask_def\<close>)
qed

lemma quiet_fetch:
  assumes "FetchRaw srv folder u tr = (r, tr')"
  shows "\<exists>cs. tr' = tr @ cs \<and> list_all harmless cs"
  using readsD [OF reads_FetchRaw assms] .

lemma quiet_verify_read [quiet_intros]: "quiet_session (verify_read w cfg srv folder uid msg)"
  unfolding quiet_session_def
proof
  fix tr
  obtain r tr' where f: "FetchRaw srv folder uid tr = (r, tr')" by force
  have "snd (verify_read w cfg srv folder uid msg tr) \<in> {tr, tr'}"
    using f by (auto simp: verify_read_def split: sum.splits)
  then show "\<exists>cs. snd (verify_read w cfg srv folder uid msg tr) = tr @ cs \<and> list_all harmless cs"
    using quiet_fetch [OF f] by auto
qed

lemma quiet_verify_listed [quiet_intros]: "quiet_session (verify_listed w cfg srv folder ms)"
proof (induction ms)
  case (Cons m ms)
  show ?case
    unfolding quiet_session_def
  proof
    fix tr
    define step where "step = (if \<not> ms_HasSig m then (m, tr) else case parse_uid (ms_ID m) of
            None \<Rightarrow> (m, tr)
          | Some u \<Rightarrow> (case FetchRaw srv folder u tr of
              (Inl e, tr1) \<Rightarrow> (m, tr1)
            | (Inr raw, tr1) \<Rightarrow> (case tw_verify w (mc_GPGBinary cfg) raw of
                Inl e \<Rightarrow> (m, tr1)
              | Inr r \<Rightarrow> (m\<lparr>ms_TrustLevel := if vf_Valid r then Verified else Untrusted\<rparr>, tr1))))"
    obtain m' tr' where s: "step = (m', tr')" by force
    have "tr' = tr \<or> (\<exists>u r. FetchRaw srv folder u tr = (r, tr'))"
      using s by (auto simp: step_def split: if_splits option.splits prod.splits sum.splits)
    then obtain cs where cs: "tr' = tr @ cs" "list_all harmless cs"
    proof
      assume "tr' = tr"
      then show ?thesis using that [of "[]"] by simp
    next
      assume "\<exists>u r. FetchRaw srv folder u tr = (r, tr')"
      then show ?thesis using quiet_fetch that by blast
    qed
    have "quiet_session (and_ask (verify_listed w cfg srv folder ms) (\<lambda>ms'. answer (Inr (m' # ms'))))"
      by (intro quiet_intros Cons.IH)
    then obtain ds where ds: "snd (and_ask (verify_listed w cfg srv folder ms) (\<lambda>ms'. answer (Inr (m' # ms'))) tr') = tr' @ ds"
        "list_all harmless ds" unfolding quiet_session_def by blast
    have "verify_listed w cfg srv folder (m # ms) tr = and_ask (verify_listed w cfg srv folder ms) (\<lambda>ms'. answer (Inr (m' # ms'))) tr'"
      using s by (simp add: step_def)
    then show "\<exists>cs. snd (verify_listed w cfg srv folder (m # ms) tr) = tr @ cs \<and> list_all harmless cs"
      using cs ds by (intro exI [of _ "cs @ ds"]) simp
  qed
qed (simp add: quiet_session_def)

lemma quiet_renderMessages [quiet_intros]: "quiet_session (renderMessages w cfg i store srv folder lr)"
  unfolding renderMessages_def by (intro quiet_intros)

text \<open>An outcome whose session only read.\<close>

definition reading :: "'a outcome \<Rightarrow> bool" where
  "reading x \<longleftrightarrow> list_all harmless (ef_imap (snd x))"

named_theorems reading_intros

lemma reading_stop [reading_intros]: "reading (stop e fs)" "reading (r, quiet fs)" "reading (r, (quiet fs)\<lparr>ef_store := st\<rparr>)"
  by (simp_all add: reading_def stop_def quiet_def)

lemma reading_context [reading_intros]: "(\<And>i cfg store fs'. reading (f i cfg store fs')) \<Longrightarrow> reading (in_context w ov fs f)"
  by (auto simp: in_context_def reading_intros split: prod.splits sum.splits)

lemma reading_config [reading_intros]: "(\<And>cfg fs'. reading (f cfg fs')) \<Longrightarrow> reading (in_config w ov fs f)"
  by (auto simp: in_config_def reading_intros split: prod.splits sum.splits)

lemma reading_given [reading_intros]: "(\<And>x. reading (f x)) \<Longrightarrow> reading (given a fs f)"
  by (auto simp: given_def reading_intros split: sum.splits)

lemma reading_client [reading_intros]:
  assumes "\<And>srv. quiet_session (f srv)"
  shows "reading (withClient w cfg fs f)"
proof (cases "tw_dial w cfg")
  case (Inr srv)
  obtain r tr where f: "f srv [] = (r, tr)" by force
  then show ?thesis using quietD [OF assms f] Inr by (auto simp: withClient_def reading_def)
qed (simp add: withClient_def reading_intros)

lemma reading_raw [reading_intros]: "reading (with_raw w cfg rq fs f)"
  unfolding with_raw_def by (auto intro!: reading_intros quiet_intros reads_intros split: prod.split)

lemma reading_dispatch: "list_all harmless tr \<Longrightarrow> reading (dispatch w cfg tr fs msg)"
  by (simp add: dispatch_def reading_def split: prod.splits)

lemma reading_list: "reading (listMessages w ov rq fs)"
  unfolding listMessages_def by (auto intro!: reading_intros quiet_intros reads_intros)

lemma reading_search: "reading (searchMessages w ov rq fs)"
  unfolding searchMessages_def by (auto intro!: reading_intros quiet_intros reads_intros)

lemma reading_read: "reading (readMessage w ov rq fs)"
  unfolding readMessage_def
  by (auto intro!: reading_intros quiet_intros reads_intros split: option.splits)

lemma reading_reply: "reading (replyMessage w ov rq fs)"
  unfolding replyMessage_def
proof (intro reading_intros, goal_cases)
  case (1 i cfg store fs' x)
  obtain uid t cc bcc atts where x: "x = (uid, t, cc, bcc, atts)" by (cases x)
  define c where "c = withClient w cfg fs' (\<lambda>srv.
      and_ask (ask (FetchThread srv (ro_lib (tw_read w)) (tw_parse w) (tw_date w) (folder_of rq) uid)) (\<lambda>rc.
        answer (reply_plan w i store rq t cc bcc atts rc)))"
  obtain r ef where e: "c = (r, ef)" by (cases c)
  have "reading c" unfolding c_def by (auto intro!: reading_intros quiet_intros reads_intros)
  then have h: "list_all harmless (ef_imap ef)" by (simp add: reading_def e)
  show ?case using e h by (cases r) (simp_all add: x c_def [symmetric] reading_dispatch [unfolded reading_def] reading_def)
qed

lemma reading_download: "reading (downloadAttachment w ov rq fs)"
  unfolding downloadAttachment_def
proof (intro reading_intros, goal_cases)
  case (1 i cfg store fs' x)
  obtain s n uid where x: "x = (s, n, uid)" by (cases x)
  define c where "c = withClient w cfg fs' (\<lambda>srv.
      and_ask (ask (FetchRaw srv (folder_of rq) uid)) (\<lambda>raw. answer (download_part w i store n raw)))"
  obtain r ef where e: "c = (r, ef)" by (cases c)
  have "reading c" unfolding c_def by (auto intro!: reading_intros quiet_intros reads_intros)
  then have h: "list_all harmless (ef_imap ef)" by (simp add: reading_def e)
  show ?case using e h
    by (cases r) (auto simp: x c_def [symmetric] reading_def split: prod.splits)
qed

text \<open>
  C8. No tool but the four that say so moves a message or changes its read state: whatever it is given and whatever
  fails, each of the others sends the IMAP server only searches, status requests, selections of a folder for reading and
  fetches that leave the read state alone.
\<close>

theorem only_marking_marks:
  "list_all (\<lambda>f. list_all harmless (ef_imap (snd (f w ov rq fs))))
    [listMessages, searchMessages, readMessage, verifySignature, showMIME, checkTrust, sendEmail, replyMessage,
     downloadAttachment, findContact, addContact, removeContact, \<lambda>w ov rq fs. listFolders w ov fs,
     \<lambda>w ov rq fs. listContacts w ov fs]"
proof -
  have "reading (verifySignature w ov rq fs)" "reading (showMIME w ov rq fs)" "reading (checkTrust w ov rq fs)"
    unfolding verifySignature_def showMIME_def checkTrust_def by (auto intro!: reading_intros)
  moreover have "reading (sendEmail w ov rq fs)" unfolding sendEmail_def by (auto intro!: reading_intros reading_dispatch)
  moreover have "reading (listFolders w ov fs)" unfolding listFolders_def by (auto intro!: reading_intros quiet_intros reads_intros)
  moreover have "reading (listContacts w ov fs)" "reading (findContact w ov rq fs)"
    unfolding listContacts_def findContact_def by (auto intro!: reading_intros)
  moreover have "reading (addContact w ov rq fs)" "reading (removeContact w ov rq fs)"
    unfolding addContact_def removeContact_def by (auto intro!: reading_intros split: prod.split option.split list.split)
  ultimately show ?thesis
    using reading_list [of w ov rq fs] reading_search [of w ov rq fs] reading_read [of w ov rq fs] reading_reply [of w ov rq fs]
      reading_download [of w ov rq fs] by (simp add: reading_def)
qed

subsection \<open>Where attachments go\<close>

lemma LastIndexByte_none: "LastIndexByte s c = None \<Longrightarrow> c \<notin> set s"
proof (induction s)
  case (Cons x s)
  then show ?case by (cases "LastIndexByte s c") (simp_all split: if_splits)
qed simp

lemma LastIndexByte_Some: "LastIndexByte s c = Some i \<Longrightarrow> c \<notin> set (drop (Suc i) s)"
  by (induction s arbitrary: i) (auto simp: LastIndexByte_none split: option.splits if_splits)

lemma Base_cases: "Base p = [SLASH] \<or> (Base p \<noteq> [] \<and> SLASH \<notin> set (Base p))"
proof (cases "p = []")
  case False
  define q where "q = rev (dropWhile (\<lambda>c. c = SLASH) (rev p))"
  define r where "r = (case LastIndexByte q SLASH of None \<Rightarrow> q | Some i \<Rightarrow> drop (Suc i) q)"
  have "SLASH \<notin> set r" unfolding r_def using LastIndexByte_Some LastIndexByte_none by (auto split: option.splits)
  moreover have "Base p = (if r = [] then [SLASH] else r)"
    using False by (simp add: Base_def q_def [symmetric] r_def [symmetric] Let_def)
  ultimately show ?thesis by simp
qed (simp add: Base_def)

lemma path_comps_trailing:
  assumes "x \<noteq> []"
  shows "path_comps (x @ [SLASH]) = path_comps x"
proof -
  have "Split (x @ [SLASH]) SLASH = Split x SLASH @ [[]]" by (simp add: Split_append_sep2)
  moreover have "IsAbs (x @ [SLASH]) = IsAbs x" using assms by (cases x) (simp_all add: IsAbs_def)
  ultimately show ?thesis by (simp add: path_comps_def clean_comps_append)
qed

text \<open>A name between the message's number and the sender's file name is one entry of the directory, whatever that name is.\<close>

lemma saved_name:
  assumes "s \<noteq> []" "SLASH \<notin> set s" "d \<noteq> []" "SLASH \<notin> set f \<or> f = [SLASH]"
  shows "\<exists>n. plain_name n \<and> path_comps (JoinPath [d, s @ ''_'' @ f]) = path_comps d @ [n]"
proof -
  define n where "n = (if f = [SLASH] then s @ ''_'' else s @ ''_'' @ f)"
  have "CHR ''_'' \<in> set n" "SLASH \<notin> set n" using assms(2,4) by (auto simp: n_def)
  then have p: "plain_name n" by (auto simp: plain_name_def)
  have c: "path_comps (JoinPath [d, n]) = path_comps d @ [n]" "JoinPath [d, n] = Clean (d @ SLASH # n)"
    using comps_JoinPath(1) [of "[n]" d] p assms(3) by (simp_all add: JoinPath_def)
  have "JoinPath [d, s @ ''_'' @ f] = JoinPath [d, n]"
  proof (cases "f = [SLASH]")
    case True
    have "path_comps ((d @ SLASH # n) @ [SLASH]) = path_comps (d @ SLASH # n)" by (rule path_comps_trailing) simp
    moreover have "IsAbs ((d @ SLASH # n) @ [SLASH]) = IsAbs (d @ SLASH # n)" using assms(3) by (cases d) (simp_all add: IsAbs_def)
    ultimately have "Clean ((d @ SLASH # n) @ [SLASH]) = Clean (d @ SLASH # n)" by (simp add: Clean_def)
    moreover have "JoinPath [d, s @ ''_'' @ f] = Clean ((d @ SLASH # n) @ [SLASH])"
      using assms(3) True by (simp add: JoinPath_def n_def)
    ultimately show ?thesis using c(2) by simp
  qed (simp add: n_def)
  then show ?thesis using p c(1) by auto
qed

lemma parse_uid_digits: "parse_uid s = Some u \<Longrightarrow> s \<noteq> [] \<and> SLASH \<notin> set s"
proof -
  assume "parse_uid s = Some u"
  then have "s \<noteq> [] \<and> list_all is_digit s"
    by (auto simp: parse_uid_def ParseUint32_def ParseDigits_def split: option.splits if_splits)
  then show ?thesis by (auto simp: list_all_iff is_digit_def byte_def)
qed

lemma download_part_Inr:
  assumes "download_part w i store n raw = Inr pd"
  shows "readable (tw_parse w) (tw_ulow w) store (id_Email i) (header (snd (snd (ParseMIME (ro_lib (tw_read w)) raw))) ''From'')"
  using assms by (auto simp: download_part_def Let_def and_then_Inr_iff read_gate_Inr)

text \<open>Files directly in a directory.\<close>

definition entry_of_dir :: "string list \<Rightarrow> string \<Rightarrow> bool" where
  "entry_of_dir cs p \<longleftrightarrow> (\<exists>n. plain_name n \<and> path_comps p = cs @ [n])"

lemma save_attachment_confined:
  assumes "save_attachment w i cfg s n part data fs = (r, fs')" "fs' p \<noteq> fs p" "s \<noteq> []" "SLASH \<notin> set s"
    "plain_name (Base (mc_IMAPUser cfg))" "tw_home w = Inr h" "0 \<le> n"
  shows "\<exists>idDir. IdentityDir (tw_home w) (id_Email i) = Inr idDir
    \<and> entry_of_dir (path_comps idDir @ [''attachments'', Base (mc_IMAPUser cfg)]) p"
proof -
  obtain idDir where d: "IdentityDir (tw_home w) (id_Email i) = Inr idDir" using assms(6) by (simp add: IdentityDir_def DataDir_def)
  let ?f = "attachment_name s n part" and ?d = "attach_dir idDir cfg"
  have p: "p = JoinPath [?d, s @ ''_'' @ ?f]"
    using assms(1,2) by (auto simp: save_attachment_def d Let_def split: if_splits option.splits prod.splits)
  have ne: "idDir \<noteq> []"
    using d DataDir_nonempty [of "tw_home w"] JoinPath_nonempty by (auto simp: IdentityDir_def and_then_Inr_iff)
  have a: "plain_name ''attachments''" by (simp add: plain_name_def)
  have c: "path_comps ?d = path_comps idDir @ [''attachments'', Base (mc_IMAPUser cfg)]" "?d \<noteq> []"
    using comps_JoinPath(1,3) [of "[''attachments'', Base (mc_IMAPUser cfg)]" idDir] a assms(5) ne by (simp_all add: attach_dir_def)
  have "SLASH \<notin> set ?f \<or> ?f = [SLASH]"
    using Base_cases [of "pt_Filename part"] assms(7) not_digit_notin [of SLASH "nat n"]
    by (auto simp: attachment_name_def Let_def Itoa_def is_digit_def byte_def)
  from saved_name [OF assms(3,4) c(2) this] show ?thesis using d p c(1) by (auto simp: entry_of_dir_def)
qed

lemma context_home: "resolveContext w ov fs = (Inr c, fs') \<Longrightarrow> \<exists>h. tw_home w = Inr h"
  by (cases "tw_home w")
    (auto simp: resolveContext_def resolveIdentityAndConfig_def DataDir_def split: prod.splits sum.splits option.splits)

text \<open>
  C9. Whatever file name a message gives its attachment, a download changes no file outside the attachments directory of
  the active identity and its mailbox, and none at all unless the sender named in the message's own bytes is a contact the
  identity may read.
\<close>

theorem download_confined:
  assumes "downloadAttachment w ov rq fs = (r, ef)" "resolveContext w ov fs = (Inr (i, cfg, store), fs1)" "ef_files ef p \<noteq> fs1 p"
    "plain_name (Base (mc_IMAPUser cfg))"
  shows "\<exists>idDir srv raw uid tr. IdentityDir (tw_home w) (id_Email i) = Inr idDir
    \<and> entry_of_dir (path_comps idDir @ [''attachments'', Base (mc_IMAPUser cfg)]) p
    \<and> tw_dial w cfg = Inr srv \<and> FetchRaw srv (folder_of rq) uid [] = (Inr raw, tr)
    \<and> readable (tw_parse w) (tw_ulow w) store (id_Email i) (header (snd (snd (ParseMIME (ro_lib (tw_read w)) raw))) ''From'')"
  using assms(1) unfolding downloadAttachment_def
proof (cases rule: in_context_cases)
  case (failed e fs')
  then show ?thesis using assms(2) by simp
next
  case (ran i' cfg' store' fs')
  then have e: "i' = i" "cfg' = cfg" "store' = store" "fs' = fs1" using assms(2) by simp_all
  from ran(2) show ?thesis
  proof (cases rule: given_cases)
    case (failed e)
    then show ?thesis using assms(3) \<open>fs' = fs1\<close> by (simp add: quiet_def)
  next
    case (ran x)
    obtain s n uid where x: "x = (s, n, uid)" by (cases x)
    have a: "required rq ''message_id'' = Inr s" "0 \<le> n" "uid_of s = Inr uid"
      using ran(1) by (auto simp: download_args_def and_then_Inr_iff x split: if_splits)
    have s: "s \<noteq> [] \<and> SLASH \<notin> set s" using a(3) parse_uid_digits [of s] by (auto simp: uid_of_def split: option.splits)
    define f where "f = (\<lambda>srv. and_ask (ask (FetchRaw srv (folder_of rq) uid)) (\<lambda>raw. answer (download_part w i store n raw)))"
    have g: "(case withClient w cfg fs1 f of (Inl e, ef) \<Rightarrow> (Inl e, ef)
       | (Inr (part, data), ef) \<Rightarrow> (case save_attachment w i cfg s n part data fs1 of (r, fs') \<Rightarrow> (r, ef\<lparr>ef_files := fs'\<rparr>))) = (r, ef)"
      using ran(2) unfolding x e f_def prod.case .
    obtain r1 ef1 where c: "withClient w cfg fs1 f = (r1, ef1)" by force
    have q: "ef_files ef1 = fs1" using c by (cases rule: withClient_cases) (simp_all add: quiet_def)
    obtain part data where p: "r1 = Inr (part, data)"
      using g c assms(3) q by (cases r1) auto
    obtain r2 fs2 where v: "save_attachment w i cfg s n part data fs1 = (r2, fs2)" by force
    have "ef_files ef = fs2" using g c v by (auto simp: p)
    then have ch: "fs2 p \<noteq> fs1 p" using assms(3) by simp
    obtain h where h: "tw_home w = Inr h" using context_home [OF assms(2)] by blast
    obtain idDir where d: "IdentityDir (tw_home w) (id_Email i) = Inr idDir"
        "entry_of_dir (path_comps idDir @ [''attachments'', Base (mc_IMAPUser cfg)]) p"
      using save_attachment_confined [OF v ch _ _ assms(4) h a(2)] s by blast
    from c obtain srv tr where t: "tw_dial w cfg = Inr srv" "f srv [] = (Inr (part, data), tr)"
      unfolding p by (cases rule: withClient_cases) auto
    then obtain raw tr1 where "FetchRaw srv (folder_of rq) uid [] = (Inr raw, tr1)" "download_part w i store n raw = Inr (part, data)"
      by (auto simp: f_def session_simps ask_Inr)
    then show ?thesis using d t(1) download_part_Inr by blast
  qed
qed

definition mail_server :: imap_server where
  "mail_server = sample_server\<lparr>is_fetch := \<lambda>_. Inr [\<lparr>fe_UID = 7, fe_Envelope = None, fe_Flags = [], fe_Header = [], fe_Body = Some ''raw''\<rparr>]\<rparr>"

definition reading_world :: "string tool_world" where
  "reading_world = sample_world\<lparr>tw_dial := \<lambda>_. Inr mail_server,
     tw_read := (tw_read sample_world)\<lparr>ro_lib := \<lparr>ml_read = (\<lambda>_. Some (\<lambda>k. if k = ''From'' then ''a@b'' else [], Inr ''raw'')),
       ml_media = (\<lambda>s. s), ml_entity = (\<lambda>_. Inr (Single ''text/plain'' (Inr ''data'')))\<rparr>\<rparr>\<rparr>"

definition download_request :: request where
  "download_request = \<lparr>rq_args = [''part_index'' \<mapsto> IntArg 0], rq_require = [''message_id'' \<mapsto> ''7'']\<rparr>"

lemma sample_reading_context: "\<exists>fs1. resolveContext reading_world (Some sample_ident) sample_files
    = (Inr (sample_ident, with_defaults sample_config, \<lparr>s_contacts = [sample_alice, sample_domain], s_file = Some [sample_alice, sample_domain]\<rparr>), fs1)
      \<and> fs1 ''/h/.punt-labs/beadle/identities/me/attachments/u/7_part_0'' = None"
proof -
  have "fst (resolveContext reading_world (Some sample_ident) sample_files)
    = Inr (sample_ident, with_defaults sample_config, \<lparr>s_contacts = [sample_alice, sample_domain], s_file = Some [sample_alice, sample_domain]\<rparr>)"
    by code_simp
  moreover have "snd (resolveContext reading_world (Some sample_ident) sample_files)
      ''/h/.punt-labs/beadle/identities/me/attachments/u/7_part_0'' = None" by code_simp
  ultimately show ?thesis by (intro exI [of _ "snd (resolveContext reading_world (Some sample_ident) sample_files)"]) (simp add: prod_eq_iff)
qed

theorem download_confined_witness:
  "entry_of_dir (path_comps ''/h/.punt-labs/beadle/identities/me'' @ [''attachments'', ''u''])
     ''/h/.punt-labs/beadle/identities/me/attachments/u/7_part_0''"
proof -
  let ?run = "downloadAttachment reading_world (Some sample_ident) download_request sample_files"
    and ?p = "''/h/.punt-labs/beadle/identities/me/attachments/u/7_part_0''"
  have r: "?run = (fst ?run, snd ?run)" by simp
  obtain fs1 where c: "resolveContext reading_world (Some sample_ident) sample_files
      = (Inr (sample_ident, with_defaults sample_config, \<lparr>s_contacts = [sample_alice, sample_domain], s_file = Some [sample_alice, sample_domain]\<rparr>), fs1)"
      "fs1 ?p = None" using sample_reading_context by blast
  have "ef_files (snd ?run) ?p = Some ''data''" by code_simp
  then have d: "ef_files (snd ?run) ?p \<noteq> fs1 ?p" using c(2) by (simp only: option.distinct not_False_eq_True simp_thms)
  have u: "Base (mc_IMAPUser (with_defaults sample_config)) = ''u''" by code_simp
  have n: "plain_name (Base (mc_IMAPUser (with_defaults sample_config)))" unfolding u by (simp add: plain_name_def)
  have i: "IdentityDir (tw_home reading_world) (id_Email sample_ident) = Inr ''/h/.punt-labs/beadle/identities/me''" by code_simp
  from download_confined [OF r c(1) d n] show ?thesis unfolding i u by (elim exE conjE) (simp only: sum.inject)
qed

subsection \<open>What the batch tools touch\<close>

text \<open>The messages a command changes.\<close>

definition changed_uids :: "imap_command \<Rightarrow> 32 word list option" where
  "changed_uids c = (case c of Move us d \<Rightarrow> Some us | StoreSeen us b \<Rightarrow> Some us | _ \<Rightarrow> None)"

lemma batch_commands:
  "c \<in> set (snd (MoveMessages srv folder uids dst [])) \<Longrightarrow> changed_uids c = Some us \<Longrightarrow> us = uids"
  "c \<in> set (snd (SetSeenBatch srv folder uids seen [])) \<Longrightarrow> changed_uids c = Some us \<Longrightarrow> us = uids"
  by (auto simp: MoveMessages_def SetSeenBatch_def next_do_def issue_def give_def changed_uids_def Let_def split: sum.splits if_splits)

lemma batch_run:
  assumes "given (batch_ids rq) fs (\<lambda>ids. if ids = [] then (Inr t, quiet fs)
      else given (batch_uids ids) fs (\<lambda>uids. withClient w cfg fs (\<lambda>srv. and_ask (ask (m srv uids)) (k uids)))) = (r, ef)"
    "\<And>srv uids c us. c \<in> set (snd (m srv uids [])) \<Longrightarrow> changed_uids c = Some us \<Longrightarrow> us = uids"
    "\<And>uids n tr. snd (k uids n tr) = tr"
    "c \<in> set (ef_imap ef)" "changed_uids c = Some us"
  shows "\<exists>ids. stringSliceParam rq ''message_ids'' = Inr (Some ids) \<and> distinct us \<and> 0 \<notin> set us
    \<and> set us = {u. \<exists>i \<in> set ids. parse_uid i = Some u}"
  using assms(1)
proof (cases rule: given_cases)
  case (failed e)
  then show ?thesis using assms(4) by (simp add: quiet_def)
next
  case (ran ids)
  have ids: "stringSliceParam rq ''message_ids'' = Inr (Some ids)"
    using ran(1) by (auto simp: batch_ids_def param_def and_then_Inr_iff split: sum.splits option.splits)
  show ?thesis
  proof (cases "ids = []")
    case False
    from ran(2) have "given (batch_uids ids) fs (\<lambda>uids. withClient w cfg fs (\<lambda>srv. and_ask (ask (m srv uids)) (k uids))) = (r, ef)"
      unfolding if_not_P [OF False] .
    then show ?thesis
    proof (cases rule: given_cases)
      case (failed e)
      then show ?thesis using assms(4) by (simp add: quiet_def)
    next
      case (ran uids)
      have u: "parseUIDs ids = Inr uids" using ran(1) by (auto simp: batch_uids_def split: sum.splits)
      from ran(2) show ?thesis
      proof (cases rule: withClient_cases)
        case (failed e)
        then show ?thesis using assms(4) by (simp add: quiet_def)
      next
        case (ran srv tr)
        obtain r1 tr1 where m: "m srv uids [] = (r1, tr1)" by force
        have "tr = tr1"
        proof (cases r1)
          case (Inr x)
          have "snd (k uids x tr1) = tr" using ran(2) m Inr by (simp add: and_ask_def ask_def)
          then show ?thesis using assms(3) [of uids x tr1] by simp
        qed (use ran(2) m in \<open>simp add: and_ask_def ask_def\<close>)
        then have "us = uids" using assms(2) [of c srv uids us] assms(4,5) m ran(3) by simp
        then show ?thesis using ids parseUIDs_exact [OF u] by blast
      qed
    qed
  qed (use ran(2) assms(4) in \<open>auto simp: quiet_def\<close>)
qed

lemma in_config_cases:
  assumes "in_config w ov fs f = (r, ef)"
  obtains (failed) e fs' where "r = Inl e" "ef = quiet fs'" | (ran) cfg fs' where "f cfg fs' = (r, ef)"
  using assms by (auto simp: in_config_def stop_def split: prod.splits sum.splits)

lemma batchMove_exact:
  assumes "batchMoveMessages w ov rq fs = (r, ef)" "c \<in> set (ef_imap ef)" "changed_uids c = Some us"
  shows "\<exists>ids. stringSliceParam rq ''message_ids'' = Inr (Some ids) \<and> distinct us \<and> 0 \<notin> set us
    \<and> set us = {u. \<exists>i \<in> set ids. parse_uid i = Some u}"
  using assms(1) unfolding batchMoveMessages_def Let_def
proof (cases rule: in_config_cases)
  case (failed e fs')
  then show ?thesis using assms(2) by (simp add: quiet_def)
next
  case (ran cfg fs')
  show ?thesis
    by (rule batch_run [OF ran _ _ assms(2,3)]) (auto simp: answer_def dest: batch_commands)
qed

lemma batchMark_exact:
  assumes "batchMarkMessages w ov rq fs = (r, ef)" "c \<in> set (ef_imap ef)" "changed_uids c = Some us"
  shows "\<exists>ids. stringSliceParam rq ''message_ids'' = Inr (Some ids) \<and> distinct us \<and> 0 \<notin> set us
    \<and> set us = {u. \<exists>i \<in> set ids. parse_uid i = Some u}"
  using assms(1) unfolding batchMarkMessages_def Let_def
proof (cases rule: in_config_cases)
  case (failed e fs')
  then show ?thesis using assms(2) by (simp add: quiet_def)
next
  case (ran cfg fs')
  show ?thesis
    by (rule batch_run [OF ran _ _ assms(2,3)]) (auto simp: answer_def dest: batch_commands)
qed

text \<open>
  C10. A batch move or mark changes exactly the messages it was asked for, each named once: every command that changes
  messages names the parsed ids and no others, and never UID 0, which the protocol reads as the last message of the folder.
\<close>

theorem batch_touches_exactly:
  assumes "(r, ef) \<in> {batchMoveMessages w ov rq fs, batchMarkMessages w ov rq fs}" "c \<in> set (ef_imap ef)" "changed_uids c = Some us"
  shows "\<exists>ids. stringSliceParam rq ''message_ids'' = Inr (Some ids) \<and> distinct us \<and> 0 \<notin> set us
    \<and> set us = {u. \<exists>i \<in> set ids. parse_uid i = Some u}"
  using assms(1)
proof (elim insertE)
  assume "(r, ef) = batchMoveMessages w ov rq fs"
  from batchMove_exact [OF this [symmetric] assms(2,3)] show ?thesis .
next
  assume "(r, ef) = batchMarkMessages w ov rq fs"
  from batchMark_exact [OF this [symmetric] assms(2,3)] show ?thesis .
qed simp

definition batch_request :: request where
  "batch_request = \<lparr>rq_args = [''message_ids'' \<mapsto> ArrayArg [StringArg ''7'', StringArg ''4'', StringArg ''7'']], rq_require = (\<lambda>_. None)\<rparr>"

theorem batch_touches_exactly_witness:
  "distinct [7, 4 :: 32 word] \<and> 0 \<notin> set [7, 4 :: 32 word]"
proof -
  let ?run = "batchMarkMessages sample_world (Some sample_ident) batch_request sample_files"
  have r: "(fst ?run, snd ?run) \<in> {batchMoveMessages sample_world (Some sample_ident) batch_request sample_files, ?run}" by simp
  have "list_ex (\<lambda>c. c = StoreSeen [7, 4] True) (ef_imap (snd ?run))" by code_simp
  then have c: "StoreSeen [7, 4] True \<in> set (ef_imap (snd ?run))" by (simp only: list_ex_iff) blast
  have u: "changed_uids (StoreSeen [7, 4] True) = Some [7, 4]" by (simp add: changed_uids_def)
  from batch_touches_exactly [OF r c u] show ?thesis by (elim exE conjE) (rule conjI)
qed

text \<open>The tools for one message let UID 0 through: a request to mark message 0 reaches the server, as the last message.\<close>

definition marking_world :: "string tool_world" where
  "marking_world = sample_world\<lparr>tw_dial := \<lambda>_. Inr (sample_server\<lparr>is_store := \<lambda>_. Inr [4]\<rparr>)\<rparr>"

lemma single_tools_accept_zero:
  "StoreSeen [0] True \<in> set (ef_imap (snd (markMessage marking_world (Some sample_ident) (args_request [(''message_id'', ''0'')]) sample_files)))"
proof -
  have "list_ex (\<lambda>c. c = StoreSeen [0] True)
    (ef_imap (snd (markMessage marking_world (Some sample_ident) (args_request [(''message_id'', ''0'')]) sample_files)))" by code_simp
  then show ?thesis by (simp only: list_ex_iff) blast
qed

text \<open>
  The write gate looks at the address inside a recipient, and the envelope carries the recipient as it stands: a name with
  its address passes the gate and is handed on whole, to be put into \<open>RCPT TO\<close>.
\<close>

lemma recipient_sent_whole:
  "(case send_args sample_world sample_ident \<lparr>s_contacts = [sample_alice, sample_domain], s_file = None\<rparr>
      (args_request [(''to'', ''A <a@b>''), (''subject'', ''hi''), (''body'', ''text'')]) of
    Inl _ \<Rightarrow> [] | Inr (m, ws) \<Rightarrow> og_to m) = [''A <a@b>'']"
  by code_simp

text \<open>
  \<open>show_mime\<close> and \<open>verify_signature\<close> never look at the address book: they answer the same whatever it holds, so
  \<open>show_mime\<close> shows the text parts of a message from a sender that \<open>read_message\<close> refuses.
\<close>

lemma resolve_ignores_contacts: "resolveIdentityAndConfig (w\<lparr>tw_contacts := d\<rparr>) ov fs = resolveIdentityAndConfig w ov fs"
proof (cases w)
  case (fields a b c e f g h i j k l m n p q r s t u v x y z aa bb)
  show ?thesis unfolding fields resolveIdentityAndConfig_def tool_world.simps ..
qed

lemma diagnosis_ignores_contacts:
  "showMIME (w\<lparr>tw_contacts := d\<rparr>) ov rq fs = showMIME w ov rq fs"
  "verifySignature (w\<lparr>tw_contacts := d\<rparr>) ov rq fs = verifySignature w ov rq fs"
  by (simp_all add: showMIME_def verifySignature_def in_config_def resolve_ignores_contacts with_raw_def withClient_def)

end
