(* ===== verification/Session.thy ===== *)
theory Session
  imports Identity
begin

section \<open>The session roster (internal/session)\<close>

text \<open>
  The participants of a Claude Code session: the topmost claude ancestor found in the process table names the session
  file, which names the roster. The output of \<open>ps\<close>, the files and the YAML decoder are parameters.
\<close>

subsection \<open>Participants\<close>

record Participant =
  pa_AgentID :: string
  pa_Persona :: string
  pa_Parent :: string

record Roster =
  rr_Session :: string
  rr_Started :: string
  rr_Participants :: "Participant list"

definition IsHuman :: "Participant \<Rightarrow> bool" where
  "IsHuman p \<longleftrightarrow> pa_Parent p = []"

definition HumanParticipants :: "Roster \<Rightarrow> Participant list" where
  "HumanParticipants r = filter IsHuman (rr_Participants r)"

definition AgentParticipants :: "Roster \<Rightarrow> Participant list" where
  "AgentParticipants r = filter (\<lambda>p. \<not> IsHuman p) (rr_Participants r)"

subsection \<open>The process table\<close>

record processEntry =
  pe_ppid :: int
  pe_comm :: string

definition process_line :: "string \<Rightarrow> (int \<times> processEntry) option" where
  "process_line line =
     (case Fields line of
        a # b # c # rest \<Rightarrow>
          (case (ParseInt64 a, ParseInt64 b) of
             (Some pid, Some ppid) \<Rightarrow> Some (pid, \<lparr>pe_ppid = ppid, pe_comm = Join (c # rest) '' ''\<rparr>)
           | _ \<Rightarrow> None)
      | _ \<Rightarrow> None)"

text \<open>\<open>out\<close> is what \<open>ps\<close> printed; a later line for the same process replaces an earlier one.\<close>

definition readProcessTable :: "string option \<Rightarrow> (int \<rightharpoonup> processEntry) option" where
  "readProcessTable out =
     map_option (\<lambda>s. fold (\<lambda>line t. case process_line line of None \<Rightarrow> t | Some (pid, e) \<Rightarrow> t(pid \<mapsto> e)) (Split s NL) Map.empty) out"

definition isClaude :: "string \<Rightarrow> bool" where
  "isClaude comm \<longleftrightarrow> Base comm = ''claude''"

fun walk_up :: "nat \<Rightarrow> (int \<rightharpoonup> processEntry) \<Rightarrow> int \<Rightarrow> int set \<Rightarrow> int \<Rightarrow> int" where
  "walk_up 0 t cur visited topmost = topmost"
| "walk_up (Suc n) t cur visited topmost =
     (if cur \<in> visited then topmost
      else case t cur of
        None \<Rightarrow> topmost
      | Some e \<Rightarrow>
          let topmost' = (if isClaude (pe_comm e) then cur else topmost) in
          if pe_ppid e = cur \<or> pe_ppid e = 0 then topmost'
          else walk_up n t (pe_ppid e) (insert cur visited) topmost')"

definition walkToTopmostClaude :: "int \<Rightarrow> (int \<rightharpoonup> processEntry) option \<Rightarrow> int" where
  "walkToTopmostClaude pid table = (case table of None \<Rightarrow> 0 | Some t \<Rightarrow> walk_up 10 t pid {} 0)"

subsection \<open>Reading the roster\<close>

datatype roster_error = SidecarRead string | RosterRead string | RosterParse string

definition sidecar_path :: "string \<Rightarrow> int \<Rightarrow> string" where
  "sidecar_path ethosDir pid = JoinPath [ethosDir, ''sessions'', ''current'', Itoa pid]"

definition roster_path :: "string \<Rightarrow> string \<Rightarrow> string" where
  "roster_path ethosDir session = JoinPath [ethosDir, ''sessions'', session @ ''.yaml'']"

definition ReadRoster ::
    "int \<Rightarrow> reader \<Rightarrow> (string \<Rightarrow> (string, Roster) result) \<Rightarrow> string \<Rightarrow> (roster_error, Roster option) result" where
  "ReadRoster pid rd decode ethosDir =
     (if ethosDir = [] \<or> pid = 0 then Inr None
      else case rd (Clean (sidecar_path ethosDir pid)) of
        Inl ErrNotExist \<Rightarrow> Inr None
      | Inl (OsError e) \<Rightarrow> Inl (SidecarRead e)
      | Inr data \<Rightarrow>
          let session = TrimSpace data in
          if session = [] then Inr None
          else (case rd (Clean (roster_path ethosDir session)) of
            Inl ErrNotExist \<Rightarrow> Inr None
          | Inl (OsError e) \<Rightarrow> Inl (RosterRead e)
          | Inr d \<Rightarrow> (case decode d of Inl e \<Rightarrow> Inl (RosterParse e) | Inr r \<Rightarrow> Inr (Some r))))"

subsection \<open>What the walk finds\<close>

text \<open>
  The same walk with no bound: the ancestors of a process up to the first unknown one, the root, or a cycle. It ends
  because every step visits another process of the table.
\<close>

function ancestors :: "(int \<times> processEntry) list \<Rightarrow> int \<Rightarrow> int list" where
  "ancestors t cur =
     (case map_of t cur of
        None \<Rightarrow> []
      | Some e \<Rightarrow> cur # (if pe_ppid e = cur \<or> pe_ppid e = 0 then [] else ancestors (filter (\<lambda>p. fst p \<noteq> cur) t) (pe_ppid e)))"
  by pat_completeness auto
termination
proof (relation "measure (\<lambda>(t, cur). length t)")
  fix t :: "(int \<times> processEntry) list" and cur e
  assume "map_of t cur = Some e"
  then have "(cur, e) \<in> set t" by (rule map_of_SomeD)
  then have "length (filter (\<lambda>p. fst p \<noteq> cur) t) < length t" by (intro length_filter_less) auto
  then show "((filter (\<lambda>p. fst p \<noteq> cur) t, pe_ppid e), (t, cur)) \<in> measure (\<lambda>(t, cur). length t)" by simp
qed simp

declare ancestors.simps [simp del]

lemma map_of_filter_other: "a \<noteq> c \<Longrightarrow> map_of (filter (\<lambda>p. fst p \<noteq> c) t) a = map_of t a"
  by (induction t) auto

lemma map_of_filter_same: "map_of (filter (\<lambda>p. fst p \<noteq> c) t) c = None"
  by (induction t) auto

definition last_claude :: "(int \<times> processEntry) list \<Rightarrow> int list \<Rightarrow> int \<Rightarrow> int" where
  "last_claude t ps d = fold (\<lambda>p best. case map_of t p of Some e \<Rightarrow> if isClaude (pe_comm e) then p else best | None \<Rightarrow> best) ps d"

lemma walk_ancestors:
  assumes "\<forall>c. map_of s c = (if c \<in> visited then None else map_of t c)"
  shows "walk_up n (map_of t) cur visited best = last_claude t (take n (ancestors s cur)) best"
  using assms
proof (induction n arbitrary: cur visited best s)
  case (Suc n)
  show ?case
  proof (cases "map_of s cur")
    case None
    then have "cur \<in> visited \<or> map_of t cur = None" using Suc.prems by (metis)
    then show ?thesis using None by (auto simp: ancestors.simps [of s] last_claude_def)
  next
    case (Some e)
    then have c: "cur \<notin> visited" "map_of t cur = Some e" using Suc.prems by (metis option.distinct(1))+
    show ?thesis
    proof (cases "pe_ppid e = cur \<or> pe_ppid e = 0")
      case True
      then show ?thesis using c Some by (simp add: ancestors.simps [of s] last_claude_def)
    next
      case False
      let ?s = "filter (\<lambda>p. fst p \<noteq> cur) s"
      have m: "\<forall>c. map_of ?s c = (if c \<in> insert cur visited then None else map_of t c)"
        using Suc.prems map_of_filter_other [of _ cur s] map_of_filter_same [of cur s] by (metis insert_iff)
      show ?thesis using Suc.IH [OF m] c Some False by (simp add: ancestors.simps [of s] last_claude_def)
    qed
  qed
qed (simp add: last_claude_def)

text \<open>
  The walk up the process tree ends whatever the table holds, cycles included, and gives the topmost claude among the
  process and its ancestors, as the unbounded walk finds them, looking at ten processes and no more; 0 when there is none.
\<close>

theorem walk_finds_topmost:
  "walkToTopmostClaude pid (Some (map_of t)) = last_claude t (take 10 (ancestors t pid)) 0 \<and> length (ancestors t pid) \<le> length t"
proof -
  have "length (ancestors t pid) \<le> length t"
  proof (induction t pid rule: ancestors.induct)
    case (1 t cur)
    show ?case
    proof (cases "map_of t cur")
      case (Some e)
      then have "(cur, e) \<in> set t" by (rule map_of_SomeD)
      then have "length (filter (\<lambda>p. fst p \<noteq> cur) t) < length t" by (intro length_filter_less) auto
      moreover have "\<not> (pe_ppid e = cur \<or> pe_ppid e = 0)
          \<Longrightarrow> length (ancestors (filter (\<lambda>p. fst p \<noteq> cur) t) (pe_ppid e)) \<le> length (filter (\<lambda>p. fst p \<noteq> cur) t)"
        using 1 Some by blast
      ultimately show ?thesis using Some by (subst ancestors.simps) auto
    qed (simp add: ancestors.simps)
  qed
  moreover have "walk_up 10 (map_of t) pid {} 0 = last_claude t (take 10 (ancestors t pid)) 0" by (rule walk_ancestors) simp
  ultimately show ?thesis by (simp add: walkToTopmostClaude_def)
qed

end
