(* ===== verification/SessionTools.thy ===== *)
theory SessionTools
  imports Tools Session Enable
begin

section \<open>Session identity, enablement and the WebSocket transport (internal/mcp)\<close>

text \<open>
  The tools of identity_tools.go and enable_tool.go, whose state is the session's identity override, and ws.go: who may
  open a session, and how WebSocket messages and the server's lines are carried over to each other.
\<close>

subsection \<open>Switching the identity\<close>

datatype switch_fail = DefaultBroken id_error | HandleFailed string id_error

text \<open>\<open>stat\<close> is the error of \<open>os.Stat\<close> on a path, if any. The result, and the override after the call.\<close>

definition switchIdentity ::
    "'v tool_world \<Rightarrow> (string \<Rightarrow> os_error option) \<Rightarrow> ToolArgs.request \<Rightarrow> file_map \<Rightarrow> identity option \<Rightarrow> (switch_fail, string) result \<times> identity option" where
  "switchIdentity w stat rq fs ov =
     (let handle = stringParam rq ''handle'' []; rd = tw_reader w fs in
      if handle = [] then
        (case Resolve (tw_yaml w) rd (tw_resolver w) of
           Inl e \<Rightarrow> (Inl (DefaultBroken e), None)
         | Inr d \<Rightarrow> (Inr (''identity reset to default: '' @ id_Handle d @ '' ('' @ id_Email d @ '')''), None))
      else case ResolveHandle (tw_yaml w) rd (tw_resolver w) handle of
        Inl e \<Rightarrow> (Inl (HandleFailed handle e), ov)
      | Inr i \<Rightarrow>
          let msg = ''switched to '' @ id_Handle i @ '' ('' @ id_Email i @ '')'' in
          (Inr (msg @ (case IdentityConfigPath (tw_home w) (id_Email i) of
              Inl e \<Rightarrow> []
            | Inr path \<Rightarrow> if stat path = Some ErrNotExist
                then [NL, NL] @ ''WARNING: no email config at '' @ path @ '' '' @ DASH @ '' email operations will use fallback config.''
                else [])), Some i))"

definition whoami_line :: "string \<Rightarrow> string \<Rightarrow> string" where
  "whoami_line key v = ''   '' @ pad key 16 @ '' '' @ v"

definition participant_line :: "Participant \<Rightarrow> string" where
  "participant_line p =
     (let role = (if IsHuman p then ''human'' else ''agent'');
          persona = (if pa_Persona p = [] then pa_AgentID p else pa_Persona p);
          hint = (if pa_Persona p \<noteq> [] then '' (switch_identity handle='' @ pa_Persona p @ '')'' else [])
      in whoami_line (''  '' @ persona @ '':'') (role @ hint))"

text \<open>The texts of the errors that are shown in a line are parameters: no home, contacts unread, roster unread.\<close>

record error_text =
  et_home :: "string \<Rightarrow> string"
  et_load :: "string \<Rightarrow> string"
  et_roster :: "roster_error \<Rightarrow> string"

definition whoami ::
    "'v tool_world \<Rightarrow> error_text \<Rightarrow> string \<Rightarrow> (roster_error, Roster option) result \<Rightarrow> file_map \<Rightarrow> identity option \<Rightarrow> string option" where
  "whoami w et ethosDir roster fs ov =
     (let rd = tw_reader w fs;
          dflt = (case Resolve (tw_yaml w) rd (tw_resolver w) of Inl _ \<Rightarrow> None | Inr d \<Rightarrow> Some d) in
      case (case ov of Some i \<Rightarrow> Some i | None \<Rightarrow> dflt) of
        None \<Rightarrow> None
      | Some i \<Rightarrow>
          Some (Join ([whoami_line ''email:'' (id_Email i)]
            @ [whoami_line ''source:'' (if ov \<noteq> None
                then ''override (switched from '' @ (case dflt of None \<Rightarrow> ''unknown'' | Some d \<Rightarrow> id_Handle d) @ '')'' else id_Source i)]
            @ (if id_Handle i \<noteq> [] then [whoami_line ''handle:'' (id_Handle i)] else [])
            @ (if id_Name i \<noteq> [] then [whoami_line ''name:'' (id_Name i)] else [])
            @ [whoami_line ''contacts:'' (case IdentityContactsPath (tw_home w) (id_Email i) of
                 Inl e \<Rightarrow> ''error: '' @ et_home et e
               | Inr path \<Rightarrow> path @ '' ('' @ (case load_store (tw_contacts w) rd path of
                   Inl e \<Rightarrow> ''error: '' @ et_load et e | Inr s \<Rightarrow> Itoa_nat (length (s_contacts s)) @ '' contacts'') @ '')'')]
            @ (if ethosDir = [] then [] else case roster of
                 Inl e \<Rightarrow> [[], ''   session roster:  error: '' @ et_roster et e]
               | Inr None \<Rightarrow> []
               | Inr (Some r) \<Rightarrow> if rr_Participants r = [] then []
                   else [[], ''   session participants:''] @ map participant_line (rr_Participants r))) [NL]))"

text \<open>
  A successful switch decides whom every later tool acts as, whatever the default resolves to; a failed one changes
  nothing; the empty handle always ends an override.
\<close>

lemma switch_governs:
  assumes "switchIdentity w stat rq fs ov = (r, ov')"
  shows "(stringParam rq ''handle'' [] = [] \<longrightarrow> ov' = None)
    \<and> (stringParam rq ''handle'' [] \<noteq> [] \<longrightarrow>
        (case ResolveHandle (tw_yaml w) (tw_reader w fs) (tw_resolver w) (stringParam rq ''handle'' []) of
           Inl e \<Rightarrow> ov' = ov \<and> \<not> is_ok r
         | Inr i \<Rightarrow> is_ok r \<and> (\<forall>fs2 c fs3. resolveIdentityAndConfig w ov' fs2 = (Inr c, fs3) \<longrightarrow> fst c = i)))"
proof -
  have i: "fst c = i" if "resolveIdentityAndConfig w (Some i) fs2 = (Inr c, fs3)" for i c fs2 fs3
    using that by (auto simp: resolveIdentityAndConfig_def split: sum.splits prod.splits)
  show ?thesis using assms i by (auto simp: switchIdentity_def Let_def split: sum.splits if_splits)
qed

subsection \<open>Enabling a repository\<close>

datatype enable_fail = ActionMissing | ActionUnknown string | RootFailed string | EnableFailed enable_error | DisableFailed enable_error

text \<open>\<open>root\<close> is what \<open>RepoRoot\<close> finds; the progress lines repeated in the answer are left out.\<close>

definition enable_tool ::
    "ToolArgs.request \<Rightarrow> (string, string) result \<Rightarrow> string \<Rightarrow> enable_io \<Rightarrow> disable_io \<Rightarrow> repo \<Rightarrow> (enable_fail, string) result \<times> repo" where
  "enable_tool rq root guide eio dio r =
     (case rq_require rq ''action'' of
        None \<Rightarrow> (Inl ActionMissing, r)
      | Some act \<Rightarrow>
          if act \<noteq> ''enable'' \<and> act \<noteq> ''disable'' then (Inl (ActionUnknown act), r)
          else case root of
            Inl e \<Rightarrow> (Inl (RootFailed e), r)
          | Inr dir \<Rightarrow>
              if act = ''enable'' then
                (case Enable guide eio r of (Some e, r') \<Rightarrow> (Inl (EnableFailed e), r') | (None, r') \<Rightarrow> (Inr (''beadle enabled in '' @ dir), r'))
              else
                (case Disable dio False r of (Some e, r') \<Rightarrow> (Inl (DisableFailed e), r') | (None, r') \<Rightarrow> (Inr (''beadle disabled in '' @ dir), r')))"

definition progress_permissions :: "string list \<Rightarrow> string" where
  "progress_permissions ls = concat (filter (\<lambda>l. Contains l ''.claude/settings.json'') ls)"

subsection \<open>Who may open a session\<close>

text \<open>\<open>query\<close> is the \<open>token\<close> of the query, \<open>auth\<close> the Authorization header, "" when absent.\<close>

definition authorized :: "string \<Rightarrow> string \<Rightarrow> string \<Rightarrow> bool" where
  "authorized token query auth =
     (let presented = (if HasPrefix auth ''Bearer '' then TrimPrefix auth ''Bearer '' else query) in
      if presented = [] then False else presented = token)"

definition hex_of :: "nat \<Rightarrow> string" where
  "hex_of b = [''0123456789abcdef'' ! (b div 16), ''0123456789abcdef'' ! (b mod 16)]"

definition tokenBytes :: nat where "tokenBytes = 32"

text \<open>\<open>rand\<close> is what \<open>crypto/rand\<close> gave; \<open>None\<close> is the panic.\<close>

definition generateToken :: "nat list option \<Rightarrow> string option" where
  "generateToken rand = map_option (\<lambda>bs. concat (map hex_of (take tokenBytes bs))) rand"

subsection \<open>Carrying messages and lines\<close>

text \<open>What the first goroutine writes for one WebSocket message, and what one reading lines gets from many.\<close>

definition inbound :: "string \<Rightarrow> string" where
  "inbound msg = rev (dropWhile (\<lambda>c. c = CR \<or> c = NL) (rev msg)) @ [NL]"

text \<open>
  The second goroutine: each line of the server becomes a WebSocket message, empty ones are skipped; a failed write ends it,
  and so does a line that with its end does not fit the scanner's buffer of 65,536 bytes. \<open>ok\<close> says whether the n-th
  write succeeds. The messages sent, and whether all lines were carried.
\<close>

fun outbound :: "(nat \<Rightarrow> bool) \<Rightarrow> nat \<Rightarrow> string list \<Rightarrow> string list \<times> bool" where
  "outbound ok n [] = ([], True)"
| "outbound ok n (l # ls) =
     (if 65536 < length l + 1 then ([], False)
      else if l = [] then outbound ok n ls
      else if \<not> ok n then ([], False)
      else let (ms, done) = outbound ok (Suc n) ls in (l # ms, done))"

lemma Split_messages:
  assumes "list_all (\<lambda>m. NL \<notin> set m) ms"
  shows "Split (concat (map (\<lambda>m. m @ [NL]) ms)) NL = ms @ [[]]"
  using assms by (induction ms) (simp_all add: Split_append_sep2 Split_single)

text \<open>Messages without line ends of their own arrive one to one; every answer that fits is delivered in order.\<close>

lemma inbound_lines:
  assumes "list_all (\<lambda>m. NL \<notin> set m \<and> CR \<notin> set m) ms"
  shows "Split (concat (map inbound ms)) NL = ms @ [[]]"
proof -
  have "inbound m = m @ [NL]" if "NL \<notin> set m \<and> CR \<notin> set m" for m
  proof -
    have "dropWhile (\<lambda>c. c = CR \<or> c = NL) (rev m) = rev m" using that by (cases m rule: rev_cases) auto
    then show ?thesis by (simp add: inbound_def)
  qed
  then have m: "map inbound ms = map (\<lambda>m. m @ [NL]) ms" using assms by (auto simp: list_all_iff)
  have "list_all (\<lambda>m. NL \<notin> set m) ms" using assms by (simp add: list_all_iff)
  then show ?thesis unfolding m by (rule Split_messages)
qed

lemma outbound_all:
  assumes "list_all (\<lambda>l. length l < 65536) ls" "\<forall>n. ok n"
  shows "outbound ok n ls = (filter (\<lambda>l. l \<noteq> []) ls, True)"
  using assms by (induction ls arbitrary: n) simp_all

text \<open>One answer of 65,536 bytes ends the session: it and everything after it is lost.\<close>

lemma long_answer_ends_session: "65536 \<le> length l \<Longrightarrow> outbound ok n (l # ls) = ([], False)"
  by simp

text \<open>
  A WebSocket request opens a session only with the server's own token, as the bearer token of the Authorization
  header, or in the query when that header carries none; and an empty token never opens one.
\<close>

theorem authorized_exact:
  assumes "token \<noteq> []"
  shows "authorized token query auth \<longleftrightarrow> auth = ''Bearer '' @ token \<or> (\<not> HasPrefix auth ''Bearer '' \<and> query = token)"
proof -
  have "HasPrefix auth ''Bearer '' \<and> TrimPrefix auth ''Bearer '' = token \<longleftrightarrow> auth = ''Bearer '' @ token"
    by (auto simp: HasPrefix_iff TrimPrefix_def)
  then show ?thesis using assms by (auto simp: authorized_def Let_def)
qed

theorem authorized_exact_witness: "authorized ''k'' [] ''Bearer k''"
proof -
  have "''k'' \<noteq> ''''" by simp
  from authorized_exact [OF this, of "[]" "''Bearer k''"] show ?thesis by (simp only: append.simps simp_thms)
qed

end
