(* ===== verification/McpReg.thy ===== *)
theory McpReg
  imports Tables Identity Json
begin

section \<open>The MCP registration policy (cmd/beadle-email/mcpreg.go)\<close>

text \<open>
  The beadle plugin registers the mail server by itself, so \<open>install\<close> registers one only when asked to, and warns first
  when the plugin is active or could not be queried. Modelled are the reading of \<open>claude plugin list\<close> and
  \<open>claude mcp list\<close>, the search for a project's \<open>.mcp.json\<close> up to the root, the two checks of \<open>doctor\<close>, and what
  \<open>install\<close> and \<open>uninstall\<close> run. The claude program is a record of outcomes; what is run and printed is recorded in order.
\<close>

definition mcpServerName :: string where "mcpServerName = ''beadle-email''"

subsection \<open>The policy\<close>

datatype pluginState = PluginAbsent | PluginEnabled | PluginDisabled | PluginUnknown

datatype mcpDecision = McpPluginProvides | McpRegisterStandalone | McpRegisterStandaloneWarnDuplicate | McpAdviseInstall

definition decideMCP :: "pluginState \<Rightarrow> bool \<Rightarrow> mcpDecision" where
  "decideMCP st standalone =
     (if standalone \<and> (st = PluginEnabled \<or> st = PluginUnknown) then McpRegisterStandaloneWarnDuplicate
      else if standalone then McpRegisterStandalone
      else if st = PluginEnabled then McpPluginProvides
      else McpAdviseInstall)"

definition duplicateWarning :: "pluginState \<Rightarrow> string" where
  "duplicateWarning st =
     (if st = PluginUnknown
      then ''WARNING: could not confirm the beadle plugin is absent; --standalone may create a duplicate MCP registration.'' @ [NL]
        @ ''  Verify with `claude plugin list`, then remove the plugin or drop --standalone.'' @ [NL]
      else ''WARNING: the beadle plugin already provides the MCP server; --standalone will create a duplicate.'' @ [NL]
        @ ''  Remove the plugin (claude plugin uninstall beadle@punt-labs) or drop --standalone.'' @ [NL])"

subsection \<open>Reading what claude prints\<close>

fun plugin_scan :: "string list \<Rightarrow> bool \<Rightarrow> bool \<Rightarrow> pluginState" where
  "plugin_scan [] inBeadleBlock sawBeadle = (if sawBeadle then PluginEnabled else PluginAbsent)"
| "plugin_scan (line # rest) inBeadleBlock sawBeadle =
     (let trimmed = TrimSpace line in
      if Contains line ''beadle@'' then plugin_scan rest True True
      else if inBeadleBlock \<and> HasPrefix trimmed ''Status:'' then
        (if Contains trimmed ''enabled'' then PluginEnabled else PluginDisabled)
      else if inBeadleBlock \<and> Contains trimmed ''@'' then plugin_scan rest False sawBeadle
      else plugin_scan rest inBeadleBlock sawBeadle)"

definition beadlePluginState :: "string \<Rightarrow> pluginState" where
  "beadlePluginState pluginList = plugin_scan (Split pluginList NL) False False"

definition standaloneMCPRegistered :: "string \<Rightarrow> bool" where
  "standaloneMCPRegistered mcpList = list_ex (\<lambda>line. HasPrefix (TrimSpace line) (mcpServerName @ '':'')) (Split mcpList NL)"

subsection \<open>The project's .mcp.json\<close>

text \<open>
  \<open>json.Unmarshal\<close> into the one field \<open>mcpServers\<close>: the keys of every member of that name, in any case, with \<open>null\<close>
  emptying the map; \<open>ufold\<close> folds the case of runes beyond ASCII.
\<close>

fun server_names :: "(nat \<Rightarrow> nat) \<Rightarrow> (string \<times> jtok list) list \<Rightarrow> string list \<Rightarrow> string list option" where
  "server_names ufold [] ns = Some ns"
| "server_names ufold ((k, v) # ms) ns =
     (if \<not> EqualFold ufold k ''mcpServers'' then server_names ufold ms ns
      else if v = [Lit ''null''] then server_names ufold ms []
      else (case parse_object v of None \<Rightarrow> None | Some es \<Rightarrow> server_names ufold ms (ns @ map fst es)))"

definition mcpConfig :: "(nat \<Rightarrow> nat) \<Rightarrow> string \<Rightarrow> string list option" where
  "mcpConfig ufold data =
     (case tokenize data of
        None \<Rightarrow> None
      | Some ts \<Rightarrow>
          if ts = [Lit ''null''] then Some []
          else (case parse_object ts of None \<Rightarrow> None | Some ms \<Rightarrow> server_names ufold ms []))"

text \<open>\<open>jerr\<close> is the text of the decoder's error.\<close>

definition mcpFileDeclaresServer ::
    "(nat \<Rightarrow> nat) \<Rightarrow> (string \<Rightarrow> string) \<Rightarrow> reader \<Rightarrow> string \<Rightarrow> string \<Rightarrow> (string, bool) result" where
  "mcpFileDeclaresServer ufold jerr rd path server =
     (case rd (Clean path) of
        Inl ErrNotExist \<Rightarrow> Inr False
      | Inl (OsError e) \<Rightarrow> Inl (''read '' @ path @ '': '' @ e)
      | Inr data \<Rightarrow>
          (case mcpConfig ufold data of
             None \<Rightarrow> Inl (''parse '' @ path @ '': '' @ jerr data)
           | Some ns \<Rightarrow> Inr (server \<in> set ns)))"

text \<open>The walk to the root, which might not end; an empty path stands for no such file, as in the code.\<close>

partial_function (option) projectScopeMCPFile ::
    "(nat \<Rightarrow> nat) \<Rightarrow> (string \<Rightarrow> string) \<Rightarrow> reader \<Rightarrow> string \<Rightarrow> (string, string) result option" where
  "projectScopeMCPFile ufold jerr rd dir =
     (let path = JoinPath [dir, ''.mcp.json''] in
      case mcpFileDeclaresServer ufold jerr rd path mcpServerName of
        Inl e \<Rightarrow> Some (Inl e)
      | Inr found \<Rightarrow>
          if found then Some (Inr path)
          else if Dir dir = dir then Some (Inr [])
          else projectScopeMCPFile ufold jerr rd (Dir dir))"

definition currentProjectScopeFile ::
    "(nat \<Rightarrow> nat) \<Rightarrow> (string \<Rightarrow> string) \<Rightarrow> reader \<Rightarrow> (string, string) result \<Rightarrow> (string, string) result option" where
  "currentProjectScopeFile ufold jerr rd getwd =
     (case getwd of Inl e \<Rightarrow> Some (Inl (''getwd: '' @ e)) | Inr cwd \<Rightarrow> projectScopeMCPFile ufold jerr rd cwd)"

subsection \<open>The checks of doctor\<close>

record doctorCheck =
  dc_Name :: string
  dc_Status :: string
  dc_Detail :: string

definition mcpRegistrationCheck :: "pluginState \<Rightarrow> bool \<Rightarrow> doctorCheck" where
  "mcpRegistrationCheck st standalone =
     (if st = PluginEnabled \<and> standalone then
        \<lparr>dc_Name = ''mcp_registration'', dc_Status = ''WARN'',
         dc_Detail = ''standalone beadle-email server coexists with the enabled beadle plugin (duplicate) '' @ DASH @ '' remove it: claude mcp remove -s user beadle-email''\<rparr>
      else
        \<lparr>dc_Name = ''mcp_registration'', dc_Status = ''OK'',
         dc_Detail =
           (if st = PluginEnabled then ''plugin provides the MCP server (no standalone duplicate)''
            else if st = PluginDisabled \<and> standalone then ''standalone server active; beadle plugin is installed but disabled''
            else if st = PluginDisabled then ''beadle plugin is installed but disabled; no standalone server''
            else if standalone then ''standalone server (plugin not installed)''
            else ''no beadle MCP registration found'')\<rparr>)"

definition projectScopeCheck :: "(string, string) result \<Rightarrow> doctorCheck option" where
  "projectScopeCheck scan =
     (case scan of
        Inl e \<Rightarrow> Some \<lparr>dc_Name = ''mcp_scope'', dc_Status = ''WARN'', dc_Detail = ''cannot determine MCP project scope: '' @ e\<rparr>
      | Inr p \<Rightarrow>
          if p \<noteq> [] then
            Some \<lparr>dc_Name = ''mcp_scope'', dc_Status = ''WARN'',
                  dc_Detail = ''beadle-email is registered at project scope in '' @ p @ '' '' @ DASH
                    @ '' remove it: claude mcp remove -s project beadle-email (use user scope only)''\<rparr>
          else None)"

subsection \<open>The claude program\<close>

text \<open>How a run of a program ends: well, with a nonzero status, or not at all (with the error's text).\<close>

datatype run_end = RanWell | ExitError string | NotRun string

record claude_cli =
  cl_available :: bool
  cl_plugins :: "(string, string) result"
  cl_servers :: "(string, string) result"
  cl_remove :: run_end
  cl_add :: run_end

datatype mcp_event = Claude "string list" | Stderr string

definition registrationChecks :: "claude_cli \<Rightarrow> doctorCheck list" where
  "registrationChecks c =
     (if \<not> cl_available c then []
      else (case cl_plugins c of
         Inl e \<Rightarrow> [\<lparr>dc_Name = ''mcp_registration'', dc_Status = ''WARN'', dc_Detail = ''cannot query plugins: '' @ e\<rparr>]
       | Inr pluginList \<Rightarrow>
           (case cl_servers c of
              Inl e \<Rightarrow> [\<lparr>dc_Name = ''mcp_registration'', dc_Status = ''WARN'', dc_Detail = ''cannot query MCP servers: '' @ e\<rparr>]
            | Inr mcpList \<Rightarrow> [mcpRegistrationCheck (beadlePluginState pluginList) (standaloneMCPRegistered mcpList)])))"

definition inspectMCPRegistration :: "claude_cli \<Rightarrow> (string, string) result \<Rightarrow> doctorCheck list" where
  "inspectMCPRegistration c scan =
     registrationChecks c @ (case projectScopeCheck scan of None \<Rightarrow> [] | Some sc \<Rightarrow> [sc])"

definition detectPluginState :: "claude_cli \<Rightarrow> pluginState \<times> mcp_event list" where
  "detectPluginState c =
     (case cl_plugins c of
        Inl e \<Rightarrow> (PluginUnknown, [Claude [''plugin'', ''list''], Stderr (''note: could not query installed plugins: '' @ e @ [NL])])
      | Inr out \<Rightarrow> (beadlePluginState out, [Claude [''plugin'', ''list'']]))"

definition remove_args :: "string list" where
  "remove_args = [''mcp'', ''remove'', ''-s'', ''user'', mcpServerName]"

definition add_args :: "string \<Rightarrow> string list" where
  "add_args binPath = [''mcp'', ''add'', ''-s'', ''user'', mcpServerName, ''--'', binPath, ''serve'']"

definition run_error :: "run_end \<Rightarrow> string option" where
  "run_error r = (case r of RanWell \<Rightarrow> None | ExitError e \<Rightarrow> Some e | NotRun e \<Rightarrow> Some e)"

definition registerStandaloneMCP :: "claude_cli \<Rightarrow> string \<Rightarrow> string option \<times> mcp_event list" where
  "registerStandaloneMCP c binPath =
     (map_option (\<lambda>e. ''register standalone MCP server: '' @ e) (run_error (cl_add c)),
      [Claude remove_args]
      @ (case cl_remove c of
           NotRun e \<Rightarrow> [Stderr (''note: could not remove existing user-scope '' @ mcpServerName @ '': '' @ e @ [NL])]
         | _ \<Rightarrow> [])
      @ [Claude (add_args binPath)])"

definition removeStandaloneMCP :: "claude_cli \<Rightarrow> string option \<times> mcp_event list" where
  "removeStandaloneMCP c =
     (map_option (\<lambda>e. ''remove standalone MCP server: '' @ e) (run_error (cl_remove c)), [Claude remove_args])"

definition setupMCPRegistration :: "claude_cli \<Rightarrow> string \<Rightarrow> bool \<Rightarrow> string option \<times> mcp_event list" where
  "setupMCPRegistration c selfPath standalone =
     (if \<not> cl_available c then
        (None, [Stderr (''claude CLI not found '' @ DASH @ '' install the beadle plugin, or register manually:'' @ [NL]
          @ ''  claude mcp add -s user '' @ mcpServerName @ '' -- '' @ selfPath @ '' serve'' @ [NL])])
      else
        let (st, es) = detectPluginState c;
            register = (\<lambda>_. case registerStandaloneMCP c selfPath of
                (Some e, rs) \<Rightarrow> (Some e, rs)
              | (None, rs) \<Rightarrow> (None, rs @ [Stderr (''standalone MCP server registered (user scope)'' @ [NL])]))
        in case decideMCP st standalone of
             McpPluginProvides \<Rightarrow>
               (None, es @ [Stderr (''MCP server provided by the beadle plugin '' @ DASH @ '' no standalone registration needed'' @ [NL])])
           | McpAdviseInstall \<Rightarrow>
               (None, es @ [Stderr (''beadle plugin not installed. Install it (recommended):'' @ [NL]
                 @ ''  claude plugin install beadle@punt-labs --scope user'' @ [NL]
                 @ ''Or register a standalone server for a no-plugin setup:'' @ [NL]
                 @ ''  '' @ selfPath @ '' install --standalone'' @ [NL])])
           | McpRegisterStandaloneWarnDuplicate \<Rightarrow>
               (case register () of (r, rs) \<Rightarrow> (r, es @ Stderr (duplicateWarning st) # rs))
           | McpRegisterStandalone \<Rightarrow> (case register () of (r, rs) \<Rightarrow> (r, es @ rs)))"


subsection \<open>What the plugin list says\<close>

text \<open>
  A listing as claude prints it: some lines before the first plugin, then for every plugin a header line with its name and
  marketplace, lines about it, its status line and lines after it.
\<close>

record plugin_block =
  pb_header :: string
  pb_about :: "string list"
  pb_status :: string
  pb_after :: "string list"

definition block_lines :: "plugin_block \<Rightarrow> string list" where
  "block_lines b = pb_header b # pb_about b @ pb_status b # pb_after b"

definition listing_text :: "string list \<Rightarrow> plugin_block list \<Rightarrow> string" where
  "listing_text intro bs = Join (intro @ concat (map block_lines bs)) [NL]"

definition mentions :: "string \<Rightarrow> bool" where
  "mentions l \<longleftrightarrow> Contains l ''beadle@''"

definition block_ok :: "plugin_block \<Rightarrow> bool" where
  "block_ok b \<longleftrightarrow>
     (\<forall>l \<in> set (block_lines b). NL \<notin> set l)
     \<and> (\<forall>l \<in> set (pb_about b). \<not> mentions l \<and> \<not> HasPrefix (TrimSpace l) ''Status:'' \<and> \<not> Contains (TrimSpace l) ''@'')
     \<and> \<not> mentions (pb_status b) \<and> HasPrefix (TrimSpace (pb_status b)) ''Status:''
     \<and> (\<forall>l \<in> set (pb_after b). \<not> mentions l)"

definition status_of :: "plugin_block \<Rightarrow> pluginState" where
  "status_of b = (if Contains (TrimSpace (pb_status b)) ''enabled'' then PluginEnabled else PluginDisabled)"

lemma scan_outside: "\<forall>l \<in> set xs. \<not> mentions l \<Longrightarrow> plugin_scan (xs @ ys) False s = plugin_scan ys False s"
  by (induction xs) (simp_all add: mentions_def Let_def)

lemma scan_about:
  "\<forall>l \<in> set xs. \<not> mentions l \<and> \<not> HasPrefix (TrimSpace l) ''Status:'' \<and> \<not> Contains (TrimSpace l) ''@''
     \<Longrightarrow> plugin_scan (xs @ ys) True True = plugin_scan ys True True"
  by (induction xs) (simp_all add: mentions_def Let_def)

lemma scan_blocks:
  "\<forall>b \<in> set bs. block_ok b \<Longrightarrow>
     plugin_scan (concat (map block_lines bs)) False False
       = (case find (\<lambda>b. mentions (pb_header b)) bs of None \<Rightarrow> PluginAbsent | Some b \<Rightarrow> status_of b)"
proof (induction bs)
  case (Cons b bs)
  let ?r = "concat (map block_lines bs)"
  have b: "block_ok b" using Cons.prems by simp
  show ?case
  proof (cases "mentions (pb_header b)")
    case True
    have "plugin_scan (pb_about b @ pb_status b # pb_after b @ ?r) True True = status_of b"
      using b by (subst scan_about) (auto simp: block_ok_def mentions_def status_of_def Let_def)
    with True show ?thesis by (simp add: block_lines_def [of b] mentions_def)
  next
    case False
    have "\<forall>l \<in> set (block_lines b). \<not> mentions l" using b False by (auto simp: block_ok_def block_lines_def)
    from scan_outside [OF this] show ?thesis using False Cons by simp
  qed
qed simp

text \<open>
  A plugin list is read as the status of its first plugin whose header line has \<open>beadle@\<close> in it, and as no plugin when
  there is none, whatever the other plugins and their statuses are.
\<close>

lemma beadlePluginState_first:
  assumes "\<forall>l \<in> set intro. NL \<notin> set l \<and> \<not> mentions l" "\<forall>b \<in> set bs. block_ok b"
  shows "beadlePluginState (listing_text intro bs)
    = (case find (\<lambda>b. mentions (pb_header b)) bs of None \<Rightarrow> PluginAbsent | Some b \<Rightarrow> status_of b)"
proof (cases "intro @ concat (map block_lines bs) = []")
  case True
  then have "intro = []" "bs = []" by (auto simp: block_lines_def)
  then show ?thesis by (simp add: beadlePluginState_def listing_text_def Contains_def)
next
  case False
  have "\<forall>l \<in> set (intro @ concat (map block_lines bs)). NL \<notin> set l" using assms by (auto simp: block_ok_def)
  then have "Split (listing_text intro bs) NL = intro @ concat (map block_lines bs)"
    unfolding listing_text_def using False by (intro Split_Join) auto
  moreover have "plugin_scan (intro @ concat (map block_lines bs)) False False = plugin_scan (concat (map block_lines bs)) False False"
    using assms(1) by (intro scan_outside) auto
  ultimately show ?thesis using scan_blocks [OF assms(2)] by (simp add: beadlePluginState_def)
qed

definition sample_block :: "string \<Rightarrow> string \<Rightarrow> plugin_block" where
  "sample_block name status = \<lparr>pb_header = ''  > '' @ name, pb_about = [''    Version: 1.0'', ''    Scope: user''],
     pb_status = ''    Status: '' @ status, pb_after = [[]]\<rparr>"

lemma beadlePluginState_sample:
  "beadlePluginState (listing_text [''Installed plugins:'', []] [sample_block ''biff@punt-labs'' ''+ enabled'', sample_block ''beadle@punt-labs'' ''x disabled''])
     = PluginDisabled"
proof -
  have "\<forall>b \<in> set [sample_block ''biff@punt-labs'' ''+ enabled'', sample_block ''beadle@punt-labs'' ''x disabled'']. block_ok b" by code_simp
  moreover have "\<forall>l \<in> set [''Installed plugins:'', []]. NL \<notin> set l \<and> \<not> mentions l" by code_simp
  ultimately have "beadlePluginState (listing_text [''Installed plugins:'', []] [sample_block ''biff@punt-labs'' ''+ enabled'', sample_block ''beadle@punt-labs'' ''x disabled''])
    = (case find (\<lambda>b. mentions (pb_header b)) [sample_block ''biff@punt-labs'' ''+ enabled'', sample_block ''beadle@punt-labs'' ''x disabled'']
       of None \<Rightarrow> PluginAbsent | Some b \<Rightarrow> status_of b)"
    by (intro beadlePluginState_first)
  also have "\<dots> = PluginDisabled" by code_simp
  finally show ?thesis .
qed

text \<open>
  A plugin of another name that ends in \<open>beadle\<close> is taken for beadle: when it comes first and is disabled, the active
  beadle plugin is not seen, and \<open>--standalone\<close> makes a duplicate without a warning.
\<close>

lemma other_plugin_taken_for_beadle:
  "decideMCP (beadlePluginState (listing_text [] [sample_block ''superbeadle@x'' ''x disabled'', sample_block ''beadle@punt-labs'' ''+ enabled''])) True
     = McpRegisterStandalone"
  by code_simp


subsection \<open>A registration is never a silent duplicate\<close>

lemma detect_quiet: "Claude (add_args p) \<notin> set (snd (detectPluginState c))"
  by (simp add: detectPluginState_def add_args_def split: sum.split)

lemma register_events:
  obtains u where "snd (registerStandaloneMCP c p) = u @ [Claude (add_args p)]" "Claude remove_args \<in> set u" "Claude (add_args p) \<notin> set u"
proof
  let ?u = "[Claude remove_args] @ (case cl_remove c of
      NotRun e \<Rightarrow> [Stderr (''note: could not remove existing user-scope '' @ mcpServerName @ '': '' @ e @ [NL])] | _ \<Rightarrow> [])"
  show "snd (registerStandaloneMCP c p) = ?u @ [Claude (add_args p)]" by (simp add: registerStandaloneMCP_def)
  show "Claude remove_args \<in> set ?u" by simp
  show "Claude (add_args p) \<notin> set ?u" by (simp add: add_args_def remove_args_def split: run_end.split)
qed

text \<open>
  A header line that names the plugin \<open>beadle\<close>: the name stands at the start of the line or after a blank. A listing that can
  be read: claude's shape, with no other plugin whose name ends in \<open>beadle\<close> and not the same name from two marketplaces.
  Independently of the scan, such a listing shows beadle active when its block says so.
\<close>

definition names_beadle :: "plugin_block \<Rightarrow> bool" where
  "names_beadle b = (case Index (pb_header b) ''beadle@'' of None \<Rightarrow> False | Some i \<Rightarrow> i = 0 \<or> pb_header b ! (i - 1) = CHR '' '')"

definition readable_listing :: "string list \<Rightarrow> plugin_block list \<Rightarrow> bool" where
  "readable_listing intro bs \<longleftrightarrow> (\<forall>l \<in> set intro. NL \<notin> set l \<and> \<not> mentions l) \<and> (\<forall>b \<in> set bs. block_ok b)
     \<and> length (filter (\<lambda>b. mentions (pb_header b)) bs) \<le> 1"

definition shows_active :: "plugin_block list \<Rightarrow> bool" where
  "shows_active bs \<longleftrightarrow> (\<exists>b \<in> set bs. names_beadle b \<and> Contains (TrimSpace (pb_status b)) ''enabled'')"

lemma names_mentions: "names_beadle b \<Longrightarrow> mentions (pb_header b)"
  by (auto simp: names_beadle_def mentions_def Contains_def split: option.splits)

lemma active_state:
  assumes "readable_listing intro bs" "shows_active bs"
  shows "beadlePluginState (listing_text intro bs) = PluginEnabled"
proof -
  obtain b where b: "b \<in> set bs" "mentions (pb_header b)" "Contains (TrimSpace (pb_status b)) ''enabled''"
    using assms(2) names_mentions by (auto simp: shows_active_def)
  then obtain b' where f: "find (\<lambda>b. mentions (pb_header b)) bs = Some b'" by (metis find_None_iff not_None_eq)
  then have b': "b' \<in> set bs" "mentions (pb_header b')" by (auto simp: find_Some_iff)
  have "length (filter (\<lambda>b. mentions (pb_header b)) bs) \<le> Suc 0" using assms(1) by (simp add: readable_listing_def)
  then obtain x where x: "filter (\<lambda>b. mentions (pb_header b)) bs = [] \<or> filter (\<lambda>b. mentions (pb_header b)) bs = [x]"
    by (metis le_Suc_eq le_zero_eq length_0_conv length_Suc_conv)
  have "b \<in> set (filter (\<lambda>b. mentions (pb_header b)) bs)" "b' \<in> set (filter (\<lambda>b. mentions (pb_header b)) bs)"
    using b b' by simp_all
  then have "b' = b" using x by (metis empty_iff empty_set set_ConsD)
  then show ?thesis using b(3) f assms(1)
    by (simp add: beadlePluginState_first readable_listing_def status_of_def)
qed

text \<open>
  C37. \<open>install\<close> adds a standalone server only when \<open>--standalone\<close> was given, once, and only after it ran claude to remove
  the entry of an earlier run. It warns of the duplicate before that whenever the plugin list could not be read, and whenever
  the list it read shows the beadle plugin active, for every list of claude's shape in which no other plugin's name ends in
  \<open>beadle\<close> and beadle is listed at most once, so from one marketplace (without that condition it does not:
  \<open>other_plugin_taken_for_beadle\<close>).
\<close>

theorem standalone_warned:
  assumes "snd (setupMCPRegistration c selfPath standalone) = pre @ Claude (add_args selfPath) # post"
  shows "standalone \<and> Claude remove_args \<in> set pre \<and> Claude (add_args selfPath) \<notin> set post
    \<and> (\<not> is_ok (cl_plugins c) \<longrightarrow> Stderr (duplicateWarning PluginUnknown) \<in> set pre)
    \<and> (\<forall>intro bs. cl_plugins c = Inr (listing_text intro bs) \<and> readable_listing intro bs \<and> shows_active bs
        \<longrightarrow> Stderr (duplicateWarning PluginEnabled) \<in> set pre)"
proof -
  obtain st es where d: "detectPluginState c = (st, es)" by (cases "detectPluginState c")
  have q: "Claude (add_args selfPath) \<notin> set es" using detect_quiet [of selfPath c] d by simp
  define rs where "rs = snd (registerStandaloneMCP c selfPath)"
  have add: "Claude (add_args selfPath) \<in> set (snd (setupMCPRegistration c selfPath standalone))" using assms by simp
  have av: "cl_available c" using add by (cases "cl_available c") (simp_all add: setupMCPRegistration_def)
  have sa: "standalone" using add av d q
    by (cases standalone) (auto simp: setupMCPRegistration_def decideMCP_def split: if_splits)
  define w where "w = (if st = PluginEnabled \<or> st = PluginUnknown then [Stderr (duplicateWarning st)] else [])"
  obtain e where reg: "registerStandaloneMCP c selfPath = (e, rs)" unfolding rs_def by (cases "registerStandaloneMCP c selfPath") simp
  define more' where "more' = (if e = None then [Stderr (''standalone MCP server registered (user scope)'' @ [NL])] else [])"
  have run: "snd (setupMCPRegistration c selfPath standalone) = es @ w @ rs @ more'" "Claude (add_args selfPath) \<notin> set more'"
    using av sa d reg by (cases e; cases st; simp add: setupMCPRegistration_def decideMCP_def w_def more'_def)+
  have nw: "Claude (add_args selfPath) \<notin> set (es @ w)" using q by (simp add: w_def)
  obtain u where u: "rs = u @ [Claude (add_args selfPath)]" "Claude remove_args \<in> set u" "Claude (add_args selfPath) \<notin> set u"
    unfolding rs_def by (rule register_events)
  have "(es @ w @ u) @ Claude (add_args selfPath) # more' = pre @ Claude (add_args selfPath) # post"
    using assms run(1) u(1) by simp
  moreover have "Claude (add_args selfPath) \<notin> set (es @ w @ u) \<and> Claude (add_args selfPath) \<notin> set more'"
    using nw u(3) run(2) by simp
  ultimately have p: "pre = es @ w @ u" "post = more'"
    using append_Cons_eq_iff [of "Claude (add_args selfPath)" "es @ w @ u" more' pre post] by auto
  have st: "\<not> is_ok (cl_plugins c) \<Longrightarrow> st = PluginUnknown"
    "cl_plugins c = Inr (listing_text intro bs) \<Longrightarrow> readable_listing intro bs \<Longrightarrow> shows_active bs \<Longrightarrow> st = PluginEnabled" for intro bs
    using d active_state by (auto simp: detectPluginState_def is_ok_def split: sum.splits)
  have w: "Stderr (duplicateWarning st) \<in> set pre" if "st = PluginUnknown \<or> st = PluginEnabled"
    using that p(1) by (auto simp: w_def)
  show ?thesis using sa p u(2) run(2) nw u(3) w st by auto
qed

definition sample_cli :: claude_cli where
  "sample_cli = \<lparr>cl_available = True, cl_plugins = Inl ''signal: killed'', cl_servers = Inr [], cl_remove = ExitError ''exit status 1'', cl_add = RanWell\<rparr>"

definition active_cli :: claude_cli where
  "active_cli = sample_cli\<lparr>cl_plugins := Inr (listing_text [''Installed plugins:'', []]
     [sample_block ''biff@punt-labs'' ''x disabled'', sample_block ''beadle@punt-labs'' ''+ enabled''])\<rparr>"

theorem standalone_warned_witness:
  "\<exists>pre post. snd (setupMCPRegistration active_cli ''/bin/be'' True) = pre @ Claude (add_args ''/bin/be'') # post
     \<and> Stderr (duplicateWarning PluginEnabled) \<in> set pre"
proof -
  let ?intro = "[''Installed plugins:'', []]" and ?bs = "[sample_block ''biff@punt-labs'' ''x disabled'', sample_block ''beadle@punt-labs'' ''+ enabled'']"
  have "list_ex (\<lambda>e. e = Claude (add_args ''/bin/be'')) (snd (setupMCPRegistration active_cli ''/bin/be'' True))" by code_simp
  then have "Claude (add_args ''/bin/be'') \<in> set (snd (setupMCPRegistration active_cli ''/bin/be'' True))" by (simp only: list_ex_iff) blast
  then obtain pre post where r: "snd (setupMCPRegistration active_cli ''/bin/be'' True) = pre @ Claude (add_args ''/bin/be'') # post"
    by (meson split_list)
  have l: "cl_plugins active_cli = Inr (listing_text ?intro ?bs)" by (simp add: active_cli_def)
  have ok: "readable_listing ?intro ?bs" "shows_active ?bs" by code_simp+
  from standalone_warned [OF r] l ok r show ?thesis by blast
qed

subsection \<open>The search for a project's file ends\<close>

text \<open>The directories from \<open>/a/b/c\<close> to the root, and the first of them, in order, that decides the search.\<close>

definition dirs_up :: "string list \<Rightarrow> string list" where
  "dirs_up cs = map (\<lambda>k. render_path True (take k cs)) (rev [0..<Suc (length cs)])"

definition dirs_from :: "string \<Rightarrow> string list" where
  "dirs_from dir = dir # (if Dir dir = dir then [] else dirs_up (path_comps (Dir dir)))"

fun first_declaring :: "(string \<Rightarrow> (string, bool) result) \<Rightarrow> string list \<Rightarrow> (string, string) result" where
  "first_declaring decl [] = Inr []"
| "first_declaring decl (d # ds) =
     (case decl (JoinPath [d, ''.mcp.json'']) of
        Inl e \<Rightarrow> Inl e
      | Inr found \<Rightarrow> if found then Inr (JoinPath [d, ''.mcp.json'']) else first_declaring decl ds)"

lemma dirs_up_Nil: "dirs_up [] = [render_path True []]"
  by (simp add: dirs_up_def)

lemma dirs_up_snoc: "dirs_up (cs @ [c]) = render_path True (cs @ [c]) # dirs_up cs"
  by (simp add: dirs_up_def)

lemma Dir_root: "Dir (render_path True []) = render_path True []"
  by (simp add: render_path_def) code_simp

lemma Dir_render:
  assumes "clean_stack True (rev (cs @ [c]))"
  shows "Dir (render_path True (cs @ [c])) = render_path True cs" "clean_stack True (rev cs)" "render_path True (cs @ [c]) \<noteq> render_path True cs"
proof -
  have p: "\<forall>n \<in> set (c # rev cs). plain_name n" using assms by (auto simp: clean_stack_def)
  then show st: "clean_stack True (rev cs)" unfolding clean_stack_def by (intro exI [of _ "rev cs"] exI [of _ 0]) simp
  have c: "plain_name c" "render_path True cs \<noteq> []" using p render_nonempty [OF st] by simp_all
  have "JoinPath [render_path True cs, c] = render_path True (cs @ [c])"
    using JoinPath_plain [OF c] st by (simp add: path_comps_render)
  with Dir_JoinPath [OF c] Clean_render [OF st] show "Dir (render_path True (cs @ [c])) = render_path True cs" by simp
  have "path_comps (render_path True (cs @ [c])) = cs @ [c]" using assms by (rule path_comps_render)
  then show "render_path True (cs @ [c]) \<noteq> render_path True cs" using path_comps_render [OF st] by auto
qed

lemma walk_clean:
  "clean_stack True (rev cs) \<Longrightarrow>
     projectScopeMCPFile ufold jerr rd (render_path True cs)
       = Some (first_declaring (\<lambda>p. mcpFileDeclaresServer ufold jerr rd p mcpServerName) (dirs_up cs))"
proof (induction cs rule: rev_induct)
  case Nil
  then show ?case by (subst projectScopeMCPFile.simps) (simp add: dirs_up_Nil Dir_root Let_def split: sum.split)
next
  case (snoc c cs)
  note d = Dir_render [OF snoc.prems]
  show ?case using snoc.IH [OF d(2)] d(1,3)
    by (subst projectScopeMCPFile.simps) (simp add: dirs_up_snoc Let_def split: sum.split)
qed

lemma Dir_clean:
  assumes "IsAbs dir"
  obtains cs where "Dir dir = render_path True cs" "clean_stack True (rev cs)"
proof -
  obtain r where r: "dir = SLASH # r" using assms by (cases dir) (auto simp: IsAbs_def)
  let ?p = "case LastIndexByte dir SLASH of None \<Rightarrow> [] | Some i \<Rightarrow> take (Suc i) dir"
  have "LastIndexByte dir SLASH \<noteq> None" using r by (simp split: option.split)
  then obtain i where "LastIndexByte dir SLASH = Some i" by blast
  then have p: "?p = SLASH # take i r" by (simp add: r)
  then have "IsAbs ?p" by (simp add: IsAbs_def)
  then have "clean_stack True (rev (path_comps ?p))" using path_comps_stack [of ?p] by simp
  moreover have "Dir dir = render_path True (path_comps ?p)" using p \<open>IsAbs ?p\<close> by (simp add: Dir_def Clean_def)
  ultimately show ?thesis by (rule that [rotated])
qed

text \<open>
  C38. From any absolute directory, clean or not, the loop that looks for the project's \<open>.mcp.json\<close> ends: it asks the
  directories up to the root, each once and in order, and gives the first file that declares the server, the error of
  the first file it cannot read, or nothing.
\<close>

theorem projectScopeMCPFile_ends:
  assumes "IsAbs dir"
  shows "projectScopeMCPFile ufold jerr rd dir
    = Some (first_declaring (\<lambda>p. mcpFileDeclaresServer ufold jerr rd p mcpServerName) (dirs_from dir))"
proof -
  obtain cs where cs: "Dir dir = render_path True cs" "clean_stack True (rev cs)" by (rule Dir_clean [OF assms])
  have "path_comps (Dir dir) = cs" using cs by (simp add: path_comps_render)
  then show ?thesis using walk_clean [OF cs(2)] cs(1)
    by (subst projectScopeMCPFile.simps) (simp add: dirs_from_def Let_def split: sum.split)
qed

definition sample_project :: reader where
  "sample_project p = (if p = ''/w/.mcp.json'' then Inr ''{\"mcpservers\": {\"beadle-email\": {}}}'' else Inl ErrNotExist)"

theorem projectScopeMCPFile_ends_witness:
  "projectScopeMCPFile (\<lambda>r. r) (\<lambda>s. s) sample_project ''/w/../w/repo/'' = Some (Inr ''/w/.mcp.json'')"
proof -
  have "IsAbs ''/w/../w/repo/''" by code_simp
  moreover have "first_declaring (\<lambda>p. mcpFileDeclaresServer (\<lambda>r. r) (\<lambda>s. s) sample_project p mcpServerName) (dirs_from ''/w/../w/repo/'')
    = Inr ''/w/.mcp.json''" by code_simp
  ultimately show ?thesis using projectScopeMCPFile_ends by metis
qed

end
