(* ===== verification/Cli.thy ===== *)
theory Cli
  imports ToolSafety
begin

section \<open>The mail and contact commands (cmd/beadle-email/email_cmd.go, contact_cmd.go)\<close>

text \<open>
  The commands of \<open>beadle-email\<close> run on the same mailbox, transport and address book as the MCP tools, but take their
  configuration and contacts from the flags: an explicit \<open>-c\<close> decides alone, an identity that cannot be resolved is no
  error, and there is no permission gate. The world and the effects are those of the tools; a command's value is kept
  apart from its text. The number of arguments and the required flags are checked by the cobra library before a command runs.
\<close>

subsection \<open>Configuration and contacts\<close>

definition newResolver :: "'v tool_world \<Rightarrow> (string, Resolver) result" where
  "newResolver w =
     and_then (EthosDir (tw_home w)) (\<lambda>ethosDir.
     and_then (DataDir (tw_home w)) (\<lambda>beadleDir.
       case tw_cwd w of
         Inl e \<Rightarrow> Inl (''resolve cwd: '' @ e)
       | Inr cwd \<Rightarrow> Inr \<lparr>rs_ethosDir = ethosDir, rs_beadleDir = beadleDir, rs_repoDir = cwd\<rparr>))"

datatype no_identity = NoResolverDirs string | Unresolvable id_error

definition resolve_identity :: "'v tool_world \<Rightarrow> file_map \<Rightarrow> (no_identity, identity) result" where
  "resolve_identity w fs =
     (case newResolver w of
        Inl e \<Rightarrow> Inl (NoResolverDirs e)
      | Inr rs \<Rightarrow> (case Resolve (tw_yaml w) (tw_reader w fs) rs of Inl e \<Rightarrow> Inl (Unresolvable e) | Inr i \<Rightarrow> Inr i))"

text \<open>The configuration a command runs with, the identity if there is one, and the files after the migration.\<close>

definition resolveConfig ::
    "'v tool_world \<Rightarrow> bool \<Rightarrow> string \<Rightarrow> file_map \<Rightarrow> ((config_error, mail_config) result \<times> identity option) \<times> file_map" where
  "resolveConfig w changed explicitPath fs =
     (let fallback = (\<lambda>fs'. fst (LoadIdentityConfig (tw_json w) (tw_reader w fs') (tw_home w) None explicitPath)) in
      case resolve_identity w fs of
        Inl e \<Rightarrow> ((fallback fs, None), fs)
      | Inr i \<Rightarrow>
          if changed then ((LoadConfig (tw_json w) (tw_reader w fs) explicitPath, Some i), fs)
          else (case DataDir (tw_home w) of
              Inl e \<Rightarrow> ((fallback fs, Some i), fs)
            | Inr beadleDir \<Rightarrow>
                (case EnsureIdentityDir (tw_copy w) (tw_mkdir w) beadleDir (id_Email i) fs of
                   (Inl e, fs') \<Rightarrow> ((fallback fs', Some i), fs')
                 | (Inr d, fs') \<Rightarrow>
                     ((fst (LoadIdentityConfig (tw_json w) (tw_reader w fs') (tw_home w) (Some i) explicitPath), Some i), fs'))))"

definition defaultContactsPath :: "'v tool_world \<Rightarrow> string" where
  "defaultContactsPath w = (case DataDir (tw_home w) of Inl e \<Rightarrow> ''contacts.json'' | Inr d \<Rightarrow> JoinPath [d, ''contacts.json''])"

definition resolveContactsPath :: "'v tool_world \<Rightarrow> file_map \<Rightarrow> string \<times> file_map" where
  "resolveContactsPath w fs =
     (case resolve_identity w fs of
        Inl e \<Rightarrow> (defaultContactsPath w, fs)
      | Inr i \<Rightarrow>
          (case DataDir (tw_home w) of
             Inl e \<Rightarrow> (defaultContactsPath w, fs)
           | Inr beadleDir \<Rightarrow>
               (case EnsureIdentityDir (tw_copy w) (tw_mkdir w) beadleDir (id_Email i) fs of
                  (Inl e, fs') \<Rightarrow> (defaultContactsPath w, fs')
                | (Inr idDir, fs') \<Rightarrow> (JoinPath [idDir, ''contacts.json''], fs'))))"

definition with_cli_config ::
    "'v tool_world \<Rightarrow> bool \<Rightarrow> string \<Rightarrow> file_map \<Rightarrow> (mail_config \<Rightarrow> identity option \<Rightarrow> file_map \<Rightarrow> 'a outcome) \<Rightarrow> 'a outcome" where
  "with_cli_config w changed path fs f =
     (case resolveConfig w changed path fs of
        ((Inl e, i), fs') \<Rightarrow> stop (ConfigFailed e) fs'
      | ((Inr cfg, i), fs') \<Rightarrow> f cfg i fs')"

definition agent_of :: "identity option \<Rightarrow> string" where
  "agent_of i = (case i of None \<Rightarrow> [] | Some i \<Rightarrow> id_Handle i)"

subsection \<open>Reading the mailbox\<close>

definition check_page :: "int \<Rightarrow> int \<Rightarrow> (tool_fail, unit) result" where
  "check_page n off =
     (if n \<le> 0 then Inl (BadParam ''--count must be positive'')
      else if off < 0 then Inl (BadParam ''--offset must be non-negative'')
      else Inr ())"

definition cli_scope :: "'v tool_world \<Rightarrow> identity option \<Rightarrow> bool \<Rightarrow> string" where
  "cli_scope w i all_repos = (if all_repos then [] else rt_Slug (ResolveRepoTag (tw_git w) (agent_of i)))"

definition listCmd ::
    "'v tool_world \<Rightarrow> bool \<Rightarrow> string \<Rightarrow> string \<Rightarrow> int \<Rightarrow> int \<Rightarrow> bool \<Rightarrow> bool \<Rightarrow> file_map \<Rightarrow> ListResult outcome" where
  "listCmd w changed path folder n off unread all_repos fs =
     given (check_page n off) fs (\<lambda>_.
       with_cli_config w changed path fs (\<lambda>cfg i fs.
         withClient w cfg fs (\<lambda>srv. ask (SearchMessages srv (tw_ulow w) folder (scope_query (cli_scope w i all_repos) unread) n off))))"

record search_flags =
  sf_from :: string
  sf_subject :: string
  sf_since :: string
  sf_text :: string
  sf_unread :: bool
  sf_all_repos :: bool

definition cli_query :: "'v tool_world \<Rightarrow> search_flags \<Rightarrow> int \<Rightarrow> int \<Rightarrow> (tool_fail, SearchQuery) result" where
  "cli_query w sf n off =
     and_then (if sf_since sf = [] then Inr None
         else (case tw_since w (sf_since sf) of Inl e \<Rightarrow> Inl (SinceFailed e) | Inr t \<Rightarrow> Inr t)) (\<lambda>t.
       let q = \<lparr>sq_From = sf_from sf, sq_Subject = sf_subject sf, sq_Since = t, sq_Text = sf_text sf, sq_RepoSlug = [],
             sq_UnreadOnly = sf_unread sf\<rparr> in
       if sq_From q = [] \<and> sq_Subject q = [] \<and> sq_Text q = [] \<and> sq_Since q = None then Inl SearchNeedsCriteria
       else and_then (check_page n off) (\<lambda>_. Inr q))"

definition searchCmd ::
    "'v tool_world \<Rightarrow> bool \<Rightarrow> string \<Rightarrow> string \<Rightarrow> search_flags \<Rightarrow> int \<Rightarrow> int \<Rightarrow> file_map \<Rightarrow> ListResult outcome" where
  "searchCmd w changed path folder sf n off fs =
     given (cli_query w sf n off) fs (\<lambda>q.
       with_cli_config w changed path fs (\<lambda>cfg i fs.
         withClient w cfg fs (\<lambda>srv.
           ask (SearchMessages srv (tw_ulow w) folder (q\<lparr>sq_RepoSlug := cli_scope w i (sf_all_repos sf)\<rparr>) n off))))"

definition readCmd :: "'v tool_world \<Rightarrow> bool \<Rightarrow> string \<Rightarrow> string \<Rightarrow> string \<Rightarrow> file_map \<Rightarrow> Message outcome" where
  "readCmd w changed path folder arg fs =
     given (uid_of arg) fs (\<lambda>uid.
       with_cli_config w changed path fs (\<lambda>cfg i fs.
         withClient w cfg fs (\<lambda>srv.
           and_ask (ask (FetchMessage srv (reader_for w cfg) folder uid)) (\<lambda>m.
             answer (case m of None \<Rightarrow> Inl Panics | Some msg \<Rightarrow> Inr msg)))))"

definition foldersCmd :: "'v tool_world \<Rightarrow> bool \<Rightarrow> string \<Rightarrow> file_map \<Rightarrow> string list outcome" where
  "foldersCmd w changed path fs =
     with_cli_config w changed path fs (\<lambda>cfg i fs. withClient w cfg fs (\<lambda>srv. ask (Folders srv)))"

subsection \<open>Sending\<close>

text \<open>The contacts are loaded only when a field has a name in it.\<close>

definition contacts_if_needed :: "'v tool_world \<Rightarrow> file_map \<Rightarrow> string list \<Rightarrow> (string, Contact list option) result \<times> file_map" where
  "contacts_if_needed w fs raws =
     (case resolveContactsPath w fs of
        (path, fs') \<Rightarrow>
          (LoadContactsIfNeeded (and_then (load_store (tw_contacts w) (tw_reader w fs') path) (\<lambda>st. Inr (s_contacts st))) raws, fs'))"

definition cli_field ::
    "'v tool_world \<Rightarrow> (string, Contact list option) result \<Rightarrow> string \<Rightarrow> string \<Rightarrow> (tool_fail, string) result" where
  "cli_field w loaded key raw =
     (case ResolveField (tw_ulow w) loaded raw of Inl e \<Rightarrow> Inl (RecipientFailed key e) | Inr s \<Rightarrow> Inr s)"

definition cli_chain :: "'v tool_world \<Rightarrow> mail_config \<Rightarrow> imap_trace \<Rightarrow> file_map \<Rightarrow> outgoing \<Rightarrow> SendResult outcome" where
  "cli_chain w cfg tr fs m =
     (case TrySendChain (tw_chain w) cfg m fs of
        (r, s) \<Rightarrow>
          ((case r of Inl e \<Rightarrow> Inl (SendFailed e) | Inr res \<Rightarrow> Inr res),
           \<lparr>ef_imap = tr, ef_smtp = st_smtp s, ef_posts = st_posts s, ef_files = st_files s, ef_store = None\<rparr>))"

definition cli_recipients ::
    "'v tool_world \<Rightarrow> (string, Contact list option) result \<Rightarrow> string \<Rightarrow> string \<Rightarrow> string
       \<Rightarrow> (tool_fail, string list \<times> string list \<times> string list) result" where
  "cli_recipients w loaded to cc bcc =
     and_then (cli_field w loaded ''to'' to) (\<lambda>to'.
     and_then (cli_field w loaded ''cc'' cc) (\<lambda>cc'.
     and_then (cli_field w loaded ''bcc'' bcc) (\<lambda>bcc'.
       if splitAddresses to' = [] then Inl NoRecipient
       else Inr (splitAddresses to', splitAddresses cc', splitAddresses bcc'))))"

definition sendCmd ::
    "'v tool_world \<Rightarrow> bool \<Rightarrow> string \<Rightarrow> string \<Rightarrow> string \<Rightarrow> string \<Rightarrow> string \<Rightarrow> string \<Rightarrow> file_map \<Rightarrow> SendResult outcome" where
  "sendCmd w changed path to cc bcc subj body fs =
     (case contacts_if_needed w fs [to, cc, bcc] of
        (loaded, fs1) \<Rightarrow>
          given (cli_recipients w loaded to cc bcc) fs1 (\<lambda>(to', cc', bcc').
            with_cli_config w changed path fs1 (\<lambda>cfg i fs2.
              cli_chain w cfg [] fs2
                \<lparr>og_to = to', og_cc = cc', og_bcc = bcc', og_subject = subj, og_body = body, og_html = [], og_attachments = [],
                 og_keys = [], og_tag = ResolveRepoTag (tw_git w) (agent_of i), og_thread = no_thread\<rparr>)))"

definition cli_reply :: "'v tool_world \<Rightarrow> identity option \<Rightarrow> string \<Rightarrow> string list \<Rightarrow> string list \<Rightarrow> ReplyContext \<Rightarrow> outgoing" where
  "cli_reply w i replyBody cc bcc rc =
     (let tag = ResolveRepoTag (tw_git w) (agent_of i) in
      \<lparr>og_to = [rc_ReplyTo rc], og_cc = cc, og_bcc = bcc, og_subject = ReplySubject (ch_fold (tw_chain w)) (rc_Subject rc) tag,
       og_body = (if rc_Quotable rc then QuoteBody replyBody (rc_From rc) (rc_Date rc) (rc_Body rc) else replyBody),
       og_html = [], og_attachments = [], og_keys = [], og_tag = tag,
       og_thread = (if rc_MessageID rc \<noteq> [] then \<lparr>th_InReplyTo = rc_MessageID rc, th_References = rc_References rc\<rparr> else no_thread)\<rparr>)"

definition replyCmd ::
    "'v tool_world \<Rightarrow> bool \<Rightarrow> string \<Rightarrow> string \<Rightarrow> string \<Rightarrow> string \<Rightarrow> string \<Rightarrow> string \<Rightarrow> file_map \<Rightarrow> SendResult outcome" where
  "replyCmd w changed path folder arg replyBody cc bcc fs =
     given (uid_of arg) fs (\<lambda>uid.
       case contacts_if_needed w fs [cc, bcc] of
         (loaded, fs1) \<Rightarrow>
           given (and_then (cli_field w loaded ''cc'' cc) (\<lambda>cc'.
               and_then (cli_field w loaded ''bcc'' bcc) (\<lambda>bcc'. Inr (splitAddresses cc', splitAddresses bcc')))) fs1 (\<lambda>(ccs, bccs).
             with_cli_config w changed path fs1 (\<lambda>cfg i fs2.
               case withClient w cfg fs2 (\<lambda>srv.
                   and_ask (ask (FetchThread srv (ro_lib (tw_read w)) (tw_parse w) (tw_date w) folder uid)) (\<lambda>rc.
                     answer (if rc_ReplyTo rc = [] then Inl NoReplyAddress else Inr (cli_reply w i replyBody ccs bccs rc)))) of
                 (Inl e, ef) \<Rightarrow> (Inl e, ef)
               | (Inr m, ef) \<Rightarrow> cli_chain w cfg (ef_imap ef) fs2 m)))"

subsection \<open>Moving and marking\<close>

definition changeStatus :: "nat \<Rightarrow> string \<Rightarrow> string" where
  "changeStatus changed ok = (if changed = 0 then ''not_found'' else ok)"

record move_result =
  mv_status :: string
  mv_uid :: string
  mv_source :: string
  mv_destination :: string
  mv_moved :: nat

definition moveResultMap :: "string \<Rightarrow> string \<Rightarrow> string \<Rightarrow> nat \<Rightarrow> move_result" where
  "moveResultMap uid source dest moved =
     \<lparr>mv_status = changeStatus moved ''moved'', mv_uid = uid, mv_source = source, mv_destination = dest, mv_moved = moved\<rparr>"

definition moveCmd :: "'v tool_world \<Rightarrow> bool \<Rightarrow> string \<Rightarrow> string \<Rightarrow> string \<Rightarrow> string \<Rightarrow> file_map \<Rightarrow> move_result outcome" where
  "moveCmd w changed path folder arg dest fs =
     given (uid_of arg) fs (\<lambda>uid.
       with_cli_config w changed path fs (\<lambda>cfg i fs.
         withClient w cfg fs (\<lambda>srv.
           and_ask (ask (MoveMessage srv folder uid dest)) (\<lambda>moved. answer (Inr (moveResultMap arg folder dest moved))))))"

fun mark_uids :: "string list \<Rightarrow> (tool_fail, 32 word list) result" where
  "mark_uids [] = Inr []"
| "mark_uids (s # ss) =
     (case parse_uid s of
        None \<Rightarrow> Inl (BadMessageID s)
      | Some u \<Rightarrow> if u = 0 then Inl (BadMessageID s) else and_then (mark_uids ss) (\<lambda>us. Inr (u # us)))"

record mark_result =
  mk_status :: string
  mk_state :: string
  mk_modified :: nat
  mk_requested :: nat

definition mark_args :: "string \<Rightarrow> string option \<Rightarrow> (tool_fail, 32 word list) result" where
  "mark_args markIDs arg =
     (let ids = splitAddresses markIDs @ (case arg of None \<Rightarrow> [] | Some a \<Rightarrow> [a]) in
      if ids = [] then Inl (BadParam ''a UID argument or --ids is required'')
      else and_then (mark_uids ids) (\<lambda>us. Inr (DedupUIDs us)))"

definition markCmd :: "'v tool_world \<Rightarrow> bool \<Rightarrow> string \<Rightarrow> string \<Rightarrow> string \<Rightarrow> string option \<Rightarrow> bool \<Rightarrow> file_map \<Rightarrow> mark_result outcome" where
  "markCmd w changed path folder markIDs arg unread fs =
     given (mark_args markIDs arg) fs (\<lambda>uids.
       with_cli_config w changed path fs (\<lambda>cfg i fs.
         withClient w cfg fs (\<lambda>srv.
           and_ask (ask (SetSeenBatch srv folder uids (\<not> unread))) (\<lambda>modified.
             answer (Inr \<lparr>mk_status = changeStatus modified ''marked'', mk_state = (if unread then ''unread'' else ''read''),
               mk_modified = modified, mk_requested = length uids\<rparr>)))))"

subsection \<open>The address book\<close>

definition with_store ::
    "'v tool_world \<Rightarrow> string \<Rightarrow> file_map \<Rightarrow> (Store \<Rightarrow> file_map \<Rightarrow> 'a outcome) \<Rightarrow> 'a outcome" where
  "with_store w flag fs f =
     (case (if flag = [] then resolveContactsPath w fs else (flag, fs)) of
        (path, fs') \<Rightarrow>
          (case load_store (tw_contacts w) (tw_reader w fs') path of
             Inl e \<Rightarrow> stop (ContactsFailed e) fs'
           | Inr store \<Rightarrow> f store fs'))"

definition contactListCmd :: "'v tool_world \<Rightarrow> string \<Rightarrow> file_map \<Rightarrow> Contact list outcome" where
  "contactListCmd w flag fs = with_store w flag fs (\<lambda>store fs. (Inr (sorted_contacts (tw_ulow w) (s_contacts store)), quiet fs))"

definition contactAddCmd ::
    "'v tool_world \<Rightarrow> string \<Rightarrow> string \<Rightarrow> string \<Rightarrow> string list \<Rightarrow> string \<Rightarrow> string \<Rightarrow> file_map \<Rightarrow> Contact outcome" where
  "contactAddCmd w flag name addr aliases key notes fs = with_store w flag fs (\<lambda>store fs.
     case Add (tw_ulow w) (tw_store w) \<lparr>co_Name = name, co_Email = addr, co_Aliases = aliases, co_GPGKeyID = key, co_Notes = notes,
         co_Permissions = []\<rparr> store of
       ((c, Some e), store') \<Rightarrow> (Inl (ContactFailed e), (quiet fs)\<lparr>ef_store := Some store'\<rparr>)
     | ((c, None), store') \<Rightarrow> (Inr c, (quiet fs)\<lparr>ef_store := Some store'\<rparr>))"

definition contactRemoveCmd :: "'v tool_world \<Rightarrow> string \<Rightarrow> string \<Rightarrow> file_map \<Rightarrow> string outcome" where
  "contactRemoveCmd w flag name fs = with_store w flag fs (\<lambda>store fs.
     case Remove (tw_ufold w) (tw_store w) name store of
       (Some e, store') \<Rightarrow> (Inl (ContactFailed e), (quiet fs)\<lparr>ef_store := Some store'\<rparr>)
     | (None, store') \<Rightarrow> (Inr name, (quiet fs)\<lparr>ef_store := Some store'\<rparr>))"

definition contactFindCmd :: "'v tool_world \<Rightarrow> string \<Rightarrow> string list \<Rightarrow> file_map \<Rightarrow> Contact list outcome" where
  "contactFindCmd w flag args fs = with_store w flag fs (\<lambda>store fs.
     (Inr (Find_contacts (tw_ulow w) (s_contacts store) (Join args '' '')), quiet fs))"


subsection \<open>What the commands print\<close>

text \<open>The JSON text of a value is a parameter.\<close>

record globalOpts =
  go_JSON :: bool
  go_Verbose :: bool
  go_Quiet :: bool

datatype log_level = LevelDebug | LevelInfo | LevelError

definition slogLevel :: "(string \<Rightarrow> string) \<Rightarrow> globalOpts \<Rightarrow> log_level" where
  "slogLevel env g =
     (if go_Verbose g then LevelDebug
      else if go_Quiet g then LevelError
      else if env ''BEADLE_DEBUG'' \<noteq> [] then LevelDebug
      else LevelInfo)"

definition printResult :: "globalOpts \<Rightarrow> string \<Rightarrow> string \<Rightarrow> string" where
  "printResult g json human = (if go_JSON g then json @ [NL] else if \<not> go_Quiet g then human else [])"

text \<open>\<open>None\<close> for JSON that cannot be made; \<open>date\<close> renders a time with \<open>%s\<close>.\<close>

definition printMessages :: "globalOpts \<Rightarrow> string option \<Rightarrow> (int option \<Rightarrow> string) \<Rightarrow> ListResult \<Rightarrow> string option" where
  "printMessages g json date lr =
     (if go_JSON g then map_option (\<lambda>j. j @ [NL]) json
      else Some (
        (if lr_Degraded lr then (if lr_DegradedReason lr = [] then ''results degraded'' else lr_DegradedReason lr) @ [NL] else [])
        @ (if go_Quiet g then []
           else StatusLine lr @ [NL]
             @ concat (map (\<lambda>m. (if ms_Unread m then ''*'' else '' '') @ '' ['' @ ms_ID m @ ''] '' @ ms_From m @ '' '' @ DASH @ '' ''
                 @ ms_Subject m @ '' ('' @ date (ms_Date m) @ '')'' @ [NL]) (lr_Messages lr)))))"

definition show_message :: "(int option \<Rightarrow> string) \<Rightarrow> Message \<Rightarrow> string" where
  "show_message date m =
     ''From: '' @ me_From m @ [NL] @ ''To: '' @ me_To m @ [NL] @ ''Date: '' @ date (me_Date m) @ [NL]
     @ ''Subject: '' @ me_Subject m @ [NL] @ ''Trust: '' @ trust_string (me_TrustLevel m) @ [NL] @ [NL] @ me_Body m @ [NL]"

definition show_sent :: "string \<Rightarrow> SendResult \<Rightarrow> string" where
  "show_sent verb r = verb @ '' to '' @ sd_To r @ '' via '' @ sd_Method r @ [NL]"

definition show_move :: "move_result \<Rightarrow> string" where
  "show_move r =
     (if mv_moved r = 0 then mv_uid r @ '' not found in '' @ mv_source r @ '' '' @ DASH @ '' not moved'' @ [NL]
      else ''moved '' @ mv_uid r @ '' from '' @ mv_source r @ '' to '' @ mv_destination r @ [NL])"

definition show_mark :: "mark_result \<Rightarrow> string" where
  "show_mark r =
     (if mk_modified r < mk_requested r
      then ''marked '' @ Itoa_nat (mk_modified r) @ '' of '' @ Itoa_nat (mk_requested r) @ '' message(s) '' @ mk_state r @ '' (''
        @ Itoa_nat (mk_requested r - mk_modified r) @ '' not found)'' @ [NL]
      else ''marked '' @ Itoa_nat (mk_modified r) @ '' message(s) '' @ mk_state r @ [NL])"

definition show_contacts :: "Contact list \<Rightarrow> string" where
  "show_contacts cs = concat (map (\<lambda>c. ''  '' @ co_Name c @ '' <'' @ co_Email c @ ''>''
      @ (if co_Aliases c \<noteq> [] then '' ('' @ Join (co_Aliases c) '', '' @ '')'' else []) @ [NL]) cs)"

definition show_matches :: "Contact list \<Rightarrow> string" where
  "show_matches cs =
     (if cs = [] then ''no matches'' @ [NL]
      else concat (map (\<lambda>c. ''  '' @ co_Name c @ '' <'' @ co_Email c @ ''>'' @ [NL]) cs))"

subsection \<open>Reading commands leave the mailbox alone\<close>

lemma reading_cli_config [reading_intros]: "(\<And>cfg i fs'. reading (f cfg i fs')) \<Longrightarrow> reading (with_cli_config w c p fs f)"
  by (auto simp: with_cli_config_def reading_intros split: prod.splits sum.splits)

lemma reading_cli_chain: "list_all harmless tr \<Longrightarrow> reading (cli_chain w cfg tr fs m)"
  by (simp add: cli_chain_def reading_def split: prod.splits)

lemma reading_replyCmd: "reading (replyCmd w changed path folder arg replyBody cc bcc fs)"
  unfolding replyCmd_def
proof (intro reading_intros, goal_cases)
  case (1 uid)
  obtain loaded fs1 where l: "contacts_if_needed w fs [cc, bcc] = (loaded, fs1)" by force
  show ?case
    unfolding l prod.case
  proof (intro reading_intros, goal_cases)
    case (1 x)
    obtain ccs bccs where x: "x = (ccs, bccs)" by force
    show ?case
      unfolding x prod.case
    proof (intro reading_intros, goal_cases)
      case (1 cfg i fs2)
      define c where "c = withClient w cfg fs2 (\<lambda>srv.
          and_ask (ask (FetchThread srv (ro_lib (tw_read w)) (tw_parse w) (tw_date w) folder uid)) (\<lambda>rc.
            answer (if rc_ReplyTo rc = [] then Inl NoReplyAddress else Inr (cli_reply w i replyBody ccs bccs rc))))"
      obtain r ef where e: "c = (r, ef)" by force
      have "reading c" unfolding c_def by (auto intro!: reading_intros quiet_intros reads_intros)
      then have "list_all harmless (ef_imap ef)" by (simp add: reading_def e)
      then show ?case using e by (cases r) (simp_all add: c_def [symmetric] reading_cli_chain [unfolded reading_def] reading_def)
    qed
  qed
qed

text \<open>
  Whatever the flags and whatever fails, \<open>list\<close>, \<open>search\<close>, \<open>read\<close>, \<open>folders\<close>, \<open>send\<close> and \<open>reply\<close> change
  nothing in the mailbox: they only search, ask for counts, open folders read-only and fetch without marking.
\<close>

theorem cli_reading_commands:
  "list_all (list_all harmless)
    [ef_imap (snd (listCmd w changed path folder n off unread all_repos fs)),
     ef_imap (snd (searchCmd w changed path folder sf n off fs)),
     ef_imap (snd (readCmd w changed path folder arg fs)),
     ef_imap (snd (foldersCmd w changed path fs)),
     ef_imap (snd (sendCmd w changed path to cc bcc subj body fs)),
     ef_imap (snd (replyCmd w changed path folder arg body cc bcc fs))]"
proof -
  have "reading (listCmd w changed path folder n off unread all_repos fs)"
    "reading (searchCmd w changed path folder sf n off fs)"
    "reading (readCmd w changed path folder arg fs)"
    "reading (foldersCmd w changed path fs)"
    unfolding listCmd_def searchCmd_def readCmd_def foldersCmd_def
    by (auto intro!: reading_intros quiet_intros reads_intros)
  moreover have "reading (sendCmd w changed path to cc bcc subj body fs)"
    unfolding sendCmd_def
    by (auto intro!: reading_intros reading_cli_chain split: prod.split)
  ultimately show ?thesis using reading_replyCmd [of w changed path folder arg body cc bcc fs] by (simp add: reading_def)
qed


subsection \<open>Doctor and status look at the configuration the commands use\<close>

definition loadConfigForCmd ::
    "'v tool_world \<Rightarrow> file_map \<Rightarrow> bool \<Rightarrow> (no_identity, identity) result \<Rightarrow> string \<Rightarrow> (config_error, mail_config) result \<times> string" where
  "loadConfigForCmd w fs changed i fallbackPath =
     (if changed then (LoadConfig (tw_json w) (tw_reader w fs) fallbackPath, fallbackPath)
      else LoadIdentityConfig (tw_json w) (tw_reader w fs) (tw_home w) (case i of Inl e \<Rightarrow> None | Inr i \<Rightarrow> Some i) fallbackPath)"

lemma no_identity_config: "LoadIdentityConfig js rd home None path = (LoadConfig js rd path, path)"
  by (simp add: LoadIdentityConfig_def)

text \<open>
  C39. The configuration a mail command runs with is the one \<open>doctor\<close> and \<open>status\<close> report on, errors included: for an
  explicit \<open>-c\<close>, for an identity that cannot be resolved, and for a resolved identity whose directory could be prepared; and
  an explicit \<open>-c\<close> decides alone and touches no file.
\<close>

theorem commands_use_reported_config:
  assumes "resolveConfig w changed path fs = ((r, i), fs')"
    "\<And>idn beadleDir. \<not> changed \<Longrightarrow> resolve_identity w fs = Inr idn \<Longrightarrow> DataDir (tw_home w) = Inr beadleDir \<Longrightarrow>
       \<exists>d. fst (EnsureIdentityDir (tw_copy w) (tw_mkdir w) beadleDir (id_Email idn) fs) = Inr d"
  shows "r = fst (loadConfigForCmd w fs' changed (resolve_identity w fs) path)
    \<and> (changed \<longrightarrow> r = LoadConfig (tw_json w) (tw_reader w fs) path \<and> fs' = fs)"
proof (cases "resolve_identity w fs")
  case (Inl e)
  then show ?thesis using assms(1)
    by (auto simp: resolveConfig_def loadConfigForCmd_def no_identity_config Let_def)
next
  case (Inr idn)
  obtain beadleDir where d: "DataDir (tw_home w) = Inr beadleDir"
    using Inr by (cases "DataDir (tw_home w)") (auto simp: resolve_identity_def newResolver_def and_then_def split: sum.splits)
  show ?thesis
  proof (cases changed)
    case True
    then show ?thesis using assms(1) Inr by (auto simp: resolveConfig_def loadConfigForCmd_def Let_def)
  next
    case False
    obtain x fs1 where e: "EnsureIdentityDir (tw_copy w) (tw_mkdir w) beadleDir (id_Email idn) fs = (Inr x, fs1)"
      using assms(2) [OF False Inr d] by (metis fst_conv surj_pair)
    show ?thesis using assms(1) False Inr by (auto simp: resolveConfig_def loadConfigForCmd_def d e Let_def)
  qed
qed

definition cli_world :: "string tool_world" where
  "cli_world = sample_world\<lparr>tw_cwd := Inr ''/w'', tw_json := MailConfig.sample_json\<rparr>"

definition cli_files :: file_map where
  "cli_files = [''/h/.punt-labs/beadle/default-identity'' \<mapsto> ''me@x'', ''/h/.punt-labs/beadle/email.json'' \<mapsto> ''{}'',
     ''/h/.punt-labs/beadle/identities/me@x/email.json'' \<mapsto> ''bad'']"

definition is_config_fault :: "(config_error, mail_config) result \<Rightarrow> bool" where
  "is_config_fault r = (case r of Inl (IdentityConfig e) \<Rightarrow> True | _ \<Rightarrow> False)"

theorem commands_use_reported_config_witness:
  "is_config_fault (fst (loadConfigForCmd cli_world (snd (resolveConfig cli_world False ''/h/.punt-labs/beadle/email.json'' cli_files)) False
     (resolve_identity cli_world cli_files) ''/h/.punt-labs/beadle/email.json''))"
proof -
  let ?run = "resolveConfig cli_world False ''/h/.punt-labs/beadle/email.json'' cli_files"
  let ?ensure = "\<lambda>e. EnsureIdentityDir (tw_copy cli_world) (tw_mkdir cli_world) ''/h/.punt-labs/beadle'' e cli_files"
  have run: "?run = ((fst (fst ?run), snd (fst ?run)), snd ?run)" by simp
  have i: "(case resolve_identity cli_world cli_files of Inr i \<Rightarrow> id_Email i = ''me@x'' | Inl _ \<Rightarrow> False)" by code_simp
  have d: "(case DataDir (tw_home cli_world) of Inr b \<Rightarrow> b = ''/h/.punt-labs/beadle'' | Inl _ \<Rightarrow> False)" by code_simp
  have en: "(case fst (?ensure ''me@x'') of Inr p \<Rightarrow> True | Inl _ \<Rightarrow> False)" by code_simp
  have ok: "\<exists>d. fst (EnsureIdentityDir (tw_copy cli_world) (tw_mkdir cli_world) b (id_Email idn) cli_files) = Inr d"
    if "resolve_identity cli_world cli_files = Inr idn" "DataDir (tw_home cli_world) = Inr b" for idn b
  proof -
    have e: "id_Email idn = ''me@x''" using i unfolding that sum.case .
    have b: "b = ''/h/.punt-labs/beadle''" using d unfolding that sum.case .
    show ?thesis using en unfolding e b by (cases "fst (?ensure ''me@x'')") simp_all
  qed
  have f: "is_config_fault (fst (fst ?run))" by code_simp
  have "fst (fst ?run) = fst (loadConfigForCmd cli_world (snd ?run) False (resolve_identity cli_world cli_files) ''/h/.punt-labs/beadle/email.json'')"
    by (rule commands_use_reported_config [OF run ok, THEN conjunct1])
  with f show ?thesis by (simp only:)
qed

text \<open>
  When the directory could not be prepared, though it and the identity's file exist, the commands run with the explicit path
  while \<open>doctor\<close> reports the identity's file as broken: here the contacts could not be copied.
\<close>

lemma broken_identity_config_masked:
  "let w = cli_world\<lparr>tw_copy := (\<lambda>name. tw_copy cli_world name\<lparr>ci_open := name \<noteq> ''contacts.json''\<rparr>)\<rparr>;
       run = resolveConfig w False ''/h/.punt-labs/beadle/email.json'' cli_files
   in is_ok (fst (fst run))
     \<and> is_config_fault (fst (loadConfigForCmd w cli_files False (resolve_identity w cli_files) ''/h/.punt-labs/beadle/email.json''))"
  by code_simp


subsection \<open>Changing commands name what was asked for\<close>

lemma cli_config_cases:
  assumes "with_cli_config w changed path fs f = (r, ef)"
  obtains (failed) e fs' where "r = Inl e" "ef = quiet fs'" | (ran) cfg i fs' where "f cfg i fs' = (r, ef)"
  using assms by (auto simp: with_cli_config_def stop_def split: prod.splits sum.splits)

lemma mark_uids_Inr: "mark_uids ss = Inr us \<Longrightarrow> 0 \<notin> set us \<and> map Some us = map parse_uid ss"
  by (induction ss arbitrary: us) (auto simp: and_then_Inr_iff split: option.splits if_splits)

text \<open>A command with one batch of UIDs.\<close>

lemma cli_batch:
  assumes "given g fs (\<lambda>x. with_cli_config w changed path fs (\<lambda>cfg i fs. withClient w cfg fs (\<lambda>srv. and_ask (ask (m srv x)) (k x)))) = (r, ef)"
    "\<And>srv x c us. c \<in> set (snd (m srv x [])) \<Longrightarrow> changed_uids c = Some us \<Longrightarrow> us = u x"
    "\<And>x n tr. snd (k x n tr) = tr" "c \<in> set (ef_imap ef)" "changed_uids c = Some us"
  shows "\<exists>x. g = Inr x \<and> us = u x"
  using assms(1)
proof (cases rule: given_cases)
  case (failed e)
  then show ?thesis using assms(4) by (simp add: quiet_def)
next
  case (ran x)
  note g = ran(1)
  from ran(2) show ?thesis
  proof (cases rule: cli_config_cases)
    case (failed e fs')
    then show ?thesis using assms(4) by (simp add: quiet_def)
  next
    case (ran cfg i fs')
    from ran show ?thesis
    proof (cases rule: withClient_cases)
      case (failed e)
      then show ?thesis using assms(4) by (simp add: quiet_def)
    next
      case (ran srv tr)
      obtain a tr' where m: "m srv x [] = (a, tr')" by force
      have "tr = tr'" using ran(2) m assms(3) [of x] by (cases a) (auto simp: and_ask_def ask_def dest: arg_cong [where f = snd])
      then have "c \<in> set (snd (m srv x []))" using ran(3) assms(4) m by simp
      from assms(2) [OF this assms(5)] g show ?thesis by blast
    qed
  qed
qed

text \<open>
  \<open>mark\<close> changes exactly the messages named by its argument and \<open>--ids\<close>, each once, and never UID 0, which the
  protocol reads as the last message; \<open>move\<close> changes the one message its argument names.
\<close>

theorem cli_changes_named:
  assumes "c \<in> set (ef_imap ef)" "changed_uids c = Some us"
    "markCmd w changed path folder ids arg unread fs = (r, ef) \<or> moveCmd w changed path folder uid dest fs = (r', ef)"
  shows "(distinct us \<and> 0 \<notin> set us
      \<and> set us = {u. \<exists>s \<in> set (splitAddresses ids @ (case arg of None \<Rightarrow> [] | Some a \<Rightarrow> [a])). parse_uid s = Some u})
    \<or> (\<exists>u. us = [u] \<and> parse_uid uid = Some u)"
  using assms(3)
proof
  let ?ids = "splitAddresses ids @ (case arg of None \<Rightarrow> [] | Some a \<Rightarrow> [a])"
  assume m: "markCmd w changed path folder ids arg unread fs = (r, ef)"
  have "\<exists>x. mark_args ids arg = Inr x \<and> us = x"
    by (rule cli_batch [OF m [unfolded markCmd_def] _ _ assms(1,2)]) (auto simp: answer_def dest: batch_commands)
  then obtain vs where v: "mark_uids ?ids = Inr vs" "us = DedupUIDs vs"
    by (auto simp: mark_args_def Let_def and_then_Inr_iff split: if_splits)
  have m: "map Some vs = map parse_uid ?ids" "0 \<notin> set vs" using mark_uids_Inr [OF v(1)] by auto
  have "Some ` set vs = parse_uid ` set ?ids" using arg_cong [OF m(1), of set] unfolding set_map .
  moreover have "u \<in> set vs \<longleftrightarrow> Some u \<in> Some ` set vs" for u by auto
  ultimately have "u \<in> set vs \<longleftrightarrow> (\<exists>s \<in> set ?ids. parse_uid s = Some u)" for u by (simp only: image_iff eq_commute)
  then have "set vs = {u. \<exists>s \<in> set ?ids. parse_uid s = Some u}" by blast
  then show ?thesis using m(2) v(2) by (simp add: DedupUIDs_def DedupUIDs_set DedupUIDs_distinct)
next
  assume m: "moveCmd w changed path folder uid dest fs = (r', ef)"
  have "\<exists>x. uid_of uid = Inr x \<and> us = [x]"
    by (rule cli_batch [OF m [unfolded moveCmd_def] _ _ assms(1,2)]) (auto simp: answer_def MoveMessage_def dest: batch_commands)
  then show ?thesis by (auto simp: uid_of_def split: option.splits)
qed

definition cli_marking :: "string tool_world" where
  "cli_marking = cli_world\<lparr>tw_dial := \<lambda>_. Inr (sample_server\<lparr>is_store := \<lambda>_. Inr [4]\<rparr>)\<rparr>"

theorem cli_changes_named_witness: "distinct [9, 4 :: 32 word]"
proof -
  let ?run = "markCmd cli_marking True ''/h/.punt-labs/beadle/email.json'' ''INBOX'' ''9, 4,9'' (Some ''4'') False cli_files"
  have r: "?run = (fst ?run, snd ?run) 
    \<or> moveCmd cli_marking True ''/h/.punt-labs/beadle/email.json'' ''INBOX'' [] [] cli_files = (Inl Panics, snd ?run)" by simp
  have "list_ex (\<lambda>c. c = StoreSeen [9, 4] True) (ef_imap (snd ?run))" by code_simp
  then have c: "StoreSeen [9, 4] True \<in> set (ef_imap (snd ?run))" by (simp only: list_ex_iff) blast
  have u: "changed_uids (StoreSeen [9, 4] True) = Some [9, 4]" by (simp add: changed_uids_def)
  from cli_changes_named [OF c u r] show ?thesis by (elim disjE exE conjE) simp_all
qed

subsection \<open>A broken address book does not stop mail to addresses\<close>

text \<open>
  When every recipient is written as an address, what \<open>send\<close> does, sends and answers does not depend on the contacts
  at all: not on the file, not on whether it can be read.
\<close>

theorem send_ignores_contacts:
  assumes "\<forall>raw \<in> {to, cc, bcc}. \<not> needs_contacts raw"
  shows "sendCmd (w\<lparr>tw_contacts := decode\<rparr>) changed path to cc bcc subj body fs = sendCmd w changed path to cc bcc subj body fs"
proof -
  let ?w = "w\<lparr>tw_contacts := decode\<rparr>"
  have f: "tw_home ?w = tw_home w" "tw_cwd ?w = tw_cwd w" "tw_yaml ?w = tw_yaml w" "tw_reader ?w = tw_reader w" "tw_copy ?w = tw_copy w"
    "tw_mkdir ?w = tw_mkdir w" "tw_json ?w = tw_json w" "tw_ulow ?w = tw_ulow w" "tw_chain ?w = tw_chain w" "tw_git ?w = tw_git w"
    by simp_all
  have i: "resolve_identity ?w fs' = resolve_identity w fs'" for fs' unfolding resolve_identity_def newResolver_def f ..
  then have "resolveContactsPath ?w fs = resolveContactsPath w fs"
    unfolding resolveContactsPath_def defaultContactsPath_def f by simp
  then have l: "contacts_if_needed v fs [to, cc, bcc] = (Inr None, snd (resolveContactsPath w fs))" if "v \<in> {w, ?w}" for v
    using assms that by (cases "resolveContactsPath w fs") (auto simp: contacts_if_needed_def LoadContactsIfNeeded_def)
  have c: "with_cli_config ?w changed path fs' g = with_cli_config w changed path fs' g"
    for fs' and g :: "mail_config \<Rightarrow> identity option \<Rightarrow> file_map \<Rightarrow> SendResult outcome"
    unfolding with_cli_config_def resolveConfig_def i f ..
  have r: "cli_recipients ?w loaded to cc bcc = cli_recipients w loaded to cc bcc" for loaded
    unfolding cli_recipients_def cli_field_def f ..
  have ch: "cli_chain ?w cfg tr fs' m = cli_chain w cfg tr fs' m" for cfg tr fs' m unfolding cli_chain_def f ..
  show ?thesis using l [of w] l [of ?w] unfolding sendCmd_def c r ch f by simp
qed

theorem send_ignores_contacts_witness:
  "sendCmd (cli_world\<lparr>tw_contacts := \<lambda>_. Inl ''malformed''\<rparr>) False ''/c'' ''a@b, c@d'' [] ''e@f'' ''hi'' ''text'' cli_files
     = sendCmd cli_world False ''/c'' ''a@b, c@d'' [] ''e@f'' ''hi'' ''text'' cli_files"
proof -
  have "list_all (\<lambda>raw. \<not> needs_contacts raw) [''a@b, c@d'', [], ''e@f'']" by code_simp
  then have "\<forall>raw \<in> {''a@b, c@d'', [], ''e@f''}. \<not> needs_contacts raw" by (simp only: list_all_iff list.set)
  then show ?thesis by (rule send_ignores_contacts)
qed

end
