(* ===== verification/Admin.thy ===== *)
theory Admin
  imports Cli McpReg
begin

section \<open>Doctor, status, install and identity (cmd/beadle-email/admin_cmd.go, install.go, identity_cmd.go)\<close>

text \<open>
  The administrative commands: the health checks in their order, the state shown, the set-up that prompts for a
  configuration and writes it once, its removal, and the identity of a repository. Error values are rendered by parameters;
  the claude program and the file system answer through records of outcomes.
\<close>

subsection \<open>The world of the checks\<close>

text \<open>
  Error texts; the credential back ends' labels; where gpg is, whether it lists a key, and its passphrase probe; whether the
  mail server's port answers; claude; the working directory's project file; and
  \<open>strconv.Quote\<close>.
\<close>

record admin_world =
  aw_version :: string
  aw_no_identity :: "no_identity \<Rightarrow> string"
  aw_config :: "config_error \<Rightarrow> string"
  aw_secret :: "get_error \<Rightarrow> string"
  aw_backends :: "string list"
  aw_look :: "string \<Rightarrow> string option"
  aw_has_key :: "string \<Rightarrow> bool"
  aw_probe :: "string \<Rightarrow> exec_outcome"
  aw_smtp :: bool
  aw_claude :: claude_cli
  aw_project :: "(string, string) result"
  aw_quote :: "string \<Rightarrow> string"

definition chk :: "string \<Rightarrow> string \<Rightarrow> string \<Rightarrow> doctorCheck" where
  "chk n s d = \<lparr>dc_Name = n, dc_Status = s, dc_Detail = d\<rparr>"

definition secret_check :: "admin_world \<Rightarrow> string \<Rightarrow> (get_error, string) result \<Rightarrow> doctorCheck" where
  "secret_check a n r = (case r of Inl e \<Rightarrow> chk n ''FAIL'' (aw_secret a e) | Inr _ \<Rightarrow> chk n ''OK'' [])"

definition identity_check :: "admin_world \<Rightarrow> (no_identity, identity) result \<Rightarrow> doctorCheck" where
  "identity_check a i =
     (case i of
        Inl (NoResolverDirs e) \<Rightarrow> chk ''identity'' ''FAIL'' e
      | Inl e \<Rightarrow> chk ''identity'' ''WARN'' (''no identity: '' @ aw_no_identity a e)
      | Inr i \<Rightarrow> chk ''identity'' ''OK'' (id_Email i @ '' (source: '' @ id_Source i @ '')''))"

definition signing_checks :: "admin_world \<Rightarrow> secret_world \<Rightarrow> mail_config \<Rightarrow> doctorCheck list" where
  "signing_checks a sw cfg =
     (let signer = mc_GPGSigner cfg; gpgAvailable = (aw_look a (mc_GPGBinary cfg) \<noteq> None) in
      if signer \<noteq> [] \<and> gpgAvailable then
        (if \<not> aw_has_key a signer
         then [chk ''gpg_signing_key'' ''FAIL'' (''no key for '' @ signer), secret_check a ''gpg_passphrase'' (GPGPassphrase sw)]
         else [chk ''gpg_signing_key'' ''OK'' signer,
           (if \<not> KeyRequiresPassphrase (aw_probe a signer)
            then chk ''gpg_passphrase'' ''OK'' (''not required ('' @ signer @ '' has no passphrase '' @ DASH @ '' filesystem access grants signing authority)'')
            else secret_check a ''gpg_passphrase'' (GPGPassphrase sw))])
      else if signer \<noteq> [] then
        [chk ''gpg_signing_key'' ''FAIL'' (''cannot check signing key: gpg binary '' @ aw_quote a (mc_GPGBinary cfg) @ '' not found'')]
      else [chk ''gpg_signing_key'' ''OK'' ''signing disabled (gpg_signer not configured)''])"

definition host_port :: "mail_config \<Rightarrow> string" where
  "host_port cfg = SMTPEffectiveHost cfg @ '':'' @ Itoa (mc_SMTPPort cfg)"

definition config_checks :: "admin_world \<Rightarrow> secret_world \<Rightarrow> (config_error, mail_config) result \<times> string \<Rightarrow> doctorCheck list" where
  "config_checks a sw loaded =
     (case loaded of
        (Inl e, p) \<Rightarrow> [chk ''config'' ''FAIL'' (aw_config a e)]
      | (Inr cfg, p) \<Rightarrow>
          [chk ''config'' ''OK'' p,
           secret_check a ''imap_password'' (IMAPPassword sw (mc_TestPassword cfg)),
           secret_check a ''resend_api_key'' (ResendAPIKey sw),
           (case aw_look a (mc_GPGBinary cfg) of
              None \<Rightarrow> chk ''gpg'' ''FAIL'' (mc_GPGBinary cfg @ '' not found'')
            | Some path \<Rightarrow> chk ''gpg'' ''OK'' path)]
          @ signing_checks a sw cfg
          @ [if aw_smtp a then chk ''smtp'' ''OK'' (host_port cfg)
             else chk ''smtp'' ''WARN'' (''Proton Bridge SMTP not reachable at '' @ host_port cfg @ '' '' @ DASH @ '' will use Resend fallback'')])"

definition contacts_check :: "'v tool_world \<Rightarrow> file_map \<Rightarrow> doctorCheck \<times> file_map" where
  "contacts_check w fs =
     (case resolveContactsPath w fs of
        (path, fs') \<Rightarrow>
          ((case load_store (tw_contacts w) (tw_reader w fs') path of
              Inl e \<Rightarrow> chk ''contacts'' ''FAIL'' e
            | Inr st \<Rightarrow>
                if s_contacts st = [] then chk ''contacts'' ''WARN'' (''no contacts at '' @ path)
                else chk ''contacts'' ''OK'' (Itoa_nat (length (s_contacts st)) @ '' contacts at '' @ path)),
           fs'))"

definition doctor_checks :: "admin_world \<Rightarrow> 'v tool_world \<Rightarrow> bool \<Rightarrow> string \<Rightarrow> file_map \<Rightarrow> doctorCheck list \<times> file_map" where
  "doctor_checks a w changed path fs =
     (let i = resolve_identity w fs; (cc, fs') = contacts_check w fs in
      ([chk ''version'' ''OK'' (aw_version a), identity_check a i, chk ''secret_backends'' ''OK'' (Join (aw_backends a) '', '')]
       @ config_checks a (ch_secrets (tw_chain w)) (loadConfigForCmd w fs changed i path)
       @ [cc] @ inspectMCPRegistration (aw_claude a) (aw_project a), fs'))"

text \<open>What doctor answers, and whether it succeeds.\<close>

definition doctorCmd :: "admin_world \<Rightarrow> 'v tool_world \<Rightarrow> bool \<Rightarrow> string \<Rightarrow> file_map \<Rightarrow> (bool \<times> doctorCheck list) \<times> file_map" where
  "doctorCmd a w changed path fs =
     (case doctor_checks a w changed path fs of
        (checks, fs') \<Rightarrow> ((\<not> list_ex (\<lambda>c. dc_Status c = ''FAIL'') checks, checks), fs'))"


lemma chk_status [simp]: "dc_Status (chk n s d) = s"
  by (simp add: chk_def)

lemma secret_check_status: "dc_Status (secret_check a n r) = (if is_ok r then ''OK'' else ''FAIL'')"
  by (cases r) (simp_all add: secret_check_def)

lemma mcp_checks_never_fail: "c \<in> set (inspectMCPRegistration cl scan) \<Longrightarrow> dc_Status c \<noteq> ''FAIL''"
  by (auto simp: inspectMCPRegistration_def registrationChecks_def mcpRegistrationCheck_def projectScopeCheck_def
      split: if_splits sum.splits option.splits)

definition usable_signer :: "admin_world \<Rightarrow> secret_world \<Rightarrow> mail_config \<Rightarrow> bool" where
  "usable_signer a sw cfg \<longleftrightarrow>
     aw_has_key a (mc_GPGSigner cfg) \<and> (KeyRequiresPassphrase (aw_probe a (mc_GPGSigner cfg)) \<longrightarrow> is_ok (GPGPassphrase sw))"

lemma signing_checks_ok:
  assumes "aw_look a (mc_GPGBinary cfg) \<noteq> None"
  shows "list_ex (\<lambda>c. dc_Status c = ''FAIL'') (signing_checks a sw cfg) \<longleftrightarrow> mc_GPGSigner cfg \<noteq> [] \<and> \<not> usable_signer a sw cfg"
  using assms by (simp add: signing_checks_def Let_def usable_signer_def secret_check_status)

lemma config_checks_ok:
  "list_ex (\<lambda>c. dc_Status c = ''FAIL'') (config_checks a sw loaded) \<longleftrightarrow>
     \<not> (\<exists>cfg p. loaded = (Inr cfg, p) \<and> is_ok (IMAPPassword sw (mc_TestPassword cfg)) \<and> is_ok (ResendAPIKey sw)
       \<and> aw_look a (mc_GPGBinary cfg) \<noteq> None \<and> (mc_GPGSigner cfg = [] \<or> usable_signer a sw cfg))"
proof (cases "fst loaded")
  case (Inl e)
  then show ?thesis by (cases loaded) (auto simp: config_checks_def)
next
  case (Inr cfg)
  then obtain p where l: "loaded = (Inr cfg, p)" by (cases loaded) simp
  show ?thesis
  proof (cases "aw_look a (mc_GPGBinary cfg)")
    case None
    then show ?thesis by (simp add: l config_checks_def)
  next
    case (Some path)
    then have "aw_look a (mc_GPGBinary cfg) \<noteq> None" by simp
    from signing_checks_ok [OF this, of sw] Some show ?thesis by (simp add: l config_checks_def secret_check_status)
  qed
qed

text \<open>
  C40. \<open>doctor\<close> succeeds exactly when mail can be read and sent as configured: the directories resolve, the configuration
  that it and \<open>status\<close> show loads, the mailbox password and the Resend key are found, gpg is there, a signer that is
  configured has its key and any passphrase it needs, and the contacts load. An unresolved identity, an unreachable mail
  server, an empty address book and a drifted MCP registration only warn.
\<close>

theorem doctor_succeeds_iff:
  "fst (fst (doctorCmd a w changed path fs)) \<longleftrightarrow>
     is_ok (newResolver w)
     \<and> (\<exists>cfg p. loadConfigForCmd w fs changed (resolve_identity w fs) path = (Inr cfg, p)
         \<and> is_ok (IMAPPassword (ch_secrets (tw_chain w)) (mc_TestPassword cfg)) \<and> is_ok (ResendAPIKey (ch_secrets (tw_chain w)))
         \<and> aw_look a (mc_GPGBinary cfg) \<noteq> None
         \<and> (mc_GPGSigner cfg = [] \<or> usable_signer a (ch_secrets (tw_chain w)) cfg))
     \<and> (case resolveContactsPath w fs of (p, fs') \<Rightarrow> is_ok (load_store (tw_contacts w) (tw_reader w fs') p))"
proof -
  let ?F = "\<lambda>c. dc_Status c = ''FAIL''"
  let ?i = "resolve_identity w fs"
  obtain cc fs' where cc: "contacts_check w fs = (cc, fs')" by force
  have c: "?F cc \<longleftrightarrow> \<not> (case resolveContactsPath w fs of (p, fs') \<Rightarrow> is_ok (load_store (tw_contacts w) (tw_reader w fs') p))"
    using cc by (auto simp: contacts_check_def split: prod.splits sum.splits if_splits)
  have i: "?F (identity_check a ?i) \<longleftrightarrow> \<not> is_ok (newResolver w)"
    by (auto simp: identity_check_def resolve_identity_def split: sum.splits no_identity.splits)
  have m: "\<not> list_ex ?F (inspectMCPRegistration (aw_claude a) (aw_project a))"
    using mcp_checks_never_fail by (auto simp: list_ex_iff)
  define good where "good \<longleftrightarrow> (\<exists>cfg p. loadConfigForCmd w fs changed ?i path = (Inr cfg, p)
         \<and> is_ok (IMAPPassword (ch_secrets (tw_chain w)) (mc_TestPassword cfg)) \<and> is_ok (ResendAPIKey (ch_secrets (tw_chain w)))
         \<and> aw_look a (mc_GPGBinary cfg) \<noteq> None
         \<and> (mc_GPGSigner cfg = [] \<or> usable_signer a (ch_secrets (tw_chain w)) cfg))"
  have g: "list_ex ?F (config_checks a (ch_secrets (tw_chain w)) (loadConfigForCmd w fs changed ?i path)) \<longleftrightarrow> \<not> good"
    unfolding good_def by (rule config_checks_ok)
  show ?thesis unfolding good_def [symmetric] using c i m g by (simp add: doctorCmd_def doctor_checks_def cc Let_def conj_ac)
qed

text \<open>What \<open>status\<close> shows, as the entries of its map.\<close>

definition statusCmd :: "admin_world \<Rightarrow> 'v tool_world \<Rightarrow> bool \<Rightarrow> string \<Rightarrow> file_map \<Rightarrow> (string \<rightharpoonup> string) outcome" where
  "statusCmd a w changed path fs =
     (case newResolver w of
        Inl e \<Rightarrow> stop (NoDataDir e) fs
      | Inr rs \<Rightarrow>
          let i = resolve_identity w fs in
          (case loadConfigForCmd w fs changed i path of
             (Inl e, used) \<Rightarrow> stop (ConfigFailed e) fs
           | (Inr cfg, used) \<Rightarrow>
               let (cpath, fs') = resolveContactsPath w fs;
                   cs = load_store (tw_contacts w) (tw_reader w fs') cpath;
                   m0 = [''version'' \<mapsto> aw_version a, ''imap_host'' \<mapsto> mc_IMAPHost cfg, ''imap_port'' \<mapsto> Itoa (mc_IMAPPort cfg),
                     ''imap_user'' \<mapsto> mc_IMAPUser cfg, ''smtp_host'' \<mapsto> SMTPEffectiveHost cfg, ''smtp_user'' \<mapsto> SMTPEffectiveUser cfg,
                     ''smtp_port'' \<mapsto> Itoa (mc_SMTPPort cfg), ''from_address'' \<mapsto> mc_FromAddress cfg, ''gpg_binary'' \<mapsto> mc_GPGBinary cfg,
                     ''gpg_signer'' \<mapsto> mc_GPGSigner cfg, ''config'' \<mapsto> used, ''contacts_path'' \<mapsto> cpath,
                     ''contacts_count'' \<mapsto> (case cs of Inl e \<Rightarrow> ''0'' | Inr st \<Rightarrow> Itoa_nat (length (s_contacts st)))];
                   m1 = (case i of
                       Inl e \<Rightarrow> m0(''identity_error'' \<mapsto> aw_no_identity a e)
                     | Inr i \<Rightarrow>
                         let ma = m0(''identity_email'' \<mapsto> id_Email i, ''identity_source'' \<mapsto> id_Source i);
                             mb = (if id_Handle i \<noteq> [] then ma(''identity_handle'' \<mapsto> id_Handle i) else ma)
                         in if id_Name i \<noteq> [] then mb(''identity_name'' \<mapsto> id_Name i) else mb);
                   m2 = (case cs of Inl e \<Rightarrow> if e \<noteq> [] then m1(''contacts_error'' \<mapsto> e) else m1 | Inr st \<Rightarrow> m1)
               in (Inr m2, quiet fs')))"


subsection \<open>Prompting\<close>

text \<open>Lines of standard input, used up one per prompt; an empty one, or none, takes the default.\<close>

fun prompt :: "string list \<Rightarrow> string \<Rightarrow> string \<times> string list" where
  "prompt [] defaultVal = (defaultVal, [])"
| "prompt (l # ls) defaultVal = (if TrimSpace l \<noteq> [] then TrimSpace l else defaultVal, ls)"

text \<open>\<open>fmt.Sscanf (s, "%d", &n)\<close>: a sign, the longest run of digits, 64 bits; what follows is left unread.\<close>

definition scan_int :: "string \<Rightarrow> int option" where
  "scan_int s =
     (let signed = (HasPrefix s ''-'' \<or> HasPrefix s ''+'');
          sign = (if signed then take 1 s else []);
          ds = takeWhile is_digit (if signed then drop 1 s else s)
      in if ds = [] then None else ParseInt64 (sign @ ds))"

definition promptInt :: "string list \<Rightarrow> int \<Rightarrow> int \<times> string list" where
  "promptInt ls defaultVal =
     (case prompt ls (Itoa defaultVal) of
        (s, ls') \<Rightarrow> ((case scan_int s of None \<Rightarrow> defaultVal | Some n \<Rightarrow> n), ls'))"

definition promptConfig :: "string list \<Rightarrow> mail_config" where
  "promptConfig ls0 =
     (let (imapHost, ls1) = prompt ls0 ''127.0.0.1'';
          (imapPort, ls2) = promptInt ls1 1143;
          (imapUser, ls3) = prompt ls2 [];
          (smtpPort, ls4) = promptInt ls3 1025;
          (from, ls5) = prompt ls4 imapUser;
          (gpg, ls6) = prompt ls5 ''gpg'';
          (signer, ls7) = prompt ls6 from
      in \<lparr>mc_IMAPHost = imapHost, mc_IMAPPort = imapPort, mc_IMAPUser = imapUser, mc_SMTPHost = [], mc_SMTPPort = smtpPort,
          mc_SMTPUser = [], mc_FromAddress = from, mc_GPGBinary = gpg, mc_GPGSigner = signer, mc_PollInterval = [],
          mc_TLSSkipVerify = False, mc_TestPassword = []\<rparr>)"

subsection \<open>Install and uninstall\<close>

text \<open>
  The outcomes of the system calls: the directories that cannot be made, whether the configuration could be looked at, the
  bytes left by a failed write, the rename and the removal of the temporary file; the standard input; how a configuration is
  written as JSON; the program's own path.
\<close>

record install_io =
  in_mkdir_fails :: "string set"
  in_stat :: bool
  in_write :: "string option option"
  in_rename :: bool
  in_remove :: bool
  in_stdin :: "string list"
  in_marshal :: "mail_config \<Rightarrow> string"
  in_self :: string

datatype install_error = InstallHome string | InstallMkdir string | InstallWrite | InstallRename | DoctorFailed

definition write_config :: "install_io \<Rightarrow> string \<Rightarrow> file_map \<Rightarrow> (install_error, unit) result \<times> file_map" where
  "write_config io configPath fs =
     (let data = in_marshal io (promptConfig (in_stdin io)) @ [NL]; tmp = configPath @ ''.tmp'' in
      case in_write io of
        Some left \<Rightarrow> (Inl InstallWrite, (case left of None \<Rightarrow> fs | Some l \<Rightarrow> fs(tmp \<mapsto> l)))
      | None \<Rightarrow>
          if in_rename io then (Inr (), fs(tmp := None, configPath \<mapsto> data))
          else (Inl InstallRename, if in_remove io then fs(tmp := None) else fs(tmp \<mapsto> data)))"

definition ensure_config :: "install_io \<Rightarrow> string \<Rightarrow> file_map \<Rightarrow> (install_error, unit) result \<times> file_map" where
  "ensure_config io configPath fs =
     (if fs configPath \<noteq> None \<and> in_stat io then (Inr (), fs) else write_config io configPath fs)"

definition install_dirs :: "string \<Rightarrow> string list" where
  "install_dirs dataDir = [JoinPath [dataDir, []], JoinPath [dataDir, ''secrets''], JoinPath [dataDir, ''attachments'']]"

text \<open>The error, what was run and printed about MCP, doctor's checks when it ran, and the files.\<close>

definition installCmd ::
    "admin_world \<Rightarrow> 'v tool_world \<Rightarrow> install_io \<Rightarrow> bool \<Rightarrow> file_map
       \<Rightarrow> ((install_error, doctorCheck list) result \<times> mcp_event list) \<times> file_map" where
  "installCmd a w io standalone fs =
     (case DataDir (tw_home w) of
        Inl e \<Rightarrow> ((Inl (InstallHome e), []), fs)
      | Inr dataDir \<Rightarrow>
          (case find (\<lambda>d. d \<in> in_mkdir_fails io) (install_dirs dataDir) of
             Some d \<Rightarrow> ((Inl (InstallMkdir d), []), fs)
           | None \<Rightarrow>
               let configPath = JoinPath [dataDir, ''email.json''] in
               (case ensure_config io configPath fs of
                  (Inl e, fs') \<Rightarrow> ((Inl e, []), fs')
                | (Inr _, fs') \<Rightarrow>
                    (case setupMCPRegistration (aw_claude a) (in_self io) standalone of
                       (err, es) \<Rightarrow>
                         let es' = es @ (case err of None \<Rightarrow> [] | Some e \<Rightarrow> [Stderr (''MCP registration: '' @ e @ [NL])]) in
                         (case doctorCmd a w False configPath fs' of
                            ((ok, checks), fs2) \<Rightarrow> ((if ok then Inr checks else Inl DoctorFailed, es'), fs2))))))"

definition deployed_commands :: "string list" where
  "deployed_commands = [''inbox.md'', ''mail.md'', ''send.md'', ''contacts.md'', ''beadle.md'']"

text \<open>Which entries can be removed is a parameter; the value counts what was removed.\<close>

fun remove_commands :: "(string \<Rightarrow> bool) \<Rightarrow> string \<Rightarrow> string list \<Rightarrow> file_map \<Rightarrow> nat \<times> file_map" where
  "remove_commands removable dir [] fs = (0, fs)"
| "remove_commands removable dir (name # names) fs =
     (let path = JoinPath [dir, name] in
      if fs path \<noteq> None \<and> removable path
      then (case remove_commands removable dir names (fs(path := None)) of (n, fs') \<Rightarrow> (Suc n, fs'))
      else remove_commands removable dir names fs)"

definition uninstallCmd ::
    "claude_cli \<Rightarrow> (string, string) result \<Rightarrow> (string \<Rightarrow> bool) \<Rightarrow> file_map
       \<Rightarrow> ((string, nat) result \<times> mcp_event list) \<times> file_map" where
  "uninstallCmd c home removable fs =
     (let (n0, es) = (if cl_available c then (case removeStandaloneMCP c of
              (None, rs) \<Rightarrow> (1::nat, rs) | (Some e, rs) \<Rightarrow> (0, rs)) else (0, [])) in
      case home of
        Inl e \<Rightarrow> ((Inl (''cannot determine home directory: '' @ e), es), fs)
      | Inr h \<Rightarrow>
          (case remove_commands removable (JoinPath [h, ''.claude'', ''commands'']) deployed_commands fs of
             (n, fs') \<Rightarrow> ((Inr (n0 + n), es), fs')))"


lemma EnsureIdentityDir_keeps:
  "EnsureIdentityDir io mkdir b email fs = (res, fs') \<Longrightarrow> fs p \<noteq> None \<Longrightarrow> fs' p = fs p"
  by (auto simp: EnsureIdentityDir_def Let_def migrate_keeps split: if_splits prod.splits sum.splits)

lemma resolveContactsPath_keeps: "resolveContactsPath w fs = (path, fs') \<Longrightarrow> fs p \<noteq> None \<Longrightarrow> fs' p = fs p"
  by (auto simp: resolveContactsPath_def EnsureIdentityDir_keeps split: sum.splits prod.splits)

lemma doctorCmd_keeps: "doctorCmd a w changed path fs = (x, fs') \<Longrightarrow> fs p \<noteq> None \<Longrightarrow> fs' p = fs p"
  by (auto simp: doctorCmd_def doctor_checks_def contacts_check_def Let_def resolveContactsPath_keeps split: prod.splits)

lemma install_files:
  assumes "installCmd a w io standalone fs = ((r, es), fs')" "DataDir (tw_home w) = Inr dataDir"
  obtains (dirs) d where "r = Inl (InstallMkdir d)" "fs' = fs"
    | (written) e where "ensure_config io (JoinPath [dataDir, ''email.json'']) fs = (Inl e, fs')" "r = Inl e"
    | (ran) fs1 where "ensure_config io (JoinPath [dataDir, ''email.json'']) fs = (Inr (), fs1)" "\<And>p. fs1 p \<noteq> None \<Longrightarrow> fs' p = fs1 p"
        "\<exists>ok checks. doctorCmd a w False (JoinPath [dataDir, ''email.json'']) fs1 = ((ok, checks), fs') \<and> r = (if ok then Inr checks else Inl DoctorFailed)"
proof (cases "find (\<lambda>d. d \<in> in_mkdir_fails io) (install_dirs dataDir)")
  case (Some d)
  then show ?thesis using assms by (intro dirs [of d]) (simp_all add: installCmd_def)
next
  case None
  let ?c = "JoinPath [dataDir, ''email.json'']"
  obtain q fs1 where e: "ensure_config io ?c fs = (q, fs1)" by force
  show ?thesis
  proof (cases q)
    case (Inl x)
    then show ?thesis using assms None e by (intro written [of x]) (simp_all add: installCmd_def Let_def)
  next
    case (Inr u)
    obtain err es1 where m: "setupMCPRegistration (aw_claude a) (in_self io) standalone = (err, es1)" by force
    obtain ok checks fs2 where d: "doctorCmd a w False ?c fs1 = ((ok, checks), fs2)" by (metis surj_pair)
    have f: "fs' = fs2" "r = (if ok then Inr checks else Inl DoctorFailed)" using assms None e Inr m d by (simp_all add: installCmd_def Let_def)
    show ?thesis
    proof (rule ran)
      show "ensure_config io ?c fs = (Inr (), fs1)" using e Inr by simp
      show "fs' p = fs1 p" if "fs1 p \<noteq> None" for p using doctorCmd_keeps [OF d that] f(1) by simp
      show "\<exists>ok checks. doctorCmd a w False ?c fs1 = ((ok, checks), fs') \<and> r = (if ok then Inr checks else Inl DoctorFailed)"
        using d f by blast
    qed
  qed
qed

text \<open>
  \<open>install\<close> never touches a configuration that is there: run again, in any state and whatever fails, it leaves the file as
  it is, and every other file but the temporary one.
\<close>

theorem install_keeps_files:
  assumes "installCmd a w io standalone fs = ((r, es), fs')" "DataDir (tw_home w) = Inr dataDir"
    "fs p = Some data" "p \<noteq> JoinPath [dataDir, ''email.json''] @ ''.tmp''" "p = JoinPath [dataDir, ''email.json''] \<Longrightarrow> in_stat io"
  shows "fs' p = Some data"
  using assms(1,2)
proof (cases rule: install_files)
  case (dirs d)
  then show ?thesis using assms(3) by simp
next
  case (written e)
  then show ?thesis using assms(3-5)
    by (auto simp: ensure_config_def write_config_def Let_def split: if_splits option.splits)
next
  case (ran fs1)
  have "fs1 p = Some data" using ran(1) assms(3-5)
    by (auto simp: ensure_config_def write_config_def Let_def split: if_splits option.splits)
  then show ?thesis using ran(2) [of p] by simp
qed

text \<open>
  A first \<open>install\<close> that gets as far as its health checks has written the configuration that was prompted for, and every
  command reads it back with the defaults filled in, given that the JSON library reads what it writes.
\<close>

theorem install_writes_prompted:
  assumes "installCmd a w io standalone fs = ((r, es), fs')" "DataDir (tw_home w) = Inr dataDir"
    "fs (JoinPath [dataDir, ''email.json'']) = None" "is_ok r \<or> r = Inl DoctorFailed"
    "js_config (tw_json w) (in_marshal io (promptConfig (in_stdin io)) @ [NL]) = Inr (promptConfig (in_stdin io))"
  shows "LoadConfig (tw_json w) (reader_of fs') (JoinPath [dataDir, ''email.json'']) = Inr (with_defaults (promptConfig (in_stdin io)))"
  using assms(1,2)
proof (cases rule: install_files)
  case (dirs d)
  then show ?thesis using assms(4) by simp
next
  case (written e)
  then have "e \<in> {InstallWrite, InstallRename}"
    using assms(3) by (auto simp: ensure_config_def write_config_def Let_def split: if_splits option.splits)
  then show ?thesis using assms(4) written(2) by auto
next
  case (ran fs1)
  let ?c = "JoinPath [dataDir, ''email.json'']"
  have "fs1 ?c = Some (in_marshal io (promptConfig (in_stdin io)) @ [NL])"
    using ran(1) assms(3) by (auto simp: ensure_config_def write_config_def Let_def split: if_splits option.splits)
  moreover have "dataDir \<noteq> []" using assms(2) DataDir_nonempty by blast
  ultimately have "reader_of fs' (Clean ?c) = Inr (in_marshal io (promptConfig (in_stdin io)) @ [NL])"
    using ran(2) [of ?c] Clean_JoinPath [of dataDir] by (simp add: reader_of_def)
  then show ?thesis using assms(5) by (simp add: LoadConfig_def)
qed

definition sample_admin :: admin_world where
  "sample_admin = \<lparr>aw_version = ''dev'', aw_no_identity = (\<lambda>_. []), aw_config = (\<lambda>_. []), aw_secret = (\<lambda>_. []), aw_backends = [],
     aw_look = (\<lambda>_. None), aw_has_key = (\<lambda>_. False), aw_probe = (\<lambda>_. Exited False), aw_smtp = False, aw_claude = sample_cli,
     aw_project = Inr [], aw_quote = (\<lambda>s. s)\<rparr>"

definition sample_install :: install_io where
  "sample_install = \<lparr>in_mkdir_fails = {}, in_stat = True, in_write = None, in_rename = True, in_remove = True,
     in_stdin = [''mail.host'', ''993'', ''me@x''], in_marshal = mc_IMAPHost, in_self = ''/bin/be''\<rparr>"

definition install_world :: "string tool_world" where
  "install_world = cli_world\<lparr>tw_json := MailConfig.sample_json\<lparr>js_config := (\<lambda>_. Inr (promptConfig (in_stdin sample_install)))\<rparr>\<rparr>"

theorem install_keeps_files_witness:
  "snd (installCmd sample_admin cli_world sample_install True cli_files) ''/h/.punt-labs/beadle/email.json'' = Some ''{}''"
proof -
  let ?run = "installCmd sample_admin cli_world sample_install True cli_files"
  have r: "?run = ((fst (fst ?run), snd (fst ?run)), snd ?run)" by simp
  define d where "d = projr (DataDir (tw_home cli_world))"
  have d: "DataDir (tw_home cli_world) = Inr d" unfolding d_def by code_simp
  have p: "JoinPath [d, ''email.json''] = ''/h/.punt-labs/beadle/email.json''" unfolding d_def by code_simp
  have f: "cli_files ''/h/.punt-labs/beadle/email.json'' = Some ''{}''" by code_simp
  have n: "''/h/.punt-labs/beadle/email.json'' \<noteq> JoinPath [d, ''email.json''] @ ''.tmp''" unfolding p by code_simp
  have i: "in_stat sample_install" by (simp add: sample_install_def)
  show ?thesis by (rule install_keeps_files [OF r d f n i])
qed

lemma install_reaches_doctor:
  assumes "installCmd a w io standalone fs = ((r, es), fs')" "DataDir (tw_home w) = Inr dataDir"
    "in_mkdir_fails io = {}" "in_write io = None" "in_rename io"
  shows "is_ok r \<or> r = Inl DoctorFailed"
proof -
  let ?c = "JoinPath [dataDir, ''email.json'']"
  have "fst (ensure_config io ?c fs) = Inr ()" using assms(4,5) by (simp add: ensure_config_def write_config_def Let_def)
  then obtain fs1 where e: "ensure_config io ?c fs = (Inr (), fs1)" by (metis prod.collapse)
  have n: "find (\<lambda>d. d \<in> in_mkdir_fails io) (install_dirs dataDir) = None" using assms(3) by (simp add: find_None_iff)
  obtain err es1 where m: "setupMCPRegistration (aw_claude a) (in_self io) standalone = (err, es1)" by force
  obtain ok checks fs2 where d: "doctorCmd a w False ?c fs1 = ((ok, checks), fs2)" by (metis surj_pair)
  show ?thesis using assms(1,2) e n m d by (cases ok) (auto simp add: installCmd_def Let_def)
qed

theorem install_writes_prompted_witness:
  "\<exists>dataDir. LoadConfig (tw_json install_world) (reader_of (snd (installCmd sample_admin install_world sample_install True (\<lambda>_. None))))
     (JoinPath [dataDir, ''email.json'']) = Inr (with_defaults (promptConfig (in_stdin sample_install)))"
proof -
  let ?run = "installCmd sample_admin install_world sample_install True (\<lambda>_. None)"
  have r: "?run = ((fst (fst ?run), snd (fst ?run)), snd ?run)" by simp
  define d where "d = projr (DataDir (tw_home install_world))"
  have d: "DataDir (tw_home install_world) = Inr d" unfolding d_def by code_simp
  have o: "is_ok (fst (fst ?run)) \<or> fst (fst ?run) = Inl DoctorFailed"
    by (rule install_reaches_doctor [OF r d]) (simp_all add: sample_install_def)
  have j: "js_config (tw_json install_world) (in_marshal sample_install (promptConfig (in_stdin sample_install)) @ [NL])
    = Inr (promptConfig (in_stdin sample_install))" by (simp add: install_world_def)
  show ?thesis using install_writes_prompted [OF r d _ o j] by blast
qed


subsection \<open>The identity of a repository\<close>

text \<open>The entries of the map \<open>identity show\<close> prints. A contacts file that is not there is no error: \<open>Load\<close> takes it as empty.\<close>

definition identityShow :: "'v tool_world \<Rightarrow> file_map \<Rightarrow> (tool_fail, string \<rightharpoonup> string) result" where
  "identityShow w fs =
     (case resolve_identity w fs of
        Inl (NoResolverDirs e) \<Rightarrow> Inl (NoDataDir e)
      | Inl (Unresolvable e) \<Rightarrow> Inl (ResolveFailed e)
      | Inr i \<Rightarrow>
          let (path, n, err) =
              (case IdentityContactsPath (tw_home w) (id_Email i) of
                 Inl e \<Rightarrow> (''(unavailable)'', 0, e)
               | Inr p \<Rightarrow> (case load_store (tw_contacts w) (tw_reader w fs) p of
                   Inl e \<Rightarrow> (p, 0, e)
                 | Inr st \<Rightarrow> (p, length (s_contacts st), [])));
              m0 = [''email'' \<mapsto> id_Email i, ''source'' \<mapsto> id_Source i, ''contacts_path'' \<mapsto> path, ''contacts_count'' \<mapsto> Itoa_nat n];
              m1 = (if id_Handle i \<noteq> [] then m0(''handle'' \<mapsto> id_Handle i) else m0);
              m2 = (if id_Name i \<noteq> [] then m1(''name'' \<mapsto> id_Name i) else m1);
              m3 = (if id_GPGKeyID i \<noteq> [] then m2(''gpg_key_id'' \<mapsto> id_GPGKeyID i) else m2)
          in Inr (if err \<noteq> [] then m3(''contacts_error'' \<mapsto> err) else m3))"

datatype set_error =
    HandleMissing
  | HandleRefused id_error
  | NotARepository
  | SetMkdir string
  | SetWrite string
  | SetDirs string
  | SetUnresolved string id_error

text \<open>
  What git answers, whether the directory can be made, and the bytes a failed write leaves. A handle goes into the file as it
  is, without YAML quoting.
\<close>

record set_io =
  se_git :: "string option"
  se_mkdir :: bool
  se_write :: "string option option"

definition identity_content :: "string \<Rightarrow> string" where
  "identity_content handle = ''agent: '' @ handle @ [NL]"

definition pin_path :: "string \<Rightarrow> string" where
  "pin_path root = JoinPath [JoinPath [root, ''.punt-labs''], ''ethos.yaml'']"

definition identitySet :: "'v tool_world \<Rightarrow> set_io \<Rightarrow> string \<Rightarrow> file_map \<Rightarrow> (set_error, identity) result \<times> file_map" where
  "identitySet w io arg fs =
     (let handle = TrimSpace arg in
      if handle = [] then (Inl HandleMissing, fs)
      else case ValidateHandle handle of
        Inl e \<Rightarrow> (Inl (HandleRefused e), fs)
      | Inr _ \<Rightarrow>
          (case se_git io of
             None \<Rightarrow> (Inl NotARepository, fs)
           | Some out \<Rightarrow>
               let root = TrimSpace out; configPath = pin_path root in
               if \<not> se_mkdir io then (Inl (SetMkdir (JoinPath [root, ''.punt-labs''])), fs)
               else (case se_write io of
                   Some left \<Rightarrow> (Inl (SetWrite configPath), (case left of None \<Rightarrow> fs | Some l \<Rightarrow> fs(configPath \<mapsto> l)))
                 | None \<Rightarrow>
                     let fs' = fs(configPath \<mapsto> identity_content handle) in
                     ((case and_then (EthosDir (tw_home w)) (\<lambda>e. and_then (DataDir (tw_home w)) (\<lambda>b. Inr (e, b))) of
                         Inl e \<Rightarrow> Inl (SetDirs e)
                       | Inr (e, b) \<Rightarrow>
                           (case Resolve (tw_yaml w) (tw_reader w fs') \<lparr>rs_ethosDir = e, rs_beadleDir = b, rs_repoDir = root\<rparr> of
                              Inl err \<Rightarrow> Inl (SetUnresolved handle err)
                            | Inr i \<Rightarrow> Inr i)),
                      fs'))))"

lemma JoinPath_twice:
  assumes "d \<noteq> []" "plain_name a" "plain_name b"
  shows "JoinPath [JoinPath [d, a], b] = JoinPath [d, a, b]" "Clean (JoinPath [d, a, b]) = JoinPath [d, a, b]"
proof -
  have render: "p = render_path (IsAbs p) (path_comps p)" if "Clean p = p" "p \<noteq> []" for p
    using that by (simp add: Clean_def)
  note x = comps_JoinPath [of "[a]" d] and z = comps_JoinPath [of "[a, b]" d]
  note y = comps_JoinPath [of "[b]" "JoinPath [d, a]"]
  show "JoinPath [JoinPath [d, a], b] = JoinPath [d, a, b]"
    using render [OF y(2,3)] render [OF z(2,3)] x y z assms by simp
  show "Clean (JoinPath [d, a, b]) = JoinPath [d, a, b]" using z(2) assms by simp
qed

lemma Resolve_handle:
  assumes "Resolve ym rd r = Inr i" "resolveHandle ym rd r = Inr h" "h \<noteq> []"
  shows "id_Handle i = h \<and> id_Source i = ''ethos''"
  using assms by (auto simp: Resolve_def and_then_Inr_iff fromEthos_def Let_def split: sum.splits os_error.splits if_splits)

text \<open>
  When \<open>identity set\<close> succeeds, the repository is pinned to that handle: it answers the ethos identity of exactly the handle it
  was given, and every later command run at the repository's root resolves to the same identity. A failure before the
  write changes nothing. YAML is assumed to read the one line written as that handle.
\<close>

theorem identity_set_pins:
  assumes "identitySet w io arg fs = (r, fs')" "tw_reader w = reader_of"
    "\<And>h. h = TrimSpace arg \<Longrightarrow> \<exists>old. ym_repo (tw_yaml w) (identity_content h) = Inr \<lparr>rc_Agent = h, rc_Active = old\<rparr>"
    "\<And>out. se_git io = Some out \<Longrightarrow> TrimSpace out \<noteq> []"
  shows "case r of
      Inr i \<Rightarrow> id_Handle i = TrimSpace arg \<and> id_Source i = ''ethos''
        \<and> (\<exists>out. se_git io = Some out \<and> resolve_identity (w\<lparr>tw_cwd := Inr (TrimSpace out)\<rparr>) fs' = Inr i)
    | Inl e \<Rightarrow> e \<in> {HandleMissing, NotARepository} \<union> range HandleRefused \<union> range SetMkdir \<longrightarrow> fs' = fs"
proof (cases r)
  case (Inl e)
  then show ?thesis using assms(1)
    by (auto simp: identitySet_def Let_def split: if_splits sum.splits option.splits)
next
  case (Inr i)
  let ?h = "TrimSpace arg"
  obtain out e b where run: "?h \<noteq> []" "se_git io = Some out" "EthosDir (tw_home w) = Inr e" "DataDir (tw_home w) = Inr b"
      "fs' = fs(pin_path (TrimSpace out) \<mapsto> identity_content ?h)"
      "Resolve (tw_yaml w) (tw_reader w fs') \<lparr>rs_ethosDir = e, rs_beadleDir = b, rs_repoDir = TrimSpace out\<rparr> = Inr i"
    using assms(1) Inr by (auto simp: identitySet_def Let_def and_then_Inr_iff split: if_splits sum.splits option.splits)
  let ?rs = "\<lparr>rs_ethosDir = e, rs_beadleDir = b, rs_repoDir = TrimSpace out\<rparr>"
  have ne: "TrimSpace out \<noteq> []" by (rule assms(4) [OF run(2)])
  have pl: "plain_name ''.punt-labs''" "plain_name ''ethos.yaml''" by (simp_all add: plain_name_def)
  have "Clean (repo_config ?rs) = pin_path (TrimSpace out)"
    using JoinPath_twice [OF ne pl] by (simp add: repo_config_def pin_path_def)
  then have rd: "tw_reader w fs' (Clean (repo_config ?rs)) = Inr (identity_content ?h)"
    using assms(2) run(5) by (simp add: reader_of_def)
  obtain old where "ym_repo (tw_yaml w) (identity_content ?h) = Inr \<lparr>rc_Agent = ?h, rc_Active = old\<rparr>" using assms(3) by blast
  then have "resolveHandle (tw_yaml w) (tw_reader w fs') ?rs = Inr ?h"
    using rd run(1) ne by (simp add: resolveHandle_def readRepoEthosConfig_def)
  from Resolve_handle [OF run(6) this run(1)] have h: "id_Handle i = ?h \<and> id_Source i = ''ethos''" .
  have "resolve_identity (w\<lparr>tw_cwd := Inr (TrimSpace out)\<rparr>) fs' = Inr i"
    using run by (simp add: resolve_identity_def newResolver_def and_then_def)
  with h run(2) show ?thesis by (simp add: Inr)
qed

definition pin_world :: "string tool_world" where
  "pin_world = cli_world\<lparr>tw_yaml := \<lparr>ym_identity = (\<lambda>_. Inr \<lparr>ei_Handle = ''rmh'', ei_Name = [], ei_Email = ''r@x''\<rparr>), ym_extension = (\<lambda>_. Inl []),
     ym_repo = (\<lambda>d. Inr \<lparr>rc_Agent = take (length d - 8) (drop 7 d), rc_Active = []\<rparr>)\<rparr>\<rparr>"

definition sample_set :: set_io where
  "sample_set = \<lparr>se_git = Some (''/w'' @ [NL]), se_mkdir = True, se_write = None\<rparr>"

definition pin_files :: file_map where
  "pin_files = [''/h/.punt-labs/ethos/identities/rmh.yaml'' \<mapsto> ''id'']"

theorem identity_set_pins_witness:
  "\<exists>i. fst (identitySet pin_world sample_set '' rmh'' pin_files) = Inr i \<and> id_Handle i = TrimSpace '' rmh''"
proof -
  let ?run = "identitySet pin_world sample_set '' rmh'' pin_files"
  have ok: "is_ok (fst ?run)" by code_simp
  then obtain i where i: "fst ?run = Inr i" by (auto simp only: is_ok_iff)
  have run: "?run = (Inr i, snd ?run)" using i by (metis prod.collapse)
  have rd: "tw_reader pin_world = reader_of" by (simp add: pin_world_def cli_world_def sample_world_def)
  have y: "\<exists>old. ym_repo (tw_yaml pin_world) (identity_content h) = Inr \<lparr>rc_Agent = h, rc_Active = old\<rparr>" for h
    by (simp add: pin_world_def identity_content_def)
  have g: "TrimSpace out \<noteq> []" if "se_git sample_set = Some out" for out
  proof -
    have "out = ''/w'' @ [NL]" using that by (simp add: sample_set_def)
    moreover have "TrimSpace (''/w'' @ [NL]) \<noteq> []" by code_simp
    ultimately show ?thesis by (simp only: not_False_eq_True)
  qed
  from identity_set_pins [OF run rd y g] i show ?thesis by simp
qed


text \<open>A handle that YAML reads otherwise is accepted and written bare: here all that follows the number sign is a comment.\<close>

lemma handle_written_bare: "ValidateHandle ''a #b'' = Inr () \<and> identity_content ''a #b'' = ''agent: a #b'' @ [NL]"
  by (simp add: ValidateHandle_def identity_content_def ContainsAny_def HasPrefix_def)

end
