(* ===== verification/Startup.thy ===== *)
theory Startup
  imports Daemon Handler
begin

section \<open>The daemon put together (runCmd of cmd/beadle-daemon/main.go)\<close>

text \<open>
  What \<open>beadle-daemon run\<close> builds from its configuration and hands to the mail handler: the commands of the owner, the
  planner with its one rule, whether workers may be spawned, and the executor that the handler makes for each admitted
  message. The theorem spans them: what is run, for whom, and by whose authority.
\<close>

text \<open>The one rule; \<open>compile\<close> is \<open>regexp.Compile\<close>.\<close>

definition summarize_rule :: "string \<times> CommandCall list" where
  "summarize_rule = (''(?i)summarize|summary'', [\<lparr>cc_Command = ''summarize'', cc_Args = []\<rparr>])"

type_synonym planner = "EmailMeta \<Rightarrow> string \<Rightarrow> (string, CommandCall list) result"

definition StubPlanner :: "string \<Rightarrow> planner" where
  "StubPlanner err meta body = Inl err"

text \<open>No planner without commands; the handler puts a stub in its place.\<close>

definition daemon_planner :: "(string \<Rightarrow> (string \<Rightarrow> bool) option) \<Rightarrow> (string \<times> Command) list \<Rightarrow> planner" where
  "daemon_planner compile commands =
     (if commands = [] then StubPlanner ''no planner configured''
      else (case NewRulePlanner compile [summarize_rule] of
              Inl i \<Rightarrow> StubPlanner ''no planner configured''
            | Inr rules \<Rightarrow> Plan_rules rules))"

record daemon_parts =
  dp_owner :: string
  dp_commands :: "(string \<times> Command) list"
  dp_planner :: planner
  dp_worker :: bool
  dp_slots :: nat

definition startDaemon ::
    "config_json \<Rightarrow> yaml_lib \<Rightarrow> reader \<Rightarrow> Resolver \<Rightarrow> string
       \<Rightarrow> (string \<Rightarrow> (string, (string \<times> Command) list \<times> load_log list) result)
       \<Rightarrow> (string \<Rightarrow> (string \<Rightarrow> bool) option) \<Rightarrow> secret_world \<Rightarrow> daemon_parts" where
  "startDaemon json ym rd r dataDir load compile sw =
     (let (key, enabled) = fst (resolveDaemonOwnerKeyID json ym rd r (JoinPath [dataDir, ''daemon.json'']));
          commands = loadDaemonCommands load key enabled
      in \<lparr>dp_owner = key, dp_commands = commands, dp_planner = daemon_planner compile commands,
          dp_worker = (daemon_api_key sw \<noteq> []), dp_slots = NewMailHandler_slots 0\<rparr>)"

text \<open>The executor of one message: \<open>libs\<close> brings the JSON, schema and address libraries.\<close>

definition daemon_executor :: "daemon_parts \<Rightarrow> 'w Executor \<Rightarrow> 'w runner \<Rightarrow> 'w runner \<Rightarrow> 'w Executor" where
  "daemon_executor d libs claude cli =
     libs\<lparr>ex_Planner := dp_planner d, ex_Commands := map_of (dp_commands d),
       ex_Runners := [''claude'' \<mapsto> claude, ''cli'' \<mapsto> cli], ex_Store := True\<rparr>"

subsection \<open>What a run calls\<close>

text \<open>A call that names a command of the registry and whose arguments it accepts.\<close>

definition registered :: "'w Executor \<Rightarrow> CommandCall \<Rightarrow> bool" where
  "registered ex c \<longleftrightarrow> (\<exists>cmd. ex_Commands ex (cc_Command c) = Some cmd \<and> ValidateArgs cmd (cc_Args c) = Inr ())"

definition calls_of :: "pipe_event list \<Rightarrow> CommandCall set" where
  "calls_of evs = {c. \<exists>i inp t res. Ran i c inp t res \<in> set evs}"

lemma calls_of_simps [simp]:
  "calls_of [] = {}" "calls_of (save ex p) = {}" "calls_of (a @ b) = calls_of a \<union> calls_of b"
  "calls_of (Ran i c inp t res # evs) = insert c (calls_of evs)"
  by (auto simp: calls_of_def save_def)

definition reply_like :: "'w Executor \<Rightarrow> CommandCall \<Rightarrow> bool" where
  "reply_like ex c \<longleftrightarrow> registered ex c \<and> cc_Command c = ''reply''"

lemma fireElse_calls: "fireElse ex p w = (evs, w') \<Longrightarrow> c \<in> calls_of evs \<Longrightarrow> reply_like ex c"
  by (auto simp: fireElse_def Let_def reply_like_def registered_def reply_call_def split: option.splits sum.splits prod.splits)

lemma fail_calls: "fail_pipeline ex p err w = (out, evs, w') \<Longrightarrow> c \<in> calls_of evs \<Longrightarrow> reply_like ex c"
  by (cases "fireElse ex (p\<lparr>pl_Status := ''failed'', pl_Error := Some err\<rparr>) w")
    (auto simp: fail_pipeline_def Let_def dest: fireElse_calls)

lemma auto_reply_calls: "auto_reply ex p pipe t w = (p', evs, w') \<Longrightarrow> c \<in> calls_of evs \<Longrightarrow> reply_like ex c"
  by (auto simp: auto_reply_def Let_def reply_like_def registered_def reply_call_def split: option.splits sum.splits prod.splits)

lemma stages_calls:
  "run_stages ex sch i calls p pipe t w = (out, evs, w') \<Longrightarrow> c \<in> calls_of evs \<Longrightarrow> c \<in> set calls \<or> reply_like ex c"
proof (induction calls arbitrary: i p pipe t w out evs w')
  case (Cons call calls)
  from Cons.prems(1) show ?case
  proof (cases rule: run_stages_step)
    case (norunner p' err evs')
    then show ?thesis using Cons.prems(2) fail_calls [OF norunner(2)] by auto
  next
    case (stopped p' err evs' res w1)
    then show ?thesis using Cons.prems(2) fail_calls [OF stopped(2)] by auto
  next
    case (passed result rt evs' w1 p2 pipe' t')
    then show ?thesis using Cons.prems(2) Cons.IH [OF passed(2)] by auto
  qed
qed (simp add: calls_of_def)

lemma Run_calls:
  assumes "Run ex uuid now meta body w = ((p, err), evs, w')" "c \<in> calls_of evs"
  shows "reply_like ex c \<or> (registered ex c \<and> (\<exists>calls. ex_Planner ex meta (norm_body body) = Inr calls \<and> c \<in> set calls))"
  using assms(1)
proof (cases rule: Run_cases)
  case (early p0 e evs')
  then show ?thesis using assms(2) fail_calls [OF early(2)] by simp
next
  case (stage calls sch pipe evs')
  then have "c \<in> calls_of evs'" using assms(2) by simp
  then show ?thesis using stages_calls [OF stage(4)] stage(1) by (auto simp: planned_def validate_calls_ok registered_def)
next
  case (finished calls sch pipe evs' p2 pipe' t w1 p3 evs'')
  then have "c \<in> calls_of evs' \<or> c \<in> calls_of evs''" using assms(2) by simp
  then show ?thesis
    using stages_calls [OF finished(4)] auto_reply_calls [OF finished(5)] finished(1) by (auto simp: planned_def validate_calls_ok registered_def)
qed

lemma planned_calls: "daemon_planner compile cmds meta body = Inr calls \<Longrightarrow> c \<in> set calls \<Longrightarrow> cc_Command c = ''summarize''"
  by (auto simp: daemon_planner_def StubPlanner_def NewRulePlanner_def Plan_rules_def summarize_rule_def Let_def
      split: if_splits option.splits)


subsection \<open>Whose mail, and by whose authority\<close>

text \<open>
  C1. For whom and by whose authority the daemon acts, whatever its files, the mailbox, the planner's input and the workers
  hold: every command that a pipeline of a pass calls is \<open>summarize\<close> or \<open>reply\<close>, as the file of that name that the
  owner's configured key signed, with arguments it declares; and the message behind the pipeline comes from a contact with
  the x permission under its own address, on a trusted transport, with a worker's credential configured.
\<close>

theorem daemon_acts_by_owner_for_sender:
  assumes "d = startDaemon json ym rd r dataDir (\<lambda>owner. LoadCommands ufold g marshal at dur decode owner dir) compile sw"
    "store_reach ulow ufold' s" "ulow_keeps ''wx'' ulow" "mw_identity mw = Some ident" "mw_imap_host mw = Some host"
    "RunPipeline meta body \<in> set (fst (OnNewMail mw (\<lambda>_. Some (contact_book ulow s)) (dp_worker d) (dp_slots d) busy freed n))"
    "Run (daemon_executor d libs claude cli) uuid now meta body w = ((p, err), evs, w')" "Ran i call inp t res \<in> set evs"
  shows "cc_Command call \<in> {''summarize'', ''reply''}
    \<and> (\<exists>cmd raw. map_of (dp_commands d) (cc_Command call) = Some cmd \<and> ValidateArgs cmd (cc_Args call) = Inr ()
        \<and> command_ok dur cmd \<and> cmd = default_runner_mode raw \<and> authorized ufold g marshal at raw (dp_owner d)
        \<and> owner_key_of json ym rd r (JoinPath [dataDir, ''daemon.json'']) (dp_owner d))
    \<and> (\<exists>msg c msgs. mw_list mw (min n 20) = Some msgs \<and> msg \<in> set msgs \<and> meta = message_meta msg
        \<and> listed_contact ulow s c (ExtractEmailAddress (mw_parse mw) (ms_From msg))
        \<and> pm_Execute (CheckPermission ulow c ident) \<and> trusted_sender mw host c msg)
    \<and> daemon_api_key sw \<noteq> []"
proof -
  let ?ex = "daemon_executor d libs claude cli" and ?path = "JoinPath [dataDir, ''daemon.json'']"
  obtain key enabled where k: "fst (resolveDaemonOwnerKeyID json ym rd r ?path) = (key, enabled)" by force
  let ?cmds = "loadDaemonCommands (\<lambda>owner. LoadCommands ufold g marshal at dur decode owner dir) key enabled"
  have d: "dp_owner d = key" "dp_commands d = ?cmds" "dp_planner d = daemon_planner compile ?cmds"
    "dp_worker d = (daemon_api_key sw \<noteq> [])"
    using k by (simp_all add: assms(1) startDaemon_def Let_def)
  have "call \<in> calls_of evs" using assms(8) by (auto simp: calls_of_def)
  from Run_calls [OF assms(7) this]
  have c: "registered ?ex call" "cc_Command call \<in> {''summarize'', ''reply''}"
    using planned_calls [of compile ?cmds meta "norm_body body"] by (auto simp: reply_like_def daemon_executor_def d(3))
  then obtain cmd where cmd: "map_of ?cmds (cc_Command call) = Some cmd" "ValidateArgs cmd (cc_Args call) = Inr ()"
    by (auto simp: registered_def daemon_executor_def d(2))
  obtain cmds log es where e: "enabled" "?cmds = cmds" "load_loop (loadCommand ufold g marshal at dur decode key) es [] [] = (cmds, log)"
    using cmd(1) by (auto simp: loadDaemonCommands_def LoadCommands_def split: if_splits sum.splits)
  note owner = resolve_owner_enabled [OF k [unfolded e(1) [THEN eqTrueI]]]
  have auth: "\<exists>raw. command_ok dur cmd \<and> cmd = default_runner_mode raw \<and> authorized ufold g marshal at raw key"
    using daemon_gate.loaded_good [OF e(3) cmd(1) [unfolded e(2)]] fingerprint_nonempty [OF owner(1)] by (auto simp: load_good_def)
  from pass_sender [OF assms(2-6)] have s: "\<exists>msg c msgs. mw_list mw (min n 20) = Some msgs \<and> msg \<in> set msgs \<and> meta = message_meta msg
        \<and> listed_contact ulow s c (ExtractEmailAddress (mw_parse mw) (ms_From msg))
        \<and> pm_Execute (CheckPermission ulow c ident) \<and> trusted_sender mw host c msg" "daemon_api_key sw \<noteq> []"
    by (auto simp: d(4))
  show ?thesis using c(2) cmd auth owner(2) s unfolding d(1,2) by blast
qed


definition summarize_command :: Command where
  "summarize_command = sample_command\<lparr>cmd_Name := ''summarize'', cmd_Args := [], cmd_Signature := ''sig''\<rparr>"

definition sample_loader :: "string \<Rightarrow> (string, (string \<times> Command) list \<times> load_log list) result" where
  "sample_loader owner = LoadCommands id sample_gpg (\<lambda>c. if cmd_Signature c = [] then Inr ''canon'' else Inr ''x'') 10
     (\<lambda>_. None) (\<lambda>_. Inr summarize_command) owner (Inr [\<lparr>de_Name = ''a.yaml'', de_IsDir = False\<rparr>])"

definition sample_daemon :: daemon_parts where
  "sample_daemon = startDaemon sample_owner_json sample_ym (\<lambda>_. Inr []) sample_rs ''/h'' sample_loader (\<lambda>_. Some (\<lambda>_. True)) sample_secrets"

definition daemon_sample_run :: "unit outcome" where
  "daemon_sample_run = Run (daemon_executor sample_daemon sample_executor (\<lambda>_ _ _ _ _ _ w. (Inr (''ok'', False), w)) (\<lambda>_ _ _ _ _ _ w. (Inr ([], False), w)))
     ''id'' 0 \<lparr>em_MessageID = ''7'', em_From = ''A <A@b>'', em_Subject = ''do''\<rparr> ''body'' ()"

theorem daemon_acts_by_owner_for_sender_witness:
  "\<exists>cmd. map_of (dp_commands sample_daemon) ''summarize'' = Some cmd \<and> command_ok (\<lambda>_. None) cmd"
proof -
  have d: "sample_daemon = startDaemon sample_owner_json sample_ym (\<lambda>_. Inr []) sample_rs ''/h''
     (\<lambda>owner. LoadCommands id sample_gpg (\<lambda>c. if cmd_Signature c = [] then Inr ''canon'' else Inr ''x'') 10
       (\<lambda>_. None) (\<lambda>_. Inr summarize_command) owner (Inr [\<lparr>de_Name = ''a.yaml'', de_IsDir = False\<rparr>])) (\<lambda>_. Some (\<lambda>_. True)) sample_secrets"
    unfolding sample_daemon_def sample_loader_def ..
  have w: "dp_worker sample_daemon = True" by code_simp
  have sl: "dp_slots sample_daemon = 2" by code_simp
  have pass: "RunPipeline \<lparr>em_MessageID = ''7'', em_From = ''A <A@b>'', em_Subject = ''do''\<rparr> ''body''
     \<in> set (fst (OnNewMail sample_mail (\<lambda>_. Some (contact_book (\<lambda>r. r) sample_book)) (dp_worker sample_daemon) (dp_slots sample_daemon)
       0 (\<lambda>_. 0) 1))" unfolding w sl by (rule Handler.sample_run)
  have run: "daemon_sample_run = ((fst (fst daemon_sample_run), snd (fst daemon_sample_run)), fst (snd daemon_sample_run), snd (snd daemon_sample_run))"
    by (simp only: prod.collapse)
  have "list_ex (\<lambda>e. case e of Ran i c inp t r \<Rightarrow> cc_Command c = ''summarize'' | _ \<Rightarrow> False) (fst (snd daemon_sample_run))" by code_simp
  then obtain e where e: "e \<in> set (fst (snd daemon_sample_run))" "(case e of Ran i c inp t r \<Rightarrow> cc_Command c = ''summarize'' | _ \<Rightarrow> False)"
    by (simp only: list_ex_iff) blast
  obtain i c inp t r where ran: "e = Ran i c inp t r" "cc_Command c = ''summarize''"
    using e(2) by (cases rule: pipe_event.exhaust [of e]) simp_all
  from daemon_acts_by_owner_for_sender [OF d sample_book_reach sample_keeps(1) sample_settings pass
      run [unfolded daemon_sample_run_def] e(1) [unfolded ran(1) daemon_sample_run_def]]
  show ?thesis unfolding ran(2) by (elim conjE exE) (intro exI conjI)
qed

end
