(* ===== verification/Spec2Isabelle.thy ===== *)
theory Spec2Isabelle
  imports Prelude GoStrings GoPath PathMatch Command CommandLoad KeyExpiry Signature Payload Contract Worker
    Runner Pipeline Persist Contacts Handler Imports Json Permissions Enable Poller Identity Secret MailConfig
    GoSplit Pgp Daemon ReplyTag Compose Transport Mime Mailbox Tables ToolArgs Tools ToolSafety Session
    SessionTools McpReg Cli Admin Startup
begin

text \<open>
  A verification library for beadle: an e-mail account for an AI assistant (\<open>beadle-email\<close>, an MCP server
  and a command line) and a daemon (\<open>beadle-daemon\<close>) that runs signed commands for mail from trusted
  senders. The theories translate the Go code under \<open>src/\<close>, function by function and with the same names
  where Isabelle allows them; this one imports them all.

  The parts and how they interact. A poll of the mailbox (\<open>Poller\<close>) tells the daemon how many messages are
  unread. Its handler (\<open>Handler\<close>) lists them and admits those whose sender is a contact with the x
  permission (\<open>Contacts\<close>) on a trusted transport or with a valid signature (\<open>Pgp\<close>); an
  admitted message becomes a pipeline (\<open>Pipeline\<close>) or a mission (\<open>Contract\<close>) whose commands
  come from recipe files (\<open>Command\<close>, \<open>CommandLoad\<close>) that the owner's key has signed
  (\<open>Signature\<close>, \<open>KeyExpiry\<close>), and whose stages are run by claude or by whitelisted binaries
  (\<open>Worker\<close>, \<open>Runner\<close>) on text that is fenced against its sender (\<open>Payload\<close>);
  records of pipelines are kept on disk (\<open>Persist\<close>). \<open>Startup\<close> puts these together as the
  daemon does. Beside it, the MCP tools (\<open>Tools\<close>, \<open>SessionTools\<close>) and the commands
  (\<open>Cli\<close>, \<open>Admin\<close>, \<open>McpReg\<close>) read the mailbox (\<open>Mailbox\<close>,
  \<open>Mime\<close>) and send mail (\<open>ReplyTag\<close>, \<open>Compose\<close>, \<open>Transport\<close>) as an
  identity (\<open>Identity\<close>) with its configuration (\<open>MailConfig\<close>) and secrets
  (\<open>Secret\<close>). \<open>Enable\<close> ties a repository in, with an import line in its CLAUDE.md
  (\<open>Imports\<close>) and allow rules in its settings (\<open>Permissions\<close>, \<open>Json\<close>).

  \<^bold>\<open>Theories and code.\<close>
  Foundations.
  \<^item> \<open>Prelude\<close>: results \<open>'e + 'a\<close> with \<open>Inl\<close> the error,
  \<open>and_then\<close> for Go's early return, and their simplification rules.
  \<^item> \<open>GoStrings\<close>, \<open>GoSplit\<close>, \<open>GoPath\<close>, \<open>PathMatch\<close>: what the
  code uses of \<open>strings\<close>, \<open>bytes\<close>, \<open>unicode/utf8\<close>, \<open>strconv\<close>,
  \<open>path/filepath\<close> and \<open>path.Match\<close>, over byte strings: a \<open>char\<close> is a byte.
  \<^item> \<open>Json\<close>: tokens, grammar, string literals and layout of \<open>encoding/json\<close>, for the
  files whose other members must survive an edit.

  The daemon, \<open>internal/daemon\<close> and \<open>cmd/beadle-daemon\<close>.
  \<^item> \<open>Command\<close>: \<open>Command\<close>, \<open>ValidateCommand\<close>, \<open>ValidateArgs\<close>
  (command.go).
  \<^item> \<open>CommandLoad\<close>: \<open>loadCommand\<close>, \<open>LoadCommands\<close> (command.go), over the
  locale \<open>recipe_gate\<close>.
  \<^item> \<open>KeyExpiry\<close>, \<open>Signature\<close>: pgp/expiry.go and signature.go.
  \<^item> \<open>Payload\<close>: templates.go's sanitizing, capping and fencing.
  \<^item> \<open>Contract\<close>: templates.go's contracts and mission.go.
  \<^item> \<open>Worker\<close>: spawner.go and the system prompt.
  \<^item> \<open>Runner\<close>: runner.go, with the locale \<open>capture\<close> for the two ways output is capped.
  \<^item> \<open>Pipeline\<close>: planner.go, schema.go, pipeline.go.
  \<^item> \<open>Persist\<close>: persist.go over the locale \<open>directory\<close>.
  \<^item> \<open>Handler\<close>: handler.go and email/trust.go, over the locale \<open>sender_book\<close>, which the
  address book interprets.
  \<^item> \<open>Daemon\<close>: config.go, and of \<open>cmd/beadle-daemon\<close> main.go's owner key, registry and
  sweep, sign_cmd.go, verify_cmd.go, init_cmd.go.
  \<^item> \<open>Startup\<close>: how \<open>runCmd\<close> builds handler, planner, workers and executor.

  Mail, \<open>internal/email\<close>, \<open>contacts\<close>, \<open>pgp\<close>, \<open>secret\<close>,
  \<open>identity\<close>.
  \<^item> \<open>Contacts\<close>: contacts.go, permissions.go, store.go.
  \<^item> \<open>Secret\<close>: secret.go, keychain_linux.go.
  \<^item> \<open>Identity\<close>: paths.go, resolve.go, migrate.go.
  \<^item> \<open>MailConfig\<close>: config.go, resolve.go and the set_poll_interval tool.
  \<^item> \<open>Poller\<close>: poller.go and the unread marker.
  \<^item> \<open>Pgp\<close>: sign.go, verify.go, decrypt.go, encrypt.go, probe.go.
  \<^item> \<open>ReplyTag\<close>: repotag.go, reply.go, compose.go.
  \<^item> \<open>Compose\<close>: send.go's messages.
  \<^item> \<open>Transport\<close>: smtp.go, chain.go and send.go's Resend client.
  \<^item> \<open>Mime\<close>: mime.go.
  \<^item> \<open>Mailbox\<close>: imap.go and the thread of a reply.

  The server and the command line, \<open>internal/mcp\<close>, \<open>session\<close>, \<open>cmd/beadle-email\<close>.
  \<^item> \<open>Tables\<close>: table.go, format.go.
  \<^item> \<open>ToolArgs\<close>: the arguments, attachments and permission gates of tools.go.
  \<^item> \<open>Tools\<close>, \<open>ToolSafety\<close>: every tool of tools.go.
  \<^item> \<open>Session\<close>: roster.go.
  \<^item> \<open>SessionTools\<close>: identity_tools.go, enable_tool.go, ws.go.
  \<^item> \<open>McpReg\<close>: mcpreg.go.
  \<^item> \<open>Cli\<close>: email_cmd.go, contact_cmd.go, globals.go.
  \<^item> \<open>Admin\<close>: admin_cmd.go, install.go, identity_cmd.go.

  Repositories.
  \<^item> \<open>Imports\<close>: claudemd/imports.go.
  \<^item> \<open>Permissions\<close>: permissions/permissions.go, over the locale \<open>allow_rules\<close>.
  \<^item> \<open>Enable\<close>: enable/enable.go.

  \<^bold>\<open>Conventions.\<close>
  A struct is a record, an error an own datatype with one constructor per \<open>return\<close>, its text left out. What
  is outside the repository is a parameter, usually a field of a record named after the part that asks for it: gpg,
  claude, ps and other processes; IMAP and SMTP servers and Resend, as functions of what was sent to them so far; files,
  as maps from paths to bytes with the outcome of every system call; json, yaml and MIME libraries; clocks, random bytes
  and the tables of Unicode. What a function does outside is recorded: a trace of SMTP steps, of IMAP commands, of
  requests, of saves and runner calls. The theorems hold for every value of these parameters, except where a hypothesis
  names what is documented of one.

  Integers keep their width where it matters: message numbers and unread counts are \<open>32 word\<close>, the poller's
  failures wrap, the capped writer's counter is 64 bits. Bounds of the code are kept as constants: 10 generations of
  processes up to claude, 65,536 bytes a line on the WebSocket, 25 MB of attachments, 1 MB of captured output, 80
  columns of a table, 20 messages a pass, 2 workers, 4,000 characters of a shown part. No definition uses fuel:
  recursion is structural or has a measure, and the one loop whose end is not plain, the walk to the root in
  \<open>projectScopeMCPFile\<close>, is a \<open>partial_function\<close> that is proved to end (C38).

  Concurrency is made of step relations or interleaved lists of atomic actions: the poller's Start, Stop and SetInterval
  (\<open>Poller\<close>), the pruning goroutine (\<open>Persist\<close>), the handler's worker slots
  (\<open>Handler\<close>), and the states a sequence of operations with any failures reaches
  (\<open>store_reach\<close>, \<open>perm_step\<close>, \<open>repo_step\<close>).

  \<^bold>\<open>What is shown.\<close>

  \<^item> Authority (C1 to C5): what the daemon runs was signed by the one configured owner key, for mail of a contact
  with the x permission on a trusted transport; recipes load only when authorized; \<open>sign\<close> without
  \<open>--force\<close> writes only what verifies under the owner's key; a verified signature is the owner's over exactly the canonical bytes.
  \<^item> The tools (C6 to C10): sending is gated by w and the tools for reading by r, reading tools change nothing in the mailbox, a
  download stays in its directory, a batch touches what was asked for.
  \<^item> Mail (C11 to C18): no credentials before TLS, no fall back to less protection, a success means acceptance of
  the message asked for, what is composed is read back whole, parsing is a fold over the leaves, listings are exact and
  bounded.
  \<^item> Pipelines (C19 to C25): every run ends and is recorded, each call reads what it should and is made once in
  order, no sender text passes for the daemon's, in a payload or in a contract, the worker's order of mission and spawn,
  the exact pruning.
  \<^item> Contacts and identity (C26 to C29): patterns carry no authority, the book stays well formed, resolution never
  falls back past an error, what \<open>init\<close> writes enables the daemon.
  \<^item> Repositories (C30 to C33): the marker implies the import, every rule granted is accounted for through any
  failure, revoking restores the settings token for token, pruning removes exactly the line.
  \<^item> The poller (C34 to C36): hooks called as promised when the first poll is answered, one loop at most, calls
  finish.
  \<^item> The command line (C37 to C40): a duplicate is warned of, the search ends, commands and doctor agree on the
  configuration, doctor succeeds exactly when what mail needs is there.

  Beside these the theories hold the lemmas each component rests on, among them those that show where the code does not
  do what it says, each with its own name: \<open>bare_prefix_key_matches_all\<close>,
  \<open>failed_first_poll_prompts\<close>, \<open>overlapping_calls_orphan_a_loop\<close>,
  \<open>dangling_owner_handle_signs_anyway\<close>, \<open>signature_in_preamble\<close>,
  \<open>Preflight_misses_record\<close>, \<open>ReplySubject_leading_space\<close>, \<open>quit_refused_twice\<close>,
  \<open>encrypted_headers_decide_trust\<close>, \<open>single_tools_accept_zero\<close>,
  \<open>recipient_sent_whole\<close>, \<open>diagnosis_ignores_contacts\<close>,
  \<open>sender_name_breaks_rows\<close>, \<open>long_answer_ends_session\<close>,
  \<open>other_plugin_taken_for_beadle\<close>, \<open>broken_identity_config_masked\<close>,
  \<open>handle_written_bare\<close>. The properties that such a lemma limits state the limit as a hypothesis.

  \<^bold>\<open>Not modelled.\<close>

  \<^item> \<open>internal/testserver\<close>, \<open>testenv\<close>, \<open>daemontest\<close>: servers and fixtures
  that only tests run.
  \<^item> Logging, the text of error messages, progress lines, file modes: no decision of the code reads them.
  \<^item> Flag parsing and wiring (cobra, the tool schemas, the construction of the servers in \<open>serve\<close>,
  signals), and \<open>health\<close>'s one HTTP request: they only call what is modelled.
  \<^item> \<open>Dial\<close>, \<open>Close\<close> and \<open>ParseSearchSince\<close> of imap.go and dialer.go: the
  outcome of dialling and the date are parameters.
  \<^item> The macOS keychain: a build for another system; the Linux one is modelled.
  \<^item> Lock file names in \<open>claudemd\<close>: the exclusion they give is expressed by the transitions being
  atomic.
  \<^item> A pipeline's save that the store refuses: it is only logged and changes nothing of the run, so the trace
  records what was handed to the store.
  \<^item> An envelope missing from an IMAP answer panics in \<open>FetchMessage\<close>; the model has
  \<open>None\<close> for it.
\<close>

end
